(* ===== verification/Prelude.thy ===== *)
theory Prelude imports Main
begin

text \<open>
  Shared vocabulary of the development: the exceptions the modelled code raises, results of
  code that may raise, the loops every validator is built from, and the generic lemmas on
  lists and results the components share.
\<close>

section \<open>Exceptions and results\<close>

text \<open>
  One constructor per exception class the modelled code raises. The string names the raise
  site; the formatted message of the source (which quotes the offending value) is not kept.
\<close>

datatype exn =
    EngineError string
  | EngineJournalError string
  | HashMismatchError string
  | ProbePlanError string
  | DraftPlanError string
  | RiskError string
  | CaptureError string
  | RegistryError string
  | RegistryCorruptionError string
  | AttemptLogError string
  | TradeBackfillError string
  | OHLCError string
  | PortfolioError string
  | CostModelError string
  | TaxExportError string
  | AlphaError string
  | BenchmarkError string
  | FlattenRefused string
  | FlattenUnreachable string
  | JSONDecodeError
  | TypeError
  | ValueError
  | KeyError
  | IndexError
  | AttributeError
  | OverflowError
  | ZeroDivisionError
  | InvalidOperation
  | OSError

type_synonym 'a res = "exn + 'a"

text \<open>\<open>cli/engine/errors.py\<close> and \<open>probeplan.py\<close>: which classes \<open>except EngineError\<close> catches.\<close>

fun is_engine_error :: "exn \<Rightarrow> bool" where
  "is_engine_error (EngineError _) = True"
| "is_engine_error (EngineJournalError _) = True"
| "is_engine_error (HashMismatchError _) = True"
| "is_engine_error (ProbePlanError _) = True"
| "is_engine_error (DraftPlanError _) = True"
| "is_engine_error _ = False"

definition rbind :: "'a res \<Rightarrow> ('a \<Rightarrow> 'b res) \<Rightarrow> 'b res" where
  "rbind r f = (case r of Inl e \<Rightarrow> Inl e | Inr a \<Rightarrow> f a)"

lemma rbind_simps [simp]:
  "rbind (Inl e) f = Inl e"
  "rbind (Inr a) f = f a"
  by (simp_all add: rbind_def)

lemma rbind_Inr_iff: "rbind r f = Inr b \<longleftrightarrow> (\<exists>a. r = Inr a \<and> f a = Inr b)"
  by (cases r) auto

lemma rbind_Inl_iff: "rbind r f = Inl e \<longleftrightarrow> r = Inl e \<or> (\<exists>a. r = Inr a \<and> f a = Inl e)"
  by (cases r) auto

text \<open>A \<open>for\<close> loop whose body only checks: the first raise ends it.\<close>

fun for_each :: "('a \<Rightarrow> unit res) \<Rightarrow> 'a list \<Rightarrow> unit res" where
  "for_each f [] = Inr ()"
| "for_each f (x # xs) = rbind (f x) (\<lambda>_. for_each f xs)"

text \<open>A comprehension whose element expression may raise.\<close>

fun rmap :: "('a \<Rightarrow> 'b res) \<Rightarrow> 'a list \<Rightarrow> 'b list res" where
  "rmap f [] = Inr []"
| "rmap f (x # xs) = rbind (f x) (\<lambda>y. rbind (rmap f xs) (\<lambda>ys. Inr (y # ys)))"

lemma for_each_Inr_iff: "for_each f xs = Inr () \<longleftrightarrow> (\<forall>x \<in> set xs. f x = Inr ())"
  by (induction xs) (auto simp: rbind_Inr_iff)

lemma for_each_append: "for_each f (xs @ ys) = rbind (for_each f xs) (\<lambda>_. for_each f ys)"
proof (induction xs)
  case (Cons x xs)
  then show ?case by (cases "f x") simp_all
qed simp

lemma for_each_Inl_ex: "for_each f xs = Inl e \<Longrightarrow> \<exists>x \<in> set xs. f x = Inl e"
  by (induction xs) (auto simp: rbind_Inl_iff)

lemma rmap_Inr_iff:
  "rmap f xs = Inr ys \<longleftrightarrow> list_all2 (\<lambda>x y. f x = Inr y) xs ys"
proof (induction xs arbitrary: ys)
  case Nil
  then show ?case by auto
next
  case (Cons x xs)
  then show ?case by (cases ys) (auto simp: rbind_Inr_iff)
qed

lemma rmap_length: "rmap f xs = Inr ys \<Longrightarrow> length ys = length xs"
  by (simp add: rmap_Inr_iff list_all2_lengthD)

lemma rmap_mem: "rmap f xs = Inr ys \<Longrightarrow> y \<in> set ys \<Longrightarrow> \<exists>x \<in> set xs. f x = Inr y"
  by (induction xs arbitrary: ys) (auto simp: rbind_Inr_iff)

lemma rmap_total: "(\<And>x. x \<in> set xs \<Longrightarrow> \<exists>y. f x = Inr y) \<Longrightarrow> \<exists>ys. rmap f xs = Inr ys"
  by (induction xs) fastforce+

lemma rmap_mem': "rmap f xs = Inr ys \<Longrightarrow> x \<in> set xs \<Longrightarrow> \<exists>y \<in> set ys. f x = Inr y"
  by (induction xs arbitrary: ys) (auto simp: rbind_Inr_iff)

lemma rmap_Inl_ex: "rmap f xs = Inl e \<Longrightarrow> \<exists>x \<in> set xs. f x = Inl e"
  by (induction xs) (auto simp: rbind_Inl_iff)

lemma rmap_pure: "(\<And>x. x \<in> set xs \<Longrightarrow> f x = Inr (g x)) \<Longrightarrow> rmap f xs = Inr (map g xs)"
  by (induction xs) auto

section \<open>Lists\<close>

text \<open>\<open>next((x for x in xs if p(x)), None)\<close>\<close>

abbreviation first_of :: "('a \<Rightarrow> bool) \<Rightarrow> 'a list \<Rightarrow> 'a option" where
  "first_of p xs \<equiv> List.find p xs"

text \<open>Rewrite the first element that satisfies \<open>p\<close>, as the in-place updates of a found row do.\<close>

fun update_first :: "('a \<Rightarrow> bool) \<Rightarrow> ('a \<Rightarrow> 'a) \<Rightarrow> 'a list \<Rightarrow> 'a list" where
  "update_first p f [] = []"
| "update_first p f (x # xs) = (if p x then f x # xs else x # update_first p f xs)"

lemma update_first_length [simp]: "length (update_first p f xs) = length xs"
  by (induction xs) auto

lemma update_first_none: "List.find p xs = None \<Longrightarrow> update_first p f xs = xs"
  by (induction xs) (auto split: if_splits)

lemma update_first_decomp:
  "List.find p xs = Some x \<Longrightarrow>
   \<exists>us vs. xs = us @ x # vs \<and> (\<forall>u \<in> set us. \<not> p u) \<and> p x \<and> update_first p f xs = us @ f x # vs"
proof (induction xs)
  case Nil
  then show ?case by simp
next
  case (Cons y xs)
  show ?case
  proof (cases "p y")
    case True
    with Cons.prems show ?thesis by (intro exI [of _ "[]"] exI [of _ xs]) auto
  next
    case False
    with Cons.prems Cons.IH obtain us vs where
      "xs = us @ x # vs" "\<forall>u \<in> set us. \<not> p u" "p x" "update_first p f xs = us @ f x # vs"
      by auto
    with False show ?thesis by (intro exI [of _ "y # us"] exI [of _ vs]) auto
  qed
qed

lemma find_mem: "List.find p xs = Some x \<Longrightarrow> x \<in> set xs \<and> p x"
  by (auto simp: find_Some_iff)

lemma find_None_set: "List.find p xs = None \<longleftrightarrow> (\<forall>x \<in> set xs. \<not> p x)"
  by (auto simp: find_None_iff)

lemma filter_partition_mset_len:
  "length (filter p xs) + length (filter (\<lambda>x. \<not> p x) xs) = length xs"
  by (induction xs) auto

text \<open>\<open>next(x for x in xs if p(x))\<close> with a test that may raise: it stops at the first hit.\<close>

fun find_res :: "('a \<Rightarrow> bool res) \<Rightarrow> 'a list \<Rightarrow> nat option res" where
  "find_res p [] = Inr None"
| "find_res p (x # xs) =
     rbind (p x) (\<lambda>hit. if hit then Inr (Some 0)
                        else rbind (find_res p xs) (\<lambda>k. Inr (map_option Suc k)))"

lemma find_res_Some:
  "find_res p xs = Inr (Some k) \<Longrightarrow>
     k < length xs \<and> p (xs ! k) = Inr True \<and> (\<forall>j < k. p (xs ! j) = Inr False)"
proof (induction xs arbitrary: k)
  case (Cons x xs)
  show ?case
  proof (cases "p x")
    case (Inr b)
    show ?thesis
    proof (cases b)
      case False
      with Cons.prems Inr obtain k' where "find_res p xs = Inr (Some k')" "k = Suc k'"
        by (auto simp: rbind_Inr_iff)
      with Cons.IH [of k'] Inr False show ?thesis by (auto simp: less_Suc_eq_0_disj)
    qed (use Cons.prems Inr in auto)
  qed (use Cons.prems in auto)
qed simp

lemma concat_const_Nil: "(\<And>x. x \<in> set xs \<Longrightarrow> f x = []) \<Longrightarrow> concat (map f xs) = []"
  by (induction xs) auto

section \<open>Runs of operations\<close>

text \<open>
  A store operated on through calls that either return the new state or raise and change nothing.
  A run goes on after a call that raised, as the engine's loop does.
\<close>

definition try_op :: "('op \<Rightarrow> 's \<Rightarrow> 's res) \<Rightarrow> 'op \<Rightarrow> 's \<Rightarrow> 's" where
  "try_op step op s = (case step op s of Inl _ \<Rightarrow> s | Inr s' \<Rightarrow> s')"

definition run_ops :: "('op \<Rightarrow> 's \<Rightarrow> 's res) \<Rightarrow> 'op list \<Rightarrow> 's \<Rightarrow> 's" where
  "run_ops step ops s = fold (try_op step) ops s"

lemma run_ops_simps [simp]:
  "run_ops step [] s = s"
  "run_ops step (op # ops) s = run_ops step ops (try_op step op s)"
  by (simp_all add: run_ops_def)

text \<open>What a store promises: an invariant no successful call breaks.\<close>

locale guarded_store =
  fixes step :: "'op \<Rightarrow> 's \<Rightarrow> 's res" and inv :: "'s \<Rightarrow> bool"
  assumes step_inv: "inv s \<Longrightarrow> step op s = Inr s' \<Longrightarrow> inv s'"
begin

lemma run_inv: "inv s \<Longrightarrow> inv (run_ops step ops s)"
  by (induction ops arbitrary: s) (auto simp: try_op_def step_inv split: sum.splits)

end

text \<open>A write-ahead store also never forgets: what it has on record, it keeps on record.\<close>

locale write_ahead_store = guarded_store step inv
  for step :: "'op \<Rightarrow> 's \<Rightarrow> 's res" and inv :: "'s \<Rightarrow> bool" +
  fixes recorded :: "'s \<Rightarrow> 'k set"
  assumes step_recorded: "inv s \<Longrightarrow> step op s = Inr s' \<Longrightarrow> recorded s \<subseteq> recorded s'"
begin

lemma run_recorded: "inv s \<Longrightarrow> recorded s \<subseteq> recorded (run_ops step ops s)"
proof (induction ops arbitrary: s)
  case (Cons op ops)
  show ?case
  proof (cases "step op s")
    case (Inr s')
    from step_inv [OF Cons.prems Inr] have "recorded s' \<subseteq> recorded (run_ops step ops s')" by (rule Cons.IH)
    with step_recorded [OF Cons.prems Inr] Inr show ?thesis by (auto simp: try_op_def)
  qed (use Cons in \<open>simp add: try_op_def\<close>)
qed simp

lemma recorded_after:
  assumes "inv s" and "step op s = Inr s'" and "k \<in> recorded s'"
  shows "k \<in> recorded (run_ops step ops s')"
  using run_recorded [OF step_inv [OF assms(1,2)]] assms(3) by blast

end

section \<open>Numbers in text\<close>

fun digits :: "nat \<Rightarrow> string" where
  "digits n = (if n < 10 then [char_of (48 + n)] else digits (n div 10) @ [char_of (48 + n mod 10)])"

declare digits.simps [simp del]

end
