(* ===== verification/PyFloat.thy ===== *)
theory PyFloat imports Complex_Main Prelude
begin

text \<open>
  Python's \<open>float\<close>: IEEE 754 binary64 with round-half-even, infinities and one NaN. A finite
  value is the rational it denotes; the two zeros are identified (no modelled operation tells
  them apart: Python raises on division by either). Sums, differences, products and quotients
  are the exact result rounded once, overflowing to an infinity.
\<close>

section \<open>Values and rounding\<close>

datatype pyfloat = Fin rat | PInf | NInf | NaN

text \<open>The number of binary digits of \<open>n\<close>.\<close>

function bits :: "int \<Rightarrow> int" where
  "bits n = (if n \<le> 0 then 0 else 1 + bits (n div 2))"
  by pat_completeness auto
termination
  by (relation "measure nat") auto

declare bits.simps [simp del]

text \<open>\<open>p / q\<close> rounded to an integer, ties to even.\<close>

definition div_even :: "int \<Rightarrow> int \<Rightarrow> int" where
  "div_even p q =
     (let d = p div q; r = p mod q
      in if 2 * r < q then d else if q < 2 * r then d + 1 else if even d then d else d + 1)"

text \<open>\<open>m * 2 ^ e\<close> for an exponent of either sign.\<close>

definition scale2 :: "int \<Rightarrow> int \<Rightarrow> rat" where
  "scale2 m e = (if 0 \<le> e then of_int (m * 2 ^ nat e) else of_int m / of_int (2 ^ nat (- e)))"

text \<open>\<open>(p / q) / 2 ^ e\<close> as a fraction of integers.\<close>

definition unscale :: "int \<Rightarrow> int \<Rightarrow> int \<Rightarrow> int \<times> int" where
  "unscale p q e = (if 0 \<le> e then (p, q * 2 ^ nat e) else (p * 2 ^ nat (- e), q))"

text \<open>
  The exponent of the last place: 53 significant bits, never below the subnormal \<open>2 ^ -1074\<close>.
\<close>

definition ulp_exp :: "int \<Rightarrow> int \<Rightarrow> int" where
  "ulp_exp p q =
     (let e0 = bits p - bits q - 53;
          (a, b) = unscale p q e0;
          e = (if b * 2 ^ 53 \<le> a then e0 + 1 else e0)
      in max e (- 1074))"

definition rnd_pos :: "int \<Rightarrow> int \<Rightarrow> rat" where
  "rnd_pos p q =
     (let e = ulp_exp p q; (a, b) = unscale p q e in scale2 (div_even a b) e)"

definition fround :: "rat \<Rightarrow> pyfloat" where
  "fround x =
     (let (p, q) = quotient_of x; r = rnd_pos \<bar>p\<bar> q
      in if p = 0 then Fin 0
         else if 2 ^ 1024 \<le> r then (if 0 < p then PInf else NInf)
         else Fin (if 0 < p then r else - r))"

section \<open>Arithmetic\<close>

fun fneg :: "pyfloat \<Rightarrow> pyfloat" where
  "fneg (Fin x) = Fin (- x)"
| "fneg PInf = NInf"
| "fneg NInf = PInf"
| "fneg NaN = NaN"

fun fadd :: "pyfloat \<Rightarrow> pyfloat \<Rightarrow> pyfloat" where
  "fadd (Fin x) (Fin y) = fround (x + y)"
| "fadd NaN _ = NaN"
| "fadd _ NaN = NaN"
| "fadd PInf NInf = NaN"
| "fadd NInf PInf = NaN"
| "fadd PInf _ = PInf"
| "fadd _ PInf = PInf"
| "fadd NInf _ = NInf"
| "fadd _ NInf = NInf"

definition fsub :: "pyfloat \<Rightarrow> pyfloat \<Rightarrow> pyfloat" where
  "fsub a b = fadd a (fneg b)"

fun fsign :: "pyfloat \<Rightarrow> int" where
  "fsign (Fin x) = (if x < 0 then - 1 else if x = 0 then 0 else 1)"
| "fsign PInf = 1"
| "fsign NInf = - 1"
| "fsign NaN = 0"

definition inf_of :: "int \<Rightarrow> pyfloat" where
  "inf_of s = (if s = 0 then NaN else if 0 < s then PInf else NInf)"

fun fmul :: "pyfloat \<Rightarrow> pyfloat \<Rightarrow> pyfloat" where
  "fmul (Fin x) (Fin y) = fround (x * y)"
| "fmul NaN _ = NaN"
| "fmul _ NaN = NaN"
| "fmul a b = inf_of (fsign a * fsign b)"

text \<open>Python raises \<open>ZeroDivisionError\<close> where IEEE would give an infinity or NaN.\<close>

fun fdiv :: "pyfloat \<Rightarrow> pyfloat \<Rightarrow> pyfloat res" where
  "fdiv a (Fin y) =
     (if y = 0 then Inl ZeroDivisionError
      else Inr (case a of Fin x \<Rightarrow> fround (x / y) | NaN \<Rightarrow> NaN | _ \<Rightarrow> inf_of (fsign a * fsign (Fin y))))"
| "fdiv a NaN = Inr NaN"
| "fdiv a _ = Inr (case a of Fin x \<Rightarrow> Fin 0 | _ \<Rightarrow> NaN)"

fun fabs :: "pyfloat \<Rightarrow> pyfloat" where
  "fabs (Fin x) = Fin \<bar>x\<bar>"
| "fabs NaN = NaN"
| "fabs _ = PInf"

section \<open>Comparison: every order comparison with a NaN is false\<close>

fun flt :: "pyfloat \<Rightarrow> pyfloat \<Rightarrow> bool" where
  "flt (Fin x) (Fin y) = (x < y)"
| "flt NaN _ = False"
| "flt _ NaN = False"
| "flt PInf _ = False"
| "flt _ PInf = True"
| "flt _ NInf = False"
| "flt NInf _ = True"

definition feq :: "pyfloat \<Rightarrow> pyfloat \<Rightarrow> bool" where
  "feq a b \<longleftrightarrow> a = b \<and> a \<noteq> NaN"

definition fle :: "pyfloat \<Rightarrow> pyfloat \<Rightarrow> bool" where
  "fle a b \<longleftrightarrow> flt a b \<or> feq a b"

abbreviation fgt :: "pyfloat \<Rightarrow> pyfloat \<Rightarrow> bool" where
  "fgt a b \<equiv> flt b a"

abbreviation fge :: "pyfloat \<Rightarrow> pyfloat \<Rightarrow> bool" where
  "fge a b \<equiv> fle b a"

fun isfinite :: "pyfloat \<Rightarrow> bool" where
  "isfinite (Fin _) = True"
| "isfinite _ = False"

text \<open>Python's \<open>max(a, b)\<close>: the second argument only when it is strictly greater.\<close>

definition fmax :: "pyfloat \<Rightarrow> pyfloat \<Rightarrow> pyfloat" where
  "fmax a b = (if fgt b a then b else a)"

definition fmin :: "pyfloat \<Rightarrow> pyfloat \<Rightarrow> pyfloat" where
  "fmin a b = (if flt b a then b else a)"

text \<open>\<open>float(n)\<close> of an int.\<close>

definition float_of_int :: "int \<Rightarrow> pyfloat res" where
  "float_of_int n =
     (case fround (of_int n) of Fin r \<Rightarrow> Inr (Fin r) | _ \<Rightarrow> Inl OverflowError)"

section \<open>Lemmas\<close>

lemma flt_irrefl [simp]: "\<not> flt a a"
  by (cases a) auto

lemma flt_trans: "flt a b \<Longrightarrow> flt b c \<Longrightarrow> flt a c"
  by (cases a; cases b; cases c) auto

lemma fle_Fin [simp]: "fle (Fin x) (Fin y) \<longleftrightarrow> x \<le> y"
  by (auto simp: fle_def feq_def)

lemma feq_Fin [simp]: "feq (Fin x) (Fin y) \<longleftrightarrow> x = y"
  by (simp add: feq_def)

lemma not_flt_fle: "a \<noteq> NaN \<Longrightarrow> b \<noteq> NaN \<Longrightarrow> \<not> flt a b \<Longrightarrow> fle b a"
  by (cases a; cases b) (auto simp: fle_def feq_def)

lemma fle_not_flt: "fle a b \<Longrightarrow> \<not> flt b a"
  by (cases a; cases b) (auto simp: fle_def feq_def)

lemma isfinite_iff: "isfinite a \<longleftrightarrow> (\<exists>x. a = Fin x)"
  by (cases a) auto

lemma fgt_zero_finite: "isfinite a \<Longrightarrow> flt (Fin 0) a \<longleftrightarrow> (\<exists>x > 0. a = Fin x)"
  by (cases a) auto

lemma isfinite_not_NaN: "isfinite a \<Longrightarrow> a \<noteq> NaN"
  by (cases a) auto

lemma fadd_zero_exact: "fround x = Fin x \<Longrightarrow> fadd (Fin 0) (Fin x) = Fin x \<and> fadd (Fin x) (Fin 0) = Fin x"
  by simp

lemma bits_pos: "0 < n \<Longrightarrow> bits n = 1 + bits (n div 2)"
  by (subst bits.simps) simp

lemma bits_nonpos [simp]: "n \<le> 0 \<Longrightarrow> bits n = 0"
  by (subst bits.simps) simp

lemma bits_nonneg [simp]: "0 \<le> bits n"
proof (induction n rule: bits.induct)
  case (1 n)
  then show ?case by (subst bits.simps) auto
qed

lemma bits_bounds: "0 < n \<Longrightarrow> 1 \<le> bits n \<and> 2 ^ nat (bits n - 1) \<le> n \<and> n < 2 ^ nat (bits n)"
proof (induction n rule: bits.induct)
  case (1 n)
  show ?case
  proof (cases "n div 2 \<le> 0")
    case True
    with "1.prems" have "n = 1" by simp
    then show ?thesis by (simp add: bits_pos)
  next
    case False
    let ?k = "bits (n div 2)"
    from False "1.IH" "1.prems" have ih:
      "1 \<le> ?k" "2 ^ nat (?k - 1) \<le> n div 2" "n div 2 < 2 ^ nat ?k" by auto
    have b: "bits n = 1 + ?k" using "1.prems" by (rule bits_pos)
    have "nat ?k = Suc (nat (?k - 1))" "nat (1 + ?k) = Suc (nat ?k)" using ih(1) by auto
    then have "2 ^ nat ?k = 2 * (2 :: int) ^ nat (?k - 1)" "2 ^ nat (1 + ?k) = 2 * (2 :: int) ^ nat ?k"
      by simp_all
    moreover have "2 * (n div 2) \<le> n" "n \<le> 2 * (n div 2) + 1" by simp_all
    ultimately show ?thesis using ih b by auto
  qed
qed

lemma bits_le: "0 \<le> n \<Longrightarrow> n < 2 ^ k \<Longrightarrow> bits n \<le> int k"
proof (rule ccontr)
  assume n: "0 \<le> n" "n < 2 ^ k" and "\<not> bits n \<le> int k"
  then have "0 < n" by (cases "n = 0") auto
  from bits_bounds [OF this] have "2 ^ nat (bits n - 1) \<le> n" by simp
  moreover have "(2 :: int) ^ k \<le> 2 ^ nat (bits n - 1)"
    using \<open>\<not> bits n \<le> int k\<close> by (intro power_increasing) auto
  ultimately show False using n by simp
qed

lemma div_even_1 [simp]: "div_even a 1 = a"
  by (simp add: div_even_def)

text \<open>Integers of up to 53 bits are exact.\<close>

lemma rnd_pos_int:
  assumes "0 < n" and "n < 2 ^ 53"
  shows "rnd_pos n 1 = of_int n"
proof -
  define k where "k = bits n"
  have k: "1 \<le> k" "2 ^ nat (k - 1) \<le> n" "n < 2 ^ nat k" "k \<le> 53"
    using bits_bounds [OF assms(1)] bits_le [of n 53] assms by (auto simp: k_def)
  have "(2::int) ^ 53 = 2 ^ nat (k - 1) * 2 ^ nat (54 - k)"
    using k(1,4) by (simp flip: power_add add: nat_add_distrib [symmetric])
  also have "\<dots> \<le> n * 2 ^ nat (54 - k)" using k(2) by simp
  finally have "ulp_exp n 1 = k - 53"
    using k(1,4) by (simp add: ulp_exp_def unscale_def Let_def bits_pos flip: k_def)
  then show ?thesis
    using k(4) by (cases "k = 53") (auto simp: rnd_pos_def unscale_def Let_def scale2_def)
qed

lemma fround_int:
  assumes "\<bar>n\<bar> < 2 ^ 53"
  shows "fround (of_int n) = Fin (of_int n)"
proof -
  have "rnd_pos \<bar>n\<bar> 1 = of_int \<bar>n\<bar>" if "n \<noteq> 0"
    using that assms by (intro rnd_pos_int) auto
  moreover have "(of_int \<bar>n\<bar> :: rat) < 2 ^ 1024"
  proof -
    have "\<bar>n\<bar> < 2 ^ 1024" using assms by (rule less_trans) simp
    then show ?thesis by (metis of_int_less_iff of_int_numeral of_int_power)
  qed
  ultimately show ?thesis
    by (cases "n = 0") (auto simp: fround_def Let_def quotient_of_int abs_if split: if_splits)
qed


text \<open>What \<open>simp\<close> needs to round a concrete fraction whose \<open>quotient_of\<close> is known.\<close>

lemmas float_eval =
  fround_def Let_def rnd_pos_def ulp_exp_def unscale_def div_even_def scale2_def bits_pos

section \<open>The built-in sum\<close>

text \<open>
  \<open>sum()\<close> over floats, as CPython has done it since 3.12: Neumaier's compensated addition, the
  compensation added once at the end when it is finite.
\<close>

fun neumaier :: "pyfloat \<Rightarrow> pyfloat \<Rightarrow> pyfloat list \<Rightarrow> pyfloat" where
  "neumaier hi lo [] = (if isfinite lo \<and> lo \<noteq> Fin 0 then fadd hi lo else hi)"
| "neumaier hi lo (x # xs) =
     (let t = fadd hi x;
          c = (if fge (fabs hi) (fabs x) then fadd (fsub hi t) x else fadd (fsub x t) hi)
      in neumaier t (fadd lo c) xs)"

definition fsum :: "pyfloat list \<Rightarrow> pyfloat" where
  "fsum xs = (case xs of [] \<Rightarrow> Fin 0 | y # ys \<Rightarrow> neumaier (fadd (Fin 0) y) (Fin 0) ys)"

end
