(* ===== verification/PyValue.thy ===== *)
theory PyValue imports PyFloat "HOL-Library.AList"
begin

text \<open>
  The Python values the journal's files carry: what \<open>json.loads\<close> returns, with the dictionary
  an association list in insertion order; Python's equality, truth, hashing and \<open>isinstance\<close> on
  them; and \<open>datetime\<close> (wall clock and optional UTC offset, in microseconds).
\<close>

section \<open>JSON values\<close>

datatype json =
    JNull
  | JBool bool
  | JInt int
  | JFloat pyfloat
  | JStr string
  | JArr "json list"
  | JObj "(string \<times> json) list"

type_synonym jdict = "(string \<times> json) list"

text \<open>What a text file holds: the value \<open>json.loads\<close> gives, or nothing it accepts.\<close>

datatype jtext = Parsed json | Malformed

definition json_loads :: "jtext \<Rightarrow> json res" where
  "json_loads t = (case t of Parsed v \<Rightarrow> Inr v | Malformed \<Rightarrow> Inl JSONDecodeError)"

text \<open>A dictionary of Python has each key once.\<close>

definition dict_ok :: "jdict \<Rightarrow> bool" where
  "dict_ok d \<longleftrightarrow> distinct (map fst d)"

definition dkeys :: "jdict \<Rightarrow> string list" where
  "dkeys d = map fst d"

text \<open>\<open>d.get(k)\<close>: an absent key reads \<open>None\<close>.\<close>

definition dget :: "jdict \<Rightarrow> string \<Rightarrow> json" where
  "dget d k = (case map_of d k of None \<Rightarrow> JNull | Some v \<Rightarrow> v)"

text \<open>\<open>d[k]\<close>\<close>

definition dindex :: "jdict \<Rightarrow> string \<Rightarrow> json res" where
  "dindex d k = (case map_of d k of None \<Rightarrow> Inl KeyError | Some v \<Rightarrow> Inr v)"

text \<open>\<open>d[k] = v\<close>: in place where the key is present, at the end otherwise.\<close>

definition dset :: "jdict \<Rightarrow> string \<Rightarrow> json \<Rightarrow> jdict" where
  "dset d k v = AList.update k v d"

definition has_key :: "jdict \<Rightarrow> string \<Rightarrow> bool" where
  "has_key d k \<longleftrightarrow> k \<in> set (dkeys d)"

text \<open>\<open>frozenset(d.keys()) == keys\<close>\<close>

definition exact_keys :: "jdict \<Rightarrow> string list \<Rightarrow> bool" where
  "exact_keys d ks \<longleftrightarrow> set (dkeys d) = set ks"

section \<open>Types, truth and equality\<close>

fun is_obj :: "json \<Rightarrow> bool" where
  "is_obj (JObj _) = True"
| "is_obj _ = False"

fun is_arr :: "json \<Rightarrow> bool" where
  "is_arr (JArr _) = True"
| "is_arr _ = False"

fun is_str :: "json \<Rightarrow> bool" where
  "is_str (JStr _) = True"
| "is_str _ = False"

text \<open>\<open>isinstance(v, (int, float))\<close> and not a bool, which is an int to Python.\<close>

fun is_number :: "json \<Rightarrow> bool" where
  "is_number (JInt _) = True"
| "is_number (JFloat _) = True"
| "is_number _ = False"

fun truthy :: "json \<Rightarrow> bool" where
  "truthy JNull = False"
| "truthy (JBool b) = b"
| "truthy (JInt i) = (i \<noteq> 0)"
| "truthy (JFloat x) = (x \<noteq> Fin 0)"
| "truthy (JStr s) = (s \<noteq> [])"
| "truthy (JArr xs) = (xs \<noteq> [])"
| "truthy (JObj d) = (d \<noteq> [])"

fun hashable :: "json \<Rightarrow> bool" where
  "hashable (JArr _) = False"
| "hashable (JObj _) = False"
| "hashable _ = True"

text \<open>\<open>v == n\<close> for an int: \<open>True == 1\<close> and \<open>1.0 == 1\<close> hold in Python.\<close>

fun eq_int :: "json \<Rightarrow> int \<Rightarrow> bool" where
  "eq_int (JInt i) n = (i = n)"
| "eq_int (JBool b) n = (n = (if b then 1 else 0))"
| "eq_int (JFloat (Fin x)) n = (x = of_int n)"
| "eq_int _ n = False"

text \<open>Membership in a frozenset hashes the value first: a list or a dict raises \<open>TypeError\<close>.\<close>

definition in_int_set :: "json \<Rightarrow> int list \<Rightarrow> bool res" where
  "in_int_set v ns = (if hashable v then Inr (list_ex (eq_int v) ns) else Inl TypeError)"

definition in_str_set :: "json \<Rightarrow> string list \<Rightarrow> bool res" where
  "in_str_set v ss = (if hashable v then Inr (list_ex (\<lambda>s. v = JStr s) ss) else Inl TypeError)"

text \<open>\<open>float(v)\<close> of a number.\<close>

fun to_float :: "json \<Rightarrow> pyfloat res" where
  "to_float (JInt i) = float_of_int i"
| "to_float (JFloat x) = Inr x"
| "to_float (JBool b) = Inr (Fin (if b then 1 else 0))"
| "to_float _ = Inl TypeError"

text \<open>\<open>for x in v\<close>: a dict yields its keys and a string its characters, anything else raises.\<close>

fun iter_json :: "json \<Rightarrow> json list res" where
  "iter_json (JArr xs) = Inr xs"
| "iter_json (JObj d) = Inr (map JStr (dkeys d))"
| "iter_json (JStr s) = Inr (map (\<lambda>c. JStr [c]) s)"
| "iter_json _ = Inl TypeError"

text \<open>\<open>v[k]\<close> with a string \<open>k\<close>.\<close>

fun jindex :: "json \<Rightarrow> string \<Rightarrow> json res" where
  "jindex (JObj d) k = dindex d k"
| "jindex _ k = Inl TypeError"

text \<open>\<open>v + x\<close> with a float \<open>x\<close>.\<close>

fun json_plus_float :: "json \<Rightarrow> pyfloat \<Rightarrow> json res" where
  "json_plus_float (JInt i) x = rbind (float_of_int i) (\<lambda>y. Inr (JFloat (fadd y x)))"
| "json_plus_float (JBool b) x = Inr (JFloat (fadd (Fin (if b then 1 else 0)) x))"
| "json_plus_float (JFloat y) x = Inr (JFloat (fadd y x))"
| "json_plus_float _ x = Inl TypeError"

text \<open>The members of a list value (\<open>[]\<close> for a value that is none; the validators exclude it).\<close>

fun arr_of :: "json \<Rightarrow> json list" where
  "arr_of (JArr xs) = xs"
| "arr_of _ = []"

fun obj_of :: "json \<Rightarrow> jdict" where
  "obj_of (JObj d) = d"
| "obj_of _ = []"

lemma is_arr_arr_of [simp]: "is_arr v \<Longrightarrow> JArr (arr_of v) = v"
  by (cases v) auto

lemma is_obj_obj_of [simp]: "is_obj v \<Longrightarrow> JObj (obj_of v) = v"
  by (cases v) auto

lemma in_str_set_Inr_True:
  "in_str_set v ss = Inr True \<longleftrightarrow> (\<exists>s \<in> set ss. v = JStr s)"
  by (cases v) (auto simp: in_str_set_def list_ex_iff)

lemma in_str_set_JStr [simp]: "in_str_set (JStr s) ss = Inr (s \<in> set ss)"
  by (auto simp: in_str_set_def list_ex_iff)

lemma in_int_set_JInt [simp]: "in_int_set (JInt i) ns = Inr (i \<in> set ns)"
  by (auto simp: in_int_set_def list_ex_iff)

lemma is_obj_iff: "is_obj v \<longleftrightarrow> (\<exists>d. v = JObj d)"
  by (cases v) auto

lemma is_arr_iff: "is_arr v \<longleftrightarrow> (\<exists>xs. v = JArr xs)"
  by (cases v) auto

lemma is_str_iff: "is_str v \<longleftrightarrow> (\<exists>s. v = JStr s)"
  by (cases v) auto

section \<open>Dictionary lemmas\<close>

lemma map_of_dset: "map_of (dset d k v) k' = (if k' = k then Some v else map_of d k')"
  by (simp add: dset_def update_conv')

lemma dget_dset: "dget (dset d k v) k' = (if k' = k then v else dget d k')"
  by (simp add: dget_def map_of_dset)

lemma dget_dset_same [simp]: "dget (dset d k v) k = v"
  by (simp add: dget_dset)

lemma dget_dset_other [simp]: "k' \<noteq> k \<Longrightarrow> dget (dset d k v) k' = dget d k'"
  by (simp add: dget_dset)

lemma dict_ok_dset [simp]: "dict_ok d \<Longrightarrow> dict_ok (dset d k v)"
  by (simp add: dict_ok_def dset_def distinct_update)

lemma set_dkeys_dset: "set (dkeys (dset d k v)) = insert k (set (dkeys d))"
  unfolding dkeys_def dset_def by (induction d) auto

lemma exact_keys_dset: "exact_keys d ks \<Longrightarrow> k \<in> set ks \<Longrightarrow> exact_keys (dset d k v) ks"
  by (auto simp: exact_keys_def set_dkeys_dset)

lemma has_key_iff: "has_key d k \<longleftrightarrow> map_of d k \<noteq> None"
  by (simp add: has_key_def dkeys_def map_of_eq_None_iff)

lemma dindex_Inr_dget: "dindex d k = Inr v \<Longrightarrow> dget d k = v"
  by (auto simp: dindex_def dget_def split: option.splits)

lemma dindex_has_key: "has_key d k \<Longrightarrow> dindex d k = Inr (dget d k)"
  by (auto simp: dindex_def dget_def has_key_iff split: option.splits)

lemma exact_keys_has: "exact_keys d ks \<Longrightarrow> k \<in> set ks \<Longrightarrow> has_key d k"
  by (simp add: exact_keys_def has_key_def)

section \<open>Date and time\<close>

text \<open>
  \<open>wall\<close> is the wall-clock reading in microseconds since 1970-01-01T00:00 on that clock, \<open>off\<close>
  what \<open>utcoffset()\<close> returns (\<open>None\<close> for a naive value). The calendar's year bounds are not
  modelled, and a day is its number since 1970-01-01.
\<close>

record dt =
  wall :: int
  off :: "int option"

abbreviation second_us :: int where "second_us \<equiv> 1000000"
abbreviation minute_us :: int where "minute_us \<equiv> 60000000"
abbreviation hour_us :: int where "hour_us \<equiv> 3600000000"
abbreviation day_us :: int where "day_us \<equiv> 86400000000"

definition utc :: "int \<Rightarrow> dt" where
  "utc t = \<lparr>wall = t, off = Some 0\<rparr>"

definition naive :: "dt \<Rightarrow> bool" where
  "naive d \<longleftrightarrow> off d = None"

text \<open>Microseconds of the instant an aware value names (a naive one is read as it stands).\<close>

definition instant :: "dt \<Rightarrow> int" where
  "instant d = wall d - (case off d of None \<Rightarrow> 0 | Some z \<Rightarrow> z)"

definition comparable :: "dt \<Rightarrow> dt \<Rightarrow> bool" where
  "comparable a b \<longleftrightarrow> naive a = naive b"

text \<open>\<open><\<close>, \<open><=\<close> and subtraction raise on a naive and an aware operand; \<open>==\<close> is then false.\<close>

definition dt_lt :: "dt \<Rightarrow> dt \<Rightarrow> bool res" where
  "dt_lt a b = (if comparable a b then Inr (instant a < instant b) else Inl TypeError)"

definition dt_le :: "dt \<Rightarrow> dt \<Rightarrow> bool res" where
  "dt_le a b = (if comparable a b then Inr (instant a \<le> instant b) else Inl TypeError)"

definition dt_eq :: "dt \<Rightarrow> dt \<Rightarrow> bool" where
  "dt_eq a b \<longleftrightarrow> comparable a b \<and> instant a = instant b"

definition dt_sub :: "dt \<Rightarrow> dt \<Rightarrow> int res" where
  "dt_sub a b = (if comparable a b then Inr (instant a - instant b) else Inl TypeError)"

text \<open>\<open>d + timedelta\<close>\<close>

definition dt_add :: "dt \<Rightarrow> int \<Rightarrow> dt" where
  "dt_add d us = d\<lparr>wall := wall d + us\<rparr>"

text \<open>\<open>d.date()\<close> and \<open>d.hour\<close>\<close>

definition dt_day :: "dt \<Rightarrow> int" where
  "dt_day d = wall d div day_us"

definition dt_hour :: "dt \<Rightarrow> int" where
  "dt_hour d = wall d mod day_us div hour_us"

text \<open>\<open>timedelta.total_seconds()\<close>: an integer quotient, rounded once.\<close>

definition total_seconds :: "int \<Rightarrow> pyfloat" where
  "total_seconds us = fround (of_int us / 1000000)"

lemma utc_simps [simp]:
  "wall (utc t) = t" "off (utc t) = Some 0" "instant (utc t) = t" "\<not> naive (utc t)"
  by (simp_all add: utc_def instant_def naive_def)

lemma dt_utc [simp]:
  "dt_lt (utc a) (utc b) = Inr (a < b)"
  "dt_le (utc a) (utc b) = Inr (a \<le> b)"
  "dt_eq (utc a) (utc b) \<longleftrightarrow> a = b"
  "dt_sub (utc a) (utc b) = Inr (a - b)"
  "dt_add (utc a) us = utc (a + us)"
  by (simp_all add: dt_lt_def dt_le_def dt_eq_def dt_sub_def dt_add_def comparable_def utc_def
      instant_def naive_def)

lemma utc_eq [simp]: "utc a = utc b \<longleftrightarrow> a = b"
  by (simp add: utc_def)

end
