(* ===== verification/ExecGate.thy ===== *)
theory ExecGate imports PyValue
begin

text \<open>
  \<open>cli/engine/venue.py\<close> and \<open>cli/engine/execgate.py\<close>: the venue status read, the control files, and
  the predicate every order submission passes. What a reader outside this repository does (an
  HTTP body, a file's \<open>lstat\<close>, the installed nautilus version) is an argument.
\<close>

section \<open>The venue's status (venue.py)\<close>

record venue_status =
  vs_status :: string
  vs_ok :: bool
  vs_observed_at :: dt

text \<open>What opening the URL and reading its body as JSON comes to.\<close>

datatype fetched = TransportError | BodyError | Body json

definition ok_status :: string where
  "ok_status = ''online''"

definition read_system_status :: "dt \<Rightarrow> fetched \<Rightarrow> venue_status" where
  "read_system_status now opener =
     (let unreadable = \<lparr>vs_status = ''unreadable'', vs_ok = False, vs_observed_at = now\<rparr>
      in case opener of
           TransportError \<Rightarrow> \<lparr>vs_status = ''unreachable'', vs_ok = False, vs_observed_at = now\<rparr>
         | BodyError \<Rightarrow> unreadable
         | Body (JObj payload) \<Rightarrow>
             (if truthy (dget payload ''error'') then unreadable
              else (case dget payload ''result'' of
                      JObj result \<Rightarrow>
                        (case dget result ''status'' of
                           JStr status \<Rightarrow>
                             (if status = [] then unreadable
                              else \<lparr>vs_status = status, vs_ok = (status = ok_status), vs_observed_at = now\<rparr>)
                         | _ \<Rightarrow> unreadable)
                    | _ \<Rightarrow> unreadable))
         | Body _ \<Rightarrow> unreadable)"

lemma read_system_status_observed [simp]: "vs_observed_at (read_system_status now r) = now"
  by (simp add: read_system_status_def Let_def split: fetched.splits json.splits)

section \<open>Levels\<close>

datatype level = NONE | REDUCE_ONLY | FULL

fun level_code :: "level \<Rightarrow> int" where
  "level_code NONE = 0"
| "level_code REDUCE_ONLY = 1"
| "level_code FULL = 2"

fun level_name :: "level \<Rightarrow> string" where
  "level_name NONE = ''none''"
| "level_name REDUCE_ONLY = ''reduce_only''"
| "level_name FULL = ''full''"

text \<open>Least to most permissive: the order of the codes.\<close>

instantiation level :: linorder
begin

definition less_eq_level :: "level \<Rightarrow> level \<Rightarrow> bool" where
  "less_eq_level a b \<longleftrightarrow> level_code a \<le> level_code b"

definition less_level :: "level \<Rightarrow> level \<Rightarrow> bool" where
  "less_level a b \<longleftrightarrow> level_code a < level_code b"

instance
proof
  fix a b :: level
  show "a \<le> b \<Longrightarrow> b \<le> a \<Longrightarrow> a = b"
    by (cases a; cases b) (simp_all add: less_eq_level_def)
qed (auto simp: less_eq_level_def less_level_def)

end

lemma level_le_simps [simp]:
  "NONE \<le> (l :: level)" "l \<le> FULL"
  by (cases l; simp add: less_eq_level_def)+

section \<open>Control files\<close>

text \<open>
  A control file as \<open>stat\<close> sees it. \<open>Path.exists\<close> follows a link and reads every failure as
  absent; \<open>os.lstat\<close> does neither.
\<close>

datatype entry = Absent | Present | DanglingLink | StatOSError | StatValueError

record ctl =
  arm_file :: entry
  kill_file :: entry
  hold_file :: entry

fun path_exists :: "entry \<Rightarrow> bool" where
  "path_exists Present = True"
| "path_exists _ = False"

fun lstat_present :: "entry \<Rightarrow> bool" where
  "lstat_present Absent = False"
| "lstat_present _ = True"

definition present :: "entry \<Rightarrow> bool \<Rightarrow> bool" where
  "present f fail_open = (if \<not> fail_open then path_exists f else lstat_present f)"

text \<open>\<open>None\<close>: the directory or the file could not be written, and the caller sees the \<open>OSError\<close>.\<close>

definition write_restart_hold :: "bool \<Rightarrow> ctl \<Rightarrow> ctl res" where
  "write_restart_hold writable c = (if writable then Inr (c\<lparr>hold_file := Present\<rparr>) else Inl OSError)"

section \<open>The nautilus version\<close>

text \<open>The committed record as read: \<open>None\<close> when its text could not be read or is not JSON.\<close>

fun verified_nautilus_versions :: "json option \<Rightarrow> string list" where
  "verified_nautilus_versions (Some (JObj d)) =
     (case dget d ''verified_nautilus_versions'' of
        JArr xs \<Rightarrow>
          (if list_all is_str xs then concat (map (\<lambda>v. case v of JStr s \<Rightarrow> [s] | _ \<Rightarrow> []) xs) else [])
      | _ \<Rightarrow> [])"
| "verified_nautilus_versions _ = []"

text \<open>A version reader that raises, or returns nothing, reads as the empty string.\<close>

datatype version_read = VersionRaises | Version "string option"

fun running_version :: "version_read \<Rightarrow> string" where
  "running_version VersionRaises = []"
| "running_version (Version None) = []"
| "running_version (Version (Some v)) = v"

section \<open>The gate\<close>

record verdict =
  v_level :: level
  v_reasons :: "string list"
  v_inputs :: jdict

definition armed :: "verdict \<Rightarrow> bool" where
  "armed v \<longleftrightarrow> truthy (dget (v_inputs v) ''armed_in_config'') \<and> truthy (dget (v_inputs v) ''arm_file'')"

record gate =
  armed_in_config :: bool
  max_age :: pyfloat
  snapshot :: "venue_status option"

definition new_gate :: "bool \<Rightarrow> gate" where
  "new_gate a = \<lparr>armed_in_config = a, max_age = Fin 30, snapshot = None\<rparr>"

text \<open>What the injected venue reader does on one call.\<close>

datatype venue_read = ReaderRaises | ReaderGarbage | ReaderStatus venue_status

text \<open>The world one evaluation reads.\<close>

record surroundings =
  files :: ctl
  venue_reader :: "dt \<Rightarrow> venue_read"
  version_reader :: version_read
  verified_record :: "json option"

text \<open>The cached reading is used for \<open>now\<close> at or after it, within the bound.\<close>

definition cached_ok :: "gate \<Rightarrow> dt \<Rightarrow> venue_status \<Rightarrow> bool res" where
  "cached_ok g now snap =
     rbind (dt_sub now (vs_observed_at snap))
       (\<lambda>us. let delta = total_seconds us in Inr (fle (Fin 0) delta \<and> fle delta (max_age g)))"

definition fresh_reading :: "surroundings \<Rightarrow> dt \<Rightarrow> venue_status" where
  "fresh_reading w now =
     (let unreadable = \<lparr>vs_status = ''unreadable'', vs_ok = False, vs_observed_at = now\<rparr>
      in case venue_reader w now of
           ReaderRaises \<Rightarrow> \<lparr>vs_status = ''unreachable'', vs_ok = False, vs_observed_at = now\<rparr>
         | ReaderGarbage \<Rightarrow> unreadable
         | ReaderStatus s \<Rightarrow> (if naive (vs_observed_at s) then unreadable else s))"

definition venue :: "gate \<Rightarrow> surroundings \<Rightarrow> dt \<Rightarrow> (venue_status \<times> gate) res" where
  "venue g w now =
     rbind (case snapshot g of None \<Rightarrow> Inr False | Some snap \<Rightarrow> cached_ok g now snap)
       (\<lambda>hit. if hit then Inr (the (snapshot g), g)
              else (let s = fresh_reading w now in Inr (s, g\<lparr>snapshot := Some s\<rparr>)))"

text \<open>The conditions in declaration order, each with the reason it reports.\<close>

definition gate_reasons :: "bool \<Rightarrow> bool \<Rightarrow> bool \<Rightarrow> bool \<Rightarrow> bool \<Rightarrow> bool \<Rightarrow> string list" where
  "gate_reasons kill in_config armed_file venue_ok nautilus_verified hold =
     (if kill then [''kill_switch''] else []) @
     (if \<not> in_config then [''config_not_armed''] else []) @
     (if \<not> armed_file then [''arm_file_absent''] else []) @
     (if \<not> venue_ok then [''venue_not_online''] else []) @
     (if \<not> nautilus_verified then [''nautilus_unverified''] else []) @
     (if hold then [''restart_hold''] else [])"

definition gate_level :: "bool \<Rightarrow> bool \<Rightarrow> bool \<Rightarrow> bool \<Rightarrow> bool \<Rightarrow> bool \<Rightarrow> level" where
  "gate_level kill in_config armed_file venue_ok nautilus_verified hold =
     (let l0 = FULL;
          l1 = (if kill then NONE else l0);
          l2 = (if \<not> in_config then NONE else l1);
          l3 = (if \<not> armed_file then NONE else l2);
          l4 = (if \<not> venue_ok then NONE else l3);
          l5 = (if \<not> nautilus_verified then NONE else l4)
      in if hold then (if l5 \<noteq> NONE then REDUCE_ONLY else l5) else l5)"

definition evaluate :: "gate \<Rightarrow> surroundings \<Rightarrow> dt \<Rightarrow> (verdict \<times> gate) res" where
  "evaluate g w now =
     (let armed_file = present (arm_file (files w)) False;
          kill = present (kill_file (files w)) True;
          hold = present (hold_file (files w)) True
      in rbind (venue g w now) (\<lambda>(v, g').
           let running = running_version (version_reader w);
               verified = running \<in> set (verified_nautilus_versions (verified_record w))
           in rbind (dt_sub now (vs_observed_at v)) (\<lambda>age_us.
                Inr (\<lparr>v_level = gate_level kill (armed_in_config g) armed_file (vs_ok v) verified hold,
                      v_reasons = gate_reasons kill (armed_in_config g) armed_file (vs_ok v) verified hold,
                      v_inputs =
                        [(''armed_in_config'', JBool (armed_in_config g)),
                         (''arm_file'', JBool armed_file),
                         (''kill_file'', JBool kill),
                         (''restart_hold'', JBool hold),
                         (''venue_status'', JStr (vs_status v)),
                         (''venue_snapshot_age_seconds'', JFloat (total_seconds age_us)),
                         (''nautilus_version'', JStr running),
                         (''nautilus_verified'', JBool verified)]\<rparr>, g'))))"


section \<open>The decision table\<close>

lemma gate_level_FULL:
  "gate_level kill cfg arm vok ver hold = FULL \<longleftrightarrow> \<not> kill \<and> cfg \<and> arm \<and> vok \<and> ver \<and> \<not> hold"
  by (simp add: gate_level_def Let_def)

lemma gate_level_NONE:
  "gate_level kill cfg arm vok ver hold = NONE \<longleftrightarrow> kill \<or> \<not> cfg \<or> \<not> arm \<or> \<not> vok \<or> \<not> ver"
  by (simp add: gate_level_def Let_def)

lemma gate_level_REDUCE:
  "gate_level kill cfg arm vok ver hold = REDUCE_ONLY \<longleftrightarrow>
     \<not> kill \<and> cfg \<and> arm \<and> vok \<and> ver \<and> hold"
  by (simp add: gate_level_def Let_def)

lemmas gate_levels = gate_level_FULL gate_level_NONE gate_level_REDUCE

lemma lstat_present_iff: "lstat_present e \<longleftrightarrow> e \<noteq> Absent"
  by (cases e) auto

lemma path_exists_iff: "path_exists e \<longleftrightarrow> e = Present"
  by (cases e) auto

lemma present_simps [simp]:
  "present e True \<longleftrightarrow> e \<noteq> Absent" "present e False \<longleftrightarrow> e = Present"
  by (simp_all add: present_def lstat_present_iff path_exists_iff)

section \<open>One evaluation\<close>

text \<open>What a returned evaluation is, over the venue reading it used.\<close>

definition decided :: "gate \<Rightarrow> surroundings \<Rightarrow> venue_status \<Rightarrow> verdict \<Rightarrow> bool" where
  "decided g w s v \<longleftrightarrow>
     (let kill = kill_file (files w) \<noteq> Absent; arm = arm_file (files w) = Present;
          hold = hold_file (files w) \<noteq> Absent;
          ver = running_version (version_reader w) \<in> set (verified_nautilus_versions (verified_record w))
      in v_level v = gate_level kill (armed_in_config g) arm (vs_ok s) ver hold \<and>
         v_reasons v = gate_reasons kill (armed_in_config g) arm (vs_ok s) ver hold)"

lemma evaluate_decided:
  assumes "evaluate g w now = Inr (v, g')"
  obtains s where "venue g w now = Inr (s, g')" and "decided g w s v"
proof -
  from assms obtain s where "venue g w now = Inr (s, g')"
    by (auto simp: evaluate_def Let_def rbind_Inr_iff)
  moreover with assms have "decided g w s v"
    by (auto simp: evaluate_def decided_def Let_def rbind_Inr_iff)
  ultimately show ?thesis by (rule that)
qed

lemma venue_snapshot: "venue g w now = Inr (s, g') \<Longrightarrow> snapshot g' = Some s"
  by (auto simp: venue_def Let_def rbind_Inr_iff split: option.splits if_splits)

lemma venue_frame: "venue g w now = Inr (s, g') \<Longrightarrow> armed_in_config g' = armed_in_config g \<and> max_age g' = max_age g"
  by (auto simp: venue_def Let_def rbind_Inr_iff split: option.splits if_splits)

lemma evaluate_frame:
  "evaluate g w now = Inr (v, g') \<Longrightarrow> armed_in_config g' = armed_in_config g \<and> max_age g' = max_age g"
  by (erule evaluate_decided) (simp add: venue_frame)

text \<open>The reading used is the fresh one, or a cached one inside its bound.\<close>

lemma venue_cases:
  assumes "venue g w now = Inr (s, g')"
  shows "s = fresh_reading w now \<or> (snapshot g = Some s \<and> cached_ok g now s = Inr True)"
  using assms by (auto simp: venue_def Let_def rbind_Inr_iff split: option.splits if_splits)

lemma fresh_reading_aware: "\<not> naive now \<Longrightarrow> \<not> naive (vs_observed_at (fresh_reading w now))"
  by (auto simp: fresh_reading_def Let_def split: venue_read.splits)

text \<open>A cached snapshot is always aware: the read refuses a naive one.\<close>

definition gate_ok :: "gate \<Rightarrow> bool" where
  "gate_ok g \<longleftrightarrow> (\<forall>s. snapshot g = Some s \<longrightarrow> \<not> naive (vs_observed_at s))"

lemma new_gate_ok: "gate_ok (new_gate a)"
  by (simp add: gate_ok_def new_gate_def)

lemma dt_sub_aware: "\<not> naive a \<Longrightarrow> \<not> naive b \<Longrightarrow> dt_sub a b = Inr (instant a - instant b)"
  by (simp add: dt_sub_def comparable_def)

lemma venue_returns:
  assumes "gate_ok g" and "\<not> naive now"
  shows "\<exists>s g'. venue g w now = Inr (s, g') \<and> gate_ok g' \<and> \<not> naive (vs_observed_at s)"
proof (cases "snapshot g")
  case None
  with assms show ?thesis
    by (auto simp: venue_def Let_def gate_ok_def fresh_reading_aware)
next
  case (Some s)
  with assms have "\<not> naive (vs_observed_at s)" by (simp add: gate_ok_def)
  with Some assms show ?thesis
    by (auto simp: venue_def cached_ok_def Let_def dt_sub_aware gate_ok_def fresh_reading_aware)
qed

lemma evaluate_returns:
  assumes "gate_ok g" and "\<not> naive now"
  shows "\<exists>v g'. evaluate g w now = Inr (v, g') \<and> gate_ok g'"
proof -
  from venue_returns [OF assms] obtain s g' where
    "venue g w now = Inr (s, g')" "gate_ok g'" "\<not> naive (vs_observed_at s)" by blast
  with assms show ?thesis
    by (simp add: evaluate_def Let_def dt_sub_aware)
qed

section \<open>Runs of the gate on the venue's own reader\<close>

text \<open>A body that says the venue is online: no error, a result object, the one allowed status.\<close>

definition says_online :: "fetched \<Rightarrow> bool" where
  "says_online r \<longleftrightarrow>
     (\<exists>payload result. r = Body (JObj payload) \<and> \<not> truthy (dget payload ''error'') \<and>
        dget payload ''result'' = JObj result \<and> dget result ''status'' = JStr ok_status)"

lemma read_system_status_ok: "vs_ok (read_system_status now r) \<longleftrightarrow> says_online r"
  by (auto simp: read_system_status_def says_online_def Let_def ok_status_def
      split: fetched.splits json.splits if_splits)

definition reads_kraken :: "surroundings \<Rightarrow> fetched \<Rightarrow> bool" where
  "reads_kraken w r \<longleftrightarrow> venue_reader w = (\<lambda>n. ReaderStatus (read_system_status n r))"

fun gate_run :: "gate \<Rightarrow> (dt \<times> surroundings) list \<Rightarrow> gate res" where
  "gate_run g [] = Inr g"
| "gate_run g ((now, w) # es) = rbind (evaluate g w now) (\<lambda>(v, g'). gate_run g' es)"

text \<open>The cached snapshot is a reading of the history \<open>H\<close>, at the moment it was taken.\<close>

definition snapshot_from :: "(dt \<times> surroundings) set \<Rightarrow> gate \<Rightarrow> bool" where
  "snapshot_from H g \<longleftrightarrow>
     (\<forall>s. snapshot g = Some s \<longrightarrow>
        (\<exists>t w r. (t, w) \<in> H \<and> reads_kraken w r \<and> s = read_system_status t r))"

lemma fresh_reading_kraken:
  "reads_kraken w r \<Longrightarrow> \<not> naive now \<Longrightarrow> fresh_reading w now = read_system_status now r"
  by (simp add: fresh_reading_def reads_kraken_def)

lemma venue_reading_from:
  assumes "venue g w now = Inr (s, g')" and "snapshot_from H g" and "reads_kraken w r"
    and "\<not> naive now"
  shows "\<exists>t w' r'. (t, w') \<in> insert (now, w) H \<and> reads_kraken w' r' \<and> s = read_system_status t r' \<and>
    (t = now \<or> cached_ok g now s = Inr True)"
  using venue_cases [OF assms(1)] assms(2-) fresh_reading_kraken [OF assms(3,4)]
  unfolding snapshot_from_def by blast

lemma evaluate_snapshot_from:
  assumes "evaluate g w now = Inr (v, g')" and "snapshot_from H g" and "reads_kraken w r"
    and "\<not> naive now" and "insert (now, w) H \<subseteq> H'"
  shows "snapshot_from H' g'"
proof -
  from evaluate_decided [OF assms(1)] obtain s where s: "venue g w now = Inr (s, g')" by blast
  from venue_reading_from [OF s assms(2-4)] venue_snapshot [OF s] assms(5) show ?thesis
    unfolding snapshot_from_def by (metis option.inject subsetD)
qed

lemma gate_run_inv:
  assumes "gate_run g es = Inr g'" and "snapshot_from H g"
    and "\<forall>(t, w) \<in> set es. (\<exists>r. reads_kraken w r) \<and> \<not> naive t"
  shows "snapshot_from (H \<union> set es) g' \<and> max_age g' = max_age g"
  using assms
proof (induction es arbitrary: g H)
  case Nil
  then show ?case by simp
next
  case (Cons e es)
  obtain now w where e: "e = (now, w)" by force
  from Cons.prems e obtain v g1 where
    g1: "evaluate g w now = Inr (v, g1)" "gate_run g1 es = Inr g'" by (auto simp: rbind_Inr_iff)
  from Cons.prems(3) e obtain r where "reads_kraken w r" "\<not> naive now" by auto
  from evaluate_snapshot_from [OF g1(1) Cons.prems(2) this subset_refl]
  have "snapshot_from (insert (now, w) H) g1" .
  from Cons.IH [OF g1(2) this] Cons.prems(3) evaluate_frame [OF g1(1)] e show ?case by auto
qed

lemma total_seconds_0 [simp]: "total_seconds 0 = Fin 0"
  by (simp add: total_seconds_def fround_def)

section \<open>Properties\<close>

text \<open>
  C1. The gate permits opening orders exactly when every condition holds: armed in the
  configuration, the arm file present, the kill and restart-hold files provably absent, the
  running nautilus version in the verified record, and the venue reading it used online. An
  aware clock always gets a verdict: no reader's misbehaviour escapes as an exception.
\<close>

theorem gate_full_iff:
  assumes "gate_ok g" and "\<not> naive now"
  shows "\<exists>v g' s. evaluate g w now = Inr (v, g') \<and> gate_ok g' \<and> snapshot g' = Some s \<and>
    (v_level v = FULL \<longleftrightarrow>
       armed_in_config g \<and> arm_file (files w) = Present \<and> kill_file (files w) = Absent \<and>
       hold_file (files w) = Absent \<and> vs_ok s \<and>
       running_version (version_reader w) \<in> set (verified_nautilus_versions (verified_record w)))"
proof -
  from evaluate_returns [OF assms] obtain v g' where e: "evaluate g w now = Inr (v, g')" "gate_ok g'"
    by blast
  from evaluate_decided [OF e(1)] obtain s where s: "venue g w now = Inr (s, g')" "decided g w s v" .
  from s(2) have "v_level v = FULL \<longleftrightarrow>
       armed_in_config g \<and> arm_file (files w) = Present \<and> kill_file (files w) = Absent \<and>
       hold_file (files w) = Absent \<and> vs_ok s \<and>
       running_version (version_reader w) \<in> set (verified_nautilus_versions (verified_record w))"
    by (auto simp: decided_def Let_def gate_levels)
  with e venue_snapshot [OF s(1)] show ?thesis by blast
qed

theorem gate_full_iff_witness:
  "\<exists>v g' s. evaluate (new_gate True)
      \<lparr>files = \<lparr>arm_file = Present, kill_file = Absent, hold_file = Absent\<rparr>,
       venue_reader = (\<lambda>n. ReaderStatus \<lparr>vs_status = ''online'', vs_ok = True, vs_observed_at = n\<rparr>),
       version_reader = Version (Some ''1.230.0''),
       verified_record = Some (JObj [(''verified_nautilus_versions'', JArr [JStr ''1.230.0''])])\<rparr>
      (utc 0) = Inr (v, g') \<and> snapshot g' = Some s \<and> v_level v = FULL"
proof -
  let ?w = "\<lparr>files = \<lparr>arm_file = Present, kill_file = Absent, hold_file = Absent\<rparr>,
       venue_reader = (\<lambda>n. ReaderStatus \<lparr>vs_status = ''online'', vs_ok = True, vs_observed_at = n\<rparr>),
       version_reader = Version (Some ''1.230.0''),
       verified_record = Some (JObj [(''verified_nautilus_versions'', JArr [JStr ''1.230.0''])])\<rparr>"
  have "\<not> naive (utc 0)" by simp
  from gate_full_iff [OF new_gate_ok this, of True ?w] obtain v g' s where
    r: "evaluate (new_gate True) ?w (utc 0) = Inr (v, g')" "snapshot g' = Some s"
    and l: "v_level v = FULL \<longleftrightarrow> armed_in_config (new_gate True) \<and> vs_ok s"
    by (auto simp: dget_def)
  from evaluate_decided [OF r(1)] obtain sa where sa: "venue (new_gate True) ?w (utc 0) = Inr (sa, g')" .
  with r(2) have "sa = s" by (auto dest: venue_snapshot)
  with sa have "venue (new_gate True) ?w (utc 0) = Inr (s, g')" by simp
  then have "vs_ok s"
    by (auto simp: venue_def new_gate_def fresh_reading_def Let_def)
  with r l show ?thesis by (auto simp: new_gate_def)
qed

text \<open>
  The reasons are the complete picture: a condition is reported exactly when it holds, the
  list is empty exactly at the full level, and reduce-only is reached only with the restart hold
  as the one reason.
\<close>

theorem gate_reasons_complete:
  assumes "evaluate g w now = Inr (v, g')"
  shows "(v_level v = FULL \<longleftrightarrow> v_reasons v = []) \<and>
    (v_level v = REDUCE_ONLY \<longleftrightarrow> v_reasons v = [''restart_hold'']) \<and>
    (''kill_switch'' \<in> set (v_reasons v) \<longleftrightarrow> kill_file (files w) \<noteq> Absent) \<and>
    (''config_not_armed'' \<in> set (v_reasons v) \<longleftrightarrow> \<not> armed_in_config g) \<and>
    (''arm_file_absent'' \<in> set (v_reasons v) \<longleftrightarrow> arm_file (files w) \<noteq> Present) \<and>
    (''restart_hold'' \<in> set (v_reasons v) \<longleftrightarrow> hold_file (files w) \<noteq> Absent)"
proof -
  from evaluate_decided [OF assms] obtain s where "decided g w s v" .
  then show ?thesis
    unfolding decided_def Let_def gate_reasons_def
    by (auto simp: gate_levels)
qed

theorem gate_reasons_complete_witness:
  "\<exists>v g'. evaluate (new_gate False)
      \<lparr>files = \<lparr>arm_file = Absent, kill_file = Absent, hold_file = StatOSError\<rparr>,
       venue_reader = (\<lambda>n. ReaderRaises), version_reader = VersionRaises, verified_record = None\<rparr>
      (utc 0) = Inr (v, g') \<and> ''restart_hold'' \<in> set (v_reasons v) \<and>
      ''arm_file_absent'' \<in> set (v_reasons v) \<and> v_level v \<noteq> FULL"
proof -
  let ?w = "\<lparr>files = \<lparr>arm_file = Absent, kill_file = Absent, hold_file = StatOSError\<rparr>,
       venue_reader = (\<lambda>n. ReaderRaises), version_reader = VersionRaises, verified_record = None\<rparr>"
  from evaluate_returns [OF new_gate_ok, of "utc 0" False ?w] obtain v g' where
    e: "evaluate (new_gate False) ?w (utc 0) = Inr (v, g')" by auto
  from gate_reasons_complete [OF e] e show ?thesis by auto
qed


text \<open>
  C3. A verdict above NONE rests on the venue itself saying it was online, at most thirty
  seconds ago and never after the clock it is judged by, however evaluations were interleaved
  before it: the cache can neither outlive its bound nor be trusted across a clock stepped back.
\<close>

theorem gate_venue_fresh:
  assumes "gate_run (new_gate a) es = Inr g"
    and "\<forall>(t, w') \<in> set (es @ [(now, w)]). (\<exists>r. reads_kraken w' r) \<and> \<not> naive t"
    and "evaluate g w now = Inr (v, g')" and "v_level v \<noteq> NONE"
  shows "\<exists>t w' r us. (t, w') \<in> set (es @ [(now, w)]) \<and> reads_kraken w' r \<and> says_online r \<and>
    dt_sub now t = Inr us \<and> fle (Fin 0) (total_seconds us) \<and> fle (total_seconds us) (Fin 30)"
proof -
  have "snapshot_from {} (new_gate a)" by (simp add: snapshot_from_def new_gate_def)
  from gate_run_inv [OF assms(1) this] assms(2)
  have inv: "snapshot_from (set es) g" "max_age g = Fin 30" by (auto simp: new_gate_def)
  from assms(2) obtain r0 where r0: "reads_kraken w r0" "\<not> naive now" by auto
  from evaluate_decided [OF assms(3)] obtain s where s: "venue g w now = Inr (s, g')" "decided g w s v" .
  from s(2) assms(4) have "vs_ok s" by (auto simp: decided_def Let_def gate_levels)
  from venue_reading_from [OF s(1) inv(1) r0] obtain t w' r where
    t: "(t, w') \<in> insert (now, w) (set es)" "reads_kraken w' r" "s = read_system_status t r"
      "t = now \<or> cached_ok g now s = Inr True" by blast
  have "says_online r" using \<open>vs_ok s\<close> t(3) by (simp add: read_system_status_ok)
  moreover have "\<exists>us. dt_sub now t = Inr us \<and> fle (Fin 0) (total_seconds us) \<and> fle (total_seconds us) (Fin 30)"
    using t(3,4) inv(2)
    by (auto simp: cached_ok_def Let_def rbind_Inr_iff dt_sub_def comparable_def split: if_splits)
  ultimately show ?thesis using t(1,2) by auto
qed

theorem gate_venue_fresh_witness:
  "\<exists>t w' r us. (t, w') \<in> set [(utc 0, \<lparr>files = \<lparr>arm_file = Present, kill_file = Absent, hold_file = Present\<rparr>,
       venue_reader = (\<lambda>n. ReaderStatus (read_system_status n
         (Body (JObj [(''result'', JObj [(''status'', JStr ''online'')])])))),
       version_reader = Version (Some ''1''),
       verified_record = Some (JObj [(''verified_nautilus_versions'', JArr [JStr ''1''])])\<rparr>)] \<and>
     reads_kraken w' r \<and> says_online r \<and>
     dt_sub (utc 0) t = Inr us \<and> fle (Fin 0) (total_seconds us) \<and> fle (total_seconds us) (Fin 30)"
proof -
  let ?r = "Body (JObj [(''result'', JObj [(''status'', JStr ''online'')])])"
  let ?w = "\<lparr>files = \<lparr>arm_file = Present, kill_file = Absent, hold_file = Present\<rparr>,
       venue_reader = (\<lambda>n. ReaderStatus (read_system_status n ?r)),
       version_reader = Version (Some ''1''),
       verified_record = Some (JObj [(''verified_nautilus_versions'', JArr [JStr ''1''])])\<rparr>"
  have k: "reads_kraken ?w ?r" by (simp add: reads_kraken_def)
  from evaluate_returns [OF new_gate_ok, of "utc 0" True ?w] obtain v g' where
    e: "evaluate (new_gate True) ?w (utc 0) = Inr (v, g')" by auto
  from evaluate_decided [OF e] obtain s where
    s: "venue (new_gate True) ?w (utc 0) = Inr (s, g')" "decided (new_gate True) ?w s v" .
  from s(1) have "vs_ok s"
    by (auto simp: venue_def new_gate_def fresh_reading_def Let_def read_system_status_ok
        says_online_def dget_def ok_status_def)
  with s(2) have "v_level v \<noteq> NONE"
    by (auto simp: decided_def Let_def gate_levels new_gate_def dget_def)
  from gate_venue_fresh [of True "[]", OF _ _ e this] k show ?thesis by simp blast
qed

text \<open>
  Every doubt refuses: a kill file not provably absent, an arm file not provably present, a
  version reader that raises, or a venue reader that raises or returns garbage with no usable
  cached reading, each force NONE; a restart hold not provably absent caps the level at
  reduce-only, whatever else holds, so a written hold stops every opening order until it is removed.
\<close>

theorem gate_fails_closed:
  assumes "evaluate g w now = Inr (v, g')"
  shows "(kill_file (files w) \<noteq> Absent \<longrightarrow> v_level v = NONE) \<and>
    (arm_file (files w) \<noteq> Present \<longrightarrow> v_level v = NONE) \<and>
    ([] \<notin> set (verified_nautilus_versions (verified_record w)) \<and> version_reader w = VersionRaises
       \<longrightarrow> v_level v = NONE) \<and>
    ((venue_reader w now = ReaderRaises \<or> venue_reader w now = ReaderGarbage) \<and>
       (\<forall>s. snapshot g = Some s \<longrightarrow> cached_ok g now s \<noteq> Inr True) \<longrightarrow> v_level v = NONE) \<and>
    (write_restart_hold True c = Inr (files w) \<longrightarrow> v_level v \<le> REDUCE_ONLY)"
proof -
  from evaluate_decided [OF assms] obtain s where s: "venue g w now = Inr (s, g')" "decided g w s v" .
  have "v_level v = NONE"
    if "venue_reader w now = ReaderRaises \<or> venue_reader w now = ReaderGarbage"
      and "\<forall>s. snapshot g = Some s \<longrightarrow> cached_ok g now s \<noteq> Inr True"
  proof -
    from venue_cases [OF s(1)] that have "\<not> vs_ok s"
      by (auto simp: fresh_reading_def Let_def)
    with s(2) show ?thesis by (auto simp: decided_def Let_def gate_levels)
  qed
  moreover have "v_level v \<le> REDUCE_ONLY" if "write_restart_hold True c = Inr (files w)"
  proof -
    from that have "files w = c\<lparr>hold_file := Present\<rparr>" by (simp add: write_restart_hold_def)
    then have "hold_file (files w) = Present" by simp
    with s(2) have "v_level v \<noteq> FULL" by (auto simp: decided_def Let_def gate_levels)
    then show ?thesis by (cases "v_level v") (auto simp: less_eq_level_def)
  qed
  ultimately show ?thesis
    using s(2) by (auto simp: decided_def Let_def gate_levels)
qed

theorem gate_fails_closed_witness:
  "\<exists>v g'. evaluate (new_gate True)
      \<lparr>files = \<lparr>arm_file = Present, kill_file = DanglingLink, hold_file = Absent\<rparr>,
       venue_reader = (\<lambda>n. ReaderGarbage), version_reader = VersionRaises, verified_record = None\<rparr>
      (utc 0) = Inr (v, g') \<and> v_level v = NONE"
proof -
  let ?w = "\<lparr>files = \<lparr>arm_file = Present, kill_file = DanglingLink, hold_file = Absent\<rparr>,
       venue_reader = (\<lambda>n. ReaderGarbage), version_reader = VersionRaises, verified_record = None\<rparr>"
  from evaluate_returns [OF new_gate_ok, of "utc 0" True ?w] obtain v g' where
    e: "evaluate (new_gate True) ?w (utc 0) = Inr (v, g')" by auto
  from gate_fails_closed [OF e] e show ?thesis by auto
qed

end
