(* ===== verification/ExecLedger.thy ===== *)
theory ExecLedger imports ExecGate "HOL-Library.Product_Lexorder"
begin

text \<open>
  \<open>cli/engine/execledger.py\<close>: the write-ahead ledger of submissions, one JSON record per hourly
  boundary, and the scans the dedup and re-attach passes read. The journal directory is the list of
  its \<open>exec-<HH>.json\<close> files keyed by UTC day and hour; a file is what \<open>json.loads\<close> makes of it, so
  \<open>json.dumps\<close>'s key order is not kept. The OS errors of reading and writing are not modelled. The two
  string conversions of \<open>datetime\<close> are the arguments \<open>isofmt\<close> and \<open>fromiso\<close>.
\<close>

section \<open>Shapes\<close>

definition EXEC_SCHEMA_VERSION :: int where "EXEC_SCHEMA_VERSION = 2"
definition LOADABLE_EXEC_SCHEMA_VERSIONS :: "int list" where "LOADABLE_EXEC_SCHEMA_VERSIONS = [1, 2]"

definition V1_KEYS :: "string list" where
  "V1_KEYS = [''schema_version'', ''cycle_ts'', ''evaluated_at'', ''level'', ''reasons'', ''inputs'', ''submitted'']"

definition V2_KEYS :: "string list" where
  "V2_KEYS = V1_KEYS @ [''plans'']"

definition ROW_KEYS :: "string list" where
  "ROW_KEYS = [''plan_id'', ''intent_index'', ''client_order_id'', ''intent'', ''order'', ''state'',
               ''filled_qty'', ''events'']"

definition PLAN_ENTRY_KEYS :: "string list" where
  "PLAN_ENTRY_KEYS = [''plan_id'', ''received_at'', ''disposition'', ''reasons'', ''plan'', ''intents'']"

definition ROW_STATES :: "string list" where
  "ROW_STATES = [''submitting'', ''accepted'', ''rejected'', ''venue_canceled'', ''canceled'', ''filled'',
                 ''ambiguous'']"

definition OPEN_ORDER_STATES :: "string list" where
  "OPEN_ORDER_STATES = [''submitting'', ''accepted'', ''ambiguous'']"

section \<open>Validation\<close>

definition refuse :: "string \<Rightarrow> unit res" where
  "refuse what = Inl (EngineJournalError what)"

definition validate_row :: "json \<Rightarrow> unit res" where
  "validate_row v =
     (case v of
        JObj row \<Rightarrow>
          (if \<not> exact_keys row ROW_KEYS then refuse ''submitted row keys''
           else if \<not> is_arr (dget row ''events'') then refuse ''submitted row events''
           else rbind (in_str_set (dget row ''state'') ROW_STATES) (\<lambda>ok.
                  if ok then Inr () else refuse ''submitted row state''))
      | _ \<Rightarrow> refuse ''submitted row keys'')"

definition validate_entry :: "json \<Rightarrow> unit res" where
  "validate_entry v =
     (case v of
        JObj entry \<Rightarrow>
          (if \<not> exact_keys entry PLAN_ENTRY_KEYS then refuse ''plan entry keys''
           else if \<not> is_arr (dget entry ''reasons'') then refuse ''plan entry reasons''
           else Inr ())
      | _ \<Rightarrow> refuse ''plan entry keys'')"

definition validate_exec_record :: "json \<Rightarrow> unit res" where
  "validate_exec_record v =
     (let schema_version = (case v of JObj doc \<Rightarrow> dget doc ''schema_version'' | _ \<Rightarrow> JNull);
          doc = obj_of v;
          is1 = eq_int schema_version 1; is2 = eq_int schema_version 2 in
      rbind (in_int_set schema_version LOADABLE_EXEC_SCHEMA_VERSIONS) (\<lambda>loadable.
        if \<not> loadable then refuse ''schema_version''
        else if \<not> exact_keys doc (if is1 then V1_KEYS else V2_KEYS) then refuse ''keys''
        else if \<not> is_arr (dget doc ''reasons'') then refuse ''reasons''
        else if \<not> is_arr (dget doc ''submitted'') then refuse ''submitted''
        else if is1 \<and> arr_of (dget doc ''submitted'') \<noteq> [] then refuse ''schema_version 1 submitted''
        else rbind (for_each validate_row (arr_of (dget doc ''submitted''))) (\<lambda>_.
          if is2 then
            (if \<not> is_arr (dget doc ''plans'') then refuse ''plans''
             else for_each validate_entry (arr_of (dget doc ''plans'')))
          else Inr ())))"

section \<open>Files\<close>

type_synonym slot = "int \<times> int"
type_synonym journal = "(slot \<times> jtext) list"

definition exec_record_path :: "dt \<Rightarrow> slot" where
  "exec_record_path cycle_ts = (dt_day cycle_ts, dt_hour cycle_ts)"

definition cycle_ts_from_path :: "slot \<Rightarrow> dt" where
  "cycle_ts_from_path p = utc (fst p * day_us + snd p * hour_us)"

text \<open>Reading a file: a malformed one is an \<open>EngineError\<close>, never overwritten.\<close>

definition read_existing :: "jtext \<Rightarrow> json res" where
  "read_existing t = (case json_loads t of Inl _ \<Rightarrow> Inl (EngineError ''exec record unreadable'') | Inr v \<Rightarrow> Inr v)"

definition load_valid :: "jtext \<Rightarrow> jdict res" where
  "load_valid t =
     rbind (read_existing t) (\<lambda>v. rbind (validate_exec_record v) (\<lambda>_. Inr (obj_of v)))"

text \<open>The \<open>submitted\<close> and \<open>plans\<close> lists of a document; a version 1 record has no plans.\<close>

definition rows_of :: "jdict \<Rightarrow> json list" where
  "rows_of doc = arr_of (dget doc ''submitted'')"

definition plans_of :: "jdict \<Rightarrow> json list" where
  "plans_of doc = arr_of (dget doc ''plans'')"

definition exec_doc :: "(dt \<Rightarrow> string) \<Rightarrow> dt \<Rightarrow> verdict \<Rightarrow> dt \<Rightarrow> json list \<Rightarrow> json list \<Rightarrow> jdict" where
  "exec_doc isofmt cycle_ts v evaluated_at submitted plans =
     [(''schema_version'', JInt EXEC_SCHEMA_VERSION),
      (''cycle_ts'', JStr (isofmt cycle_ts)),
      (''evaluated_at'', JStr (isofmt evaluated_at)),
      (''level'', JStr (level_name (v_level v))),
      (''reasons'', JArr (map JStr (v_reasons v))),
      (''inputs'', JObj (v_inputs v)),
      (''submitted'', JArr submitted),
      (''plans'', JArr plans)]"

definition load_or_new :: "(dt \<Rightarrow> string) \<Rightarrow> journal \<Rightarrow> slot \<Rightarrow> verdict \<Rightarrow> dt \<Rightarrow> jdict res" where
  "load_or_new isofmt j path v evaluated_at =
     (let cycle_ts = cycle_ts_from_path path in
      rbind (case map_of j path of
               None \<Rightarrow> Inr ([], [])
             | Some t \<Rightarrow> rbind (load_valid t) (\<lambda>old. Inr (rows_of old, plans_of old)))
        (\<lambda>(submitted, plans). Inr (exec_doc isofmt cycle_ts v evaluated_at submitted plans)))"

text \<open>Validate, then replace the file.\<close>

definition store :: "journal \<Rightarrow> slot \<Rightarrow> jdict \<Rightarrow> journal res" where
  "store j path doc =
     rbind (validate_exec_record (JObj doc)) (\<lambda>_. Inr (AList.update path (Parsed (JObj doc)) j))"

section \<open>The mutators\<close>

definition write_exec_record :: "(dt \<Rightarrow> string) \<Rightarrow> dt \<Rightarrow> verdict \<Rightarrow> dt \<Rightarrow> journal \<Rightarrow> journal res" where
  "write_exec_record isofmt cycle_ts v evaluated_at j =
     (let path = exec_record_path cycle_ts in
      rbind (load_or_new isofmt j path v evaluated_at) (store j path))"

definition append_submitted_row ::
  "(dt \<Rightarrow> string) \<Rightarrow> dt \<Rightarrow> jdict \<Rightarrow> verdict \<Rightarrow> dt \<Rightarrow> journal \<Rightarrow> journal res" where
  "append_submitted_row isofmt cycle_ts row v evaluated_at j =
     (let path = exec_record_path cycle_ts in
      rbind (load_or_new isofmt j path v evaluated_at) (\<lambda>doc.
        store j path (dset doc ''submitted'' (JArr (rows_of doc @ [JObj row])))))"

text \<open>The stored record at a boundary, for the calls that never create one.\<close>

definition stored_doc :: "journal \<Rightarrow> slot \<Rightarrow> jdict res" where
  "stored_doc j path =
     (case map_of j path of None \<Rightarrow> Inl (EngineError ''exec record absent'') | Some t \<Rightarrow> load_valid t)"

definition row_with ::
  "string option \<Rightarrow> jdict option \<Rightarrow> json \<Rightarrow> jdict \<Rightarrow> jdict" where
  "row_with state event filled row =
     (let r1 = (case event of None \<Rightarrow> row
                | Some e \<Rightarrow> dset row ''events'' (JArr (arr_of (dget row ''events'') @ [JObj e])));
          r2 = (case state of None \<Rightarrow> r1 | Some s \<Rightarrow> dset r1 ''state'' (JStr s))
      in dset r2 ''filled_qty'' filled)"

definition has_coid :: "string \<Rightarrow> json \<Rightarrow> bool" where
  "has_coid coid r \<longleftrightarrow> dget (obj_of r) ''client_order_id'' = JStr coid"

definition update_submitted_row ::
  "dt \<Rightarrow> string \<Rightarrow> string option \<Rightarrow> jdict option \<Rightarrow> pyfloat \<Rightarrow> journal \<Rightarrow> journal res" where
  "update_submitted_row cycle_ts coid state event add_filled_qty j =
     (let path = exec_record_path cycle_ts in
      rbind (stored_doc j path) (\<lambda>doc.
        case first_of (has_coid coid) (rows_of doc) of
          None \<Rightarrow> Inl (EngineError ''no submitted row'')
        | Some r \<Rightarrow>
            rbind (json_plus_float (dget (obj_of r) ''filled_qty'') add_filled_qty) (\<lambda>filled.
              store j path (dset doc ''submitted''
                (JArr (update_first (has_coid coid)
                        (\<lambda>r. JObj (row_with state event filled (obj_of r))) (rows_of doc)))))))"

definition append_plan_entry ::
  "(dt \<Rightarrow> string) \<Rightarrow> dt \<Rightarrow> jdict \<Rightarrow> verdict \<Rightarrow> dt \<Rightarrow> journal \<Rightarrow> journal res" where
  "append_plan_entry isofmt cycle_ts entry v evaluated_at j =
     (let path = exec_record_path cycle_ts in
      rbind (load_or_new isofmt j path v evaluated_at) (\<lambda>doc.
        store j path (dset doc ''plans'' (JArr (plans_of doc @ [JObj entry])))))"

definition intent_with :: "string \<Rightarrow> string list \<Rightarrow> pyfloat \<Rightarrow> json \<Rightarrow> json" where
  "intent_with outcome reasons filled_qty i =
     JObj (dset (dset (dset (obj_of i) ''outcome'' (JStr outcome)) ''reasons'' (JArr (map JStr reasons)))
           ''filled_qty'' (JFloat filled_qty))"

definition has_plan_id :: "string \<Rightarrow> json \<Rightarrow> bool" where
  "has_plan_id plan_id e \<longleftrightarrow> dget (obj_of e) ''plan_id'' = JStr plan_id"

definition has_index :: "int \<Rightarrow> json \<Rightarrow> bool res" where
  "has_index index i = rbind (jindex i ''index'') (\<lambda>v. Inr (eq_int v index))"

definition update_plan_intent ::
  "dt \<Rightarrow> string \<Rightarrow> int \<Rightarrow> string \<Rightarrow> string list \<Rightarrow> pyfloat \<Rightarrow> journal \<Rightarrow> journal res" where
  "update_plan_intent cycle_ts plan_id index outcome reasons filled_qty j =
     (let path = exec_record_path cycle_ts in
      rbind (stored_doc j path) (\<lambda>doc.
        case first_of (has_plan_id plan_id) (plans_of doc) of
          None \<Rightarrow> Inl (EngineError ''no plan entry'')
        | Some e \<Rightarrow>
            rbind (iter_json (dget (obj_of e) ''intents'')) (\<lambda>intents.
            rbind (find_res (has_index index) intents) (\<lambda>hit.
              case hit of
                None \<Rightarrow> Inl (EngineError ''no intent at index'')
              | Some k \<Rightarrow>
                  store j path (dset doc ''plans'' (JArr (update_first (has_plan_id plan_id)
                    (\<lambda>e. JObj (dset (obj_of e) ''intents''
                            (JArr (intents[k := intent_with outcome reasons filled_qty (intents ! k)]))))
                    (plans_of doc))))))))"

section \<open>Scans\<close>

text \<open>\<open>event.get("credited", event["qty"])\<close>; \<open>fstr\<close> is \<open>float\<close> of a string.\<close>

definition credited_qty :: "(string \<Rightarrow> pyfloat option) \<Rightarrow> jdict \<Rightarrow> pyfloat res" where
  "credited_qty fstr event =
     rbind (dindex event ''qty'') (\<lambda>qty.
       case (if has_key event ''credited'' then dget event ''credited'' else qty) of
         JStr s \<Rightarrow> (case fstr s of None \<Rightarrow> Inl ValueError | Some x \<Rightarrow> Inr x)
       | v \<Rightarrow> to_float v)"

definition day_dirs :: "dt \<Rightarrow> dt option \<Rightarrow> int list res" where
  "day_dirs now since =
     (let today = dt_day now in
      rbind (case since of
               None \<Rightarrow> Inr today
             | Some s \<Rightarrow> rbind (dt_lt now s) (\<lambda>later. Inr (dt_day (if later then now else s))))
        (\<lambda>first. Inr (map (\<lambda>k. today - int k) [0..<nat (today - (first - 1) + 1)])))"

definition hours :: "int list" where
  "hours = map int [0..<24]"

definition files_of_day :: "journal \<Rightarrow> int \<Rightarrow> jtext list" where
  "files_of_day j day = List.map_filter (\<lambda>h. map_of j (day, h)) hours"

definition exec_records_in_window :: "journal \<Rightarrow> dt \<Rightarrow> dt option \<Rightarrow> jdict list res" where
  "exec_records_in_window j now since =
     rbind (day_dirs now since) (\<lambda>days. rmap load_valid (concat (map (files_of_day j) days)))"

definition record_through :: "journal \<Rightarrow> dt \<Rightarrow> slot \<Rightarrow> (dt \<times> jdict) list res" where
  "record_through j until path =
     (let boundary = cycle_ts_from_path path in
      rbind (dt_lt until boundary) (\<lambda>skip.
        if skip then Inr []
        else rbind (load_valid (the (map_of j path))) (\<lambda>doc. Inr [(boundary, doc)])))"

definition exec_records_through :: "journal \<Rightarrow> dt \<Rightarrow> (dt \<times> jdict) list res" where
  "exec_records_through j until =
     rbind (rmap (record_through j until) (sort (remdups (map fst j)))) (\<lambda>parts. Inr (concat parts))"

text \<open>Adding to a set hashes the value.\<close>

definition hashed :: "json \<Rightarrow> json res" where
  "hashed v = (if hashable v then Inr v else Inl TypeError)"

definition concat_res :: "('a \<Rightarrow> 'b list res) \<Rightarrow> 'a list \<Rightarrow> 'b list res" where
  "concat_res f xs = rbind (rmap f xs) (\<lambda>yss. Inr (concat yss))"

definition plan_ids_of :: "jdict \<Rightarrow> json list res" where
  "plan_ids_of doc =
     rbind (rmap (\<lambda>e. rbind (jindex e ''plan_id'') hashed) (plans_of doc)) (\<lambda>a.
     rbind (rmap (\<lambda>r. rbind (jindex r ''plan_id'') hashed) (rows_of doc)) (\<lambda>b. Inr (a @ b)))"

definition ledgered_plan_ids :: "journal \<Rightarrow> dt \<Rightarrow> json list res" where
  "ledgered_plan_ids j now =
     rbind (exec_records_in_window j now None) (concat_res plan_ids_of)"

definition intent_key_of :: "json \<Rightarrow> (json \<times> json) res" where
  "intent_key_of r =
     rbind (jindex r ''plan_id'') (\<lambda>p. rbind (jindex r ''intent_index'') (\<lambda>i.
       rbind (hashed p) (\<lambda>_. rbind (hashed i) (\<lambda>_. Inr (p, i)))))"

definition ledgered_intent_keys :: "journal \<Rightarrow> dt \<Rightarrow> (json \<times> json) list res" where
  "ledgered_intent_keys j now =
     rbind (exec_records_in_window j now None) (concat_res (\<lambda>doc. rmap intent_key_of (rows_of doc)))"

text \<open>\<open>datetime.fromisoformat(doc["cycle_ts"])\<close>: any string may be stored there, and any other value.\<close>

definition boundary_of :: "(string \<Rightarrow> dt option) \<Rightarrow> jdict \<Rightarrow> dt res" where
  "boundary_of fromiso doc =
     (case dget doc ''cycle_ts'' of
        JStr s \<Rightarrow> (case fromiso s of None \<Rightarrow> Inl ValueError | Some d \<Rightarrow> Inr d)
      | _ \<Rightarrow> Inl TypeError)"

definition pending_of :: "dt \<Rightarrow> json \<Rightarrow> (dt \<times> json \<times> json) list res" where
  "pending_of boundary entry =
     rbind (iter_json (dget (obj_of entry) ''intents''))
       (concat_res (\<lambda>i.
          rbind (jindex i ''outcome'') (\<lambda>outcome.
            if outcome = JStr ''pending'' then
              rbind (jindex entry ''plan_id'') (\<lambda>p.
              rbind (jindex i ''index'') (\<lambda>k. Inr [(boundary, p, k)]))
            else Inr [])))"

definition pending_plan_intents ::
  "(string \<Rightarrow> dt option) \<Rightarrow> journal \<Rightarrow> dt \<Rightarrow> dt option \<Rightarrow> (dt \<times> json \<times> json) list res" where
  "pending_plan_intents fromiso j now since =
     rbind (exec_records_in_window j now since) (concat_res (\<lambda>doc.
       rbind (boundary_of fromiso doc) (\<lambda>boundary. concat_res (pending_of boundary) (plans_of doc))))"

definition row_open :: "json \<Rightarrow> bool res" where
  "row_open r = rbind (jindex r ''state'') (\<lambda>s. in_str_set s OPEN_ORDER_STATES)"

definition select_rows :: "bool \<Rightarrow> dt \<Rightarrow> json list \<Rightarrow> (dt \<times> json) list res" where
  "select_rows want boundary rows =
     concat_res (\<lambda>r. rbind (row_open r) (\<lambda>b. Inr (if b = want then [(boundary, r)] else []))) rows"

definition open_submitted_rows ::
  "(string \<Rightarrow> dt option) \<Rightarrow> journal \<Rightarrow> dt \<Rightarrow> dt option \<Rightarrow> (dt \<times> json) list res" where
  "open_submitted_rows fromiso j now since =
     rbind (exec_records_in_window j now since) (concat_res (\<lambda>doc.
       rbind (boundary_of fromiso doc) (\<lambda>boundary. select_rows True boundary (rows_of doc))))"

definition closed_submitted_rows ::
  "(string \<Rightarrow> dt option) \<Rightarrow> journal \<Rightarrow> dt \<Rightarrow> dt option \<Rightarrow> (dt \<times> json) list res" where
  "closed_submitted_rows fromiso j now since =
     rbind (exec_records_in_window j now since) (concat_res (\<lambda>doc.
       rbind (boundary_of fromiso doc) (\<lambda>boundary. select_rows False boundary (rows_of doc))))"

section \<open>What a valid record is\<close>

definition row_ok :: "json \<Rightarrow> bool" where
  "row_ok v \<longleftrightarrow> (\<exists>r s. v = JObj r \<and> exact_keys r ROW_KEYS \<and> is_arr (dget r ''events'') \<and>
     dget r ''state'' = JStr s \<and> s \<in> set ROW_STATES)"

definition entry_ok :: "json \<Rightarrow> bool" where
  "entry_ok v \<longleftrightarrow> (\<exists>e. v = JObj e \<and> exact_keys e PLAN_ENTRY_KEYS \<and> is_arr (dget e ''reasons''))"

definition doc_ok :: "json \<Rightarrow> bool" where
  "doc_ok v \<longleftrightarrow> validate_exec_record v = Inr ()"

lemma validate_row_iff: "validate_row v = Inr () \<longleftrightarrow> row_ok v"
  by (cases v)
    (auto simp: validate_row_def row_ok_def refuse_def rbind_Inr_iff in_str_set_Inr_True split: if_splits)

lemma validate_entry_iff: "validate_entry v = Inr () \<longleftrightarrow> entry_ok v"
  by (cases v) (auto simp: validate_entry_def entry_ok_def refuse_def)

lemma for_each_row_iff: "for_each validate_row rs = Inr () \<longleftrightarrow> list_all row_ok rs"
  by (simp add: for_each_Inr_iff validate_row_iff list_all_iff)

lemma for_each_entry_iff: "for_each validate_entry es = Inr () \<longleftrightarrow> list_all entry_ok es"
  by (simp add: for_each_Inr_iff validate_entry_iff list_all_iff)

lemma doc_okD:
  assumes "doc_ok v"
  shows "\<exists>doc. v = JObj doc \<and> list_all row_ok (rows_of doc) \<and> list_all entry_ok (plans_of doc) \<and>
    is_arr (dget doc ''submitted'') \<and> exact_keys doc (if eq_int (dget doc ''schema_version'') 1 then V1_KEYS else V2_KEYS)"
proof -
  from assms obtain doc where v: "v = JObj doc"
    by (cases v) (auto simp: doc_ok_def validate_exec_record_def in_int_set_def refuse_def Let_def
        LOADABLE_EXEC_SCHEMA_VERSIONS_def)
  have noplans: "plans_of doc = []" if "exact_keys doc V1_KEYS"
  proof -
    have "\<not> has_key doc ''plans''" using that by (simp add: has_key_def exact_keys_def V1_KEYS_def)
    then show ?thesis by (auto simp: plans_of_def dget_def has_key_iff)
  qed
  show ?thesis
    using assms noplans
    unfolding v doc_ok_def validate_exec_record_def Let_def rows_of_def plans_of_def
    by (auto simp: rbind_Inr_iff refuse_def for_each_row_iff for_each_entry_iff in_int_set_def list_ex_iff
        LOADABLE_EXEC_SCHEMA_VERSIONS_def split: if_splits)
qed

lemma doc_ok_v2:
  assumes "exact_keys doc V2_KEYS" and "dget doc ''schema_version'' = JInt 2" and "is_arr (dget doc ''reasons'')"
    and "is_arr (dget doc ''submitted'')" and "is_arr (dget doc ''plans'')"
  shows "doc_ok (JObj doc) \<longleftrightarrow> list_all row_ok (rows_of doc) \<and> list_all entry_ok (plans_of doc)"
  using assms
  by (auto simp: doc_ok_def validate_exec_record_def Let_def rows_of_def plans_of_def rbind_Inr_iff
      for_each_row_iff for_each_entry_iff LOADABLE_EXEC_SCHEMA_VERSIONS_def)


section \<open>The mutators as one operation\<close>

datatype ledger_op =
    WriteRecord dt verdict dt
  | AppendRow dt jdict verdict dt
  | UpdateRow dt string "string option" "jdict option" pyfloat
  | AppendPlan dt jdict verdict dt
  | UpdateIntent dt string int string "string list" pyfloat

fun ledger_step :: "(dt \<Rightarrow> string) \<Rightarrow> ledger_op \<Rightarrow> journal \<Rightarrow> journal res" where
  "ledger_step isofmt (WriteRecord ts v ev) j = write_exec_record isofmt ts v ev j"
| "ledger_step isofmt (AppendRow ts row v ev) j = append_submitted_row isofmt ts row v ev j"
| "ledger_step isofmt (UpdateRow ts coid st e q) j = update_submitted_row ts coid st e q j"
| "ledger_step isofmt (AppendPlan ts entry v ev) j = append_plan_entry isofmt ts entry v ev j"
| "ledger_step isofmt (UpdateIntent ts pid k out rs q) j = update_plan_intent ts pid k out rs q j"

definition journal_ok :: "journal \<Rightarrow> bool" where
  "journal_ok j \<longleftrightarrow> (\<forall>p t. map_of j p = Some t \<longrightarrow> (\<exists>v. t = Parsed v \<and> doc_ok v))"

lemma store_Inr: "store j p d = Inr j' \<longleftrightarrow> doc_ok (JObj d) \<and> j' = AList.update p (Parsed (JObj d)) j"
  by (auto simp: store_def rbind_Inr_iff doc_ok_def)

lemma map_of_store:
  "store j p d = Inr j' \<Longrightarrow> map_of j' q = (if q = p then Some (Parsed (JObj d)) else map_of j q)"
  by (auto simp: store_Inr update_conv')

lemma store_journal_ok: "journal_ok j \<Longrightarrow> store j p d = Inr j' \<Longrightarrow> journal_ok j'"
  by (auto simp: journal_ok_def store_Inr update_conv' split: if_splits)

lemma load_valid_Parsed: "doc_ok (JObj d) \<Longrightarrow> load_valid (Parsed (JObj d)) = Inr d"
  by (simp add: load_valid_def read_existing_def json_loads_def doc_ok_def)

lemma load_valid_Inr: "load_valid t = Inr d \<Longrightarrow> t = Parsed (JObj d) \<and> doc_ok (JObj d)"
proof -
  assume "load_valid t = Inr d"
  then obtain v where "t = Parsed v" "doc_ok v" "d = obj_of v"
    by (cases t) (auto simp: load_valid_def read_existing_def json_loads_def rbind_Inr_iff doc_ok_def)
  with doc_okD [of v] show ?thesis by auto
qed

lemma exec_doc_fields [simp]:
  "rows_of (exec_doc f ts v ev rs ps) = rs" "plans_of (exec_doc f ts v ev rs ps) = ps"
  by (simp_all add: rows_of_def plans_of_def exec_doc_def dget_def)

lemma rows_plans_dset [simp]:
  "rows_of (dset d ''submitted'' (JArr xs)) = xs" "plans_of (dset d ''plans'' (JArr xs)) = xs"
  "plans_of (dset d ''submitted'' x) = plans_of d" "rows_of (dset d ''plans'' x) = rows_of d"
  by (simp_all add: rows_of_def plans_of_def)

lemma load_or_new_Inr:
  assumes "load_or_new f j p v ev = Inr doc"
  shows "\<exists>rs ps. doc = exec_doc f (cycle_ts_from_path p) v ev rs ps \<and>
    (map_of j p = None \<and> rs = [] \<and> ps = [] \<or>
     (\<exists>old. map_of j p = Some (Parsed (JObj old)) \<and> doc_ok (JObj old) \<and> rs = rows_of old \<and> ps = plans_of old))"
  using assms
  by (auto simp: load_or_new_def Let_def rbind_Inr_iff split: option.splits dest!: load_valid_Inr)

lemma stored_doc_Inr:
  "stored_doc j p = Inr doc \<Longrightarrow> map_of j p = Some (Parsed (JObj doc)) \<and> doc_ok (JObj doc)"
  by (auto simp: stored_doc_def split: option.splits dest!: load_valid_Inr)

text \<open>A version that cannot be hashed leaves the validator as a \<open>TypeError\<close>.\<close>

lemma validate_unhashable_version:
  "dget doc ''schema_version'' = JArr xs \<Longrightarrow> validate_exec_record (JObj doc) = Inl TypeError"
  by (simp add: validate_exec_record_def in_int_set_def)

section \<open>What is on record\<close>

definition row_id :: "json \<Rightarrow> json \<times> json \<times> json" where
  "row_id r = (dget (obj_of r) ''plan_id'', dget (obj_of r) ''intent_index'', dget (obj_of r) ''client_order_id'')"

definition entry_id :: "json \<Rightarrow> json" where
  "entry_id e = dget (obj_of e) ''plan_id''"

definition rows_recorded :: "journal \<Rightarrow> (slot \<times> json \<times> json \<times> json) set" where
  "rows_recorded j = {(p, k). \<exists>d. map_of j p = Some (Parsed (JObj d)) \<and> k \<in> row_id ` set (rows_of d)}"

definition plans_recorded :: "journal \<Rightarrow> (slot \<times> json) set" where
  "plans_recorded j = {(p, k). \<exists>d. map_of j p = Some (Parsed (JObj d)) \<and> k \<in> entry_id ` set (plans_of d)}"

lemma map_update_first: "(\<And>x. p x \<Longrightarrow> g (f x) = g x) \<Longrightarrow> map g (update_first p f xs) = map g xs"
  by (induction xs) auto

lemma row_with_other:
  "k \<notin> {''events'', ''state'', ''filled_qty''} \<Longrightarrow> dget (row_with st e q r) k = dget r k"
  by (auto simp: row_with_def Let_def split: option.splits)

lemma row_id_row_with [simp]: "row_id (JObj (row_with st e q (obj_of r))) = row_id r"
  by (simp add: row_id_def row_with_other)

lemma row_id_update_first:
  "row_id ` set (update_first p (\<lambda>r. JObj (row_with st e q (obj_of r))) rs) = row_id ` set rs"
  by (metis (no_types, lifting) map_update_first row_id_row_with set_map)

lemma entry_id_update_first:
  "entry_id ` set (update_first p (\<lambda>e. JObj (dset (obj_of e) ''intents'' x)) es) = entry_id ` set es"
proof -
  have "entry_id (JObj (dset (obj_of e) ''intents'' x)) = entry_id e" for e by (simp add: entry_id_def)
  then show ?thesis by (metis (no_types, lifting) map_update_first set_map)
qed

text \<open>
  Every mutator is one \<open>store\<close> at its own boundary, of a document that keeps what was on record there.
\<close>

fun op_slot :: "ledger_op \<Rightarrow> slot" where
  "op_slot (WriteRecord ts v ev) = exec_record_path ts"
| "op_slot (AppendRow ts row v ev) = exec_record_path ts"
| "op_slot (UpdateRow ts coid st e q) = exec_record_path ts"
| "op_slot (AppendPlan ts entry v ev) = exec_record_path ts"
| "op_slot (UpdateIntent ts pid k out rs q) = exec_record_path ts"

definition keeps :: "journal \<Rightarrow> slot \<Rightarrow> jdict \<Rightarrow> bool" where
  "keeps j p d' \<longleftrightarrow> (\<forall>d. map_of j p = Some (Parsed (JObj d)) \<longrightarrow>
     row_id ` set (rows_of d) \<subseteq> row_id ` set (rows_of d') \<and>
     entry_id ` set (plans_of d) \<subseteq> entry_id ` set (plans_of d'))"

lemma keeps_new: "map_of j p = None \<Longrightarrow> keeps j p d'"
  by (simp add: keeps_def)

lemma keeps_old:
  "map_of j p = Some (Parsed (JObj d)) \<Longrightarrow>
   row_id ` set (rows_of d) \<subseteq> row_id ` set (rows_of d') \<Longrightarrow>
   entry_id ` set (plans_of d) \<subseteq> entry_id ` set (plans_of d') \<Longrightarrow> keeps j p d'"
  by (simp add: keeps_def)

lemma keeps_load_or_new:
  assumes "load_or_new f j p v ev = Inr doc"
    and "set (rows_of doc) \<subseteq> set (rows_of d')" and "set (plans_of doc) \<subseteq> set (plans_of d')"
  shows "keeps j p d'"
proof (cases "map_of j p")
  case (Some t)
  with load_or_new_Inr [OF assms(1)] assms(2,3) show ?thesis by (auto intro!: keeps_old)
qed (rule keeps_new)

lemma ledger_step_store:
  assumes "ledger_step f op j = Inr j'"
  shows "\<exists>d'. store j (op_slot op) d' = Inr j' \<and> keeps j (op_slot op) d'"
proof (cases op)
  case (WriteRecord ts v ev)
  with assms obtain doc where "load_or_new f j (op_slot op) v ev = Inr doc" "store j (op_slot op) doc = Inr j'"
    by (auto simp: write_exec_record_def Let_def rbind_Inr_iff)
  then show ?thesis by (meson keeps_load_or_new order_refl)
next
  case (AppendRow ts row v ev)
  with assms obtain doc where "load_or_new f j (op_slot op) v ev = Inr doc"
    "store j (op_slot op) (dset doc ''submitted'' (JArr (rows_of doc @ [JObj row]))) = Inr j'"
    by (auto simp: append_submitted_row_def Let_def rbind_Inr_iff)
  then show ?thesis by (intro exI conjI) (auto elim: keeps_load_or_new)
next
  case (UpdateRow ts coid st e q)
  with assms obtain doc filled where "stored_doc j (op_slot op) = Inr doc"
    "store j (op_slot op) (dset doc ''submitted'' (JArr (update_first (has_coid coid)
       (\<lambda>r. JObj (row_with st e filled (obj_of r))) (rows_of doc)))) = Inr j'"
    by (auto simp: update_submitted_row_def Let_def rbind_Inr_iff split: option.splits)
  then show ?thesis
    by (intro exI conjI) (auto dest!: stored_doc_Inr simp: row_id_update_first intro!: keeps_old)
next
  case (AppendPlan ts entry v ev)
  with assms obtain doc where "load_or_new f j (op_slot op) v ev = Inr doc"
    "store j (op_slot op) (dset doc ''plans'' (JArr (plans_of doc @ [JObj entry]))) = Inr j'"
    by (auto simp: append_plan_entry_def Let_def rbind_Inr_iff)
  then show ?thesis by (intro exI conjI) (auto elim: keeps_load_or_new)
next
  case (UpdateIntent ts pid k out rs q)
  with assms obtain doc xs where "stored_doc j (op_slot op) = Inr doc"
    "store j (op_slot op) (dset doc ''plans'' (JArr (update_first (has_plan_id pid)
       (\<lambda>e. JObj (dset (obj_of e) ''intents'' (JArr xs))) (plans_of doc)))) = Inr j'"
    by (auto simp: update_plan_intent_def Let_def rbind_Inr_iff split: option.splits)
  then show ?thesis
    by (intro exI conjI) (auto dest!: stored_doc_Inr simp: entry_id_update_first intro!: keeps_old)
qed

lemma ledger_step_ok: "journal_ok j \<Longrightarrow> ledger_step f op j = Inr j' \<Longrightarrow> journal_ok j'"
  using ledger_step_store store_journal_ok by meson

lemma ledger_step_rows:
  assumes "ledger_step f op j = Inr j'"
  shows "rows_recorded j \<subseteq> rows_recorded j'"
  using ledger_step_store [OF assms] by (fastforce simp: rows_recorded_def map_of_store keeps_def)

lemma ledger_step_plans:
  assumes "ledger_step f op j = Inr j'"
  shows "plans_recorded j \<subseteq> plans_recorded j'"
  using ledger_step_store [OF assms] by (fastforce simp: plans_recorded_def map_of_store keeps_def)

interpretation row_ledger: write_ahead_store "ledger_step f" journal_ok rows_recorded
  by unfold_locales (rule ledger_step_ok ledger_step_rows; assumption)+

interpretation plan_ledger: write_ahead_store "ledger_step f" journal_ok plans_recorded
  by unfold_locales (rule ledger_step_plans; assumption)


section \<open>The scans of a valid journal\<close>

lemma day_dirs_utc:
  "day_dirs now None = Inr (map (\<lambda>k. dt_day now - int k) [0..<2])"
  by (simp add: day_dirs_def numeral_2_eq_2 Let_def)

lemma day_dirs_returns: "(\<And>s. since = Some s \<Longrightarrow> comparable now s) \<Longrightarrow> \<exists>days. day_dirs now since = Inr days"
  by (cases since) (auto simp: day_dirs_def Let_def dt_lt_def)

lemma window_file:
  "t \<in> set (files_of_day j day) \<Longrightarrow> \<exists>h. map_of j (day, h) = Some t"
  by (auto simp: files_of_day_def List.map_filter_def)

lemma load_valid_ok:
  assumes "journal_ok j" and "map_of j p = Some t"
  shows "\<exists>d. load_valid t = Inr d \<and> t = Parsed (JObj d) \<and> doc_ok (JObj d)"
proof -
  from assms obtain v where t: "t = Parsed v" "doc_ok v" unfolding journal_ok_def by blast
  with doc_okD [OF t(2)] show ?thesis by (auto simp: load_valid_Parsed)
qed

lemma window_returns:
  assumes "journal_ok j" and "\<And>s. since = Some s \<Longrightarrow> comparable now s"
  shows "\<exists>docs. exec_records_in_window j now since = Inr docs \<and> (\<forall>d \<in> set docs. doc_ok (JObj d))"
proof -
  from day_dirs_returns [OF assms(2)] obtain days where days: "day_dirs now since = Inr days" by blast
  let ?ts = "concat (map (files_of_day j) days)"
  have ok: "\<exists>d. load_valid t = Inr d \<and> doc_ok (JObj d)" if "t \<in> set ?ts" for t
    using that load_valid_ok [OF assms(1)] by (fastforce dest: window_file)
  then obtain docs where docs: "rmap load_valid ?ts = Inr docs" using rmap_total by meson
  then have "\<forall>d \<in> set docs. doc_ok (JObj d)" by (metis load_valid_Inr rmap_mem)
  with days docs show ?thesis by (simp add: exec_records_in_window_def)
qed

lemma through_returns:
  assumes "journal_ok j" and "\<not> naive until"
  shows "\<exists>docs. exec_records_through j until = Inr docs"
proof -
  have "\<exists>y. record_through j until path = Inr y" if "path \<in> set (sort (remdups (map fst j)))" for path
  proof -
    from that obtain t where t: "map_of j path = Some t"
      by (metis domIff dom_map_of_conv_image_fst list.set_map not_None_eq set_remdups set_sort)
    from load_valid_ok [OF assms(1) t] assms(2) t show ?thesis
      by (auto simp: record_through_def Let_def dt_lt_def comparable_def cycle_ts_from_path_def)
  qed
  then have "\<exists>parts. rmap (record_through j until) (sort (remdups (map fst j))) = Inr parts"
    by (rule rmap_total)
  then show ?thesis by (auto simp: exec_records_through_def)
qed

lemma journal_ok_Nil [simp]: "journal_ok []"
  by (simp add: journal_ok_def)

text \<open>The file of a boundary is in the window of every moment of its day and of the next.\<close>

lemma window_contains:
  assumes "exec_records_in_window j now None = Inr docs" and "map_of j (day, h) = Some t"
    and "day = dt_day now \<or> day = dt_day now - 1" and "h \<in> {0..<24}"
  shows "\<exists>d \<in> set docs. t = Parsed (JObj d)"
proof -
  have "h \<in> set hours" using assms(4) by (auto simp: hours_def image_iff intro!: bexI [of _ "nat h"])
  then have "t \<in> set (files_of_day j day)"
    using assms(2) by (auto simp: files_of_day_def List.map_filter_def image_iff intro!: bexI [of _ h])
  then have "t \<in> set (concat (map (files_of_day j) (map (\<lambda>k. dt_day now - int k) [0..<2])))"
    using assms(3) by (auto simp: numeral_2_eq_2)
  moreover have "rmap load_valid (concat (map (files_of_day j) (map (\<lambda>k. dt_day now - int k) [0..<2]))) = Inr docs"
    using assms(1) by (simp add: exec_records_in_window_def day_dirs_utc)
  ultimately obtain d where "d \<in> set docs" "load_valid t = Inr d"
    using rmap_mem' by meson
  then show ?thesis using load_valid_Inr by blast
qed

lemma dt_hour_range: "dt_hour d \<in> {0..<24}"
proof -
  have "0 \<le> wall d mod day_us" "wall d mod day_us < day_us" by simp_all
  then show ?thesis unfolding dt_hour_def
    by (auto simp: div_less_iff_less_mult pos_imp_zdiv_nonneg_iff zdiv_mono1)
qed

lemma concat_res_mem:
  assumes "concat_res f xs = Inr ys" and "x \<in> set xs"
  shows "\<exists>zs. f x = Inr zs \<and> set zs \<subseteq> set ys"
proof -
  from assms(1) obtain yss where yss: "rmap f xs = Inr yss" "ys = concat yss"
    by (auto simp: concat_res_def rbind_Inr_iff)
  from assms(2) obtain k where "k < length xs" "xs ! k = x" by (meson in_set_conv_nth)
  with yss(1) have "f x = Inr (yss ! k)" "yss ! k \<in> set yss"
    by (auto simp: rmap_Inr_iff list_all2_conv_all_nth)
  with yss(2) show ?thesis by auto
qed

text \<open>A recorded row is in both dedup scans of its window, if they return.\<close>

lemma recorded_scanned:
  assumes "journal_ok j" and "((day, h), p, i, c) \<in> rows_recorded j" and "h \<in> {0..<24}"
    and "day = dt_day now \<or> day = dt_day now - 1"
  shows "(\<forall>ks. ledgered_intent_keys j now = Inr ks \<longrightarrow> (p, i) \<in> set ks) \<and>
         (\<forall>ids. ledgered_plan_ids j now = Inr ids \<longrightarrow> p \<in> set ids)"
proof -
  from window_returns [OF assms(1), of None] obtain docs where
    docs: "exec_records_in_window j now None = Inr docs" "\<forall>d \<in> set docs. doc_ok (JObj d)" by auto
  from assms(2) obtain d r where d: "map_of j (day, h) = Some (Parsed (JObj d))" "r \<in> set (rows_of d)"
    "row_id r = (p, i, c)" by (auto simp: rows_recorded_def)
  from window_contains [OF docs(1) d(1) assms(4,3)] have mem: "d \<in> set docs" by auto
  with docs(2) doc_okD d(2) have "row_ok r" by (fastforce simp: list_all_iff)
  then obtain row where row: "r = JObj row" "exact_keys row ROW_KEYS" by (auto simp: row_ok_def)
  have idx: "jindex r ''plan_id'' = Inr p" "jindex r ''intent_index'' = Inr i"
    using d(3) row exact_keys_has [OF row(2)] by (auto simp: row_id_def dindex_has_key ROW_KEYS_def)
  show ?thesis
  proof (intro conjI allI impI)
    fix ks assume "ledgered_intent_keys j now = Inr ks"
    with docs(1) have "concat_res (\<lambda>doc. rmap intent_key_of (rows_of doc)) docs = Inr ks"
      by (simp add: ledgered_intent_keys_def)
    from concat_res_mem [OF this mem] obtain zs where
      zs: "rmap intent_key_of (rows_of d) = Inr zs" "set zs \<subseteq> set ks" by auto
    from rmap_mem' [OF zs(1) d(2)] idx zs(2) show "(p, i) \<in> set ks"
      by (auto simp: intent_key_of_def rbind_Inr_iff)
  next
    fix ids assume "ledgered_plan_ids j now = Inr ids"
    with docs(1) have "concat_res plan_ids_of docs = Inr ids" by (simp add: ledgered_plan_ids_def)
    from concat_res_mem [OF this mem] obtain zs where zs: "plan_ids_of d = Inr zs" "set zs \<subseteq> set ids" by auto
    from zs(1) obtain a b where "rmap (\<lambda>r. rbind (jindex r ''plan_id'') hashed) (rows_of d) = Inr b" "zs = a @ b"
      by (auto simp: plan_ids_of_def rbind_Inr_iff)
    with rmap_mem' [OF this(1) d(2)] idx zs(2) show "p \<in> set ids"
      by (auto simp: hashed_def rbind_Inr_iff split: if_splits)
  qed
qed


lemma intent_key_of_Inl: "row_ok r \<Longrightarrow> intent_key_of r = Inl e \<Longrightarrow> e = TypeError"
  by (auto simp: row_ok_def intent_key_of_def hashed_def rbind_Inl_iff dindex_has_key exact_keys_has ROW_KEYS_def
      split: if_splits)

lemma concat_res_Inl_ex: "concat_res f xs = Inl e \<Longrightarrow> \<exists>x \<in> set xs. f x = Inl e"
  by (auto simp: concat_res_def rbind_Inl_iff dest: rmap_Inl_ex)

lemma ledgered_intent_keys_Inl:
  assumes "journal_ok j" and "ledgered_intent_keys j now = Inl e"
  shows "e = TypeError"
proof -
  from window_returns [OF assms(1), of None] obtain docs where
    docs: "exec_records_in_window j now None = Inr docs" "\<forall>d \<in> set docs. doc_ok (JObj d)" by auto
  with assms(2) obtain d where "d \<in> set docs" "rmap intent_key_of (rows_of d) = Inl e"
    by (auto simp: ledgered_intent_keys_def dest: concat_res_Inl_ex)
  then obtain r where "r \<in> set (rows_of d)" "intent_key_of r = Inl e" "doc_ok (JObj d)"
    using docs(2) rmap_Inl_ex by meson
  with doc_okD have "row_ok r" by (fastforce simp: list_all_iff)
  then show ?thesis using \<open>intent_key_of r = Inl e\<close> by (rule intent_key_of_Inl)
qed

lemma append_recorded:
  assumes "append_submitted_row f ts row v ev j = Inr j'"
  shows "(exec_record_path ts, dget row ''plan_id'', dget row ''intent_index'', dget row ''client_order_id'')
    \<in> rows_recorded j'"
proof -
  from assms obtain doc where
    "store j (exec_record_path ts) (dset doc ''submitted'' (JArr (rows_of doc @ [JObj row]))) = Inr j'"
    by (auto simp: append_submitted_row_def Let_def rbind_Inr_iff)
  from map_of_store [OF this] show ?thesis by (auto simp: rows_recorded_def row_id_def)
qed

lemma row_with_fields:
  "dget (row_with st e q r) ''filled_qty'' = q"
  "dget (row_with st e q r) ''state'' = (case st of None \<Rightarrow> dget r ''state'' | Some s \<Rightarrow> JStr s)"
  "arr_of (dget (row_with st e q r) ''events'') =
     arr_of (dget r ''events'') @ (case e of None \<Rightarrow> [] | Some v \<Rightarrow> [JObj v])"
  by (simp_all add: row_with_def Let_def split: option.splits)

lemma row_with_row_ok:
  assumes "row_ok r" and "\<forall>s. st = Some s \<longrightarrow> s \<in> set ROW_STATES"
  shows "row_ok (JObj (row_with st e q (obj_of r)))"
proof -
  from assms(1) obtain row s where r: "r = JObj row" "exact_keys row ROW_KEYS" "is_arr (dget row ''events'')"
    "dget row ''state'' = JStr s" "s \<in> set ROW_STATES" by (auto simp: row_ok_def)
  have "exact_keys (row_with st e q row) ROW_KEYS"
    using r(2) by (auto simp: row_with_def Let_def ROW_KEYS_def intro!: exact_keys_dset split: option.splits)
  moreover have "is_arr (dget (row_with st e q row) ''events'')"
    using r(3) by (auto simp: row_with_def Let_def split: option.splits)
  ultimately show ?thesis
    using r assms(2) by (auto simp: row_ok_def row_with_fields split: option.splits)
qed

lemma dset_submitted_ok:
  assumes "doc_ok (JObj d)" and "rows_of d \<noteq> []" and "list_all row_ok rows"
  shows "doc_ok (JObj (dset d ''submitted'' (JArr rows)))"
  using assms exact_keys_dset [of d _ "''submitted''"]
  unfolding doc_ok_def validate_exec_record_def Let_def rows_of_def
  by (auto simp: rbind_Inr_iff refuse_def for_each_row_iff V1_KEYS_def V2_KEYS_def split: if_splits)

lemma update_doc_ok:
  assumes "doc_ok (JObj d)" and "rows_of d = us @ r # vs" and "\<forall>s. st = Some s \<longrightarrow> s \<in> set ROW_STATES"
  shows "doc_ok (JObj (dset d ''submitted'' (JArr (us @ JObj (row_with st e q (obj_of r)) # vs))))"
proof -
  from doc_okD [OF assms(1)] assms(2) have "list_all row_ok (us @ r # vs)" by simp
  with row_with_row_ok [OF _ assms(3)] have "list_all row_ok (us @ JObj (row_with st e q (obj_of r)) # vs)" by simp
  with assms show ?thesis by (intro dset_submitted_ok) auto
qed

lemma row_open_ok: "row_ok r \<Longrightarrow> row_open r = Inr (\<exists>s \<in> set OPEN_ORDER_STATES. dget (obj_of r) ''state'' = JStr s)"
  by (auto simp: row_ok_def row_open_def dindex_has_key exact_keys_has ROW_KEYS_def)

section \<open>Properties\<close>


definition sample_verdict :: verdict where
  "sample_verdict = \<lparr>v_level = FULL, v_reasons = [], v_inputs = []\<rparr>"

definition sample_row :: jdict where
  "sample_row = [(''plan_id'', JStr ''r1''), (''intent_index'', JInt 0), (''client_order_id'', JStr ''O-1''),
     (''intent'', JObj []), (''order'', JObj []), (''state'', JStr ''submitting''),
     (''filled_qty'', JFloat (Fin 0)), (''events'', JArr [])]"

definition sample_doc :: jdict where
  "sample_doc = exec_doc (\<lambda>_. ''t'') (utc 0) sample_verdict (utc 0) [JObj sample_row] []"

lemma sample_append:
  "append_submitted_row (\<lambda>_. ''t'') (utc 0) sample_row sample_verdict (utc 0) [] =
     Inr [((0, 0), Parsed (JObj sample_doc))]"
  by (simp add: append_submitted_row_def load_or_new_def Let_def exec_record_path_def dt_day_def dt_hour_def
      cycle_ts_from_path_def store_def exec_doc_def dset_def rows_of_def dget_def validate_exec_record_def
      LOADABLE_EXEC_SCHEMA_VERSIONS_def EXEC_SCHEMA_VERSION_def exact_keys_def dkeys_def V2_KEYS_def V1_KEYS_def
      validate_row_def sample_row_def ROW_KEYS_def ROW_STATES_def sample_doc_def insert_commute)

lemma sample_journal_ok: "journal_ok [((0, 0), Parsed (JObj sample_doc))]"
  using ledger_step_ok [of "[]" "\<lambda>_. ''t''" "AppendRow (utc 0) sample_row sample_verdict (utc 0)"]
  by (simp add: sample_append)


text \<open>
  C10. Write-ahead dedup: once a row was appended, its plan id and intent key are seen by the dedup
  scan at every moment of the boundary's UTC day and of the next, whatever the ledger is asked to do
  in between. The scan either sees the key or raises \<open>TypeError\<close> (some stored id is a list or an object,
  which cannot enter a set); it never returns without the key.
\<close>

theorem appended_row_is_deduped:
  assumes "journal_ok j" and "append_submitted_row f ts row v ev j = Inr j'"
    and "dt_day now = dt_day ts \<or> dt_day now = dt_day ts + 1"
  shows "(case ledgered_intent_keys (run_ops (ledger_step f) ops j') now of
      Inl e \<Rightarrow> e = TypeError
    | Inr ks \<Rightarrow> (dget row ''plan_id'', dget row ''intent_index'') \<in> set ks) \<and>
    (\<forall>ids. ledgered_plan_ids (run_ops (ledger_step f) ops j') now = Inr ids \<longrightarrow> dget row ''plan_id'' \<in> set ids)"
proof -
  let ?j = "run_ops (ledger_step f) ops j'"
  have step: "ledger_step f (AppendRow ts row v ev) j = Inr j'" using assms(2) by simp
  have ok: "journal_ok ?j" using row_ledger.run_inv row_ledger.step_inv [OF assms(1) step] by blast
  from row_ledger.recorded_after [OF assms(1) step append_recorded [OF assms(2)]]
  have "((dt_day ts, dt_hour ts), dget row ''plan_id'', dget row ''intent_index'', dget row ''client_order_id'')
    \<in> rows_recorded ?j" by (simp add: exec_record_path_def)
  moreover have "dt_day ts = dt_day now \<or> dt_day ts = dt_day now - 1" using assms(3) by auto
  ultimately show ?thesis
    using recorded_scanned [OF ok _ dt_hour_range] ledgered_intent_keys_Inl [OF ok]
    by (simp split: sum.splits)
qed

theorem appended_row_is_deduped_witness:
  "case ledgered_intent_keys (run_ops (ledger_step (\<lambda>_. ''t''))
       [UpdateRow (utc 0) ''O-1'' (Some ''filled'') None (Fin 1)] [((0, 0), Parsed (JObj sample_doc))]) (utc day_us) of
     Inl e \<Rightarrow> e = TypeError | Inr ks \<Rightarrow> (JStr ''r1'', JInt 0) \<in> set ks"
proof -
  have "dt_day (utc day_us) = dt_day (utc 0) \<or> dt_day (utc day_us) = dt_day (utc 0) + 1"
    by (simp add: dt_day_def)
  moreover have "dget sample_row ''plan_id'' = JStr ''r1''" "dget sample_row ''intent_index'' = JInt 0"
    by (simp_all add: sample_row_def dget_def)
  ultimately show ?thesis using appended_row_is_deduped [OF journal_ok_Nil sample_append] by metis
qed

text \<open>
  An update of a submitted row rewrites the first row with that client order id and nothing
  else: the event goes to the end of its events, the state is replaced when given, the fill is added
  to its filled quantity, every other field, row, plan and boundary stays. With no such row, or no
  record, it raises and writes nothing.
\<close>

theorem update_submitted_row_exact:
  assumes "journal_ok j" and "\<forall>s. state = Some s \<longrightarrow> s \<in> set ROW_STATES"
  shows "case map_of j (exec_record_path ts) of
    None \<Rightarrow> (\<exists>m. update_submitted_row ts coid state event q j = Inl (EngineError m))
  | Some t \<Rightarrow> (\<exists>d. t = Parsed (JObj d) \<and>
      (case first_of (has_coid coid) (rows_of d) of
         None \<Rightarrow> (\<exists>m. update_submitted_row ts coid state event q j = Inl (EngineError m))
       | Some r \<Rightarrow> (\<forall>q0. dget (obj_of r) ''filled_qty'' = JFloat q0 \<longrightarrow>
           (\<exists>j' d' r' us vs. update_submitted_row ts coid state event q j = Inr j' \<and>
              map_of j' = (map_of j)(exec_record_path ts \<mapsto> Parsed (JObj d')) \<and>
              rows_of d = us @ r # vs \<and> (\<forall>u \<in> set us. \<not> has_coid coid u) \<and>
              rows_of d' = us @ JObj r' # vs \<and>
              (\<forall>k. k \<noteq> ''submitted'' \<longrightarrow> dget d' k = dget d k) \<and>
              dget r' ''filled_qty'' = JFloat (fadd q0 q) \<and>
              dget r' ''state'' = (case state of None \<Rightarrow> dget (obj_of r) ''state'' | Some s \<Rightarrow> JStr s) \<and>
              arr_of (dget r' ''events'') = arr_of (dget (obj_of r) ''events'') @
                (case event of None \<Rightarrow> [] | Some e \<Rightarrow> [JObj e]) \<and>
              (\<forall>k. k \<notin> {''filled_qty'', ''state'', ''events''} \<longrightarrow> dget r' k = dget (obj_of r) k)))))"
proof (cases "map_of j (exec_record_path ts)")
  case None
  then show ?thesis by (simp add: update_submitted_row_def Let_def stored_doc_def)
next
  case (Some t)
  from load_valid_ok [OF assms(1) Some] obtain d where
    d: "load_valid t = Inr d" "t = Parsed (JObj d)" "doc_ok (JObj d)" by blast
  have stored: "stored_doc j (exec_record_path ts) = Inr d" using Some d by (simp add: stored_doc_def)
  show ?thesis
  proof (cases "first_of (has_coid coid) (rows_of d)")
    case None
    then show ?thesis using Some d(2) stored by (simp add: update_submitted_row_def Let_def)
  next
    case hit: (Some r)
    let ?r' = "\<lambda>q0. row_with state event (JFloat (fadd q0 q)) (obj_of r)"
    let ?f = "\<lambda>q0 r. JObj (row_with state event (JFloat (fadd q0 q)) (obj_of r))"
    have "\<exists>j' us vs. update_submitted_row ts coid state event q j = Inr j' \<and>
        map_of j' = (map_of j)(exec_record_path ts \<mapsto>
          Parsed (JObj (dset d ''submitted'' (JArr (us @ JObj (?r' q0) # vs))))) \<and>
        rows_of d = us @ r # vs \<and> (\<forall>u \<in> set us. \<not> has_coid coid u)"
      if q0: "dget (obj_of r) ''filled_qty'' = JFloat q0" for q0
    proof -
      from update_first_decomp [OF hit, of "?f q0"] obtain us vs where
        dec: "rows_of d = us @ r # vs" "\<forall>u \<in> set us. \<not> has_coid coid u"
        "update_first (has_coid coid) (?f q0) (rows_of d) = us @ JObj (?r' q0) # vs" by blast
      have "doc_ok (JObj (dset d ''submitted'' (JArr (us @ JObj (?r' q0) # vs))))"
        by (rule update_doc_ok [OF d(3) dec(1) assms(2)])
      with q0 hit stored dec show ?thesis
        by (auto simp: update_submitted_row_def Let_def store_Inr update_conv' intro!: ext)
    qed
    then show ?thesis
      using Some d(2) hit row_with_fields [of state event _ "obj_of r"] by (fastforce simp: row_with_other)
  qed
qed


theorem update_submitted_row_exact_witness:
  "\<exists>j' d' r'. update_submitted_row (utc 0) ''O-1'' (Some ''filled'') (Some [(''kind'', JStr ''fill'')]) (Fin 1)
       [((0, 0), Parsed (JObj sample_doc))] = Inr j' \<and>
     map_of j' (0, 0) = Some (Parsed (JObj d')) \<and> rows_of d' = [JObj r'] \<and>
     dget r' ''filled_qty'' = JFloat (fadd (Fin 0) (Fin 1)) \<and> dget r' ''state'' = JStr ''filled'' \<and>
     arr_of (dget r' ''events'') = [JObj [(''kind'', JStr ''fill'')]]"
proof -
  have st: "\<forall>s. Some ''filled'' = Some s \<longrightarrow> s \<in> set ROW_STATES" by (simp add: ROW_STATES_def)
  have slot: "exec_record_path (utc 0) = (0, 0)"
    by (simp add: exec_record_path_def dt_day_def dt_hour_def)
  have rows: "rows_of sample_doc = [JObj sample_row]" by (simp add: sample_doc_def)
  have row: "dget sample_row ''client_order_id'' = JStr ''O-1''" "dget sample_row ''filled_qty'' = JFloat (Fin 0)"
    "dget sample_row ''events'' = JArr []"
    by (simp_all add: sample_row_def dget_def)
  have hit: "first_of (has_coid ''O-1'') (rows_of sample_doc) = Some (JObj sample_row)"
    by (simp add: rows has_coid_def row)
  from update_submitted_row_exact [OF sample_journal_ok st, of "utc 0" "''O-1''" "Some [(''kind'', JStr ''fill'')]" "Fin 1"]
  obtain j' d' r' us vs where
    "update_submitted_row (utc 0) ''O-1'' (Some ''filled'') (Some [(''kind'', JStr ''fill'')]) (Fin 1)
       [((0, 0), Parsed (JObj sample_doc))] = Inr j'"
    "map_of j' (0, 0) = Some (Parsed (JObj d'))" "rows_of sample_doc = us @ JObj sample_row # vs"
    "rows_of d' = us @ JObj r' # vs" "dget r' ''filled_qty'' = JFloat (fadd (Fin 0) (Fin 1))"
    "dget r' ''state'' = JStr ''filled''" "arr_of (dget r' ''events'') = [JObj [(''kind'', JStr ''fill'')]]"
    by (auto simp: slot hit row)
  then show ?thesis using rows by (auto simp: Cons_eq_append_conv)
qed

text \<open>
  The re-attach scan and its complement partition the submitted rows: over the window's
  documents, the open rows are those that are submitting, accepted or ambiguous, in file order, the
  closed rows all others, and neither scan adds, drops or repeats a row.
\<close>

definition is_open :: "json \<Rightarrow> bool" where
  "is_open r \<longleftrightarrow> dget (obj_of r) ''state'' \<in> JStr ` {''submitting'', ''accepted'', ''ambiguous''}"

definition rows_at :: "(jdict \<Rightarrow> dt) \<Rightarrow> jdict list \<Rightarrow> (dt \<times> json) list" where
  "rows_at b docs = concat (map (\<lambda>d. map (Pair (b d)) (rows_of d)) docs)"

lemma select_rows_ok:
  assumes "list_all row_ok rows"
  shows "select_rows want t rows = Inr (filter (\<lambda>(t, r). is_open r = want) (map (Pair t) rows))"
proof -
  have "rmap (\<lambda>r. rbind (row_open r) (\<lambda>b. Inr (if b = want then [(t, r)] else []))) rows =
      Inr (map (\<lambda>r. if is_open r = want then [(t, r)] else []) rows)"
    using assms by (intro rmap_pure) (auto simp: row_open_ok list_all_iff is_open_def OPEN_ORDER_STATES_def)
  moreover have "concat (map (\<lambda>r. if is_open r = want then [(t, r)] else []) rows) =
      filter (\<lambda>(t, r). is_open r = want) (map (Pair t) rows)"
    by (induction rows) auto
  ultimately show ?thesis by (simp add: select_rows_def concat_res_def)
qed

lemma select_docs:
  assumes "\<forall>d \<in> set docs. doc_ok (JObj d) \<and> boundary_of fromiso d = Inr (b d)"
  shows "concat_res (\<lambda>doc. rbind (boundary_of fromiso doc) (\<lambda>t. select_rows want t (rows_of doc))) docs =
    Inr (filter (\<lambda>(t, r). is_open r = want) (rows_at b docs))"
proof -
  have "rbind (boundary_of fromiso d) (\<lambda>t. select_rows want t (rows_of d)) =
      Inr (filter (\<lambda>(t, r). is_open r = want) (map (Pair (b d)) (rows_of d)))" if "d \<in> set docs" for d
  proof -
    have "list_all row_ok (rows_of d)" using doc_okD assms that by blast
    then show ?thesis using assms that by (simp add: select_rows_ok)
  qed
  then show ?thesis
    unfolding concat_res_def rows_at_def by (subst rmap_pure) (auto simp: filter_concat o_def)
qed

theorem open_closed_partition:
  assumes "journal_ok j" and "exec_records_in_window j now since = Inr docs"
    and "\<forall>d \<in> set docs. boundary_of fromiso d = Inr (b d)"
  shows "open_submitted_rows fromiso j now since = Inr (filter (\<lambda>(t, r). is_open r) (rows_at b docs)) \<and>
    closed_submitted_rows fromiso j now since = Inr (filter (\<lambda>(t, r). \<not> is_open r) (rows_at b docs))"
proof -
  have "doc_ok (JObj d)" if "d \<in> set docs" for d
  proof -
    from assms(2) obtain ts where "rmap load_valid ts = Inr docs"
      by (auto simp: exec_records_in_window_def rbind_Inr_iff)
    with that show ?thesis by (meson load_valid_Inr rmap_mem)
  qed
  with assms(3) have docs: "\<forall>d \<in> set docs. doc_ok (JObj d) \<and> boundary_of fromiso d = Inr (b d)" by blast
  show ?thesis
    using select_docs [OF docs, of True] select_docs [OF docs, of False] assms(2)
    by (simp add: open_submitted_rows_def closed_submitted_rows_def)
qed

theorem open_closed_partition_witness:
  "open_submitted_rows (\<lambda>_. Some (utc 0)) [((0, 0), Parsed (JObj sample_doc))] (utc day_us) None =
     Inr [(utc 0, JObj sample_row)] \<and>
   closed_submitted_rows (\<lambda>_. Some (utc 0)) [((0, 0), Parsed (JObj sample_doc))] (utc day_us) None = Inr []"
proof -
  have ok: "doc_ok (JObj sample_doc)" using load_valid_ok [OF sample_journal_ok, of "(0, 0)"] by auto
  have "filter (\<lambda>h. h = 0) hours = [0]" by (simp add: hours_def upt_conv_Cons filter_empty_conv)
  then have "files_of_day [((0, 0), Parsed (JObj sample_doc))] 0 = [Parsed (JObj sample_doc)]"
    "files_of_day [((0, 0), Parsed (JObj sample_doc))] 1 = []"
    by (auto simp: files_of_day_def List.map_filter_def filter_empty_conv)
  then have win: "exec_records_in_window [((0, 0), Parsed (JObj sample_doc))] (utc day_us) None = Inr [sample_doc]"
    by (simp add: exec_records_in_window_def day_dirs_utc numeral_2_eq_2 dt_day_def load_valid_Parsed [OF ok])
  have "\<forall>d \<in> set [sample_doc]. boundary_of (\<lambda>_. Some (utc 0)) d = Inr (utc 0)"
    by (simp add: boundary_of_def sample_doc_def exec_doc_def dget_def)
  from open_closed_partition [OF sample_journal_ok win this] show ?thesis
    by (simp add: rows_at_def sample_doc_def is_open_def sample_row_def dget_def)
qed

end
