(* ===== verification/Instruments.thy ===== *)
theory Instruments imports PyValue
begin

text \<open>
  \<open>cli/engine/instruments.py\<close> and the basket of \<open>cli/engine/store.py\<close>: the traded symbols, the
  committed minimum costs, and the order sizing, whose step arithmetic runs in Python's
  \<open>Decimal\<close> over the shortest decimal a float prints as.
\<close>

section \<open>Decimal arithmetic as the sizing uses it\<close>

function digits10 :: "int \<Rightarrow> int" where
  "digits10 n = (if n \<le> 0 then 0 else 1 + digits10 (n div 10))"
  by pat_completeness auto
termination
  by (relation "measure nat") auto

declare digits10.simps [simp del]

definition pow10 :: "int \<Rightarrow> rat" where
  "pow10 k = (if 0 \<le> k then of_int (10 ^ nat k) else 1 / of_int (10 ^ nat (- k)))"

text \<open>The decimal exponent of a positive \<open>p / q\<close>: \<open>10 ^ k <= p / q < 10 ^ (k + 1)\<close>.\<close>

definition dec_exp :: "int \<Rightarrow> int \<Rightarrow> int" where
  "dec_exp p q =
     (let k = digits10 p - digits10 q
      in if of_int p < of_int q * pow10 k then k - 1 else k)"

text \<open>A positive rational rounded half-even to \<open>n\<close> significant decimal digits.\<close>

definition round_sig :: "int \<Rightarrow> rat \<Rightarrow> rat" where
  "round_sig n x =
     (let (p, q) = quotient_of x in
      if p = 0 then 0
      else let u = pow10 (dec_exp \<bar>p\<bar> q - n + 1); (a, b) = quotient_of (\<bar>x\<bar> / u); r = of_int (div_even a b) * u
           in if p < 0 then - r else r)"

text \<open>The default context of \<open>decimal\<close>: 28 significant digits.\<close>

definition dec28 :: "rat \<Rightarrow> rat" where
  "dec28 = round_sig 28"

text \<open>
  \<open>Decimal(str(x))\<close>: the value of the shortest decimal that reads back as \<open>x\<close>, the nearer of the
  two candidates at that length. Seventeen digits always suffice.
\<close>

definition candidate :: "rat \<Rightarrow> int \<Rightarrow> int \<Rightarrow> rat option" where
  "candidate x k n =
     (let u = pow10 (k - n + 1); lo = of_int \<lfloor>x / u\<rfloor> * u; hi = lo + u;
          lo_ok = fround lo = Fin x; hi_ok = fround hi = Fin x
      in if lo_ok \<and> (\<not> hi_ok \<or> x - lo \<le> hi - x) then Some lo
         else if hi_ok then Some hi else None)"

fun shortest :: "rat \<Rightarrow> int \<Rightarrow> int list \<Rightarrow> rat" where
  "shortest x k [] = x"
| "shortest x k (n # ns) = (case candidate x k n of Some d \<Rightarrow> d | None \<Rightarrow> shortest x k ns)"

definition repr_value :: "rat \<Rightarrow> rat" where
  "repr_value x =
     (let (p, q) = quotient_of x in
      if p = 0 then 0
      else let d = shortest \<bar>x\<bar> (dec_exp \<bar>p\<bar> q) [1..17] in if p < 0 then - d else d)"

section \<open>The basket and the committed minimum costs\<close>

definition BASKET :: "string list" where
  "BASKET = [''ADA/EUR'', ''AVAX/EUR'', ''BTC/EUR'', ''DOGE/EUR'', ''DOT/EUR'', ''ETH/BTC'',
             ''ETH/EUR'', ''LINK/EUR'', ''LTC/EUR'', ''SOL/BTC'', ''SOL/EUR'', ''XRP/EUR'']"

definition EUR_CODES :: "string list" where
  "EUR_CODES = [''EUR'', ''ZEUR'']"

definition COSTMIN :: "string \<Rightarrow> (pyfloat \<times> string) option" where
  "COSTMIN = map_of
     [(''ADA/EUR'', (fround (45 / 100), ''EUR'')), (''AVAX/EUR'', (fround (45 / 100), ''EUR'')),
      (''BTC/EUR'', (fround (45 / 100), ''EUR'')), (''DOGE/EUR'', (fround (45 / 100), ''EUR'')),
      (''DOT/EUR'', (fround (45 / 100), ''EUR'')), (''ETH/BTC'', (fround (2 / 100000), ''BTC'')),
      (''ETH/EUR'', (fround (45 / 100), ''EUR'')), (''LINK/EUR'', (fround (45 / 100), ''EUR'')),
      (''LTC/EUR'', (fround (45 / 100), ''EUR'')), (''SOL/BTC'', (fround (2 / 100000), ''BTC'')),
      (''SOL/EUR'', (fround (45 / 100), ''EUR'')), (''XRP/EUR'', (fround (45 / 100), ''EUR''))]"

section \<open>Sizing\<close>

record sized_order =
  so_qty :: pyfloat
  so_price :: pyfloat
  so_notional :: pyfloat

datatype below_minimum = BelowOrdermin pyfloat pyfloat | BelowCostmin pyfloat pyfloat

datatype sizing = Sized sized_order | Below below_minimum

text \<open>
  Both operands finite: the exact decimals divided, floored and multiplied back. Otherwise what
  \<open>Decimal\<close> raises: \<open>math.floor\<close> of a NaN or an infinity, or an invalid operation on infinities.
\<close>

definition floor_to_step :: "pyfloat \<Rightarrow> pyfloat \<Rightarrow> pyfloat res" where
  "floor_to_step value step =
     (if fle step (Fin 0) then Inl ValueError
      else case (value, step) of
             (Fin v, Fin s) \<Rightarrow>
               (let dv = repr_value v; ds = repr_value s
                in Inr (fround (dec28 (of_int \<lfloor>dec28 (dv / ds)\<rfloor> * ds))))
           | (NaN, _) \<Rightarrow> Inl ValueError
           | (_, NaN) \<Rightarrow> Inl ValueError
           | (_, Fin s) \<Rightarrow> Inl OverflowError
           | _ \<Rightarrow> Inl InvalidOperation)"

definition size_order ::
  "pyfloat \<Rightarrow> pyfloat \<Rightarrow> pyfloat \<Rightarrow> pyfloat \<Rightarrow> pyfloat \<Rightarrow> pyfloat \<Rightarrow> sizing res" where
  "size_order target_qty reference_price ordermin costmin lot_step tick_size =
     rbind (floor_to_step target_qty lot_step) (\<lambda>qty.
     rbind (floor_to_step reference_price tick_size) (\<lambda>price.
       if flt qty ordermin then Inr (Below (BelowOrdermin qty ordermin))
       else let notional = fmul qty price in
         if flt notional costmin then Inr (Below (BelowCostmin notional costmin))
         else Inr (Sized \<lparr>so_qty = qty, so_price = price, so_notional = notional\<rparr>)))"

text \<open>\<open>symbol.split("/")[1]\<close>: no second part is an \<open>IndexError\<close>.\<close>

fun split_slash :: "string \<Rightarrow> string list" where
  "split_slash [] = [[]]"
| "split_slash (c # cs) =
     (case split_slash cs of
        [] \<Rightarrow> [[c]]
      | w # ws \<Rightarrow> if c = CHR ''/'' then [] # w # ws else (c # w) # ws)"

definition fx_eur_notional :: "string \<Rightarrow> pyfloat \<Rightarrow> pyfloat \<Rightarrow> pyfloat \<Rightarrow> pyfloat res" where
  "fx_eur_notional symbol qty price btc_eur_close =
     (if fle btc_eur_close (Fin 0) then Inl ValueError
      else case split_slash symbol of
             _ # quote # _ \<Rightarrow>
               (if quote = ''EUR'' then Inr (fmul qty price)
                else if quote = ''BTC'' then Inr (fmul (fmul qty price) btc_eur_close)
                else Inl ValueError)
           | _ \<Rightarrow> Inl IndexError)"

section \<open>Lemmas\<close>

lemma size_order_Sized:
  assumes "size_order t p om cm ls ts = Inr (Sized s)"
  shows "floor_to_step t ls = Inr (so_qty s) \<and> floor_to_step p ts = Inr (so_price s) \<and>
    so_notional s = fmul (so_qty s) (so_price s) \<and> \<not> flt (so_qty s) om \<and> \<not> flt (so_notional s) cm"
  using assms by (auto simp: size_order_def rbind_Inr_iff Let_def split: if_splits)

lemma floor_to_step_finite:
  "0 < s \<Longrightarrow> floor_to_step (Fin v) (Fin s) =
     Inr (fround (dec28 (of_int \<lfloor>dec28 (repr_value v / repr_value s)\<rfloor> * repr_value s)))"
  by (simp add: floor_to_step_def Let_def)

lemma fround_0_1 [simp]: "fround 0 = Fin 0" "fround 1 = Fin 1"
  using fround_int [of 0] fround_int [of 1] by simp_all

lemma dec_exp_1: "dec_exp 1 1 = 0"
  by (simp add: dec_exp_def digits10.simps [of 1] digits10.simps [of 0] pow10_def)

lemma repr_1 [simp]: "repr_value 1 = 1"
proof -
  have "fround 2 = Fin 2" using fround_int [of 2] by simp
  then have "candidate 1 0 1 = Some 1" by (simp add: candidate_def Let_def pow10_def)
  moreover have "[1..17] = 1 # [2..17 :: int]" by (simp add: upto_rec1)
  ultimately show ?thesis by (simp add: repr_value_def dec_exp_1)
qed

lemma dec28_1 [simp]: "dec28 1 = 1"
  using quotient_of_int [of "10 ^ 27"]
  by (simp add: dec28_def round_sig_def dec_exp_1 Let_def pow10_def)

lemma split_slash_nonempty: "split_slash cs \<noteq> []"
  by (induction cs) (auto split: list.splits)

end
