(* ===== verification/ProbePlan.thy ===== *)
theory ProbePlan imports Instruments
begin

text \<open>
  \<open>cli/engine/probeplan.py\<close>: the parse of the control file that asks the engine for orders, and the
  refusal checks of a parsed plan. The text enters as what \<open>json.loads\<close> makes of it, and
  \<open>datetime.fromisoformat\<close> is the argument \<open>fromiso\<close> (\<open>None\<close> for its \<open>ValueError\<close>).
\<close>

section \<open>The model\<close>

definition PLAN_TTL :: int where "PLAN_TTL = 60 * minute_us"

definition SIDES :: "string list" where "SIDES = [''buy'', ''sell'']"
definition ACTIONS :: "string list" where "ACTIONS = [''open'', ''close'']"
definition MODES :: "string list" where "MODES = [''execute'', ''rest-cancel'', ''rest-hold'']"
definition MIN_LEVERAGE :: int where "MIN_LEVERAGE = 2"
definition MAX_LEVERAGE :: int where "MAX_LEVERAGE = 10"
definition MAX_HOLD_MINUTES :: int where "MAX_HOLD_MINUTES = 60"

definition PLAN_KEYS :: "string list" where
  "PLAN_KEYS = [''plan_id'', ''created_at'', ''intents'']"

definition INTENT_KEYS :: "string list" where
  "INTENT_KEYS = [''symbol'', ''side'', ''action'', ''mode'', ''notional_eur'', ''qty'', ''leverage'',
                  ''offset_pct'', ''hold_minutes'']"

definition MARGIN_FLOOR_MULTIPLIER :: pyfloat where "MARGIN_FLOOR_MULTIPLIER = Fin (5 / 2)"

record intent =
  i_symbol :: string
  i_side :: string
  i_action :: string
  i_mode :: string
  i_notional :: "pyfloat option"
  i_qty :: "pyfloat option"
  i_leverage :: "int option"
  i_offset :: "pyfloat option"
  i_hold :: "int option"

record plan =
  p_id :: string
  p_created_at :: dt
  p_intents :: "intent list"
  p_raw :: jdict

section \<open>Parsing\<close>

definition parse_positive_number :: "json \<Rightarrow> pyfloat res" where
  "parse_positive_number v =
     (if \<not> is_number v then Inl (ProbePlanError ''not a number'')
      else rbind (to_float v) (\<lambda>number.
        if \<not> isfinite number \<or> fle number (Fin 0) then Inl (ProbePlanError ''not finite positive'')
        else Inr number))"

text \<open>\<open>isinstance(v, int)\<close> holds of a bool too, which is then the int 0 or 1.\<close>

fun as_int :: "json \<Rightarrow> int option" where
  "as_int (JInt i) = Some i"
| "as_int (JBool b) = Some (if b then 1 else 0)"
| "as_int _ = None"

definition parse_leverage :: "json \<Rightarrow> int option res" where
  "parse_leverage v =
     (if v = JNull then Inr None
      else case as_int v of
             None \<Rightarrow> Inl (ProbePlanError ''leverage'')
           | Some n \<Rightarrow> (if MIN_LEVERAGE \<le> n \<and> n \<le> MAX_LEVERAGE then Inr (Some n)
                       else Inl (ProbePlanError ''leverage'')))"

definition parse_hold :: "json \<Rightarrow> int res" where
  "parse_hold v =
     (case v of
        JInt n \<Rightarrow> (if 1 \<le> n \<and> n \<le> MAX_HOLD_MINUTES then Inr n else Inl (ProbePlanError ''hold_minutes''))
      | _ \<Rightarrow> Inl (ProbePlanError ''hold_minutes''))"

definition parse_choice :: "string \<Rightarrow> json \<Rightarrow> string list \<Rightarrow> string res" where
  "parse_choice what v choices =
     rbind (in_str_set v choices) (\<lambda>ok.
       if ok then (case v of JStr s \<Rightarrow> Inr s | _ \<Rightarrow> Inl TypeError) else Inl (ProbePlanError what))"

definition parse_optional_number :: "json \<Rightarrow> pyfloat option res" where
  "parse_optional_number v =
     (if v = JNull then Inr None else rbind (parse_positive_number v) (\<lambda>x. Inr (Some x)))"

definition parse_rest_hold :: "string \<Rightarrow> string \<Rightarrow> json \<Rightarrow> json \<Rightarrow> (pyfloat option \<times> int option) res" where
  "parse_rest_hold mode action offset_raw hold_raw =
     (if mode = ''rest-hold'' then
        (if offset_raw = JNull \<or> hold_raw = JNull then Inl (ProbePlanError ''rest-hold requires both'')
         else if action \<noteq> ''open'' then Inl (ProbePlanError ''rest-hold requires open'')
         else rbind (parse_positive_number offset_raw) (\<lambda>offset.
              rbind (parse_hold hold_raw) (\<lambda>hold. Inr (Some offset, Some hold))))
      else if offset_raw \<noteq> JNull \<or> hold_raw \<noteq> JNull then Inl (ProbePlanError ''only on rest-hold'')
      else Inr (None, None))"

definition unknown_keys :: "jdict \<Rightarrow> string list \<Rightarrow> bool" where
  "unknown_keys d ks \<longleftrightarrow> list_ex (\<lambda>k. k \<notin> set ks) (dkeys d)"

definition parse_intent :: "json \<Rightarrow> intent res" where
  "parse_intent v =
     (case v of
        JObj raw \<Rightarrow>
          (if unknown_keys raw INTENT_KEYS then Inl (ProbePlanError ''unknown key'')
           else if \<not> list_ex (\<lambda>s. dget raw ''symbol'' = JStr s) BASKET then Inl (ProbePlanError ''symbol'')
           else rbind (case dget raw ''symbol'' of JStr s \<Rightarrow> Inr s | _ \<Rightarrow> Inl TypeError) (\<lambda>symbol.
             rbind (parse_choice ''side'' (dget raw ''side'') SIDES) (\<lambda>side.
             rbind (parse_choice ''action'' (dget raw ''action'') ACTIONS) (\<lambda>action.
             rbind (parse_choice ''mode'' (dget raw ''mode'') MODES) (\<lambda>mode.
             let has_notional = dget raw ''notional_eur'' \<noteq> JNull; has_qty = dget raw ''qty'' \<noteq> JNull in
             if has_notional = has_qty then Inl (ProbePlanError ''exactly one of notional_eur/qty'')
             else rbind (parse_optional_number (dget raw ''notional_eur'')) (\<lambda>notional.
             rbind (parse_optional_number (dget raw ''qty'')) (\<lambda>qty.
             rbind (parse_leverage (dget raw ''leverage'')) (\<lambda>leverage.
             rbind (parse_rest_hold mode action (dget raw ''offset_pct'') (dget raw ''hold_minutes''))
               (\<lambda>(offset, hold).
             if qty \<noteq> None \<and> (action \<noteq> ''close'' \<or> leverage \<noteq> None) then Inl (ProbePlanError ''qty requires close'')
             else Inr \<lparr>i_symbol = symbol, i_side = side, i_action = action, i_mode = mode,
                       i_notional = notional, i_qty = qty, i_leverage = leverage,
                       i_offset = offset, i_hold = hold\<rparr>)))))))))
      | _ \<Rightarrow> Inl (ProbePlanError ''intent must be an object''))"

text \<open>\<open>not plan_id.strip()\<close>: every character is whitespace.\<close>

definition blank :: "string \<Rightarrow> bool" where
  "blank s \<longleftrightarrow> list_all (\<lambda>c. of_char c \<in> {9..13 :: nat} \<union> {28..32} \<union> {133, 160}) s"

definition parse_plan :: "(string \<Rightarrow> dt option) \<Rightarrow> jtext \<Rightarrow> plan res" where
  "parse_plan fromiso text =
     (case json_loads text of
        Inl _ \<Rightarrow> Inl (ProbePlanError ''not valid JSON'')
      | Inr (JObj doc) \<Rightarrow>
          (if unknown_keys doc PLAN_KEYS then Inl (ProbePlanError ''unknown key'')
           else (case dget doc ''plan_id'' of
             JStr plan_id \<Rightarrow>
               (if blank plan_id then Inl (ProbePlanError ''plan_id'')
                else (case dget doc ''created_at'' of
                  JStr created_raw \<Rightarrow>
                    (case fromiso created_raw of
                       None \<Rightarrow> Inl (ProbePlanError ''created_at is not ISO'')
                     | Some created_at \<Rightarrow>
                         (if naive created_at then Inl (ProbePlanError ''created_at is naive'')
                          else (case dget doc ''intents'' of
                            JArr intents_raw \<Rightarrow>
                              (if intents_raw = [] then Inl (ProbePlanError ''intents'')
                               else rbind (rmap parse_intent intents_raw) (\<lambda>intents.
                                 Inr \<lparr>p_id = plan_id, p_created_at = created_at, p_intents = intents, p_raw = doc\<rparr>))
                          | _ \<Rightarrow> Inl (ProbePlanError ''intents''))))
                | _ \<Rightarrow> Inl (ProbePlanError ''created_at'')))
           | _ \<Rightarrow> Inl (ProbePlanError ''plan_id'')))
      | Inr _ \<Rightarrow> Inl (ProbePlanError ''must be an object''))"

section \<open>Refusals\<close>

fun margin_share :: "intent \<Rightarrow> pyfloat res" where
  "margin_share i =
     (case (i_notional i, i_leverage i) of
        (Some n, Some l) \<Rightarrow> rbind (float_of_int l) (\<lambda>x. fdiv n x)
      | _ \<Rightarrow> Inl TypeError)"

definition total_notional :: "intent list \<Rightarrow> pyfloat" where
  "total_notional is = fsum (map (\<lambda>i. case i_notional i of None \<Rightarrow> Fin 0 | Some n \<Rightarrow> n) is)"

definition margin_required :: "intent list \<Rightarrow> pyfloat res" where
  "margin_required is =
     rbind (rmap margin_share (filter (\<lambda>i. i_leverage i \<noteq> None) is))
       (\<lambda>shares. Inr (fmul (fsum shares) MARGIN_FLOOR_MULTIPLIER))"

definition plan_refusals ::
  "plan \<Rightarrow> dt \<Rightarrow> string set \<Rightarrow> pyfloat \<Rightarrow> pyfloat \<Rightarrow> string list res" where
  "plan_refusals plan now ledgered max_plan_notional_eur free_zeur =
     rbind (dt_sub now (p_created_at plan)) (\<lambda>age.
     rbind (dt_lt now (p_created_at plan)) (\<lambda>future.
     rbind (margin_required (p_intents plan)) (\<lambda>margin.
       let total = total_notional (p_intents plan) in
       Inr ((if PLAN_TTL < age then [''plan expired''] else []) @
            (if future then [''created_at is in the future''] else []) @
            (if p_id plan \<in> ledgered then [''plan_id already ledgered''] else []) @
            (if \<not> isfinite max_plan_notional_eur then [''max_plan_notional_eur is not finite'']
             else if fgt total max_plan_notional_eur then [''plan notional exceeds the cap''] else []) @
            (if \<not> isfinite free_zeur then [''free_zeur is not finite'']
             else if fgt margin free_zeur then [''margin floor''] else [])))))"


section \<open>What a parsed intent is\<close>

definition positive :: "pyfloat \<Rightarrow> bool" where
  "positive x \<longleftrightarrow> isfinite x \<and> flt (Fin 0) x"

definition opt_ok :: "('a \<Rightarrow> bool) \<Rightarrow> 'a option \<Rightarrow> bool" where
  "opt_ok p x \<longleftrightarrow> (case x of None \<Rightarrow> True | Some y \<Rightarrow> p y)"

text \<open>
  Exactly one of notional and quantity; a quantity only on a spot close; leverage in its band; the
  rest-hold fields on a rest-hold opener and nowhere else.
\<close>

definition intent_ok :: "intent \<Rightarrow> bool" where
  "intent_ok i \<longleftrightarrow>
     i_symbol i \<in> set BASKET \<and> i_side i \<in> set SIDES \<and> i_action i \<in> set ACTIONS \<and> i_mode i \<in> set MODES \<and>
     (i_notional i = None) \<noteq> (i_qty i = None) \<and>
     opt_ok positive (i_notional i) \<and> opt_ok positive (i_qty i) \<and>
     (i_qty i \<noteq> None \<longrightarrow> i_action i = ''close'' \<and> i_leverage i = None) \<and>
     opt_ok (\<lambda>l. MIN_LEVERAGE \<le> l \<and> l \<le> MAX_LEVERAGE) (i_leverage i) \<and>
     (if i_mode i = ''rest-hold''
      then i_action i = ''open'' \<and> i_offset i \<noteq> None \<and> opt_ok positive (i_offset i) \<and>
           i_hold i \<noteq> None \<and> opt_ok (\<lambda>h. 1 \<le> h \<and> h \<le> MAX_HOLD_MINUTES) (i_hold i)
      else i_offset i = None \<and> i_hold i = None)"

lemma parse_positive_number_ok: "parse_positive_number v = Inr x \<Longrightarrow> positive x"
  by (auto simp: parse_positive_number_def rbind_Inr_iff positive_def isfinite_iff split: if_splits)

lemma parse_optional_number_ok:
  "parse_optional_number v = Inr x \<Longrightarrow> opt_ok positive x \<and> (x = None \<longleftrightarrow> v = JNull)"
  by (auto simp: parse_optional_number_def opt_ok_def rbind_Inr_iff parse_positive_number_ok split: if_splits)

lemma parse_leverage_ok:
  "parse_leverage v = Inr x \<Longrightarrow> opt_ok (\<lambda>l. MIN_LEVERAGE \<le> l \<and> l \<le> MAX_LEVERAGE) x"
  by (auto simp: parse_leverage_def opt_ok_def split: if_splits option.splits)

lemma parse_hold_ok: "parse_hold v = Inr h \<Longrightarrow> 1 \<le> h \<and> h \<le> MAX_HOLD_MINUTES"
  by (auto simp: parse_hold_def split: json.splits if_splits)

lemma parse_choice_ok: "parse_choice what v cs = Inr s \<Longrightarrow> s \<in> set cs \<and> v = JStr s"
  by (auto simp: parse_choice_def rbind_Inr_iff in_str_set_Inr_True split: if_splits)

lemma parse_rest_hold_ok:
  assumes "parse_rest_hold mode action ov hv = Inr (offset, hold)"
  shows "if mode = ''rest-hold''
         then action = ''open'' \<and> offset \<noteq> None \<and> opt_ok positive offset \<and> hold \<noteq> None \<and>
              opt_ok (\<lambda>h. 1 \<le> h \<and> h \<le> MAX_HOLD_MINUTES) hold
         else offset = None \<and> hold = None"
  using assms
  by (auto simp: parse_rest_hold_def rbind_Inr_iff opt_ok_def parse_positive_number_ok dest: parse_hold_ok
      split: if_splits)

lemma parse_intent_ok: "parse_intent v = Inr i \<Longrightarrow> intent_ok i"
  unfolding parse_intent_def Let_def
  by (auto simp: rbind_Inr_iff intent_ok_def list_ex_iff
      dest!: parse_choice_ok parse_optional_number_ok parse_leverage_ok parse_rest_hold_ok
      split: json.splits if_splits prod.splits)


section \<open>Documents of well-formed plans\<close>

definition opt_field :: "string \<Rightarrow> ('a \<Rightarrow> json) \<Rightarrow> 'a option \<Rightarrow> jdict" where
  "opt_field k f x = (case x of None \<Rightarrow> [] | Some y \<Rightarrow> [(k, f y)])"

definition intent_doc :: "intent \<Rightarrow> json" where
  "intent_doc i = JObj
     ([(''symbol'', JStr (i_symbol i)), (''side'', JStr (i_side i)),
       (''action'', JStr (i_action i)), (''mode'', JStr (i_mode i))] @
      opt_field ''notional_eur'' JFloat (i_notional i) @ opt_field ''qty'' JFloat (i_qty i) @
      opt_field ''leverage'' JInt (i_leverage i) @ opt_field ''offset_pct'' JFloat (i_offset i) @
      opt_field ''hold_minutes'' JInt (i_hold i))"

definition plan_doc :: "string \<Rightarrow> string \<Rightarrow> intent list \<Rightarrow> jdict" where
  "plan_doc pid created ps =
     [(''plan_id'', JStr pid), (''created_at'', JStr created), (''intents'', JArr (map intent_doc ps))]"

lemma map_of_opt_field: "map_of (opt_field k f x) k' = (if k' = k then map_option f x else None)"
  by (auto simp: opt_field_def split: option.splits)

lemma dkeys_opt_field: "set (dkeys (opt_field k f x)) \<subseteq> {k}"
  by (auto simp: opt_field_def dkeys_def split: option.splits)

lemma intent_doc_keys:
  "intent_doc i = JObj d \<Longrightarrow> \<not> unknown_keys d INTENT_KEYS"
  by (auto simp: intent_doc_def unknown_keys_def list_ex_iff INTENT_KEYS_def opt_field_def dkeys_def
      split: option.splits)

lemma dget_intent_doc:
  assumes "intent_doc i = JObj d"
  shows "dget d ''symbol'' = JStr (i_symbol i)" "dget d ''side'' = JStr (i_side i)"
    "dget d ''action'' = JStr (i_action i)" "dget d ''mode'' = JStr (i_mode i)"
    "dget d ''notional_eur'' = (case i_notional i of None \<Rightarrow> JNull | Some x \<Rightarrow> JFloat x)"
    "dget d ''qty'' = (case i_qty i of None \<Rightarrow> JNull | Some x \<Rightarrow> JFloat x)"
    "dget d ''leverage'' = (case i_leverage i of None \<Rightarrow> JNull | Some x \<Rightarrow> JInt x)"
    "dget d ''offset_pct'' = (case i_offset i of None \<Rightarrow> JNull | Some x \<Rightarrow> JFloat x)"
    "dget d ''hold_minutes'' = (case i_hold i of None \<Rightarrow> JNull | Some x \<Rightarrow> JInt x)"
  using assms
  by (auto simp: intent_doc_def dget_def map_add_def map_of_opt_field split: option.splits)

lemma parse_positive_number_JFloat: "positive x \<Longrightarrow> parse_positive_number (JFloat x) = Inr x"
  by (auto simp: parse_positive_number_def positive_def dest: fle_not_flt)

lemma parse_optional_number_doc:
  "opt_ok positive x \<Longrightarrow>
     parse_optional_number (case x of None \<Rightarrow> JNull | Some y \<Rightarrow> JFloat y) = Inr x"
  by (auto simp: parse_optional_number_def opt_ok_def parse_positive_number_JFloat split: option.splits)

lemma parse_leverage_doc:
  "opt_ok (\<lambda>l. MIN_LEVERAGE \<le> l \<and> l \<le> MAX_LEVERAGE) x \<Longrightarrow>
     parse_leverage (case x of None \<Rightarrow> JNull | Some y \<Rightarrow> JInt y) = Inr x"
  by (auto simp: parse_leverage_def opt_ok_def split: option.splits)

lemma parse_choice_JStr [simp]: "s \<in> set cs \<Longrightarrow> parse_choice what (JStr s) cs = Inr s"
  by (simp add: parse_choice_def)

lemma parse_rest_hold_doc:
  assumes "intent_ok i"
  shows "parse_rest_hold (i_mode i) (i_action i)
      (case i_offset i of None \<Rightarrow> JNull | Some x \<Rightarrow> JFloat x)
      (case i_hold i of None \<Rightarrow> JNull | Some x \<Rightarrow> JInt x) = Inr (i_offset i, i_hold i)"
  using assms
  by (auto simp: intent_ok_def parse_rest_hold_def opt_ok_def parse_positive_number_JFloat parse_hold_def
      split: option.splits if_splits)

lemma parse_intent_doc:
  assumes "intent_ok i"
  shows "parse_intent (intent_doc i) = Inr i"
proof -
  obtain d where d: "intent_doc i = JObj d" by (simp add: intent_doc_def)
  from assms have mem: "i_symbol i \<in> set BASKET" "i_side i \<in> set SIDES" "i_action i \<in> set ACTIONS"
    "i_mode i \<in> set MODES" and one: "(i_notional i = None) \<noteq> (i_qty i = None)"
    and close: "i_qty i \<noteq> None \<longrightarrow> i_action i = ''close'' \<and> i_leverage i = None"
    and num: "opt_ok positive (i_notional i)" "opt_ok positive (i_qty i)"
    "opt_ok (\<lambda>l. MIN_LEVERAGE \<le> l \<and> l \<le> MAX_LEVERAGE) (i_leverage i)"
    by (auto simp: intent_ok_def)
  have sym: "list_ex (\<lambda>s. dget d ''symbol'' = JStr s) BASKET"
    using mem(1) by (auto simp: list_ex_iff dget_intent_doc [OF d])
  have has: "(dget d ''notional_eur'' \<noteq> JNull) = (i_notional i \<noteq> None)"
    "(dget d ''qty'' \<noteq> JNull) = (i_qty i \<noteq> None)"
    by (simp_all add: dget_intent_doc [OF d] split: option.splits)
  have rest: "parse_optional_number (dget d ''notional_eur'') = Inr (i_notional i)"
    "parse_optional_number (dget d ''qty'') = Inr (i_qty i)"
    "parse_leverage (dget d ''leverage'') = Inr (i_leverage i)"
    "parse_rest_hold (i_mode i) (i_action i) (dget d ''offset_pct'') (dget d ''hold_minutes'') =
       Inr (i_offset i, i_hold i)"
    unfolding dget_intent_doc [OF d]
    by (rule parse_optional_number_doc parse_leverage_doc parse_rest_hold_doc num assms)+
  show ?thesis
    unfolding parse_intent_def d
    using intent_doc_keys [OF d] sym mem one close
    by (auto simp: has rest dget_intent_doc(1-4) [OF d])
qed

section \<open>The whole parse\<close>

lemma parse_planD:
  assumes "parse_plan fromiso text = Inr p"
  shows "\<not> blank (p_id p) \<and> \<not> naive (p_created_at p) \<and> p_intents p \<noteq> [] \<and>
    text = Parsed (JObj (p_raw p)) \<and> dget (p_raw p) ''plan_id'' = JStr (p_id p) \<and>
    (\<exists>created. dget (p_raw p) ''created_at'' = JStr created \<and> fromiso created = Some (p_created_at p)) \<and>
    (\<exists>raws. dget (p_raw p) ''intents'' = JArr raws \<and> rmap parse_intent raws = Inr (p_intents p))"
  using assms
  by (auto simp: parse_plan_def json_loads_def rbind_Inr_iff
      dest: rmap_length split: jtext.splits json.splits if_splits option.splits)

lemma parse_plan_intents_ok:
  assumes "parse_plan fromiso text = Inr p" and "i \<in> set (p_intents p)"
  shows "intent_ok i"
proof -
  from parse_planD [OF assms(1)] obtain raws where "rmap parse_intent raws = Inr (p_intents p)" by blast
  with assms(2) obtain v where "parse_intent v = Inr i" by (meson rmap_mem)
  then show ?thesis by (rule parse_intent_ok)
qed

lemma parse_plan_doc:
  assumes "\<not> blank pid" and "fromiso created = Some ts" and "\<not> naive ts" and "ps \<noteq> []"
    and "\<forall>i \<in> set ps. intent_ok i"
  shows "parse_plan fromiso (Parsed (JObj (plan_doc pid created ps))) =
    Inr \<lparr>p_id = pid, p_created_at = ts, p_intents = ps, p_raw = plan_doc pid created ps\<rparr>"
proof -
  have "rmap parse_intent (map intent_doc ps) = Inr ps"
    using assms(5) by (induction ps) (auto simp: parse_intent_doc)
  moreover have "\<not> unknown_keys (plan_doc pid created ps) PLAN_KEYS"
    by (simp add: unknown_keys_def plan_doc_def dkeys_def PLAN_KEYS_def)
  ultimately show ?thesis
    using assms by (simp add: parse_plan_def json_loads_def plan_doc_def dget_def)
qed

lemma margin_share_ok:
  assumes "intent_ok i" and "i_leverage i \<noteq> None"
  shows "\<exists>x. margin_share i = Inr x"
proof -
  from assms obtain l n where l: "i_leverage i = Some l" "2 \<le> l" "l \<le> 10" and n: "i_notional i = Some n"
    by (auto simp: intent_ok_def opt_ok_def MIN_LEVERAGE_def MAX_LEVERAGE_def)
  have "fround (of_int l) = Fin (of_int l)" using l by (intro fround_int) auto
  with l n show ?thesis by (simp add: float_of_int_def)
qed

lemma margin_required_ok:
  "\<forall>i \<in> set ps. intent_ok i \<Longrightarrow> \<exists>m. margin_required ps = Inr m"
proof -
  assume "\<forall>i \<in> set ps. intent_ok i"
  then have "\<exists>xs. rmap margin_share (filter (\<lambda>i. i_leverage i \<noteq> None) ps) = Inr xs"
    using margin_share_ok by (induction ps) fastforce+
  then show ?thesis by (auto simp: margin_required_def)
qed

lemma parse_positive_number_Inl:
  "parse_positive_number v = Inl e \<Longrightarrow> (\<exists>m. e = ProbePlanError m) \<or> e = OverflowError"
  by (cases v) (auto simp: parse_positive_number_def rbind_Inl_iff float_of_int_def split: if_splits pyfloat.splits)

lemma parse_optional_number_Inl:
  "parse_optional_number v = Inl e \<Longrightarrow> (\<exists>m. e = ProbePlanError m) \<or> e = OverflowError"
  by (auto simp: parse_optional_number_def rbind_Inl_iff dest: parse_positive_number_Inl split: if_splits)

lemma parse_choice_Inl:
  "parse_choice what v cs = Inl e \<Longrightarrow> (\<exists>m. e = ProbePlanError m) \<or> e = TypeError"
  by (auto simp: parse_choice_def rbind_Inl_iff in_str_set_def split: if_splits json.splits)

lemma parse_leverage_Inl: "parse_leverage v = Inl e \<Longrightarrow> \<exists>m. e = ProbePlanError m"
  by (auto simp: parse_leverage_def split: if_splits option.splits)

lemma parse_rest_hold_Inl:
  "parse_rest_hold m a ov hv = Inl e \<Longrightarrow> (\<exists>m. e = ProbePlanError m) \<or> e = OverflowError"
  by (auto simp: parse_rest_hold_def parse_hold_def rbind_Inl_iff
      dest: parse_positive_number_Inl split: if_splits json.splits)

lemma parse_intent_Inl:
  "parse_intent v = Inl e \<Longrightarrow> (\<exists>m. e = ProbePlanError m) \<or> e = TypeError \<or> e = OverflowError"
  unfolding parse_intent_def Let_def
  by (auto simp: rbind_Inl_iff
      dest!: parse_choice_Inl parse_optional_number_Inl parse_leverage_Inl parse_rest_hold_Inl
      split: json.splits if_splits)

section \<open>Properties\<close>

text \<open>
  C5. A plan the parser returns is whole: a non-blank id, an aware creation time, at least one
  intent, one parsed intent per raw one, the document kept verbatim, and every intent within its
  bounds (one of notional and quantity, a quantity only on a spot close, leverage 2 to 10, the
  rest-hold fields exactly on rest-hold openers).
\<close>

theorem parse_plan_sound:
  assumes "parse_plan fromiso text = Inr p"
  shows "\<not> blank (p_id p) \<and> \<not> naive (p_created_at p) \<and> p_intents p \<noteq> [] \<and>
    text = Parsed (JObj (p_raw p)) \<and>
    (\<exists>raws. dget (p_raw p) ''intents'' = JArr raws \<and> length raws = length (p_intents p) \<and>
       (\<forall>k < length raws. parse_intent (raws ! k) = Inr (p_intents p ! k))) \<and>
    (\<forall>i \<in> set (p_intents p). intent_ok i)"
  using parse_planD [OF assms] parse_plan_intents_ok [OF assms]
  by (auto simp: rmap_Inr_iff list_all2_conv_all_nth)

definition sample_intent :: intent where
  "sample_intent = \<lparr>i_symbol = ''BTC/EUR'', i_side = ''buy'', i_action = ''open'', i_mode = ''rest-hold'',
     i_notional = Some (Fin 50), i_qty = None, i_leverage = Some 3, i_offset = Some (Fin 5), i_hold = Some 10\<rparr>"

lemma sample_intent_ok: "intent_ok sample_intent"
  by (simp add: sample_intent_def intent_ok_def BASKET_def SIDES_def ACTIONS_def MODES_def opt_ok_def
      positive_def MIN_LEVERAGE_def MAX_LEVERAGE_def MAX_HOLD_MINUTES_def)

theorem parse_plan_sound_witness:
  "\<exists>p. parse_plan (\<lambda>_. Some (utc 0)) (Parsed (JObj (plan_doc ''r1'' ''t'' [sample_intent]))) = Inr p \<and>
     p_intents p \<noteq> [] \<and> (\<forall>i \<in> set (p_intents p). intent_ok i)"
proof -
  have "\<not> blank ''r1''" by (simp add: blank_def)
  from parse_plan_doc [OF this, of "\<lambda>_. Some (utc 0)" "''t''" "utc 0" "[sample_intent]"] sample_intent_ok
  have "parse_plan (\<lambda>_. Some (utc 0)) (Parsed (JObj (plan_doc ''r1'' ''t'' [sample_intent]))) =
    Inr \<lparr>p_id = ''r1'', p_created_at = utc 0, p_intents = [sample_intent],
         p_raw = plan_doc ''r1'' ''t'' [sample_intent]\<rparr>" by simp
  with parse_plan_sound [OF this] show ?thesis by blast
qed


text \<open>
  C6. The parser accepts the document of a list of intents, and gives back those very intents,
  exactly when they are well formed: nothing it should accept is refused, nothing else gets in.
\<close>

theorem plan_doc_accepted_iff:
  "(\<exists>p. parse_plan fromiso (Parsed (JObj (plan_doc pid created ps))) = Inr p \<and> p_intents p = ps) \<longleftrightarrow>
   \<not> blank pid \<and> (\<exists>ts. fromiso created = Some ts \<and> \<not> naive ts) \<and> ps \<noteq> [] \<and> list_all intent_ok ps"
  (is "?L \<longleftrightarrow> ?R")
proof
  assume ?L
  then obtain p where p: "parse_plan fromiso (Parsed (JObj (plan_doc pid created ps))) = Inr p" "p_intents p = ps"
    by blast
  from parse_planD [OF p(1)] have raw: "p_raw p = plan_doc pid created ps" by simp
  have fields: "dget (plan_doc pid created ps) ''plan_id'' = JStr pid"
    "dget (plan_doc pid created ps) ''created_at'' = JStr created"
    by (simp_all add: plan_doc_def dget_def)
  from parse_planD [OF p(1)] parse_plan_intents_ok [OF p(1)] p(2) show ?R
    by (auto simp: raw fields list_all_iff)
next
  assume ?R
  then show ?L by (fastforce simp: parse_plan_doc list_all_iff)
qed

text \<open>
  A well-formed plan judged at an aware moment always gets its list of reasons, and the list
  is empty exactly when the plan is at most an hour old and not from the future, its id is new, and
  both totals fit bounds that are themselves finite: a NaN or infinite cap or balance refuses.
\<close>

theorem plan_refusals_empty_iff:
  assumes "\<forall>i \<in> set (p_intents p). intent_ok i" and "\<not> naive (p_created_at p)" and "\<not> naive now"
  shows "\<exists>margin reasons. margin_required (p_intents p) = Inr margin \<and>
    plan_refusals p now ledgered cap free = Inr reasons \<and>
    (reasons = [] \<longleftrightarrow>
       instant (p_created_at p) \<le> instant now \<and> instant now \<le> instant (p_created_at p) + PLAN_TTL \<and>
       p_id p \<notin> ledgered \<and>
       isfinite cap \<and> \<not> flt cap (total_notional (p_intents p)) \<and>
       isfinite free \<and> \<not> flt free margin)"
proof -
  from margin_required_ok [OF assms(1)] obtain m where "margin_required (p_intents p) = Inr m" by blast
  with assms(2,3) show ?thesis
    by (auto simp: plan_refusals_def dt_sub_def dt_lt_def comparable_def Let_def)
qed

theorem plan_refusals_empty_iff_witness:
  "\<exists>margin reasons. margin_required [sample_intent] = Inr margin \<and>
    plan_refusals \<lparr>p_id = ''r1'', p_created_at = utc 0, p_intents = [sample_intent], p_raw = []\<rparr>
      (utc (PLAN_TTL + 1)) {} (Fin 100) (Fin 500) = Inr reasons \<and> reasons \<noteq> []"
proof -
  let ?p = "\<lparr>p_id = ''r1'', p_created_at = utc 0, p_intents = [sample_intent], p_raw = []\<rparr>"
  have "\<forall>i \<in> set (p_intents ?p). intent_ok i" "\<not> naive (p_created_at ?p)" "\<not> naive (utc (PLAN_TTL + 1))"
    by (simp_all add: sample_intent_ok)
  from plan_refusals_empty_iff [OF this, of "{}" "Fin 100" "Fin 500"] show ?thesis by simp
qed



end
