(* ===== verification/ExecState.thy ===== *)
theory ExecState imports ExecLedger ProbePlan
begin

text \<open>
  \<open>cli/engine/executor.py\<close>, first part: the executor's state, the one intent in flight, the world it
  calls (clock, control files, venue, cache, disk) and the journaling primitives every path shares.

  A handler is an action on the executor state that returns or raises; what it changed before it
  raised stays changed, as in the source. Every call that leaves the process asks the world, whose
  answers are functions of the number of calls made so far: a theorem over all worlds holds for every
  sequence of answers. The log records, newest first, what the process did to the outside.
\<close>

section \<open>Data\<close>

text \<open>\<open>cli/engine/venuestate.py\<close>: \<open>InstrumentConstraints\<close> (the instrument id is the symbol's) and \<open>VenueState\<close>.\<close>

record constraints =
  k_symbol :: string
  k_ordermin :: pyfloat
  k_costmin :: pyfloat
  k_costmin_quote :: string
  k_lot_step :: pyfloat
  k_tick_size :: pyfloat

record venue_state =
  vt_instruments :: "(string \<times> constraints) list"
  vt_positions :: "(string \<times> pyfloat) list"
  vt_balances :: "(string \<times> pyfloat) list"

datatype phase = AwaitingQuote | Resting | AwaitingReprice | Cancelling | Ioc | Done

fun phase_name :: "phase \<Rightarrow> string" where
  "phase_name AwaitingQuote = ''awaiting_quote''"
| "phase_name Resting = ''resting''"
| "phase_name AwaitingReprice = ''awaiting_reprice''"
| "phase_name Cancelling = ''cancelling''"
| "phase_name Ioc = ''ioc''"
| "phase_name Done = ''done''"

record active =
  a_index :: nat
  a_intent :: intent
  a_raw :: json
  a_instrument_id :: string
  a_constraints :: constraints
  a_phase :: phase
  a_started_at :: dt
  a_quote_deadline :: dt
  a_timebox_at :: dt
  a_last_quote_at :: "dt option"
  a_bid :: "pyfloat option"
  a_ask :: "pyfloat option"
  a_reprices :: nat
  a_ioc_attempts :: nat
  a_filled :: pyfloat
  a_target_qty :: pyfloat
  a_close_qty :: "pyfloat option"
  a_reduce_only :: bool
  a_position_before :: pyfloat
  a_own_position_before :: pyfloat
  a_foreign_filled :: pyfloat
  a_order :: "string option"
  a_order_payload :: "jdict option"
  a_coid :: "string option"
  a_order_qty :: pyfloat
  a_order_filled :: pyfloat
  a_cancel_requested :: bool
  a_falling_back :: bool
  a_revoke_reasons :: "string list"
  a_phase_deadline :: "dt option"
  a_placed_at :: "dt option"
  a_hold_expired :: bool
  a_quote_seq :: nat
  a_priced_seq :: nat

section \<open>Constants\<close>

definition QUOTE_WAIT :: int where "QUOTE_WAIT = 30 * second_us"
definition QUOTE_SILENCE :: int where "QUOTE_SILENCE = 30 * second_us"
definition TIME_BOX :: int where "TIME_BOX = 15 * minute_us"
definition ACK_WAIT :: int where "ACK_WAIT = 30 * second_us"
definition MAX_REPRICES :: nat where "MAX_REPRICES = 5"
definition MAX_IOC_ATTEMPTS :: nat where "MAX_IOC_ATTEMPTS = 3"
definition REST_CANCEL_OFFSET :: pyfloat where "REST_CANCEL_OFFSET = fround (5 / 100)"
definition FLAT_TOLERANCE :: pyfloat where "FLAT_TOLERANCE = fround (1 / 10 ^ 12)"
definition OVERFILL_TOLERANCE :: pyfloat where "OVERFILL_TOLERANCE = fround (1 / 10 ^ 12)"

definition TRIPPED_REFUSAL :: string where
  "TRIPPED_REFUSAL = ''the kill switch tripped in this process''"

definition KRAKEN_ERROR_MARKERS :: "string list" where
  "KRAKEN_ERROR_MARKERS = [''EOrder:'', ''EGeneral:'', ''EAccount:'']"

definition POST_ONLY_MARKER :: string where "POST_ONLY_MARKER = ''POST_ONLY_REJECTED:''"

definition RECONCILED_TERMINALS :: "string list" where
  "RECONCILED_TERMINALS = [''OrderRejected'', ''OrderCanceled'', ''OrderExpired'']"

section \<open>The world and the executor\<close>

text \<open>What the cache says of the order behind a row: whether it is of this strategy, and its fill.\<close>

datatype cached_order =
    CacheRaises
  | NoOrder
  | CachedOrder (co_own: bool) (co_filled: pyfloat) (co_status: string)

record world =
  w_isofmt :: "dt \<Rightarrow> string"
  w_fromiso :: "string \<Rightarrow> dt option"
  w_fstr :: "string \<Rightarrow> pyfloat option"
  w_now :: "nat \<Rightarrow> dt"
  w_gate :: "nat \<Rightarrow> surroundings"
  w_disk :: "nat \<Rightarrow> bool"
  w_submit :: "nat \<Rightarrow> bool"
  w_cancel :: "nat \<Rightarrow> bool"
  w_subscribe :: "nat \<Rightarrow> bool"
  w_instrument :: "nat \<Rightarrow> bool"
  w_build :: "nat \<Rightarrow> string option"
  w_truth :: "nat \<Rightarrow> venue_state option"
  w_position :: "nat \<Rightarrow> pyfloat option"
  w_open_orders :: "nat \<Rightarrow> string list option"
  w_cached :: "nat \<Rightarrow> cached_order"
  w_cache_on :: bool
  w_inflight :: "nat \<Rightarrow> string list option"
  w_margin :: "nat \<Rightarrow> (string \<times> pyfloat) list option"

datatype effect =
    Evaluated verdict
  | Ledgered string
  | Sent string nat intent jdict
  | CancelSent string
  | VenueCancelSent string
  | Subscribed string
  | Unsubscribed string
  | Started nat
  | Counted string
  | FillPublished string
  | KillTripped string
  | KillFile bool

text \<open>
  \<open>x_live\<close> says whether \<open>self._active\<close> is set; \<open>x_active\<close> is the object itself, which the handler that
  ends the intent still reads. \<open>x_rows\<close> holds the row objects by their own client order id;
  \<open>x_attached\<close> and \<open>x_by_venue\<close> map the two ids an event may name an order by to them: a row attached again
  replaces its object under every id. \<open>x_restored\<close> is the restored set with the venue id of each order, \<open>x_sockets\<close>
  the endpoints down with the moment each dropped, \<open>x_emptied_at\<close> and \<open>x_completed_at\<close> the two moments a freeze
  lifts on, \<open>x_marked\<close> the rows this process marked unmatched; the three \<open>x_fills\<close> fields are a pass's read of the
  trade history.
\<close>

record xs =
  x_ticks :: nat
  x_gate :: gate
  x_armed :: bool
  x_evaluated_at :: "dt option"
  x_frozen :: bool
  x_recon_refusal :: "string option"
  x_day_loss :: bool
  x_kill :: bool
  x_journal :: journal
  x_plan :: "plan option"
  x_cycle_ts :: dt
  x_window_close :: "dt option"
  x_index :: nat
  x_live :: bool
  x_active :: active
  x_resolved :: "(nat \<times> pyfloat) list"
  x_rows :: "(string \<times> (dt \<times> jdict)) list"
  x_attached :: "(string \<times> string) list"
  x_by_venue :: "(string \<times> string) list"
  x_restored :: "(string \<times> string option) list"
  x_restored_unread :: bool
  x_restored_fills :: "string list"
  x_answered :: "string list"
  x_frozen_at :: "dt option"
  x_repaired :: "string list"
  x_reread_tries :: nat
  x_armed_by :: "string option"
  x_owed :: bool
  x_sockets :: "(string \<times> dt) list"
  x_emptied_at :: "dt option"
  x_completed_at :: "dt option"
  x_marked :: "(string \<times> string) list"
  x_adopted :: bool
  x_fills_read :: "(string \<times> pyfloat) list option"
  x_fills_failed :: bool
  x_fills_floor :: "dt option"
  x_balances :: "(string \<times> pyfloat) list option"
  x_max_plan_notional :: pyfloat
  x_log :: "effect list"

section \<open>Actions\<close>

type_synonym 'a act = "xs \<Rightarrow> 'a res \<times> xs"

definition ret :: "'a \<Rightarrow> 'a act" where
  "ret x = (\<lambda>s. (Inr x, s))"

definition fail :: "exn \<Rightarrow> 'a act" where
  "fail e = (\<lambda>s. (Inl e, s))"

definition bnd :: "'a act \<Rightarrow> ('a \<Rightarrow> 'b act) \<Rightarrow> 'b act" where
  "bnd m f = (\<lambda>s. case m s of (Inl e, s') \<Rightarrow> (Inl e, s') | (Inr x, s') \<Rightarrow> f x s')"

definition sq :: "'a act \<Rightarrow> 'b act \<Rightarrow> 'b act" where
  "sq m n = bnd m (\<lambda>_. n)"

text \<open>\<open>try: m except Exception: h\<close>; what \<open>m\<close> changed before it raised stays.\<close>

definition catch :: "'a act \<Rightarrow> (exn \<Rightarrow> 'a act) \<Rightarrow> 'a act" where
  "catch m h = (\<lambda>s. case m s of (Inl e, s') \<Rightarrow> h e s' | (Inr x, s') \<Rightarrow> (Inr x, s'))"

definition get :: "(xs \<Rightarrow> 'a) \<Rightarrow> 'a act" where
  "get f = (\<lambda>s. (Inr (f s), s))"

definition upd :: "(xs \<Rightarrow> xs) \<Rightarrow> unit act" where
  "upd f = (\<lambda>s. (Inr (), f s))"

definition lift :: "'a res \<Rightarrow> 'a act" where
  "lift r = (\<lambda>s. (r, s))"

definition ask :: "(nat \<Rightarrow> 'a) \<Rightarrow> 'a act" where
  "ask f = (\<lambda>s. (Inr (f (x_ticks s)), s\<lparr>x_ticks := x_ticks s + 1\<rparr>))"

definition emit :: "effect \<Rightarrow> unit act" where
  "emit e = upd (\<lambda>s. s\<lparr>x_log := e # x_log s\<rparr>)"

definition updA :: "(active \<Rightarrow> active) \<Rightarrow> unit act" where
  "updA f = upd (\<lambda>s. s\<lparr>x_active := f (x_active s)\<rparr>)"

definition getA :: "(active \<Rightarrow> 'a) \<Rightarrow> 'a act" where
  "getA f = get (\<lambda>s. f (x_active s))"

definition skip :: "unit act" where
  "skip = ret ()"

definition inc_order :: "string \<Rightarrow> unit act" where
  "inc_order outcome = emit (Counted outcome)"

section \<open>The gate read\<close>

definition level_permits :: "level \<Rightarrow> intent \<Rightarrow> bool" where
  "level_permits l i =
     (if i_action i = ''close'' then l = REDUCE_ONLY \<or> l = FULL else l = FULL)"

definition fold_holds :: "xs \<Rightarrow> verdict \<Rightarrow> verdict" where
  "fold_holds s v =
     (let frozen = x_frozen s; unread = x_recon_refusal s \<noteq> None; day_loss = x_day_loss s;
          l1 = (if frozen then NONE else v_level v);
          l2 = (if unread then NONE else l1);
          l3 = (if day_loss then (if l2 \<noteq> NONE then REDUCE_ONLY else l2) else l2)
      in \<lparr>v_level = l3,
          v_reasons = v_reasons v @ (if frozen then [''socket_down''] else []) @
            (if unread then [''reconciliation_unread''] else []) @
            (if day_loss then [''daily_loss_hold''] else []),
          v_inputs = dset (dset (dset (v_inputs v) ''socket_down'' (JBool frozen))
            ''reconciliation_unread'' (JBool unread)) ''daily_loss_hold'' (JBool day_loss)\<rparr>)"

text \<open>\<open>_evaluate\<close>: the one gate read; every evaluation reaches the publish hook.\<close>

definition x_evaluate :: "world \<Rightarrow> dt \<Rightarrow> verdict act" where
  "x_evaluate w now =
     bnd (get x_gate) (\<lambda>g.
     bnd (ask (w_gate w)) (\<lambda>sur.
     bnd (lift (evaluate g sur now)) (\<lambda>(raw, g').
     bnd (get (\<lambda>s. fold_holds s raw)) (\<lambda>v.
     sq (upd (\<lambda>s. s\<lparr>x_gate := g', x_evaluated_at := Some now, x_armed := armed v\<rparr>))
     (sq (emit (Evaluated v)) (ret v))))))"

section \<open>The ledger\<close>

text \<open>A ledger call, or the \<open>OSError\<close> of a disk that fails it.\<close>

definition ledger :: "world \<Rightarrow> ledger_op \<Rightarrow> unit act" where
  "ledger w op =
     bnd (ask (w_disk w)) (\<lambda>ok s.
       if \<not> ok then (Inl OSError, s)
       else (case ledger_step (w_isofmt w) op (x_journal s) of
               Inl e \<Rightarrow> (Inl e, s)
             | Inr j \<Rightarrow> (Inr (), s\<lparr>x_journal := j\<rparr>)))"

text \<open>
  \<open>_journal_intent\<close>: with no plan set the failing access is inside the \<open>try\<close> and again in the log call
  of its \<open>except\<close>, so the call raises. The gap gauge it re-sets is telemetry.
\<close>

definition journal_intent :: "world \<Rightarrow> nat \<Rightarrow> string \<Rightarrow> string list \<Rightarrow> pyfloat \<Rightarrow> bool act" where
  "journal_intent w index outcome reasons filled_qty =
     bnd (get x_plan) (\<lambda>p. bnd (get x_cycle_ts) (\<lambda>ts.
       case p of
         None \<Rightarrow> fail AttributeError
       | Some pl \<Rightarrow>
           catch (sq (ledger w (UpdateIntent ts (p_id pl) (int index) outcome reasons filled_qty)) (ret True))
             (\<lambda>_. ret False)))"

definition update_row :: "world \<Rightarrow> string option \<Rightarrow> jdict option \<Rightarrow> pyfloat \<Rightarrow> unit act" where
  "update_row w state event add_filled_qty =
     bnd (get x_cycle_ts) (\<lambda>ts. bnd (getA a_coid) (\<lambda>coid.
       case coid of
         None \<Rightarrow> fail (EngineError ''no submitted row'')
       | Some c \<Rightarrow> ledger w (UpdateRow ts c state event add_filled_qty)))"

definition mark_ambiguous :: "world \<Rightarrow> string \<Rightarrow> unit act" where
  "mark_ambiguous w what =
     catch (bnd (ask (w_now w)) (\<lambda>now.
       update_row w (Some ''ambiguous'')
         (Some [(''type'', JStr ''ambiguous''), (''at'', JStr (w_isofmt w now)), (''what'', JStr what)]) (Fin 0)))
       (\<lambda>_. skip)"

text \<open>The plan entry: an unjournaled plan is an unrunnable plan.\<close>

definition journal_plan ::
  "world \<Rightarrow> dt \<Rightarrow> verdict \<Rightarrow> dt \<Rightarrow> string \<Rightarrow> jdict \<Rightarrow> string \<Rightarrow> string list \<Rightarrow> json list \<Rightarrow> bool act" where
  "journal_plan w cycle_ts v now plan_id doc disposition reasons intents =
     catch (sq (ledger w (AppendPlan cycle_ts
         [(''plan_id'', JStr plan_id), (''received_at'', JStr (w_isofmt w now)),
          (''disposition'', JStr disposition), (''reasons'', JArr (map JStr reasons)),
          (''plan'', JObj doc), (''intents'', JArr intents)] v now)) (ret True))
       (\<lambda>_. ret False)"

end
