(* ===== verification/ExecFlow.thy ===== *)
theory ExecFlow imports ExecState
begin

text \<open>
  \<open>cli/engine/executor.py\<close>, second part: the submission chokepoint, the placement ladder (first order,
  reprices, bounded marketable fallback), revocation, the kill switch and the handlers of quotes,
  order events and the timer.
\<close>

section \<open>Phases and cancels\<close>

text \<open>\<open>_enter\<close>\<close>

definition enter :: "world \<Rightarrow> phase \<Rightarrow> unit act" where
  "enter w p =
     sq (updA (\<lambda>a. a\<lparr>a_phase := p\<rparr>))
     (sq (if p = Cancelling \<or> p = Ioc
          then bnd (ask (w_now w)) (\<lambda>now. updA (\<lambda>a. a\<lparr>a_phase_deadline := Some (dt_add now ACK_WAIT)\<rparr>))
          else updA (\<lambda>a. a\<lparr>a_phase_deadline := None\<rparr>))
         (if p = Resting
          then bnd (ask (w_now w)) (\<lambda>now. updA (\<lambda>a. a\<lparr>a_placed_at := Some now\<rparr>))
          else skip))"

text \<open>\<open>_cancel\<close>: one attempt; whether it raised or not, the order may or may not rest.\<close>

definition send_cancel :: "world \<Rightarrow> string \<Rightarrow> unit act" where
  "send_cancel w coid = sq (emit (CancelSent coid)) (bnd (ask (w_cancel w)) (\<lambda>_. skip))"

definition cancel :: "world \<Rightarrow> unit act" where
  "cancel w = bnd (getA a_order) (\<lambda>ord. case ord of None \<Rightarrow> skip | Some oid \<Rightarrow> send_cancel w oid)"

definition revoke :: "world \<Rightarrow> string list \<Rightarrow> unit act" where
  "revoke w reasons =
     sq (updA (\<lambda>a. a\<lparr>a_cancel_requested := True, a_falling_back := False, a_revoke_reasons := reasons\<rparr>))
     (sq (enter w Cancelling) (cancel w))"

definition unsubscribe :: "unit act" where
  "unsubscribe = bnd (getA a_instrument_id) (\<lambda>i. emit (Unsubscribed i))"

section \<open>Halting a plan and tripping the switch\<close>

text \<open>\<open>_halt_plan\<close>: the intents after \<open>from_index\<close> are journaled refused.\<close>

fun refuse_from :: "world \<Rightarrow> string \<Rightarrow> nat list \<Rightarrow> unit act" where
  "refuse_from w reason [] = skip"
| "refuse_from w reason (i # is) =
     sq (journal_intent w i ''refused'' [reason] (Fin 0)) (sq (inc_order ''refused'') (refuse_from w reason is))"

definition drop_plan :: "unit act" where
  "drop_plan = upd (\<lambda>s. s\<lparr>x_live := False, x_plan := None, x_index := 0\<rparr>)"

definition halt_plan :: "world \<Rightarrow> int \<Rightarrow> string \<Rightarrow> unit act" where
  "halt_plan w from_index reason =
     bnd (get x_plan) (\<lambda>p. case p of
       None \<Rightarrow> skip
     | Some pl \<Rightarrow> sq (refuse_from w reason [nat (from_index + 1)..<length (p_intents pl)]) drop_plan)"

definition cancel_all :: "world \<Rightarrow> string list \<Rightarrow> string list \<Rightarrow> unit act" where
  "cancel_all w requested coids =
     foldr (\<lambda>c m. sq (if c \<in> set requested then skip else send_cancel w c) m) coids skip"

definition cancel_resting :: "world \<Rightarrow> bool \<Rightarrow> unit act" where
  "cancel_resting w live =
     bnd (get x_active) (\<lambda>a.
     bnd (if live \<and> a_order a \<noteq> None
          then sq (updA (\<lambda>a. a\<lparr>a_cancel_requested := True, a_falling_back := False\<rparr>))
               (sq (cancel w) (ret [case a_coid a of None \<Rightarrow> ''None'' | Some c \<Rightarrow> c]))
          else ret []) (\<lambda>requested.
     bnd (ask (w_open_orders w)) (\<lambda>resting.
       case resting of None \<Rightarrow> skip | Some coids \<Rightarrow> cancel_all w requested coids)))"

text \<open>\<open>_trip_kill\<close>, with \<open>_write_kill_file\<close> and \<open>_cancel_resting\<close>.\<close>

definition trip_kill :: "world \<Rightarrow> string \<Rightarrow> unit act" where
  "trip_kill w reason =
     bnd (get x_kill) (\<lambda>tripped. if tripped then skip else
       sq (upd (\<lambda>s. s\<lparr>x_kill := True, x_log := KillTripped reason # x_log s\<rparr>))
       ((bnd (ask (w_disk w)) (\<lambda>written. sq (emit (KillFile written))
       (bnd (get x_live) (\<lambda>live.
        sq (cancel_resting w live)
       (bnd (get x_active) (\<lambda>a.
        sq (if live
            then sq unsubscribe
                 (sq (journal_intent w (a_index a) ''revoked'' [''kill switch tripped -- '' @ reason] (a_filled a)) skip)
            else skip)
       (bnd (get x_plan) (\<lambda>p. bnd (get x_index) (\<lambda>index.
        sq (if p \<noteq> None
            then halt_plan w (if live then int (a_index a) else int index - 1) (''not run -- the kill switch tripped: '' @ reason)
            else skip)
       (sq drop_plan
       (bnd (ask (w_now w)) (\<lambda>now. bnd (x_evaluate w now) (\<lambda>_. skip)))))))))))))))"

section \<open>Ending an intent\<close>

text \<open>
  \<open>_reconcile_terminal\<close>: the strategy's own position against what this intent's fills and the netted
  foreign ones say it should be.
\<close>

definition reconcile_terminal :: "world \<Rightarrow> unit act" where
  "reconcile_terminal w =
     bnd (get x_active) (\<lambda>a.
       let own_delta = (if i_side (a_intent a) = ''buy'' then a_filled a else fneg (a_filled a));
           expected = fadd (fadd (a_own_position_before a) own_delta) (a_foreign_filled a) in
       bnd (ask (w_position w)) (\<lambda>actual. case actual of
         None \<Rightarrow> trip_kill w ''the position could not be read''
       | Some x \<Rightarrow>
           (if fgt (fabs (fsub x expected)) (k_lot_step (a_constraints a))
            then trip_kill w ''the position is not what the fills account for'' else skip)))"

text \<open>\<open>_finish_active\<close>; with no outcome the submission already journaled and counted.\<close>

definition finish_active :: "world \<Rightarrow> string option \<Rightarrow> string list \<Rightarrow> pyfloat \<Rightarrow> unit act" where
  "finish_active w outcome reasons filled_qty =
     sq unsubscribe
     (bnd (getA a_index) (\<lambda>index.
      sq (case outcome of
            None \<Rightarrow> skip
          | Some out \<Rightarrow>
              sq (journal_intent w index out reasons filled_qty)
                 (if out = ''refused'' then inc_order ''refused'' else skip))
      (sq (enter w Done)
      (sq (upd (\<lambda>s. s\<lparr>x_live := False, x_index := x_index s + 1\<rparr>))
          (reconcile_terminal w)))))"

definition finish_filled :: "world \<Rightarrow> string \<Rightarrow> string list \<Rightarrow> unit act" where
  "finish_filled w outcome reasons =
     bnd (getA a_filled) (\<lambda>filled. finish_active w (Some outcome) reasons filled)"

definition finish_revoked :: "world \<Rightarrow> unit act" where
  "finish_revoked w =
     bnd (get x_active) (\<lambda>a.
       sq (finish_active w (Some ''revoked'') (a_revoke_reasons a) (a_filled a))
          (halt_plan w (int (a_index a)) ''not run -- an earlier intent was revoked mid-flight''))"

text \<open>\<open>_drop_remainder_after_ambiguity\<close>: the log line reads the plan's id.\<close>

definition drop_remainder :: "world \<Rightarrow> unit act" where
  "drop_remainder w =
     sq unsubscribe
     (bnd (get x_plan) (\<lambda>p. bnd (getA a_index) (\<lambda>index. case p of
        None \<Rightarrow> fail AttributeError
      | Some _ \<Rightarrow> halt_plan w (int index) ''not run -- an earlier intent ended ambiguous'')))"

definition strand_ambiguous :: "world \<Rightarrow> string \<Rightarrow> unit act" where
  "strand_ambiguous w reason =
     bnd (get x_plan) (\<lambda>p. case p of None \<Rightarrow> fail AttributeError | Some _ \<Rightarrow>
     bnd (get x_active) (\<lambda>a.
       sq (journal_intent w (a_index a) ''ambiguous'' [reason] (a_filled a))
       (sq (inc_order ''ambiguous'') (drop_remainder w))))"

section \<open>The chokepoint\<close>

text \<open>The log shows the write-ahead row and then the venue call, whether or not the call returns.\<close>

datatype placed = Submitted | Refused | Ambiguous | Below_minimum | Error

definition submitted_row :: "plan \<Rightarrow> active \<Rightarrow> string \<Rightarrow> jdict" where
  "submitted_row pl a coid =
     [(''plan_id'', JStr (p_id pl)), (''intent_index'', JInt (int (a_index a))),
      (''client_order_id'', JStr coid), (''intent'', a_raw a),
      (''order'', JObj (case a_order_payload a of None \<Rightarrow> [] | Some d \<Rightarrow> d)),
      (''state'', JStr ''submitting''), (''filled_qty'', JFloat (Fin 0)), (''events'', JArr [])]"

text \<open>\<open>_submit\<close>: the gate, the switch, the write-ahead row, then the venue call, once.\<close>

definition refuse_submission :: "world \<Rightarrow> string list \<Rightarrow> placed act" where
  "refuse_submission w reasons =
     bnd (get x_active) (\<lambda>a.
       sq (journal_intent w (a_index a) ''refused'' reasons (a_filled a))
       (sq (inc_order ''refused'') (ret Refused)))"

definition send_order :: "world \<Rightarrow> string \<Rightarrow> jdict \<Rightarrow> placed act" where
  "send_order w coid row =
     bnd (get x_cycle_ts) (\<lambda>ts. bnd (get x_active) (\<lambda>a.
     sq (updA (\<lambda>a. a\<lparr>a_coid := Some coid\<rparr>))
     (sq (upd (\<lambda>s. s\<lparr>x_rows := AList.update coid (ts, row) (x_rows s),
                     x_attached := AList.update coid coid (x_attached s)\<rparr>))
     (sq (upd (\<lambda>s. s\<lparr>x_log := Sent coid (a_index a) (a_intent a) (obj_of (dget row ''order'')) #
                              Ledgered coid # x_log s\<rparr>))
     ((bnd (ask (w_submit w)) (\<lambda>returned.
       if returned then sq (inc_order ''submitted'') (ret Submitted)
       else sq (mark_ambiguous w ''submit raised'')
            (sq (journal_intent w (a_index a) ''ambiguous'' [''submit raised -- venue outcome unknown''] (a_filled a))
            (sq (inc_order ''ambiguous'') (ret Ambiguous))))))))))"

definition write_ahead :: "world \<Rightarrow> dt \<Rightarrow> jdict \<Rightarrow> verdict \<Rightarrow> bool act" where
  "write_ahead w ts row v =
     catch (bnd (ask (w_now w)) (\<lambda>ev. sq (ledger w (AppendRow ts row v ev)) (ret True))) (\<lambda>_. ret False)"

definition submit :: "world \<Rightarrow> string \<Rightarrow> placed act" where
  "submit w coid =
     bnd (ask (w_now w)) (\<lambda>now. bnd (x_evaluate w now) (\<lambda>v.
     bnd (get x_kill) (\<lambda>tripped. bnd (get x_active) (\<lambda>a.
       if tripped then refuse_submission w [TRIPPED_REFUSAL]
       else if \<not> level_permits (v_level v) (a_intent a) then refuse_submission w (v_reasons v)
       else bnd (get x_plan) (\<lambda>p. bnd (get x_cycle_ts) (\<lambda>ts. case p of
         None \<Rightarrow> fail AttributeError
       | Some pl \<Rightarrow>
           (let row = submitted_row pl a coid in
            bnd (write_ahead w ts row v) (\<lambda>stored.
              if stored then send_order w coid row
              else refuse_submission w [''exec ledger write failed'']))))))))"

section \<open>Placing an order\<close>

definition size_probe_order :: "pyfloat \<Rightarrow> pyfloat \<Rightarrow> constraints \<Rightarrow> sizing res" where
  "size_probe_order target_qty touch_price k =
     (if k_costmin_quote k \<noteq> ''EUR'' then Inl (EngineError ''costmin is not in EUR'')
      else size_order target_qty touch_price (k_ordermin k) (k_costmin k) (k_lot_step k) (k_tick_size k))"

text \<open>\<open>float(raw)\<close> of a tick's side, \<open>None\<close> where it raises.\<close>

definition as_price :: "pyfloat option \<Rightarrow> pyfloat option" where
  "as_price raw = (case raw of None \<Rightarrow> None | Some v \<Rightarrow> (if isfinite v \<and> fgt v (Fin 0) then Some v else None))"

definition touch_of :: "active \<Rightarrow> pyfloat option" where
  "touch_of a = (if i_side (a_intent a) = ''buy'' then a_bid a else a_ask a)"

definition opposite_touch :: "active \<Rightarrow> pyfloat option" where
  "opposite_touch a = (if i_side (a_intent a) = ''buy'' then a_ask a else a_bid a)"

definition limit_price :: "active \<Rightarrow> pyfloat option res" where
  "limit_price a =
     (case touch_of a of
        None \<Rightarrow> Inr None
      | Some touch \<Rightarrow>
          (let away = (\<lambda>offset. Inr (Some (fmul touch
             (if i_side (a_intent a) = ''buy'' then fsub (Fin 1) offset else fadd (Fin 1) offset)))) in
           if i_mode (a_intent a) = ''rest-cancel'' then away REST_CANCEL_OFFSET
           else if i_mode (a_intent a) = ''rest-hold'' then
             (case i_offset (a_intent a) of
                None \<Rightarrow> Inl TypeError
              | Some pct \<Rightarrow> rbind (fdiv pct (Fin 100)) away)
           else Inr (Some touch)))"

text \<open>\<open>_over_cap_reason\<close>: a quantity intent's real notional, cumulated with the plan's declared ones.\<close>

definition over_cap_reason :: "world \<Rightarrow> pyfloat \<Rightarrow> pyfloat \<Rightarrow> string option act" where
  "over_cap_reason w target_qty price =
     bnd (get x_active) (\<lambda>a. if i_qty (a_intent a) = None then ret None else
     bnd (get x_plan) (\<lambda>p. case p of None \<Rightarrow> fail AttributeError | Some pl \<Rightarrow>
     bnd (get x_resolved) (\<lambda>res. bnd (get x_max_plan_notional) (\<lambda>cap.
       let notional = fmul target_qty price;
           declared = total_notional (p_intents pl);
           resolved = fsum (map snd (filter (\<lambda>(i, _). i \<noteq> a_index a) res));
           total = fadd (fadd declared resolved) notional in
       if fgt total cap then ret (Some ''plan notional exceeds the cap'')
       else sq (upd (\<lambda>s. s\<lparr>x_resolved := AList.update (a_index a) notional (x_resolved s)\<rparr>)) (ret None)))))"

definition opt_json :: "('a \<Rightarrow> json) \<Rightarrow> 'a option \<Rightarrow> json" where
  "opt_json f x = (case x of None \<Rightarrow> JNull | Some y \<Rightarrow> f y)"

definition order_payload :: "active \<Rightarrow> sized_order \<Rightarrow> bool \<Rightarrow> bool \<Rightarrow> jdict" where
  "order_payload a so ioc post_only =
     [(''symbol'', JStr (i_symbol (a_intent a))), (''side'', JStr (i_side (a_intent a))),
      (''qty'', JFloat (so_qty so)), (''price'', JFloat (so_price so)), (''notional'', JFloat (so_notional so)),
      (''time_in_force'', JStr (if ioc then ''IOC'' else ''GTC'')), (''post_only'', JBool post_only),
      (''leverage'', opt_json JInt (i_leverage (a_intent a))), (''reduce_only'', JBool (a_reduce_only a)),
      (''bid'', opt_json JFloat (a_bid a)), (''ask'', opt_json JFloat (a_ask a)),
      (''quote_seq'', JInt (int (a_quote_seq a)))]"

text \<open>
  \<open>_place\<close>: size, build, submit. The factory of the trading library builds the order or raises, and
  gives it its client order id.
\<close>

definition place :: "world \<Rightarrow> pyfloat \<Rightarrow> pyfloat \<Rightarrow> bool \<Rightarrow> bool \<Rightarrow> (placed \<times> string) act" where
  "place w target_qty price ioc post_only =
     bnd (get x_active) (\<lambda>a.
       case size_probe_order target_qty price (a_constraints a) of
         Inl e \<Rightarrow> (if is_engine_error e then ret (Error, ''sizing refused'') else fail e)
       | Inr (Below b) \<Rightarrow> ret (Below_minimum, ''below the venue minimum'')
       | Inr (Sized so) \<Rightarrow>
           bnd (ask (w_instrument w)) (\<lambda>known.
             if \<not> known then ret (Error, ''instrument not found in Cache'') else
           bnd (ask (w_build w)) (\<lambda>ord. case ord of
             None \<Rightarrow> fail ValueError
           | Some coid \<Rightarrow>
               sq (updA (\<lambda>a. a\<lparr>a_order := Some coid, a_order_qty := so_qty so, a_order_filled := Fin 0,
                              a_cancel_requested := False, a_falling_back := False,
                              a_order_payload := Some (order_payload a so ioc post_only),
                              a_priced_seq := a_quote_seq a\<rparr>))
               (bnd (submit w coid) (\<lambda>r. ret (r, ''''))))))"

definition no_touch :: string where "no_touch = ''no usable touch price''"

definition target_of :: "active \<Rightarrow> pyfloat \<Rightarrow> pyfloat res" where
  "target_of a price =
     (case a_close_qty a of
        Some q \<Rightarrow> Inr q
      | None \<Rightarrow> (case i_qty (a_intent a) of
          Some q \<Rightarrow> Inr q
        | None \<Rightarrow> (case i_notional (a_intent a) of None \<Rightarrow> Inl TypeError | Some n \<Rightarrow> fdiv n price)))"

definition first_submission :: "world \<Rightarrow> unit act" where
  "first_submission w =
     bnd (get x_active) (\<lambda>a. bnd (lift (limit_price a)) (\<lambda>price. case price of
       None \<Rightarrow> finish_active w (Some ''refused'') [no_touch] (Fin 0)
     | Some p \<Rightarrow>
         bnd (lift (target_of a p)) (\<lambda>target_qty.
         bnd (over_cap_reason w target_qty p) (\<lambda>over. case over of
           Some r \<Rightarrow> finish_active w (Some ''refused'') [r] (Fin 0)
         | None \<Rightarrow>
             bnd (place w target_qty p False True) (\<lambda>(result, detail). case result of
               Below_minimum \<Rightarrow> finish_active w (Some ''refused'') [detail] (Fin 0)
             | Error \<Rightarrow> finish_active w (Some ''refused'') [detail] (Fin 0)
             | Ambiguous \<Rightarrow> drop_remainder w
             | Refused \<Rightarrow> finish_active w None [] (Fin 0)
             | Submitted \<Rightarrow>
                 sq (updA (\<lambda>a. a\<lparr>a_target_qty := a_order_qty a\<rparr>)) (enter w Resting))))))"

text \<open>\<open>_resubmit\<close>: every order after the first, for what is still owed.\<close>

definition owed :: "active \<Rightarrow> pyfloat" where
  "owed a = fsub (a_target_qty a) (a_filled a)"

definition resubmit :: "world \<Rightarrow> pyfloat \<Rightarrow> bool \<Rightarrow> bool \<Rightarrow> phase \<Rightarrow> unit act" where
  "resubmit w price ioc post_only next_phase =
     bnd (get x_active) (\<lambda>a.
       if flt (owed a) (k_lot_step (a_constraints a)) then finish_filled w ''filled'' []
       else bnd (place w (owed a) price ioc post_only) (\<lambda>(result, detail). case result of
         Below_minimum \<Rightarrow> finish_filled w ''partial'' [detail]
       | Error \<Rightarrow> finish_filled w ''refused'' [detail]
       | Ambiguous \<Rightarrow> drop_remainder w
       | Refused \<Rightarrow> bnd (getA a_filled) (\<lambda>f. finish_active w None [] f)
       | Submitted \<Rightarrow> enter w next_phase))"

definition reprice_at_touch :: "world \<Rightarrow> unit act" where
  "reprice_at_touch w =
     bnd (get x_active) (\<lambda>a. bnd (lift (limit_price a)) (\<lambda>price. case price of
       None \<Rightarrow> finish_filled w ''refused'' [no_touch]
     | Some p \<Rightarrow> resubmit w p False True Resting))"

definition fallback :: "world \<Rightarrow> unit act" where
  "fallback w =
     bnd (getA a_ioc_attempts) (\<lambda>n.
       if MAX_IOC_ATTEMPTS \<le> n then finish_filled w ''unfilled'' [''the bounded fallback did not fill'']
       else sq (updA (\<lambda>a. a\<lparr>a_ioc_attempts := a_ioc_attempts a + 1\<rparr>))
         (bnd (get x_active) (\<lambda>a. case opposite_touch a of
            None \<Rightarrow> finish_filled w ''refused'' [no_touch]
          | Some p \<Rightarrow> resubmit w p True False Ioc)))"

definition reprice :: "world \<Rightarrow> unit act" where
  "reprice w =
     bnd (get x_active) (\<lambda>a.
       if a_cancel_requested a then (if a_falling_back a then fallback w else finish_revoked w)
       else sq (updA (\<lambda>a. a\<lparr>a_reprices := a_reprices a + 1\<rparr>))
         (bnd (get x_active) (\<lambda>a.
            if MAX_REPRICES < a_reprices a then
              (if i_mode (a_intent a) = ''execute'' then fallback w
               else finish_filled w ''unfilled'' [''reprice budget exhausted''])
            else if a_priced_seq a < a_quote_seq a then reprice_at_touch w
            else sq (updA (\<lambda>a. a\<lparr>a_coid := None, a_order := None\<rparr>)) (enter w AwaitingReprice))))"

end
