(* ===== verification/ExecEvents.thy ===== *)
theory ExecEvents imports ExecFlow
begin

text \<open>
  \<open>cli/engine/executor.py\<close>, third part: fills and the kill switch they can trip, order events of the
  order in flight and of every other one, quotes, the timer, and the walls a plan passes before it runs.
  What the startup adoption and the re-read pass leave (restored and repaired rows) is part of the state. The fill
  metrics appear as one effect.
\<close>

section \<open>Events\<close>

record order_event =
  ev_kind :: string
  ev_coid :: string
  ev_venue_order_id :: "string option"
  ev_instrument_id :: string
  ev_reason :: "string option"
  ev_reconciliation :: bool
  ev_due_post_only :: bool
  ev_last_qty :: pyfloat
  ev_last_px :: pyfloat
  ev_commission :: "(pyfloat \<times> string) option"
  ev_liquidity :: string
  ev_trade_id :: string

record quote_tick =
  qt_instrument_id :: string
  qt_bid :: "pyfloat option"
  qt_ask :: "pyfloat option"

section \<open>Rows an event belongs to\<close>

definition row_venue_order_ids :: "jdict \<Rightarrow> string list" where
  "row_venue_order_ids row =
     remdups (List.map_filter (\<lambda>e. case e of
        JObj d \<Rightarrow> (case dget d ''venue_order_id'' of JStr v \<Rightarrow> (if v = [] then None else Some v) | _ \<Rightarrow> None)
      | _ \<Rightarrow> None) (arr_of (dget row ''events'')))"

definition row_venue_order_id :: "jdict \<Rightarrow> string option" where
  "row_venue_order_id row = (case row_venue_order_ids row of [v] \<Rightarrow> Some v | _ \<Rightarrow> None)"

definition row_coid :: "jdict \<Rightarrow> string" where
  "row_coid row = (case dget row ''client_order_id'' of JStr c \<Rightarrow> c | _ \<Rightarrow> [])"

definition restored_row :: "xs \<Rightarrow> jdict \<Rightarrow> bool" where
  "restored_row s row \<longleftrightarrow>
     x_restored_unread s \<or> row_coid row \<in> fst ` set (x_restored s) \<or>
     (case row_venue_order_id row of None \<Rightarrow> False | Some v \<Rightarrow> v \<in> fst ` set (x_restored s))"

definition attached_for :: "xs \<Rightarrow> order_event \<Rightarrow> (dt \<times> jdict) option" where
  "attached_for s ev =
     (let own = map_of (x_attached s) (ev_coid ev);
          key = (case own of
                   Some k \<Rightarrow> Some k
                 | None \<Rightarrow> (case ev_venue_order_id ev of None \<Rightarrow> None | Some v \<Rightarrow> map_of (x_by_venue s) v))
      in case key of None \<Rightarrow> None | Some k \<Rightarrow> map_of (x_rows s) k)"

text \<open>\<open>_ordered_qty\<close>: what the row was submitted for, 0.0 where it carries no readable quantity.\<close>

definition ordered_qty :: "world \<Rightarrow> jdict \<Rightarrow> pyfloat res" where
  "ordered_qty w row =
     (if has_key row ''order'' \<and> \<not> is_obj (dget row ''order'') then Inr (Fin 0)
      else case dget (obj_of (dget row ''order'')) ''qty'' of
             JInt i \<Rightarrow> float_of_int i
           | JFloat x \<Rightarrow> Inr x
           | JBool b \<Rightarrow> Inr (Fin (if b then 1 else 0))
           | JStr t \<Rightarrow> (case w_fstr w t of None \<Rightarrow> Inr (Fin 0) | Some x \<Rightarrow> Inr x)
           | _ \<Rightarrow> Inr (Fin 0))"

definition claims :: "xs \<Rightarrow> jdict \<Rightarrow> bool" where
  "claims s row \<longleftrightarrow>
     (case x_plan s of
        None \<Rightarrow> False
      | Some pl \<Rightarrow> dget row ''plan_id'' = JStr (p_id pl) \<and>
                   eq_int (dget row ''intent_index'') (int (a_index (x_active s))))"

definition arm_reread :: "unit act" where
  "arm_reread = upd (\<lambda>s. if x_sockets s \<noteq> [] then s else s\<lparr>x_reread_tries := 3\<rparr>)"

text \<open>\<open>row["filled_qty"] + qty\<close> of a row object.\<close>

definition row_filled_plus :: "jdict \<Rightarrow> pyfloat \<Rightarrow> pyfloat res" where
  "row_filled_plus row qty =
     rbind (dindex row ''filled_qty'') (\<lambda>v. rbind (json_plus_float v qty) (\<lambda>j. to_float j))"

text \<open>\<open>_fill_credit\<close>: what a fill adds to its row.\<close>

definition fill_credit :: "world \<Rightarrow> jdict \<Rightarrow> pyfloat \<Rightarrow> pyfloat act" where
  "fill_credit w row qty =
     bnd (get (\<lambda>s. restored_row s row)) (\<lambda>restored. bnd (get x_repaired) (\<lambda>repaired.
       if restored then
         sq (upd (\<lambda>s. s\<lparr>x_restored_fills := row_coid row # x_restored_fills s,
                         x_answered := removeAll (row_coid row) (x_answered s)\<rparr>))
           (sq arm_reread (ret (Fin 0)))
       else if row_coid row \<notin> set repaired then ret qty
       else bnd (ask (w_cached w)) (\<lambda>held. case held of
              CachedOrder own filled st \<Rightarrow>
                bnd (lift (rbind (dindex row ''filled_qty'') to_float)) (\<lambda>rf.
                  let beyond = fsub filled rf in
                  if fge beyond (fsub qty OVERFILL_TOLERANCE) then ret qty
                  else ret (fmax (Fin 0) (fmin qty beyond)))
            | _ \<Rightarrow> ret qty)))"

definition fill_payload :: "world \<Rightarrow> order_event \<Rightarrow> pyfloat option \<Rightarrow> jdict act" where
  "fill_payload w ev credited =
     bnd (ask (w_now w)) (\<lambda>now. ret
       ([(''event'', JStr ''fill''), (''at'', JStr (w_isofmt w now)),
         (''qty'', JFloat (ev_last_qty ev)), (''px'', JFloat (ev_last_px ev)),
         (''fee'', opt_json (JFloat \<circ> fst) (ev_commission ev)),
         (''fee_currency'', opt_json (JStr \<circ> snd) (ev_commission ev)),
         (''liquidity'', JStr (ev_liquidity ev)), (''trade_id'', JStr (ev_trade_id ev)),
         (''venue_order_id'', opt_json JStr (ev_venue_order_id ev))] @
        (case credited of
           None \<Rightarrow> []
         | Some c \<Rightarrow> (if feq c (ev_last_qty ev) then [] else [(''credited'', JFloat c)]))))"

definition publish_fill :: "order_event \<Rightarrow> unit act" where
  "publish_fill ev = emit (FillPublished (ev_coid ev))"

text \<open>The row object's filled quantity, kept in step with the stored row.\<close>

definition mirror :: "string \<Rightarrow> pyfloat \<Rightarrow> unit act" where
  "mirror key qty =
     bnd (get (\<lambda>s. map_of (x_rows s) key)) (\<lambda>entry. case entry of
       None \<Rightarrow> skip
     | Some (b, row) \<Rightarrow>
         bnd (lift (row_filled_plus row qty)) (\<lambda>x.
           upd (\<lambda>s. s\<lparr>x_rows := AList.update key (b, dset row ''filled_qty'' (JFloat x)) (x_rows s)\<rparr>)))"

definition mirror_row_fill :: "string \<Rightarrow> pyfloat \<Rightarrow> unit act" where
  "mirror_row_fill coid qty =
     bnd (get (\<lambda>s. map_of (x_attached s) coid)) (\<lambda>k. case k of None \<Rightarrow> skip | Some key \<Rightarrow> mirror key qty)"

definition record_trip_fill :: "world \<Rightarrow> dt \<Rightarrow> jdict \<Rightarrow> order_event \<Rightarrow> pyfloat \<Rightarrow> unit act" where
  "record_trip_fill w boundary row ev qty =
     sq (catch (bnd (fill_payload w ev (Some qty)) (\<lambda>payload.
           ledger w (UpdateRow boundary (row_coid row) None (Some payload) qty))) (\<lambda>_. skip))
     (sq (mirror (row_coid row) qty)
     (sq (bnd (get (\<lambda>s. x_live s \<and> claims s row)) (\<lambda>mine.
            if mine then updA (\<lambda>a. a\<lparr>a_filled := fadd (a_filled a) qty\<rparr>) else skip))
         (publish_fill ev)))"

text \<open>
  \<open>_trip_on_fill\<close>: a fill of an order with no open record, past what its row was submitted for, or past
  what the running intent asked for. True when one fired.
\<close>

definition trip_on_fill :: "world \<Rightarrow> order_event \<Rightarrow> bool act" where
  "trip_on_fill w ev =
     bnd (get (\<lambda>s. attached_for s ev)) (\<lambda>att. case att of
       None \<Rightarrow> sq (trip_kill w ''a fill arrived for an order with no open record'') (ret True)
     | Some (boundary, row) \<Rightarrow>
         bnd (fill_credit w row (ev_last_qty ev)) (\<lambda>qty.
         bnd (lift (ordered_qty w row)) (\<lambda>ordered.
         bnd (lift (row_filled_plus row qty)) (\<lambda>total.
           if fgt total (fadd ordered OVERFILL_TOLERANCE) then
             sq (record_trip_fill w boundary row ev qty)
             (sq (trip_kill w ''an order filled past what it was submitted for'') (ret True))
           else bnd (get (\<lambda>s. x_live s \<and> claims s row \<and>
                fgt (fadd (a_filled (x_active s)) qty) (fadd (a_target_qty (x_active s)) OVERFILL_TOLERANCE)))
             (\<lambda>over. if over then
                sq (record_trip_fill w boundary row ev qty)
                (sq (trip_kill w ''an intent filled past what it asked for'') (ret True))
              else ret False)))))"

text \<open>\<open>_net_foreign_fill\<close>: a cache that raises or holds no order nets nothing.\<close>

definition net_foreign_fill :: "world \<Rightarrow> jdict \<Rightarrow> order_event \<Rightarrow> pyfloat \<Rightarrow> unit act" where
  "net_foreign_fill w row ev qty =
     bnd (getA a_instrument_id) (\<lambda>iid. if ev_instrument_id ev \<noteq> iid then skip else
     bnd (ask (w_cached w)) (\<lambda>held. case held of
       CachedOrder own filled st \<Rightarrow>
         (if own then
            (case dget (obj_of (dget row ''intent'')) ''side'' of
               JStr side \<Rightarrow> updA (\<lambda>a. a\<lparr>a_foreign_filled :=
                 fadd (a_foreign_filled a) (if side = ''buy'' then qty else fneg qty)\<rparr>)
             | _ \<Rightarrow> updA (\<lambda>a. a\<lparr>a_foreign_filled := fadd (a_foreign_filled a) (fneg qty)\<rparr>))
          else skip)
     | _ \<Rightarrow> skip))"

section \<open>The order in flight\<close>

text \<open>A raise inside a resubmission refuses the intent.\<close>

definition guarded :: "world \<Rightarrow> string \<Rightarrow> unit act \<Rightarrow> unit act" where
  "guarded w what m =
     catch m (\<lambda>_. bnd (get x_live) (\<lambda>live. if live then finish_filled w ''refused'' [what] else skip))"

definition resubmit_on_event :: "world \<Rightarrow> unit act \<Rightarrow> unit act" where
  "resubmit_on_event w m = guarded w ''order-event handling failed'' m"

definition zero_or_partial :: "string \<Rightarrow> active \<Rightarrow> string" where
  "zero_or_partial out a = (if feq (a_filled a) (Fin 0) then out else ''partial'')"

definition on_fill :: "world \<Rightarrow> order_event \<Rightarrow> unit act" where
  "on_fill w ev =
     (let qty = ev_last_qty ev in
      sq (updA (\<lambda>a. a\<lparr>a_filled := fadd (a_filled a) qty, a_order_filled := fadd (a_order_filled a) qty\<rparr>))
      (bnd (fill_payload w ev None) (\<lambda>payload.
       bnd (get x_active) (\<lambda>a.
         let lot_step = k_lot_step (a_constraints a);
             order_done = flt (fsub (a_order_qty a) (a_order_filled a)) lot_step in
         sq (update_row w (Some (if order_done then ''filled'' else ''accepted'')) (Some payload) qty)
         (sq (case a_coid a of None \<Rightarrow> skip | Some c \<Rightarrow> mirror_row_fill c qty)
         (sq (publish_fill ev)
         (sq (if order_done then inc_order ''filled'' else skip)
             (if flt (owed a) lot_step then finish_filled w ''filled'' [] else skip))))))))"

definition contains :: "string \<Rightarrow> string \<Rightarrow> bool" where
  "contains sub t \<longleftrightarrow> list_ex (\<lambda>k. take (length sub) (drop k t) = sub) [0..<length t + 1]"

definition on_rejected :: "world \<Rightarrow> string \<Rightarrow> jdict \<Rightarrow> bool \<Rightarrow> unit act" where
  "on_rejected w reason payload due_post_only =
     (if due_post_only \<or> contains POST_ONLY_MARKER reason then
        sq (update_row w (Some ''rejected'') (Some payload) (Fin 0))
        (sq (inc_order ''rejected'') (resubmit_on_event w (reprice w)))
      else if list_ex (\<lambda>m. contains m reason) KRAKEN_ERROR_MARKERS then
        sq (update_row w (Some ''rejected'') (Some payload) (Fin 0))
        (sq (inc_order ''rejected'') (finish_filled w ''rejected'' [reason]))
      else
        sq (update_row w (Some ''ambiguous'') (Some payload) (Fin 0))
        (sq (inc_order ''ambiguous'')
        (bnd (get x_active) (\<lambda>a.
           sq (journal_intent w (a_index a) ''ambiguous'' [reason] (a_filled a)) (drop_remainder w)))))"

definition on_cancel_ack :: "world \<Rightarrow> jdict \<Rightarrow> unit act" where
  "on_cancel_ack w payload =
     bnd (get x_active) (\<lambda>a.
       let mode = i_mode (a_intent a) in
       if a_cancel_requested a then
         sq (update_row w (Some ''canceled'') (Some payload) (Fin 0))
         (sq (inc_order ''canceled'')
           (if a_falling_back a then resubmit_on_event w (fallback w)
            else if mode = ''rest-cancel'' then finish_filled w (zero_or_partial ''rest_cancel_ok'' a) []
            else if mode = ''rest-hold'' \<and> a_hold_expired a
              then finish_filled w (zero_or_partial ''rest_hold_expired'' a) []
            else finish_revoked w))
       else
         sq (update_row w (Some ''venue_canceled'') (Some payload) (Fin 0))
         (sq (inc_order ''venue_canceled'')
           (if a_phase a = Ioc then resubmit_on_event w (fallback w)
            else if mode = ''rest-hold'' then finish_filled w (zero_or_partial ''rest_hold_venue_canceled'' a) []
            else resubmit_on_event w (reprice w))))"

section \<open>Every other order\<close>

text \<open>
  What a restored row's event writes: \<open>_ADOPTED_TERMINAL_STATES\<close> over the cache's status of the order,
  \<open>_venue_terminal_state\<close>, and the settlement of the row's intent.
\<close>

definition ADOPTED_TERMINAL_STATES :: "(string \<times> string) list" where
  "ADOPTED_TERMINAL_STATES =
     [(''FILLED'', ''filled''), (''CANCELED'', ''canceled''), (''EXPIRED'', ''venue_canceled''),
      (''VOIDED'', ''venue_canceled''), (''REJECTED'', ''rejected''), (''DENIED'', ''rejected'')]"

definition minted :: "order_event \<Rightarrow> bool" where
  "minted ev \<longleftrightarrow> ev_kind ev \<in> set RECONCILED_TERMINALS \<and> ev_reconciliation ev"

definition venue_terminal_state :: "world \<Rightarrow> order_event \<Rightarrow> string option act" where
  "venue_terminal_state w ev =
     (if minted ev then sq arm_reread (ret (Some ''ambiguous''))
      else if ev_kind ev = ''OrderCancelRejected'' \<or> ev_kind ev = ''OrderCancelDenied'' then ret None
      else bnd (ask (w_cached w)) (\<lambda>held. case held of
             CachedOrder own filled st \<Rightarrow> ret (map_of ADOPTED_TERMINAL_STATES st)
           | _ \<Rightarrow> ret None))"

definition row_state :: "jdict \<Rightarrow> string" where
  "row_state row = (case dget row ''state'' of JStr t \<Rightarrow> t | _ \<Rightarrow> [])"

definition restored_outcome :: "jdict \<Rightarrow> pyfloat \<Rightarrow> string \<times> string list" where
  "restored_outcome row filled =
     (if row_state row = ''filled'' then (''filled'', [])
      else (''revoked'',
        [''the '' @ (if dget (obj_of (dget row ''order'')) ''reduce_only'' = JBool True
                   then ''kept reducer'' else ''restored opener'') @
         '' ended '' @ (if fgt filled OVERFILL_TOLERANCE then ''partly filled'' else ''without filling'')]))"

definition settle_restored_intent :: "world \<Rightarrow> dt \<Rightarrow> jdict \<Rightarrow> unit act" where
  "settle_restored_intent w boundary row =
     bnd (get (\<lambda>s. restored_row s row \<and> row_state row \<notin> set OPEN_ORDER_STATES \<and>
                    row_coid row \<in> set (x_answered s))) (\<lambda>settles.
       if \<not> settles then skip else
       bnd (ask (w_now w)) (\<lambda>now. bnd (get (\<lambda>s. (x_journal s, x_frozen_at s))) (\<lambda>(j, since).
         case pending_plan_intents (w_fromiso w) j now since of
           Inl _ \<Rightarrow> skip
         | Inr pending \<Rightarrow>
             (case (dget row ''plan_id'', dget row ''intent_index'') of
                (JStr pid, JInt index) \<Rightarrow>
                  (if (JStr pid, JInt index) \<notin> set (map snd pending) then skip
                   else bnd (lift (rbind (dindex row ''filled_qty'') to_float)) (\<lambda>filled.
                     let (outcome, reasons) = restored_outcome row filled in
                     catch (ledger w (UpdateIntent boundary pid index outcome reasons filled)) (\<lambda>_. skip)))
              | _ \<Rightarrow> skip))))"

text \<open>The state a restored row's event gives it, on file and in the row object.\<close>

definition set_row_state :: "world \<Rightarrow> dt \<Rightarrow> string \<Rightarrow> string \<Rightarrow> unit act" where
  "set_row_state w boundary key st =
     sq (ledger w (UpdateRow boundary key (Some st) None (Fin 0)))
     (upd (\<lambda>s. s\<lparr>x_rows := (case map_of (x_rows s) key of
        None \<Rightarrow> x_rows s
      | Some (b, row) \<Rightarrow> AList.update key (b, dset row ''state'' (JStr st)) (x_rows s))\<rparr>))"

definition settle_row :: "world \<Rightarrow> dt \<Rightarrow> string \<Rightarrow> unit act" where
  "settle_row w boundary key =
     bnd (get (\<lambda>s. map_of (x_rows s) key)) (\<lambda>entry. case entry of
       None \<Rightarrow> skip | Some (b, row) \<Rightarrow> settle_restored_intent w boundary row)"

definition restored_event :: "world \<Rightarrow> order_event \<Rightarrow> dt \<Rightarrow> string \<Rightarrow> unit act" where
  "restored_event w ev boundary key =
     bnd (get (\<lambda>s. map_of (x_rows s) key)) (\<lambda>entry. case entry of
       None \<Rightarrow> skip
     | Some (b, row) \<Rightarrow>
         if ev_kind ev = ''OrderFilled'' then
           bnd (lift (rbind (dindex row ''filled_qty'') to_float)) (\<lambda>filled.
           bnd (lift (ordered_qty w row)) (\<lambda>ordered.
             if row_state row \<noteq> ''filled'' \<and> fge filled (fsub ordered OVERFILL_TOLERANCE) then
               sq (set_row_state w boundary key ''filled'')
               (sq (inc_order ''filled'') (settle_row w boundary key))
             else skip))
         else if row_state row = ''filled'' then skip
         else bnd (venue_terminal_state w ev) (\<lambda>st. case st of
                None \<Rightarrow> skip
              | Some t \<Rightarrow> sq (set_row_state w boundary key t) (settle_row w boundary key)))"

text \<open>\<open>_on_detached_event\<close>: the row, its fill, and for a restored row its state and intent.\<close>

definition on_detached_event :: "world \<Rightarrow> order_event \<Rightarrow> unit act" where
  "on_detached_event w ev =
     bnd (get (\<lambda>s. attached_for s ev)) (\<lambda>att. case att of
       None \<Rightarrow> skip
     | Some (boundary, row) \<Rightarrow>
         (let is_fill = (ev_kind ev = ''OrderFilled''); key = row_coid row in
          bnd (if is_fill then fill_credit w row (ev_last_qty ev) else ret (Fin 0)) (\<lambda>qty.
          bnd (if is_fill then fill_payload w ev (Some qty)
               else bnd (ask (w_now w)) (\<lambda>now.
                 ret [(''type'', JStr (ev_kind ev)), (''at'', JStr (w_isofmt w now))])) (\<lambda>payload.
          bnd (if \<not> is_fill \<and> minted ev
               then sq arm_reread
                    (sq (upd (\<lambda>s. s\<lparr>x_answered := removeAll key (x_answered s)\<rparr>))
                        (ret (dset payload ''reconciliation'' (JBool True))))
               else ret payload) (\<lambda>payload1.
          let payload2 = (if ev_kind ev = ''OrderAccepted''
                          then dset payload1 ''venue_order_id''
                                 (JStr (case ev_venue_order_id ev of None \<Rightarrow> ''None'' | Some v \<Rightarrow> v))
                          else payload1) in
          sq (ledger w (UpdateRow boundary key None (Some payload2) qty))
          (sq (if feq qty (Fin 0) then skip else
                 sq (mirror key qty)
                 (bnd (get (\<lambda>s. (x_live s, claims s row))) (\<lambda>(live, mine).
                    if live \<and> mine then updA (\<lambda>a. a\<lparr>a_filled := fadd (a_filled a) qty\<rparr>)
                    else if live then net_foreign_fill w row ev qty
                    else skip)))
          (sq (bnd (get (\<lambda>s. restored_row s row)) (\<lambda>restored.
                 if restored then restored_event w ev boundary key else skip))
              (if is_fill then publish_fill ev else skip))))))))"

section \<open>Order events\<close>

definition event_payload :: "world \<Rightarrow> order_event \<Rightarrow> jdict act" where
  "event_payload w ev =
     bnd (ask (w_now w)) (\<lambda>now. ret
       ([(''type'', JStr (ev_kind ev)), (''at'', JStr (w_isofmt w now))] @
        (case ev_reason ev of None \<Rightarrow> [] | Some r \<Rightarrow> [(''reason'', JStr r)])))"

definition str_reason :: "order_event \<Rightarrow> string" where
  "str_reason ev = (case ev_reason ev of None \<Rightarrow> ''None'' | Some r \<Rightarrow> r)"

definition on_accepted :: "world \<Rightarrow> order_event \<Rightarrow> jdict \<Rightarrow> unit act" where
  "on_accepted w ev payload =
     sq (update_row w (Some ''accepted'') (Some (dset payload ''venue_order_id''
           (JStr (case ev_venue_order_id ev of None \<Rightarrow> ''None'' | Some v \<Rightarrow> v)))) (Fin 0))
     (sq (inc_order ''accepted'')
     (bnd (get x_active) (\<lambda>a.
        if i_mode (a_intent a) = ''rest-cancel''
        then sq (updA (\<lambda>a. a\<lparr>a_cancel_requested := True\<rparr>)) (sq (enter w Cancelling) (cancel w))
        else skip)))"

text \<open>The dispatch of an event of the order in flight.\<close>

definition on_own_event :: "world \<Rightarrow> order_event \<Rightarrow> unit act" where
  "on_own_event w ev =
     bnd (event_payload w ev) (\<lambda>payload.
       let name = ev_kind ev in
       if minted ev then
         sq (update_row w (Some ''ambiguous'') (Some (dset payload ''reconciliation'' (JBool True))) (Fin 0))
         (sq arm_reread (strand_ambiguous w (name @ '' was reconciled, not received -- the venue never answered'')))
       else if name = ''OrderAccepted'' then on_accepted w ev payload
       else if name = ''OrderFilled'' then on_fill w ev
       else if name = ''OrderRejected'' then on_rejected w (str_reason ev) payload (ev_due_post_only ev)
       else if name = ''OrderDenied'' then
         sq (update_row w (Some ''rejected'') (Some payload) (Fin 0))
         (sq (inc_order ''rejected'')
             (finish_filled w ''rejected'' (case ev_reason ev of None \<Rightarrow> [] | Some r \<Rightarrow> [r])))
       else if name = ''OrderCanceled'' \<or> name = ''OrderExpired'' then on_cancel_ack w payload
       else if name = ''OrderCancelRejected'' \<or> name = ''OrderCancelDenied'' then
         sq (update_row w None (Some payload) (Fin 0))
         (bnd (get x_active) (\<lambda>a.
           sq (journal_intent w (a_index a) ''ambiguous''
                [(if name = ''OrderCancelDenied'' then ''cancel denied before it was sent'' else ''cancel rejected'') @
                 '': '' @ str_reason ev] (a_filled a))
           (sq (inc_order ''ambiguous'') (drop_remainder w))))
       else update_row w None (Some payload) (Fin 0))"

definition on_order_event_raw :: "world \<Rightarrow> order_event \<Rightarrow> unit act" where
  "on_order_event_raw w ev =
     bnd (if ev_kind ev = ''OrderFilled'' then trip_on_fill w ev else ret False) (\<lambda>tripped.
       if tripped then skip else
       bnd (get (\<lambda>s. x_live s \<and> a_coid (x_active s) = Some (ev_coid ev))) (\<lambda>mine.
         if mine then on_own_event w ev else on_detached_event w ev))"

text \<open>\<open>on_order_event\<close>: a raise is logged and the row stays as it stands.\<close>

definition on_order_event :: "world \<Rightarrow> order_event \<Rightarrow> unit act" where
  "on_order_event w ev = catch (on_order_event_raw w ev) (\<lambda>_. skip)"

section \<open>Quotes\<close>

definition on_quote :: "world \<Rightarrow> quote_tick \<Rightarrow> unit act" where
  "on_quote w q =
     guarded w ''quote handling failed''
      (bnd (get x_live) (\<lambda>live. if \<not> live then skip else
       bnd (getA a_instrument_id) (\<lambda>iid. if qt_instrument_id q \<noteq> iid then skip else
         (let bid = as_price (qt_bid q); ask_px = as_price (qt_ask q); stored = (bid \<noteq> None \<and> ask_px \<noteq> None) in
          sq (if stored then
                bnd (ask (w_now w)) (\<lambda>now. updA (\<lambda>a. a\<lparr>a_bid := bid, a_ask := ask_px,
                  a_last_quote_at := Some now, a_quote_seq := a_quote_seq a + 1\<rparr>))
              else skip)
          (bnd (getA a_phase) (\<lambda>ph.
            if ph = AwaitingQuote then first_submission w
            else if ph = AwaitingReprice \<and> stored then reprice_at_touch w
            else skip))))))"

end
