(* ===== verification/Assets.thy ===== *)
theory Assets imports Prelude
begin

text \<open>
  How a balance's currency code is mapped onto a base the venue lists: the aliases and the prefixes of Kraken's own
  codes. The red button and the executor's closing intents share it. Case is folded for ASCII letters.
\<close>

definition ASSET_ALIASES :: "(string \<times> string) list" where
  "ASSET_ALIASES = [(''XBT'', ''BTC''), (''XXBT'', ''BTC''), (''XDG'', ''DOGE''), (''XXDG'', ''DOGE'')]"

definition ascii_upper :: "char \<Rightarrow> char" where
  "ascii_upper c = (let n = of_char c :: nat in if 97 \<le> n \<and> n \<le> 122 then char_of (n - 32) else c)"

definition resolve_base :: "string \<Rightarrow> string list \<Rightarrow> string option" where
  "resolve_base code bases =
     (let u = map ascii_upper code;
          stripped = (if 3 < length u \<and> (hd u = CHR ''X'' \<or> hd u = CHR ''Z'') then Some (tl u) else None)
      in case List.find (\<lambda>c. c \<noteq> None \<and> the c \<noteq> [] \<and> the c \<in> set bases) [Some u, map_of ASSET_ALIASES u, stripped] of
           None \<Rightarrow> None
         | Some c \<Rightarrow> c)"

definition strip_digits :: "string \<Rightarrow> string" where
  "strip_digits s = rev (dropWhile (\<lambda>c. c \<in> set ''0123456789'') (rev s))"

definition earn_wallet_base :: "string \<Rightarrow> string list \<Rightarrow> string option" where
  "earn_wallet_base code bases = resolve_base (strip_digits (takeWhile (\<lambda>c. c \<noteq> CHR ''.'') code)) bases"

definition wallet_base :: "string \<Rightarrow> string list \<Rightarrow> (string \<times> bool) option" where
  "wallet_base code bases =
     (case resolve_base code bases of
        Some b \<Rightarrow> Some (b, False)
      | None \<Rightarrow>
          (case earn_wallet_base code bases of
             Some b \<Rightarrow> Some (b, True)
           | None \<Rightarrow> map_option (\<lambda>b. (b, True)) (earn_wallet_base (CHR ''X'' # code) bases)))"

text \<open>The listing is the authority.\<close>

lemma resolve_base_listed: "resolve_base code bases = Some b \<Longrightarrow> b \<in> set bases \<and> b \<noteq> []"
  by (auto simp: resolve_base_def Let_def split: option.splits if_splits)

end
