(* ===== verification/ExecTimer.thy ===== *)
theory ExecTimer imports ExecEvents Assets
begin

text \<open>
  \<open>cli/engine/executor.py\<close>, fourth part: the timer's authority over an intent in flight, the start of an
  intent with the sizing of closes, and the acceptance of a plan. Then the executor as one machine: the
  events it is driven by and the states it reaches.
\<close>

section \<open>Closing intents\<close>

record close_decision =
  cd_qty :: pyfloat
  cd_reduce_only :: bool
  cd_refusal :: "string option"

definition refusal :: "string \<Rightarrow> close_decision" where
  "refusal r = \<lparr>cd_qty = Fin 0, cd_reduce_only = False, cd_refusal = Some r\<rparr>"

definition classify_margin_close :: "intent \<Rightarrow> pyfloat \<Rightarrow> close_decision" where
  "classify_margin_close i held =
     (if feq held (Fin 0) then refusal ''no position to close''
      else if fgt held (Fin 0) \<noteq> (i_side i = ''sell'') then refusal ''side does not reduce the position''
      else \<lparr>cd_qty = fabs held, cd_reduce_only = True, cd_refusal = None\<rparr>)"

definition spot_balance :: "(string \<times> pyfloat) list \<Rightarrow> string \<Rightarrow> pyfloat" where
  "spot_balance balances base =
     (case List.find (\<lambda>(code, v). resolve_base code [base] = Some base) balances of
        None \<Rightarrow> Fin 0
      | Some (code, v) \<Rightarrow> v)"

definition classify_spot_close ::
  "intent \<Rightarrow> (string \<times> pyfloat) list \<Rightarrow> level \<Rightarrow> pyfloat \<Rightarrow> close_decision" where
  "classify_spot_close i balances l ordermin =
     (case i_qty i of
        None \<Rightarrow> refusal ''a spot close needs an explicit qty''
      | Some qty \<Rightarrow>
          if i_side i \<noteq> ''sell'' then refusal ''a spot close must be a sell''
          else let b0 = spot_balance balances (hd (split_slash (i_symbol i)));
                   balance = (if flt b0 ordermin then Fin 0 else b0);
                   sell = \<lparr>cd_qty = qty, cd_reduce_only = False, cd_refusal = None\<rparr> in
               if l = REDUCE_ONLY then
                 (if fgt qty balance then refusal ''the venue's balance does not cover the signed qty'' else sell)
               else if flt (Fin 0) balance \<and> flt balance qty
                 then refusal ''the venue's balance refutes the signed qty''
               else sell)"

definition position_of :: "venue_state \<Rightarrow> string \<Rightarrow> pyfloat" where
  "position_of vt symbol = (case map_of (vt_positions vt) symbol of None \<Rightarrow> Fin 0 | Some q \<Rightarrow> q)"

definition classify_close ::
  "intent \<Rightarrow> venue_state \<Rightarrow> constraints \<Rightarrow> (string \<times> pyfloat) list option \<Rightarrow> level \<Rightarrow> close_decision" where
  "classify_close i vt k book l =
     (if i_leverage i \<noteq> None then classify_margin_close i (position_of vt (i_symbol i))
      else case book of
             None \<Rightarrow> refusal ''the venue's balances have not been read in this process''
           | Some balances \<Rightarrow> classify_spot_close i balances l (k_ordermin k))"

section \<open>Starting an intent\<close>

definition refuse_intent :: "world \<Rightarrow> nat \<Rightarrow> string list \<Rightarrow> unit act" where
  "refuse_intent w index reasons =
     sq (journal_intent w index ''refused'' reasons (Fin 0))
     (sq (inc_order ''refused'') (upd (\<lambda>s. s\<lparr>x_index := x_index s + 1\<rparr>)))"

definition new_active ::
  "nat \<Rightarrow> intent \<Rightarrow> json \<Rightarrow> constraints \<Rightarrow> dt \<Rightarrow> close_decision \<Rightarrow> pyfloat \<Rightarrow> pyfloat \<Rightarrow> active" where
  "new_active index i raw k now d before own_before =
     \<lparr>a_index = index, a_intent = i, a_raw = raw, a_instrument_id = i_symbol i @ ''.KRAKEN'',
      a_constraints = k, a_phase = AwaitingQuote, a_started_at = now,
      a_quote_deadline = dt_add now QUOTE_WAIT,
      a_timebox_at = dt_add now (if i_mode i = ''rest-hold''
        then (case i_hold i of None \<Rightarrow> 0 | Some h \<Rightarrow> h * minute_us) else TIME_BOX),
      a_last_quote_at = None, a_bid = None, a_ask = None, a_reprices = 0, a_ioc_attempts = 0,
      a_filled = Fin 0, a_target_qty = Fin 0,
      a_close_qty = (if i_action i = ''close'' then Some (cd_qty d) else None),
      a_reduce_only = cd_reduce_only d, a_position_before = before, a_own_position_before = own_before,
      a_foreign_filled = Fin 0, a_order = None, a_order_payload = None, a_coid = None,
      a_order_qty = Fin 0, a_order_filled = Fin 0, a_cancel_requested = False, a_falling_back = False,
      a_revoke_reasons = [], a_phase_deadline = None, a_placed_at = None, a_hold_expired = False,
      a_quote_seq = 0, a_priced_seq = 0\<rparr>"

definition arm_intent :: "world \<Rightarrow> dt \<Rightarrow> active \<Rightarrow> unit act" where
  "arm_intent w now a =
     sq (emit (Subscribed (a_instrument_id a)))
     (bnd (ask (w_subscribe w)) (\<lambda>ok. if \<not> ok then fail ValueError else
        sq (emit (Started (a_index a))) (upd (\<lambda>s. s\<lparr>x_active := a, x_live := True\<rparr>))))"

definition raw_intent :: "plan \<Rightarrow> nat \<Rightarrow> json" where
  "raw_intent pl index =
     (let raws = arr_of (dget (p_raw pl) ''intents'') in if index < length raws then raws ! index else JNull)"

definition start_intent :: "world \<Rightarrow> dt \<Rightarrow> plan \<Rightarrow> nat \<Rightarrow> intent \<Rightarrow> unit act" where
  "start_intent w now pl index i =
     bnd (get x_window_close) (\<lambda>win.
     bnd (case win of None \<Rightarrow> ret False | Some c \<Rightarrow> lift (dt_lt c now)) (\<lambda>late.
       if late then
         sq (journal_intent w index ''carried'' [''the submission window closed''] (Fin 0))
         (sq (inc_order ''carried'') (upd (\<lambda>s. s\<lparr>x_index := x_index s + 1\<rparr>)))
       else bnd (get x_journal) (\<lambda>j. bnd (lift (ledgered_intent_keys j now)) (\<lambda>keys.
       if list_ex (\<lambda>(p, k). p = JStr (p_id pl) \<and> eq_int k (int index)) keys then
         sq (journal_intent w index ''already_ledgered'' [] (Fin 0)) (upd (\<lambda>s. s\<lparr>x_index := x_index s + 1\<rparr>))
       else bnd (x_evaluate w now) (\<lambda>v.
       if \<not> level_permits (v_level v) i then refuse_intent w index (v_reasons v)
       else bnd (ask (w_truth w)) (\<lambda>truth. case truth of
         None \<Rightarrow> refuse_intent w index [''no venue truth'']
       | Some vt \<Rightarrow> (case map_of (vt_instruments vt) (i_symbol i) of
           None \<Rightarrow> refuse_intent w index [''absent from venue truth'']
         | Some k \<Rightarrow> bnd (get x_balances) (\<lambda>book.
             let d = (if i_action i = ''close'' then classify_close i vt k book (v_level v)
                      else \<lparr>cd_qty = Fin 0, cd_reduce_only = False, cd_refusal = None\<rparr>) in
             case cd_refusal d of
               Some r \<Rightarrow> refuse_intent w index [r]
             | None \<Rightarrow> bnd (ask (w_position w)) (\<lambda>own. case own of
                 None \<Rightarrow> refuse_intent w index [''no venue truth'']
               | Some own_before \<Rightarrow>
                   arm_intent w now (new_active index i (raw_intent pl index) k now d
                     (position_of vt (i_symbol i)) own_before))))))))))"

section \<open>The timer\<close>

definition time_box_with_nothing_resting :: "world \<Rightarrow> unit act" where
  "time_box_with_nothing_resting w =
     bnd (get x_active) (\<lambda>a.
       if i_mode (a_intent a) = ''execute'' then fallback w
       else if i_mode (a_intent a) = ''rest-cancel'' then finish_filled w (zero_or_partial ''rest_cancel_ok'' a) []
       else finish_filled w (zero_or_partial ''rest_hold_expired'' a) [])"

definition silent :: "dt \<Rightarrow> active \<Rightarrow> bool res" where
  "silent now a =
     (case a_last_quote_at a of
        None \<Rightarrow> Inr False
      | Some t \<Rightarrow> rbind (dt_sub now t) (\<lambda>us. Inr (QUOTE_SILENCE < us)))"

definition poll_awaiting_reprice :: "world \<Rightarrow> dt \<Rightarrow> verdict \<Rightarrow> unit act" where
  "poll_awaiting_reprice w now v =
     bnd (get x_active) (\<lambda>a.
       if flt (owed a) (k_lot_step (a_constraints a)) then finish_filled w ''filled'' []
       else if \<not> level_permits (v_level v) (a_intent a) then
         sq (updA (\<lambda>a. a\<lparr>a_revoke_reasons := v_reasons v\<rparr>)) (finish_revoked w)
       else bnd (lift (silent now a)) (\<lambda>quiet. if quiet then
         sq (updA (\<lambda>a. a\<lparr>a_revoke_reasons := [''quote_silence'']\<rparr>)) (finish_revoked w)
       else bnd (lift (dt_lt (a_timebox_at a) now)) (\<lambda>elapsed.
         if elapsed then guarded w ''time-box handling failed'' (time_box_with_nothing_resting w) else skip)))"

definition poll_resting :: "world \<Rightarrow> dt \<Rightarrow> verdict \<Rightarrow> unit act" where
  "poll_resting w now v =
     bnd (get x_active) (\<lambda>a.
       if \<not> level_permits (v_level v) (a_intent a) then revoke w (v_reasons v)
       else bnd (lift (silent now a)) (\<lambda>quiet. if quiet then revoke w [''quote_silence'']
       else bnd (lift (dt_lt (a_timebox_at a) now)) (\<lambda>elapsed. if \<not> elapsed then skip else
         sq (updA (\<lambda>a. a\<lparr>a_cancel_requested := True,
               a_falling_back := (i_mode (a_intent a) = ''execute''),
               a_hold_expired := (i_mode (a_intent a) = ''rest-hold''),
               a_revoke_reasons := [''time box elapsed'']\<rparr>))
         (sq (enter w Cancelling) (cancel w)))))"

definition poll :: "world \<Rightarrow> dt \<Rightarrow> verdict \<Rightarrow> unit act" where
  "poll w now v =
     bnd (get x_active) (\<lambda>a.
       case a_phase a of
         AwaitingQuote \<Rightarrow>
           bnd (lift (dt_lt (a_quote_deadline a) now)) (\<lambda>late.
             if late then finish_active w (Some ''refused'') [''no quote within 30s''] (Fin 0) else skip)
       | AwaitingReprice \<Rightarrow> poll_awaiting_reprice w now v
       | Resting \<Rightarrow> poll_resting w now v
       | _ \<Rightarrow>
           bnd (case a_phase_deadline a of None \<Rightarrow> ret False | Some d \<Rightarrow> lift (dt_lt d now)) (\<lambda>late.
             if late then strand_ambiguous w (''no venue answer within 30s of the '' @ phase_name (a_phase a)) else skip))"

text \<open>
  The loop of \<open>_pump\<close>: each round arms an intent or moves the index on, so one round more than the
  intents left is enough.
\<close>

fun pump_loop :: "world \<Rightarrow> dt \<Rightarrow> nat \<Rightarrow> unit act" where
  "pump_loop w now 0 = skip"
| "pump_loop w now (Suc n) =
     bnd (get (\<lambda>s. (x_live s, x_plan s, x_index s))) (\<lambda>(live, p, index).
       case p of
         None \<Rightarrow> skip
       | Some pl \<Rightarrow>
           if live then skip
           else if length (p_intents pl) \<le> index then upd (\<lambda>s. s\<lparr>x_plan := None\<rparr>)
           else sq (start_intent w now pl index (p_intents pl ! index)) (pump_loop w now n))"

definition pump :: "world \<Rightarrow> dt \<Rightarrow> unit act" where
  "pump w now =
     bnd (get x_plan) (\<lambda>p. case p of
       None \<Rightarrow> skip
     | Some pl \<Rightarrow>
         bnd (x_evaluate w now) (\<lambda>v. bnd (get x_live) (\<lambda>live.
           if live then poll w now v
           else bnd (get x_index) (\<lambda>index. pump_loop w now (Suc (length (p_intents pl) - index))))))"

text \<open>The tail of \<open>on_timer\<close>: a raise drops the running plan.\<close>

definition tick :: "world \<Rightarrow> dt \<Rightarrow> unit act" where
  "tick w now = catch (pump w now) (\<lambda>_. drop_plan)"

section \<open>Accepting a plan\<close>

definition free_zeur :: "venue_state \<Rightarrow> pyfloat" where
  "free_zeur vt =
     (let z = (case map_of (vt_balances vt) ''ZEUR'' of None \<Rightarrow> Fin 0 | Some x \<Rightarrow> x) in
      if z \<noteq> Fin 0 then z
      else (case map_of (vt_balances vt) ''EUR'' of None \<Rightarrow> Fin 0 | Some x \<Rightarrow> x))"

definition str_values :: "json list \<Rightarrow> string list" where
  "str_values vs = List.map_filter (\<lambda>v. case v of JStr t \<Rightarrow> Some t | _ \<Rightarrow> None) vs"

definition plan_intents_json :: "plan \<Rightarrow> json list" where
  "plan_intents_json pl =
     map (\<lambda>(i, raw). JObj [(''index'', JInt (int i)), (''intent'', raw), (''outcome'', JStr ''pending''),
        (''reasons'', JArr []), (''filled_qty'', JFloat (Fin 0))])
       (enumerate 0 (arr_of (dget (p_raw pl) ''intents'')))"

definition journal_refusal :: "world \<Rightarrow> plan \<Rightarrow> dt \<Rightarrow> dt \<Rightarrow> verdict \<Rightarrow> string list \<Rightarrow> string act" where
  "journal_refusal w pl cycle_ts now v reasons =
     sq (journal_plan w cycle_ts v now (p_id pl) (p_raw pl) ''refused'' reasons []) (ret ''refused'')"

text \<open>\<open>_nothing_in_flight\<close>: a cache that cannot be read holds the caller.\<close>

definition nothing_in_flight :: "world \<Rightarrow> bool act" where
  "nothing_in_flight w =
     bnd (get x_live) (\<lambda>live. if live then ret False
       else bnd (ask (w_inflight w)) (\<lambda>orders. ret (orders = Some [])))"

text \<open>
  \<open>_mixed_inventory_refusals\<close>: an opening intent that would put a spot lot beside a margin lot on one pair.
\<close>

definition mixed_reason ::
  "(string \<times> pyfloat) list \<Rightarrow> (string \<times> pyfloat) list \<Rightarrow> venue_state \<Rightarrow> intent \<Rightarrow> string list res" where
  "mixed_reason balances margin vt i =
     (let spot = spot_balance balances (hd (split_slash (i_symbol i)));
          held = (case map_of margin (i_symbol i) of None \<Rightarrow> Fin 0 | Some q \<Rightarrow> q) in
      case map_of (vt_instruments vt) (i_symbol i) of
        None \<Rightarrow> Inl KeyError
      | Some k \<Rightarrow>
          let floor = fmax (k_ordermin k) FLAT_TOLERANCE in
          Inr (if i_leverage i = None \<and> fgt (fabs held) FLAT_TOLERANCE then [''a spot open beside a margin position'']
               else if i_leverage i \<noteq> None \<and> fge spot floor then [''a margin open beside spot inventory'']
               else []))"

definition mixed_inventory_refusals :: "world \<Rightarrow> plan \<Rightarrow> venue_state \<Rightarrow> string list act" where
  "mixed_inventory_refusals w pl vt =
     (let opens = filter (\<lambda>i. i_action i = ''open'') (p_intents pl) in
      if opens = [] then ret []
      else bnd (get x_balances) (\<lambda>book. case book of
        None \<Rightarrow> ret (map (\<lambda>_. ''the venue's balances have not been read in this process'') opens)
      | Some balances \<Rightarrow>
          bnd (ask (w_margin w)) (\<lambda>answer. case answer of
            None \<Rightarrow> ret (map (\<lambda>_. ''the venue's margin positions could not be read'') opens)
          | Some margin \<Rightarrow> bnd (lift (rmap (mixed_reason balances margin vt) opens)) (\<lambda>rs. ret (concat rs)))))"

text \<open>
  \<open>_accept_plan\<close>; \<open>drill\<close> says that the plan came from the drill file, whose path the call is given, and such a
  plan has no submission window.
\<close>

definition accept_plan :: "world \<Rightarrow> plan \<Rightarrow> dt \<Rightarrow> dt \<Rightarrow> bool \<Rightarrow> string act" where
  "accept_plan w pl cycle_ts now drill =
     bnd (x_evaluate w now) (\<lambda>v.
     bnd (get (\<lambda>s. (x_kill s, x_recon_refusal s))) (\<lambda>(tripped, unread).
       if tripped then journal_refusal w pl cycle_ts now v [TRIPPED_REFUSAL]
       else case unread of Some r \<Rightarrow> journal_refusal w pl cycle_ts now v [r]
       | None \<Rightarrow>
       bnd (ask (w_truth w)) (\<lambda>truth. case truth of
         None \<Rightarrow> journal_refusal w pl cycle_ts now v [''no venue truth'']
       | Some vt \<Rightarrow>
           bnd (if w_cache_on w \<and> list_ex (\<lambda>i. i_action i = ''open'') (p_intents pl) then nothing_in_flight w else ret True) (\<lambda>clear.
           if \<not> clear then ret ''waiting'' else
           bnd (get x_journal) (\<lambda>j. bnd (lift (ledgered_plan_ids j now)) (\<lambda>ids.
           bnd (get x_max_plan_notional) (\<lambda>cap.
           bnd (lift (plan_refusals pl now (set (str_values ids)) cap (free_zeur vt))) (\<lambda>walls.
           bnd (if w_cache_on w \<and> walls = [] then mixed_inventory_refusals w pl vt else ret []) (\<lambda>mixed.
           let reasons = walls @ mixed in
           bnd (journal_plan w cycle_ts v now (p_id pl) (p_raw pl)
                  (if reasons = [] then ''accepted'' else ''refused'') reasons
                  (if reasons = [] then plan_intents_json pl else [])) (\<lambda>stored.
             if \<not> stored \<or> reasons \<noteq> [] then ret ''refused''
             else sq (upd (\<lambda>s. s\<lparr>x_plan := Some pl, x_cycle_ts := cycle_ts,
                                x_window_close := (if drill then None else x_window_close s),
                                x_index := 0, x_resolved := []\<rparr>)) (ret ''accepted'')))))))))))"

text \<open>
  The pickup runs only while no plan does. A file that did not parse, with what the parser raised,
  is journaled as the refusal it is.
\<close>

definition refuse_unparseable :: "world \<Rightarrow> string \<Rightarrow> dt \<Rightarrow> dt \<Rightarrow> unit act" where
  "refuse_unparseable w raised cycle_ts now =
     bnd (x_evaluate w now) (\<lambda>v.
       sq (journal_plan w cycle_ts v now ''unparseable'' [] ''refused'' [raised] []) skip)"

definition pickup :: "world \<Rightarrow> string + plan \<Rightarrow> dt \<Rightarrow> dt \<Rightarrow> unit act" where
  "pickup w dropped cycle_ts now =
     bnd (get x_plan) (\<lambda>p. if p \<noteq> None then skip
       else catch (case dropped of
                     Inl raised \<Rightarrow> refuse_unparseable w raised cycle_ts now
                   | Inr pl \<Rightarrow> sq (accept_plan w pl cycle_ts now True) skip) (\<lambda>_. drop_plan))"

section \<open>The machine\<close>

datatype xevent = Tick dt | Quote quote_tick | Order order_event | Drop "string + plan" dt dt

fun handle :: "world \<Rightarrow> xevent \<Rightarrow> unit act" where
  "handle w (Tick now) = tick w now"
| "handle w (Quote q) = on_quote w q"
| "handle w (Order ev) = on_order_event w ev"
| "handle w (Drop d ts now) = pickup w d ts now"

definition after :: "'a act \<Rightarrow> xs \<Rightarrow> xs" where
  "after m s = snd (m s)"

fun run :: "world \<Rightarrow> xevent list \<Rightarrow> xs \<Rightarrow> xs" where
  "run w [] s = s"
| "run w (e # es) s = run w es (after (handle w e) s)"

text \<open>A constructed executor: nothing runs, nothing is known to be at the venue.\<close>

definition fresh :: "xs \<Rightarrow> bool" where
  "fresh s \<longleftrightarrow> x_plan s = None \<and> \<not> x_live s \<and> \<not> x_kill s \<and> x_log s = [] \<and> journal_ok (x_journal s)"

end
