(* ===== verification/FloatMono.thy ===== *)
theory FloatMono imports PyValue
begin

text \<open>
  Rounding to binary64 is monotone: a longer duration never reads shorter, a larger sum never smaller.
  The proof goes through the exponent of the last place, which bounds the scaled value.
\<close>

section \<open>Rounding is monotone\<close>

lemma powi_neg: "\<not> 0 \<le> e \<Longrightarrow> (2 :: rat) powi e = 1 / of_int (2 ^ nat (- e))"
  by (simp add: power_int_def inverse_eq_divide power_one_over)

lemma powi_nonneg: "0 \<le> e \<Longrightarrow> (2 :: rat) powi e = of_int (2 ^ nat e)"
  by (simp add: power_int_def)

lemma scale2_powi: "scale2 m e = of_int m * 2 powi e"
  by (cases "0 \<le> e") (simp_all add: scale2_def powi_neg powi_nonneg)

lemma unscale_frac:
  assumes "unscale p q e = (a, b)" and "0 < q"
  shows "0 < b" "of_int a / of_int b = of_int p / of_int q / (2 powi e :: rat)"
  using assms by (cases "0 \<le> e"; auto simp: unscale_def powi_neg powi_nonneg)+

lemma powi_mono: "k \<le> l \<Longrightarrow> (2 :: rat) powi k \<le> 2 powi l"
  by (intro power_int_increasing) simp_all

lemma bits_frac:
  assumes "0 < p"
  shows "2 powi (bits p - 1) \<le> (of_int p :: rat)" "(of_int p :: rat) < 2 powi bits p"
proof -
  from bits_bounds [OF assms] have b: "1 \<le> bits p" "2 ^ nat (bits p - 1) \<le> p" "p < 2 ^ nat (bits p)" by auto
  from b(2) have "(of_int (2 ^ nat (bits p - 1)) :: rat) \<le> of_int p" by (simp only: of_int_le_iff)
  with b(1) show "2 powi (bits p - 1) \<le> (of_int p :: rat)" by (simp add: power_int_def)
  from b(3) have "(of_int p :: rat) < of_int (2 ^ nat (bits p))" by (simp only: of_int_less_iff)
  with b(1) show "(of_int p :: rat) < 2 powi bits p" by (simp add: power_int_def)
qed

text \<open>The exponent keeps the scaled value below 53 bits, and at 53 bits unless it is the smallest.\<close>

lemma ulp_exp_bounds:
  assumes "0 < p" and "0 < q"
  shows "- 1074 \<le> ulp_exp p q"
    and "(of_int p :: rat) / of_int q < 2 ^ 53 * 2 powi ulp_exp p q"
    and "- 1074 < ulp_exp p q \<Longrightarrow> 2 ^ 52 * 2 powi ulp_exp p q \<le> (of_int p :: rat) / of_int q"
proof -
  let ?x = "(of_int p :: rat) / of_int q"
  define e0 where "e0 = bits p - bits q - 53"
  obtain a b where ab: "unscale p q e0 = (a, b)" by force
  from unscale_frac [OF ab assms(2)] have b: "0 < b" "of_int a / of_int b = ?x / 2 powi e0" by auto
  define e where "e = (if b * 2 ^ 53 \<le> a then e0 + 1 else e0)"
  have ulp: "ulp_exp p q = max e (- 1074)" by (simp add: ulp_exp_def Let_def ab e_def flip: e0_def)
  have pw: "(2 :: rat) powi (k + l) = 2 powi k * 2 powi l" for k l by (simp add: power_int_add)
  have "?x < 2 powi bits p / 2 powi (bits q - 1)"
    using bits_frac [OF assms(1)] bits_frac(1) [OF assms(2)] assms by (intro frac_less) auto
  also have "\<dots> = 2 ^ 54 * 2 powi e0" by (simp add: e0_def power_int_diff power_int_add)
  finally have hi: "?x < 2 ^ 54 * 2 powi e0" .
  have "2 powi (bits p - 1) / 2 powi bits q \<le> ?x"
    using bits_frac [OF assms(1)] bits_frac [OF assms(2)] assms by (intro frac_le) auto
  moreover have "2 powi (bits p - 1) / 2 powi bits q = (2 :: rat) ^ 52 * 2 powi e0" by (simp add: e0_def power_int_diff)
  ultimately have lo: "2 ^ 52 * 2 powi e0 \<le> ?x" by simp
  have cmp: "b * 2 ^ 53 \<le> a \<longleftrightarrow> 2 ^ 53 * 2 powi e0 \<le> ?x"
  proof -
    have "b * 2 ^ 53 \<le> a \<longleftrightarrow> (of_int (b * 2 ^ 53) :: rat) \<le> of_int a" by (simp only: of_int_le_iff)
    also have "\<dots> \<longleftrightarrow> 2 ^ 53 \<le> (of_int a :: rat) / of_int b" using b(1) by (simp add: field_simps)
    also have "\<dots> \<longleftrightarrow> 2 ^ 53 * 2 powi e0 \<le> ?x" unfolding b(2) by (rule pos_le_divide_eq) simp
    finally show ?thesis .
  qed
  have up: "?x < 2 ^ 53 * 2 powi e" and low: "2 ^ 52 * 2 powi e \<le> ?x"
    using hi lo cmp by (auto simp: e_def power_int_add)
  show "- 1074 \<le> ulp_exp p q" by (simp add: ulp)
  have "(2 :: rat) powi e \<le> 2 powi ulp_exp p q" by (rule powi_mono) (simp add: ulp)
  with up show "?x < 2 ^ 53 * 2 powi ulp_exp p q" by simp
  show "2 ^ 52 * 2 powi ulp_exp p q \<le> ?x" if "- 1074 < ulp_exp p q" using that low by (simp add: ulp)
qed

text \<open>Rounding a fraction to an integer depends only on its value.\<close>

definition round_even :: "rat \<Rightarrow> int" where
  "round_even x = (if 2 * (x - of_int \<lfloor>x\<rfloor>) < 1 then \<lfloor>x\<rfloor>
     else if 1 < 2 * (x - of_int \<lfloor>x\<rfloor>) then \<lfloor>x\<rfloor> + 1 else if even \<lfloor>x\<rfloor> then \<lfloor>x\<rfloor> else \<lfloor>x\<rfloor> + 1)"

lemma div_even_round:
  assumes "0 < b"
  shows "div_even a b = round_even (of_int a / of_int b)"
proof -
  let ?x = "(of_int a :: rat) / of_int b"
  have f: "\<lfloor>?x\<rfloor> = a div b" by (rule floor_divide_of_int_eq)
  have "(of_int a :: rat) = of_int (b * (a div b) + a mod b)" by (simp only: mult_div_mod_eq)
  then have "(of_int a :: rat) = of_int b * of_int (a div b) + of_int (a mod b)" by (simp only: of_int_add of_int_mult)
  then have r: "2 * (?x - of_int (a div b)) = of_int (2 * (a mod b)) / of_int b"
    using assms by (simp add: field_simps)
  have "2 * (?x - of_int (a div b)) < 1 \<longleftrightarrow> 2 * (a mod b) < b" unfolding r
    using assms by (simp only: pos_divide_less_eq of_int_0_less_iff mult_1 of_int_less_iff)
  moreover have "1 < 2 * (?x - of_int (a div b)) \<longleftrightarrow> b < 2 * (a mod b)" unfolding r
    using assms by (simp only: pos_less_divide_eq of_int_0_less_iff mult_1 of_int_less_iff)
  ultimately show ?thesis unfolding round_even_def div_even_def Let_def f by simp
qed

lemma round_even_cases: "round_even x = \<lfloor>x\<rfloor> \<or> round_even x = \<lfloor>x\<rfloor> + 1"
  by (simp add: round_even_def)

lemma round_even_mono:
  assumes "x \<le> y"
  shows "round_even x \<le> round_even y"
proof (cases "\<lfloor>x\<rfloor> = \<lfloor>y\<rfloor>")
  case True
  with assms show ?thesis by (auto simp: round_even_def)
next
  case False
  with floor_mono [OF assms] have "\<lfloor>x\<rfloor> + 1 \<le> \<lfloor>y\<rfloor>" by simp
  with round_even_cases [of x] round_even_cases [of y] show ?thesis by auto
qed

lemma round_even_of_int [simp]: "round_even (of_int n) = n"
  by (simp add: round_even_def)

section \<open>The rounded value\<close>

definition rnd :: "rat \<Rightarrow> rat" where
  "rnd x = (let (p, q) = quotient_of x; e = ulp_exp p q in of_int (round_even (x / 2 powi e)) * 2 powi e)"

lemma rnd_pos_rnd:
  assumes "quotient_of x = (p, q)"
  shows "rnd_pos p q = rnd x"
proof -
  have q: "0 < q" "x = of_int p / of_int q" using assms quotient_of_denom_pos quotient_of_div by blast+
  obtain a b where ab: "unscale p q (ulp_exp p q) = (a, b)" by force
  from unscale_frac [OF ab q(1)] q(2) have "0 < b" "of_int a / of_int b = x / 2 powi ulp_exp p q" by auto
  then show ?thesis using assms by (simp add: rnd_pos_def rnd_def ab scale2_powi div_even_round)
qed

lemma rnd_mono:
  assumes "0 < x" and "x \<le> y"
  shows "rnd x \<le> rnd y"
proof -
  obtain p q where pq: "quotient_of x = (p, q)" by force
  obtain p' q' where pq': "quotient_of y = (p', q')" by force
  have x: "0 < q" "x = of_int p / of_int q" and y: "0 < q'" "y = of_int p' / of_int q'"
    using pq pq' quotient_of_denom_pos quotient_of_div by blast+
  have "0 < y" using assms by simp
  then have "0 < of_int p' / (of_int q' :: rat)" using y(2) by simp
  moreover have "0 < of_int p / (of_int q :: rat)" using assms(1) x(2) by simp
  ultimately have p: "0 < p" "0 < p'" using x(1) y(1) by (simp_all add: zero_less_divide_iff)
  define e f where "e = ulp_exp p q" and "f = ulp_exp p' q'"
  note ex = ulp_exp_bounds [OF p(1) x(1), folded x(2) e_def] and fy = ulp_exp_bounds [OF p(2) y(1), folded y(2) f_def]
  have step: "2 ^ 53 * 2 powi k \<le> (2 :: rat) ^ 52 * 2 powi l" if "k < l" for k l
    using powi_mono [of "k + 1" l] that by (simp add: power_int_add)
  have scale: "rnd x = of_int (round_even (x / 2 powi e)) * 2 powi e" "rnd y = of_int (round_even (y / 2 powi f)) * 2 powi f"
    by (simp_all add: rnd_def pq pq' Let_def e_def f_def)
  have "e \<le> f"
  proof (rule ccontr)
    assume "\<not> e \<le> f"
    then have fe: "f < e" by simp
    with fy(1) ex(3) have "2 ^ 52 * 2 powi e \<le> x" by simp
    moreover have "y < 2 ^ 53 * 2 powi f" by (rule fy(2))
    ultimately show False using step [OF fe] assms(2) by simp
  qed
  then consider "e = f" | "e < f" by linarith
  then show ?thesis
  proof cases
    case 1
    have "x / 2 powi e \<le> y / 2 powi e" using assms(2) by (intro divide_right_mono) simp_all
    from round_even_mono [OF this] show ?thesis unfolding scale 1 [symmetric] by (intro mult_right_mono) simp_all
  next
    case 2
    have "x / 2 powi e \<le> of_int (2 ^ 53)" using ex(2) by (simp add: pos_divide_le_eq)
    from round_even_mono [OF this] have "round_even (x / 2 powi e) \<le> 2 ^ 53" by (simp only: round_even_of_int)
    then have "(of_int (round_even (x / 2 powi e)) :: rat) \<le> of_int (2 ^ 53)" by (simp only: of_int_le_iff)
    then have "rnd x \<le> of_int (2 ^ 53) * 2 powi e" unfolding scale by (intro mult_right_mono) auto
    also have "\<dots> \<le> of_int (2 ^ 52) * 2 powi f" using step [OF 2] by simp
    also have "\<dots> \<le> rnd y"
    proof -
      have "of_int (2 ^ 52) \<le> y / 2 powi f" using fy(3) ex(1) 2 by (simp add: pos_le_divide_eq)
      from round_even_mono [OF this] have "2 ^ 52 \<le> round_even (y / 2 powi f)" by (simp only: round_even_of_int)
      then have "(of_int (2 ^ 52) :: rat) \<le> of_int (round_even (y / 2 powi f))" by (simp only: of_int_le_iff)
      then show ?thesis unfolding scale by (intro mult_right_mono) auto
    qed
    finally show ?thesis .
  qed
qed

lemma rnd_nonneg: "0 < x \<Longrightarrow> 0 \<le> rnd x"
proof -
  assume x: "0 < x"
  obtain p q where "quotient_of x = (p, q)" by force
  moreover have "round_even 0 \<le> round_even (x / 2 powi e)" for e using x by (intro round_even_mono) simp
  ultimately show ?thesis using round_even_of_int [of 0] by (simp add: rnd_def Let_def)
qed

text \<open>\<open>fround\<close> over \<open>rnd\<close>, odd in its argument.\<close>

lemma fround_rnd:
  "fround x = (if x = 0 then Fin 0
     else if 2 ^ 1024 \<le> rnd \<bar>x\<bar> then (if 0 < x then PInf else NInf)
     else Fin (if 0 < x then rnd \<bar>x\<bar> else - rnd \<bar>x\<bar>))"
proof -
  obtain p q where pq: "quotient_of x = (p, q)" by force
  then have q: "0 < q" "x = of_int p / of_int q" using quotient_of_denom_pos quotient_of_div by blast+
  have "quotient_of \<bar>x\<bar> = (\<bar>p\<bar>, q)" using pq by (simp add: rat_abs_code)
  from rnd_pos_rnd [OF this] have "rnd_pos \<bar>p\<bar> q = rnd \<bar>x\<bar>" .
  moreover have "p = 0 \<longleftrightarrow> x = 0" "0 < p \<longleftrightarrow> 0 < x" using q by (simp_all add: zero_less_divide_iff)
  ultimately show ?thesis by (simp add: fround_def pq Let_def)
qed

lemma fround_mono:
  assumes "x \<le> y"
  shows "fle (fround x) (fround y)"
proof -
  consider "x = y" | "0 \<le> x" "x < y" | "x < 0" "0 \<le> y" | "x < y" "y < 0" using assms by force
  then show ?thesis
  proof cases
    case 1
    then show ?thesis by (simp add: fle_def feq_def fround_rnd)
  next
    case 2
    then show ?thesis using rnd_mono [of x y] rnd_nonneg [of y] by (auto simp: fround_rnd fle_def feq_def)
  next
    case 3
    then show ?thesis using rnd_nonneg [of y] rnd_nonneg [of "- x"] by (auto simp: fround_rnd fle_def feq_def)
  next
    case 4
    then show ?thesis using rnd_mono [of "- y" "- x"] by (auto simp: fround_rnd fle_def feq_def)
  qed
qed

lemma total_seconds_mono: "a \<le> b \<Longrightarrow> fle (total_seconds a) (total_seconds b)"
  unfolding total_seconds_def by (intro fround_mono divide_right_mono) simp_all

section \<open>Rounding is idempotent\<close>

lemma rnd_bound: "0 < x \<Longrightarrow> \<exists>m e. rnd x = of_int m * 2 powi e \<and> 0 \<le> m \<and> m \<le> 2 ^ 53 \<and> - 1074 \<le> e"
proof -
  assume x: "0 < x"
  obtain p q where pq: "quotient_of x = (p, q)" by force
  then have q: "0 < q" "x = of_int p / of_int q" using quotient_of_denom_pos quotient_of_div by blast+
  have "0 < of_int p / (of_int q :: rat)" using x q(2) by simp
  then have p: "0 < p" using q(1) by (simp add: zero_less_divide_iff)
  define e where "e = ulp_exp p q"
  note b = ulp_exp_bounds [OF p q(1), folded q(2) e_def]
  have "x / 2 powi e \<le> of_int (2 ^ 53)" using b(2) by (simp add: pos_divide_le_eq)
  from round_even_mono [OF this] have "round_even (x / 2 powi e) \<le> 2 ^ 53" by (simp only: round_even_of_int)
  moreover have "round_even 0 \<le> round_even (x / 2 powi e)" using x by (intro round_even_mono) simp
  ultimately show ?thesis using b(1) round_even_of_int [of 0]
    by (intro exI [of _ "round_even (x / 2 powi e)"] exI [of _ e]) (simp add: rnd_def pq Let_def e_def)
qed

lemma rnd_exact:
  assumes "x = of_int m * 2 powi e" and "0 < m" and "m \<le> 2 ^ 53" and "- 1074 \<le> e"
  shows "rnd x = x"
proof -
  obtain p q where pq: "quotient_of x = (p, q)" by force
  then have q: "0 < q" "x = of_int p / of_int q" using quotient_of_denom_pos quotient_of_div by blast+
  have "0 < x" using assms by simp
  then have "0 < of_int p / (of_int q :: rat)" using q(2) by simp
  then have p: "0 < p" using q(1) by (simp add: zero_less_divide_iff)
  define u where "u = ulp_exp p q"
  note b = ulp_exp_bounds [OF p q(1), folded q(2) u_def]
  have "\<exists>k :: int. x / 2 powi u = of_int k"
  proof (cases "u \<le> e")
    case True
    have "2 powi e = (2 :: rat) powi (u + (e - u))" by simp
    also have "\<dots> = 2 powi u * 2 powi (e - u)" by (rule power_int_add) simp
    also have "2 powi (e - u) = (of_int (2 ^ nat (e - u)) :: rat)" using True by (intro powi_nonneg) simp
    finally have "x = 2 powi u * of_int (m * 2 ^ nat (e - u))" unfolding assms(1) by (simp add: mult_ac)
    then have "x / 2 powi u = of_int (m * 2 ^ nat (e - u))" by simp
    then show ?thesis ..
  next
    case False
    with assms(4) b(3) have low: "2 ^ 52 * 2 powi u \<le> x" by simp
    have "(of_int m :: rat) \<le> of_int (2 ^ 53)" using assms(3) by (simp only: of_int_le_iff)
    then have "x \<le> 2 ^ 53 * 2 powi e" unfolding assms(1) by (intro mult_right_mono) auto
    moreover have "2 ^ 53 * 2 powi e \<le> (2 :: rat) ^ 52 * 2 powi u"
      using powi_mono [of "e + 1" u] False by (simp add: power_int_add)
    ultimately have "x = 2 ^ 52 * 2 powi u" using low by simp
    then have "x / 2 powi u = of_int (2 ^ 52)" by simp
    then show ?thesis ..
  qed
  then obtain k :: int where k: "x / 2 powi u = of_int k" ..
  then have "of_int k * 2 powi u = x" by (metis nonzero_eq_divide_eq power_int_not_zero zero_neq_numeral)
  with k show ?thesis by (simp add: rnd_def pq Let_def u_def [symmetric])
qed

lemma fround_idem:
  assumes "fround x = Fin y"
  shows "fround y = Fin y"
proof (cases "y = 0")
  case True
  then show ?thesis by (simp add: fround_rnd)
next
  case False
  with assms have x: "x \<noteq> 0" "\<not> 2 ^ 1024 \<le> rnd \<bar>x\<bar>" "y = (if 0 < x then rnd \<bar>x\<bar> else - rnd \<bar>x\<bar>)"
    by (auto simp: fround_rnd split: if_splits)
  obtain m e where r: "rnd \<bar>x\<bar> = of_int m * 2 powi e" "0 \<le> m" "m \<le> 2 ^ 53" "- 1074 \<le> e"
    using rnd_bound [of "\<bar>x\<bar>"] x(1) by auto
  with x(3) False have "0 < m" by (cases "m = 0") (auto split: if_splits)
  with r have again: "rnd (rnd \<bar>x\<bar>) = rnd \<bar>x\<bar>" by (intro rnd_exact)
  have "0 < rnd \<bar>x\<bar>" using r \<open>0 < m\<close> by simp
  with again x show ?thesis by (auto simp: fround_rnd)
qed

text \<open>A value some rounding gave.\<close>

definition is_float :: "pyfloat \<Rightarrow> bool" where
  "is_float a \<longleftrightarrow> (\<forall>x. a = Fin x \<longrightarrow> fround x = Fin x)"

lemma is_float_fround [simp]: "is_float (fround x)"
  by (auto simp: is_float_def fround_idem)

lemma is_float_zero [simp]: "is_float (Fin 0)"
  by (simp add: is_float_def fround_rnd)

text \<open>Nonnegative terms never lower a sum.\<close>

lemma fadd_grows:
  assumes "is_float a" and "fle (Fin 0) b" and "fle (Fin 0) a"
  shows "fle a (fadd a b)"
proof (cases a)
  case (Fin x)
  then have x: "fround x = Fin x" using assms(1) by (simp add: is_float_def)
  show ?thesis
  proof (cases b)
    case (Fin y)
    with assms(2) have "x \<le> x + y" by simp
    from fround_mono [OF this] x \<open>a = Fin x\<close> Fin show ?thesis by simp
  next
    case PInf
    then show ?thesis using \<open>a = Fin x\<close> by (simp add: fle_def)
  qed (use assms(2) in \<open>simp_all add: fle_def feq_def\<close>)
next
  case PInf
  then show ?thesis using assms(2) by (cases b) (simp_all add: fle_def feq_def)
next
  case NInf
  then show ?thesis using assms(3) by (simp add: fle_def feq_def)
qed (use assms(3) in \<open>simp add: fle_def feq_def\<close>)

lemma fle_trans: "fle a b \<Longrightarrow> fle b c \<Longrightarrow> fle a c"
  unfolding fle_def feq_def using flt_trans by blast

lemma is_float_fadd [simp]: "is_float (fadd a b)"
  by (cases a; cases b) (auto simp: is_float_def fround_idem)

text \<open>A duration reads positive exactly when it is: one microsecond already does.\<close>

lemma total_seconds_pos: "flt (Fin 0) (total_seconds us) \<longleftrightarrow> 0 < us"
proof
  assume "0 < us"
  have "fround (2 powi (- 20)) = Fin (2 powi (- 20))"
  proof -
    have "rnd (2 powi (- 20)) = (2 :: rat) powi (- 20)" by (rule rnd_exact [of _ 1 "- 20"]) simp_all
    moreover have "(2 :: rat) powi (- 20) \<le> 1" by (simp add: power_int_def power_le_one)
    then have "\<not> 2 ^ 1024 \<le> (2 :: rat) powi (- 20)" using one_less_power [of "2 :: rat" 1024] by simp
    ultimately show ?thesis by (simp add: fround_rnd)
  qed
  moreover have "(2 :: rat) powi (- 20) \<le> of_int us / 1000000"
  proof -
    have "(1 :: rat) \<le> of_int us" using \<open>0 < us\<close> by simp
    then show ?thesis by (simp add: power_int_def field_simps)
  qed
  ultimately have "fle (Fin (2 powi (- 20))) (total_seconds us)" using fround_mono by (metis total_seconds_def)
  then show "flt (Fin 0) (total_seconds us)" by (cases "total_seconds us") (auto simp: fle_def feq_def)
next
  assume "flt (Fin 0) (total_seconds us)"
  moreover have "total_seconds 0 = Fin 0" by (simp add: total_seconds_def fround_rnd)
  ultimately show "0 < us" using total_seconds_mono [of us 0] fle_not_flt by (cases "0 < us") auto
qed

end
