(* ===== verification/PyRound.thy ===== *)
theory PyRound imports FloatMono Instruments "HOL-Library.Product_Lexorder" "HOL-Library.List_Lexorder" "HOL-Library.Char_ord"
begin

text \<open>
  Python's \<open>round\<close>, the true division of ints and the order a sort key of floats has, with the error a
  rounded operation makes. Whole cents read back from their quotient by a hundred.
\<close>

section \<open>Definitions\<close>

text \<open>\<open>round(x)\<close> is an int, ties to even.\<close>

definition py_round :: "pyfloat \<Rightarrow> int res" where
  "py_round x = (case x of Fin v \<Rightarrow> Inr (round_even v) | NaN \<Rightarrow> Inl ValueError | _ \<Rightarrow> Inl OverflowError)"

text \<open>\<open>round(x, n)\<close>: the exact value rounded to \<open>n\<close> decimals, ties to even, and read back.\<close>

definition round_to :: "nat \<Rightarrow> pyfloat \<Rightarrow> pyfloat res" where
  "round_to n x = (case x of
     Fin v \<Rightarrow> (case fround (of_int (round_even (v * 10 ^ n)) / 10 ^ n) of
                 Fin r \<Rightarrow> Inr (Fin r) | _ \<Rightarrow> Inl OverflowError)
   | _ \<Rightarrow> Inr x)"

text \<open>\<open>a / b\<close> of ints, correctly rounded.\<close>

definition int_div :: "int \<Rightarrow> int \<Rightarrow> pyfloat res" where
  "int_div a b =
     (if b = 0 then Inl ZeroDivisionError
      else case fround (of_int a / of_int b) of Fin r \<Rightarrow> Inr (Fin r) | _ \<Rightarrow> Inl OverflowError)"

text \<open>\<open>float(Decimal(str(a)) - Decimal(str(b)))\<close>\<close>

definition dec_minus :: "pyfloat \<Rightarrow> pyfloat \<Rightarrow> pyfloat res" where
  "dec_minus a b = (case (a, b) of
     (Fin x, Fin y) \<Rightarrow> Inr (fround (dec28 (repr_value x - repr_value y)))
   | (PInf, PInf) \<Rightarrow> Inl InvalidOperation
   | (NInf, NInf) \<Rightarrow> Inl InvalidOperation
   | _ \<Rightarrow> Inr (fsub a b))"

text \<open>The order of floats that are numbers; a NaN, which no modelled sort meets, is put last.\<close>

fun frank :: "pyfloat \<Rightarrow> int \<times> rat" where
  "frank NInf = (0, 0)"
| "frank (Fin x) = (1, x)"
| "frank PInf = (2, 0)"
| "frank NaN = (3, 0)"

lemma frank_less: "a \<noteq> NaN \<Longrightarrow> b \<noteq> NaN \<Longrightarrow> frank a < frank b \<longleftrightarrow> flt a b"
  by (cases a; cases b) (auto simp: less_prod_def')

lemma frank_inj: "frank a = frank b \<longleftrightarrow> a = b"
  by (cases a; cases b) auto

section \<open>Rounding errors\<close>

lemma round_even_near: "\<bar>x - of_int (round_even x)\<bar> \<le> 1 / 2"
proof -
  have "of_int \<lfloor>x\<rfloor> \<le> x" "x < of_int \<lfloor>x\<rfloor> + 1" using floor_correct [of x] by auto
  then show ?thesis unfolding round_even_def by (simp add: abs_le_iff split: if_splits)
qed

lemma round_even_unique: "\<bar>x - of_int n\<bar> < 1 / 2 \<Longrightarrow> round_even x = n"
proof -
  assume "\<bar>x - of_int n\<bar> < 1 / 2"
  with round_even_near [of x] have "\<bar>(of_int (round_even x) :: rat) - of_int n\<bar> < 1" by linarith
  then have "\<bar>round_even x - n\<bar> < 1" by (metis of_int_abs of_int_diff of_int_less_1_iff)
  then show ?thesis by simp
qed

text \<open>Above the subnormal range a rounding moves a value by at most one part in \<open>2 ^ 53\<close>.\<close>

lemma rnd_error:
  assumes "2 powi (- 1021) \<le> x"
  shows "\<bar>rnd x - x\<bar> \<le> x / 2 ^ 53"
proof -
  obtain p q where pq: "quotient_of x = (p, q)" by force
  then have q: "0 < q" "x = of_int p / of_int q" using quotient_of_denom_pos quotient_of_div by blast+
  have "(0 :: rat) < 2 powi (- 1021)" by simp
  from less_le_trans [OF this assms] have "0 < x" .
  then have p: "0 < p" using q by (simp add: zero_less_divide_iff)
  define e where "e = ulp_exp p q"
  note b = ulp_exp_bounds [OF p q(1), folded q(2) e_def]
  have low: "2 ^ 52 * 2 powi e \<le> x"
  proof (cases "- 1074 < e")
    case False
    with b(1) have "e = - 1074" by simp
    then have "(2 :: rat) ^ 52 * 2 powi e = 2 powi (- 1022)" by (simp add: power_int_def field_simps)
    also have "\<dots> \<le> 2 powi (- 1021)" by (rule powi_mono) simp
    finally show ?thesis using assms by simp
  qed (rule b(3))
  have pos: "(0 :: rat) < 2 powi e" by simp
  have "rnd x - x = (of_int (round_even (x / 2 powi e)) - x / 2 powi e) * 2 powi e"
    by (simp add: rnd_def pq Let_def left_diff_distrib flip: e_def)
  then have "\<bar>rnd x - x\<bar> = \<bar>x / 2 powi e - of_int (round_even (x / 2 powi e))\<bar> * 2 powi e"
    by (simp add: abs_mult abs_minus_commute)
  also have "\<dots> \<le> 1 / 2 * 2 powi e" using round_even_near [of "x / 2 powi e"] by (intro mult_right_mono) auto
  also have "\<dots> \<le> x / 2 ^ 53" using low by simp
  finally show ?thesis .
qed

lemma fround_near:
  assumes "2 powi (- 1021) \<le> x" and "x \<le> 2 ^ 100"
  shows "\<exists>r. fround x = Fin r \<and> \<bar>r - x\<bar> \<le> x / 2 ^ 53"
proof -
  have "(0 :: rat) < 2 powi (- 1021)" by simp
  with assms have pos: "0 < x" by linarith
  have err: "\<bar>rnd x - x\<bar> \<le> x / 2 ^ 53" by (rule rnd_error [OF assms(1)])
  then have "rnd x - x \<le> x / 2 ^ 53" by linarith
  moreover have "x / 2 ^ 53 \<le> x" using pos by (simp add: field_simps)
  ultimately have "rnd x \<le> 2 * x" by linarith
  also have "\<dots> \<le> 2 * 2 ^ 100" using assms(2) by simp
  also have "\<dots> < (2 :: rat) ^ 1024"
  proof -
    have "(2 :: rat) * 2 ^ 100 = 2 ^ 101" by simp
    also have "\<dots> < 2 ^ 1024" by (rule power_strict_increasing) simp_all
    finally show ?thesis .
  qed
  finally show ?thesis using pos err by (auto simp: fround_rnd)
qed

text \<open>Whole cents, written as a float of EUR and read back.\<close>

lemma cents_read_back:
  assumes "0 \<le> n" and "n < 2 ^ 50"
  shows "\<exists>r. int_div n 100 = Inr (Fin r) \<and> py_round (fmul (Fin r) (Fin 100)) = Inr n \<and> 0 \<le> r"
proof (cases "n = 0")
  case True
  then show ?thesis using round_even_of_int [of 0] by (simp add: int_div_def py_round_def)
next
  case False
  let ?x = "(of_int n :: rat) / 100"
  have n: "1 \<le> (of_int n :: rat)" "(of_int n :: rat) < 2 ^ 50"
  proof -
    show "1 \<le> (of_int n :: rat)" using assms False by simp
    have "(of_int n :: rat) < of_int (2 ^ 50)" using assms(2) by (simp only: of_int_less_iff)
    then show "(of_int n :: rat) < 2 ^ 50" by simp
  qed
  have tiny: "(2 :: rat) powi (- 1021) \<le> 1 / 200"
  proof -
    have "(2 :: rat) powi (- 1021) \<le> 2 powi (- 8)" by (rule powi_mono) simp
    also have "\<dots> \<le> 1 / 200" by (simp add: power_int_def power_one_over)
    finally show ?thesis .
  qed
  have big: "(2 :: rat) ^ 51 \<le> 2 ^ 100" by (rule power_increasing) simp_all
  have huge: "(of_int n :: rat) * 2 \<le> 2 ^ 100" using n(2) big by simp
  have "2 powi (- 1021) \<le> ?x" by (rule order_trans [OF tiny]) (use n(1) in simp)
  moreover have "?x \<le> 2 ^ 100" using huge n(1) by linarith
  ultimately obtain r where r: "fround ?x = Fin r" "\<bar>r - ?x\<bar> \<le> ?x / 2 ^ 53" using fround_near by blast
  have r2: "\<bar>r * 100 - of_int n\<bar> \<le> of_int n / 2 ^ 53" using r(2) by (simp add: abs_le_iff field_simps)
  have small: "(of_int n :: rat) / 2 ^ 53 \<le> of_int n / 2" using n by simp
  from r2 have "of_int n - of_int n / 2 ^ 53 \<le> r * 100" "r * 100 \<le> of_int n + of_int n / 2 ^ 53"
    by (simp_all only: abs_le_iff) linarith+
  then have rb: "of_int n / 2 \<le> r * 100" "r * 100 \<le> 2 * of_int n" using small n by linarith+
  have "2 powi (- 1021) \<le> r * 100" by (rule order_trans [OF tiny]) (use n(1) rb(1) in linarith)
  moreover have "r * 100 \<le> 2 ^ 100" using huge rb(2) by linarith
  ultimately obtain s where s: "fround (r * 100) = Fin s" "\<bar>s - r * 100\<bar> \<le> r * 100 / 2 ^ 53" using fround_near by blast
  have "\<bar>s - of_int n\<bar> \<le> \<bar>s - r * 100\<bar> + \<bar>r * 100 - of_int n\<bar>" by linarith
  also have "\<dots> \<le> r * 100 / 2 ^ 53 + of_int n / 2 ^ 53" using s(2) r2 by (rule add_mono)
  also have "\<dots> \<le> 3 * of_int n / 2 ^ 53" using rb(2) by (simp add: field_simps)
  also have "\<dots> < 1 / 2" using n by simp
  finally have "round_even s = n" by (intro round_even_unique)
  moreover have "0 \<le> r" using rb n by simp
  ultimately show ?thesis using r(1) s(1) by (auto simp: int_div_def py_round_def)
qed

end
