(* ===== verification/VenueBook.thy ===== *)
theory VenueBook imports ExecTimer PyRound
begin

text \<open>
  \<open>cli/engine/venuestate.py\<close> and the venue book of \<open>executor.py\<close>: the frozen read of the cache every plan is judged
  by, the floors it holds a quantity against, its concordance, and the account's book the cycle plan is drafted
  from. The library's cache and client enter as the values their calls return.
\<close>

section \<open>The cache's venue state\<close>

text \<open>An instrument as the cache holds it; a constraint may be missing.\<close>

record cached_instrument =
  ci_id :: string
  ci_min_quantity :: "pyfloat option"
  ci_size_increment :: "pyfloat option"
  ci_price_increment :: "pyfloat option"

record cache_view =
  cv_instrument :: "string \<Rightarrow> cached_instrument option"
  cv_positions :: "string \<Rightarrow> pyfloat list"
  cv_account :: "(string \<times> pyfloat) list option"

definition instrument_id_of :: "string \<Rightarrow> string" where
  "instrument_id_of symbol = symbol @ ''.KRAKEN''"

definition opt_float :: "pyfloat option \<Rightarrow> pyfloat" where
  "opt_float v = (case v of None \<Rightarrow> Fin 0 | Some x \<Rightarrow> x)"

definition held_ordermin :: "pyfloat option \<Rightarrow> pyfloat option \<Rightarrow> pyfloat" where
  "held_ordermin cached listed =
     (case listed of None \<Rightarrow> opt_float cached | Some l \<Rightarrow> fmax (opt_float cached) l)"

definition constraints_of :: "(string \<times> pyfloat) list \<Rightarrow> string \<Rightarrow> cached_instrument \<Rightarrow> constraints res" where
  "constraints_of listed symbol ci =
     (case COSTMIN symbol of
        None \<Rightarrow> Inl KeyError
      | Some (costmin, quote) \<Rightarrow>
          Inr \<lparr>k_symbol = symbol, k_ordermin = held_ordermin (ci_min_quantity ci) (map_of listed symbol),
               k_costmin = costmin, k_costmin_quote = quote, k_lot_step = opt_float (ci_size_increment ci),
               k_tick_size = opt_float (ci_price_increment ci)\<rparr>)"

definition venue_leg :: "cache_view \<Rightarrow> (string \<times> pyfloat) list \<Rightarrow> string \<Rightarrow> (constraints \<times> pyfloat) res" where
  "venue_leg cv listed symbol =
     (case cv_instrument cv (instrument_id_of symbol) of
        None \<Rightarrow> Inl (EngineError ''instrument not found in Cache'')
      | Some ci \<Rightarrow>
          if ci_id ci \<noteq> instrument_id_of symbol then Inl (EngineError ''Cache instrument id disagrees'')
          else rbind (constraints_of listed symbol ci) (\<lambda>k. Inr (k, fsum (cv_positions cv (instrument_id_of symbol)))))"

definition venue_state_from_cache :: "cache_view \<Rightarrow> (string \<times> pyfloat) list option \<Rightarrow> venue_state res" where
  "venue_state_from_cache cv listed =
     rbind (rmap (venue_leg cv (case listed of None \<Rightarrow> [] | Some l \<Rightarrow> l)) BASKET) (\<lambda>legs.
       case cv_account cv of
         None \<Rightarrow> Inl (EngineError ''no account cached'')
       | Some balances \<Rightarrow>
           Inr \<lparr>vt_instruments = zip BASKET (map fst legs), vt_positions = zip BASKET (map snd legs),
                vt_balances = balances\<rparr>)"

definition concordance_failures :: "venue_state \<Rightarrow> string \<Rightarrow> string list" where
  "concordance_failures vt symbol =
     (case map_of (vt_instruments vt) symbol of
        None \<Rightarrow> [symbol @ '': instrument not present in snapshot'']
      | Some k \<Rightarrow>
          concat (map (\<lambda>(name, v). if fgt v (Fin 0) then [] else [symbol @ '': '' @ name])
            [(''ordermin'', k_ordermin k), (''lot_step'', k_lot_step k), (''tick_size'', k_tick_size k)]))"

definition runtime_concordance :: "venue_state \<Rightarrow> bool \<times> string list" where
  "runtime_concordance vt = (let failures = concat (map (concordance_failures vt) BASKET) in (failures = [], failures))"

text \<open>A concordant state has every leg with each of the three constraints positive, and only such a state is.\<close>

lemma concordant_iff:
  "fst (runtime_concordance vt) \<longleftrightarrow>
   (\<forall>s \<in> set BASKET. \<exists>k. map_of (vt_instruments vt) s = Some k \<and> fgt (k_ordermin k) (Fin 0) \<and>
      fgt (k_lot_step k) (Fin 0) \<and> fgt (k_tick_size k) (Fin 0))"
  by (auto simp: runtime_concordance_def concordance_failures_def Let_def split: option.splits if_splits)

section \<open>The venue's book\<close>

record venue_book =
  vb_held :: "(string \<times> pyfloat) list"
  vb_balances :: "(string \<times> pyfloat) list"
  vb_earn :: "(string \<times> pyfloat) list"
  vb_eur_total :: pyfloat
  vb_eur_free :: pyfloat
  vb_ordermin :: "(string \<times> pyfloat) list"

record position_report =
  pr_instrument :: string
  pr_quantity :: pyfloat
  pr_side :: string

record account_balance =
  ab_code :: string
  ab_total :: pyfloat
  ab_free :: pyfloat

definition is_eur_pair :: "string \<Rightarrow> bool" where
  "is_eur_pair symbol \<longleftrightarrow> tl (split_slash symbol) = [''EUR'']"

definition SPOT_SYMBOL_BY_BASE :: "(string \<times> string) list" where
  "SPOT_SYMBOL_BY_BASE = map (\<lambda>s. (hd (split_slash s), s)) (filter is_eur_pair BASKET)"

definition MARKED_EUR_EARN_CODES :: "string list" where "MARKED_EUR_EARN_CODES = [''EUR.M'']"

definition symbol_of_instrument :: "string \<Rightarrow> string option" where
  "symbol_of_instrument i = map_of (map (\<lambda>s. (instrument_id_of s, s)) BASKET) i"

definition bump :: "string \<Rightarrow> pyfloat \<Rightarrow> (string \<times> pyfloat) list \<Rightarrow> (string \<times> pyfloat) list" where
  "bump k x m = AList.update k (fadd (case map_of m k of None \<Rightarrow> Fin 0 | Some y \<Rightarrow> y) x) m"

fun margin_positions :: "(string \<times> pyfloat) list \<Rightarrow> position_report list \<Rightarrow> (string \<times> pyfloat) list res" where
  "margin_positions held [] = Inr held"
| "margin_positions held (p # ps) =
     (case symbol_of_instrument (pr_instrument p) of
        None \<Rightarrow> margin_positions held ps
      | Some symbol \<Rightarrow>
          (case map_of [(''LONG'', pr_quantity p), (''SHORT'', fneg (pr_quantity p)), (''FLAT'', Fin 0)] (pr_side p) of
             None \<Rightarrow> Inl KeyError
           | Some q \<Rightarrow> margin_positions (bump symbol q held) ps))"

definition listing_floors :: "cached_instrument list \<Rightarrow> (string \<times> pyfloat) list" where
  "listing_floors instruments =
     List.map_filter (\<lambda>s. case map_of (rev (map (\<lambda>i. (ci_id i, i)) instruments)) (instrument_id_of s) of
         None \<Rightarrow> None
       | Some i \<Rightarrow> (let floor = opt_float (ci_min_quantity i) in if fgt floor (Fin 0) then Some (s, floor) else None)) BASKET"

text \<open>One balance row of the cash read.\<close>

definition count_balance :: "account_balance \<Rightarrow> venue_book \<Rightarrow> venue_book" where
  "count_balance b vb =
     (case wallet_base (ab_code b) (map fst SPOT_SYMBOL_BY_BASE @ [''EUR'']) of
        None \<Rightarrow> vb
      | Some (base, earn_coded) \<Rightarrow>
          if base = ''EUR'' then
            (if \<not> earn_coded then vb\<lparr>vb_eur_total := fadd (vb_eur_total vb) (ab_total b),
                                     vb_eur_free := fadd (vb_eur_free vb) (ab_free b)\<rparr>
             else if ab_code b \<in> set MARKED_EUR_EARN_CODES then vb\<lparr>vb_eur_total := fadd (vb_eur_total vb) (ab_total b)\<rparr>
             else vb)
          else if earn_coded then
            (if ab_total b = Fin 0 then vb else vb\<lparr>vb_earn := bump base (ab_total b) (vb_earn vb)\<rparr>)
          else case map_of SPOT_SYMBOL_BY_BASE base of
                 None \<Rightarrow> vb
               | Some symbol \<Rightarrow> vb\<lparr>vb_held := bump symbol (ab_total b) (vb_held vb),
                                   vb_balances := bump base (ab_total b) (vb_balances vb)\<rparr>)"

definition snap_flat :: "pyfloat \<Rightarrow> pyfloat" where
  "snap_flat q = (if fle (fabs q) FLAT_TOLERANCE then Fin 0 else q)"

definition read_venue_book ::
  "cached_instrument list \<Rightarrow> position_report list option \<Rightarrow> account_balance list \<Rightarrow> venue_book res" where
  "read_venue_book instruments positions balances =
     (if instruments = [] then Inl (EngineError ''the listing came back empty'')
      else case positions of
        None \<Rightarrow> Inl (EngineError ''nothing for the margin positions'')
      | Some reports \<Rightarrow>
          rbind (margin_positions (map (\<lambda>s. (s, Fin 0)) BASKET) reports) (\<lambda>held.
            let vb = fold count_balance balances
                  \<lparr>vb_held = held, vb_balances = map (\<lambda>(b, s). (b, Fin 0)) SPOT_SYMBOL_BY_BASE, vb_earn = [],
                   vb_eur_total = Fin 0, vb_eur_free = Fin 0, vb_ordermin = listing_floors instruments\<rparr>
            in Inr (vb\<lparr>vb_held := map (\<lambda>(s, q). (s, snap_flat q)) (vb_held vb)\<rparr>)))"

text \<open>The status of every symbol as the venue lists it, absent where its answer names none.\<close>

definition read_instrument_statuses :: "(string \<times> string) list option \<Rightarrow> (string \<times> string) list res" where
  "read_instrument_statuses answer =
     (case answer of
        None \<Rightarrow> Inl (EngineError ''nothing for the instrument statuses'')
      | Some listed \<Rightarrow>
          Inr (fold (\<lambda>(i, action) m. case symbol_of_instrument i of None \<Rightarrow> m | Some symbol \<Rightarrow> AList.update symbol action m)
                 listed (map (\<lambda>s. (s, ''absent'')) BASKET)))"

definition earn_refusal :: "venue_book \<Rightarrow> string option" where
  "earn_refusal vb =
     (if vb_earn vb = [] then None
      else Some (Min (fst ` set (vb_earn vb)) @ '' is held outside the spot wallet under an earn or staking code''))"

text \<open>Every symbol of the basket, and every base, has one entry in the book, whatever the venue answers.\<close>

lemma bump_keys: "k \<in> fst ` set m \<Longrightarrow> map fst (bump k x m) = map fst m"
  by (simp add: bump_def AList.update_keys list.set_map)

lemma margin_positions_keys:
  "margin_positions held ps = Inr held' \<Longrightarrow> set BASKET \<subseteq> fst ` set held \<Longrightarrow> map fst held' = map fst held"
proof (induction ps arbitrary: held)
  case (Cons p ps)
  show ?case
  proof (cases "symbol_of_instrument (pr_instrument p)")
    case None
    with Cons show ?thesis by simp
  next
    case (Some symbol)
    then have "symbol \<in> set BASKET" by (auto simp: symbol_of_instrument_def dest: map_of_SomeD)
    with Cons.prems(2) have k: "symbol \<in> fst ` set held" by blast
    from Cons.prems(1) Some obtain q where q: "margin_positions (bump symbol q held) ps = Inr held'"
      by (auto split: option.splits)
    have "set BASKET \<subseteq> fst ` set (bump symbol q held)"
      using Cons.prems(2) bump_keys [OF k, of q] by (metis list.set_map)
    from Cons.IH [OF q this] bump_keys [OF k] show ?thesis by simp
  qed
qed simp

lemma spot_symbol_listed: "map_of SPOT_SYMBOL_BY_BASE base = Some s \<Longrightarrow> s \<in> set BASKET"
  by (auto simp: SPOT_SYMBOL_BY_BASE_def dest!: map_of_SomeD)

lemma count_balance_keys:
  assumes "map fst (vb_held vb) = BASKET" and "map fst (vb_balances vb) = map fst SPOT_SYMBOL_BY_BASE"
  shows "map fst (vb_held (count_balance b vb)) = BASKET \<and>
    map fst (vb_balances (count_balance b vb)) = map fst SPOT_SYMBOL_BY_BASE"
proof -
  have "map fst (bump s x (vb_held vb)) = BASKET" if "map_of SPOT_SYMBOL_BY_BASE base = Some s" for s x base
    using bump_keys [of s "vb_held vb"] spot_symbol_listed [OF that] assms(1) by (metis list.set_map)
  moreover have "map fst (bump base x (vb_balances vb)) = map fst SPOT_SYMBOL_BY_BASE"
    if "map_of SPOT_SYMBOL_BY_BASE base = Some s" for s x base
    using bump_keys [of base "vb_balances vb"] that assms(2) by (metis list.set_map map_of_SomeD image_eqI fst_conv)
  ultimately show ?thesis using assms by (simp add: count_balance_def split: option.split)
qed

lemma book_covers_basket:
  assumes "read_venue_book instruments positions balances = Inr vb"
  shows "map fst (vb_held vb) = BASKET \<and> map fst (vb_balances vb) = map fst SPOT_SYMBOL_BY_BASE"
proof -
  from assms obtain reports held where m: "margin_positions (map (\<lambda>s. (s, Fin 0)) BASKET) reports = Inr held"
    and vb: "vb = (let v = fold count_balance balances
                  \<lparr>vb_held = held, vb_balances = map (\<lambda>(b, s). (b, Fin 0)) SPOT_SYMBOL_BY_BASE, vb_earn = [],
                   vb_eur_total = Fin 0, vb_eur_free = Fin 0, vb_ordermin = listing_floors instruments\<rparr>
            in v\<lparr>vb_held := map (\<lambda>(s, q). (s, snap_flat q)) (vb_held v)\<rparr>)"
    by (auto simp: read_venue_book_def rbind_Inr_iff Let_def split: if_splits option.splits)
  have held: "map fst held = BASKET" using margin_positions_keys [OF m] by (simp add: comp_def image_image)
  have "map fst (vb_held (fold count_balance bs v)) = BASKET \<and>
      map fst (vb_balances (fold count_balance bs v)) = map fst SPOT_SYMBOL_BY_BASE"
    if "map fst (vb_held v) = BASKET" "map fst (vb_balances v) = map fst SPOT_SYMBOL_BY_BASE" for bs v
    using that by (induction bs arbitrary: v) (simp_all add: count_balance_keys)
  then show ?thesis by (simp add: vb Let_def held comp_def case_prod_beta')
qed

end
