(* ===== verification/CycleRecord.thy ===== *)
theory CycleRecord imports PyValue
begin

text \<open>
  \<open>cli/engine/journal.py\<close>: the record a cycle journals, its reading from JSON and its validation. A field the
  reader does not convert keeps its JSON value; the checks that such a record's stamps are datetimes and its
  snapshots a tuple, which the reader already made so, are left out. \<open>isofmt\<close> and \<open>fromiso\<close> are the two string
  conversions of \<open>datetime\<close>.
\<close>

section \<open>Data\<close>

definition LOADABLE_SCHEMA_VERSIONS :: "int list" where "LOADABLE_SCHEMA_VERSIONS = [1, 2]"
definition VALID_GRIDS :: "string list" where "VALID_GRIDS = [''1440'', ''240'']"
definition VALID_BUILDER_PATHS :: "string list" where "VALID_BUILDER_PATHS = [''fast'', ''verified'']"

record snapshot_entry =
  se_pair :: json
  se_grid :: json
  se_n_bars :: json
  se_first_ts :: dt
  se_last_ts :: dt
  se_hash :: json
  se_path :: json

type_synonym pairs = "(json \<times> json) list"

record cycle_record =
  cy_schema :: json
  cy_ts :: dt
  cy_snapshots :: "snapshot_entry list"
  cy_targets :: pairs
  cy_started_at :: dt
  cy_completed_at :: dt
  cy_code_version :: json
  cy_builder_path :: json
  cy_closes :: "pairs option"
  cy_nav :: "pyfloat option"
  cy_held :: "pairs option"

definition journal_error :: "string \<Rightarrow> 'a res" where
  "journal_error what = Inl (EngineJournalError what)"

text \<open>A loop over items that check.\<close>

abbreviation require :: "bool \<Rightarrow> string \<Rightarrow> unit res \<Rightarrow> unit res" where
  "require ok what k \<equiv> (if ok then k else journal_error what)"

section \<open>Reading\<close>

definition as_positive_float :: "json \<Rightarrow> pyfloat res" where
  "as_positive_float v =
     (if \<not> is_number v then journal_error ''nav must be a number''
      else rbind (to_float v) (\<lambda>x.
        if \<not> isfinite x \<or> fle x (Fin 0) then journal_error ''nav must be finite and positive'' else Inr x))"

text \<open>
  \<open>dict(v)\<close>: a dictionary is copied; any other iterable has to yield pairs, the last value of a key standing at the
  key's first place.
\<close>

definition pair_of :: "json \<Rightarrow> (json \<times> json) res" where
  "pair_of v = rbind (iter_json v) (\<lambda>xs. case xs of
     [k, x] \<Rightarrow> if hashable k then Inr (k, x) else Inl TypeError | _ \<Rightarrow> Inl ValueError)"

definition dict_of :: "json \<Rightarrow> pairs res" where
  "dict_of v = (case v of
     JObj d \<Rightarrow> Inr (map (\<lambda>(k, x). (JStr k, x)) d)
   | _ \<Rightarrow> rbind (iter_json v) (\<lambda>xs. rbind (rmap pair_of xs) (\<lambda>ps. Inr (fold (\<lambda>(k, x). AList.update k x) ps []))))"

definition read_ts :: "(string \<Rightarrow> dt option) \<Rightarrow> json \<Rightarrow> dt res" where
  "read_ts fromiso v = (case v of
     JStr s \<Rightarrow> (case fromiso s of None \<Rightarrow> Inl ValueError | Some t \<Rightarrow> Inr t) | _ \<Rightarrow> Inl TypeError)"

definition read_entry :: "(string \<Rightarrow> dt option) \<Rightarrow> json \<Rightarrow> snapshot_entry res" where
  "read_entry fromiso e =
     rbind (jindex e ''pair'') (\<lambda>p. rbind (jindex e ''grid'') (\<lambda>g. rbind (jindex e ''n_bars'') (\<lambda>n.
     rbind (rbind (jindex e ''first_ts'') (read_ts fromiso)) (\<lambda>a. rbind (rbind (jindex e ''last_ts'') (read_ts fromiso)) (\<lambda>b.
     rbind (jindex e ''content_hash'') (\<lambda>h. rbind (jindex e ''path'') (\<lambda>q.
       Inr \<lparr>se_pair = p, se_grid = g, se_n_bars = n, se_first_ts = a, se_last_ts = b, se_hash = h, se_path = q\<rparr>)))))))"

definition opt_dict :: "json \<Rightarrow> pairs option res" where
  "opt_dict v = (if v = JNull then Inr None else rbind (dict_of v) (\<lambda>d. Inr (Some d)))"

definition read_payload :: "(string \<Rightarrow> dt option) \<Rightarrow> json \<Rightarrow> cycle_record res" where
  "read_payload fromiso v =
     rbind (jindex v ''schema_version'') (\<lambda>schema.
     rbind (rbind (jindex v ''cycle_ts'') (read_ts fromiso)) (\<lambda>ts.
     rbind (rbind (rbind (jindex v ''snapshots'') iter_json) (rmap (read_entry fromiso))) (\<lambda>snaps.
     rbind (rbind (jindex v ''final_targets'') dict_of) (\<lambda>targets.
     rbind (rbind (jindex v ''started_at'') (read_ts fromiso)) (\<lambda>started.
     rbind (rbind (jindex v ''completed_at'') (read_ts fromiso)) (\<lambda>completed.
     rbind (jindex v ''code_version'') (\<lambda>code.
     rbind (jindex v ''builder_path'') (\<lambda>builder.
     rbind (opt_dict (dget (obj_of v) ''closes'')) (\<lambda>closes.
     rbind (if dget (obj_of v) ''nav'' = JNull then Inr None
            else rbind (as_positive_float (dget (obj_of v) ''nav'')) (\<lambda>x. Inr (Some x))) (\<lambda>nav.
     rbind (opt_dict (dget (obj_of v) ''held'')) (\<lambda>held.
       Inr \<lparr>cy_schema = schema, cy_ts = ts, cy_snapshots = snaps, cy_targets = targets, cy_started_at = started,
            cy_completed_at = completed, cy_code_version = code, cy_builder_path = builder, cy_closes = closes,
            cy_nav = nav, cy_held = held\<rparr>)))))))))))"

text \<open>What \<open>except (KeyError, TypeError, ValueError)\<close> makes of a raise; any other passes.\<close>

definition from_json :: "(string \<Rightarrow> dt option) \<Rightarrow> jtext \<Rightarrow> cycle_record res" where
  "from_json fromiso t =
     (case json_loads t of
        Inl _ \<Rightarrow> journal_error ''invalid journal JSON''
      | Inr v \<Rightarrow>
          (case read_payload fromiso v of
             Inr r \<Rightarrow> Inr r
           | Inl e \<Rightarrow> (if e \<in> {KeyError, TypeError, ValueError} then journal_error ''journal JSON is missing or misshapes a required key''
                      else Inl e)))"

section \<open>Writing\<close>

definition entry_json :: "(dt \<Rightarrow> string) \<Rightarrow> snapshot_entry \<Rightarrow> json" where
  "entry_json isofmt e = JObj
     [(''pair'', se_pair e), (''grid'', se_grid e), (''n_bars'', se_n_bars e), (''first_ts'', JStr (isofmt (se_first_ts e))),
      (''last_ts'', JStr (isofmt (se_last_ts e))), (''content_hash'', se_hash e), (''path'', se_path e)]"

text \<open>A dictionary whose keys are strings, as an object.\<close>

definition obj_json :: "pairs \<Rightarrow> json" where
  "obj_json d = JObj (map (\<lambda>(k, x). (case k of JStr s \<Rightarrow> s | _ \<Rightarrow> [], x)) d)"

definition to_json :: "(dt \<Rightarrow> string) \<Rightarrow> cycle_record \<Rightarrow> json" where
  "to_json isofmt r = JObj
     ([(''schema_version'', cy_schema r), (''cycle_ts'', JStr (isofmt (cy_ts r))),
       (''snapshots'', JArr (map (entry_json isofmt) (cy_snapshots r))), (''final_targets'', obj_json (cy_targets r)),
       (''started_at'', JStr (isofmt (cy_started_at r))), (''completed_at'', JStr (isofmt (cy_completed_at r))),
       (''code_version'', cy_code_version r), (''builder_path'', cy_builder_path r)] @
      (case cy_closes r of None \<Rightarrow> [] | Some d \<Rightarrow> [(''closes'', obj_json d)]) @
      (case cy_nav r of None \<Rightarrow> [] | Some x \<Rightarrow> [(''nav'', JFloat x)]) @
      (case cy_held r of None \<Rightarrow> [] | Some d \<Rightarrow> [(''held'', obj_json d)]))"

section \<open>Validation\<close>

definition is_symbol_key :: "string \<Rightarrow> bool" where
  "is_symbol_key key \<longleftrightarrow> CHR ''/'' \<in> set key"

definition nonempty_str :: "json \<Rightarrow> bool" where
  "nonempty_str v \<longleftrightarrow> (case v of JStr s \<Rightarrow> s \<noteq> [] | _ \<Rightarrow> False)"

definition text_of :: "json \<Rightarrow> string" where
  "text_of v = (case v of JStr s \<Rightarrow> s | _ \<Rightarrow> [])"

definition require_comparable_cycle_ts :: "cycle_record \<Rightarrow> unit res" where
  "require_comparable_cycle_ts r = require (\<not> naive (cy_ts r)) ''cycle_ts must be timezone-aware'' (Inr ())"

text \<open>Each stamp under the name the refusal gives it: one name for a pair's grid, however often it is listed.\<close>

datatype stamp_name = StampCycle | StampStarted | StampCompleted | StampFirst json json | StampLast json json

definition stamps_of :: "cycle_record \<Rightarrow> (stamp_name \<times> dt) list" where
  "stamps_of r = (StampCycle, cy_ts r) # (StampStarted, cy_started_at r) # (StampCompleted, cy_completed_at r) #
     concat (map (\<lambda>e. [(StampFirst (se_pair e) (se_grid e), se_first_ts e), (StampLast (se_pair e) (se_grid e), se_last_ts e)])
       (cy_snapshots r))"

definition refuse_mixed_awareness :: "cycle_record \<Rightarrow> unit res" where
  "refuse_mixed_awareness r =
     (let aware = map fst (filter (\<lambda>(name, t). \<not> naive t) (stamps_of r));
          naive_names = filter (\<lambda>name. name \<notin> set aware) (map fst (stamps_of r)) in
      require (\<not> (aware \<noteq> [] \<and> naive_names \<noteq> [])) ''mixes aware and naive stamps'' (Inr ()))"

text \<open>The key space of the record's schema.\<close>

definition key_space_ok :: "json \<Rightarrow> string \<Rightarrow> bool" where
  "key_space_ok schema key \<longleftrightarrow>
     \<not> (eq_int schema 1 \<and> is_symbol_key key) \<and> \<not> (eq_int schema 2 \<and> \<not> is_symbol_key key)"

text \<open>\<open>not isinstance(value, bool) and isinstance(value, (int, float)) and math.isfinite(value)\<close>\<close>

definition finite_number :: "json \<Rightarrow> bool res" where
  "finite_number v = (if \<not> is_number v then Inr False else rbind (to_float v) (\<lambda>x. Inr (isfinite x)))"

definition positive_number :: "json \<Rightarrow> bool" where
  "positive_number v = (case v of JInt i \<Rightarrow> 0 < i | JFloat x \<Rightarrow> \<not> fle x (Fin 0) | _ \<Rightarrow> False)"

definition validate_entry_of :: "json \<Rightarrow> snapshot_entry list \<Rightarrow> snapshot_entry \<Rightarrow> unit res" where
  "validate_entry_of schema prior e =
     require (nonempty_str (se_pair e)) ''pair'' (
     require (key_space_ok schema (text_of (se_pair e))) ''pair key space'' (
     rbind (in_str_set (se_grid e) VALID_GRIDS) (\<lambda>grid_ok.
     require grid_ok ''grid'' (
     require (case se_n_bars e of JInt n \<Rightarrow> 1 \<le> n | _ \<Rightarrow> False) ''n_bars'' (
     rbind (dt_le (se_last_ts e) (se_first_ts e)) (\<lambda>late.
     require (\<not> late) ''first_ts must precede last_ts'' (
     require (case se_hash e of JStr h \<Rightarrow> length h = 64 | _ \<Rightarrow> False) ''content_hash'' (
     require (nonempty_str (se_path e)) ''path'' (
     require (\<not> list_ex (\<lambda>b. se_pair b = se_pair e \<and> se_grid b = se_grid e) prior) ''duplicate snapshot'' (Inr ()))))))))))"

fun validate_entries :: "json \<Rightarrow> snapshot_entry list \<Rightarrow> snapshot_entry list \<Rightarrow> unit res" where
  "validate_entries schema prior [] = Inr ()"
| "validate_entries schema prior (e # es) =
     rbind (validate_entry_of schema prior e) (\<lambda>_. validate_entries schema (prior @ [e]) es)"

text \<open>The pairs in the order of their first snapshot, and a pair's snapshot of a grid.\<close>

definition pairs_of :: "snapshot_entry list \<Rightarrow> json list" where
  "pairs_of es = rev (remdups (rev (map se_pair es)))"

definition snapshot_of :: "snapshot_entry list \<Rightarrow> json \<Rightarrow> string \<Rightarrow> snapshot_entry option" where
  "snapshot_of es pair grid = first_of (\<lambda>e. se_pair e = pair \<and> se_grid e = JStr grid) es"

definition validate_target :: "json \<Rightarrow> json \<times> json \<Rightarrow> unit res" where
  "validate_target schema kv =
     require (nonempty_str (fst kv)) ''final_targets key'' (
     require (key_space_ok schema (text_of (fst kv))) ''final_targets key space'' (
     rbind (finite_number (snd kv)) (\<lambda>ok. require ok ''final_targets value'' (Inr ()))))"

definition validate_held :: "json \<times> json \<Rightarrow> unit res" where
  "validate_held kv =
     require (nonempty_str (fst kv)) ''held key'' (
     require (\<not> is_symbol_key (text_of (fst kv))) ''held key space'' (
     rbind (finite_number (snd kv)) (\<lambda>ok. require ok ''held value'' (Inr ()))))"

definition validate_close :: "json \<times> json \<Rightarrow> unit res" where
  "validate_close kv =
     require (nonempty_str (fst kv)) ''closes key'' (
     require (\<not> is_symbol_key (text_of (fst kv))) ''closes key space'' (
     rbind (finite_number (snd kv)) (\<lambda>ok. require (ok \<and> positive_number (snd kv)) ''closes value'' (Inr ()))))"

text \<open>The last midnight of a stamp's own clock, and the boundary every snapshot has to end at.\<close>

definition midnight :: "dt \<Rightarrow> dt" where
  "midnight t = t\<lparr>wall := dt_day t * day_us\<rparr>"

definition validate_boundary :: "cycle_record \<Rightarrow> json \<Rightarrow> unit res" where
  "validate_boundary r pair =
     (case (snapshot_of (cy_snapshots r) pair ''240'', snapshot_of (cy_snapshots r) pair ''1440'') of
        (Some h4, Some daily) \<Rightarrow>
          require (dt_eq (se_last_ts h4) (dt_add (cy_ts r) (- 4 * hour_us))) ''4h snapshot last_ts'' (
          require (dt_eq (se_last_ts daily) (dt_add (midnight (cy_ts r)) (- day_us))) ''daily snapshot last_ts'' (Inr ()))
      | _ \<Rightarrow> Inl KeyError)"

definition validate_record :: "cycle_record \<Rightarrow> unit res" where
  "validate_record r =
     (let schema = cy_schema r; snaps = cy_snapshots r in
      rbind (in_int_set schema LOADABLE_SCHEMA_VERSIONS) (\<lambda>loadable.
      require loadable ''schema_version'' (
      rbind (refuse_mixed_awareness r) (\<lambda>_.
      require (snaps \<noteq> []) ''snapshots'' (
      rbind (validate_entries schema [] snaps) (\<lambda>_.
      rbind (for_each (\<lambda>pair. require (list_all (\<lambda>g. snapshot_of snaps pair g \<noteq> None) VALID_GRIDS) ''missing grid'' (Inr ()))
              (pairs_of snaps)) (\<lambda>_.
      require (cy_targets r \<noteq> []) ''final_targets'' (
      rbind (for_each (validate_target schema) (cy_targets r)) (\<lambda>_.
      require (case cy_nav r of None \<Rightarrow> True | Some x \<Rightarrow> isfinite x \<and> \<not> fle x (Fin 0)) ''nav'' (
      rbind (case cy_held r of None \<Rightarrow> Inr () | Some d \<Rightarrow> for_each validate_held d) (\<lambda>_.
      rbind (case cy_closes r of None \<Rightarrow> Inr () | Some d \<Rightarrow> require (d \<noteq> []) ''closes'' (for_each validate_close d)) (\<lambda>_.
      rbind (dt_lt (cy_completed_at r) (cy_started_at r)) (\<lambda>swapped.
      require (\<not> swapped) ''started_at'' (
      require (nonempty_str (cy_code_version r)) ''code_version'' (
      rbind (in_str_set (cy_builder_path r) VALID_BUILDER_PATHS) (\<lambda>builder_ok.
      require builder_ok ''builder_path'' (
      for_each (validate_boundary r) (pairs_of snaps))))))))))))))))))"

section \<open>What a valid record is\<close>

lemma require_Inr [simp]: "require b what k = Inr () \<longleftrightarrow> b \<and> k = Inr ()"
  by (simp add: journal_error_def)

lemmas check_simps = rbind_Inr_iff for_each_Inr_iff

lemma validate_entries_each:
  "validate_entries schema prior es = Inr () \<Longrightarrow>
   (\<forall>e \<in> set es. nonempty_str (se_pair e) \<and> key_space_ok schema (text_of (se_pair e)) \<and>
      se_grid e \<in> JStr ` set VALID_GRIDS \<and> dt_le (se_last_ts e) (se_first_ts e) = Inr False) \<and>
   distinct (map (\<lambda>e. (se_pair e, se_grid e)) es) \<and>
   (\<forall>e \<in> set es. \<forall>b \<in> set prior. (se_pair b, se_grid b) \<noteq> (se_pair e, se_grid e))"
proof (induction schema prior es rule: validate_entries.induct)
  case (2 schema prior e es)
  then show ?case
    by (auto simp: check_simps validate_entry_of_def in_str_set_Inr_True list_ex_iff)
qed simp

lemma set_pairs_of [simp]: "set (pairs_of es) = se_pair ` set es"
  by (simp add: pairs_of_def)

lemma snapshot_of_unique:
  assumes "distinct (map (\<lambda>e. (se_pair e, se_grid e)) es)" and "e \<in> set es" and "se_grid e = JStr g"
  shows "snapshot_of es (se_pair e) g = Some e"
  using assms by (induction es) (force simp: snapshot_of_def)+

lemma validate_record_parts:
  assumes "validate_record r = Inr ()"
  shows "refuse_mixed_awareness r = Inr ()" "cy_snapshots r \<noteq> []" "validate_entries (cy_schema r) [] (cy_snapshots r) = Inr ()"
    "\<forall>e \<in> set (cy_snapshots r). \<forall>g \<in> set VALID_GRIDS. snapshot_of (cy_snapshots r) (se_pair e) g \<noteq> None"
    "\<forall>kv \<in> set (cy_targets r). validate_target (cy_schema r) kv = Inr ()"
    "case cy_nav r of None \<Rightarrow> True | Some x \<Rightarrow> isfinite x \<and> \<not> fle x (Fin 0)"
    "case cy_held r of None \<Rightarrow> True | Some d \<Rightarrow> \<forall>kv \<in> set d. validate_held kv = Inr ()"
    "case cy_closes r of None \<Rightarrow> True | Some d \<Rightarrow> \<forall>kv \<in> set d. validate_close kv = Inr ()"
    "\<forall>e \<in> set (cy_snapshots r). validate_boundary r (se_pair e) = Inr ()"
  using assms by (auto simp: validate_record_def Let_def check_simps list_all_iff split: option.splits)

lemma dt_eq_add: "dt_eq a (dt_add b us) \<Longrightarrow> instant a = instant b + us \<and> naive a = naive b"
  by (auto simp: dt_eq_def instant_def dt_add_def comparable_def naive_def)

text \<open>
  C2. A record that validates holds for every pair exactly one snapshot of each grid and nothing else, no snapshot
  reaches into the four hours before the cycle or past the midnight before it, and its stamps are comparable.
\<close>

theorem validated_record_never_peeks:
  assumes "validate_record r = Inr ()" and "e \<in> set (cy_snapshots r)"
  shows "(\<exists>g \<in> set VALID_GRIDS. se_grid e = JStr g) \<and>
    (\<forall>g \<in> set VALID_GRIDS. \<exists>!b. b \<in> set (cy_snapshots r) \<and> se_pair b = se_pair e \<and> se_grid b = JStr g) \<and>
    instant (se_first_ts e) < instant (se_last_ts e) \<and> instant (se_last_ts e) \<le> instant (cy_ts r) - 4 * hour_us \<and>
    (se_grid e = JStr ''1440'' \<longrightarrow> instant (se_last_ts e) \<le> instant (cy_ts r) - day_us) \<and>
    naive (se_last_ts e) = naive (cy_ts r)"
proof -
  note parts = validate_record_parts [OF assms(1)]
  note each = validate_entries_each [OF parts(3)]
  obtain g where g: "g \<in> set VALID_GRIDS" "se_grid e = JStr g" using each assms(2) by auto
  have self: "snapshot_of (cy_snapshots r) (se_pair b) h = Some b"
    if "b \<in> set (cy_snapshots r)" "se_grid b = JStr h" for b h
    using snapshot_of_unique [OF _ that] each by blast
  have one: "\<exists>!b. b \<in> set (cy_snapshots r) \<and> se_pair b = se_pair e \<and> se_grid b = JStr h" if h: "h \<in> set VALID_GRIDS" for h
  proof -
    from parts(4) assms(2) h obtain b where b: "snapshot_of (cy_snapshots r) (se_pair e) h = Some b" by auto
    then have "b \<in> set (cy_snapshots r) \<and> se_pair b = se_pair e \<and> se_grid b = JStr h"
      by (auto simp: snapshot_of_def dest!: find_mem)
    moreover have "b' = b" if "b' \<in> set (cy_snapshots r) \<and> se_pair b' = se_pair e \<and> se_grid b' = JStr h" for b'
      using self [of b' h] that b by auto
    ultimately show ?thesis by blast
  qed
  from parts(4) assms(2) obtain h4 daily where hd: "snapshot_of (cy_snapshots r) (se_pair e) ''240'' = Some h4"
    "snapshot_of (cy_snapshots r) (se_pair e) ''1440'' = Some daily" by (force simp: VALID_GRIDS_def)
  from parts(9) assms(2) have "validate_boundary r (se_pair e) = Inr ()" by blast
  then have "dt_eq (se_last_ts h4) (dt_add (cy_ts r) (- 4 * hour_us))"
    "dt_eq (se_last_ts daily) (dt_add (midnight (cy_ts r)) (- day_us))"
    unfolding validate_boundary_def hd by simp_all
  note bounds = this [THEN dt_eq_add]
  from bounds have ends: "instant (se_last_ts h4) = instant (cy_ts r) - 4 * hour_us"
    "instant (se_last_ts daily) = instant (midnight (cy_ts r)) - day_us" by simp_all
  from bounds have aware: "naive (se_last_ts h4) = naive (cy_ts r)" "naive (se_last_ts daily) = naive (cy_ts r)"
    by (simp_all add: midnight_def naive_def)
  have "wall (cy_ts r) div day_us * day_us \<le> wall (cy_ts r)" by (simp add: minus_mod_eq_div_mult [symmetric])
  then have "instant (midnight (cy_ts r)) \<le> instant (cy_ts r)" by (simp add: midnight_def instant_def dt_day_def)
  moreover have "e = (if g = ''240'' then h4 else daily)"
    using self [OF assms(2) g(2)] hd g(1) by (auto simp: VALID_GRIDS_def)
  ultimately have late: "instant (se_last_ts e) \<le> instant (cy_ts r) - 4 * hour_us"
    "se_grid e = JStr ''1440'' \<longrightarrow> instant (se_last_ts e) \<le> instant (cy_ts r) - day_us"
    using ends g by (auto split: if_splits)
  have "dt_le (se_last_ts e) (se_first_ts e) = Inr False" using each assms(2) by blast
  then have first: "instant (se_first_ts e) < instant (se_last_ts e)" by (auto simp: dt_le_def split: if_splits)
  have "naive (se_last_ts e) = naive (cy_ts r)"
    using aware \<open>e = (if g = ''240'' then h4 else daily)\<close> by simp
  with g one first late show ?thesis by blast
qed

section \<open>Round trip\<close>

lemma obj_json_back: "\<forall>kv \<in> set d. nonempty_str (fst kv) \<Longrightarrow> dict_of (obj_json d) = Inr d"
  by (induction d) (auto simp: dict_of_def obj_json_def nonempty_str_def split: json.splits)

lemma entry_back:
  assumes "\<And>t. fromiso (isofmt t) = Some t"
  shows "read_entry fromiso (entry_json isofmt e) = Inr e"
  by (simp add: read_entry_def entry_json_def dindex_def read_ts_def assms)

text \<open>
  A valid record reads back from its own JSON unchanged, the optional fields among them.
\<close>

theorem journaled_record_reads_back:
  assumes "validate_record r = Inr ()" and "\<And>t. fromiso (isofmt t) = Some t"
  shows "from_json fromiso (Parsed (to_json isofmt r)) = Inr r"
proof -
  note parts = validate_record_parts [OF assms(1)]
  have targets: "dict_of (obj_json (cy_targets r)) = Inr (cy_targets r)"
    using parts(5) by (intro obj_json_back) (simp add: validate_target_def)
  have closes: "dict_of (obj_json d) = Inr d" if "cy_closes r = Some d" for d
    using parts(8) that by (intro obj_json_back) (simp add: validate_close_def)
  have held: "dict_of (obj_json d) = Inr d" if "cy_held r = Some d" for d
    using parts(7) that by (intro obj_json_back) (simp add: validate_held_def)
  have nav: "as_positive_float (JFloat x) = Inr x" if "cy_nav r = Some x" for x
    using parts(6) that by (simp add: as_positive_float_def)
  have snaps: "rmap (read_entry fromiso) (map (entry_json isofmt) es) = Inr es" for es
    by (induction es) (simp_all add: entry_back assms(2))
  have "read_payload fromiso (to_json isofmt r) = Inr r"
    by (cases "cy_closes r"; cases "cy_nav r"; cases "cy_held r")
      (simp_all add: read_payload_def to_json_def dindex_def dget_def read_ts_def assms(2) targets snaps closes held nav
        opt_dict_def obj_json_def [symmetric] del: map_map, simp_all add: obj_json_def)
  then show ?thesis by (simp add: from_json_def json_loads_def)
qed

definition demo_snapshot :: "string \<Rightarrow> int \<Rightarrow> snapshot_entry" where
  "demo_snapshot grid last_ts = \<lparr>se_pair = JStr ''BTC/EUR'', se_grid = JStr grid, se_n_bars = JInt 1, se_first_ts = utc (last_ts - 1),
     se_last_ts = utc last_ts, se_hash = JStr (replicate 64 (CHR ''a'')), se_path = JStr ''p''\<rparr>"

definition demo_cycle :: cycle_record where
  "demo_cycle = \<lparr>cy_schema = JInt 2, cy_ts = utc 0,
     cy_snapshots = [demo_snapshot ''240'' (- 4 * hour_us), demo_snapshot ''1440'' (- day_us)],
     cy_targets = [(JStr ''BTC/EUR'', JFloat (Fin 1))], cy_started_at = utc 0, cy_completed_at = utc 1,
     cy_code_version = JStr ''1'', cy_builder_path = JStr ''fast'', cy_closes = None, cy_nav = Some (Fin 800), cy_held = None\<rparr>"

lemma demo_cycle_valid: "validate_record demo_cycle = Inr ()"
  by code_simp

lemma validated_record_never_peeks_witness:
  "instant (se_last_ts (demo_snapshot ''240'' (- 4 * hour_us))) \<le> instant (cy_ts demo_cycle) - 4 * hour_us"
proof -
  have "demo_snapshot ''240'' (- 4 * hour_us) \<in> set (cy_snapshots demo_cycle)" by (simp add: demo_cycle_def)
  from validated_record_never_peeks [OF demo_cycle_valid this] show ?thesis by blast
qed

end
