(* ===== verification/AccumLedger.thy ===== *)
theory AccumLedger imports ExecLedger
begin

text \<open>
  \<open>cli/engine/accumledger.py\<close>: the draft record of each boundary, one JSON file per UTC day and hour, validated before
  it is written and whenever it is scanned. The store is the list of its files by day and hour; a file is replaced
  whole or not at all. Names in a day's directory other than an hour's are not modelled.
\<close>

section \<open>Shapes\<close>

definition ACCUM_SCHEMA_VERSION :: int where "ACCUM_SCHEMA_VERSION = 1"

definition ACCUM_STATUSES :: "string list" where
  "ACCUM_STATUSES = [''ok'', ''no-cycle'', ''book-unread'', ''window-closed'', ''refused'']"

definition RECORD_KEYS :: "string list" where
  "RECORD_KEYS = [''schema_version'', ''cycle_ts'', ''drafted_at'', ''status'', ''nav'', ''eur_total'', ''eur_free'',
     ''equity_eur'', ''hwm_eur'', ''drawdown_bps'', ''day_loss_bps'', ''day_loss_hold'', ''plan_id'', ''legs'']"

definition LEG_KEYS :: "string list" where
  "LEG_KEYS = [''symbol'', ''weight'', ''target_eur'', ''close'', ''held_qty'', ''cache_net'', ''delta_eur'', ''outcome'',
     ''side'', ''qty'', ''notional_eur'', ''reason'']"

definition RECORD_FIGURES :: "string list" where
  "RECORD_FIGURES = [''nav'', ''eur_total'', ''eur_free'', ''equity_eur'', ''hwm_eur'', ''drawdown_bps'', ''day_loss_bps'']"

definition LEG_FIGURES :: "string list" where
  "LEG_FIGURES = [''weight'', ''target_eur'', ''close'', ''held_qty'', ''cache_net'', ''delta_eur'']"

definition LEG_NULLABLE_FIGURES :: "string list" where "LEG_NULLABLE_FIGURES = [''qty'', ''notional_eur'']"

section \<open>Validation\<close>

definition require_figure :: "json \<Rightarrow> bool \<Rightarrow> unit res" where
  "require_figure v nullable =
     (if v = JNull \<and> nullable then Inr ()
      else if \<not> is_number v then refuse ''figure''
      else rbind (to_float v) (\<lambda>x. if isfinite x then Inr () else refuse ''figure''))"

definition require_instant :: "(string \<Rightarrow> dt option) \<Rightarrow> json \<Rightarrow> unit res" where
  "require_instant fromiso v =
     (case v of
        JStr s \<Rightarrow> (case fromiso s of
                     Some t \<Rightarrow> if naive t then refuse ''instant'' else Inr ()
                   | None \<Rightarrow> refuse ''instant'')
      | _ \<Rightarrow> refuse ''instant'')"

definition validate_accum_leg :: "json \<Rightarrow> unit res" where
  "validate_accum_leg v =
     (case v of
        JObj leg \<Rightarrow>
          (if \<not> exact_keys leg LEG_KEYS then refuse ''accum leg keys''
           else rbind (for_each (\<lambda>f. require_figure (dget leg f) False) LEG_FIGURES) (\<lambda>_.
                for_each (\<lambda>f. require_figure (dget leg f) True) LEG_NULLABLE_FIGURES))
      | _ \<Rightarrow> refuse ''accum leg keys'')"

definition validate_accum_record :: "(string \<Rightarrow> dt option) \<Rightarrow> json \<Rightarrow> unit res" where
  "validate_accum_record fromiso v =
     (let schema_version = (case v of JObj doc \<Rightarrow> dget doc ''schema_version'' | _ \<Rightarrow> JNull); doc = obj_of v in
      if \<not> eq_int schema_version ACCUM_SCHEMA_VERSION then refuse ''accum schema_version''
      else if \<not> exact_keys doc RECORD_KEYS then refuse ''accum record keys''
      else rbind (require_instant fromiso (dget doc ''cycle_ts'')) (\<lambda>_.
           rbind (require_instant fromiso (dget doc ''drafted_at'')) (\<lambda>_.
           if \<not> list_ex (\<lambda>s. dget doc ''status'' = JStr s) ACCUM_STATUSES then refuse ''accum status''
           else if (case dget doc ''day_loss_hold'' of JBool _ \<Rightarrow> False | _ \<Rightarrow> True) then refuse ''accum day_loss_hold''
           else rbind (for_each (\<lambda>f. require_figure (dget doc f) True) RECORD_FIGURES) (\<lambda>_.
                if \<not> is_arr (dget doc ''legs'') then refuse ''accum legs''
                else for_each validate_accum_leg (arr_of (dget doc ''legs''))))))"

section \<open>Files\<close>

definition accum_record_path :: "dt \<Rightarrow> slot" where
  "accum_record_path cycle_ts = (dt_day cycle_ts, dt_hour cycle_ts)"

text \<open>The instant a validated record names.\<close>

definition record_ts :: "(string \<Rightarrow> dt option) \<Rightarrow> jdict \<Rightarrow> dt" where
  "record_ts fromiso doc = (case dget doc ''cycle_ts'' of JStr s \<Rightarrow> (case fromiso s of Some t \<Rightarrow> t | None \<Rightarrow> utc 0) | _ \<Rightarrow> utc 0)"

definition read_accum_record :: "jtext \<Rightarrow> json res" where
  "read_accum_record t = (case json_loads t of Inl _ \<Rightarrow> Inl (EngineJournalError ''accum record unreadable'') | Inr v \<Rightarrow> Inr v)"

definition write_accum_record :: "(string \<Rightarrow> dt option) \<Rightarrow> dt \<Rightarrow> jdict \<Rightarrow> journal \<Rightarrow> journal res" where
  "write_accum_record fromiso cycle_ts doc j =
     rbind (validate_accum_record fromiso (JObj doc)) (\<lambda>_.
       if \<not> dt_eq (record_ts fromiso doc) cycle_ts then Inl (EngineJournalError ''names another boundary'')
       else Inr (AList.update (accum_record_path cycle_ts) (Parsed (JObj doc)) j))"

section \<open>The scan\<close>

definition load_accum :: "(string \<Rightarrow> dt option) \<Rightarrow> jtext \<Rightarrow> jdict res" where
  "load_accum fromiso t =
     rbind (read_accum_record t) (\<lambda>v. rbind (validate_accum_record fromiso v) (\<lambda>_. Inr (obj_of v)))"

definition in_span :: "dt \<Rightarrow> dt \<Rightarrow> dt \<Rightarrow> bool res" where
  "in_span since until t = rbind (dt_le since t) (\<lambda>a. if a then dt_le t until else Inr False)"

definition walked :: "journal \<Rightarrow> dt \<Rightarrow> slot list" where
  "walked j since = sort (filter (\<lambda>p. dt_day since \<le> fst p) (remdups (map fst j)))"

definition accum_file :: "(string \<Rightarrow> dt option) \<Rightarrow> journal \<Rightarrow> dt \<Rightarrow> dt \<Rightarrow> slot \<Rightarrow> (dt \<times> jdict) list res" where
  "accum_file fromiso j since until path =
     rbind (load_accum fromiso (the (map_of j path))) (\<lambda>doc.
       let ts = record_ts fromiso doc in
       rbind (in_span since until ts) (\<lambda>ok. Inr (if ok then [(ts, doc)] else [])))"

definition accum_records_since :: "(string \<Rightarrow> dt option) \<Rightarrow> journal \<Rightarrow> dt \<Rightarrow> dt \<Rightarrow> jdict list res" where
  "accum_records_since fromiso j since until =
     rbind (concat_res (accum_file fromiso j since until) (walked j since)) (\<lambda>found.
       Inr (map snd (sort_key (\<lambda>(t, doc). instant t) found)))"

section \<open>A store written by the ledger alone\<close>

text \<open>Every file is a valid record filed under the boundary it names.\<close>

definition accum_ok :: "(string \<Rightarrow> dt option) \<Rightarrow> journal \<Rightarrow> bool" where
  "accum_ok fromiso j \<longleftrightarrow>
     (\<forall>(p, t) \<in> set j. \<exists>doc b. t = Parsed (JObj doc) \<and> validate_accum_record fromiso (JObj doc) = Inr () \<and>
        dt_eq (record_ts fromiso doc) b \<and> p = accum_record_path b)"

lemma record_ts_aware:
  assumes "validate_accum_record fromiso (JObj doc) = Inr ()"
  shows "\<not> naive (record_ts fromiso doc)"
proof -
  from assms have "require_instant fromiso (dget doc ''cycle_ts'') = Inr ()"
    by (auto simp: validate_accum_record_def Let_def rbind_Inr_iff refuse_def split: if_splits)
  then show ?thesis
    by (auto simp: require_instant_def record_ts_def refuse_def split: json.splits option.splits if_splits)
qed

lemma set_update_subset: "set (AList.update k v xs) \<subseteq> insert (k, v) (set xs)"
  by (induction xs) auto

lemma write_accum_ok:
  assumes "accum_ok fromiso j" and "write_accum_record fromiso ts doc j = Inr j'"
  shows "accum_ok fromiso j'"
proof -
  from assms(2) have w: "validate_accum_record fromiso (JObj doc) = Inr ()" "dt_eq (record_ts fromiso doc) ts"
    "j' = AList.update (accum_record_path ts) (Parsed (JObj doc)) j"
    by (auto simp: write_accum_record_def rbind_Inr_iff split: if_splits)
  show ?thesis
    unfolding accum_ok_def w(3)
  proof (rule ballI)
    fix pt assume "pt \<in> set (AList.update (accum_record_path ts) (Parsed (JObj doc)) j)"
    with set_update_subset consider "pt = (accum_record_path ts, Parsed (JObj doc))" | "pt \<in> set j" by fast
    then show "case pt of (p, t) \<Rightarrow> \<exists>doc b. t = Parsed (JObj doc) \<and> validate_accum_record fromiso (JObj doc) = Inr () \<and>
        dt_eq (record_ts fromiso doc) b \<and> p = accum_record_path b"
      using w(1,2) assms(1) by cases (auto simp: accum_ok_def)
  qed
qed

lemma concat_res_total: "(\<And>x. x \<in> set xs \<Longrightarrow> \<exists>y. f x = Inr y) \<Longrightarrow> \<exists>ys. concat_res f xs = Inr ys"
  using rmap_total [of xs f] by (auto simp: concat_res_def)

text \<open>The scan of such a store returns, whatever the span: the loop never refuses to read its own records.\<close>

lemma accum_scan_returns:
  assumes "accum_ok fromiso j" and "\<not> naive since" and "\<not> naive until"
  shows "\<exists>ds. accum_records_since fromiso j since until = Inr ds"
proof -
  have "\<exists>y. accum_file fromiso j since until p = Inr y" if "p \<in> set (walked j since)" for p
  proof -
    from that have "p \<in> fst ` set j" by (auto simp: walked_def)
    then obtain t where t: "map_of j p = Some t" by (metis map_of_eq_None_iff not_None_eq)
    then have "(p, t) \<in> set j" by (rule map_of_SomeD)
    with assms(1) obtain doc where doc: "t = Parsed (JObj doc)" "validate_accum_record fromiso (JObj doc) = Inr ()"
      by (fastforce simp: accum_ok_def)
    have "\<exists>b. in_span since until (record_ts fromiso doc) = Inr b"
      using assms(2,3) record_ts_aware [OF doc(2)]
      by (cases "instant since \<le> instant (record_ts fromiso doc)") (auto simp: in_span_def dt_le_def comparable_def)
    then show ?thesis
      by (auto simp: accum_file_def t doc load_accum_def read_accum_record_def json_loads_def Let_def)
  qed
  then obtain found where "concat_res (accum_file fromiso j since until) (walked j since) = Inr found"
    using concat_res_total by meson
  then show ?thesis by (simp add: accum_records_since_def)
qed

text \<open>What the scan of a store filed under UTC boundaries gives: the records in the span, oldest first.\<close>

definition accum_at :: "journal \<Rightarrow> slot \<Rightarrow> jdict \<Rightarrow> bool" where
  "accum_at j p doc \<longleftrightarrow> map_of j p = Some (Parsed (JObj doc))"

lemma accum_okD:
  assumes "accum_ok fromiso j" and "accum_at j p doc"
  shows "validate_accum_record fromiso (JObj doc) = Inr ()" "\<exists>b. dt_eq (record_ts fromiso doc) b \<and> p = accum_record_path b"
  using assms map_of_SomeD [of j p "Parsed (JObj doc)"] by (fastforce simp: accum_ok_def accum_at_def)+

lemma concat_res_mem':
  "concat_res f xs = Inr ys \<Longrightarrow> y \<in> set ys \<longleftrightarrow> (\<exists>x \<in> set xs. \<exists>zs. f x = Inr zs \<and> y \<in> set zs)"
proof -
  assume "concat_res f xs = Inr ys"
  then obtain yss where yss: "rmap f xs = Inr yss" "ys = concat yss" by (auto simp: concat_res_def rbind_Inr_iff)
  show ?thesis
  proof
    assume "y \<in> set ys"
    then obtain zs where "zs \<in> set yss" "y \<in> set zs" using yss(2) by auto
    then show "\<exists>x \<in> set xs. \<exists>zs. f x = Inr zs \<and> y \<in> set zs" using rmap_mem [OF yss(1)] by blast
  next
    assume "\<exists>x \<in> set xs. \<exists>zs. f x = Inr zs \<and> y \<in> set zs"
    then obtain x zs where x: "x \<in> set xs" "f x = Inr zs" "y \<in> set zs" by blast
    with rmap_mem' [OF yss(1) x(1)] show "y \<in> set ys" using yss(2) by auto
  qed
qed

lemma accum_scan_docs:
  assumes "accum_ok fromiso j" and "accum_records_since fromiso j since until = Inr ds"
    and "\<not> naive since" and "\<not> naive until"
  shows "doc \<in> set ds \<longleftrightarrow> (\<exists>p. accum_at j p doc \<and> dt_day since \<le> fst p \<and>
      instant since \<le> instant (record_ts fromiso doc) \<and> instant (record_ts fromiso doc) \<le> instant until)"
    and "sorted (map (instant \<circ> record_ts fromiso) ds)"
proof -
  from assms(2) obtain found where f: "concat_res (accum_file fromiso j since until) (walked j since) = Inr found"
    "ds = map snd (sort_key (\<lambda>(t, doc). instant t) found)"
    by (auto simp: accum_records_since_def rbind_Inr_iff)
  have each: "(t, doc) \<in> set zs \<longleftrightarrow> accum_at j q doc \<and> t = record_ts fromiso doc \<and>
      instant since \<le> instant t \<and> instant t \<le> instant until"
    if "accum_file fromiso j since until q = Inr zs" "q \<in> set (walked j since)" for q zs t doc
  proof -
    from that(2) have "q \<in> fst ` set j" by (auto simp: walked_def)
    then obtain x where x: "map_of j q = Some x" by (metis map_of_eq_None_iff not_None_eq)
    with assms(1) map_of_SomeD [OF x] obtain d where d: "x = Parsed (JObj d)" "validate_accum_record fromiso (JObj d) = Inr ()"
      by (fastforce simp: accum_ok_def)
    have span: "in_span since until (record_ts fromiso d) =
        Inr (instant since \<le> instant (record_ts fromiso d) \<and> instant (record_ts fromiso d) \<le> instant until)"
      using assms(3,4) record_ts_aware [OF d(2)] by (simp add: in_span_def dt_le_def comparable_def)
    have "accum_at j q doc \<longleftrightarrow> doc = d" by (auto simp: accum_at_def x d(1))
    then show ?thesis
      using that(1) span by (auto simp: accum_file_def x d load_accum_def read_accum_record_def json_loads_def Let_def split: if_splits)
  qed
  have "(t, doc) \<in> set found \<longleftrightarrow> (\<exists>q \<in> set (walked j since). accum_at j q doc) \<and> t = record_ts fromiso doc \<and>
      instant since \<le> instant t \<and> instant t \<le> instant until" for t doc
  proof -
    have total: "\<exists>zs. accum_file fromiso j since until q = Inr zs" if "q \<in> set (walked j since)" for q
      using f(1) that by (auto simp: concat_res_def rbind_Inr_iff dest: rmap_mem')
    show ?thesis unfolding concat_res_mem' [OF f(1)] using each total by blast
  qed
  moreover have "q \<in> set (walked j since) \<longleftrightarrow> dt_day since \<le> fst q" if "accum_at j q doc" for q doc
    using that by (force simp: walked_def accum_at_def dest: map_of_SomeD)
  ultimately have mem: "(t, doc) \<in> set found \<longleftrightarrow> (\<exists>p. accum_at j p doc \<and> dt_day since \<le> fst p) \<and> t = record_ts fromiso doc \<and>
      instant since \<le> instant t \<and> instant t \<le> instant until" for t doc by blast
  then show "doc \<in> set ds \<longleftrightarrow> (\<exists>p. accum_at j p doc \<and> dt_day since \<le> fst p \<and>
      instant since \<le> instant (record_ts fromiso doc) \<and> instant (record_ts fromiso doc) \<le> instant until)"
    by (force simp: f(2))
  have "map (instant \<circ> record_ts fromiso) ds = map (\<lambda>(t, doc). instant t) (sort_key (\<lambda>(t, doc). instant t) found)"
    using mem by (auto simp: f(2))
  then show "sorted (map (instant \<circ> record_ts fromiso) ds)" by simp
qed

end
