(* ===== verification/WeekScore.thy ===== *)
theory WeekScore imports VenueBook CycleRecord AccumLedger
begin

text \<open>
  The weekly tracking-error trip: \<open>cli/engine/tracking.py\<close> (the fills a journal holds, the drift of a cycle from the
  book of the next boundary) and the scoring of the week in \<open>executor.py\<close>. The cycle records are a directory of
  texts by day and hour, like the other journals. A number of a validated record is read as the float it converts
  to. The notes of the report and its median are left out.
\<close>

section \<open>Stages\<close>

definition H4 :: int where "H4 = 4 * hour_us"
definition WEEK_BOUNDARIES :: nat where "WEEK_BOUNDARIES = 7 * (24 div 4)"
definition MODEL_BASES :: "string list" where "MODEL_BASES = map fst SPOT_SYMBOL_BY_BASE"

definition ends_with :: "string \<Rightarrow> string \<Rightarrow> bool" where
  "ends_with suf s \<longleftrightarrow> length suf \<le> length s \<and> drop (length s - length suf) s = suf"

text \<open>A dictionary of names and numbers, with the numbers as floats.\<close>

definition named_floats :: "pairs \<Rightarrow> (string \<times> pyfloat) list res" where
  "named_floats d = rmap (\<lambda>(k, v). case k of JStr s \<Rightarrow> rbind (to_float v) (\<lambda>x. Inr (s, x)) | _ \<Rightarrow> Inl TypeError) d"

record stage =
  st_ts :: dt
  st_final :: "(string \<times> pyfloat) list"
  st_closes :: "(string \<times> pyfloat) list"
  st_nav :: "pyfloat option"
  st_held :: "(string \<times> pyfloat) list option"

definition eur_targets :: "(string \<times> pyfloat) list \<Rightarrow> (string \<times> pyfloat) list" where
  "eur_targets ts = fold (\<lambda>(s, w) m. if ends_with ''/EUR'' s then AList.update (hd (split_slash s)) w m else m) ts []"

definition stage_of :: "cycle_record \<Rightarrow> stage res" where
  "stage_of r =
     rbind (named_floats (cy_targets r)) (\<lambda>named.
       let targets = eur_targets named in
       if set (map fst targets) \<noteq> set MODEL_BASES then Inl (EngineError ''targets are not the model's'')
       else case cy_closes r of
         None \<Rightarrow> Inl (EngineError ''no closes journaled'')
       | Some d \<Rightarrow> rbind (named_floats d) (\<lambda>closes.
           if \<not> set MODEL_BASES \<subseteq> set (map fst closes) then Inl (EngineError ''no closes journaled'')
           else rbind (case cy_held r of None \<Rightarrow> Inr None | Some h \<Rightarrow> rbind (named_floats h) (\<lambda>x. Inr (Some x))) (\<lambda>held.
             Inr \<lparr>st_ts = cy_ts r, st_final = targets, st_closes = closes, st_nav = cy_nav r, st_held = held\<rparr>)))"

text \<open>Every success record up to a time, by the instant it names.\<close>

definition cycle_entry :: "(string \<Rightarrow> dt option) \<Rightarrow> dt \<Rightarrow> jtext \<Rightarrow> (int \<times> cycle_record) list res" where
  "cycle_entry fromiso until t =
     rbind (from_json fromiso t) (\<lambda>r. rbind (require_comparable_cycle_ts r) (\<lambda>_.
     rbind (dt_lt until (cy_ts r)) (\<lambda>later.
       if later then Inr [] else rbind (validate_record r) (\<lambda>_. Inr [(instant (cy_ts r), r)]))))"

definition cycle_records_through :: "(string \<Rightarrow> dt option) \<Rightarrow> journal \<Rightarrow> dt \<Rightarrow> (int \<times> cycle_record) list res" where
  "cycle_records_through fromiso cycles until =
     rbind (concat_res (\<lambda>p. cycle_entry fromiso until (the (map_of cycles p))) (sort (remdups (map fst cycles)))) (\<lambda>found.
       Inr (fold (\<lambda>(t, r). AList.update t r) found []))"

section \<open>Fills\<close>

datatype trade_ref = VenueTrade json | Repair json json

record fill =
  fi_boundary :: dt
  fi_at :: dt
  fi_base :: "string option"
  fi_side :: json
  fi_qty :: pyfloat
  fi_px :: "pyfloat option"
  fi_fee :: "pyfloat option"
  fi_liquidity :: string
  fi_trade :: trade_ref
  fi_credited :: "pyfloat option"

definition PRICEABLE_LIQUIDITY :: "string list" where "PRICEABLE_LIQUIDITY = [''MAKER'', ''TAKER'']"
definition VENUE_LIQUIDITY :: "string list" where "VENUE_LIQUIDITY = PRICEABLE_LIQUIDITY @ [''NO_LIQUIDITY_SIDE'']"
definition FILL_SIDES :: "string list" where "FILL_SIDES = [''buy'', ''sell'']"

text \<open>\<open>v.get(k)\<close> and \<open>float(v)\<close>; \<open>fstr\<close> is \<open>float\<close> of a string.\<close>

definition py_get :: "json \<Rightarrow> string \<Rightarrow> json res" where
  "py_get v k = (case v of JObj d \<Rightarrow> Inr (dget d k) | _ \<Rightarrow> Inl AttributeError)"

definition py_float :: "(string \<Rightarrow> pyfloat option) \<Rightarrow> json \<Rightarrow> pyfloat res" where
  "py_float fstr v = (case v of
     JStr s \<Rightarrow> (case fstr s of None \<Rightarrow> Inl ValueError | Some x \<Rightarrow> Inr x)
   | _ \<Rightarrow> to_float v)"

definition repair_fill ::
  "(string \<Rightarrow> pyfloat option) \<Rightarrow> (string \<Rightarrow> dt option) \<Rightarrow> dt \<Rightarrow> string option \<Rightarrow> json \<Rightarrow> json \<Rightarrow> json \<Rightarrow> fill res" where
  "repair_fill fstr fromiso boundary base side coid ev =
     rbind (rbind (jindex ev ''qty'') (py_float fstr)) (\<lambda>qty.
     rbind (rbind (jindex ev ''at'') (read_ts fromiso)) (\<lambda>stamp.
       Inr \<lparr>fi_boundary = boundary, fi_at = stamp, fi_base = base, fi_side = side, fi_qty = qty, fi_px = None, fi_fee = None,
            fi_liquidity = ''NO_LIQUIDITY_SIDE'', fi_trade = Repair coid (dget (obj_of ev) ''at''), fi_credited = Some qty\<rparr>))"

definition fee_of :: "(string \<Rightarrow> pyfloat option) \<Rightarrow> json \<Rightarrow> string \<Rightarrow> pyfloat option res" where
  "fee_of fstr ev liq =
     rbind (jindex ev ''fee'') (\<lambda>raw.
     rbind (if raw = JNull then Inr None else rbind (py_float fstr raw) (\<lambda>x. Inr (Some x))) (\<lambda>fee.
     rbind (case fee of None \<Rightarrow> Inr None
            | Some x \<Rightarrow> rbind (in_str_set (dget (obj_of ev) ''fee_currency'') EUR_CODES) (\<lambda>euro. Inr (if euro then Some x else None))) (\<lambda>fee.
       Inr (if liq \<in> set PRICEABLE_LIQUIDITY then fee else None))))"

definition venue_fill ::
  "(string \<Rightarrow> pyfloat option) \<Rightarrow> (string \<Rightarrow> dt option) \<Rightarrow> dt \<Rightarrow> string option \<Rightarrow> json \<Rightarrow> json \<Rightarrow> fill res" where
  "venue_fill fstr fromiso boundary base side ev =
     rbind (py_get ev ''liquidity'') (\<lambda>raw. rbind (in_str_set raw VENUE_LIQUIDITY) (\<lambda>known.
       if \<not> known then Inl (EngineError ''unlabelled liquidity side'')
       else let liq = text_of raw in
         rbind (fee_of fstr ev liq) (\<lambda>fee.
         rbind (rbind (jindex ev ''at'') (read_ts fromiso)) (\<lambda>stamp.
         rbind (rbind (jindex ev ''qty'') (py_float fstr)) (\<lambda>qty.
         rbind (rbind (jindex ev ''px'') (py_float fstr)) (\<lambda>px.
         rbind (jindex ev ''trade_id'') (\<lambda>trade.
         rbind (credited_qty fstr (obj_of ev)) (\<lambda>credited.
           Inr \<lparr>fi_boundary = boundary, fi_at = stamp, fi_base = base, fi_side = side, fi_qty = qty, fi_px = Some px,
                fi_fee = fee, fi_liquidity = liq, fi_trade = VenueTrade trade, fi_credited = Some credited\<rparr>))))))))"

definition event_fills ::
  "(string \<Rightarrow> pyfloat option) \<Rightarrow> (string \<Rightarrow> dt option) \<Rightarrow> dt \<Rightarrow> string option \<Rightarrow> json \<Rightarrow> json \<Rightarrow> json \<Rightarrow> fill list res" where
  "event_fills fstr fromiso boundary base side coid ev =
     rbind (py_get ev ''event'') (\<lambda>kind.
       if kind = JStr ''reconciled'' then rbind (repair_fill fstr fromiso boundary base side coid ev) (\<lambda>f. Inr [f])
       else if kind = JStr ''fill'' then rbind (venue_fill fstr fromiso boundary base side ev) (\<lambda>f. Inr [f])
       else Inr [])"

definition row_fills :: "(string \<Rightarrow> pyfloat option) \<Rightarrow> (string \<Rightarrow> dt option) \<Rightarrow> dt \<Rightarrow> json \<Rightarrow> fill list res" where
  "row_fills fstr fromiso boundary row =
     rbind (py_get row ''intent'') (\<lambda>intent0.
     let intent = (if truthy intent0 then intent0 else JObj []) in
     rbind (py_get intent ''symbol'') (\<lambda>symbol. rbind (in_str_set symbol BASKET) (\<lambda>known.
       if \<not> known then Inl (EngineError ''symbol is not in the basket'')
       else rbind (py_get intent ''side'') (\<lambda>side. rbind (in_str_set side FILL_SIDES) (\<lambda>signed.
         if \<not> signed then Inl (EngineError ''unsigned quantity'')
         else let base = (if is_eur_pair (text_of symbol) then Some (hd (split_slash (text_of symbol))) else None);
                  events = (if has_key (obj_of row) ''events'' then dget (obj_of row) ''events'' else JArr []) in
           rbind (iter_json events)
             (concat_res (event_fills fstr fromiso boundary base side (dget (obj_of row) ''client_order_id''))))))))"

definition extract_fills :: "(string \<Rightarrow> pyfloat option) \<Rightarrow> (string \<Rightarrow> dt option) \<Rightarrow> jdict list \<Rightarrow> fill list res" where
  "extract_fills fstr fromiso = concat_res (\<lambda>doc.
     rbind (boundary_of fromiso doc) (\<lambda>boundary. concat_res (row_fills fstr fromiso boundary) (rows_of doc)))"

section \<open>Drift\<close>

fun drift_eur :: "(string \<times> pyfloat) list \<Rightarrow> (string \<times> pyfloat) list \<Rightarrow> pyfloat \<Rightarrow> pyfloat \<Rightarrow> (string \<times> pyfloat) list \<Rightarrow> pyfloat res" where
  "drift_eur closes held nav acc [] = Inr acc"
| "drift_eur closes held nav acc ((a, weight) # final) =
     (case map_of closes a of
        None \<Rightarrow> Inl KeyError
      | Some close \<Rightarrow> rbind (fdiv (fmul weight nav) close) (\<lambda>target.
          let h = (case map_of held a of None \<Rightarrow> Fin 0 | Some q \<Rightarrow> q) in
          drift_eur closes held nav (fadd acc (fmul (fabs (fsub target h)) close)) final))"

definition drift_bps :: "(string \<times> pyfloat) list \<Rightarrow> (string \<times> pyfloat) list \<Rightarrow> (string \<times> pyfloat) list \<Rightarrow> pyfloat \<Rightarrow> pyfloat res" where
  "drift_bps final closes held nav =
     rbind (drift_eur closes held nav (Fin 0) final) (\<lambda>e. rbind (fdiv e nav) (\<lambda>r. Inr (fmul r (Fin 10000))))"

definition bad_nav :: "pyfloat \<Rightarrow> bool" where
  "bad_nav nav \<longleftrightarrow> \<not> isfinite nav \<or> fle nav (Fin 0)"

definition held_at :: "stage list \<Rightarrow> (int \<times> (string \<times> pyfloat) list option) list \<Rightarrow> int \<Rightarrow> (string \<times> pyfloat) list option" where
  "held_at ordered books t =
     (case map_of (rev books) t of Some b \<Rightarrow> b
      | None \<Rightarrow> (case map_of (rev (map (\<lambda>s. (instant (st_ts s), st_held s)) ordered)) t of Some b \<Rightarrow> b | None \<Rightarrow> None))"

text \<open>One cycle against the next boundary's book: nothing where no book was journaled.\<close>

definition stage_drift ::
  "stage list \<Rightarrow> (int \<times> (string \<times> pyfloat) list option) list \<Rightarrow> pyfloat \<Rightarrow> stage \<Rightarrow> (dt \<times> pyfloat) option res" where
  "stage_drift ordered books nav s =
     (case held_at ordered books (instant (st_ts s) + H4) of
        None \<Rightarrow> Inr None
      | Some held \<Rightarrow>
          if \<not> set (map fst (st_final s)) \<subseteq> set (map fst held) then Inl (EngineError ''the book carries no such leg'')
          else let cycle_nav = (case st_nav s of None \<Rightarrow> nav | Some n \<Rightarrow> n) in
            if bad_nav cycle_nav then Inl (EngineError ''NAV must be finite and positive'')
            else rbind (drift_bps (st_final s) (st_closes s) held cycle_nav) (\<lambda>bps. Inr (Some (st_ts s, bps))))"

definition realized_drift ::
  "stage list \<Rightarrow> pyfloat \<Rightarrow> (int \<times> (string \<times> pyfloat) list option) list \<Rightarrow> ((dt \<times> pyfloat) list \<times> dt list) res" where
  "realized_drift stages nav books =
     (if bad_nav nav then Inl (EngineError ''NAV must be finite and positive'')
      else let ordered = sort_key (\<lambda>s. instant (st_ts s)) stages in
        rbind (rmap (stage_drift ordered books nav) ordered) (\<lambda>rows.
          Inr (List.map_filter id rows,
               map (st_ts \<circ> fst) (filter (\<lambda>(s, row). row = None) (zip ordered rows)))))"

section \<open>The closed week\<close>

text \<open>What the trip knows: the two ledgers, the cycle records, the start of the series and the configured NAV and band.\<close>

datatype text_file = Missing | Unreadable | Contents string

record week_inputs =
  wk_fromiso :: "string \<Rightarrow> dt option"
  wk_fstr :: "string \<Rightarrow> pyfloat option"
  wk_strptime :: "string \<Rightarrow> dt option"
  wk_exec :: journal
  wk_accum :: journal
  wk_cycles :: journal
  wk_series :: text_file
  wk_nav :: pyfloat
  wk_band :: pyfloat

datatype week_verdict = Unscored string | WithinBand pyfloat | Breached pyfloat

definition shape_ok :: "string \<Rightarrow> string \<Rightarrow> bool" where
  "shape_ok pattern s \<longleftrightarrow>
     list_all2 (\<lambda>p c. if p = CHR ''d'' then CHR ''0'' \<le> c \<and> c \<le> CHR ''9'' else p = c) pattern s"

text \<open>\<open>\d{4}-\d{2}-\d{2}T\d{2}:\d{2}:\d{2}Z\n?\<close>; without the line's end it is what \<open>strip\<close> leaves.\<close>

definition line_of :: "string \<Rightarrow> string" where
  "line_of text = (if text \<noteq> [] \<and> last text = CHR 0x0A then butlast text else text)"

definition tracking_series_start :: "(string \<Rightarrow> dt option) \<Rightarrow> text_file \<Rightarrow> dt res" where
  "tracking_series_start strptime f =
     (case f of
        Missing \<Rightarrow> Inl (EngineError ''no series start is recorded'')
      | Unreadable \<Rightarrow> Inl (EngineError ''the series start could not be read'')
      | Contents text \<Rightarrow>
          (case (if shape_ok ''dddd-dd-ddTdd:dd:ddZ'' (line_of text) then strptime (line_of text) else None) of
             None \<Rightarrow> Inl (EngineError ''the series start is not one line'')
           | Some start \<Rightarrow>
               if wall start mod H4 \<noteq> 0 then Inl (EngineError ''the series start is not one line'') else Inr (utc (wall start))))"

definition undrafted :: "(string \<Rightarrow> dt option) \<Rightarrow> journal \<Rightarrow> dt \<Rightarrow> bool res" where
  "undrafted fromiso accum boundary =
     (case map_of accum (accum_record_path boundary) of
        None \<Rightarrow> Inr False
      | Some t \<Rightarrow> rbind (load_accum fromiso t) (\<lambda>doc. Inr (dget doc ''status'' \<noteq> JStr ''ok'')))"

definition week_end_of :: "dt \<Rightarrow> int" where
  "week_end_of boundary = (dt_day boundary - (dt_day boundary + 3) mod 7) * day_us"

definition week_start_of :: "dt \<Rightarrow> int" where
  "week_start_of boundary = week_end_of boundary - 7 * day_us"

definition expected :: "dt \<Rightarrow> int list" where
  "expected boundary = map (\<lambda>i. week_start_of boundary + H4 * int i) [0..<WEEK_BOUNDARIES]"

definition exec_at :: "(dt \<times> jdict) list \<Rightarrow> int \<Rightarrow> jdict option" where
  "exec_at docs t = map_of (rev (map (\<lambda>(b, doc). (instant b, doc)) docs)) t"

definition held_back :: "week_inputs \<Rightarrow> (dt \<times> jdict) list \<Rightarrow> int \<Rightarrow> bool res" where
  "held_back k docs t =
     (case exec_at docs t of
        None \<Rightarrow> Inl KeyError
      | Some doc \<Rightarrow> if dget doc ''level'' \<noteq> JStr (level_name FULL) then Inr True
                   else undrafted (wk_fromiso k) (wk_accum k) (utc t))"

text \<open>The boundary of the first fill of a model leg since the series' start.\<close>

definition first_fill :: "dt \<Rightarrow> fill list \<Rightarrow> dt option res" where
  "first_fill start fills =
     rbind (rmap (\<lambda>f. rbind (dt_le start (fi_boundary f)) (\<lambda>ok. Inr (ok, fi_boundary f)))
             (filter (\<lambda>f. fi_base f \<noteq> None) fills)) (\<lambda>marks.
       let since = map snd (filter fst marks) in
       Inr (if since = [] then None else Some (hd (sort_key instant since))))"

text \<open>The tail of the scoring: the mean of the week's drifts against the band.\<close>

definition score_stages :: "week_inputs \<Rightarrow> cycle_record list \<Rightarrow> int \<Rightarrow> cycle_record \<Rightarrow> week_verdict res" where
  "score_stages k records week_end closing =
     rbind (rmap stage_of records) (\<lambda>stages.
     rbind (case cy_held closing of None \<Rightarrow> Inr None | Some h \<Rightarrow> rbind (named_floats h) (\<lambda>x. Inr (Some x))) (\<lambda>book.
     rbind (realized_drift stages (wk_nav k) [(week_end, book)]) (\<lambda>(rows, unscored).
     rbind (fdiv (fsum (map snd rows)) (Fin (of_nat (length rows)))) (\<lambda>mean.
       Inr (if fgt mean (wk_band k) then Breached mean else WithinBand mean)))))"

definition score_closed_week :: "week_inputs \<Rightarrow> dt \<Rightarrow> week_verdict res" where
  "score_closed_week k boundary =
     (let week_end = week_end_of boundary; week_start = week_start_of boundary; slots = expected boundary in
      rbind (exec_records_through (wk_exec k) (utc (week_end - H4))) (\<lambda>docs.
      rbind (cycle_records_through (wk_fromiso k) (wk_cycles k) (utc week_end)) (\<lambda>cycles.
      let week = filter (\<lambda>t. exec_at docs t \<noteq> None \<and> map_of cycles t \<noteq> None) slots in
      if length week < WEEK_BOUNDARIES then Inr (Unscored ''not every boundary of the week'')
      else rbind (rmap (held_back k docs) week) (\<lambda>held.
      if list_ex id held then Inr (Unscored ''boundaries below the full level or undrafted'')
      else case map_of cycles week_end of
        None \<Rightarrow> Inr (Unscored ''no book at the end of the week'')
      | Some closing \<Rightarrow>
          let records = map (\<lambda>t. the (map_of cycles t)) slots in
          if list_ex (\<lambda>r. cy_held r = None) (tl records @ [closing]) then Inr (Unscored ''a boundary journals no book'')
          else rbind (tracking_series_start (wk_strptime k) (wk_series k)) (\<lambda>start.
          if week_start \<le> instant start then Inr (Unscored ''the series starts in or after the week'')
          else rbind (extract_fills (wk_fstr k) (wk_fromiso k) (map snd (sort_key (instant \<circ> fst) docs))) (\<lambda>fills.
          rbind (first_fill start fills) (\<lambda>first. case first of
            None \<Rightarrow> Inr (Unscored ''no model-leg fill since the start'')
          | Some f \<Rightarrow>
              if week_start \<le> instant f then Inr (Unscored ''the first fill is in or after the week'')
              else score_stages k records week_end closing)))))))"

section \<open>What a breach rests on\<close>

lemma score_stages_breach:
  "score_stages k records e c = Inr (Breached mean) \<Longrightarrow> fgt mean (wk_band k)"
  by (auto simp: score_stages_def rbind_Inr_iff split: if_splits)

lemma filter_all: "length (filter p xs) = length xs \<Longrightarrow> x \<in> set xs \<Longrightarrow> p x"
  by (metis length_filter_less less_irrefl)

lemma held_back_False:
  assumes "held_back k docs t = Inr False"
  shows "\<exists>doc. exec_at docs t = Some doc \<and> dget doc ''level'' = JStr (level_name FULL) \<and>
    undrafted (wk_fromiso k) (wk_accum k) (utc t) = Inr False"
  using assms by (auto simp: held_back_def split: option.splits if_splits)

lemma undrafted_False:
  "undrafted fromiso accum b = Inr False \<Longrightarrow> map_of accum (accum_record_path b) = Some x \<Longrightarrow>
   \<exists>doc. load_accum fromiso x = Inr doc \<and> dget doc ''status'' = JStr ''ok''"
  by (auto simp: undrafted_def rbind_Inr_iff)

definition lived :: "week_inputs \<Rightarrow> (dt \<times> jdict) list \<Rightarrow> (int \<times> cycle_record) list \<Rightarrow> int \<Rightarrow> bool" where
  "lived k docs cycles t \<longleftrightarrow>
     (\<exists>doc. exec_at docs t = Some doc \<and> dget doc ''level'' = JStr (level_name FULL)) \<and>
     undrafted (wk_fromiso k) (wk_accum k) (utc t) = Inr False \<and> map_of cycles t \<noteq> None"

lemma breach_lived:
  assumes "score_closed_week k boundary = Inr (Breached mean)"
  obtains docs cycles where
    "exec_records_through (wk_exec k) (utc (week_end_of boundary - H4)) = Inr docs"
    "cycle_records_through (wk_fromiso k) (wk_cycles k) (utc (week_end_of boundary)) = Inr cycles"
    "\<And>t. t \<in> set (expected boundary) \<Longrightarrow> lived k docs cycles t"
    "\<exists>r. map_of cycles (week_end_of boundary) = Some r \<and> cy_held r \<noteq> None"
    "\<exists>start. tracking_series_start (wk_strptime k) (wk_series k) = Inr start \<and> instant start < week_start_of boundary"
    "fgt mean (wk_band k)"
proof -
  let ?slots = "expected boundary" and ?e = "week_end_of boundary"
  from assms obtain docs cycles where
    docs: "exec_records_through (wk_exec k) (utc (?e - H4)) = Inr docs" and
    cycles: "cycle_records_through (wk_fromiso k) (wk_cycles k) (utc ?e) = Inr cycles"
    by (auto simp: score_closed_week_def Let_def rbind_Inr_iff)
  let ?p = "\<lambda>t. exec_at docs t \<noteq> None \<and> map_of cycles t \<noteq> None"
  let ?week = "filter ?p ?slots"
  note body = assms [unfolded score_closed_week_def Let_def docs cycles rbind_simps]
  from body have full: "length ?week = WEEK_BOUNDARIES"
    using length_filter_le [of ?p ?slots] by (auto simp: expected_def split: if_splits)
  then have week: "?week = ?slots" using length_filter_less [of _ ?slots ?p] filter_id_conv
    by (metis (mono_tags, lifting) diff_zero expected_def length_map length_upt less_irrefl)
  note body = body [unfolded week]
  from body full obtain held where held: "rmap (held_back k docs) ?slots = Inr held" "\<not> list_ex id held"
    by (auto simp: week rbind_Inr_iff split: if_splits)
  have lived: "lived k docs cycles t" if t: "t \<in> set ?slots" for t
  proof -
    from rmap_mem' [OF held(1) t] obtain b where "b \<in> set held" "held_back k docs t = Inr b" by blast
    with held(2) have "held_back k docs t = Inr False" by (auto simp: list_ex_iff)
    from held_back_False [OF this] have "\<exists>doc. exec_at docs t = Some doc \<and> dget doc ''level'' = JStr (level_name FULL)"
      "undrafted (wk_fromiso k) (wk_accum k) (utc t) = Inr False" by auto
    moreover from t have "t \<in> set ?week" by (simp only: week)
    then have "?p t" by simp
    ultimately show ?thesis by (simp add: lived_def)
  qed
  have long: "\<not> length ?slots < WEEK_BOUNDARIES" using full by (simp only: week)
  note body = body [unfolded if_not_P [OF long] held(1) rbind_simps if_not_P [OF held(2)]]
  from body obtain r where r: "map_of cycles ?e = Some r" by (auto split: option.splits)
  note body = body [unfolded r option.case]
  from body have "cy_held r \<noteq> None" by (auto split: if_splits)
  moreover from body obtain start where "tracking_series_start (wk_strptime k) (wk_series k) = Inr start"
    "instant start < week_start_of boundary"
    by (auto simp: rbind_Inr_iff not_le split: if_splits)
  moreover from body have "fgt mean (wk_band k)"
    by (auto simp: rbind_Inr_iff dest: score_stages_breach split: if_splits option.splits)
  ultimately show thesis using that [OF docs cycles lived] r by blast
qed

text \<open>
  C11. The weekly trip never fires on a week that was not lived in full: one boundary without an exec record at the
  full level, without a cycle record, or whose draft record says it drafted nothing is enough, and so is a series that
  started no earlier than the week.
\<close>

theorem unlived_week_never_trips:
  assumes "exec_records_through (wk_exec k) (utc (week_end_of boundary - H4)) = Inr docs"
    and "cycle_records_through (wk_fromiso k) (wk_cycles k) (utc (week_end_of boundary)) = Inr cycles"
    and "(\<exists>t \<in> set (expected boundary). \<not> lived k docs cycles t) \<or>
      (\<exists>start. tracking_series_start (wk_strptime k) (wk_series k) = Inr start \<and> week_start_of boundary \<le> instant start)"
  shows "score_closed_week k boundary \<noteq> Inr (Breached mean)"
proof
  assume "score_closed_week k boundary = Inr (Breached mean)"
  then show False
    by (rule breach_lived) (use assms in auto)
qed

definition demo_week :: week_inputs where
  "demo_week = \<lparr>wk_fromiso = (\<lambda>_. None), wk_fstr = (\<lambda>_. None), wk_strptime = (\<lambda>_. None), wk_exec = [], wk_accum = [],
     wk_cycles = [], wk_series = Missing, wk_nav = Fin 800, wk_band = Fin 50\<rparr>"

lemma unlived_week_never_trips_witness:
  "score_closed_week demo_week (utc 0) \<noteq> Inr (Breached (Fin 60))"
proof (rule unlived_week_never_trips)
  show "exec_records_through (wk_exec demo_week) (utc (week_end_of (utc 0) - H4)) = Inr []"
    by (simp add: demo_week_def exec_records_through_def)
  show "cycle_records_through (wk_fromiso demo_week) (wk_cycles demo_week) (utc (week_end_of (utc 0))) = Inr []"
    by (simp add: demo_week_def cycle_records_through_def concat_res_def)
  show "(\<exists>t \<in> set (expected (utc 0)). \<not> lived demo_week [] [] t) \<or>
      (\<exists>start. tracking_series_start (wk_strptime demo_week) (wk_series demo_week) = Inr start \<and>
        week_start_of (utc 0) \<le> instant start)"
    by (rule disjI1, rule bexI [of _ "week_start_of (utc 0)"])
      (simp_all add: lived_def exec_at_def expected_def WEEK_BOUNDARIES_def upt_rec)
qed

end
