(* ===== verification/DraftLegs.thy ===== *)
theory DraftLegs imports PyRound ProbePlan "HOL-Library.Multiset"
begin

text \<open>
  \<open>cli/engine/draftplan.py\<close>, the table: what each leg is to be ordered, the trims to the cash and to the plan's
  cap, the assembly of plans and their document. The formatted numbers in a leg's reason are left out.
\<close>

section \<open>Data\<close>

definition EUR_PER_WEIGHT :: pyfloat where "EUR_PER_WEIGHT = Fin 720"
definition BUY_ORDERMIN_HEADROOM :: pyfloat where "BUY_ORDERMIN_HEADROOM = fround (105 / 100)"
definition MIN_BUY_EUR :: pyfloat where "MIN_BUY_EUR = Fin (1 / 2)"
definition CASH_RESERVE_EUR :: pyfloat where "CASH_RESERVE_EUR = Fin 5"
definition PLAN_CAP_EUR :: pyfloat where "PLAN_CAP_EUR = Fin 95"
definition MAX_INTENTS :: nat where "MAX_INTENTS = 3"
definition CENT :: pyfloat where "CENT = fround (1 / 100)"

record leg_limits =
  lk_ordermin :: pyfloat
  lk_lot_step :: pyfloat

datatype leg_outcome = Placed | Queued | Carried | OnTarget

record leg_decision =
  ld_symbol :: string
  ld_weight :: pyfloat
  ld_target :: pyfloat
  ld_held :: pyfloat
  ld_engine :: "pyfloat option"
  ld_venue_b :: pyfloat
  ld_price :: pyfloat
  ld_ordermin :: pyfloat
  ld_lot_step :: pyfloat
  ld_delta :: pyfloat
  ld_outcome :: leg_outcome
  ld_side :: "string option"
  ld_qty :: "pyfloat option"
  ld_notional :: "pyfloat option"
  ld_reason :: string

text \<open>The property \<open>eur\<close>; an amount that is not set raises where the code first computes with it.\<close>

definition leg_eur :: "leg_decision \<Rightarrow> pyfloat res" where
  "leg_eur d =
     (if ld_side d = Some ''buy'' then (case ld_notional d of Some n \<Rightarrow> Inr n | None \<Rightarrow> Inl TypeError)
      else (case ld_qty d of Some q \<Rightarrow> Inr (fmul q (ld_price d)) | None \<Rightarrow> Inl TypeError))"

definition buy_floor :: "leg_decision \<Rightarrow> pyfloat" where
  "buy_floor d = fmax (fmul (fmul BUY_ORDERMIN_HEADROOM (ld_ordermin d)) (ld_price d)) MIN_BUY_EUR"

section \<open>One leg\<close>

text \<open>What is left of a sell that the venue's own balance caps, for the reason alone.\<close>

definition cap_reason :: "bool \<Rightarrow> pyfloat \<Rightarrow> pyfloat \<Rightarrow> string" where
  "cap_reason whole left ordermin =
     ''capped at the venue record's b, under the sell qty; '' @
     (if flt left ordermin then
        (if whole then ''the remaining is under ordermin: dust''
         else ''the remaining of the sell is under ordermin and is not drafted'')
      else ''the remaining carries to a later draft'')"

definition decide_sell :: "leg_decision \<Rightarrow> bool \<Rightarrow> leg_decision res" where
  "decide_sell leg exiting =
     (let om = ld_ordermin leg; step = ld_lot_step leg; held = ld_held leg; b = ld_venue_b leg in
      rbind (fdiv (ld_target leg) (ld_price leg)) (\<lambda>keep.
      rbind (floor_to_step (fsub held keep) step) (\<lambda>qty0.
      if flt qty0 om then Inr (leg\<lparr>ld_side := Some ''sell'', ld_reason := ''sell is under ordermin''\<rparr>)
      else let whole = flt (fsub held qty0) om in
        rbind (if whole then floor_to_step held step else Inr qty0) (\<lambda>qty.
        let reason = (if \<not> whole then [] else if exiting then ''the whole leg''
                      else ''the whole leg: the remainder would be under ordermin'') in
        if flt (Fin 0) b \<and> flt b qty then
          rbind (floor_to_step b step) (\<lambda>capped.
            if flt capped om then
              Inr (leg\<lparr>ld_side := Some ''sell'', ld_reason := ''the leg cannot be sold through the engine''\<rparr>)
            else rbind (dec_minus qty capped) (\<lambda>left.
              Inr (leg\<lparr>ld_outcome := Placed, ld_side := Some ''sell'', ld_qty := Some capped,
                       ld_reason := cap_reason whole left om\<rparr>)))
        else Inr (leg\<lparr>ld_outcome := Placed, ld_side := Some ''sell'', ld_qty := Some qty, ld_reason := reason\<rparr>)))))"

definition decide_buy :: "leg_decision \<Rightarrow> leg_decision res" where
  "decide_buy leg =
     (if flt (ld_delta leg) (buy_floor leg) then
        Inr (leg\<lparr>ld_side := Some ''buy'', ld_reason := ''buy is under the buy floor''\<rparr>)
      else rbind (round_to 9 (ld_delta leg)) (\<lambda>d. rbind (floor_to_step d CENT) (\<lambda>n.
        Inr (leg\<lparr>ld_outcome := Placed, ld_side := Some ''buy'', ld_notional := Some n\<rparr>))))"

definition decide_leg ::
  "string \<Rightarrow> pyfloat \<Rightarrow> pyfloat \<Rightarrow> leg_limits \<Rightarrow> pyfloat \<Rightarrow> pyfloat option \<Rightarrow> pyfloat \<Rightarrow> bool \<Rightarrow> pyfloat \<Rightarrow> leg_decision res" where
  "decide_leg symbol weight price limits kraken_held engine_held venue_b exiting eur_per_weight =
     (let target = (if exiting then Fin 0 else fmul eur_per_weight (fmax weight (Fin 0)));
          delta = fsub target (fmul kraken_held price);
          leg = \<lparr>ld_symbol = symbol, ld_weight = weight, ld_target = target, ld_held = kraken_held,
                 ld_engine = engine_held, ld_venue_b = venue_b, ld_price = price,
                 ld_ordermin = lk_ordermin limits, ld_lot_step = lk_lot_step limits, ld_delta = delta,
                 ld_outcome = Carried, ld_side = None, ld_qty = None, ld_notional = None, ld_reason = []\<rparr>
      in if feq delta (Fin 0) then Inr (leg\<lparr>ld_outcome := OnTarget, ld_reason := ''target equals held''\<rparr>)
         else if flt (Fin 0) delta then decide_buy leg
         else decide_sell leg exiting)"

section \<open>Trims\<close>

definition is_placed :: "leg_decision \<Rightarrow> bool" where
  "is_placed d \<longleftrightarrow> ld_outcome d = Placed"

definition placed_on :: "string \<Rightarrow> leg_decision \<Rightarrow> bool" where
  "placed_on side d \<longleftrightarrow> is_placed d \<and> ld_side d = Some side"

text \<open>A sort by an amount each leg must have, then by symbol.\<close>

definition with_amount :: "(leg_decision \<Rightarrow> pyfloat res) \<Rightarrow> leg_decision list \<Rightarrow> (pyfloat \<times> leg_decision) list res" where
  "with_amount f ds = rmap (\<lambda>d. rbind (f d) (\<lambda>x. Inr (x, d))) ds"

definition ascending :: "(pyfloat \<times> leg_decision) list \<Rightarrow> (pyfloat \<times> leg_decision) list" where
  "ascending = sort_key (\<lambda>(x, d). (frank x, ld_symbol d))"

definition notional_of :: "leg_decision \<Rightarrow> pyfloat res" where
  "notional_of d = (case ld_notional d of Some n \<Rightarrow> Inr n | None \<Rightarrow> Inl TypeError)"

definition cents_of :: "pyfloat \<Rightarrow> int res" where
  "cents_of x = py_round (fmul x (Fin 100))"

definition cash_budget :: "pyfloat \<Rightarrow> pyfloat \<Rightarrow> int res" where
  "cash_budget free_eur cash_reserve_eur =
     (if fgt free_eur cash_reserve_eur then
        rbind (round_to 9 (fsub free_eur cash_reserve_eur)) (\<lambda>x. rbind (floor_to_step x CENT) cents_of)
      else Inr 0)"

text \<open>The loop over the buys, smallest first, while their cents exceed the budget.\<close>

fun trim_buys :: "int \<Rightarrow> (pyfloat \<times> leg_decision) list \<Rightarrow> (string \<times> leg_decision) list res" where
  "trim_buys excess [] = Inr []"
| "trim_buys excess ((n, leg) # buys) =
     (if excess \<le> 0 then Inr []
      else rbind (cents_of n) (\<lambda>cents.
        rbind (int_div (cents - excess) 100) (\<lambda>kept.
        if fge kept (buy_floor leg) then
          rbind (trim_buys 0 buys) (\<lambda>rest.
            Inr ((ld_symbol leg, leg\<lparr>ld_notional := Some kept, ld_reason := ''trimmed to free EUR; the rest carries''\<rparr>) # rest))
        else
          rbind (trim_buys (excess - cents) buys) (\<lambda>rest.
            Inr ((ld_symbol leg, leg\<lparr>ld_outcome := Carried, ld_notional := None,
                  ld_reason := ''buys beyond free EUR trim from the smallest''\<rparr>) # rest)))))"

text \<open>\<open>[trimmed.get(d.symbol, d) for d in decisions]\<close>: a later entry of the dictionary replaces an earlier one.\<close>

definition replaced_by :: "(string \<times> leg_decision) list \<Rightarrow> leg_decision \<Rightarrow> leg_decision" where
  "replaced_by trimmed d = (case map_of (rev trimmed) (ld_symbol d) of None \<Rightarrow> d | Some d' \<Rightarrow> d')"

definition trim_buys_to_cash :: "leg_decision list \<Rightarrow> pyfloat \<Rightarrow> pyfloat \<Rightarrow> leg_decision list res" where
  "trim_buys_to_cash decisions free_eur cash_reserve_eur =
     rbind (cash_budget free_eur cash_reserve_eur) (\<lambda>budget.
     rbind (with_amount notional_of (filter (placed_on ''buy'') decisions)) (\<lambda>buys0.
     let buys = ascending buys0 in
     rbind (rmap (\<lambda>(n, d). cents_of n) buys) (\<lambda>cents.
     rbind (trim_buys (sum_list cents - budget) buys) (\<lambda>trimmed.
       Inr (map (replaced_by trimmed) decisions)))))"

text \<open>\<open>while xs and sum(pre + xs) > cap: xs.pop(0)\<close>\<close>

fun shed :: "pyfloat \<Rightarrow> (pyfloat \<times> leg_decision) list \<Rightarrow> (pyfloat \<times> leg_decision) list \<Rightarrow> (pyfloat \<times> leg_decision) list" where
  "shed cap pre [] = []"
| "shed cap pre (x # xs) = (if fgt (fsum (map fst (pre @ x # xs))) cap then shed cap pre xs else x # xs)"

definition carry :: "string \<Rightarrow> leg_decision \<Rightarrow> leg_decision" where
  "carry reason d = d\<lparr>ld_outcome := Carried, ld_qty := None, ld_notional := None, ld_reason := reason\<rparr>"

definition trim_to_plan_cap :: "leg_decision list \<Rightarrow> pyfloat \<Rightarrow> leg_decision list res" where
  "trim_to_plan_cap decisions cap_eur =
     rbind (with_amount leg_eur (filter (placed_on ''sell'') decisions)) (\<lambda>sells0.
     rbind (with_amount leg_eur (filter (placed_on ''buy'') decisions)) (\<lambda>buys0.
     let sells = shed cap_eur [] (ascending sells0);
         buys = shed cap_eur sells (ascending buys0);
         kept = set (map (ld_symbol \<circ> snd) (sells @ buys))
     in Inr (map (\<lambda>d. if is_placed d \<and> ld_symbol d \<notin> kept
                      then carry ''over the plan cap; carries to the next boundary'' d else d) decisions)))"

section \<open>Plans\<close>

definition plan_order :: "(pyfloat \<times> leg_decision) list \<Rightarrow> (pyfloat \<times> leg_decision) list" where
  "plan_order = sort_key (\<lambda>(e, d). (ld_side d \<noteq> Some ''sell'', frank (fneg e), ld_symbol d))"

text \<open>The loop: \<open>plans\<close> with the last one first, and its running total.\<close>

fun pack :: "nat option \<Rightarrow> pyfloat option \<Rightarrow> leg_decision list list \<Rightarrow> pyfloat \<Rightarrow> (pyfloat \<times> leg_decision) list
    \<Rightarrow> leg_decision list list res" where
  "pack max_intents cap plans sofar [] = Inr (rev plans)"
| "pack max_intents cap plans sofar ((e, leg) # ordered) =
     (if (case cap of None \<Rightarrow> False | Some c \<Rightarrow> fgt e c)
      then Inl (DraftPlanError ''over the plan cap on its own'')
      else case plans of
             [] \<Rightarrow> pack max_intents cap [[leg]] (fadd (Fin 0) e) ordered
           | p # ps \<Rightarrow>
               if (case max_intents of None \<Rightarrow> False | Some m \<Rightarrow> length p = m) \<or>
                  (case cap of None \<Rightarrow> False | Some c \<Rightarrow> fgt (fadd sofar e) c)
               then pack max_intents cap ([leg] # p # ps) (fadd (Fin 0) e) ordered
               else pack max_intents cap ((p @ [leg]) # ps) (fadd sofar e) ordered)"

definition assemble_plans :: "leg_decision list \<Rightarrow> nat option \<Rightarrow> pyfloat option \<Rightarrow> leg_decision list list res" where
  "assemble_plans decisions max_intents cap =
     rbind (with_amount leg_eur (filter is_placed decisions)) (\<lambda>placed.
       pack max_intents cap [] (Fin 0) (plan_order placed))"

definition queue_later_plans :: "leg_decision list \<Rightarrow> leg_decision list list \<Rightarrow> string \<Rightarrow> leg_decision list" where
  "queue_later_plans decisions plans plan_id =
     (let later = set (map ld_symbol (concat (tl plans))); note = ''behind '' @ plan_id in
      map (\<lambda>d. if ld_symbol d \<in> later
               then d\<lparr>ld_outcome := Queued, ld_reason := (if ld_reason d = [] then note else ld_reason d @ ''; '' @ note)\<rparr>
               else d) decisions)"

definition opt_num :: "pyfloat option \<Rightarrow> json" where
  "opt_num x = (case x of None \<Rightarrow> JNull | Some v \<Rightarrow> JFloat v)"

definition leg_document :: "leg_decision \<Rightarrow> json" where
  "leg_document leg =
     (if ld_side leg = Some ''sell'' then
        JObj [(''symbol'', JStr (ld_symbol leg)), (''side'', JStr ''sell''), (''action'', JStr ''close''),
              (''mode'', JStr ''execute''), (''qty'', opt_num (ld_qty leg))]
      else
        JObj [(''symbol'', JStr (ld_symbol leg)), (''side'', JStr ''buy''), (''action'', JStr ''open''),
              (''mode'', JStr ''execute''), (''notional_eur'', opt_num (ld_notional leg))])"

definition plan_document :: "string \<Rightarrow> string \<Rightarrow> leg_decision list \<Rightarrow> jdict" where
  "plan_document plan_id created_at legs =
     [(''plan_id'', JStr plan_id), (''created_at'', JStr created_at), (''intents'', JArr (map leg_document legs))]"

section \<open>The amounts of a list of legs\<close>

lemma with_amount_Inr:
  assumes "with_amount f ds = Inr ps"
  shows "map snd ps = ds" "\<And>x d. (x, d) \<in> set ps \<Longrightarrow> f d = Inr x"
  using assms unfolding with_amount_def
  by (induction ds arbitrary: ps) (auto simp: rbind_Inr_iff)

lemma ascending_set [simp]: "set (ascending ps) = set ps" "mset (ascending ps) = mset ps"
  by (simp_all add: ascending_def)

lemma ascending_symbols:
  assumes "with_amount f (filter p ds) = Inr ps" and "distinct (map ld_symbol ds)"
  shows "distinct (map (ld_symbol \<circ> snd) (ascending ps))"
proof -
  have "mset (map (ld_symbol \<circ> snd) (ascending ps)) = mset (map ld_symbol (filter p ds))"
    unfolding with_amount_Inr(1) [OF assms(1), symmetric] by simp
  moreover have "distinct (map ld_symbol (filter p ds))" using assms(2) by (simp add: distinct_map_filter)
  ultimately show ?thesis by (metis mset_eq_imp_distinct_iff)
qed

section \<open>The trim to the cash\<close>

text \<open>The cents a placed buy costs, and what an entry of the trim leaves of them.\<close>

definition buy_cents :: "leg_decision \<Rightarrow> int res" where
  "buy_cents d = rbind (notional_of d) cents_of"

definition cents_left :: "leg_decision \<Rightarrow> int" where
  "cents_left d = (if placed_on ''buy'' d then (case buy_cents d of Inr k \<Rightarrow> k | Inl _ \<Rightarrow> 0) else 0)"

definition small :: "pyfloat \<Rightarrow> bool" where
  "small n \<longleftrightarrow> (\<forall>k. cents_of n = Inr k \<longrightarrow> k < 2 ^ 50)"

lemma buy_floor_pos:
  assumes "fge x (buy_floor d)" and "x = Fin r"
  shows "0 < r"
  using assms by (cases "fmul (fmul BUY_ORDERMIN_HEADROOM (ld_ordermin d)) (ld_price d)")
    (auto simp: buy_floor_def fmax_def MIN_BUY_EUR_def fle_def feq_def split: if_splits)

lemma kept_cents:
  assumes "int_div m 100 = Inr kept" and "fge kept (buy_floor d)" and "m < 2 ^ 50"
  shows "cents_of kept = Inr m"
proof -
  obtain r where r: "fround (of_int m / 100) = Fin r" "kept = Fin r"
    using assms(1) by (auto simp: int_div_def split: pyfloat.splits if_splits)
  have "0 < r" by (rule buy_floor_pos [OF assms(2) r(2)])
  have "0 \<le> m"
  proof (rule ccontr)
    assume "\<not> 0 \<le> m"
    then have "(of_int m :: rat) / 100 \<le> 0" by simp
    from fround_mono [OF this] r \<open>0 < r\<close> show False by simp
  qed
  from cents_read_back [OF this assms(3)] r show ?thesis by (auto simp: int_div_def cents_of_def)
qed

lemma trim_buys_none: "excess \<le> 0 \<Longrightarrow> trim_buys excess bs = Inr []"
  by (cases bs) auto

lemma placed_cents:
  "rmap (\<lambda>(n, d). cents_of n) bs = Inr cs \<Longrightarrow> \<forall>(n, d) \<in> set bs. ld_notional d = Some n \<and> placed_on ''buy'' d \<Longrightarrow>
   (\<Sum>(n, d) \<leftarrow> bs. cents_left d) = sum_list cs"
  by (induction bs arbitrary: cs) (auto simp: rbind_Inr_iff cents_left_def buy_cents_def notional_of_def)

lemma trim_buys_keys:
  "trim_buys excess bs = Inr tr \<Longrightarrow> \<exists>k. map fst tr = take k (map (ld_symbol \<circ> snd) bs)"
proof (induction excess bs arbitrary: tr rule: trim_buys.induct)
  case (2 excess n leg bs)
  show ?case
  proof (cases "excess \<le> 0")
    case True
    with "2.prems" show ?thesis by (intro exI [of _ 0]) simp
  next
    case False
    with "2.prems" obtain c kept where c: "cents_of n = Inr c" "int_div (c - excess) 100 = Inr kept"
      by (auto simp: rbind_Inr_iff)
    obtain x e tr' where rest: "trim_buys e bs = Inr tr'" "tr = (ld_symbol leg, x) # tr'"
      "\<exists>k. map fst tr' = take k (map (ld_symbol \<circ> snd) bs)"
    proof (cases "fge kept (buy_floor leg)")
      case True
      then show ?thesis using that [of 0] "2.prems" False c by (auto simp: rbind_Inr_iff trim_buys_none)
    next
      case no: False
      with "2.prems" False c obtain tr' where "trim_buys (excess - c) bs = Inr tr'" "\<exists>x. tr = (ld_symbol leg, x) # tr'"
        by (auto simp: rbind_Inr_iff)
      with that "2.IH"(2) [OF False no] show ?thesis by blast
    qed
    then obtain k where "map fst tr' = take k (map (ld_symbol \<circ> snd) bs)" by blast
    then show ?thesis using rest(2) by (intro exI [of _ "Suc k"]) (simp add: comp_def)
  qed
qed simp

text \<open>The leg that stands for \<open>d\<close> after the trim.\<close>

definition after_trim :: "(string \<times> leg_decision) list \<Rightarrow> leg_decision \<Rightarrow> leg_decision" where
  "after_trim tr d = (case map_of tr (ld_symbol d) of None \<Rightarrow> d | Some d' \<Rightarrow> d')"

lemma after_trim_other: "ld_symbol d \<noteq> k \<Longrightarrow> after_trim ((k, x) # tr) d = after_trim tr d"
  by (simp add: after_trim_def)

lemma trim_buys_cents:
  assumes "trim_buys excess bs = Inr tr" and "rmap (\<lambda>(n, d). cents_of n) bs = Inr cs"
    and "distinct (map (ld_symbol \<circ> snd) bs)"
    and "\<forall>(n, d) \<in> set bs. ld_notional d = Some n \<and> placed_on ''buy'' d \<and> small n"
  shows "(\<Sum>(n, d) \<leftarrow> bs. cents_left (after_trim tr d)) \<le> max 0 (sum_list cs - excess)"
  using assms
proof (induction excess bs arbitrary: tr cs rule: trim_buys.induct)
  case (2 excess n leg bs)
  from "2.prems"(2) obtain c cs' where c: "cents_of n = Inr c" "rmap (\<lambda>(n, d). cents_of n) bs = Inr cs'" "cs = c # cs'"
    by (auto simp: rbind_Inr_iff)
  have leg: "ld_notional leg = Some n" "placed_on ''buy'' leg" "small n" using "2.prems"(4) by auto
  then have cl: "cents_left leg = c" by (simp add: cents_left_def buy_cents_def notional_of_def c)
  have rest: "(\<Sum>(n, d) \<leftarrow> bs. cents_left d) = sum_list cs'" by (rule placed_cents [OF c(2)]) (use "2.prems"(4) in auto)
  have other: "(\<Sum>(n, d) \<leftarrow> bs. cents_left (after_trim ((ld_symbol leg, x) # tr') d)) = (\<Sum>(n, d) \<leftarrow> bs. cents_left (after_trim tr' d))"
    for x tr'
  proof -
    have "ld_symbol (snd y) \<noteq> ld_symbol leg" if "y \<in> set bs" for y using "2.prems"(3) that by force
    then show ?thesis by (intro arg_cong [where f = sum_list] map_cong) (auto simp: after_trim_other split_beta)
  qed
  have self: "after_trim ((ld_symbol leg, x) # tr') leg = x" for x tr' by (simp add: after_trim_def)
  show ?case
  proof (cases "excess \<le> 0")
    case True
    then show ?thesis using "2.prems"(1) cl rest c(3) by (simp add: after_trim_def)
  next
    case False
    from "2.prems"(1) False c(1) obtain kept where kept: "int_div (c - excess) 100 = Inr kept" by (auto simp: rbind_Inr_iff)
    show ?thesis
    proof (cases "fge kept (buy_floor leg)")
      case True
      have "c - excess < 2 ^ 50" using leg(3) c(1) False by (simp add: small_def)
      from kept_cents [OF kept True this] have "cents_of kept = Inr (c - excess)" .
      then have "cents_left (leg\<lparr>ld_notional := Some kept, ld_reason := ''trimmed to free EUR; the rest carries''\<rparr>) = c - excess"
        using leg(2) by (simp add: cents_left_def buy_cents_def notional_of_def placed_on_def is_placed_def)
      moreover have "tr = [(ld_symbol leg, leg\<lparr>ld_notional := Some kept, ld_reason := ''trimmed to free EUR; the rest carries''\<rparr>)]"
        using "2.prems"(1) False c(1) kept True by (simp add: trim_buys_none)
      moreover have "after_trim [] = (\<lambda>d. d)" by (simp add: after_trim_def fun_eq_iff)
      ultimately show ?thesis using other [of _ "[]"] rest c(3) self by simp
    next
      case no: False
      then obtain tr' where tr': "trim_buys (excess - c) bs = Inr tr'"
        "tr = (ld_symbol leg, leg\<lparr>ld_outcome := Carried, ld_notional := None,
                  ld_reason := ''buys beyond free EUR trim from the smallest''\<rparr>) # tr'"
        using "2.prems"(1) False c(1) kept by (auto simp: rbind_Inr_iff)
      have "(\<Sum>(n, d) \<leftarrow> bs. cents_left (after_trim tr' d)) \<le> max 0 (sum_list cs' - (excess - c))"
        using "2.IH"(2) [OF False no tr'(1) c(2)] "2.prems"(3,4) by simp
      moreover have "cents_left (leg\<lparr>ld_outcome := Carried, ld_notional := None,
                  ld_reason := ''buys beyond free EUR trim from the smallest''\<rparr>) = 0"
        by (simp add: cents_left_def placed_on_def is_placed_def)
      ultimately show ?thesis using other c(3) tr'(2) self by simp
    qed
  qed
qed simp

text \<open>What the trim leaves of a leg: the leg, the leg with fewer whole cents, no lower than its floor, or the leg carried.\<close>

definition cut_of :: "leg_decision \<Rightarrow> leg_decision \<Rightarrow> bool" where
  "cut_of d d' \<longleftrightarrow>
     (\<exists>n c k r. ld_notional d = Some n \<and> cents_of n = Inr c \<and> k < c \<and> int_div k 100 = Inr r \<and> fge r (buy_floor d) \<and>
        d' = d\<lparr>ld_notional := Some r, ld_reason := ''trimmed to free EUR; the rest carries''\<rparr>) \<or>
     d' = d\<lparr>ld_outcome := Carried, ld_notional := None, ld_reason := ''buys beyond free EUR trim from the smallest''\<rparr>"

lemma trim_buys_cuts:
  "trim_buys excess bs = Inr tr \<Longrightarrow> (k, d') \<in> set tr \<Longrightarrow> \<forall>(n, d) \<in> set bs. ld_notional d = Some n \<Longrightarrow>
   \<exists>(n, d) \<in> set bs. ld_symbol d = k \<and> cut_of d d'"
proof (induction excess bs arbitrary: tr rule: trim_buys.induct)
  case (2 excess n leg bs)
  show ?case
  proof (cases "excess \<le> 0")
    case True
    with "2.prems" show ?thesis by simp
  next
    case False
    with "2.prems"(1) obtain c kept where c: "cents_of n = Inr c" "int_div (c - excess) 100 = Inr kept"
      by (auto simp: rbind_Inr_iff)
    show ?thesis
    proof (cases "fge kept (buy_floor leg)")
      case True
      have "cut_of leg (leg\<lparr>ld_notional := Some kept, ld_reason := ''trimmed to free EUR; the rest carries''\<rparr>)"
        unfolding cut_of_def using "2.prems"(3) False c True
        by (intro disjI1 exI [of _ n] exI [of _ c] exI [of _ "c - excess"] exI [of _ kept]) simp
      then show ?thesis using "2.prems" False c True by (auto simp: trim_buys_none)
    next
      case no: False
      with "2.prems" False c obtain tr' where tr': "trim_buys (excess - c) bs = Inr tr'"
        "tr = (ld_symbol leg, leg\<lparr>ld_outcome := Carried, ld_notional := None,
                ld_reason := ''buys beyond free EUR trim from the smallest''\<rparr>) # tr'"
        by (auto simp: rbind_Inr_iff)
      then consider "k = ld_symbol leg" "cut_of leg d'" | "(k, d') \<in> set tr'" using "2.prems"(2) by (auto simp: cut_of_def)
      then show ?thesis
      proof cases
        case 2
        from "2.IH"(2) [OF False no tr'(1) 2] "2.prems"(3) show ?thesis by auto
      qed auto
    qed
  qed
qed simp

lemma replaced_by_after: "distinct (map fst tr) \<Longrightarrow> replaced_by tr d = after_trim tr d"
proof -
  assume d: "distinct (map fst tr)"
  then have "map_of (rev tr) = map_of tr" by (subst map_of_inject_set) (simp_all add: rev_map [symmetric])
  then show ?thesis by (simp add: replaced_by_def after_trim_def)
qed

lemma trimmed_distinct:
  assumes "trim_buys excess bs = Inr tr" and "distinct (map (ld_symbol \<circ> snd) bs)"
  shows "distinct (map fst tr)"
proof -
  from trim_buys_keys [OF assms(1)] obtain k where "map fst tr = take k (map (ld_symbol \<circ> snd) bs)" by blast
  then show ?thesis using assms(2) by (metis distinct_take)
qed

lemma cut_of_cents:
  assumes "cut_of d d'" and "placed_on ''buy'' d'" and "\<forall>n. ld_notional d = Some n \<longrightarrow> small n"
  shows "\<exists>k. buy_cents d' = Inr k"
proof -
  from assms(1,2) obtain n c k r where k: "ld_notional d = Some n" "cents_of n = Inr c" "k < c" "int_div k 100 = Inr r"
    "fge r (buy_floor d)" "ld_notional d' = Some r"
    by (auto simp: cut_of_def placed_on_def is_placed_def)
  have "k < 2 ^ 50" using assms(3) k(1-3) by (auto simp: small_def)
  from kept_cents [OF k(4,5) this] show ?thesis using k(6) by (simp add: buy_cents_def notional_of_def)
qed

lemma sum_list_filter_zero: "(\<And>x. x \<in> set xs \<Longrightarrow> \<not> p x \<Longrightarrow> f x = (0 :: int)) \<Longrightarrow> (\<Sum>x \<leftarrow> xs. f x) = (\<Sum>x \<leftarrow> filter p xs. f x)"
  by (induction xs) auto

lemma rmap_sum:
  assumes "\<And>d. d \<in> set ds \<Longrightarrow> placed_on ''buy'' d \<and> (\<exists>k. buy_cents d = Inr k)"
  shows "\<exists>cs. rmap buy_cents ds = Inr cs \<and> sum_list cs = (\<Sum>d \<leftarrow> ds. cents_left d)"
  using assms by (induction ds) (fastforce simp: cents_left_def)+


section \<open>The trim to the plan's cap\<close>

lemma shed_drops:
  "\<exists>k. shed cap pre xs = drop k xs \<and> (drop k xs = [] \<or> \<not> fgt (fsum (map fst (pre @ drop k xs))) cap) \<and>
       (\<forall>j < k. fgt (fsum (map fst (pre @ drop j xs))) cap)"
proof (induction xs)
  case (Cons x xs)
  show ?case
  proof (cases "fgt (fsum (map fst (pre @ x # xs))) cap")
    case True
    from Cons.IH obtain k where k: "shed cap pre xs = drop k xs"
      "drop k xs = [] \<or> \<not> fgt (fsum (map fst (pre @ drop k xs))) cap"
      "\<forall>j < k. fgt (fsum (map fst (pre @ drop j xs))) cap" by blast
    have "fgt (fsum (map fst (pre @ drop j (x # xs)))) cap" if "j < Suc k" for j
      using that True k(3) by (cases j) simp_all
    then show ?thesis using True k(1,2) by (intro exI [of _ "Suc k"]) simp
  qed (auto intro!: exI [of _ 0])
qed auto

lemma with_amount_symbols:
  assumes "with_amount f (filter p ds) = Inr ps" and "distinct (map ld_symbol ds)" and "d \<in> set ds"
    and "set xs \<subseteq> set ps"
  shows "ld_symbol d \<in> set (map (ld_symbol \<circ> snd) xs) \<longleftrightarrow> d \<in> set (map snd xs)"
proof
  assume "ld_symbol d \<in> set (map (ld_symbol \<circ> snd) xs)"
  then obtain x e where e: "(x, e) \<in> set xs" "ld_symbol e = ld_symbol d" by auto
  with assms(4) have "e \<in> set (map snd ps)" by force
  then have "e \<in> set ds" unfolding with_amount_Inr(1) [OF assms(1)] by simp
  with assms(2,3) e(2) have "e = d" by (auto simp: distinct_map inj_on_def)
  with e(1) show "d \<in> set (map snd xs)" by force
qed auto

text \<open>
  The trim to the cap keeps whole legs, the largest of each side: the sells while they alone fit, then the buys
  while both together do, and it drops no leg that would still have fitted. What it keeps fits the cap.
\<close>

theorem plan_fits_the_cap:
  assumes "trim_to_plan_cap ds cap = Inr out" and "distinct (map ld_symbol ds)"
  shows "\<exists>sells buys s b. with_amount leg_eur (filter (placed_on ''sell'') ds) = Inr sells \<and>
      with_amount leg_eur (filter (placed_on ''buy'') ds) = Inr buys \<and>
      (let S = drop s (ascending sells); B = drop b (ascending buys) in
       out = map (\<lambda>d. if is_placed d \<and> d \<notin> set (map snd (S @ B))
                      then carry ''over the plan cap; carries to the next boundary'' d else d) ds \<and>
       (S @ B = [] \<or> \<not> fgt (fsum (map fst (S @ B))) cap) \<and>
       (\<forall>j < s. fgt (fsum (map fst (drop j (ascending sells)))) cap) \<and>
       (\<forall>j < b. fgt (fsum (map fst (S @ drop j (ascending buys)))) cap))"
proof -
  from assms(1) obtain sells buys where run: "with_amount leg_eur (filter (placed_on ''sell'') ds) = Inr sells"
    "with_amount leg_eur (filter (placed_on ''buy'') ds) = Inr buys"
    and out: "out = (let S = shed cap [] (ascending sells); B = shed cap S (ascending buys) in
       map (\<lambda>d. if is_placed d \<and> ld_symbol d \<notin> set (map (ld_symbol \<circ> snd) (S @ B))
                then carry ''over the plan cap; carries to the next boundary'' d else d) ds)"
    by (auto simp: trim_to_plan_cap_def Let_def rbind_Inr_iff)
  obtain s where s: "shed cap [] (ascending sells) = drop s (ascending sells)"
    "drop s (ascending sells) = [] \<or> \<not> fgt (fsum (map fst (drop s (ascending sells)))) cap"
    "\<forall>j < s. fgt (fsum (map fst (drop j (ascending sells)))) cap"
    using shed_drops [of cap "[]" "ascending sells"] by auto
  let ?S = "drop s (ascending sells)"
  obtain b where b: "shed cap ?S (ascending buys) = drop b (ascending buys)"
    "drop b (ascending buys) = [] \<or> \<not> fgt (fsum (map fst (?S @ drop b (ascending buys)))) cap"
    "\<forall>j < b. fgt (fsum (map fst (?S @ drop j (ascending buys)))) cap"
    using shed_drops [of cap ?S "ascending buys"] by blast
  let ?B = "drop b (ascending buys)"
  have sub: "set ?S \<subseteq> set sells" "set ?B \<subseteq> set buys" using set_drop_subset by fastforce+
  have "ld_symbol d \<in> set (map (ld_symbol \<circ> snd) (?S @ ?B)) \<longleftrightarrow> d \<in> set (map snd (?S @ ?B))" if "d \<in> set ds" for d
    using with_amount_symbols [OF run(1) assms(2) that sub(1)] with_amount_symbols [OF run(2) assms(2) that sub(2)] by simp
  then have "out = map (\<lambda>d. if is_placed d \<and> d \<notin> set (map snd (?S @ ?B))
      then carry ''over the plan cap; carries to the next boundary'' d else d) ds"
    unfolding out Let_def s(1) b(1) by (intro map_cong refl) simp
  moreover have "?S @ ?B = [] \<or> \<not> fgt (fsum (map fst (?S @ ?B))) cap" using s(2) b(2) by auto
  ultimately show ?thesis
    unfolding Let_def by (intro exI conjI) (rule run | assumption | rule s(3) b(3))+
qed

section \<open>Plans and their document\<close>

text \<open>With no limit on the intents or the amount, the placed legs make one plan.\<close>

lemma pack_unlimited: "pack None None (p # ps) sofar xs = Inr (rev ps @ [p @ map snd xs])"
  by (induction xs arbitrary: p sofar) auto

lemma assemble_one_plan:
  assumes "assemble_plans ds None None = Inr plans"
  shows "\<exists>ps. with_amount leg_eur (filter is_placed ds) = Inr ps \<and>
     plans = (if ps = [] then [] else [map snd (plan_order ps)])"
proof -
  from assms obtain ps where ps: "with_amount leg_eur (filter is_placed ds) = Inr ps"
    "pack None None [] (Fin 0) (plan_order ps) = Inr plans"
    by (auto simp: assemble_plans_def rbind_Inr_iff)
  have "plan_order ps = [] \<longleftrightarrow> ps = []" by (simp add: plan_order_def flip: length_0_conv)
  moreover have "plans = [map snd (plan_order ps)]" if "plan_order ps = x # xs" for x xs
    using ps(2) that by (cases x) (simp add: pack_unlimited)
  ultimately show ?thesis using ps by (cases "plan_order ps") simp_all
qed

text \<open>The intent a leg asks for.\<close>

definition leg_intent :: "leg_decision \<Rightarrow> intent" where
  "leg_intent d = (if ld_side d = Some ''sell''
     then \<lparr>i_symbol = ld_symbol d, i_side = ''sell'', i_action = ''close'', i_mode = ''execute'', i_notional = None,
           i_qty = ld_qty d, i_leverage = None, i_offset = None, i_hold = None\<rparr>
     else \<lparr>i_symbol = ld_symbol d, i_side = ''buy'', i_action = ''open'', i_mode = ''execute'', i_notional = ld_notional d,
           i_qty = None, i_leverage = None, i_offset = None, i_hold = None\<rparr>)"

definition orderable :: "leg_decision \<Rightarrow> bool" where
  "orderable d \<longleftrightarrow> ld_symbol d \<in> set BASKET \<and>
     (if ld_side d = Some ''sell'' then (\<exists>q. ld_qty d = Some q \<and> positive q) else (\<exists>n. ld_notional d = Some n \<and> positive n))"

lemma leg_document_intent: "orderable d \<Longrightarrow> leg_document d = intent_doc (leg_intent d)"
  by (auto simp: orderable_def leg_document_def intent_doc_def leg_intent_def opt_field_def opt_num_def)

lemma leg_intent_ok: "orderable d \<Longrightarrow> intent_ok (leg_intent d)"
  by (auto simp: orderable_def leg_intent_def intent_ok_def opt_ok_def SIDES_def ACTIONS_def MODES_def)

text \<open>
  C34. The document drafted for a list of legs is accepted by the parser of the control file and reads back as one
  intent for each leg, in order: a sell closes its quantity, a buy opens its notional, and nothing carries leverage.
\<close>

theorem drafted_document_parses:
  assumes "legs \<noteq> []" and "\<forall>d \<in> set legs. orderable d" and "\<not> blank pid" and "fromiso created = Some ts" and "\<not> naive ts"
  shows "parse_plan fromiso (Parsed (JObj (plan_document pid created legs))) =
     Inr \<lparr>p_id = pid, p_created_at = ts, p_intents = map leg_intent legs, p_raw = plan_document pid created legs\<rparr>"
proof -
  have doc: "plan_document pid created legs = plan_doc pid created (map leg_intent legs)"
    using assms(2) by (simp add: plan_document_def plan_doc_def leg_document_intent)
  have "\<forall>i \<in> set (map leg_intent legs). intent_ok i" using assms(2) by (simp add: leg_intent_ok)
  then show ?thesis unfolding doc using parse_plan_doc [of pid fromiso created ts "map leg_intent legs"] assms by simp
qed

definition demo_buy :: leg_decision where
  "demo_buy = \<lparr>ld_symbol = ''BTC/EUR'', ld_weight = Fin 1, ld_target = Fin 1, ld_held = Fin 0, ld_engine = None,
     ld_venue_b = Fin 0, ld_price = Fin 1, ld_ordermin = Fin 0, ld_lot_step = Fin 1, ld_delta = Fin 1, ld_outcome = Placed,
     ld_side = Some ''buy'', ld_qty = None, ld_notional = Some (Fin 1), ld_reason = []\<rparr>"

lemma demo_cents: "cents_of (Fin 1) = Inr 100" "int_div 0 100 = Inr (Fin 0)" "\<not> fge (Fin 0) (buy_floor demo_buy)"
proof -
  have "fround (of_int 100) = Fin (of_int 100)" by (rule fround_int) simp
  then show "cents_of (Fin 1) = Inr 100" using round_even_of_int [of 100] by (simp add: cents_of_def py_round_def)
  show "int_div 0 100 = Inr (Fin 0)" by (simp add: int_div_def)
  show "\<not> fge (Fin 0) (buy_floor demo_buy)" using buy_floor_pos [where x = "Fin 0" and d = demo_buy and r = 0] by auto
qed


lemma drafted_document_parses_witness:
  "parse_plan (\<lambda>_. Some (utc 0)) (Parsed (JObj (plan_document ''r3-x'' ''t'' [demo_buy]))) =
     Inr \<lparr>p_id = ''r3-x'', p_created_at = utc 0, p_intents = map leg_intent [demo_buy],
          p_raw = plan_document ''r3-x'' ''t'' [demo_buy]\<rparr>"
proof (rule drafted_document_parses)
  show "\<forall>d \<in> set [demo_buy]. orderable d" by (simp add: orderable_def demo_buy_def BASKET_def positive_def)
  show "\<not> blank ''r3-x''" by code_simp
qed simp_all

end
