(* ===== verification/ExecSafety.thy ===== *)
theory ExecSafety imports ExecTimer
begin

text \<open>
  What every handler of the executor keeps, whatever the world answers and wherever a handler raises:
  the interface of an invariant over the log, the switch and the ledger, the proof once and for all that
  every handler keeps such an invariant, and its instances (the gate before every order, the write-ahead
  row of every order, the latch of the kill switch).
\<close>

section \<open>Preservation\<close>

named_theorems keeps

definition keeps :: "(xs \<Rightarrow> bool) \<Rightarrow> 'a act \<Rightarrow> bool" where
  "keeps P m \<longleftrightarrow> (\<forall>s. P s \<longrightarrow> P (snd (m s)))"

lemma keepsD: "keeps P m \<Longrightarrow> P s \<Longrightarrow> P (after m s)"
  by (simp add: keeps_def after_def)

lemma keeps_ret [keeps]: "keeps P (ret x)"
  by (simp add: keeps_def ret_def)

lemma keeps_skip [keeps]: "keeps P skip"
  by (simp add: skip_def keeps_ret)

lemma keeps_fail [keeps]: "keeps P (fail e)"
  by (simp add: keeps_def fail_def)

lemma keeps_get [keeps]: "keeps P (get f)"
  by (simp add: keeps_def get_def)

lemma keeps_getA [keeps]: "keeps P (getA f)"
  by (simp add: getA_def keeps_get)

lemma keeps_lift [keeps]: "keeps P (lift r)"
  by (simp add: keeps_def lift_def)

lemma keeps_bnd [keeps]: "keeps P m \<Longrightarrow> (\<And>x. keeps P (f x)) \<Longrightarrow> keeps P (bnd m f)"
  unfolding keeps_def bnd_def by (auto split: prod.splits sum.splits)

lemma keeps_sq [keeps]: "keeps P m \<Longrightarrow> keeps P n \<Longrightarrow> keeps P (sq m n)"
  by (simp add: sq_def keeps_bnd)

lemma keeps_catch [keeps]: "keeps P m \<Longrightarrow> (\<And>e. keeps P (h e)) \<Longrightarrow> keeps P (catch m h)"
  unfolding keeps_def catch_def by (auto split: prod.splits sum.splits)

lemma keeps_if [keeps]: "(b \<Longrightarrow> keeps P m) \<Longrightarrow> (\<not> b \<Longrightarrow> keeps P n) \<Longrightarrow> keeps P (if b then m else n)"
  by simp

lemma keeps_option [keeps]:
  "keeps P n \<Longrightarrow> (\<And>x. keeps P (f x)) \<Longrightarrow> keeps P (case v of None \<Rightarrow> n | Some x \<Rightarrow> f x)"
  by (simp split: option.split)

lemma keeps_prod [keeps]: "(\<And>a b. keeps P (f a b)) \<Longrightarrow> keeps P (case v of (a, b) \<Rightarrow> f a b)"
  by (simp split: prod.split)

lemma keeps_sum [keeps]:
  "(\<And>a. keeps P (f a)) \<Longrightarrow> (\<And>b. keeps P (g b)) \<Longrightarrow> keeps P (case v of Inl a \<Rightarrow> f a | Inr b \<Rightarrow> g b)"
  by (simp split: sum.split)

lemma keeps_Let [keeps]: "(\<And>x. keeps P (f x)) \<Longrightarrow> keeps P (Let v f)"
  by simp

text \<open>Running an action whose first step is known.\<close>

lemma act_simps:
  "ret x s = (Inr x, s)" "fail e s = (Inl e, s)" "get f s = (Inr (f s), s)" "upd u s = (Inr (), u s)"
  "lift r s = (r, s)" "ask g s = (Inr (g (x_ticks s)), s\<lparr>x_ticks := x_ticks s + 1\<rparr>)"
  "skip s = (Inr (), s)" "updA h s = (Inr (), s\<lparr>x_active := h (x_active s)\<rparr>)"
  "getA k s = (Inr (k (x_active s)), s)" "emit ef s = (Inr (), s\<lparr>x_log := ef # x_log s\<rparr>)"
  by (simp_all add: ret_def fail_def get_def upd_def lift_def ask_def skip_def updA_def getA_def emit_def)

lemma bnd_steps:
  "m s = (Inr x, s') \<Longrightarrow> bnd m f s = f x s'"
  "m s = (Inl e, s') \<Longrightarrow> bnd m f s = (Inl e, s')"
  "m s = (Inr x, s') \<Longrightarrow> sq m n s = n s'"
  "m s = (Inl e, s') \<Longrightarrow> sq m n s = (Inl e, s')"
  by (simp_all add: bnd_def sq_def)

lemma bnd_prims:
  "bnd (get g1) f s = f (g1 s) s" "bnd (getA g2) f s = f (g2 (x_active s)) s"
  "bnd (ask h) f s = f (h (x_ticks s)) (s\<lparr>x_ticks := x_ticks s + 1\<rparr>)" "bnd (ret x) f s = f x s"
  "bnd (lift (Inr x)) f s = f x s" "sq (upd u) n s = n (u s)"
  "sq (updA h2) n s = n (s\<lparr>x_active := h2 (x_active s)\<rparr>)"
  "sq (emit ef) n s = n (s\<lparr>x_log := ef # x_log s\<rparr>)" "sq skip n s = n s"
  by (simp_all add: bnd_def sq_def act_simps)

lemmas steps = bnd_prims act_simps bnd_steps

section \<open>Invariants of the log, the switch and the ledger\<close>

text \<open>
  Effects that are neither an order nor a trip may be logged at any time, a verdict only when a gate
  evaluation gave it; an order only right after an evaluation that permits its intent, with the switch
  off and its row on record.
\<close>

definition genuine :: "verdict \<Rightarrow> bool" where
  "genuine v \<longleftrightarrow> (\<exists>g sur now raw g' s. evaluate g sur now = Inr (raw, g') \<and> v = fold_holds s raw)"

fun quiet :: "effect \<Rightarrow> bool" where
  "quiet (Sent c i it p) = False"
| "quiet (Ledgered c) = False"
| "quiet (KillTripped r) = False"
| "quiet (Evaluated v) = genuine v"
| "quiet _ = True"

definition on_record :: "journal \<Rightarrow> string \<Rightarrow> nat \<Rightarrow> bool" where
  "on_record j coid index \<longleftrightarrow> (\<exists>slot pid. (slot, pid, JInt (int index), JStr coid) \<in> rows_recorded j)"

lemma catch_returns: "\<exists>b s'. catch m (\<lambda>_. ret c) s = (Inr b, s')"
  by (auto simp: catch_def ret_def split: prod.splits sum.splits)

lemma evaluate_Inr:
  assumes "x_evaluate w now s = (Inr v, s')"
  shows "\<exists>l. x_log s' = Evaluated v # l \<and> x_kill s' = x_kill s \<and> x_active s' = x_active s \<and> x_frozen s' = x_frozen s \<and>
    (x_frozen s \<longrightarrow> v_level v \<noteq> FULL \<and> v_level v \<noteq> REDUCE_ONLY)"
  using assms
  by (auto simp: x_evaluate_def steps bnd_def sq_def act_simps fold_holds_def Let_def split: sum.splits prod.splits if_splits)

lemma append_on_record:
  assumes "ledger_step f (AppendRow ts (submitted_row pl a coid) v ev) j = Inr j'"
  shows "on_record j' coid (a_index a)"
proof -
  from assms have "append_submitted_row f ts (submitted_row pl a coid) v ev j = Inr j'" by simp
  from append_recorded [OF this] show ?thesis
    unfolding on_record_def by (intro exI [of _ "exec_record_path ts"]) (auto simp: submitted_row_def dget_def)
qed

lemma write_ahead_cases:
  obtains b j where "write_ahead w ts row v s = (Inr b, s\<lparr>x_ticks := x_ticks s + 2, x_journal := j\<rparr>)"
    and "b \<Longrightarrow> ledger_step (w_isofmt w) (AppendRow ts row v (w_now w (x_ticks s))) (x_journal s) = Inr j"
    and "\<not> b \<Longrightarrow> j = x_journal s"
  by (cases "w_disk w (x_ticks s + 1)";
      cases "ledger_step (w_isofmt w) (AppendRow ts row v (w_now w (x_ticks s))) (x_journal s)")
    (auto simp: write_ahead_def catch_def steps ledger_def bnd_def sq_def)

locale log_invariant =
  fixes P :: "xs \<Rightarrow> bool"
  assumes frame: "P s \<Longrightarrow> x_log s' = x_log s \<Longrightarrow> x_kill s' = x_kill s \<Longrightarrow> x_journal s' = x_journal s \<Longrightarrow>
      x_frozen s' = x_frozen s \<Longrightarrow> x_sockets s' = x_sockets s \<Longrightarrow> P s'"
    and logged: "P s \<Longrightarrow> quiet e \<Longrightarrow> P (s\<lparr>x_log := e # x_log s\<rparr>)"
    and written: "P s \<Longrightarrow> ledger_step f op (x_journal s) = Inr j \<Longrightarrow> P (s\<lparr>x_journal := j\<rparr>)"
    and tripped: "P s \<Longrightarrow> \<not> x_kill s \<Longrightarrow> P (s\<lparr>x_kill := True, x_log := KillTripped r # x_log s\<rparr>)"
    and ordered: "P s \<Longrightarrow> x_log s = Evaluated v # l \<Longrightarrow> level_permits (v_level v) it \<Longrightarrow> \<not> x_kill s \<Longrightarrow>
      \<not> x_frozen s \<Longrightarrow> on_record (x_journal s) c i \<Longrightarrow> P (s\<lparr>x_log := Sent c i it p # Ledgered c # x_log s\<rparr>)"
    and thawed: "P s \<Longrightarrow> x_sockets s = [] \<Longrightarrow> P (s\<lparr>x_frozen := False\<rparr>)"
    and froze: "P s \<Longrightarrow> x_sockets s \<noteq> [] \<Longrightarrow> \<not> x_frozen s \<Longrightarrow> P (s\<lparr>x_frozen := True\<rparr>)"
begin

lemma keeps_upd:
  "(\<And>s. x_log (f s) = x_log s) \<Longrightarrow> (\<And>s. x_kill (f s) = x_kill s) \<Longrightarrow> (\<And>s. x_journal (f s) = x_journal s) \<Longrightarrow>
   (\<And>s. x_frozen (f s) = x_frozen s) \<Longrightarrow> (\<And>s. x_sockets (f s) = x_sockets s) \<Longrightarrow> keeps P (upd f)"
  unfolding keeps_def upd_def using frame by (metis snd_conv)

lemma keeps_updA: "keeps P (updA f)"
  unfolding updA_def by (rule keeps_upd) simp_all

lemma keeps_ask: "keeps P (ask f)"
  unfolding keeps_def ask_def by (auto intro: frame)

lemma keeps_emit: "quiet e \<Longrightarrow> keeps P (emit e)"
  unfolding keeps_def emit_def upd_def by (auto intro: logged)

lemma keeps_inc: "keeps P (inc_order c)"
  unfolding inc_order_def by (rule keeps_emit) simp

lemma keeps_drop_plan: "keeps P drop_plan"
  unfolding drop_plan_def by (rule keeps_upd) simp_all

lemma keeps_ledger: "keeps P (ledger w op)"
proof -
  have "P (snd (if \<not> ok then (Inl OSError, s)
       else (case ledger_step (w_isofmt w) op (x_journal s) of
               Inl e \<Rightarrow> (Inl e, s)
             | Inr j \<Rightarrow> (Inr (), s\<lparr>x_journal := j\<rparr>))))" if "P s" for ok s
    using that by (auto split: sum.splits intro: written)
  then show ?thesis
    unfolding ledger_def by (intro keeps_bnd keeps_ask) (simp add: keeps_def)
qed

lemmas basic = keeps keeps_updA keeps_ask keeps_inc keeps_drop_plan keeps_ledger

lemma keeps_evaluate: "keeps P (x_evaluate w now)"
  unfolding keeps_def
proof (intro allI impI)
  fix s assume "P s"
  let ?t = "s\<lparr>x_ticks := x_ticks s + 1\<rparr>"
  have P1: "P ?t" using \<open>P s\<close> by (rule frame) simp_all
  show "P (snd (x_evaluate w now s))"
  proof (cases "evaluate (x_gate s) (w_gate w (x_ticks s)) now")
    case (Inl e)
    with P1 show ?thesis by (simp add: x_evaluate_def steps)
  next
    case (Inr r)
    obtain raw g' where r: "r = (raw, g')" by force
    let ?v = "fold_holds ?t raw"
    let ?u = "?t\<lparr>x_gate := g', x_evaluated_at := Some now, x_armed := armed ?v\<rparr>"
    have "P ?u" using P1 by (rule frame) simp_all
    moreover have "quiet (Evaluated ?v)"
      unfolding quiet.simps genuine_def using Inr r by (intro exI conjI) (auto intro: refl)
    ultimately have "P (?u\<lparr>x_log := Evaluated ?v # x_log ?u\<rparr>)" by (rule logged)
    with Inr r show ?thesis by (simp add: x_evaluate_def steps)
  qed
qed

lemma keeps_journal_intent: "keeps P (journal_intent w i out rs q)"
  unfolding journal_intent_def by (intro basic)

lemma keeps_journal_plan: "keeps P (journal_plan w ts v now pid doc d rs is)"
  unfolding journal_plan_def by (intro basic)

lemma keeps_update_row: "keeps P (update_row w st e q)"
  unfolding update_row_def by (intro basic)

lemma keeps_mark: "keeps P (mark_ambiguous w what)"
  unfolding mark_ambiguous_def by (intro basic keeps_update_row)

lemma keeps_enter: "keeps P (enter w p)"
  unfolding enter_def by (intro basic)

lemma keeps_send_cancel: "keeps P (send_cancel w c)"
  unfolding send_cancel_def by (intro basic keeps_emit) simp

lemma keeps_cancel: "keeps P (cancel w)"
  unfolding cancel_def by (intro basic keeps_send_cancel)

lemma keeps_revoke: "keeps P (revoke w rs)"
  unfolding revoke_def by (intro basic keeps_enter keeps_cancel)

lemma keeps_unsubscribe: "keeps P unsubscribe"
  unfolding unsubscribe_def by (intro basic keeps_emit) simp

lemma keeps_refuse_from: "keeps P (refuse_from w r is)"
  by (induction "is") (auto intro!: basic keeps_journal_intent)

lemma keeps_halt: "keeps P (halt_plan w i r)"
  unfolding halt_plan_def by (intro basic keeps_refuse_from)

lemma keeps_cancel_all: "keeps P (cancel_all w req cs)"
  unfolding cancel_all_def by (induction cs) (auto intro!: basic keeps_send_cancel)

lemma keeps_cancel_resting: "keeps P (cancel_resting w live)"
  unfolding cancel_resting_def by (intro basic keeps_cancel keeps_cancel_all)

lemma keeps_tripping:
  "keeps P (bnd (get x_kill) (\<lambda>tripped. if tripped then skip
     else sq (upd (\<lambda>s. s\<lparr>x_kill := True, x_log := KillTripped r # x_log s\<rparr>)) m))"
  if "keeps P m"
  unfolding keeps_def
proof (intro allI impI)
  fix s assume "P s"
  with that tripped [of s] show "P (snd (bnd (get x_kill) (\<lambda>tripped. if tripped then skip
     else sq (upd (\<lambda>s. s\<lparr>x_kill := True, x_log := KillTripped r # x_log s\<rparr>)) m) s))"
    by (cases "x_kill s") (auto simp: bnd_def get_def skip_def ret_def sq_def upd_def keeps_def)
qed

lemma keeps_trip: "keeps P (trip_kill w r)"
  unfolding trip_kill_def
  by (intro keeps_tripping basic keeps_emit keeps_cancel_resting keeps_unsubscribe keeps_journal_intent
      keeps_halt keeps_evaluate) simp

lemma keeps_reconcile: "keeps P (reconcile_terminal w)"
  unfolding reconcile_terminal_def by (intro basic keeps_trip)

lemma keeps_finish: "keeps P (finish_active w out rs q)"
  unfolding finish_active_def
  by (intro basic keeps_unsubscribe keeps_journal_intent keeps_enter keeps_reconcile keeps_upd) simp_all

lemma keeps_finish_filled: "keeps P (finish_filled w out rs)"
  unfolding finish_filled_def by (intro basic keeps_finish)

lemma keeps_finish_revoked: "keeps P (finish_revoked w)"
  unfolding finish_revoked_def by (intro basic keeps_finish keeps_halt)

lemma keeps_drop: "keeps P (drop_remainder w)"
  unfolding drop_remainder_def by (intro basic keeps_unsubscribe keeps_halt)

lemma keeps_strand: "keeps P (strand_ambiguous w r)"
  unfolding strand_ambiguous_def by (intro basic keeps_journal_intent keeps_drop)

lemma keeps_refuse_submission: "keeps P (refuse_submission w rs)"
  unfolding refuse_submission_def by (intro basic keeps_journal_intent)

lemma keeps_send_order:
  assumes "P s" and "x_log s = Evaluated v # l" and "level_permits (v_level v) (a_intent (x_active s))"
    and "\<not> x_kill s" and "\<not> x_frozen s" and "on_record (x_journal s) coid (a_index (x_active s))"
  shows "P (snd (send_order w coid row s))"
proof -
  let ?s1 = "s\<lparr>x_active := (x_active s)\<lparr>a_coid := Some coid\<rparr>\<rparr>"
  let ?s2 = "?s1\<lparr>x_rows := AList.update coid (x_cycle_ts s, row) (x_rows s),
                 x_attached := AList.update coid coid (x_attached s)\<rparr>"
  let ?a = "x_active s"
  let ?s3 = "?s2\<lparr>x_log := Sent coid (a_index ?a) (a_intent ?a) (obj_of (dget row ''order'')) # Ledgered coid # x_log ?s2\<rparr>"
  let ?rest = "bnd (ask (w_submit w)) (\<lambda>returned.
       if returned then sq (inc_order ''submitted'') (ret Submitted)
       else sq (mark_ambiguous w ''submit raised'')
            (sq (journal_intent w (a_index ?a) ''ambiguous'' [''submit raised -- venue outcome unknown''] (a_filled ?a))
            (sq (inc_order ''ambiguous'') (ret Ambiguous))))"
  have "P ?s2" using assms(1) by (rule frame) simp_all
  then have "P ?s3" by (rule ordered) (use assms in simp_all)
  moreover have "keeps P ?rest" by (intro basic keeps_mark keeps_journal_intent)
  ultimately have "P (snd (?rest ?s3))" by (simp add: keeps_def)
  then show ?thesis by (simp add: send_order_def steps)
qed

lemma keeps_submit: "keeps P (submit w coid)"
  unfolding keeps_def
proof (intro allI impI)
  fix s assume "P s"
  define now where "now = w_now w (x_ticks s)"
  define s1 where "s1 = s\<lparr>x_ticks := x_ticks s + 1\<rparr>"
  have P1: "P s1" using \<open>P s\<close> by (rule frame) (simp_all add: s1_def)
  obtain r s2 where ev: "x_evaluate w now s1 = (r, s2)" by force
  have P2: "P s2" using P1 keeps_evaluate ev by (metis keeps_def snd_conv)
  have refuse: "P (snd (refuse_submission w rs t))" if "P t" for rs t
    using that keeps_refuse_submission by (simp add: keeps_def)
  show "P (snd (submit w coid s))"
  proof (cases r)
    case (Inl e)
    then show ?thesis using P2 ev by (simp add: submit_def steps now_def s1_def)
  next
    case (Inr v)
    from evaluate_Inr [of w now s1 v s2] ev Inr obtain l where log: "x_log s2 = Evaluated v # l"
      and cold: "x_frozen s2 \<longrightarrow> v_level v \<noteq> FULL \<and> v_level v \<noteq> REDUCE_ONLY" by auto
    let ?a = "x_active s2"
    show ?thesis
    proof (cases "\<not> x_kill s2 \<and> level_permits (v_level v) (a_intent ?a) \<and> x_plan s2 \<noteq> None")
      case False
      then show ?thesis
        using ev Inr P2 refuse by (auto simp: submit_def steps now_def s1_def)
    next
      case True
      then obtain pl where pl: "x_plan s2 = Some pl" by blast
      let ?row = "submitted_row pl ?a coid"
      obtain b j where wa: "write_ahead w (x_cycle_ts s2) ?row v s2 = (Inr b, s2\<lparr>x_ticks := x_ticks s2 + 2, x_journal := j\<rparr>)"
        and yes: "b \<Longrightarrow> ledger_step (w_isofmt w) (AppendRow (x_cycle_ts s2) ?row v (w_now w (x_ticks s2))) (x_journal s2) = Inr j"
        and no: "\<not> b \<Longrightarrow> j = x_journal s2"
        by (rule write_ahead_cases [of w "x_cycle_ts s2" ?row v s2]) blast
      let ?s3 = "s2\<lparr>x_ticks := x_ticks s2 + 2, x_journal := j\<rparr>"
      have P3: "P ?s3"
      proof (cases b)
        case True
        from written [OF P2 yes [OF True]] show ?thesis by (rule frame) simp_all
      next
        case False
        with no P2 show ?thesis by (auto intro: frame)
      qed
      have "P (snd ((if b then send_order w coid ?row
              else refuse_submission w [''exec ledger write failed'']) ?s3))"
      proof (cases b)
        case b: True
        from P3 have "P (snd (send_order w coid ?row ?s3))"
          by (rule keeps_send_order)
            (use log cold True append_on_record [OF yes [OF b]] in \<open>auto simp: level_permits_def split: if_splits\<close>)
        with b show ?thesis by simp
      qed (use refuse [OF P3] in simp)
      then show ?thesis
        using True pl ev Inr wa by (simp add: submit_def steps now_def s1_def Let_def)
    qed
  qed
qed

lemma keeps_sizing [keeps]:
  "(\<And>e. keeps P (f e)) \<Longrightarrow> (\<And>b. keeps P (g b)) \<Longrightarrow> (\<And>so. keeps P (h so)) \<Longrightarrow>
   keeps P (case r of Inl e \<Rightarrow> f e | Inr (Below b) \<Rightarrow> g b | Inr (Sized so) \<Rightarrow> h so)"
  by (auto split: sum.split sizing.split)

lemma keeps_placed:
  "keeps P a \<Longrightarrow> keeps P b \<Longrightarrow> keeps P c \<Longrightarrow> keeps P d \<Longrightarrow> keeps P e \<Longrightarrow>
   keeps P (case r of Submitted \<Rightarrow> a | Refused \<Rightarrow> b | Ambiguous \<Rightarrow> c | Below_minimum \<Rightarrow> d | Error \<Rightarrow> e)"
  by (cases r) simp_all

lemma keeps_place: "keeps P (place w q p ioc po)"
  unfolding place_def by (intro basic keeps_sizing keeps_submit)

lemma keeps_over_cap: "keeps P (over_cap_reason w q p)"
  unfolding over_cap_reason_def by (intro basic keeps_upd) simp_all

lemma keeps_first: "keeps P (first_submission w)"
  unfolding first_submission_def
  by (intro basic keeps_placed keeps_finish keeps_over_cap keeps_place keeps_drop keeps_enter)

lemma keeps_resubmit: "keeps P (resubmit w p ioc po ph)"
  unfolding resubmit_def
  by (intro basic keeps_placed keeps_finish keeps_finish_filled keeps_place keeps_drop keeps_enter)

lemma keeps_reprice_at_touch: "keeps P (reprice_at_touch w)"
  unfolding reprice_at_touch_def by (intro basic keeps_finish_filled keeps_resubmit)

lemma keeps_fallback: "keeps P (fallback w)"
  unfolding fallback_def by (intro basic keeps_finish_filled keeps_resubmit)

lemma keeps_reprice: "keeps P (reprice w)"
  unfolding reprice_def
  by (intro basic keeps_finish_filled keeps_finish_revoked keeps_fallback keeps_reprice_at_touch keeps_enter)

lemma keeps_guarded: "keeps P m \<Longrightarrow> keeps P (guarded w what m)"
  unfolding guarded_def by (intro basic keeps_finish_filled)

lemmas ladder = keeps_first keeps_resubmit keeps_reprice_at_touch keeps_fallback keeps_reprice keeps_guarded
  keeps_finish keeps_finish_filled keeps_finish_revoked keeps_drop keeps_strand keeps_trip keeps_enter
  keeps_cancel keeps_revoke keeps_update_row keeps_journal_intent keeps_evaluate

lemma keeps_cached:
  "keeps P a \<Longrightarrow> keeps P b \<Longrightarrow> (\<And>x y z. keeps P (f x y z)) \<Longrightarrow>
   keeps P (case r of CacheRaises \<Rightarrow> a | NoOrder \<Rightarrow> b | CachedOrder x y z \<Rightarrow> f x y z)"
  by (cases r) simp_all

lemma keeps_jstr:
  "(\<And>t. keeps P (f t)) \<Longrightarrow> keeps P n \<Longrightarrow> keeps P (case v of JStr t \<Rightarrow> f t | _ \<Rightarrow> n)"
  by (cases v) simp_all

lemma keeps_jint:
  "(\<And>t. keeps P (f t)) \<Longrightarrow> keeps P n \<Longrightarrow> keeps P (case v of JInt t \<Rightarrow> f t | _ \<Rightarrow> n)"
  by (cases v) simp_all

lemma keeps_phase:
  "keeps P a \<Longrightarrow> keeps P b \<Longrightarrow> keeps P c \<Longrightarrow> keeps P d \<Longrightarrow>
   keeps P (case ph of AwaitingQuote \<Rightarrow> a | AwaitingReprice \<Rightarrow> b | Resting \<Rightarrow> c | _ \<Rightarrow> d)"
  by (cases ph) simp_all

lemma keeps_arm_reread: "keeps P arm_reread"
  unfolding arm_reread_def by (rule keeps_upd) simp_all

lemma keeps_publish: "keeps P (publish_fill ev)"
  unfolding publish_fill_def by (rule keeps_emit) simp

lemma keeps_fill_credit: "keeps P (fill_credit w row q)"
  unfolding fill_credit_def by (intro basic keeps_cached keeps_arm_reread keeps_upd) simp_all

lemma keeps_fill_payload: "keeps P (fill_payload w ev c)"
  unfolding fill_payload_def by (intro basic)

lemma keeps_mirror: "keeps P (mirror k q)"
  unfolding mirror_def by (intro basic keeps_upd) simp_all

lemma keeps_mirror_row_fill: "keeps P (mirror_row_fill c q)"
  unfolding mirror_row_fill_def by (intro basic keeps_mirror)

lemma keeps_record_trip_fill: "keeps P (record_trip_fill w b row ev q)"
  unfolding record_trip_fill_def by (intro basic keeps_fill_payload keeps_mirror keeps_publish)

lemma keeps_trip_on_fill: "keeps P (trip_on_fill w ev)"
  unfolding trip_on_fill_def by (intro basic keeps_fill_credit keeps_record_trip_fill keeps_trip)

lemma keeps_net_foreign: "keeps P (net_foreign_fill w row ev q)"
  unfolding net_foreign_fill_def by (intro basic keeps_cached keeps_jstr)

lemma keeps_on_fill: "keeps P (on_fill w ev)"
  unfolding on_fill_def
  by (intro basic ladder keeps_fill_payload keeps_mirror_row_fill keeps_publish)

lemma keeps_on_event_resubmit: "keeps P m \<Longrightarrow> keeps P (resubmit_on_event w m)"
  unfolding resubmit_on_event_def by (rule keeps_guarded)

lemma keeps_on_rejected: "keeps P (on_rejected w r pl po)"
  unfolding on_rejected_def by (intro basic ladder keeps_on_event_resubmit)

lemma keeps_on_cancel_ack: "keeps P (on_cancel_ack w pl)"
  unfolding on_cancel_ack_def by (intro basic ladder keeps_on_event_resubmit)

lemma keeps_venue_terminal: "keeps P (venue_terminal_state w ev)"
  unfolding venue_terminal_state_def by (intro basic keeps_cached keeps_arm_reread)

lemma keeps_settle_restored: "keeps P (settle_restored_intent w b row)"
  unfolding settle_restored_intent_def by (intro basic keeps_jstr keeps_jint)

lemma keeps_set_row_state: "keeps P (set_row_state w b k st)"
  unfolding set_row_state_def by (intro basic keeps_upd) simp_all

lemma keeps_settle_row: "keeps P (settle_row w b k)"
  unfolding settle_row_def by (intro basic keeps_settle_restored)

lemma keeps_restored_event: "keeps P (restored_event w ev b k)"
  unfolding restored_event_def
  by (intro basic keeps_set_row_state keeps_settle_row keeps_venue_terminal)

lemma keeps_detached: "keeps P (on_detached_event w ev)"
  unfolding on_detached_event_def
  by (intro basic keeps_fill_credit keeps_fill_payload keeps_arm_reread keeps_upd keeps_mirror
      keeps_net_foreign keeps_restored_event keeps_publish) simp_all

lemma keeps_on_accepted: "keeps P (on_accepted w ev pl)"
  unfolding on_accepted_def by (intro basic ladder)

lemma keeps_own_event: "keeps P (on_own_event w ev)"
  unfolding on_own_event_def event_payload_def
  by (intro basic ladder keeps_arm_reread keeps_on_accepted keeps_on_fill keeps_on_rejected keeps_on_cancel_ack)

lemma keeps_order_event: "keeps P (on_order_event w ev)"
  unfolding on_order_event_def on_order_event_raw_def
  by (intro basic keeps_trip_on_fill keeps_own_event keeps_detached)

lemma keeps_quote: "keeps P (on_quote w q)"
  unfolding on_quote_def by (intro keeps_guarded basic ladder)

lemma keeps_arm_intent: "keeps P (arm_intent w now a)"
  unfolding arm_intent_def by (intro basic keeps_emit keeps_upd) simp_all

lemma keeps_refuse_intent: "keeps P (refuse_intent w i rs)"
  unfolding refuse_intent_def by (intro basic ladder keeps_upd) simp_all

lemma keeps_start: "keeps P (start_intent w now pl i it)"
  unfolding start_intent_def
  by (intro basic ladder keeps_upd keeps_refuse_intent keeps_arm_intent) simp_all

lemma keeps_time_box: "keeps P (time_box_with_nothing_resting w)"
  unfolding time_box_with_nothing_resting_def by (intro basic ladder)

lemma keeps_poll: "keeps P (poll w now v)"
  unfolding poll_def poll_awaiting_reprice_def poll_resting_def
  by (intro basic keeps_phase ladder keeps_time_box)

lemma keeps_pump_loop: "keeps P (pump_loop w now n)"
  by (induction n) (auto intro!: basic keeps_upd keeps_start)

lemma keeps_tick: "keeps P (tick w now)"
  unfolding tick_def pump_def by (intro basic ladder keeps_poll keeps_pump_loop)

lemma keeps_accept_plan: "keeps P (accept_plan w pl ts now drill)"
  unfolding accept_plan_def journal_refusal_def nothing_in_flight_def mixed_inventory_refusals_def
  by (intro basic ladder keeps_journal_plan keeps_upd) simp_all

lemma keeps_pickup: "keeps P (pickup w pl ts now)"
  unfolding pickup_def refuse_unparseable_def
  by (intro basic ladder keeps_journal_plan keeps_accept_plan)

lemma keeps_handle: "keeps P (handle w e)"
  by (cases e) (simp_all add: keeps_tick keeps_quote keeps_order_event keeps_pickup)

theorem run_keeps: "P s \<Longrightarrow> P (run w es s)"
  by (induction es arbitrary: s) (auto intro: keepsD keeps_handle)

end

section \<open>The instances\<close>

text \<open>Every order in the log, newest first, stands on its row and on the verdict that permitted it.\<close>

definition tripped_in :: "effect list \<Rightarrow> bool" where
  "tripped_in l \<longleftrightarrow> (\<exists>r. KillTripped r \<in> set l)"

fun log_ok :: "effect list \<Rightarrow> bool" where
  "log_ok [] = True"
| "log_ok (Sent c i it p # rest) =
     ((\<exists>v l. rest = Ledgered c # Evaluated v # l \<and> genuine v \<and> level_permits (v_level v) it) \<and>
      \<not> tripped_in rest \<and> log_ok rest)"
| "log_ok (e # rest) = log_ok rest"

fun is_sent :: "effect \<Rightarrow> bool" where
  "is_sent (Sent c i it p) = True"
| "is_sent _ = False"

definition verdicts_genuine :: "effect list \<Rightarrow> bool" where
  "verdicts_genuine l \<longleftrightarrow> (\<forall>v. Evaluated v \<in> set l \<longrightarrow> genuine v)"

definition gated :: "xs \<Rightarrow> bool" where
  "gated s \<longleftrightarrow> log_ok (x_log s) \<and> verdicts_genuine (x_log s) \<and> (tripped_in (x_log s) \<longrightarrow> x_kill s)"

definition accounted :: "xs \<Rightarrow> bool" where
  "accounted s \<longleftrightarrow> (\<forall>c i it p. Sent c i it p \<in> set (x_log s) \<longrightarrow> on_record (x_journal s) c i)"

definition silenced :: "effect list \<Rightarrow> xs \<Rightarrow> bool" where
  "silenced l s \<longleftrightarrow> x_kill s \<and> filter is_sent (x_log s) = l"

lemma log_ok_quiet: "quiet e \<Longrightarrow> log_ok (e # l) = log_ok l"
  by (cases e) simp_all

lemma tripped_in_quiet: "quiet e \<Longrightarrow> tripped_in (e # l) = tripped_in l"
  by (cases e) (auto simp: tripped_in_def)

interpretation gate: log_invariant gated
proof
  fix s e assume "gated s" "quiet e"
  then show "gated (s\<lparr>x_log := e # x_log s\<rparr>)"
    by (auto simp: gated_def log_ok_quiet tripped_in_quiet verdicts_genuine_def)
qed (auto simp: gated_def tripped_in_def verdicts_genuine_def)

lemma on_record_mono:
  assumes "on_record j c i" and "ledger_step f op j = Inr j'"
  shows "on_record j' c i"
  using assms ledger_step_rows [OF assms(2)] by (auto simp: on_record_def)

interpretation write_ahead: log_invariant accounted
proof
  fix s e assume "accounted s" "quiet e"
  then show "accounted (s\<lparr>x_log := e # x_log s\<rparr>)" by (cases e) (auto simp: accounted_def)
qed (auto simp: accounted_def dest: on_record_mono)

interpretation kill: log_invariant "silenced l"
proof
  fix s e assume "silenced l s" "quiet e"
  then show "silenced l (s\<lparr>x_log := e # x_log s\<rparr>)" by (cases e) (auto simp: silenced_def)
qed (auto simp: silenced_def)

lemma log_ok_split: "log_ok (newer @ Sent c i it p # older) \<Longrightarrow>
    (\<exists>v l. older = Ledgered c # Evaluated v # l \<and> genuine v \<and> level_permits (v_level v) it) \<and> \<not> tripped_in older"
proof (induction newer)
  case (Cons e newer)
  then show ?case by (cases e) auto
qed simp

lemma genuine_not_NONE:
  assumes "genuine v" and "v_level v \<noteq> NONE"
  shows "\<exists>g sur now raw g'. evaluate g sur now = Inr (raw, g') \<and> armed_in_config g \<and>
    kill_file (files sur) = Absent \<and> arm_file (files sur) = Present \<and>
    (v_level v = FULL \<longrightarrow> hold_file (files sur) = Absent)"
proof -
  from assms(1) obtain g sur now raw g' s where
    e: "evaluate g sur now = Inr (raw, g')" and v: "v = fold_holds s raw" by (auto simp: genuine_def)
  from v assms(2) have "v_level raw \<noteq> NONE" "v_level v = FULL \<longrightarrow> v_level raw = FULL"
    by (auto simp: fold_holds_def Let_def split: if_splits)
  moreover from evaluate_decided [OF e] obtain t where "decided g sur t raw" .
  ultimately have "armed_in_config g \<and> kill_file (files sur) = Absent \<and> arm_file (files sur) = Present \<and>
    (v_level v = FULL \<longrightarrow> hold_file (files sur) = Absent)" by (auto simp: decided_def Let_def gate_levels)
  with e show ?thesis by blast
qed

lemma level_permits_not_NONE: "level_permits l i \<Longrightarrow> l \<noteq> NONE"
  by (auto simp: level_permits_def split: if_splits)

end
