(* ===== verification/ExecLadder.thy ===== *)
theory ExecLadder imports ExecSafety
begin

text \<open>
  How many orders one intent can send, and what a revocation forbids. The steps between two submissions
  are compared with two relations on states: one keeps the intent in flight as it is, the other may end
  it. Only the five functions of the placement ladder send, and each is bounded by the intent's counters.
\<close>

section \<open>Relations between the states before and after an action\<close>

definition moves :: "(xs \<Rightarrow> xs \<Rightarrow> bool) \<Rightarrow> 'a act \<Rightarrow> bool" where
  "moves R m \<longleftrightarrow> (\<forall>s. R s (snd (m s)))"

locale run_relation =
  fixes R :: "xs \<Rightarrow> xs \<Rightarrow> bool"
  assumes refl: "R s s" and trans: "R s t \<Longrightarrow> R t u \<Longrightarrow> R s u"
begin

lemma w_ret: "moves R (ret x)" by (simp add: moves_def ret_def refl)
lemma w_skip: "moves R skip" by (simp add: skip_def w_ret)
lemma w_fail: "moves R (fail e)" by (simp add: moves_def fail_def refl)
lemma w_get: "moves R (get f)" by (simp add: moves_def get_def refl)
lemma w_getA: "moves R (getA f)" by (simp add: getA_def w_get)
lemma w_lift: "moves R (lift r)" by (simp add: moves_def lift_def refl)

lemma w_bnd: "moves R m \<Longrightarrow> (\<And>x. moves R (f x)) \<Longrightarrow> moves R (bnd m f)"
  unfolding moves_def bnd_def
  by (auto split: prod.splits sum.splits) (metis snd_conv trans)+

lemma w_sq: "moves R m \<Longrightarrow> moves R n \<Longrightarrow> moves R (sq m n)"
  by (simp add: sq_def w_bnd)

lemma w_catch: "moves R m \<Longrightarrow> (\<And>e. moves R (h e)) \<Longrightarrow> moves R (catch m h)"
  unfolding moves_def catch_def
  by (auto split: prod.splits sum.splits) (metis snd_conv trans)+

lemma w_if: "(b \<Longrightarrow> moves R m) \<Longrightarrow> (\<not> b \<Longrightarrow> moves R n) \<Longrightarrow> moves R (if b then m else n)" by simp

lemma w_option:
  "moves R n \<Longrightarrow> (\<And>x. moves R (f x)) \<Longrightarrow> moves R (case v of None \<Rightarrow> n | Some x \<Rightarrow> f x)"
  by (simp split: option.split)

lemma w_prod: "(\<And>a b. moves R (f a b)) \<Longrightarrow> moves R (case v of (a, b) \<Rightarrow> f a b)"
  by (simp split: prod.split)

lemma w_sum:
  "(\<And>a. moves R (f a)) \<Longrightarrow> (\<And>b. moves R (g b)) \<Longrightarrow> moves R (case v of Inl a \<Rightarrow> f a | Inr b \<Rightarrow> g b)"
  by (simp split: sum.split)

lemma w_Let: "(\<And>x. moves R (f x)) \<Longrightarrow> moves R (Let v f)" by simp

lemma w_jstr: "(\<And>t. moves R (f t)) \<Longrightarrow> moves R n \<Longrightarrow> moves R (case v of JStr t \<Rightarrow> f t | _ \<Rightarrow> n)"
  by (cases v) simp_all

lemma w_jint: "(\<And>t. moves R (f t)) \<Longrightarrow> moves R n \<Longrightarrow> moves R (case v of JInt t \<Rightarrow> f t | _ \<Rightarrow> n)"
  by (cases v) simp_all

lemma w_cached:
  "moves R a \<Longrightarrow> moves R b \<Longrightarrow> (\<And>x y z. moves R (f x y z)) \<Longrightarrow>
   moves R (case r of CacheRaises \<Rightarrow> a | NoOrder \<Rightarrow> b | CachedOrder x y z \<Rightarrow> f x y z)"
  by (cases r) simp_all

lemma w_upd: "(\<And>s. R s (f s)) \<Longrightarrow> moves R (upd f)"
  by (simp add: moves_def upd_def)

lemmas w = w_ret w_skip w_fail w_get w_getA w_lift w_bnd w_sq w_catch w_if w_option w_prod w_sum w_Let
  w_jstr w_jint w_cached

end

text \<open>What counts against the ladder's budget, and what resets it.\<close>

fun counts :: "effect \<Rightarrow> bool" where
  "counts (Sent c i it p) = True"
| "counts (Started i) = True"
| "counts e = False"

definition grown :: "effect list \<Rightarrow> effect list \<Rightarrow> bool" where
  "grown l l' \<longleftrightarrow> (\<exists>es. l' = es @ l \<and> (\<forall>e \<in> set es. \<not> counts e))"

lemma grown_refl [simp]: "grown l l" by (simp add: grown_def)

lemma grown_trans: "grown l l' \<Longrightarrow> grown l' l'' \<Longrightarrow> grown l l''"
  by (fastforce simp: grown_def)

lemma grown_Cons [simp]: "\<not> counts e \<Longrightarrow> grown l (e # l)"
  unfolding grown_def by (intro exI [of _ "[e]"]) simp

section \<open>Actions that leave the intent as it is\<close>

definition steady :: "xs \<Rightarrow> xs \<Rightarrow> bool" where
  "steady s s' \<longleftrightarrow> grown (x_log s) (x_log s') \<and> x_live s' = x_live s \<and> x_active s' = x_active s \<and>
     x_plan s' = x_plan s \<and> x_index s' = x_index s"

interpretation st: run_relation steady
  by unfold_locales (auto simp: steady_def intro: grown_trans)

lemma st_ask: "moves steady (ask f)"
  by (simp add: moves_def ask_def steady_def)

lemma st_emit: "\<not> counts e \<Longrightarrow> moves steady (emit e)"
  unfolding emit_def by (rule st.w_upd) (simp add: steady_def)

lemma st_inc: "moves steady (inc_order c)"
  unfolding inc_order_def by (rule st_emit) simp

lemma st_ledger: "moves steady (ledger w op)"
proof -
  have "moves steady (\<lambda>s. if \<not> ok then (Inl OSError, s)
       else (case ledger_step (w_isofmt w) op (x_journal s) of
               Inl e \<Rightarrow> (Inl e, s)
             | Inr j \<Rightarrow> (Inr (), s\<lparr>x_journal := j\<rparr>)))" for ok
    by (auto simp: moves_def steady_def split: sum.split)
  then show ?thesis unfolding ledger_def by (intro st.w st_ask)
qed

lemmas st_basic = st.w st_ask st_inc st_ledger

lemma st_evaluate: "moves steady (x_evaluate w now)"
  unfolding x_evaluate_def by (intro st_basic st_emit st.w_upd) (simp_all add: steady_def)

lemma st_journal_intent: "moves steady (journal_intent w i out rs q)"
  unfolding journal_intent_def by (intro st_basic)

lemma st_journal_plan: "moves steady (journal_plan w ts v now pid doc d rs is)"
  unfolding journal_plan_def by (intro st_basic)

lemma st_update_row: "moves steady (update_row w st e q)"
  unfolding update_row_def by (intro st_basic)

lemma st_mark: "moves steady (mark_ambiguous w what)"
  unfolding mark_ambiguous_def by (intro st_basic st_update_row)

lemma st_send_cancel: "moves steady (send_cancel w c)"
  unfolding send_cancel_def by (intro st_basic st_emit) simp

lemma st_cancel: "moves steady (cancel w)"
  unfolding cancel_def by (intro st_basic st_send_cancel)

lemma st_unsubscribe: "moves steady unsubscribe"
  unfolding unsubscribe_def by (intro st_basic st_emit) simp

lemma st_refuse_from: "moves steady (refuse_from w r is)"
  by (induction "is") (auto intro!: st_basic st_journal_intent)

lemma st_cancel_all: "moves steady (cancel_all w req cs)"
  unfolding cancel_all_def by (induction cs) (auto intro!: st_basic st_send_cancel)

lemma st_refuse_submission: "moves steady (refuse_submission w rs)"
  unfolding refuse_submission_def by (intro st_basic st_journal_intent)

lemma st_write_ahead: "moves steady (write_ahead w ts row v)"
  unfolding write_ahead_def by (intro st_basic)

lemma st_over_cap: "moves steady (over_cap_reason w q p)"
  unfolding over_cap_reason_def by (intro st_basic st.w_upd) (simp_all add: steady_def)

lemma st_arm_reread: "moves steady arm_reread"
  unfolding arm_reread_def by (rule st.w_upd) (simp add: steady_def)

lemma st_publish: "moves steady (publish_fill ev)"
  unfolding publish_fill_def by (rule st_emit) simp

lemma st_fill_payload: "moves steady (fill_payload w ev c)"
  unfolding fill_payload_def by (intro st_basic)

lemma st_event_payload: "moves steady (event_payload w ev)"
  unfolding event_payload_def by (intro st_basic)

lemma st_fill_credit: "moves steady (fill_credit w row q)"
  unfolding fill_credit_def by (intro st_basic st_arm_reread st.w_upd) (simp_all add: steady_def)

lemma st_mirror: "moves steady (mirror k q)"
  unfolding mirror_def by (intro st_basic st.w_upd) (simp_all add: steady_def)

lemma st_mirror_row_fill: "moves steady (mirror_row_fill c q)"
  unfolding mirror_row_fill_def by (intro st_basic st_mirror)

lemma st_venue_terminal: "moves steady (venue_terminal_state w ev)"
  unfolding venue_terminal_state_def by (intro st_basic st_arm_reread)

lemma st_settle_restored: "moves steady (settle_restored_intent w b row)"
  unfolding settle_restored_intent_def by (intro st_basic)

lemma st_set_row_state: "moves steady (set_row_state w b k t)"
  unfolding set_row_state_def by (intro st_basic st.w_upd) (simp_all add: steady_def)

lemma st_settle_row: "moves steady (settle_row w b k)"
  unfolding settle_row_def by (intro st_basic st_settle_restored)

lemma st_restored_event: "moves steady (restored_event w ev b k)"
  unfolding restored_event_def by (intro st_basic st_set_row_state st_settle_row st_venue_terminal)

section \<open>Actions that may end the intent\<close>

text \<open>
  \<open>loose\<close>: nothing is sent or started, and an intent still in flight is the same one with the same
  counters, not moved into a waiting phase. \<open>calm\<close>: also a revocation under way stays one.
\<close>

definition kept :: "active \<Rightarrow> active \<Rightarrow> bool" where
  "kept a b \<longleftrightarrow> a_index b = a_index a \<and> a_reprices b = a_reprices a \<and> a_ioc_attempts b = a_ioc_attempts a \<and>
     (a_phase b = a_phase a \<or> a_phase b \<in> {Cancelling, Done})"

definition loose :: "xs \<Rightarrow> xs \<Rightarrow> bool" where
  "loose s s' \<longleftrightarrow> grown (x_log s) (x_log s') \<and> (x_live s' \<longrightarrow> x_live s \<and> kept (x_active s) (x_active s'))"

definition revoked :: "active \<Rightarrow> bool" where
  "revoked a \<longleftrightarrow> a_cancel_requested a \<and> \<not> a_falling_back a \<and> a_phase a \<in> {Cancelling, Done}"

definition calm :: "xs \<Rightarrow> xs \<Rightarrow> bool" where
  "calm s s' \<longleftrightarrow> loose s s' \<and> (x_live s' \<longrightarrow> revoked (x_active s) \<longrightarrow> revoked (x_active s'))"

lemma kept_refl: "kept a a" by (simp add: kept_def)

lemma kept_trans: "kept a b \<Longrightarrow> kept b c \<Longrightarrow> kept a c" by (auto simp: kept_def)

lemma loose_refl: "loose s s" by (simp add: loose_def kept_refl)

lemma loose_trans: "loose s t \<Longrightarrow> loose t u \<Longrightarrow> loose s u"
  unfolding loose_def using grown_trans kept_trans by blast

lemma calm_trans: "calm s t \<Longrightarrow> calm t u \<Longrightarrow> calm s u"
  unfolding calm_def using loose_trans by (metis loose_def)

interpretation lo: run_relation loose
  by unfold_locales (rule loose_refl, rule loose_trans)

interpretation ca: run_relation calm
  by unfold_locales (simp add: calm_def loose_refl, rule calm_trans)

lemma steady_calm: "steady s s' \<Longrightarrow> calm s s'"
  by (auto simp: steady_def calm_def loose_def kept_refl)

lemma moves_mono: "moves R m \<Longrightarrow> (\<And>s s'. R s s' \<Longrightarrow> R' s s') \<Longrightarrow> moves R' m"
  by (auto simp: moves_def)

lemma st_ca: "moves steady m \<Longrightarrow> moves calm m"
  by (erule moves_mono) (rule steady_calm)

lemma ca_lo: "moves calm m \<Longrightarrow> moves loose m"
  by (erule moves_mono) (simp add: calm_def)

lemmas st_all = st_ask st_inc st_ledger st_evaluate st_journal_intent st_journal_plan st_update_row st_mark
  st_send_cancel st_cancel st_unsubscribe st_refuse_from st_cancel_all st_refuse_submission st_write_ahead
  st_over_cap st_arm_reread st_publish st_fill_payload st_event_payload st_fill_credit st_mirror
  st_mirror_row_fill st_venue_terminal st_restored_event

lemmas ca_st = st_all [THEN st_ca]

lemma ca_emit: "\<not> counts e \<Longrightarrow> moves calm (emit e)"
  by (rule st_ca [OF st_emit])

lemma ca_updA:
  "(\<And>a. kept a (f a) \<and> (revoked a \<longrightarrow> revoked (f a))) \<Longrightarrow> moves calm (updA f)"
  unfolding updA_def by (rule ca.w_upd) (simp add: calm_def loose_def)

lemma ca_enter:
  assumes "p = Cancelling \<or> p = Done"
  shows "moves calm (enter w p)"
proof -
  have ph: "moves calm (updA (\<lambda>a. a\<lparr>a_phase := p\<rparr>))"
    using assms by (intro ca_updA) (auto simp: kept_def revoked_def)
  show ?thesis unfolding enter_def by (intro ph ca.w ca_st ca_updA) (auto simp: kept_def revoked_def)
qed

lemma ca_revoke: "moves calm (revoke w rs)"
  unfolding revoke_def by (intro ca.w ca_st ca_updA ca_enter) (auto simp: kept_def revoked_def)

lemma ca_drop_plan: "moves calm drop_plan"
  unfolding drop_plan_def by (rule ca.w_upd) (simp add: calm_def loose_def kept_def)

lemma ca_halt: "moves calm (halt_plan w i r)"
  unfolding halt_plan_def by (intro ca.w ca_st ca_drop_plan)

lemma ca_cancel_resting: "moves calm (cancel_resting w live)"
  unfolding cancel_resting_def by (intro ca.w ca_st ca_updA) (auto simp: kept_def revoked_def)

lemma ca_trip: "moves calm (trip_kill w r)"
  unfolding trip_kill_def
  by (intro ca.w ca_st ca_cancel_resting ca_halt ca_drop_plan ca_emit ca.w_upd) (simp_all add: calm_def loose_def kept_def)

lemma ca_reconcile: "moves calm (reconcile_terminal w)"
  unfolding reconcile_terminal_def by (intro ca.w ca_st ca_trip)

lemma ca_finish: "moves calm (finish_active w out rs q)"
  unfolding finish_active_def
  by (intro ca.w ca_st ca_reconcile ca_enter ca.w_upd) (simp_all add: calm_def loose_def kept_def)

lemma ca_finish_filled: "moves calm (finish_filled w out rs)"
  unfolding finish_filled_def by (intro ca.w ca_finish)

lemma ca_finish_revoked: "moves calm (finish_revoked w)"
  unfolding finish_revoked_def by (intro ca.w ca_finish ca_halt)

lemma ca_drop: "moves calm (drop_remainder w)"
  unfolding drop_remainder_def by (intro ca.w ca_st ca_halt)

lemma ca_strand: "moves calm (strand_ambiguous w r)"
  unfolding strand_ambiguous_def by (intro ca.w ca_st ca_drop)

lemma ca_record_trip_fill: "moves calm (record_trip_fill w b row ev q)"
  unfolding record_trip_fill_def by (intro ca.w ca_st ca_updA) (auto simp: kept_def revoked_def)

lemma ca_trip_on_fill: "moves calm (trip_on_fill w ev)"
  unfolding trip_on_fill_def by (intro ca.w ca_st ca_record_trip_fill ca_trip)

lemma ca_net_foreign: "moves calm (net_foreign_fill w row ev q)"
  unfolding net_foreign_fill_def by (intro ca.w ca_st ca_updA) (auto simp: kept_def revoked_def)

lemma ca_on_fill: "moves calm (on_fill w ev)"
  unfolding on_fill_def by (intro ca.w ca_st ca_finish_filled ca_updA) (auto simp: kept_def revoked_def)

lemma ca_detached: "moves calm (on_detached_event w ev)"
  unfolding on_detached_event_def
  by (intro ca.w ca_st ca_net_foreign ca_updA ca.w_upd) (auto simp: kept_def revoked_def calm_def loose_def)

lemma ca_on_accepted: "moves calm (on_accepted w ev pl)"
  unfolding on_accepted_def by (intro ca.w ca_st ca_enter ca_updA) (auto simp: kept_def revoked_def)

lemma ca_refuse_intent: "moves calm (refuse_intent w i rs)"
  unfolding refuse_intent_def by (intro ca.w ca_st ca.w_upd) (simp_all add: calm_def loose_def kept_def)

lemmas ca_all = ca_st ca_revoke ca_drop_plan ca_halt ca_trip ca_finish ca_finish_filled ca_finish_revoked
  ca_drop ca_strand ca_trip_on_fill ca_on_fill ca_detached ca_on_accepted

section \<open>One order\<close>

text \<open>Orders since the intent was started, newest effect first, and the bound on every moment of the log.\<close>

fun sends :: "effect list \<Rightarrow> nat" where
  "sends [] = 0"
| "sends (Sent c i it p # l) = Suc (sends l)"
| "sends (Started i # l) = 0"
| "sends (e # l) = sends l"

definition MAX_ORDERS :: nat where
  "MAX_ORDERS = 1 + MAX_REPRICES + MAX_IOC_ATTEMPTS"

fun bounded :: "effect list \<Rightarrow> bool" where
  "bounded [] = True"
| "bounded (e # l) = (sends (e # l) \<le> MAX_ORDERS \<and> bounded l)"

lemma sends_quiet: "\<not> counts e \<Longrightarrow> sends (e # l) = sends l"
  by (cases e) simp_all

lemma bounded_sends: "bounded l \<Longrightarrow> sends l \<le> MAX_ORDERS"
  by (cases l) simp_all

lemma grown_sends:
  assumes "grown l l'"
  shows "sends l' = sends l" "bounded l \<Longrightarrow> bounded l'"
proof -
  from assms obtain es where l': "l' = es @ l" "\<forall>e \<in> set es. \<not> counts e" by (auto simp: grown_def)
  from l'(2) have s: "sends (es @ l) = sends l" by (induction es) (simp_all add: sends_quiet)
  with l' show "sends l' = sends l" by simp
  from l'(2) show "bounded l'" if "bounded l"
    unfolding l'(1) by (induction es) (use that bounded_sends in \<open>auto simp: sends_quiet\<close>)
qed

text \<open>What a returned submission changed: one order more, on the intent in flight.\<close>

definition one_more :: "xs \<Rightarrow> xs \<Rightarrow> bool" where
  "one_more s s' \<longleftrightarrow> x_live s' = x_live s \<and> x_plan s' = x_plan s \<and> x_plan s \<noteq> None \<and>
     (\<exists>c. x_active s' = (x_active s)\<lparr>a_coid := Some c\<rparr>) \<and>
     (\<exists>t e c. grown (x_log s) t \<and> is_sent e \<and> grown (e # Ledgered c # t) (x_log s'))"

lemma journal_intent_returns:
  assumes "x_plan s \<noteq> None"
  obtains b s' where "journal_intent w i out rs q s = (Inr b, s')"
proof -
  from assms obtain pl where "x_plan s = Some pl" by blast
  then have "\<exists>b s'. journal_intent w i out rs q s = (Inr b, s')"
    by (simp add: journal_intent_def steps catch_returns)
  then show ?thesis using that by blast
qed

lemma mark_returns:
  obtains s' where "mark_ambiguous w what s = (Inr (), s')"
proof -
  have "\<exists>u s'. mark_ambiguous w what s = (Inr u, s')"
    unfolding mark_ambiguous_def skip_def by (rule catch_returns)
  then show ?thesis using that by auto
qed

lemma movesD: "moves R m \<Longrightarrow> m s = (r, s') \<Longrightarrow> R s s'"
  unfolding moves_def by (metis snd_conv)

lemma send_order_result:
  assumes "x_plan s \<noteq> None" and "send_order w coid row s = (r, s')"
  shows "(r = Inr Submitted \<or> r = Inr Ambiguous) \<and> one_more s s'"
proof -
  let ?a = "x_active s"
  define t where "t = s\<lparr>x_active := ?a\<lparr>a_coid := Some coid\<rparr>,
     x_rows := AList.update coid (x_cycle_ts s, row) (x_rows s),
     x_attached := AList.update coid coid (x_attached s),
     x_log := Sent coid (a_index ?a) (a_intent ?a) (obj_of (dget row ''order'')) # Ledgered coid # x_log s,
     x_ticks := x_ticks s + 1\<rparr>"
  have t: "x_plan t \<noteq> None" using assms(1) by (simp add: t_def)
  have more: "one_more s u" if "steady t u" for u
    using that assms(1) unfolding one_more_def steady_def t_def
    by (auto intro!: exI [of _ "x_log s"] exI [of _ "Sent coid (a_index ?a) (a_intent ?a) (obj_of (dget row ''order''))"] exI [of _ coid])
  have run: "send_order w coid row s = (if w_submit w (x_ticks s) then sq (inc_order ''submitted'') (ret Submitted)
       else sq (mark_ambiguous w ''submit raised'')
            (sq (journal_intent w (a_index ?a) ''ambiguous'' [''submit raised -- venue outcome unknown''] (a_filled ?a))
            (sq (inc_order ''ambiguous'') (ret Ambiguous)))) t"
    by (simp add: send_order_def steps t_def)
  show ?thesis
  proof (cases "w_submit w (x_ticks s)")
    case True
    with run assms(2) have "r = Inr Submitted" "steady t s'"
      by (auto simp: inc_order_def steps steady_def)
    with more show ?thesis by blast
  next
    case False
    obtain t1 where t1: "mark_ambiguous w ''submit raised'' t = (Inr (), t1)" by (rule mark_returns)
    with st_mark have s1: "steady t t1" by (metis movesD)
    with t have "x_plan t1 \<noteq> None" by (simp add: steady_def)
    then obtain b t2 where t2: "journal_intent w (a_index ?a) ''ambiguous''
        [''submit raised -- venue outcome unknown''] (a_filled ?a) t1 = (Inr b, t2)"
      by (rule journal_intent_returns)
    with st_journal_intent have "steady t1 t2" by (metis movesD)
    with s1 have "steady t t2" by (rule st.trans)
    moreover from False run assms(2) t1 t2 have "r = Inr Ambiguous" "s' = t2\<lparr>x_log := Counted ''ambiguous'' # x_log t2\<rparr>"
      by (auto simp: steps inc_order_def)
    moreover have "steady t2 (t2\<lparr>x_log := Counted ''ambiguous'' # x_log t2\<rparr>)" by (simp add: steady_def)
    ultimately show ?thesis using more st.trans by blast
  qed
qed

lemma submit_result:
  assumes "submit w coid s = (r, s')"
  shows "(r = Inr Submitted \<or> r = Inr Ambiguous) \<and> one_more s s' \<or>
    ((\<exists>e. r = Inl e) \<or> r = Inr Refused) \<and> steady s s'"
proof -
  define s1 where "s1 = s\<lparr>x_ticks := x_ticks s + 1\<rparr>"
  have s1: "steady s s1" by (simp add: s1_def steady_def)
  obtain v s2 where ev: "x_evaluate w (w_now w (x_ticks s)) s1 = (v, s2)" by force
  with st_evaluate have "steady s1 s2" by (metis movesD)
  with s1 have s2: "steady s s2" by (rule st.trans)
  have refused: "((\<exists>e. r' = Inl e) \<or> r' = Inr Refused) \<and> steady s t'"
    if "refuse_submission w rs t = (r', t')" "steady s t" for rs t r' t'
  proof -
    from st_refuse_submission that(1) have "steady t t'" by (metis movesD)
    with that(2) have "steady s t'" by (rule st.trans)
    moreover have "(\<exists>e. r' = Inl e) \<or> r' = Inr Refused"
      using that(1) unfolding refuse_submission_def inc_order_def
      by (cases "journal_intent w (a_index (x_active t)) ''refused'' rs (a_filled (x_active t)) t")
        (auto simp: steps bnd_def sq_def split: sum.splits)
    ultimately show ?thesis by blast
  qed
  show ?thesis
  proof (cases v)
    case (Inl e)
    with assms ev s2 show ?thesis by (auto simp: submit_def steps s1_def)
  next
    case v: (Inr v')
    let ?a = "x_active s2"
    show ?thesis
    proof (cases "x_kill s2 \<or> \<not> level_permits (v_level v') (a_intent ?a)")
      case True
      with assms ev v have "\<exists>rs. refuse_submission w rs s2 = (r, s')"
        by (auto simp: submit_def steps s1_def split: if_splits)
      with refused s2 show ?thesis by blast
    next
      case permitted: False
      show ?thesis
      proof (cases "x_plan s2")
        case None
        with permitted assms ev v s2 show ?thesis by (auto simp: submit_def steps s1_def)
      next
        case (Some pl)
        let ?row = "submitted_row pl ?a coid"
        obtain b j where wa: "write_ahead w (x_cycle_ts s2) ?row v' s2 =
            (Inr b, s2\<lparr>x_ticks := x_ticks s2 + 2, x_journal := j\<rparr>)"
          by (rule write_ahead_cases [of w "x_cycle_ts s2" ?row v' s2]) blast
        let ?s3 = "s2\<lparr>x_ticks := x_ticks s2 + 2, x_journal := j\<rparr>"
        have s3: "steady s ?s3" using s2 by (simp add: steady_def)
        have run: "submit w coid s = (if b then send_order w coid ?row
            else refuse_submission w [''exec ledger write failed'']) ?s3"
          using permitted Some ev v wa by (simp add: submit_def steps s1_def Let_def)
        show ?thesis
        proof (cases b)
          case False
          with run assms have "refuse_submission w [''exec ledger write failed''] ?s3 = (r, s')" by simp
          from refused [OF this s3] show ?thesis by blast
        next
          case True
          with run assms have "send_order w coid ?row ?s3 = (r, s')" by simp
          from send_order_result [OF _ this] Some
          have "(r = Inr Submitted \<or> r = Inr Ambiguous) \<and> one_more ?s3 s'" by simp
          with s3 show ?thesis unfolding one_more_def steady_def by (metis grown_trans)
        qed
      qed
    qed
  qed
qed

section \<open>The ladder\<close>

definition waiting :: "phase \<Rightarrow> bool" where
  "waiting p \<longleftrightarrow> p = AwaitingQuote \<or> p = AwaitingReprice"

definition spent :: "active \<Rightarrow> nat" where
  "spent a = min MAX_REPRICES (a_reprices a) + a_ioc_attempts a"

text \<open>
  \<open>in_budget\<close> holds between events: an intent in flight has sent no more than its counters account for,
  one fewer where it waits to price its next order. \<open>may_send\<close>: one more order is accounted for.
\<close>

definition in_budget :: "xs \<Rightarrow> bool" where
  "in_budget s \<longleftrightarrow> bounded (x_log s) \<and>
     (x_live s \<longrightarrow> a_ioc_attempts (x_active s) \<le> MAX_IOC_ATTEMPTS \<and>
        sends (x_log s) \<le> (if waiting (a_phase (x_active s)) then 0 else 1) + spent (x_active s))"

definition may_send :: "xs \<Rightarrow> bool" where
  "may_send s \<longleftrightarrow> bounded (x_log s) \<and> x_live s \<and> a_ioc_attempts (x_active s) \<le> MAX_IOC_ATTEMPTS \<and>
     sends (x_log s) \<le> spent (x_active s)"

lemma may_send_in_budget: "may_send s \<Longrightarrow> in_budget s"
  by (simp add: may_send_def in_budget_def)

lemma waiting_may_send: "in_budget s \<Longrightarrow> x_live s \<Longrightarrow> waiting (a_phase (x_active s)) \<Longrightarrow> may_send s"
  by (simp add: may_send_def in_budget_def)

lemma loose_in_budget:
  assumes "loose s s'" and "in_budget s"
  shows "in_budget s'"
proof -
  have g: "sends (x_log s') = sends (x_log s)" "bounded (x_log s')"
    using assms grown_sends by (auto simp: loose_def in_budget_def)
  show ?thesis
    using assms g
    by (auto simp: loose_def in_budget_def kept_def spent_def waiting_def split: if_splits)
qed

lemma loose_dead:
  "loose s s' \<Longrightarrow> \<not> x_live s' \<Longrightarrow> bounded (x_log s) \<Longrightarrow> in_budget s'"
  by (simp add: in_budget_def loose_def grown_sends)

lemma calm_after: "moves calm m \<Longrightarrow> in_budget s \<Longrightarrow> in_budget (snd (m s))"
  unfolding moves_def using loose_in_budget by (auto simp: calm_def)

lemma one_more_sends:
  assumes "one_more s s'"
  shows "sends (x_log s') = Suc (sends (x_log s))"
    "bounded (x_log s) \<Longrightarrow> sends (x_log s) < MAX_ORDERS \<Longrightarrow> bounded (x_log s')"
proof -
  from assms obtain t e c where t: "grown (x_log s) t" "is_sent e" "grown (e # Ledgered c # t) (x_log s')"
    by (auto simp: one_more_def)
  have e: "sends (e # Ledgered c # t) = Suc (sends t)" using t(2) by (cases e) simp_all
  show "sends (x_log s') = Suc (sends (x_log s))" using grown_sends(1) [OF t(1)] grown_sends(1) [OF t(3)] e by simp
  show "bounded (x_log s')" if "bounded (x_log s)" "sends (x_log s) < MAX_ORDERS"
    using grown_sends [OF t(1)] grown_sends(2) [OF t(3)] e that by simp
qed

text \<open>After one more order the intent, resting or as an IOC, is again within its budget.\<close>

definition sent_in_budget :: "xs \<Rightarrow> bool" where
  "sent_in_budget s \<longleftrightarrow> bounded (x_log s) \<and> x_live s \<and> a_ioc_attempts (x_active s) \<le> MAX_IOC_ATTEMPTS \<and>
    sends (x_log s) \<le> 1 + spent (x_active s) \<and> x_plan s \<noteq> None"

lemma may_send_one_more:
  assumes "may_send s" and "one_more s s'"
  shows "sent_in_budget s'"
proof -
  have "spent (x_active s) < MAX_ORDERS"
    using assms(1) by (auto simp: may_send_def spent_def MAX_ORDERS_def min_def)
  with assms one_more_sends [OF assms(2)] show ?thesis
    by (auto simp: may_send_def one_more_def spent_def sent_in_budget_def)
qed

lemma place_result:
  assumes "place w q p ioc po s = (r, s')" and "may_send s"
  shows "(\<exists>d. r = Inr (Submitted, d) \<or> r = Inr (Ambiguous, d)) \<and> sent_in_budget s' \<or>
    (\<forall>d. r \<noteq> Inr (Submitted, d) \<and> r \<noteq> Inr (Ambiguous, d)) \<and> in_budget s'"
proof (cases "size_probe_order q p (a_constraints (x_active s))")
  case (Inl e)
  with assms may_send_in_budget [OF assms(2)] show ?thesis
    by (auto simp: place_def steps split: if_splits)
next
  case (Inr sz)
  show ?thesis
  proof (cases sz)
    case (Below b)
    with Inr assms may_send_in_budget [OF assms(2)] show ?thesis by (auto simp: place_def steps)
  next
    case (Sized so)
    have ticked: "in_budget (s\<lparr>x_ticks := n\<rparr>)" for n
      using may_send_in_budget [OF assms(2)] by (simp add: in_budget_def)
    show ?thesis
    proof (cases "w_instrument w (x_ticks s)")
      case False
      with Inr Sized assms(1) ticked show ?thesis by (auto simp: place_def steps)
    next
      case known: True
      show ?thesis
      proof (cases "w_build w (x_ticks s + 1)")
        case None
        with Inr Sized known assms(1) ticked show ?thesis by (auto simp: place_def steps)
      next
        case (Some coid)
        let ?u = "\<lambda>a. a\<lparr>a_order := Some coid, a_order_qty := so_qty so, a_order_filled := Fin 0,
                              a_cancel_requested := False, a_falling_back := False,
                              a_order_payload := Some (order_payload (x_active s) so ioc po),
                              a_priced_seq := a_quote_seq a\<rparr>"
        let ?t = "s\<lparr>x_ticks := x_ticks s + 2, x_active := ?u (x_active s)\<rparr>"
        obtain r1 s1 where sub: "submit w coid ?t = (r1, s1)" by force
        have run: "place w q p ioc po s = (case r1 of Inl e \<Rightarrow> (Inl e, s1) | Inr x \<Rightarrow> (Inr (x, ''''), s1))"
          using Inr Sized known Some sub by (simp add: place_def steps split: sum.split)
        have t: "may_send ?t" using assms(2) by (simp add: may_send_def spent_def)
        from submit_result [OF sub] show ?thesis
        proof
          assume "(r1 = Inr Submitted \<or> r1 = Inr Ambiguous) \<and> one_more ?t s1"
          with may_send_one_more [OF t] run assms(1) show ?thesis by auto
        next
          assume r1: "((\<exists>e. r1 = Inl e) \<or> r1 = Inr Refused) \<and> steady ?t s1"
          then have "loose ?t s1" using steady_calm by (simp add: calm_def)
          with may_send_in_budget [OF t] have "in_budget s1" by (auto intro: loose_in_budget)
          with r1 run assms(1) show ?thesis by auto
        qed
      qed
    qed
  qed
qed

lemma refuse_from_returns:
  assumes "x_plan s \<noteq> None"
  obtains s' where "refuse_from w r is s = (Inr (), s')"
proof -
  have "\<exists>s'. refuse_from w r is s = (Inr (), s')" using assms
  proof (induction "is" arbitrary: s)
    case Nil
    then show ?case by (simp add: steps)
  next
    case (Cons i "is")
    obtain b t where t: "journal_intent w i ''refused'' [r] (Fin 0) s = (Inr b, t)"
      by (rule journal_intent_returns [OF Cons.prems])
    with st_journal_intent have "steady s t" by (metis movesD)
    with Cons.prems have "x_plan (t\<lparr>x_log := Counted ''refused'' # x_log t\<rparr>) \<noteq> None" by (simp add: steady_def)
    from Cons.IH [OF this] t show ?case by (simp add: steps inc_order_def)
  qed
  then show ?thesis using that by blast
qed

lemma drop_remainder_dead:
  assumes "x_plan s \<noteq> None"
  shows "\<not> x_live (snd (drop_remainder w s))"
proof -
  let ?s1 = "s\<lparr>x_log := Unsubscribed (a_instrument_id (x_active s)) # x_log s\<rparr>"
  from assms obtain pl where pl: "x_plan s = Some pl" by blast
  then have "x_plan ?s1 \<noteq> None" by simp
  then obtain t where "refuse_from w ''not run -- an earlier intent ended ambiguous''
      [nat (int (a_index (x_active s)) + 1)..<length (p_intents pl)] ?s1 = (Inr (), t)"
    by (rule refuse_from_returns)
  with pl show ?thesis
    by (simp add: drop_remainder_def unsubscribe_def halt_plan_def drop_plan_def steps)
qed

lemma drop_remainder_in_budget:
  assumes "sent_in_budget s"
  shows "in_budget (snd (drop_remainder w s))"
proof (rule loose_dead)
  show "loose s (snd (drop_remainder w s))" using ca_lo [OF ca_drop] by (simp add: moves_def)
  show "\<not> x_live (snd (drop_remainder w s))" using assms by (intro drop_remainder_dead) (simp add: sent_in_budget_def)
  show "bounded (x_log s)" using assms by (simp add: sent_in_budget_def)
qed

text \<open>Entering a phase that holds an order.\<close>

lemma enter_in_budget:
  assumes "sent_in_budget s" and "\<not> waiting p"
  shows "in_budget (snd (enter w p s))"
proof -
  have "x_log (snd (enter w p s)) = x_log s" "x_live (snd (enter w p s)) = x_live s"
    "a_phase (x_active (snd (enter w p s))) = p"
    "a_ioc_attempts (x_active (snd (enter w p s))) = a_ioc_attempts (x_active s)"
    "spent (x_active (snd (enter w p s))) = spent (x_active s)"
    by (simp_all add: enter_def steps spent_def)
  with assms show ?thesis by (simp add: in_budget_def sent_in_budget_def)
qed

lemma snd_bnd: "snd (bnd m f s) = (case m s of (Inl e, t) \<Rightarrow> t | (Inr x, t) \<Rightarrow> snd (f x t))"
  by (auto simp: bnd_def split: prod.split sum.split)

lemma resubmit_in_budget:
  assumes "may_send s" and "\<not> waiting ph"
  shows "in_budget (snd (resubmit w p ioc po ph s))"
proof (cases "flt (owed (x_active s)) (k_lot_step (a_constraints (x_active s)))")
  case True
  then show ?thesis
    using calm_after [OF ca_finish_filled may_send_in_budget [OF assms(1)]] by (simp add: resubmit_def steps)
next
  case False
  obtain r t where pl: "place w (owed (x_active s)) p ioc po s = (r, t)" by force
  show ?thesis
    using place_result [OF pl assms(1)] False pl drop_remainder_in_budget enter_in_budget [OF _ assms(2)]
      calm_after [OF ca_finish_filled] calm_after [OF ca_finish]
    by (auto simp: resubmit_def steps snd_bnd split: sum.splits placed.splits)
qed

lemma first_submission_in_budget:
  assumes "may_send s"
  shows "in_budget (snd (first_submission w s))"
proof -
  have fin: "in_budget (snd (finish_active w out rs q t))" if "in_budget t" for out rs q t
    using calm_after [OF ca_finish that] .
  show ?thesis
  proof (cases "limit_price (x_active s)")
    case (Inl e)
    with may_send_in_budget [OF assms] show ?thesis by (simp add: first_submission_def steps)
  next
    case price: (Inr po)
    show ?thesis
    proof (cases po)
      case None
      with price fin may_send_in_budget [OF assms] show ?thesis by (simp add: first_submission_def steps)
    next
      case (Some p)
      show ?thesis
      proof (cases "target_of (x_active s) p")
        case (Inl e)
        with price Some may_send_in_budget [OF assms] show ?thesis by (simp add: first_submission_def steps)
      next
        case target: (Inr q)
        obtain o1 t where over: "over_cap_reason w q p s = (o1, t)" by force
        with st_over_cap have "steady s t" by (metis movesD)
        then have t: "may_send t" using assms grown_sends by (auto simp: may_send_def steady_def)
        obtain r u where pl: "place w q p False True t = (r, u)" by force
        have tgt: "sent_in_budget (v\<lparr>x_active := x_active v\<lparr>a_target_qty := x\<rparr>\<rparr>)" if "sent_in_budget v" for v x
          using that by (simp add: sent_in_budget_def spent_def)
        show ?thesis
          using place_result [OF pl t] price Some target over pl may_send_in_budget [OF t] fin
            drop_remainder_in_budget enter_in_budget [OF tgt]
          by (auto simp: first_submission_def steps snd_bnd waiting_def split: sum.splits option.splits placed.splits)
      qed
    qed
  qed
qed

lemma reprice_at_touch_in_budget:
  assumes "may_send s"
  shows "in_budget (snd (reprice_at_touch w s))"
  using calm_after [OF ca_finish_filled may_send_in_budget [OF assms]] may_send_in_budget [OF assms]
    resubmit_in_budget [OF assms, of Resting]
  by (auto simp: reprice_at_touch_def steps snd_bnd waiting_def lift_def split: sum.split option.split)

lemma fallback_in_budget:
  assumes "in_budget s" and "x_live s"
  shows "in_budget (snd (fallback w s))"
proof (cases "MAX_IOC_ATTEMPTS \<le> a_ioc_attempts (x_active s)")
  case True
  then show ?thesis using calm_after [OF ca_finish_filled assms(1)] by (simp add: fallback_def steps)
next
  case False
  let ?t = "s\<lparr>x_active := (x_active s)\<lparr>a_ioc_attempts := a_ioc_attempts (x_active s) + 1\<rparr>\<rparr>"
  have t: "may_send ?t"
    using assms False by (auto simp: may_send_def in_budget_def spent_def split: if_splits)
  show ?thesis
    using False calm_after [OF ca_finish_filled may_send_in_budget [OF t]] resubmit_in_budget [OF t, of Ioc]
    by (simp add: fallback_def steps waiting_def split: option.split)
qed

lemma reprice_in_budget:
  assumes "in_budget s" and "x_live s"
  shows "in_budget (snd (reprice w s))"
proof (cases "a_cancel_requested (x_active s)")
  case True
  then show ?thesis
    using calm_after [OF ca_finish_revoked assms(1)] fallback_in_budget [OF assms] by (simp add: reprice_def steps)
next
  case False
  let ?t = "s\<lparr>x_active := (x_active s)\<lparr>a_reprices := a_reprices (x_active s) + 1\<rparr>\<rparr>"
  have t: "in_budget ?t" "x_live ?t" using assms by (auto simp: in_budget_def spent_def split: if_splits)
  show ?thesis
  proof (cases "MAX_REPRICES < a_reprices (x_active ?t)")
    case True
    then show ?thesis
      using False fallback_in_budget [OF t] calm_after [OF ca_finish_filled t(1)] by (simp add: reprice_def steps)
  next
    case left: False
    then have may: "may_send ?t"
      using assms by (auto simp: may_send_def in_budget_def spent_def MAX_REPRICES_def split: if_splits)
    let ?u = "?t\<lparr>x_active := (x_active ?t)\<lparr>a_coid := None, a_order := None, a_phase := AwaitingReprice, a_phase_deadline := None\<rparr>\<rparr>"
    have "in_budget ?u" using may by (simp add: may_send_def in_budget_def spent_def waiting_def)
    then show ?thesis
      using False left reprice_at_touch_in_budget [OF may] by (simp add: reprice_def steps enter_def)
  qed
qed

section \<open>The handlers\<close>

text \<open>Handlers that may send are run with an intent in flight.\<close>

definition live_ok :: "'a act \<Rightarrow> bool" where
  "live_ok m \<longleftrightarrow> (\<forall>s. in_budget s \<longrightarrow> x_live s \<longrightarrow> in_budget (snd (m s)))"

lemma calm_keeps: "moves calm m \<Longrightarrow> keeps in_budget m"
  using calm_after by (auto simp: keeps_def)

lemma calm_live_ok: "moves calm m \<Longrightarrow> live_ok m"
  using calm_after by (auto simp: live_ok_def)

lemma steady_kept: "moves steady m \<Longrightarrow> m s = (r, t) \<Longrightarrow> in_budget s \<Longrightarrow> in_budget t \<and> x_live t = x_live s"
  using loose_in_budget steady_calm by (metis calm_def movesD steady_def)

lemma live_bnd: "moves steady m \<Longrightarrow> (\<And>x. live_ok (f x)) \<Longrightarrow> live_ok (bnd m f)"
proof -
  assume m: "moves steady m" and f: "\<And>x. live_ok (f x)"
  have "in_budget (snd (bnd m f s))" if "in_budget s" "x_live s" for s
  proof -
    obtain r t where run: "m s = (r, t)" by force
    from steady_kept [OF m run that(1)] that(2) f run show ?thesis
      by (simp add: snd_bnd live_ok_def split: sum.split)
  qed
  then show ?thesis by (simp add: live_ok_def)
qed

lemma live_sq: "moves steady m \<Longrightarrow> live_ok n \<Longrightarrow> live_ok (sq m n)"
  by (simp add: sq_def live_bnd)

lemma live_if: "(b \<Longrightarrow> live_ok m) \<Longrightarrow> (\<not> b \<Longrightarrow> live_ok n) \<Longrightarrow> live_ok (if b then m else n)" by simp

lemma live_Let: "(\<And>x. live_ok (f x)) \<Longrightarrow> live_ok (Let v f)" by simp

lemma live_guarded:
  assumes "live_ok m"
  shows "live_ok (guarded w what m)"
  unfolding live_ok_def
proof (intro allI impI)
  fix s assume s: "in_budget s" "x_live s"
  obtain r t where m: "m s = (r, t)" by force
  with assms s have t: "in_budget t" unfolding live_ok_def by (metis snd_conv)
  with m show "in_budget (snd (guarded w what m s))"
    using calm_after [OF ca_finish_filled t]
    by (simp add: guarded_def catch_def steps split: sum.split)
qed

lemma live_fallback: "live_ok (fallback w)" using fallback_in_budget by (simp add: live_ok_def)

lemma live_reprice: "live_ok (reprice w)" using reprice_in_budget by (simp add: live_ok_def)

lemmas live_rules = live_if live_Let live_guarded live_fallback live_reprice calm_live_ok
  [OF ca_finish_filled] calm_live_ok [OF ca_finish_revoked] calm_live_ok [OF ca_finish]

lemma live_on_rejected: "live_ok (on_rejected w r pl po)"
  unfolding on_rejected_def resubmit_on_event_def
  by (intro live_rules live_sq live_bnd st_all st.w calm_live_ok [OF ca_drop])

lemma live_on_cancel_ack: "live_ok (on_cancel_ack w pl)"
  unfolding on_cancel_ack_def resubmit_on_event_def
  by (intro live_rules live_sq live_bnd st_all st.w)

lemma live_own_event: "live_ok (on_own_event w ev)"
  unfolding on_own_event_def
  by (intro live_rules live_bnd live_sq st_all st.w live_on_rejected live_on_cancel_ack
      calm_live_ok [OF ca_strand] calm_live_ok [OF ca_on_accepted] calm_live_ok [OF ca_on_fill]
      calm_live_ok [OF ca_drop] calm_live_ok [OF st_ca [OF st_update_row]])

lemma keeps_if_live:
  assumes "live_ok m" and "keeps in_budget n" and "\<And>s. b s \<Longrightarrow> x_live s"
  shows "keeps in_budget (bnd (get b) (\<lambda>yes. if yes then m else n))"
  using assms by (auto simp: keeps_def live_ok_def steps)

lemma order_event_in_budget: "keeps in_budget (on_order_event w ev)"
  unfolding on_order_event_def on_order_event_raw_def
  by (intro keeps_catch keeps_bnd keeps_if keeps_skip keeps_ret calm_keeps [OF ca_trip_on_fill]
      keeps_if_live live_own_event calm_keeps [OF ca_detached]) simp

lemma quote_in_budget: "keeps in_budget (on_quote w q)"
proof -
  let ?store = "\<lambda>bid ask_px. bnd (ask (w_now w)) (\<lambda>now. updA (\<lambda>a. a\<lparr>a_bid := bid, a_ask := ask_px,
                  a_last_quote_at := Some now, a_quote_seq := a_quote_seq a + 1\<rparr>))"
  let ?go = "\<lambda>stored. bnd (getA a_phase) (\<lambda>ph.
            if ph = AwaitingQuote then first_submission w
            else if ph = AwaitingReprice \<and> stored then reprice_at_touch w
            else skip)"
  have go: "live_ok (?go stored)" for stored
    using first_submission_in_budget reprice_at_touch_in_budget waiting_may_send
    by (auto simp: live_ok_def steps waiting_def)
  have store: "live_ok (sq (if stored then ?store bid ask_px else skip) n)" if "live_ok n" for stored bid ask_px n
    using that by (auto simp: live_ok_def steps in_budget_def spent_def)
  have body: "live_ok (bnd (getA a_instrument_id) (\<lambda>iid. if qt_instrument_id q \<noteq> iid then skip else
         (let bid = as_price (qt_bid q); ask_px = as_price (qt_ask q); stored = (bid \<noteq> None \<and> ask_px \<noteq> None) in
          sq (if stored then ?store bid ask_px else skip) (?go stored))))"
    by (intro live_bnd live_if live_Let store go st.w calm_live_ok [OF ca.w_skip])
  show ?thesis
    unfolding keeps_def
  proof (intro allI impI)
    fix s assume s: "in_budget s"
    show "in_budget (snd (on_quote w q s))"
    proof (cases "x_live s")
      case True
      with live_guarded [OF body] s show ?thesis
        by (simp add: on_quote_def guarded_def catch_def live_ok_def steps)
    next
      case False
      with s show ?thesis by (simp add: on_quote_def guarded_def catch_def steps)
    qed
  qed
qed


section \<open>The timer\<close>

lemma lo_updA: "(\<And>a. kept a (f a)) \<Longrightarrow> moves loose (updA f)"
  unfolding updA_def by (rule lo.w_upd) (simp add: loose_def)

lemma loose_live_ok: "moves loose m \<Longrightarrow> live_ok m"
  using loose_in_budget by (auto simp: moves_def live_ok_def)

lemma lo_poll_resting: "moves loose (poll_resting w now v)"
  unfolding poll_resting_def
  by (intro lo.w lo_updA ca_lo [OF ca_revoke] ca_lo [OF ca_enter] ca_lo [OF st_ca [OF st_cancel]])
    (simp_all add: kept_def)

lemma live_time_box: "live_ok (time_box_with_nothing_resting w)"
  unfolding time_box_with_nothing_resting_def by (intro live_rules live_bnd st.w)

lemma live_poll_awaiting: "live_ok (poll_awaiting_reprice w now v)"
  unfolding poll_awaiting_reprice_def
  by (intro live_rules live_bnd st.w live_time_box calm_live_ok [OF ca.w_sq] ca_updA ca_finish_revoked
      calm_live_ok [OF ca.w_skip]) (auto simp: kept_def revoked_def)

lemma live_phase:
  "live_ok x \<Longrightarrow> live_ok y \<Longrightarrow> live_ok z \<Longrightarrow> live_ok u \<Longrightarrow>
   live_ok (case p of AwaitingQuote \<Rightarrow> x | AwaitingReprice \<Rightarrow> y | Resting \<Rightarrow> z | _ \<Rightarrow> u)"
  by (cases p) simp_all

lemma live_poll: "live_ok (poll w now v)"
  unfolding poll_def
  by (intro live_bnd live_phase live_if st.w live_poll_awaiting loose_live_ok [OF lo_poll_resting]
      calm_live_ok [OF ca_finish] calm_live_ok [OF ca.w_skip] calm_live_ok [OF ca_strand])

lemma arm_in_budget: "a_phase a = AwaitingQuote \<Longrightarrow> a_ioc_attempts a = 0 \<Longrightarrow> keeps in_budget (arm_intent w now a)"
  using bounded_sends by (auto simp: keeps_def arm_intent_def steps in_budget_def waiting_def)

lemma start_in_budget: "keeps in_budget (start_intent w now pl index i)"
proof -
  have armed: "keeps in_budget (arm_intent w now (new_active index i (raw_intent pl index) k now d b ob))" for k d b ob
    by (rule arm_in_budget) (simp_all add: new_active_def)
  show ?thesis
    unfolding start_intent_def
    by (intro keeps armed calm_keeps [OF ca_refuse_intent] calm_keeps [OF ca.w_upd] ca_st [THEN calm_keeps])
      (simp_all add: calm_def loose_def kept_def)
qed

lemma pump_loop_in_budget: "keeps in_budget (pump_loop w now n)"
proof (induction n)
  case (Suc n)
  show ?case unfolding pump_loop.simps
    by (intro keeps start_in_budget Suc calm_keeps [OF ca.w_upd]) (simp add: calm_def loose_def kept_refl)
qed (simp add: keeps_skip)

lemma pump_in_budget: "keeps in_budget (pump w now)"
  unfolding pump_def
  by (intro keeps keeps_if_live live_poll pump_loop_in_budget ca_st [THEN calm_keeps]) simp

lemma ca_accept_plan: "moves calm (accept_plan w pl ts now drill)"
  unfolding accept_plan_def journal_refusal_def nothing_in_flight_def mixed_inventory_refusals_def
  by (intro ca.w ca_st ca.w_upd) (simp_all add: calm_def loose_def kept_refl)

lemma ca_pickup: "moves calm (pickup w d ts now)"
  unfolding pickup_def refuse_unparseable_def
  by (intro ca.w ca_st ca_accept_plan ca_drop_plan)

lemma handle_in_budget: "keeps in_budget (handle w ev)"
proof (cases ev)
  case (Drop d ts now)
  then show ?thesis by (simp add: calm_keeps [OF ca_pickup])
qed (auto simp: tick_def quote_in_budget order_event_in_budget
    intro!: keeps_catch pump_in_budget calm_keeps [OF ca_drop_plan])

lemma run_in_budget: "in_budget s \<Longrightarrow> in_budget (run w es s)"
  using handle_in_budget by (induction es arbitrary: s) (simp_all add: keeps_def after_def)


section \<open>A revoked intent\<close>

definition still :: "'a act \<Rightarrow> bool" where
  "still m \<longleftrightarrow> (\<forall>s. x_live s \<longrightarrow> revoked (x_active s) \<longrightarrow> calm s (snd (m s)))"

lemma still_calm: "moves calm m \<Longrightarrow> still m"
  by (simp add: still_def moves_def)

lemma still_bnd:
  assumes m: "moves steady m" and f: "\<And>x. still (f x)"
  shows "still (bnd m f)"
  unfolding still_def
proof (intro allI impI)
  fix s :: xs assume s: "x_live s" "revoked (x_active s)"
  obtain r t where run: "m s = (r, t)" by force
  with m have t: "steady s t" by (rule movesD)
  show "calm s (snd (bnd m f s))"
  proof (cases r)
    case (Inl e)
    with run t show ?thesis by (simp add: snd_bnd steady_calm)
  next
    case (Inr x)
    from t s f have "calm t (snd (f x t))" by (simp add: steady_def still_def)
    with steady_calm [OF t] calm_trans run Inr show ?thesis by (simp add: snd_bnd)
  qed
qed

lemma still_sq: "moves steady m \<Longrightarrow> still n \<Longrightarrow> still (sq m n)"
  by (simp add: sq_def still_bnd)

lemma still_active: "(\<And>a. revoked a \<Longrightarrow> still (f a)) \<Longrightarrow> still (bnd (get x_active) f)"
  by (simp add: still_def steps)

lemma still_if: "(b \<Longrightarrow> still m) \<Longrightarrow> (\<not> b \<Longrightarrow> still n) \<Longrightarrow> still (if b then m else n)" by simp

lemma still_Let: "(\<And>x. still (f x)) \<Longrightarrow> still (Let v f)" by simp

lemma still_guarded:
  assumes "still m"
  shows "still (guarded w what m)"
  unfolding still_def
proof (intro allI impI)
  fix s :: xs assume s: "x_live s" "revoked (x_active s)"
  obtain r t where m: "m s = (r, t)" by force
  with assms s have "calm s t" unfolding still_def by (metis snd_conv)
  moreover have "calm t (snd (finish_filled w out rs t))" for out rs
    using ca_finish_filled by (simp add: moves_def)
  ultimately show "calm s (snd (guarded w what m s))"
    using m calm_trans by (auto simp: guarded_def catch_def steps split: sum.split)
qed

lemma still_reprice: "still (reprice w)"
  unfolding reprice_def
  by (intro still_active) (auto simp: revoked_def intro: still_calm ca_finish_revoked)

lemma still_on_rejected: "still (on_rejected w r pl po)"
  unfolding on_rejected_def resubmit_on_event_def
  by (intro still_if still_sq st_all still_guarded still_reprice still_calm ca_finish_filled ca.w ca_st ca_drop)

lemma still_on_cancel_ack: "still (on_cancel_ack w pl)"
  unfolding on_cancel_ack_def resubmit_on_event_def
  by (intro still_active) (auto simp: revoked_def Let_def intro!: still_calm ca.w ca_st ca_finish_filled ca_finish_revoked)

lemma still_own_event: "still (on_own_event w ev)"
  unfolding on_own_event_def
  by (intro still_if still_Let still_bnd still_sq st_all still_on_rejected still_on_cancel_ack
      still_calm [OF ca_on_accepted] still_calm [OF ca_on_fill] still_calm [OF ca_strand]
      still_calm [OF ca_finish_filled] still_calm [OF ca_st(7)] still_calm [OF ca.w_bnd] ca.w ca_st ca_drop)

lemma still_order_event: "still (on_order_event w ev)"
  unfolding still_def
proof (intro allI impI)
  fix s :: xs assume s: "x_live s" "revoked (x_active s)"
  let ?own = "on_own_event w ev"
  have "still (bnd (get (\<lambda>s. x_live s \<and> a_coid (x_active s) = Some (ev_coid ev))) (\<lambda>mine.
         if mine then ?own else on_detached_event w ev))"
    by (intro still_bnd still_if still_own_event still_calm [OF ca_detached] st.w)
  then have rest: "calm t (snd ((bnd (get (\<lambda>s. x_live s \<and> a_coid (x_active s) = Some (ev_coid ev))) (\<lambda>mine.
         if mine then ?own else on_detached_event w ev)) t))" if "calm s t" for t
    using that s ca_detached by (cases "x_live t") (auto simp: still_def calm_def steps moves_def)
  have "moves calm (if ev_kind ev = ''OrderFilled'' then trip_on_fill w ev else ret False)"
    by (intro ca.w ca_trip_on_fill)
  then obtain r t where first: "(if ev_kind ev = ''OrderFilled'' then trip_on_fill w ev else ret False) s = (r, t)"
    and t: "calm s t" by (metis movesD surj_pair)
  have "calm s (snd (on_order_event_raw w ev s))"
    using first t calm_trans [OF t rest [OF t]]
    by (auto simp: on_order_event_raw_def snd_bnd steps split: sum.split)
  then show "calm s (snd (on_order_event w ev s))"
    by (cases "on_order_event_raw w ev s") (auto simp: on_order_event_def catch_def steps split: sum.split)
qed

lemma still_quote: "still (on_quote w q)"
proof -
  have go: "still (bnd (getA a_phase) (\<lambda>ph. if ph = AwaitingQuote then first_submission w
            else if ph = AwaitingReprice \<and> stored then reprice_at_touch w else skip))" for stored
    by (auto simp: still_def steps revoked_def calm_def loose_def kept_refl)
  have store: "still (sq (if stored then bnd (ask (w_now w)) (\<lambda>now. updA (\<lambda>a. a\<lparr>a_bid := bid, a_ask := ask_px,
                  a_last_quote_at := Some now, a_quote_seq := a_quote_seq a + 1\<rparr>)) else skip)
          (bnd (getA a_phase) (\<lambda>ph. if ph = AwaitingQuote then first_submission w
            else if ph = AwaitingReprice \<and> stored then reprice_at_touch w else skip)))" for stored bid ask_px
    by (auto simp: still_def steps revoked_def calm_def loose_def kept_def)
  show ?thesis
    unfolding on_quote_def
    by (intro still_guarded still_bnd still_if still_Let store st.w still_calm ca.w_skip)
qed

lemma still_tick: "still (tick w now)"
  unfolding still_def
proof (intro allI impI)
  fix s :: xs assume s: "x_live s" "revoked (x_active s)"
  have poll: "still (poll w now v)" for v
    unfolding poll_def
    by (intro still_active) (auto simp: revoked_def intro!: still_calm ca.w ca_strand)
  have "still (bnd (x_evaluate w now) (\<lambda>v. bnd (get x_live) (\<lambda>live. if live then poll w now v else k)))" for k
  proof (rule still_bnd)
    show "still (bnd (get x_live) (\<lambda>live. if live then poll w now v else k))" for v
      using poll [of v] by (simp add: still_def steps)
  qed (rule st_all)
  with s have "calm s (snd (pump w now s))"
    by (auto simp: pump_def steps still_def calm_def loose_refl split: option.split)
  moreover have "calm t (snd (drop_plan t))" for t using ca_drop_plan by (simp add: moves_def)
  ultimately show "calm s (snd (tick w now s))"
    using calm_trans by (cases "pump w now s") (auto simp: tick_def catch_def split: sum.split)
qed

lemma still_handle: "still (handle w e)"
proof (cases e)
  case (Drop d ts now)
  then show ?thesis by (simp add: still_calm [OF ca_pickup])
qed (simp_all add: still_quote still_order_event still_tick)

lemma grown_filter: "grown l l' \<Longrightarrow> filter is_sent l' = filter is_sent l"
proof -
  assume "grown l l'"
  then obtain es where "l' = es @ l" "\<forall>e \<in> set es. \<not> counts e" by (auto simp: grown_def)
  moreover have "\<not> counts e \<Longrightarrow> \<not> is_sent e" for e by (cases e) simp_all
  ultimately show ?thesis by (auto simp: filter_empty_conv)
qed

section \<open>Every pump gets through its plan\<close>

text \<open>A started intent is in flight, or the index has moved past it.\<close>

definition advances :: "'a act \<Rightarrow> bool" where
  "advances m \<longleftrightarrow> (\<forall>s r s'. \<not> x_live s \<longrightarrow> m s = (Inr r, s') \<longrightarrow>
     x_live s' \<or> x_plan s' = x_plan s \<and> x_index s' = Suc (x_index s))"

lemma advances_bnd:
  assumes m: "moves steady m" and f: "\<And>x. advances (f x)"
  shows "advances (bnd m f)"
  unfolding advances_def
proof (intro allI impI)
  fix s s' :: xs and r assume s: "\<not> x_live s" and run: "bnd m f s = (Inr r, s')"
  from run obtain x t where m': "m s = (Inr x, t)" and rest: "f x t = (Inr r, s')"
    by (auto simp: bnd_def split: prod.splits sum.splits)
  from m m' have "steady s t" by (rule movesD)
  with s f [of x] rest show "x_live s' \<or> x_plan s' = x_plan s \<and> x_index s' = Suc (x_index s)"
    unfolding advances_def by (metis steady_def)
qed

lemma advances_sq: "moves steady m \<Longrightarrow> advances n \<Longrightarrow> advances (sq m n)"
  by (simp add: sq_def advances_bnd)

lemma advances_if: "(b \<Longrightarrow> advances m) \<Longrightarrow> (\<not> b \<Longrightarrow> advances n) \<Longrightarrow> advances (if b then m else n)" by simp

lemma advances_option:
  "advances n \<Longrightarrow> (\<And>x. advances (f x)) \<Longrightarrow> advances (case v of None \<Rightarrow> n | Some x \<Rightarrow> f x)"
  by (simp split: option.split)

lemma advances_Let: "(\<And>x. advances (f x)) \<Longrightarrow> advances (Let v f)" by simp

lemma advances_index: "advances (upd (\<lambda>s. s\<lparr>x_index := x_index s + 1\<rparr>))"
  by (simp add: advances_def upd_def)

lemma advances_refuse: "advances (refuse_intent w i rs)"
  unfolding refuse_intent_def by (intro advances_sq advances_index st_all)

lemma advances_arm: "advances (arm_intent w now a)"
  by (auto simp: advances_def arm_intent_def steps split: if_splits)

lemma advances_start: "advances (start_intent w now pl index i)"
  unfolding start_intent_def
  by (intro advances_bnd advances_sq advances_if advances_option advances_Let advances_index advances_refuse
      advances_arm st_all st.w)

lemma pump_loop_ends:
  assumes "\<not> x_live s" and "pump_loop w now n s = (Inr (), s')"
    and "case x_plan s of None \<Rightarrow> True | Some pl \<Rightarrow> length (p_intents pl) - x_index s < n"
  shows "x_live s' \<or> x_plan s' = None"
  using assms
proof (induction n arbitrary: s)
  case 0
  then show ?case by (simp add: steps split: option.splits)
next
  case (Suc n)
  show ?case
  proof (cases "x_plan s")
    case None
    with Suc.prems show ?thesis by (simp add: steps)
  next
    case (Some pl)
    show ?thesis
    proof (cases "length (p_intents pl) \<le> x_index s")
      case True
      with Some Suc.prems show ?thesis by (auto simp: steps)
    next
      case False
      with Some Suc.prems obtain r t where start: "start_intent w now pl (x_index s) (p_intents pl ! x_index s) s = (Inr r, t)"
        and rest: "pump_loop w now n t = (Inr (), s')"
        by (auto simp: steps bnd_def sq_def split: sum.splits prod.splits)
      show ?thesis
      proof (cases "x_live t")
        case True
        with rest show ?thesis by (cases n) (auto simp: steps split: option.splits)
      next
        case dead: False
        with advances_start [of w now pl "x_index s" "p_intents pl ! x_index s"] start Suc.prems(1)
        have "x_plan t = Some pl" "x_index t = Suc (x_index s)" unfolding advances_def Some [symmetric] by blast+
        with Suc.IH [OF dead rest] Suc.prems(3) Some False show ?thesis by simp
      qed
    qed
  qed
qed

lemma pump_ends:
  assumes dead: "\<not> x_live s" and run: "pump w now s = (Inr (), s')"
  shows "x_live s' \<or> x_plan s' = None"
proof (cases "x_plan s")
  case None
  with run show ?thesis by (simp add: pump_def steps)
next
  case (Some pl)
  with run obtain v t where ev: "x_evaluate w now s = (Inr v, t)"
    and rest: "bnd (get x_live) (\<lambda>live. if live then poll w now v
           else bnd (get x_index) (\<lambda>index. pump_loop w now (Suc (length (p_intents pl) - index)))) t = (Inr (), s')"
    by (auto simp: pump_def steps bnd_def split: sum.splits prod.splits)
  from st_evaluate ev have t: "steady s t" by (rule movesD)
  with rest dead have "pump_loop w now (Suc (length (p_intents pl) - x_index s)) t = (Inr (), s')"
    by (simp add: steps steady_def del: pump_loop.simps)
  with pump_loop_ends [OF _ this] t dead Some show ?thesis by (simp add: steady_def)
qed

end
