(* ===== verification/Adoption.thy ===== *)
theory Adoption imports VenueBook ExecLadder
begin

text \<open>
  \<open>cli/engine/executor.py\<close>, fifth part: what an executor makes of the orders a previous process left. The restored
  set read at construction, the startup pass that reconciles every ledgered row with the venue and decides which
  resting order may stay, the sockets with the watchdog's freeze, the re-read pass behind a cut, and the events of
  orders this process adopted. Log lines and their labels are left out; an event the trading library publishes while
  a cancel is still being sent is an event after it.
\<close>

section \<open>What the cache and the venue answer\<close>

record cached_copy =
  cc_coid :: string
  cc_txid :: "string option"
  cc_filled :: pyfloat
  cc_status :: string
  cc_closed :: bool
  cc_events :: "(string \<times> bool) list"

record order_report =
  rp_txid :: string
  rp_filled :: pyfloat
  rp_status :: string
  rp_instrument :: string

record resting_order =
  ro_coid :: string
  ro_txid :: "string option"

text \<open>
  The answers of the two passes: no answer is a raise. The restored orders and the resting ones are the cache's, so
  are an order by its own id and the own id behind a venue id; the rest is the venue's.
\<close>

record aworld =
  aw_x :: world
  aw_restored :: "nat \<Rightarrow> (string \<times> string option) list option"
  aw_resting :: "nat \<Rightarrow> resting_order list option"
  aw_order :: "nat \<Rightarrow> string \<Rightarrow> cached_copy option option"
  aw_own_id :: "nat \<Rightarrow> string \<Rightarrow> string option option"
  aw_orders :: "nat \<Rightarrow> dt \<Rightarrow> order_report list option"
  aw_fills :: "nat \<Rightarrow> dt \<Rightarrow> (string \<times> pyfloat) list option"
  aw_cancel :: "nat \<Rightarrow> string \<Rightarrow> string \<Rightarrow> bool"
  aw_book :: "nat \<Rightarrow> (cached_instrument list \<times> position_report list option \<times> account_balance list) res"

definition SOCKET_DOWN_GRACE :: int where "SOCKET_DOWN_GRACE = 30 * second_us"
definition VENUE_READ_MARGIN :: int where "VENUE_READ_MARGIN = hour_us"
definition REREAD_ATTEMPTS :: nat where "REREAD_ATTEMPTS = 3"

definition NO_VENUE_ORDER_ID :: string where
  "NO_VENUE_ORDER_ID = ''no Kraken order id is recorded for it, so a restart cannot match it to a venue order''"

text \<open>\<open>try\<close> with the outcome as a value, and an answer that may be a raise.\<close>

definition outcome :: "'a act \<Rightarrow> 'a res act" where
  "outcome m = (\<lambda>s. case m s of (r, s') \<Rightarrow> (Inr r, s'))"

definition answered :: "(nat \<Rightarrow> 'a option) \<Rightarrow> 'a act" where
  "answered f = bnd (ask f) (\<lambda>v. case v of None \<Rightarrow> fail OSError | Some x \<Rightarrow> ret x)"

definition read_ledger :: "world \<Rightarrow> (journal \<Rightarrow> 'a res) \<Rightarrow> 'a act" where
  "read_ledger w f = bnd (ask (w_disk w)) (\<lambda>ok. if \<not> ok then fail OSError else bnd (get x_journal) (\<lambda>j. lift (f j)))"

section \<open>Rows\<close>

type_synonym rows = "(string \<times> dt \<times> jdict) list"

text \<open>\<open>{row["client_order_id"]: (boundary, row) ...}\<close>\<close>

definition tagged :: "(dt \<times> json) list \<Rightarrow> rows" where
  "tagged rs = map (\<lambda>(b, r). (row_coid (obj_of r), b, obj_of r)) rs"

definition with_rows :: "rows \<Rightarrow> rows \<Rightarrow> rows" where
  "with_rows rs new = fold (\<lambda>(coid, e). AList.update coid e) new rs"

definition keyed_rows :: "(dt \<times> json) list \<Rightarrow> rows" where
  "keyed_rows rs = with_rows [] (tagged rs)"

definition attach :: "dt \<times> jdict \<Rightarrow> string list \<Rightarrow> string option \<Rightarrow> unit act" where
  "attach entry ids txid =
     (let key = row_coid (snd entry) in
      upd (\<lambda>s. s\<lparr>x_rows := AList.update key entry (x_rows s),
                x_attached := fold (\<lambda>i. AList.update i key) ids (x_attached s),
                x_by_venue := (case txid of None \<Rightarrow> x_by_venue s | Some t \<Rightarrow> AList.update t key (x_by_venue s))\<rparr>))"

definition read_id :: "xs \<Rightarrow> jdict \<Rightarrow> string option" where
  "read_id s row =
     (case row_venue_order_id row of
        Some t \<Rightarrow> Some t
      | None \<Rightarrow> (case map_of (x_restored s) (row_coid row) of None \<Rightarrow> None | Some t \<Rightarrow> t))"

text \<open>The marks on a row no venue report answers for.\<close>

fun joined :: "string \<Rightarrow> string list \<Rightarrow> string" where
  "joined sep [] = []"
| "joined sep [x] = x"
| "joined sep (x # xs) = x @ sep @ joined sep xs"

definition unmatchable_what :: "jdict \<Rightarrow> string" where
  "unmatchable_what row =
     (let found = sort (row_venue_order_ids row) in
      if length found < 2 then NO_VENUE_ORDER_ID
      else ''its events record '' @ digits (length found) @ '' different Kraken order ids ('' @ joined '', '' found @
           ''), so a restart cannot tell which venue order is its own'')"

definition mark_what :: "jdict \<Rightarrow> string option \<Rightarrow> string" where
  "mark_what row txid =
     (case txid of None \<Rightarrow> unmatchable_what row | Some t \<Rightarrow> ''the venue's order read has no order '' @ t)"

definition marked_unmatched :: "jdict \<Rightarrow> string \<Rightarrow> bool" where
  "marked_unmatched row what \<longleftrightarrow>
     list_ex (\<lambda>e. is_obj e \<and> dget (obj_of e) ''type'' = JStr ''ambiguous'' \<and> dget (obj_of e) ''what'' = JStr what)
       (arr_of (dget row ''events''))"

definition marked_here :: "xs \<Rightarrow> jdict \<Rightarrow> bool" where
  "marked_here s row \<longleftrightarrow> (row_coid row, mark_what row (read_id s row)) \<in> set (x_marked s)"

text \<open>The row with the state the mark gave it; the write is not guarded.\<close>

definition mark_unmatched :: "world \<Rightarrow> dt \<Rightarrow> jdict \<Rightarrow> string option \<Rightarrow> jdict act" where
  "mark_unmatched w b row txid =
     (let what = mark_what row txid; open_row = (row_state row \<in> set OPEN_ORDER_STATES) in
      sq (upd (\<lambda>s. s\<lparr>x_marked := (row_coid row, what) # x_marked s\<rparr>))
      (if marked_unmatched row what then ret row
       else bnd (ask (w_now w)) (\<lambda>now.
         sq (ledger w (UpdateRow b (row_coid row) (if open_row then Some ''ambiguous'' else None)
               (Some [(''type'', JStr ''ambiguous''), (''at'', JStr (w_isofmt w now)), (''what'', JStr what)]) (Fin 0)))
            (ret (if open_row then dset row ''state'' (JStr ''ambiguous'') else row)))))"

section \<open>The cache's orders\<close>

definition minted_terminal :: "cached_copy \<Rightarrow> bool" where
  "minted_terminal c \<longleftrightarrow> cc_closed c \<and> list_ex (\<lambda>(name, flag). name \<in> set RECONCILED_TERMINALS \<and> flag) (cc_events c)"

definition cache_lookup :: "aworld \<Rightarrow> jdict \<Rightarrow> string option \<Rightarrow> cached_copy option act" where
  "cache_lookup A row txid =
     bnd (answered (\<lambda>n. aw_order A n (row_coid row))) (\<lambda>own. case (own, txid) of
        (None, Some t) \<Rightarrow>
          bnd (answered (\<lambda>n. aw_own_id A n t)) (\<lambda>coid. case coid of
            None \<Rightarrow> ret None
          | Some c \<Rightarrow> answered (\<lambda>n. aw_order A n c))
      | _ \<Rightarrow> ret own)"

definition cached_order :: "aworld \<Rightarrow> jdict \<Rightarrow> string option \<Rightarrow> cached_copy option act" where
  "cached_order A row txid =
     bnd (cache_lookup A row txid) (\<lambda>c. ret (case c of None \<Rightarrow> None | Some x \<Rightarrow> if minted_terminal x then None else Some x))"

definition minted_closed :: "aworld \<Rightarrow> jdict \<Rightarrow> bool act" where
  "minted_closed A row =
     bnd (get (\<lambda>s. read_id s row)) (\<lambda>txid.
       catch (bnd (cache_lookup A row txid) (\<lambda>c. ret (case c of None \<Rightarrow> False | Some x \<Rightarrow> minted_terminal x))) (\<lambda>_. ret False))"

definition venue_answers :: "world \<Rightarrow> xs \<Rightarrow> jdict \<Rightarrow> bool \<Rightarrow> bool" where
  "venue_answers w s row finished \<longleftrightarrow> w_cache_on w \<and> (finished \<or> restored_row s row)"

definition report_of :: "order_report list option \<Rightarrow> string option \<Rightarrow> order_report option" where
  "report_of reports txid =
     (case (reports, txid) of
        (Some rs, Some t) \<Rightarrow> map_of (rev (map (\<lambda>r. (rp_txid r, r)) rs)) t
      | _ \<Rightarrow> None)"

text \<open>The restored set, at construction.\<close>

definition read_restored :: "aworld \<Rightarrow> unit act" where
  "read_restored A = bnd (ask (aw_restored A)) (\<lambda>orders. case orders of
     None \<Rightarrow> upd (\<lambda>s. s\<lparr>x_restored_unread := True,
               x_recon_refusal := Some ''the restored orders could not be read at start''\<rparr>)
   | Some found \<Rightarrow>
       let restored = fold (\<lambda>(coid, txid). AList.update coid txid) found [] in
       sq (upd (\<lambda>s. s\<lparr>x_restored := restored\<rparr>))
       (if restored = [] then skip else
        bnd (outcome (bnd (ask (w_now (aw_x A))) (\<lambda>now. read_ledger (aw_x A) (\<lambda>j. open_submitted_rows (w_fromiso (aw_x A)) j now None))))
        (\<lambda>r. case r of Inl _ \<Rightarrow> skip
          | Inr rs \<Rightarrow>
              let entries = map (\<lambda>(b, r). (b, obj_of r)) rs;
                  by_own = map (\<lambda>e. (row_coid (snd e), e)) entries;
                  by_venue = List.map_filter (\<lambda>e. case row_venue_order_id (snd e) of None \<Rightarrow> None | Some t \<Rightarrow> Some (t, e)) entries in
              foldr (\<lambda>(coid, txid) m.
                 sq (case (case map_of (rev by_own) coid of Some e \<Rightarrow> Some e
                           | None \<Rightarrow> (case txid of None \<Rightarrow> None | Some t \<Rightarrow> map_of (rev by_venue) t)) of
                       None \<Rightarrow> skip | Some e \<Rightarrow> attach e [coid] txid) m) restored skip)))"

definition construct :: "aworld \<Rightarrow> unit act" where
  "construct A = (if w_cache_on (aw_x A) then read_restored A else skip)"

section \<open>One row against the venue\<close>

text \<open>A pass reads the trade history once, at the first shortfall.\<close>

definition earliest :: "dt list \<Rightarrow> dt option" where
  "earliest bs = (case sort_key instant bs of [] \<Rightarrow> None | b # _ \<Rightarrow> Some b)"

definition reset_fills_read :: "rows \<Rightarrow> unit act" where
  "reset_fills_read rs =
     upd (\<lambda>s. s\<lparr>x_fills_read := None, x_fills_failed := False, x_fills_floor := earliest (map (fst \<circ> snd) rs)\<rparr>)"

definition sum_fills :: "(string \<times> pyfloat) list \<Rightarrow> (string \<times> pyfloat) list" where
  "sum_fills fs = fold (\<lambda>(t, q) m. bump t q m) fs []"

definition trades_cover :: "aworld \<Rightarrow> dt \<Rightarrow> string option \<Rightarrow> pyfloat \<Rightarrow> bool option act" where
  "trades_cover A boundary txid ledgered =
     bnd (get (\<lambda>s. (x_fills_failed s, x_fills_read s, x_fills_floor s))) (\<lambda>(failed, held, floor). case txid of
       None \<Rightarrow> ret None
     | Some t \<Rightarrow>
         if failed then ret None
         else bnd (case held of
                Some m \<Rightarrow> ret (Some m)
              | None \<Rightarrow>
                  let since = dt_add (case floor of None \<Rightarrow> boundary | Some f \<Rightarrow> f) (- VENUE_READ_MARGIN) in
                  bnd (ask (\<lambda>n. aw_fills A n since)) (\<lambda>reports. case reports of
                    None \<Rightarrow> sq (upd (\<lambda>s. s\<lparr>x_fills_failed := True\<rparr>)) (ret None)
                  | Some fs \<Rightarrow> sq (upd (\<lambda>s. s\<lparr>x_fills_read := Some (sum_fills fs)\<rparr>)) (ret (Some (sum_fills fs))))) (\<lambda>m.
           ret (case m of None \<Rightarrow> None
                | Some m \<Rightarrow> Some (fge (case map_of m t of None \<Rightarrow> Fin 0 | Some q \<Rightarrow> q) (fsub ledgered OVERFILL_TOLERANCE)))))"

text \<open>
  \<open>_reconcile_adopted_row\<close>: the repair and the terminal state, each write guarded on its own, then the row attached
  as it now stands; then the two trips. The row comes back changed also where a trip raises.
\<close>

definition repair_row :: "world \<Rightarrow> dt \<Rightarrow> jdict \<Rightarrow> pyfloat \<Rightarrow> pyfloat \<Rightarrow> jdict act" where
  "repair_row w b row ledgered venue_filled =
     (let delta = fsub venue_filled ledgered in
      if \<not> fgt delta OVERFILL_TOLERANCE then ret row
      else bnd (ask (w_now w)) (\<lambda>now.
        sq (catch (ledger w (UpdateRow b (row_coid row) None
              (Some [(''event'', JStr ''reconciled''), (''at'', JStr (w_isofmt w now)), (''qty'', JFloat delta),
                     (''venue_filled_qty'', JFloat venue_filled)]) delta)) (\<lambda>_. skip))
           (ret (dset row ''filled_qty'' (JFloat (fadd ledgered delta))))))"

definition write_state :: "world \<Rightarrow> dt \<Rightarrow> jdict \<Rightarrow> string option \<Rightarrow> jdict act" where
  "write_state w b row st =
     (case st of None \<Rightarrow> ret row
      | Some t \<Rightarrow> sq (catch (ledger w (UpdateRow b (row_coid row) (Some t) None (Fin 0))) (\<lambda>_. skip))
                    (ret (dset row ''state'' (JStr t))))"

definition row_verdict :: "aworld \<Rightarrow> dt \<Rightarrow> string \<Rightarrow> string option \<Rightarrow> pyfloat \<Rightarrow> pyfloat \<Rightarrow> bool \<Rightarrow> bool act" where
  "row_verdict A b coid txid ledgered delta overshoots =
     (if flt delta (fneg OVERFILL_TOLERANCE) then
        bnd (trades_cover A b txid ledgered) (\<lambda>covered.
          if covered = Some True then sq (upd (\<lambda>s. s\<lparr>x_repaired := coid # x_repaired s\<rparr>)) (ret True)
          else sq (trip_kill (aw_x A) ''an adopted order shows less filled at the venue than recorded'') (ret False))
      else if overshoots then
        sq (trip_kill (aw_x A) ''an adopted order shows more filled at the venue than it was submitted for'') (ret True)
      else ret True)"

definition reconcile_adopted_row ::
  "aworld \<Rightarrow> dt \<Rightarrow> jdict \<Rightarrow> pyfloat \<Rightarrow> string \<Rightarrow> string option \<Rightarrow> string option \<Rightarrow> (jdict \<times> bool res) act" where
  "reconcile_adopted_row A b row venue_filled status order_id txid =
     (let w = aw_x A; coid = row_coid row in
      bnd (lift (rbind (dindex row ''filled_qty'') to_float)) (\<lambda>ledgered.
      bnd (lift (ordered_qty w row)) (\<lambda>ordered.
      bnd (repair_row w b row ledgered venue_filled) (\<lambda>row1.
      let delta = fsub venue_filled ledgered;
          repairs = fgt delta OVERFILL_TOLERANCE;
          total = (if repairs then fadd ledgered delta else ledgered);
          overshoots = (repairs \<and> fgt total (fadd ordered OVERFILL_TOLERANCE));
          completes = (repairs \<and> \<not> overshoots \<and> row_state row1 \<noteq> ''filled'' \<and> fge total (fsub ordered OVERFILL_TOLERANCE));
          st = (case map_of ADOPTED_TERMINAL_STATES status of Some t \<Rightarrow> Some t
                | None \<Rightarrow> if completes then Some ''filled'' else None) in
      bnd (write_state w b row1 st) (\<lambda>row2.
      sq (attach (b, row2) (coid # (case order_id of None \<Rightarrow> [] | Some i \<Rightarrow> [i])) txid)
      (sq (if completes \<and> st = Some ''filled'' then inc_order ''filled'' else skip)
      (bnd (outcome (row_verdict A b coid txid ledgered delta overshoots)) (\<lambda>r. ret (row2, r)))))))))"

text \<open>\<open>_reconcile_finished_row\<close>: a closed row is asked one question, whether the venue still reports its fill.\<close>

definition reconcile_finished_row :: "aworld \<Rightarrow> dt \<Rightarrow> jdict \<Rightarrow> pyfloat \<Rightarrow> string option \<Rightarrow> bool act" where
  "reconcile_finished_row A b row venue_filled txid =
     (let w = aw_x A in
      bnd (lift (rbind (dindex row ''filled_qty'') to_float)) (\<lambda>ledgered.
      if fge venue_filled (fsub ledgered OVERFILL_TOLERANCE) then ret True
      else bnd (trades_cover A b txid ledgered) (\<lambda>covered.
        if covered = Some True then ret True
        else bnd (ask (w_now w)) (\<lambda>now.
          sq (catch (ledger w (UpdateRow b (row_coid row) None
                (Some [(''event'', JStr ''withdrawn''), (''at'', JStr (w_isofmt w now)),
                       (''qty'', JFloat (fsub venue_filled ledgered)), (''venue_filled_qty'', JFloat venue_filled)]) (Fin 0))) (\<lambda>_. skip))
          (sq (trip_kill w ''an order shows less filled at the venue than it was closed on'') (ret False))))))"

section \<open>The sweeps\<close>

definition answer :: "string \<Rightarrow> bool \<Rightarrow> unit act" where
  "answer coid yes =
     upd (\<lambda>s. s\<lparr>x_answered := (if yes then coid # x_answered s else removeAll coid (x_answered s))\<rparr>)"

definition forget_fill :: "string \<Rightarrow> unit act" where
  "forget_fill coid = upd (\<lambda>s. s\<lparr>x_restored_fills := removeAll coid (x_restored_fills s)\<rparr>)"

text \<open>What follows a reconciled row: nothing where its trip raised, and the row stays as it was left.\<close>

definition then_row :: "(jdict \<times> bool res) act \<Rightarrow> (jdict \<Rightarrow> bool \<Rightarrow> unit act) \<Rightarrow> jdict act" where
  "then_row m k = bnd m (\<lambda>(row, r). sq (catch (bnd (lift r) (k row)) (\<lambda>_. skip)) (ret row))"

text \<open>A restored row the venue answered for; the re-read pass also ends its intent.\<close>

definition answer_restored :: "world \<Rightarrow> bool \<Rightarrow> dt \<Rightarrow> string \<Rightarrow> jdict \<Rightarrow> bool \<Rightarrow> unit act" where
  "answer_restored w recancel b coid row yes =
     sq (answer coid yes)
     (if recancel then sq (forget_fill coid) (settle_restored_intent w b row) else skip)"

text \<open>\<open>_recancel\<close>: the repair, the cancel by venue id, and the row's state once it returned.\<close>

definition recancel_row :: "aworld \<Rightarrow> dt \<Rightarrow> jdict \<Rightarrow> string \<Rightarrow> order_report \<Rightarrow> string option \<Rightarrow> (jdict \<times> bool res) act" where
  "recancel_row A b row txid r order_id =
     (let w = aw_x A; coid = row_coid row in
      bnd (reconcile_adopted_row A b row (rp_filled r) (rp_status r) order_id (Some txid)) (\<lambda>(row1, res). case res of
        Inl e \<Rightarrow> ret (row1, Inl e)
      | Inr yes \<Rightarrow>
          sq (emit (VenueCancelSent txid))
          (bnd (ask (\<lambda>n. aw_cancel A n txid (rp_instrument r))) (\<lambda>ok. if \<not> ok then ret (row1, Inr yes) else
           bnd (ask (w_now w)) (\<lambda>now.
           bnd (outcome (ledger w (UpdateRow b coid (Some ''canceled'')
                 (Some [(''event'', JStr ''recancelled''), (''at'', JStr (w_isofmt w now)), (''venue_order_id'', JStr txid)]) (Fin 0))))
             (\<lambda>stored. case stored of
                Inl _ \<Rightarrow> ret (row1, Inr yes)
              | Inr _ \<Rightarrow>
                  let row2 = dset row1 ''state'' (JStr ''canceled'') in
                  sq (upd (\<lambda>s. s\<lparr>x_rows := AList.update coid (b, row2) (x_rows s)\<rparr>)) (ret (row2, Inr yes))))))))"

text \<open>The tail of a row the venue answered for and the cache did not.\<close>

definition reported_row :: "aworld \<Rightarrow> bool \<Rightarrow> string \<Rightarrow> dt \<Rightarrow> jdict \<Rightarrow> string \<Rightarrow> order_report \<Rightarrow> jdict act" where
  "reported_row A recancel coid b row txid r =
     (let w = aw_x A in
      bnd (get (\<lambda>s. restored_row s row)) (\<lambda>restored.
      bnd (if recancel \<or> restored then cache_lookup A row (Some txid) else ret None) (\<lambda>held.
      let order_id = map_option cc_coid held in
      sq (if recancel then upd (\<lambda>s. s\<lparr>x_repaired := coid # x_repaired s\<rparr>) else skip)
      (if recancel \<and> map_of ADOPTED_TERMINAL_STATES (rp_status r) = None then
         then_row (recancel_row A b row txid r order_id)
           (\<lambda>row' yes. if restored then answer_restored w True b coid row' yes else skip)
       else then_row (reconcile_adopted_row A b row (rp_filled r) (rp_status r) order_id (Some txid))
           (\<lambda>row' yes. if restored then answer_restored w recancel b coid row' yes else skip)))))"

definition open_row_step :: "aworld \<Rightarrow> bool \<Rightarrow> order_report list option \<Rightarrow> string \<Rightarrow> dt \<Rightarrow> jdict \<Rightarrow> jdict act" where
  "open_row_step A recancel reports coid b row =
     (let w = aw_x A in catch
       (bnd (get (\<lambda>s. read_id s row)) (\<lambda>txid.
        bnd (cached_order A row txid) (\<lambda>order.
        bnd (get (\<lambda>s. order \<noteq> None \<and> venue_answers w s row False)) (\<lambda>restored.
        case (order, report_of reports txid, restored) of
          (Some c, Some r, True) \<Rightarrow>
            then_row (reconcile_adopted_row A b row (rp_filled r) (rp_status r) (Some (cc_coid c)) txid)
              (answer_restored w recancel b coid)
        | (Some c, _, False) \<Rightarrow>
            then_row (reconcile_adopted_row A b row (cc_filled c) (cc_status c) (Some (cc_coid c))
                (case txid of None \<Rightarrow> cc_txid c | Some t \<Rightarrow> Some t)) (\<lambda>_ _. skip)
        | (_, found, _) \<Rightarrow>
            (if txid \<noteq> None \<and> reports = None then ret row
             else case (found, txid) of
                (Some r, Some t) \<Rightarrow> reported_row A recancel coid b row t r
              | _ \<Rightarrow> mark_unmatched w b row txid)))))
       (\<lambda>_. ret row))"

definition finished_row_step :: "aworld \<Rightarrow> order_report list option \<Rightarrow> string \<Rightarrow> dt \<Rightarrow> jdict \<Rightarrow> jdict act" where
  "finished_row_step A reports coid b row =
     (let w = aw_x A in catch
       (bnd (get (\<lambda>s. (restored_row s row, read_id s row))) (\<lambda>(restored, txid).
        bnd (lift (rbind (dindex row ''filled_qty'') to_float)) (\<lambda>ledgered.
        if \<not> fgt ledgered OVERFILL_TOLERANCE \<and> \<not> (restored \<and> txid \<noteq> None) then ret row
        else bnd (if restored then ret None else cached_order A row txid) (\<lambda>order.
        bnd (get (\<lambda>s. venue_answers w s row True)) (\<lambda>over.
        case (order, txid = None \<or> \<not> over) of
          (Some c, True) \<Rightarrow> bnd (reconcile_finished_row A b row (cc_filled c) txid) (\<lambda>_. ret row)
        | _ \<Rightarrow>
            (if txid \<noteq> None \<and> reports = None then ret row
             else case report_of reports txid of
                None \<Rightarrow> mark_unmatched w b row txid
              | Some r \<Rightarrow>
                  if restored \<and> fgt (rp_filled r) (fadd ledgered OVERFILL_TOLERANCE) then
                    bnd (cache_lookup A row txid) (\<lambda>held.
                      then_row (reconcile_adopted_row A b row (rp_filled r) (rp_status r) (map_option cc_coid held) txid)
                        (\<lambda>_ yes. answer coid yes))
                  else bnd (reconcile_finished_row A b row (rp_filled r) txid) (\<lambda>yes.
                         sq (if restored then answer coid yes else skip) (ret row))))))))
       (\<lambda>_. ret row))"

text \<open>A sweep goes through its rows in order and leaves each as its step made it; no step raises.\<close>

fun sweep_rows :: "(string \<Rightarrow> dt \<Rightarrow> jdict \<Rightarrow> jdict act) \<Rightarrow> rows \<Rightarrow> rows act" where
  "sweep_rows f [] = ret []"
| "sweep_rows f ((coid, b, row) # rs) =
     bnd (f coid b row) (\<lambda>row'. bnd (sweep_rows f rs) (\<lambda>rs'. ret ((coid, b, row') # rs')))"

text \<open>The one read of the venue's orders a startup pass makes, for the rows the cache does not answer for.\<close>

definition needs_venue :: "aworld \<Rightarrow> bool \<Rightarrow> jdict \<Rightarrow> bool act" where
  "needs_venue A finished row =
     (let w = aw_x A in catch
       (bnd (if finished then lift (rbind (dindex row ''filled_qty'') to_float) else ret (Fin 0)) (\<lambda>filled.
        bnd (get (\<lambda>s. (restored_row s row, read_id s row, venue_answers w s row finished))) (\<lambda>(restored, txid, over).
        if finished \<and> \<not> fgt filled OVERFILL_TOLERANCE \<and> \<not> restored then ret False
        else if txid = None then ret False
        else if over then ret True
        else bnd (cached_order A row txid) (\<lambda>order. ret (order = None)))))
       (\<lambda>_. ret False))"

fun filter_rows :: "(jdict \<Rightarrow> bool act) \<Rightarrow> rows \<Rightarrow> rows act" where
  "filter_rows p [] = ret []"
| "filter_rows p ((coid, b, row) # rs) =
     bnd (p row) (\<lambda>keep. bnd (filter_rows p rs) (\<lambda>rs'. ret (if keep then (coid, b, row) # rs' else rs')))"

definition read_venue_orders :: "aworld \<Rightarrow> rows \<Rightarrow> rows \<Rightarrow> order_report list option act" where
  "read_venue_orders A open_rows finished =
     bnd (filter_rows (needs_venue A False) open_rows) (\<lambda>n1. bnd (filter_rows (needs_venue A True) finished) (\<lambda>n2.
     case earliest (map (fst \<circ> snd) (n1 @ n2)) of
       None \<Rightarrow> ret (Some [])
     | Some first \<Rightarrow>
         bnd (ask (\<lambda>n. aw_orders A n (dt_add first (- VENUE_READ_MARGIN)))) (\<lambda>reports. case reports of
           None \<Rightarrow> sq (upd (\<lambda>s. s\<lparr>x_recon_refusal :=
                     Some ''the startup reconciliation could not read the venue's orders''\<rparr>)) (ret None)
         | Some rs \<Rightarrow> ret (Some rs))))"

text \<open>The venue's book, kept for the balances; the gauges it settles are telemetry.\<close>

definition settle_positions :: "aworld \<Rightarrow> bool act" where
  "settle_positions A =
     bnd (ask (aw_book A)) (\<lambda>raw. case rbind raw (\<lambda>(listing, positions, balances). read_venue_book listing positions balances) of
       Inl _ \<Rightarrow> ret False
     | Inr book \<Rightarrow> sq (upd (\<lambda>s. s\<lparr>x_balances := Some (vb_balances book)\<rparr>)) (ret True))"

section \<open>The startup pass\<close>

text \<open>
  What the window's rows show of each intent: the filled quantity, the largest order, and whether an order of it may
  still be live.
\<close>

record intent_tally =
  it_filled :: pyfloat
  it_ordered :: pyfloat
  it_left :: bool

definition tally_row :: "world \<Rightarrow> string list \<Rightarrow> jdict \<Rightarrow> ((json \<times> json) \<times> intent_tally) list \<Rightarrow>
    ((json \<times> json) \<times> intent_tally) list act" where
  "tally_row w cancelled row m =
     bnd (lift (rbind (dindex row ''plan_id'') (\<lambda>p. rbind (dindex row ''intent_index'') (\<lambda>i. Inr (p, i))))) (\<lambda>key.
     bnd (lift (rbind (dindex row ''filled_qty'') to_float)) (\<lambda>filled.
     bnd (lift (ordered_qty w row)) (\<lambda>ordered.
     bnd (get (\<lambda>s. row_state row \<in> set OPEN_ORDER_STATES \<and> row_coid row \<notin> set cancelled \<or>
                   restored_row s row \<and> row_coid row \<notin> set (x_answered s))) (\<lambda>live.
     let old = (case map_of m key of None \<Rightarrow> \<lparr>it_filled = Fin 0, it_ordered = Fin 0, it_left = False\<rparr> | Some t \<Rightarrow> t) in
     ret (AList.update key \<lparr>it_filled = fadd (it_filled old) filled, it_ordered = fmax (it_ordered old) ordered,
            it_left = (it_left old \<or> live)\<rparr> m)))))"

fun tally_rows :: "world \<Rightarrow> string list \<Rightarrow> jdict list \<Rightarrow> ((json \<times> json) \<times> intent_tally) list \<Rightarrow>
    ((json \<times> json) \<times> intent_tally) list act" where
  "tally_rows w cancelled [] m = ret m"
| "tally_rows w cancelled (row # rs) m = bnd (tally_row w cancelled row m) (tally_rows w cancelled rs)"

definition pending_outcome :: "intent_tally option \<Rightarrow> (string \<times> string list \<times> pyfloat) option" where
  "pending_outcome tally =
     (case tally of
        None \<Rightarrow> Some (''refused'', [''not run -- the engine restarted before it ran''], Fin 0)
      | Some t \<Rightarrow>
          if it_left t then None
          else if fgt (it_ordered t) (Fin 0) \<and> fge (it_filled t) (fsub (it_ordered t) OVERFILL_TOLERANCE)
            then Some (''filled'', [], it_filled t)
          else Some (''revoked'', [''the engine restarted while the intent was in flight''], it_filled t))"

definition settle_pending_intent ::
  "world \<Rightarrow> ((json \<times> json) \<times> intent_tally) list \<Rightarrow> dt \<times> json \<times> json \<Rightarrow> unit act" where
  "settle_pending_intent w m p =
     (case p of (boundary, plan_id, index) \<Rightarrow>
       (case (pending_outcome (map_of m (plan_id, index)), plan_id, index) of
          (Some (out, reasons, filled), JStr pid, JInt i) \<Rightarrow>
            catch (ledger w (UpdateIntent boundary pid i out reasons filled)) (\<lambda>_. skip)
        | _ \<Rightarrow> skip))"

definition settle_pending_intents ::
  "aworld \<Rightarrow> dt \<Rightarrow> rows \<Rightarrow> rows \<Rightarrow> string list \<Rightarrow> order_report list option \<Rightarrow> bool \<Rightarrow> unit act" where
  "settle_pending_intents A now open_rows finished cancelled reports ledger_was_read =
     (let w = aw_x A in
      bnd (get x_kill) (\<lambda>tripped.
      if reports = None \<or> \<not> ledger_was_read \<or> tripped then skip
      else bnd (outcome (read_ledger w (\<lambda>j. pending_plan_intents (w_fromiso w) j now None))) (\<lambda>r. case r of
        Inl _ \<Rightarrow> skip
      | Inr pending \<Rightarrow>
          bnd (tally_rows w cancelled (map (snd \<circ> snd) (open_rows @ finished)) []) (\<lambda>m.
            foldr (\<lambda>p rest. sq (settle_pending_intent w m p) rest) pending skip))))"

text \<open>The gate's own level, read a second time without the executor's holds.\<close>

definition raw_level :: "world \<Rightarrow> dt \<Rightarrow> level act" where
  "raw_level w now =
     bnd (get x_gate) (\<lambda>g. bnd (ask (w_gate w)) (\<lambda>sur. bnd (lift (evaluate g sur now)) (\<lambda>(raw, g').
       sq (upd (\<lambda>s. s\<lparr>x_gate := g'\<rparr>)) (ret (v_level raw)))))"

definition reduces :: "jdict \<Rightarrow> bool" where
  "reduces row \<longleftrightarrow> is_obj (dget row ''order'') \<and> dget (obj_of (dget row ''order'')) ''reduce_only'' = JBool True"

text \<open>One resting order: its row attached, then kept or cancelled. The id of a row whose order was sent a cancel.\<close>

definition row_for :: "rows \<Rightarrow> resting_order \<Rightarrow> (dt \<times> jdict) option" where
  "row_for rs q =
     (case map_of rs (ro_coid q) of
        Some e \<Rightarrow> Some e
      | None \<Rightarrow> (case ro_txid q of None \<Rightarrow> None
                 | Some t \<Rightarrow> map_of (rev (List.map_filter (\<lambda>(k, e).
                     case row_venue_order_id (snd e) of None \<Rightarrow> None | Some v \<Rightarrow> Some (v, e)) rs)) t))"

definition classify_resting ::
  "aworld \<Rightarrow> bool \<Rightarrow> rows \<Rightarrow> order_report list option \<Rightarrow> resting_order \<Rightarrow> string list act" where
  "classify_resting A cancels_all rs reports q =
     (let entry = row_for rs q in
      sq (case entry of None \<Rightarrow> skip | Some e \<Rightarrow> attach e [ro_coid q] (ro_txid q))
      (bnd (get x_restored) (\<lambda>restored.
       if ro_coid q \<in> fst ` set restored \<and>
          (case report_of reports (ro_txid q) of None \<Rightarrow> False | Some r \<Rightarrow> map_of ADOPTED_TERMINAL_STATES (rp_status r) \<noteq> None)
       then ret []
       else if (case entry of None \<Rightarrow> False | Some (b, row) \<Rightarrow> reduces row) \<and> \<not> cancels_all then ret []
       else sq (emit (CancelSent (ro_coid q)))
         (bnd (ask (w_cancel (aw_x A))) (\<lambda>ok. ret (if ok then (case entry of None \<Rightarrow> [] | Some (b, row) \<Rightarrow> [row_coid row]) else []))))))"

fun classify_all ::
  "aworld \<Rightarrow> bool \<Rightarrow> rows \<Rightarrow> order_report list option \<Rightarrow> resting_order list \<Rightarrow> string list act" where
  "classify_all A cancels_all rs reports [] = ret []"
| "classify_all A cancels_all rs reports (q # qs) =
     bnd (classify_resting A cancels_all rs reports q) (\<lambda>c.
     bnd (classify_all A cancels_all rs reports qs) (\<lambda>cs. ret (c @ cs)))"

definition read_window :: "world \<Rightarrow> dt \<Rightarrow> (rows \<times> rows) act" where
  "read_window w now =
     bnd (read_ledger w (\<lambda>j. open_submitted_rows (w_fromiso w) j now None)) (\<lambda>opened.
     bnd (read_ledger w (\<lambda>j. closed_submitted_rows (w_fromiso w) j now None)) (\<lambda>closed.
       ret (keyed_rows opened, keyed_rows closed)))"

definition adopt_resting_orders :: "aworld \<Rightarrow> dt \<Rightarrow> unit act" where
  "adopt_resting_orders A now =
     (let w = aw_x A in
      bnd (ask (aw_resting A)) (\<lambda>answer. case answer of
        None \<Rightarrow> skip
      | Some resting \<Rightarrow>
          sq (upd (\<lambda>s. s\<lparr>x_adopted := True\<rparr>))
          (bnd (catch (bnd (read_window w now) (\<lambda>(rs, fs). ret (rs, fs, True))) (\<lambda>_. ret ([], [], False))) (\<lambda>(rs, fs, read).
           sq (reset_fills_read (rs @ fs))
          (bnd (read_venue_orders A rs fs) (\<lambda>reports.
           bnd (settle_positions A) (\<lambda>_.
           bnd (sweep_rows (open_row_step A False reports) rs) (\<lambda>rs'.
           bnd (sweep_rows (finished_row_step A reports) fs) (\<lambda>fs'.
           if resting = [] then settle_pending_intents A now rs' fs' [] reports read
           else bnd (x_evaluate w now) (\<lambda>_. bnd (raw_level w now) (\<lambda>l.
             bnd (classify_all A (l = NONE) rs' reports resting) (\<lambda>cancelled.
               settle_pending_intents A now rs' fs' cancelled reports read))))))))))))"

section \<open>The sockets, the freeze and the re-read pass\<close>

datatype socket_event = Disconnected string | Connected string

text \<open>Whether an open row of the ledger, back to the freeze's cut, was not marked unmatched here; an unread ledger holds the freeze.\<close>

definition stranded_rows :: "world \<Rightarrow> bool act" where
  "stranded_rows w =
     catch (bnd (ask (w_now w)) (\<lambda>now. bnd (get x_frozen_at) (\<lambda>since.
            bnd (read_ledger w (\<lambda>j. open_submitted_rows (w_fromiso w) j now since)) (\<lambda>rs.
              get (\<lambda>s. list_ex (\<lambda>(b, r). \<not> marked_here s (obj_of r)) rs)))))
       (\<lambda>_. ret True)"

definition thaw :: "unit act" where
  "thaw = upd (\<lambda>s. s\<lparr>x_frozen := False, x_frozen_at := None\<rparr>)"

definition lift_freeze :: "world \<Rightarrow> unit act" where
  "lift_freeze w =
     bnd (get (\<lambda>s. (x_frozen s \<and> x_sockets s = [], x_emptied_at s, x_completed_at s))) (\<lambda>(frozen, emptied, completed).
       case (frozen, emptied) of
         (True, Some e) \<Rightarrow>
           bnd (get (\<lambda>s. x_owed s \<and> \<not> x_armed s)) (\<lambda>owed.
             if owed then bnd (stranded_rows w) (\<lambda>stranded. if stranded then skip else thaw)
             else case completed of
                    None \<Rightarrow> skip
                  | Some c \<Rightarrow> bnd (lift (dt_lt c e)) (\<lambda>before. if before then skip else thaw))
       | _ \<Rightarrow> skip)"

definition on_socket_state_raw :: "world \<Rightarrow> socket_event \<Rightarrow> unit act" where
  "on_socket_state_raw w ev =
     (case ev of
        Disconnected e \<Rightarrow>
          bnd (ask (w_now w)) (\<lambda>now. upd (\<lambda>s.
            let s1 = s\<lparr>x_sockets := (if map_of (x_sockets s) e = None then x_sockets s @ [(e, now)] else x_sockets s)\<rparr> in
            if x_armed_by s = None \<or> x_armed_by s = Some e
            then s1\<lparr>x_reread_tries := 0, x_owed := False, x_armed_by := None\<rparr> else s1))
      | Connected e \<Rightarrow>
          bnd (get (\<lambda>s. map_of (x_sockets s) e \<noteq> None)) (\<lambda>down. if \<not> down then skip else
            sq (upd (\<lambda>s. s\<lparr>x_sockets := AList.delete e (x_sockets s)\<rparr>))
            (sq (bnd (get (\<lambda>s. x_sockets s = [])) (\<lambda>none_down. if none_down
                   then bnd (ask (w_now w)) (\<lambda>now. upd (\<lambda>s. s\<lparr>x_emptied_at := Some now\<rparr>)) else skip))
            (sq (upd (\<lambda>s. let s1 = s\<lparr>x_armed_by := Some e\<rparr> in
                   if x_armed s then s1\<lparr>x_reread_tries := REREAD_ATTEMPTS\<rparr> else s1\<lparr>x_owed := True\<rparr>))
                (bnd (get x_armed) (\<lambda>armed. if armed then skip else lift_freeze w))))))"

definition on_socket_state :: "world \<Rightarrow> socket_event \<Rightarrow> unit act" where
  "on_socket_state w ev = catch (on_socket_state_raw w ev) (\<lambda>_. skip)"

text \<open>The watchdog: a freeze cancels in the order of a trip and revokes a resting intent.\<close>

fun stale_sockets :: "dt \<Rightarrow> (string \<times> dt) list \<Rightarrow> string list res" where
  "stale_sockets now [] = Inr []"
| "stale_sockets now ((e, since) # ss) =
     rbind (dt_sub now since) (\<lambda>us. rbind (stale_sockets now ss) (\<lambda>es. Inr (if SOCKET_DOWN_GRACE < us then e # es else es)))"

definition freeze_loop :: "world \<Rightarrow> unit act" where
  "freeze_loop w =
     bnd (ask (w_now w)) (\<lambda>since.
     sq (upd (\<lambda>s. s\<lparr>x_frozen_at := Some since\<rparr>))
     (bnd (get x_live) (\<lambda>live.
      sq (cancel_resting w live)
      (if \<not> live then skip else bnd (getA a_phase) (\<lambda>ph. if ph \<noteq> Resting then skip else
        sq (updA (\<lambda>a. a\<lparr>a_revoke_reasons := [''socket_down'']\<rparr>)) (enter w Cancelling))))))"

definition freeze_stale :: "world \<Rightarrow> dt \<Rightarrow> unit act" where
  "freeze_stale w now =
     bnd (get x_frozen) (\<lambda>frozen. if frozen then skip else
     bnd (get x_sockets) (\<lambda>sockets. bnd (lift (stale_sockets now sockets)) (\<lambda>stale. if stale = [] then skip else
       sq (upd (\<lambda>s. s\<lparr>x_frozen := True\<rparr>)) (freeze_loop w))))"

definition watch_sockets :: "world \<Rightarrow> dt \<Rightarrow> unit act" where
  "watch_sockets w now = catch (sq (lift_freeze w) (freeze_stale w now)) (\<lambda>_. skip)"

text \<open>The rows a re-read pass asks the venue about, and its answer.\<close>

definition reread_rows :: "aworld \<Rightarrow> dt \<Rightarrow> rows act" where
  "reread_rows A now =
     (let w = aw_x A in
      bnd (get x_frozen_at) (\<lambda>since.
      bnd (read_ledger w (\<lambda>j. open_submitted_rows (w_fromiso w) j now since)) (\<lambda>opened.
      bnd (filter_rows (\<lambda>row. bnd (minted_closed A row) (\<lambda>minted.
             get (\<lambda>s. (minted \<or> row_coid row \<in> set (x_restored_fills s)) \<and> \<not> marked_here s row))) (tagged opened)) (\<lambda>rs1.
      bnd (read_ledger w (\<lambda>j. closed_submitted_rows (w_fromiso w) j now since)) (\<lambda>closed.
      get (\<lambda>s. with_rows (with_rows [] rs1)
             (filter (\<lambda>(coid, b, row). coid \<in> set (x_restored_fills s) \<and> \<not> marked_here s row) (tagged closed))))))))"

definition reread_inputs :: "aworld \<Rightarrow> dt \<Rightarrow> (rows \<times> order_report list) act" where
  "reread_inputs A now =
     bnd (reread_rows A now) (\<lambda>rs.
     sq (reset_fills_read rs)
     (case earliest (map (fst \<circ> snd) rs) of
        None \<Rightarrow> ret (rs, [])
      | Some first \<Rightarrow> bnd (answered (\<lambda>n. aw_orders A n (dt_add first (- VENUE_READ_MARGIN)))) (\<lambda>reports. ret (rs, reports))))"

definition spend_reread_try :: "unit act" where
  "spend_reread_try = upd (\<lambda>s. s\<lparr>x_reread_tries := x_reread_tries s - 1\<rparr>)"

definition reread_pass :: "aworld \<Rightarrow> dt \<Rightarrow> unit act" where
  "reread_pass A now =
     sq (upd (\<lambda>s. s\<lparr>x_armed_by := None\<rparr>))
     (bnd (outcome (reread_inputs A now)) (\<lambda>r. case r of
        Inl _ \<Rightarrow>
          bnd (get (\<lambda>s. x_sockets s \<noteq> [])) (\<lambda>down. if down
            then upd (\<lambda>s. s\<lparr>x_reread_tries := 0, x_armed_by := None\<rparr>) else spend_reread_try)
      | Inr (rs, reports) \<Rightarrow>
          bnd (sweep_rows (open_row_step A True (Some reports)) rs) (\<lambda>_.
          bnd (settle_positions A) (\<lambda>settled. if \<not> settled then spend_reread_try
           else sq (upd (\<lambda>s. s\<lparr>x_reread_tries := 0\<rparr>))
                  (bnd (ask (w_now (aw_x A))) (\<lambda>t. upd (\<lambda>s. s\<lparr>x_completed_at := Some t\<rparr>)))))))"

text \<open>The tick's own part: the pass waits owed on a disarmed engine, and runs with nothing in flight.\<close>

definition owe_reread :: "unit act" where
  "owe_reread = upd (\<lambda>s.
     if \<not> x_armed s then s\<lparr>x_owed := (x_owed s \<or> 0 < x_reread_tries s)\<rparr>
     else if x_owed s then s\<lparr>x_owed := False,
       x_reread_tries := (if x_reread_tries s = 0 then REREAD_ATTEMPTS else x_reread_tries s)\<rparr>
     else s)"

definition run_owed_reread :: "aworld \<Rightarrow> dt \<Rightarrow> unit act" where
  "run_owed_reread A now =
     sq owe_reread
     (bnd (get (\<lambda>s. x_armed s \<and> 0 < x_reread_tries s)) (\<lambda>due. if \<not> due then skip else
      bnd (nothing_in_flight (aw_x A)) (\<lambda>clear. if \<not> clear then skip else
        sq (reread_pass A now) (lift_freeze (aw_x A)))))"

definition tick_adoption :: "aworld \<Rightarrow> dt \<Rightarrow> unit act" where
  "tick_adoption A now =
     sq (bnd (get x_adopted) (\<lambda>adopted. if adopted then skip else adopt_resting_orders A now))
     (sq (watch_sockets (aw_x A) now) (run_owed_reread A now))"

section \<open>Events of adopted orders\<close>

text \<open>A fill that completes its row writes it filled; every other event is evidence, and may end the row.\<close>

definition complete_row :: "world \<Rightarrow> dt \<Rightarrow> string \<Rightarrow> unit act" where
  "complete_row w boundary key =
     bnd (get (\<lambda>s. map_of (x_rows s) key)) (\<lambda>entry. case entry of
       None \<Rightarrow> skip
     | Some (b, row) \<Rightarrow>
         if row_state row = ''filled'' then skip
         else bnd (lift (rbind (dindex row ''filled_qty'') to_float)) (\<lambda>filled.
              bnd (lift (ordered_qty w row)) (\<lambda>ordered.
                if fge filled (fsub ordered OVERFILL_TOLERANCE) then
                  sq (set_row_state w boundary key ''filled'') (sq (inc_order ''filled'') (settle_row w boundary key))
                else skip)))"

definition external_evidence :: "world \<Rightarrow> order_event \<Rightarrow> dt \<Rightarrow> jdict \<Rightarrow> unit act" where
  "external_evidence w ev boundary row =
     (let key = row_coid row in
      bnd (event_payload w ev) (\<lambda>payload.
      sq (if minted ev then upd (\<lambda>s. s\<lparr>x_answered := removeAll key (x_answered s)\<rparr>) else skip)
      (bnd (venue_terminal_state w ev) (\<lambda>st0.
       let st = (if row_state row = ''filled'' then None else st0) in
       sq (ledger w (UpdateRow boundary key st
             (Some (if minted ev then dset payload ''reconciliation'' (JBool True) else payload)) (Fin 0)))
       (case st of None \<Rightarrow> skip
        | Some t \<Rightarrow>
            sq (upd (\<lambda>s. s\<lparr>x_rows := (case map_of (x_rows s) key of None \<Rightarrow> x_rows s
                   | Some (b, r) \<Rightarrow> AList.update key (b, dset r ''state'' (JStr t)) (x_rows s))\<rparr>))
               (settle_row w boundary key))))))"

definition on_external_event_raw :: "world \<Rightarrow> order_event \<Rightarrow> unit act" where
  "on_external_event_raw w ev =
     bnd (get (\<lambda>s. attached_for s ev)) (\<lambda>att. case att of
       None \<Rightarrow>
         sq (emit (Counted ''external unmatched''))
         (bnd (get x_armed) (\<lambda>armed. if ev_kind ev = ''OrderFilled'' \<and> armed then arm_reread else skip))
     | Some (boundary, row) \<Rightarrow>
         sq (emit (Counted ''external matched''))
         (if ev_kind ev = ''OrderFilled'' then
            bnd (trip_on_fill w ev) (\<lambda>tripped. if tripped then skip else
              sq (on_detached_event w ev) (complete_row w boundary (row_coid row)))
          else external_evidence w ev boundary row))"

definition on_external_event :: "world \<Rightarrow> order_event \<Rightarrow> unit act" where
  "on_external_event w ev = catch (on_external_event_raw w ev) (\<lambda>_. skip)"

section \<open>What the passes do to the executor\<close>

text \<open>
  The contract of the passes with the executor, over a relation of the states before and after: bookkeeping of their
  own, ledger writes, effects that neither order nor start, a trip, a freeze and its lift, the executor's own handling
  of a fill. Every invariant of the executor and the budget of its orders are such relations.
\<close>

locale pass_relation = run_relation +
  assumes booked: "x_log s' = x_log s \<Longrightarrow> x_kill s' = x_kill s \<Longrightarrow> x_journal s' = x_journal s \<Longrightarrow>
      x_frozen s' = x_frozen s \<Longrightarrow> x_sockets s' = x_sockets s \<Longrightarrow> x_live s' = x_live s \<Longrightarrow> x_active s' = x_active s \<Longrightarrow>
      x_plan s' = x_plan s \<Longrightarrow> x_index s' = x_index s \<Longrightarrow> R s s'"
    and thawed: "x_sockets s = [] \<Longrightarrow> R s (s\<lparr>x_frozen := False\<rparr>)"
    and froze: "x_sockets s \<noteq> [] \<Longrightarrow> \<not> x_frozen s \<Longrightarrow> R s (s\<lparr>x_frozen := True\<rparr>)"
    and m_emit: "quiet e \<Longrightarrow> \<not> counts e \<Longrightarrow> moves R (emit e)"
    and m_ledger: "moves R (ledger w op)"
    and m_evaluate: "moves R (x_evaluate w now)"
    and m_trip: "moves R (trip_kill w r)"
    and m_cancel_resting: "moves R (cancel_resting w live)"
    and m_revoked: "moves R (sq (updA (\<lambda>a. a\<lparr>a_revoke_reasons := rs\<rparr>)) (enter w Cancelling))"
    and m_settle_restored: "moves R (settle_restored_intent w b row)"
    and m_trip_on_fill: "moves R (trip_on_fill w ev)"
    and m_detached: "moves R (on_detached_event w ev)"
begin

lemma m_upd:
  "(\<And>s. x_log (f s) = x_log s) \<Longrightarrow> (\<And>s. x_kill (f s) = x_kill s) \<Longrightarrow> (\<And>s. x_journal (f s) = x_journal s) \<Longrightarrow>
   (\<And>s. x_frozen (f s) = x_frozen s) \<Longrightarrow> (\<And>s. x_sockets (f s) = x_sockets s) \<Longrightarrow> (\<And>s. x_live (f s) = x_live s) \<Longrightarrow>
   (\<And>s. x_active (f s) = x_active s) \<Longrightarrow> (\<And>s. x_plan (f s) = x_plan s) \<Longrightarrow> (\<And>s. x_index (f s) = x_index s) \<Longrightarrow> moves R (upd f)"
  by (rule w_upd) (simp add: booked)

lemma m_ask: "moves R (ask f)"
  by (simp add: moves_def ask_def booked)

lemma m_inc: "moves R (inc_order c)"
  unfolding inc_order_def by (rule m_emit) simp_all

lemma m_outcome: "moves R m \<Longrightarrow> moves R (outcome m)"
  unfolding moves_def outcome_def by (auto split: prod.splits) (metis snd_conv)

lemma m_bool: "moves R m \<Longrightarrow> moves R n \<Longrightarrow> moves R (case b of True \<Rightarrow> m | False \<Rightarrow> n)"
  by (cases b) simp_all

lemmas pass = w m_outcome m_bool m_ask m_inc m_ledger

lemma m_filter_rows: "(\<And>row. moves R (p row)) \<Longrightarrow> moves R (filter_rows p rs)"
  by (induction rs) (auto intro!: pass)

lemma m_sweep: "(\<And>coid b row. moves R (f coid b row)) \<Longrightarrow> moves R (sweep_rows f rs)"
  by (induction rs) (auto intro!: pass)

lemma m_foldr: "(\<And>x. moves R (f x)) \<Longrightarrow> moves R (foldr (\<lambda>x rest. sq (f x) rest) xs skip)"
  by (induction xs) (auto intro!: pass)

lemma m_then_row: "moves R m \<Longrightarrow> (\<And>row yes. moves R (k row yes)) \<Longrightarrow> moves R (then_row m k)"
  unfolding then_row_def by (intro pass)

lemma m_arm_reread: "moves R arm_reread"
  unfolding arm_reread_def by (rule m_upd) simp_all

lemma m_venue_terminal: "moves R (venue_terminal_state w ev)"
  unfolding venue_terminal_state_def by (intro pass m_arm_reread)

lemma m_set_row_state: "moves R (set_row_state w b k st)"
  unfolding set_row_state_def by (intro pass m_upd) simp_all

lemma m_settle_row: "moves R (settle_row w b k)"
  unfolding settle_row_def by (intro pass m_settle_restored)


lemma m_answered: "moves R (answered f)"
  unfolding answered_def by (intro pass)

lemma m_read_ledger: "moves R (read_ledger w f)"
  unfolding read_ledger_def by (intro pass)

lemma m_attach: "moves R (attach e ids t)"
  unfolding attach_def Let_def by (rule m_upd) simp_all

lemma m_mark_unmatched: "moves R (mark_unmatched w b row t)"
  unfolding mark_unmatched_def by (intro pass m_upd) simp_all

lemma m_lookup: "moves R (cache_lookup A row t)"
  unfolding cache_lookup_def by (intro pass m_answered)

lemma m_cached_order: "moves R (cached_order A row t)"
  unfolding cached_order_def by (intro pass m_lookup)

lemma m_minted_closed: "moves R (minted_closed A row)"
  unfolding minted_closed_def by (intro pass m_lookup)

lemma m_trades: "moves R (trades_cover A b t q)"
  unfolding trades_cover_def by (intro pass m_upd) simp_all

lemma m_repair: "moves R (repair_row w b row l v)"
  unfolding repair_row_def by (intro pass)

lemma m_write_state: "moves R (write_state w b row st)"
  unfolding write_state_def by (intro pass)

lemma m_row_verdict: "moves R (row_verdict A b coid t l d over)"
  unfolding row_verdict_def by (intro pass m_trades m_trip m_upd) simp_all

lemma m_adopted_row: "moves R (reconcile_adopted_row A b row v st i t)"
  unfolding reconcile_adopted_row_def by (intro pass m_repair m_write_state m_attach m_row_verdict)

lemma m_finished_row: "moves R (reconcile_finished_row A b row v t)"
  unfolding reconcile_finished_row_def by (intro pass m_trades m_trip)

lemma m_answer: "moves R (answer coid yes)"
  unfolding answer_def by (rule m_upd) simp_all

lemma m_answer_restored: "moves R (answer_restored w rc b coid row yes)"
  unfolding answer_restored_def forget_fill_def by (intro pass m_answer m_settle_restored m_upd) simp_all

lemma m_recancel: "moves R (recancel_row A b row t r i)"
  unfolding recancel_row_def by (intro pass m_adopted_row m_emit m_upd) simp_all

lemma m_reported: "moves R (reported_row A rc coid b row t r)"
  unfolding reported_row_def
  by (intro pass m_then_row m_recancel m_adopted_row m_answer_restored m_lookup m_upd) simp_all

lemma m_open_step: "moves R (open_row_step A rc rs coid b row)"
  unfolding open_row_step_def
  by (intro pass m_then_row m_adopted_row m_answer_restored m_cached_order m_reported m_mark_unmatched)

lemma m_finished_step: "moves R (finished_row_step A rs coid b row)"
  unfolding finished_row_step_def
  by (intro pass m_then_row m_adopted_row m_finished_row m_answer m_cached_order m_lookup
      m_mark_unmatched)

lemma m_venue_read: "moves R (read_venue_orders A rs fs)"
  unfolding read_venue_orders_def needs_venue_def
  by (intro pass m_filter_rows m_cached_order m_upd) simp_all

lemma m_settle_positions: "moves R (settle_positions A)"
  unfolding settle_positions_def by (intro pass m_upd) simp_all

lemma m_tally: "moves R (tally_rows w c rs m)"
  by (induction rs arbitrary: m) (auto simp: tally_row_def intro!: pass)

lemma m_settle_pending: "moves R (settle_pending_intents A now rs fs c reports read)"
  unfolding settle_pending_intents_def settle_pending_intent_def
  by (intro pass m_read_ledger m_tally m_foldr w_jstr w_jint)

lemma m_raw_level: "moves R (raw_level w now)"
  unfolding raw_level_def by (intro pass m_upd) simp_all

lemma m_classify: "moves R (classify_all A all rs reports qs)"
  by (induction qs) (auto simp: classify_resting_def Let_def intro!: pass m_attach m_emit)

lemma m_window:
  "moves R (catch (bnd (read_window w now) (\<lambda>(rs, fs). ret (rs, fs, True))) (\<lambda>_. ret ([], [], False)))"
  unfolding read_window_def by (intro pass m_read_ledger)

lemma m_adopt: "moves R (adopt_resting_orders A now)"
  unfolding adopt_resting_orders_def reset_fills_read_def
  by (intro m_window pass m_venue_read m_settle_positions m_sweep m_open_step m_finished_step
      m_settle_pending m_evaluate m_raw_level m_classify m_upd) simp_all

lemma m_stranded: "moves R (stranded_rows w)"
  unfolding stranded_rows_def by (intro pass m_read_ledger)

end

lemma keeps_moves: "keeps P m \<longleftrightarrow> moves (\<lambda>s s'. P s \<longrightarrow> P s') m"
  by (simp add: keeps_def moves_def)

lemma stale_nonempty: "stale_sockets now ss = Inr es \<Longrightarrow> es \<noteq> [] \<Longrightarrow> ss \<noteq> []"
  by auto

sublocale log_invariant \<subseteq> passes: pass_relation "\<lambda>s s'. P s \<longrightarrow> P s'"
  by unfold_locales
    (auto simp: keeps_moves [symmetric] intro: frame thawed froze keeps_emit keeps_ledger keeps_evaluate keeps_trip
      keeps_cancel_resting keeps_sq keeps_updA keeps_enter keeps_settle_restored keeps_trip_on_fill keeps_detached)

text \<open>No handler of orders, plans or rows touches the sockets.\<close>

interpretation sockets: log_invariant "\<lambda>s. x_sockets s = v"
  by unfold_locales auto

lemma sockets_stranded: "x_sockets (snd (stranded_rows w s)) = x_sockets s"
  using sockets.passes.m_stranded by (simp add: moves_def)

context pass_relation
begin

lemma m_thaw_after:
  assumes "moves R m" and "x_sockets (snd (m s)) = []"
  shows "R s (snd (bnd m (\<lambda>b. if b then skip else thaw) s))"
proof -
  have "R u (snd (thaw u))" if "x_sockets u = []" for u
  proof -
    have "R (u\<lparr>x_frozen := False\<rparr>) (u\<lparr>x_frozen := False, x_frozen_at := None\<rparr>)" by (rule booked) simp_all
    then show ?thesis using thawed [OF that] by (auto simp: thaw_def steps intro: trans)
  qed
  moreover obtain r u where u: "m s = (r, u)" by force
  moreover have "R s u" "x_sockets u = []" using assms u by (metis moves_def snd_conv)+
  ultimately show ?thesis by (cases r) (auto simp: steps intro: trans)
qed

lemma m_lift_freeze: "moves R (lift_freeze w)"
  unfolding moves_def
proof
  fix s
  show "R s (snd (lift_freeze w s))"
  proof (cases "x_frozen s \<and> x_sockets s = []")
    case True
    then have "x_sockets (snd (stranded_rows w s)) = []" using sockets_stranded by simp
    then have none: "R s (snd (bnd (stranded_rows w) (\<lambda>b. if b then skip else thaw) s))"
      by (intro m_thaw_after m_stranded)
    have old: "R s (snd (bnd (lift (dt_lt c e)) (\<lambda>b. if b then skip else thaw) s))" for c e
      using True by (intro m_thaw_after w_lift) (simp add: steps)
    from True none old show ?thesis
      by (simp add: lift_freeze_def steps refl split: option.split)
  qed (auto simp: lift_freeze_def steps refl split: option.split)
qed

lemma m_freeze_loop: "moves R (freeze_loop w)"
  unfolding freeze_loop_def by (intro pass m_cancel_resting m_revoked m_upd) simp_all

lemma m_freeze_stale: "moves R (freeze_stale w now)"
  unfolding moves_def
proof
  fix s
  show "R s (snd (freeze_stale w now s))"
  proof (cases "x_frozen s")
    case False
    show ?thesis
    proof (cases "stale_sockets now (x_sockets s)")
      case (Inr es)
      have "es \<noteq> [] \<Longrightarrow> R s (s\<lparr>x_frozen := True\<rparr>)" using froze [OF stale_nonempty [OF Inr] False] .
      then have "es \<noteq> [] \<Longrightarrow> R s (snd (freeze_loop w (s\<lparr>x_frozen := True\<rparr>)))"
        using m_freeze_loop unfolding moves_def by (blast intro: trans)
      with False Inr show ?thesis by (simp add: freeze_stale_def steps refl)
    qed (use False in \<open>simp add: freeze_stale_def steps refl\<close>)
  qed (simp add: freeze_stale_def steps refl)
qed

lemma m_watch: "moves R (watch_sockets w now)"
  unfolding watch_sockets_def by (intro pass m_lift_freeze m_freeze_stale)

lemma m_reread_rows: "moves R (reread_rows A now)"
  unfolding reread_rows_def by (intro pass m_read_ledger m_filter_rows m_minted_closed)

lemma m_reread: "moves R (reread_pass A now)"
  unfolding reread_pass_def reread_inputs_def reset_fills_read_def spend_reread_try_def
  by (intro pass m_reread_rows m_answered m_sweep m_open_step m_settle_positions m_upd) simp_all

lemma m_owed_reread: "moves R (run_owed_reread A now)"
  unfolding run_owed_reread_def owe_reread_def nothing_in_flight_def
  by (intro pass m_reread m_lift_freeze m_upd) simp_all

lemma m_tick_adoption: "moves R (tick_adoption A now)"
  unfolding tick_adoption_def by (intro pass m_adopt m_watch m_owed_reread)

lemma m_external: "moves R (on_external_event w ev)"
  unfolding on_external_event_def on_external_event_raw_def external_evidence_def complete_row_def event_payload_def
  by (intro pass m_arm_reread m_trip_on_fill m_detached m_set_row_state m_settle_row
      m_venue_terminal m_emit m_upd) simp_all

end

interpretation budget: pass_relation calm
proof
  show "moves calm (settle_restored_intent w b row)" for w b row by (rule st_ca [OF st_settle_restored])
  show "moves calm (sq (updA (\<lambda>a. a\<lparr>a_revoke_reasons := rs\<rparr>)) (enter w Cancelling))" for rs w
    by (intro ca.w ca_updA ca_enter) (simp_all add: kept_def revoked_def)
qed (auto simp: calm_def loose_def kept_refl intro: ca_emit ca_st ca_trip ca_cancel_resting ca_trip_on_fill ca_detached)

text \<open>An invariant the sockets may come and go under.\<close>

lemma moves_socket:
  "(\<And>e. moves R (f e)) \<Longrightarrow> (\<And>e. moves R (g e)) \<Longrightarrow> moves R (case ev of Disconnected e \<Rightarrow> f e | Connected e \<Rightarrow> g e)"
  by (cases ev) simp_all

lemmas keeps_socket_case = moves_socket [of "\<lambda>s s'. P s \<longrightarrow> P s'" for P, folded keeps_moves]

locale socket_invariant = log_invariant +
  assumes plugged: "P s \<Longrightarrow> P (s\<lparr>x_sockets := v\<rparr>)"
begin

lemma keeps_socket: "keeps P (on_socket_state w ev)"
proof -
  have plug: "keeps P (upd (\<lambda>s. s\<lparr>x_sockets := AList.delete e (x_sockets s)\<rparr>))" for e
    using plugged by (simp add: keeps_def upd_def)
  have drop: "keeps P (upd (\<lambda>s. let s1 = s\<lparr>x_sockets := (if map_of (x_sockets s) e = None then x_sockets s @ [(e, now)] else x_sockets s)\<rparr> in
      if x_armed_by s = None \<or> x_armed_by s = Some e
      then s1\<lparr>x_reread_tries := 0, x_owed := False, x_armed_by := None\<rparr> else s1))" for e now
    unfolding keeps_def upd_def Let_def by (auto intro: frame [OF plugged])
  show ?thesis
    unfolding on_socket_state_def on_socket_state_raw_def
    by (intro basic keeps_socket_case plug drop passes.m_lift_freeze [folded keeps_moves] keeps_upd) (simp_all add: Let_def)
qed

end

interpretation gate: socket_invariant gated
  by unfold_locales (auto simp: gated_def)

interpretation write_ahead: socket_invariant accounted
  by unfold_locales (auto simp: accounted_def)

interpretation kill: socket_invariant "silenced l"
  by unfold_locales (auto simp: silenced_def)

end
