(* ===== verification/CycleDraft.thy ===== *)
theory CycleDraft imports WeekScore DraftLegs Adoption
begin

text \<open>
  \<open>cli/engine/executor.py\<close>, the accumulation loop: the boundary's act, the draft it arms, the equity mark with its two
  trips, the table of legs, the hand-over of the plan to the pickup's walls and the draft record. The machine is the
  executor's with the loop's own state; the executor's actions run on their part of it. Gauges, log lines and the
  formatted numbers in messages are left out.
\<close>

section \<open>Constants\<close>

definition SUBMISSION_WINDOW :: int where "SUBMISSION_WINDOW = 3 * hour_us + 30 * minute_us"
definition LOOP_CASH_RESERVE :: pyfloat where "LOOP_CASH_RESERVE = Fin 10"
definition DRAWDOWN_KILL_BPS :: pyfloat where "DRAWDOWN_KILL_BPS = Fin 1500"
definition DAY_LOSS_HOLD_BPS :: pyfloat where "DAY_LOSS_HOLD_BPS = Fin 300"
definition GATE_REFRESH :: int where "GATE_REFRESH = 60 * second_us"

definition MARK_FIGURES :: "string list" where
  "MARK_FIGURES = [''equity_eur'', ''hwm_eur'', ''drawdown_bps'', ''day_loss_bps'', ''day_loss_hold'']"

section \<open>State and world\<close>

record pending_draft =
  pd_boundary :: dt
  pd_record :: cycle_record
  pd_tries :: nat
  pd_window :: dt
  pd_minted :: bool
  pd_marked :: "jdict option"

text \<open>The executor, the draft pending, the two one-time flags, the start of the equity series and the draft records.\<close>

record cs =
  c_x :: xs
  c_pending :: "pending_draft option"
  c_checked :: bool
  c_derived :: bool
  c_series :: "string option"
  c_accum :: journal

text \<open>A boundary's two files: the failed cycle's sidecar and the record, which may raise when read.\<close>

record cycle_files =
  cf_sidecar :: bool
  cf_present :: bool
  cf_content :: "jtext option"

record cworld =
  cw_a :: aworld
  cw_enabled :: bool
  cw_reads :: "nat \<Rightarrow> bool"
  cw_cycle :: "nat \<Rightarrow> dt \<Rightarrow> cycle_files"
  cw_kill_file :: "nat \<Rightarrow> bool"
  cw_statuses :: "nat \<Rightarrow> (string \<times> string) list option res"
  cw_cache :: "nat \<Rightarrow> cache_view"
  cw_stamp :: "dt \<Rightarrow> string"
  cw_armed :: bool
  cw_band :: "pyfloat option"
  cw_nav :: pyfloat
  cw_cycles :: "nat \<Rightarrow> journal"
  cw_tracking_series :: "nat \<Rightarrow> text_file"
  cw_strptime :: "string \<Rightarrow> dt option"

abbreviation cw_x :: "cworld \<Rightarrow> world" where "cw_x w \<equiv> aw_x (cw_a w)"
abbreviation cw_book :: "cworld \<Rightarrow> nat \<Rightarrow> (cached_instrument list \<times> position_report list option \<times> account_balance list) res" where
  "cw_book w \<equiv> aw_book (cw_a w)"

section \<open>Actions\<close>

type_synonym 'a cact = "cs \<Rightarrow> 'a res \<times> cs"

definition cret :: "'a \<Rightarrow> 'a cact" where "cret x = (\<lambda>s. (Inr x, s))"
definition cfail :: "exn \<Rightarrow> 'a cact" where "cfail e = (\<lambda>s. (Inl e, s))"
definition cget :: "(cs \<Rightarrow> 'a) \<Rightarrow> 'a cact" where "cget f = (\<lambda>s. (Inr (f s), s))"
definition cupd :: "(cs \<Rightarrow> cs) \<Rightarrow> unit cact" where "cupd f = (\<lambda>s. (Inr (), f s))"
definition clift :: "'a res \<Rightarrow> 'a cact" where "clift r = (\<lambda>s. (r, s))"
definition cskip :: "unit cact" where "cskip = cret ()"

definition cbnd :: "'a cact \<Rightarrow> ('a \<Rightarrow> 'b cact) \<Rightarrow> 'b cact" where
  "cbnd m f = (\<lambda>s. case m s of (Inl e, s') \<Rightarrow> (Inl e, s') | (Inr x, s') \<Rightarrow> f x s')"

definition csq :: "'a cact \<Rightarrow> 'b cact \<Rightarrow> 'b cact" where
  "csq m n = cbnd m (\<lambda>_. n)"

text \<open>\<open>try\<close>: the outcome as a value; what was changed before a raise stays.\<close>

definition attempt :: "'a cact \<Rightarrow> 'a res cact" where
  "attempt m = (\<lambda>s. case m s of (r, s') \<Rightarrow> (Inr r, s'))"

definition ccatch :: "'a cact \<Rightarrow> (exn \<Rightarrow> 'a cact) \<Rightarrow> 'a cact" where
  "ccatch m h = cbnd (attempt m) (\<lambda>r. case r of Inl e \<Rightarrow> h e | Inr x \<Rightarrow> cret x)"

text \<open>An action of the executor.\<close>

definition exec :: "'a act \<Rightarrow> 'a cact" where
  "exec m = (\<lambda>s. case m (c_x s) of (r, x) \<Rightarrow> (r, s\<lparr>c_x := x\<rparr>))"

definition cask :: "(nat \<Rightarrow> 'a) \<Rightarrow> 'a cact" where
  "cask f = exec (ask f)"

text \<open>A file read that the disk may refuse.\<close>

definition reading :: "cworld \<Rightarrow> 'a res cact \<Rightarrow> 'a cact" where
  "reading w m = cbnd (cask (cw_reads w)) (\<lambda>ok. if ok then cbnd m clift else cfail OSError)"

definition with_draft :: "(pending_draft \<Rightarrow> 'a cact) \<Rightarrow> 'a cact" where
  "with_draft f = cbnd (cget c_pending) (\<lambda>p. case p of None \<Rightarrow> cfail AttributeError | Some d \<Rightarrow> f d)"

definition upd_draft :: "(pending_draft \<Rightarrow> pending_draft) \<Rightarrow> unit cact" where
  "upd_draft f = cupd (\<lambda>s. s\<lparr>c_pending := map_option f (c_pending s)\<rparr>)"

definition aware_utc :: "dt \<Rightarrow> dt res" where
  "aware_utc t = (if naive t then Inl (EngineError ''now must be aware'') else Inr (utc (instant t)))"

definition boundary_at :: "dt \<Rightarrow> dt res" where
  "boundary_at now = rbind (aware_utc now) (\<lambda>t. Inr (utc (wall t div H4 * H4)))"

section \<open>The two trips' readings\<close>

text \<open>A figure a validated record carries: null, or a number read as a float.\<close>

definition figure :: "jdict \<Rightarrow> string \<Rightarrow> pyfloat option" where
  "figure doc k = (case to_float (dget doc k) of Inr x \<Rightarrow> Some x | Inl _ \<Rightarrow> None)"

definition day_loss_held :: "jdict list \<Rightarrow> bool" where
  "day_loss_held records \<longleftrightarrow> list_ex (\<lambda>r.
     (case figure r ''day_loss_bps'' of None \<Rightarrow> False | Some x \<Rightarrow> fge x DAY_LOSS_HOLD_BPS) \<or>
     figure r ''equity_eur'' \<noteq> None \<and> dget r ''day_loss_hold'' = JBool True) records"

definition marks_of :: "(string \<Rightarrow> dt option) \<Rightarrow> jdict list \<Rightarrow> (int \<times> pyfloat) list" where
  "marks_of fromiso records = List.map_filter (\<lambda>r.
     case figure r ''equity_eur'' of None \<Rightarrow> None | Some e \<Rightarrow> Some (instant (record_ts fromiso r), e)) records"

definition day_base :: "(int \<times> pyfloat) list \<Rightarrow> dt \<Rightarrow> pyfloat \<Rightarrow> pyfloat" where
  "day_base earlier boundary equity =
     (let day = instant (midnight boundary); marks = earlier @ [(instant boundary, equity)];
          opening = map snd (filter (\<lambda>m. fst m = day) marks);
          previous = map snd (filter (\<lambda>m. day - day_us \<le> fst m \<and> fst m < day) marks) in
      if opening \<noteq> [] then hd opening
      else if previous \<noteq> [] then last previous
      else snd (hd (filter (\<lambda>m. day \<le> fst m) marks)))"

text \<open>\<open>max\<close> of a list: the first of the largest.\<close>

fun py_max :: "pyfloat \<Rightarrow> pyfloat list \<Rightarrow> pyfloat" where
  "py_max m [] = m"
| "py_max m (x # xs) = py_max (if fgt x m then x else m) xs"

text \<open>The book's coin at the closes.\<close>

definition base_eur :: "venue_book \<Rightarrow> (string \<times> pyfloat) list \<Rightarrow> string \<times> string \<Rightarrow> pyfloat res" where
  "base_eur book closes bs =
     (case (map_of (vb_held book) (snd bs), map_of closes (fst bs)) of
        (Some q, Some c) \<Rightarrow>
          Inr (fmul (fadd q (case map_of (vb_earn book) (fst bs) of None \<Rightarrow> Fin 0 | Some e \<Rightarrow> e)) c)
      | _ \<Rightarrow> Inl KeyError)"

definition book_coin_eur :: "venue_book \<Rightarrow> (string \<times> pyfloat) list \<Rightarrow> pyfloat res" where
  "book_coin_eur book closes = rbind (rmap (base_eur book closes) SPOT_SYMBOL_BY_BASE) (\<lambda>xs. Inr (fsum xs))"

section \<open>The equity series\<close>

definition series_start :: "cworld \<Rightarrow> dt option cact" where
  "series_start w = reading w (cget (\<lambda>s.
     case c_series s of
       None \<Rightarrow> Inr None
     | Some text \<Rightarrow>
         (case w_fromiso (cw_x w) text of
            None \<Rightarrow> Inl (EngineJournalError ''the start record is not an instant'')
          | Some start \<Rightarrow>
              if naive start then Inl (EngineJournalError ''the start record names no UTC offset'') else Inr (Some start))))"

definition mint_series_start :: "cworld \<Rightarrow> dt \<Rightarrow> unit cact" where
  "mint_series_start w ts =
     cbnd (cask (w_disk (cw_x w))) (\<lambda>ok.
       if ok then cupd (\<lambda>s. s\<lparr>c_series := Some (w_isofmt (cw_x w) ts)\<rparr>) else cfail OSError)"

definition scan_accum :: "cworld \<Rightarrow> dt \<Rightarrow> dt \<Rightarrow> jdict list cact" where
  "scan_accum w since until = reading w (cget (\<lambda>s. accum_records_since (w_fromiso (cw_x w)) (c_accum s) since until))"

definition set_hold :: "bool \<Rightarrow> unit cact" where
  "set_hold b = exec (upd (\<lambda>x. x\<lparr>x_day_loss := b\<rparr>))"

definition later_of :: "dt \<Rightarrow> dt \<Rightarrow> dt" where
  "later_of a b = (if instant a < instant b then b else a)"

definition derive_day_loss_hold :: "cworld \<Rightarrow> dt \<Rightarrow> unit cact" where
  "derive_day_loss_hold w at_ts =
     ccatch (cbnd (series_start w) (\<lambda>start.
             cbnd (case start of None \<Rightarrow> cret [] | Some t \<Rightarrow> scan_accum w (later_of t (midnight at_ts)) at_ts) (\<lambda>records.
             set_hold (day_loss_held records))))
       (\<lambda>_. set_hold True)"

section \<open>The equity mark\<close>

definition closes_of :: "cycle_record \<Rightarrow> (string \<times> pyfloat) list option res" where
  "closes_of r = (case cy_closes r of None \<Rightarrow> Inr None | Some d \<Rightarrow> rbind (named_floats d) (\<lambda>c. Inr (Some c)))"

definition unmarked :: "bool \<Rightarrow> jdict" where
  "unmarked hold =
     [(''equity_eur'', JNull), (''hwm_eur'', JNull), (''drawdown_bps'', JNull), (''day_loss_bps'', JNull),
      (''day_loss_hold'', JBool hold)]"

record equity_mark =
  em_equity :: pyfloat
  em_hwm :: pyfloat
  em_drawdown :: pyfloat
  em_day_loss :: pyfloat
  em_hold :: bool

text \<open>
  The figures of a mark from the scan of the series' records. The record the draft replaces stands out of the
  high-water mark and the base, and in the hold unless the draft minted the series.
\<close>

definition equity_mark_of :: "(string \<Rightarrow> dt option) \<Rightarrow> jdict list \<Rightarrow> bool \<Rightarrow> dt \<Rightarrow> pyfloat \<Rightarrow> pyfloat \<Rightarrow> equity_mark res" where
  "equity_mark_of fromiso scan young boundary equity nav =
     (let at_of = (\<lambda>r. instant (record_ts fromiso r));
          records = filter (\<lambda>r. at_of r \<noteq> instant boundary) scan;
          marks = marks_of fromiso records;
          hwm = (case map snd marks of [] \<Rightarrow> equity | e # es \<Rightarrow> py_max e (es @ [equity])) in
      rbind (fdiv (fmul (fsub hwm equity) (Fin 10000)) nav) (\<lambda>drawdown.
      rbind (fdiv (fmul (fsub (day_base marks boundary equity) equity) (Fin 10000)) nav) (\<lambda>day_loss.
      let held = (if young then records else scan);
          hold = (fge day_loss DAY_LOSS_HOLD_BPS \<or>
            day_loss_held (filter (\<lambda>r. instant (midnight boundary) \<le> at_of r) held)) in
      Inr \<lparr>em_equity = equity, em_hwm = hwm, em_drawdown = drawdown, em_day_loss = day_loss, em_hold = hold\<rparr>)))"

definition mark_figures :: "equity_mark \<Rightarrow> bool \<Rightarrow> jdict" where
  "mark_figures m hold =
     [(''equity_eur'', JFloat (em_equity m)), (''hwm_eur'', JFloat (em_hwm m)), (''drawdown_bps'', JFloat (em_drawdown m)),
      (''day_loss_bps'', JFloat (em_day_loss m)), (''day_loss_hold'', JBool hold)]"

text \<open>The drawdown trip: a kill file that already latched keeps its first reason.\<close>

definition drawdown_trip :: "cworld \<Rightarrow> equity_mark \<Rightarrow> unit cact" where
  "drawdown_trip w m =
     (if fge (em_drawdown m) DRAWDOWN_KILL_BPS then
        cbnd (cask (cw_kill_file w)) (\<lambda>latched.
          if latched then cskip else exec (trip_kill (cw_x w) ''equity under the high-water mark''))
      else cskip)"

definition mark_priced :: "cworld \<Rightarrow> venue_book \<Rightarrow> (string \<times> pyfloat) list \<Rightarrow> dt \<Rightarrow> pyfloat \<Rightarrow> jdict cact" where
  "mark_priced w book closes boundary nav =
     cbnd (clift (book_coin_eur book closes)) (\<lambda>coin.
     let equity = fadd (vb_eur_total book) coin in
     cbnd (series_start w) (\<lambda>start.
     with_draft (\<lambda>d.
     let young = (start = None \<or> pd_minted d) in
     cbnd (scan_accum w (case start of None \<Rightarrow> boundary | Some t \<Rightarrow> if young then boundary else t) boundary) (\<lambda>scan.
     cbnd (clift (equity_mark_of (w_fromiso (cw_x w)) scan young boundary equity nav)) (\<lambda>m.
     csq (if start = None then csq (mint_series_start w boundary) (upd_draft (\<lambda>d. d\<lparr>pd_minted := True\<rparr>)) else cskip)
     (csq (set_hold (em_hold m))
     (csq (drawdown_trip w m)
     (cbnd (cget (\<lambda>s. x_day_loss (c_x s))) (\<lambda>hold. cret (mark_figures m hold)))))))))) "

definition mark_equity :: "cworld \<Rightarrow> venue_book \<Rightarrow> cycle_record \<Rightarrow> jdict cact" where
  "mark_equity w book r =
     cbnd (clift (closes_of r)) (\<lambda>closes.
       case (closes, cy_nav r) of
         (Some c, Some nav) \<Rightarrow>
           if set (map fst SPOT_SYMBOL_BY_BASE) \<subseteq> set (map fst c) then mark_priced w book c (cy_ts r) nav
           else cbnd (cget (\<lambda>s. x_day_loss (c_x s))) (\<lambda>hold. cret (unmarked hold))
       | _ \<Rightarrow> cbnd (cget (\<lambda>s. x_day_loss (c_x s))) (\<lambda>hold. cret (unmarked hold)))"

section \<open>Records of a draft\<close>

definition outcome_name :: "leg_outcome \<Rightarrow> string" where
  "outcome_name out = (case out of Placed \<Rightarrow> ''placed'' | Queued \<Rightarrow> ''queued'' | Carried \<Rightarrow> ''carried'' | OnTarget \<Rightarrow> ''on-target'')"

definition accum_leg :: "leg_decision \<Rightarrow> json" where
  "accum_leg d = JObj
     [(''symbol'', JStr (ld_symbol d)), (''weight'', JFloat (ld_weight d)), (''target_eur'', JFloat (ld_target d)),
      (''close'', JFloat (ld_price d)), (''held_qty'', JFloat (ld_held d)), (''cache_net'', opt_num (ld_engine d)),
      (''delta_eur'', JFloat (ld_delta d)), (''outcome'', JStr (outcome_name (ld_outcome d))),
      (''side'', case ld_side d of None \<Rightarrow> JNull | Some t \<Rightarrow> JStr t), (''qty'', opt_num (ld_qty d)),
      (''notional_eur'', opt_num (ld_notional d)), (''reason'', JStr (ld_reason d))]"

definition accum_document ::
  "(dt \<Rightarrow> string) \<Rightarrow> dt \<Rightarrow> dt \<Rightarrow> string \<Rightarrow> jdict \<Rightarrow> leg_decision list \<Rightarrow> string option \<Rightarrow> bool \<Rightarrow> jdict" where
  "accum_document isofmt boundary now status figures decisions plan_id held =
     [(''schema_version'', JInt ACCUM_SCHEMA_VERSION), (''cycle_ts'', JStr (isofmt boundary)),
      (''drafted_at'', JStr (isofmt now)), (''status'', JStr status)] @
     map (\<lambda>k. (k, dget figures k)) RECORD_FIGURES @
     [(''day_loss_hold'', JBool (if has_key figures ''day_loss_hold'' then truthy (dget figures ''day_loss_hold'') else held)),
      (''plan_id'', case plan_id of None \<Rightarrow> JNull | Some p \<Rightarrow> JStr p), (''legs'', JArr (map accum_leg decisions))]"

text \<open>\<open>figures | {key: replaced[key] ...}\<close> from the record an earlier process wrote.\<close>

definition keep_mark :: "json \<Rightarrow> jdict \<Rightarrow> jdict res" where
  "keep_mark replaced figures =
     rbind (jindex replaced ''equity_eur'') (\<lambda>e.
       if e = JNull then Inr figures
       else rbind (rmap (\<lambda>k. rbind (jindex replaced k) (\<lambda>v. Inr (k, v))) MARK_FIGURES) (\<lambda>kept.
         Inr (fold (\<lambda>(k, v) f. dset f k v) kept figures)))"

definition write_draft_record ::
  "cworld \<Rightarrow> dt \<Rightarrow> dt \<Rightarrow> string \<Rightarrow> jdict \<Rightarrow> leg_decision list \<Rightarrow> string option \<Rightarrow> unit cact" where
  "write_draft_record w boundary now status figures decisions plan_id =
     ccatch
       (cbnd (cget (\<lambda>s. map_of (c_accum s) (accum_record_path boundary))) (\<lambda>old.
        cbnd (case old of
                Some t \<Rightarrow> if dget figures ''equity_eur'' = JNull
                          then reading w (cret (rbind (read_accum_record t) (\<lambda>v. keep_mark v figures))) else cret figures
              | None \<Rightarrow> cret figures) (\<lambda>figures.
        cbnd (cget (\<lambda>s. x_day_loss (c_x s))) (\<lambda>held.
        cbnd (cask (w_disk (cw_x w))) (\<lambda>ok.
          if \<not> ok then cfail OSError
          else cbnd (cget (\<lambda>s. write_accum_record (w_fromiso (cw_x w)) boundary
                 (accum_document (w_isofmt (cw_x w)) boundary now status figures decisions plan_id held) (c_accum s))) (\<lambda>r.
               cbnd (clift r) (\<lambda>j. cupd (\<lambda>s. s\<lparr>c_accum := j\<rparr>))))))))
       (\<lambda>_. cskip)"

text \<open>\<open>_finish_draft\<close>: the draft record, and the exec record journaled again.\<close>

definition rejournal :: "cworld \<Rightarrow> dt \<Rightarrow> dt \<Rightarrow> unit cact" where
  "rejournal w boundary now =
     exec (bnd (x_evaluate (cw_x w) now) (\<lambda>v. ledger (cw_x w) (WriteRecord boundary v now)))"

definition finish_draft :: "cworld \<Rightarrow> dt \<Rightarrow> string \<Rightarrow> jdict option \<Rightarrow> leg_decision list \<Rightarrow> string option \<Rightarrow> unit cact" where
  "finish_draft w now status figures decisions plan_id =
     with_draft (\<lambda>d.
     csq (cupd (\<lambda>s. s\<lparr>c_pending := None\<rparr>))
     (let marked_now = (case figures of None \<Rightarrow> False | Some f \<Rightarrow> dget f ''equity_eur'' \<noteq> JNull);
          figures1 = (if \<not> marked_now \<and> pd_marked d \<noteq> None then pd_marked d else figures);
          figures2 = (case figures1 of None \<Rightarrow> [(''nav'', opt_num (cy_nav (pd_record d)))] | Some f \<Rightarrow> f) in
      csq (write_draft_record w (pd_boundary d) now status figures2 decisions plan_id)
          (ccatch (rejournal w (pd_boundary d) now) (\<lambda>_. cskip))))"

definition spend_draft_try :: "cworld \<Rightarrow> dt \<Rightarrow> string \<Rightarrow> jdict \<Rightarrow> unit cact" where
  "spend_draft_try w now status figures =
     with_draft (\<lambda>d.
     csq (upd_draft (\<lambda>d. d\<lparr>pd_tries := pd_tries d - 1\<rparr>))
         (if pd_tries d - 1 \<noteq> 0 then cskip else finish_draft w now status (Some figures) [] None))"

section \<open>Arming\<close>

definition read_cycle_record :: "cworld \<Rightarrow> dt \<Rightarrow> cycle_record option cact" where
  "read_cycle_record w boundary =
     cbnd (cask (\<lambda>n. cw_cycle w n boundary)) (\<lambda>f.
       if cf_sidecar f \<or> \<not> cf_present f then cret None
       else clift (case cf_content f of
              None \<Rightarrow> Inl OSError
            | Some t \<Rightarrow>
                rbind (from_json (w_fromiso (cw_x w)) t) (\<lambda>r.
                rbind (require_comparable_cycle_ts r) (\<lambda>_.
                rbind (validate_record r) (\<lambda>_.
                  if dt_eq (cy_ts r) boundary then Inr (Some r)
                  else Inl (EngineJournalError ''names another cycle''))))))"

definition arm_cycle_draft :: "cworld \<Rightarrow> dt \<Rightarrow> unit cact" where
  "arm_cycle_draft w raw =
     csq (cupd (\<lambda>s. s\<lparr>c_checked := True\<rparr>))
     (ccatch
       (if \<not> cw_enabled w then cskip
        else cbnd (clift (aware_utc raw)) (\<lambda>boundary.
             cbnd (cask (w_now (cw_x w))) (\<lambda>now.
             cbnd (cget c_pending) (\<lambda>p.
             csq (if p \<noteq> None then finish_draft w now ''window-closed'' None [] None else cskip)
             (cbnd (ccatch (read_cycle_record w boundary) (\<lambda>_. cret None)) (\<lambda>r. case r of
                None \<Rightarrow> write_draft_record w boundary now ''no-cycle'' [] [] None
              | Some r \<Rightarrow> cupd (\<lambda>s. s\<lparr>c_pending := Some
                  \<lparr>pd_boundary = boundary, pd_record = r, pd_tries = REREAD_ATTEMPTS,
                   pd_window = dt_add boundary SUBMISSION_WINDOW, pd_minted = False, pd_marked = None\<rparr>\<rparr>)))))))
       (\<lambda>_. cskip))"

text \<open>Whether the boundary's draft record names a plan.\<close>

definition drafted_plan :: "cworld \<Rightarrow> dt \<Rightarrow> bool cact" where
  "drafted_plan w boundary =
     cbnd (cget (\<lambda>s. map_of (c_accum s) (accum_record_path boundary))) (\<lambda>t. case t of
       None \<Rightarrow> cret False
     | Some t \<Rightarrow> reading w (cret (rbind (read_accum_record t) (\<lambda>v. rbind (py_get v ''plan_id'') (\<lambda>p. Inr (p \<noteq> JNull))))))"

definition rearm_cycle_draft :: "cworld \<Rightarrow> dt \<Rightarrow> unit cact" where
  "rearm_cycle_draft w now =
     csq (cupd (\<lambda>s. s\<lparr>c_checked := True\<rparr>))
     (cbnd (cget c_pending) (\<lambda>p. if p \<noteq> None then cskip
      else cbnd (clift (boundary_at now)) (\<lambda>boundary.
           cbnd (ccatch
                  (cbnd (clift (dt_lt (dt_add boundary SUBMISSION_WINDOW) now)) (\<lambda>past. if past then cret False
                   else cbnd (cask (\<lambda>n. cw_cycle w n boundary)) (\<lambda>f. if \<not> cf_present f then cret False
                   else cbnd (drafted_plan w boundary) (\<lambda>named. cret (\<not> named)))))
                  (\<lambda>_. cret False)) (\<lambda>again.
             if again then arm_cycle_draft w boundary else cskip))))"

section \<open>The table\<close>

definition cache_net :: "cworld \<Rightarrow> string \<Rightarrow> pyfloat cact" where
  "cache_net w symbol = cbnd (cask (cw_cache w)) (\<lambda>cv. cret (fsum (cv_positions cv (instrument_id_of symbol))))"

definition resting_symbol :: "dt \<times> json \<Rightarrow> json res" where
  "resting_symbol br = rbind (rbind (jindex (snd br) ''intent'') (\<lambda>i. jindex i ''symbol'')) hashed"

definition table_symbols :: "string list" where
  "table_symbols = sort (map snd SPOT_SYMBOL_BY_BASE)"

text \<open>What a leg needs of the record and of the venue truth.\<close>

definition leg_lacks :: "cycle_record \<Rightarrow> (string \<times> pyfloat) list \<Rightarrow> (string \<times> pyfloat) list option \<Rightarrow> venue_state \<Rightarrow> string \<Rightarrow> bool" where
  "leg_lacks r targets closes vt symbol \<longleftrightarrow>
     cy_nav r = None \<or> map_of targets symbol = None \<or>
     (case closes of None \<Rightarrow> True | Some c \<Rightarrow> map_of c (hd (split_slash symbol)) = None) \<or>
     map_of (vt_instruments vt) symbol = None"

text \<open>The two reasons the table has to carry a leg it would place.\<close>

definition carry_resting :: "json list \<Rightarrow> leg_decision \<Rightarrow> leg_decision" where
  "carry_resting resting d =
     (if is_placed d \<and> JStr (ld_symbol d) \<in> set resting
      then carry ''an order of this symbol may still rest at the venue'' d else d)"

definition carry_status :: "(string \<times> string) list \<Rightarrow> leg_decision \<Rightarrow> leg_decision" where
  "carry_status statuses d =
     (let st = (case map_of statuses (ld_symbol d) of None \<Rightarrow> ''absent'' | Some t \<Rightarrow> t) in
      if is_placed d \<and> st \<noteq> ''TRADING''
      then (carry (''the venue lists the instrument '' @ st @ '', not TRADING'') d)\<lparr>ld_side := None\<rparr> else d)"

definition table_leg ::
  "cworld \<Rightarrow> venue_book \<Rightarrow> (string \<times> string) list \<Rightarrow> venue_state \<Rightarrow> (string \<times> pyfloat) list \<Rightarrow> (string \<times> pyfloat) list
    \<Rightarrow> pyfloat \<Rightarrow> json list \<Rightarrow> string \<Rightarrow> leg_decision cact" where
  "table_leg w book statuses vt targets closes nav resting symbol =
     (case (map_of (vt_instruments vt) symbol, map_of targets symbol, map_of closes (hd (split_slash symbol)),
            map_of (vb_held book) symbol) of
        (Some k, Some weight, Some price, Some held) \<Rightarrow>
          cbnd (cache_net w symbol) (\<lambda>net.
          cbnd (clift (decide_leg symbol weight price \<lparr>lk_ordermin = k_ordermin k, lk_lot_step = k_lot_step k\<rparr> held
                  (Some net) (Fin 0) False nav)) (\<lambda>leg.
            cret (carry_status statuses (carry_resting resting leg))))
      | _ \<Rightarrow> cfail KeyError)"

fun table_legs :: "(string \<Rightarrow> leg_decision cact) \<Rightarrow> string list \<Rightarrow> leg_decision list cact" where
  "table_legs f [] = cret []"
| "table_legs f (s # ss) = cbnd (f s) (\<lambda>d. cbnd (table_legs f ss) (\<lambda>ds. cret (d # ds)))"

definition draft_table ::
  "cworld \<Rightarrow> cycle_record \<Rightarrow> venue_book \<Rightarrow> (string \<times> string) list \<Rightarrow> venue_state \<Rightarrow> dt \<Rightarrow> leg_decision list option cact" where
  "draft_table w r book statuses vt now =
     cbnd (clift (rbind (named_floats (cy_targets r)) (\<lambda>t. rbind (closes_of r) (\<lambda>c. Inr (t, c))))) (\<lambda>(targets, closes).
       if list_ex (leg_lacks r targets closes vt) table_symbols then cret None
       else cbnd (cget (\<lambda>s. open_submitted_rows (w_fromiso (cw_x w)) (x_journal (c_x s)) now None)) (\<lambda>rows.
            cbnd (clift (rbind rows (rmap resting_symbol))) (\<lambda>resting.
            cbnd (table_legs (table_leg w book statuses vt targets (case closes of None \<Rightarrow> [] | Some c \<Rightarrow> c)
                    (case cy_nav r of None \<Rightarrow> Fin 0 | Some n \<Rightarrow> n) resting) table_symbols) (\<lambda>ds. cret (Some ds)))))"

section \<open>The draft\<close>

definition hold_plan_window :: "dt \<Rightarrow> unit cact" where
  "hold_plan_window t = exec (upd (\<lambda>x. x\<lparr>x_window_close := Some t\<rparr>))"

text \<open>The three reads of the venue's side; one that fails spends a try.\<close>

definition read_venue_side :: "cworld \<Rightarrow> (venue_book \<times> (string \<times> string) list \<times> venue_state) cact" where
  "read_venue_side w =
     cbnd (cbnd (cask (cw_book w)) (\<lambda>r. clift (rbind r (\<lambda>(listing, positions, balances).
       read_venue_book listing positions balances)))) (\<lambda>book.
     cbnd (cbnd (cask (cw_statuses w)) (\<lambda>r. clift (rbind r read_instrument_statuses))) (\<lambda>statuses.
     cbnd (cask (cw_cache w)) (\<lambda>cv.
     cbnd (clift (venue_state_from_cache cv (Some (vb_ordermin book)))) (\<lambda>vt. cret (book, statuses, vt)))))"

definition keep_book :: "venue_book \<Rightarrow> unit cact" where
  "keep_book book = exec (upd (\<lambda>x. x\<lparr>x_balances := Some (vb_balances book)\<rparr>))"

text \<open>The trims and the plan of a table.\<close>

definition drafted_legs :: "pyfloat \<Rightarrow> pyfloat \<Rightarrow> leg_decision list \<Rightarrow> (leg_decision list \<times> leg_decision list list) res" where
  "drafted_legs free cap ds0 =
     rbind (trim_buys_to_cash ds0 free LOOP_CASH_RESERVE) (\<lambda>ds1.
     rbind (trim_to_plan_cap ds1 cap) (\<lambda>ds.
     rbind (assemble_plans ds None None) (\<lambda>plans. Inr (ds, plans))))"

datatype handed = Closed | Handed string plan "leg_decision list"

definition hand_over :: "cworld \<Rightarrow> dt \<Rightarrow> pending_draft \<Rightarrow> leg_decision list \<Rightarrow> leg_decision list \<Rightarrow> handed cact" where
  "hand_over w now d ds p =
     cbnd (clift (parse_plan (w_fromiso (cw_x w)) (Parsed (JObj (plan_document (''r3-'' @ cw_stamp w (pd_boundary d))
       (w_isofmt (cw_x w) now) p))))) (\<lambda>pl.
     csq (hold_plan_window (pd_window d))
     (cbnd (exec (accept_plan (cw_x w) pl (pd_boundary d) now False)) (\<lambda>out. cret (Handed out pl ds))))"

definition draft_from_book ::
  "cworld \<Rightarrow> dt \<Rightarrow> pending_draft \<Rightarrow> venue_book \<Rightarrow> (string \<times> string) list \<Rightarrow> venue_state \<Rightarrow> jdict \<Rightarrow> handed cact" where
  "draft_from_book w now d book statuses vt figures =
     (if earn_refusal book \<noteq> None then csq (spend_draft_try w now ''book-unread'' figures) (cret Closed)
      else cbnd (draft_table w (pd_record d) book statuses vt now) (\<lambda>table. case table of
        None \<Rightarrow> csq (finish_draft w now ''refused'' (Some figures) [] None) (cret Closed)
      | Some ds0 \<Rightarrow>
          cbnd (clift (rbind (closes_of (pd_record d)) (\<lambda>c.
             rbind (book_coin_eur book (case c of None \<Rightarrow> [] | Some c \<Rightarrow> c)) (\<lambda>coin.
             case cy_nav (pd_record d) of None \<Rightarrow> Inl TypeError | Some nav \<Rightarrow> Inr (fmin (vb_eur_free book) (fsub nav coin)))))) (\<lambda>free.
          cbnd (cget (\<lambda>s. x_max_plan_notional (c_x s))) (\<lambda>cap.
          cbnd (clift (drafted_legs free cap ds0)) (\<lambda>(ds, plans). case plans of
             [] \<Rightarrow> csq (finish_draft w now ''ok'' (Some figures) ds None) (cret Closed)
           | p # _ \<Rightarrow> hand_over w now d ds p)))))"

text \<open>What a refused plan's own entry says, or nothing when the journal has none of this tick.\<close>

definition entry_of_tick :: "(dt \<Rightarrow> string) \<Rightarrow> string \<Rightarrow> dt \<Rightarrow> json \<Rightarrow> bool res" where
  "entry_of_tick isofmt plan_id now e =
     rbind (jindex e ''plan_id'') (\<lambda>p. if p \<noteq> JStr plan_id then Inr False
       else rbind (jindex e ''received_at'') (\<lambda>t. Inr (t = JStr (isofmt now))))"

fun first_entry :: "(json \<Rightarrow> bool res) \<Rightarrow> json list \<Rightarrow> json option res" where
  "first_entry p [] = Inr None"
| "first_entry p (e # es) = rbind (p e) (\<lambda>b. if b then Inr (Some e) else first_entry p es)"

definition refused_plan_reason :: "cworld \<Rightarrow> dt \<Rightarrow> string \<Rightarrow> dt \<Rightarrow> string option cact" where
  "refused_plan_reason w boundary plan_id now =
     ccatch (reading w (cget (\<lambda>s.
       rbind (case map_of (x_journal (c_x s)) (exec_record_path boundary) of None \<Rightarrow> Inl OSError | Some t \<Rightarrow> json_loads t) (\<lambda>doc.
       rbind (first_entry (entry_of_tick (w_isofmt (cw_x w)) plan_id now) (rev (plans_of (obj_of doc)))) (\<lambda>entry.
         Inr (map_option (\<lambda>e. joined ''; '' (str_values (arr_of (dget (obj_of e) ''reasons'')))) entry))))))
       (\<lambda>_. cret None)"

text \<open>What the draft does with the plan's fate: a plan left waiting is drafted again on a later tick.\<close>

definition close_handed :: "cworld \<Rightarrow> dt \<Rightarrow> pending_draft \<Rightarrow> jdict \<Rightarrow> handed \<Rightarrow> unit cact" where
  "close_handed w now d figures h =
     (case h of
        Closed \<Rightarrow> cskip
      | Handed out pl ds \<Rightarrow>
          if out = ''waiting'' then cskip
          else if out = ''accepted'' then finish_draft w now ''ok'' (Some figures) ds (Some (p_id pl))
          else cbnd (refused_plan_reason w (pd_boundary d) (p_id pl) now) (\<lambda>reason.
               let why = (case reason of None \<Rightarrow> ''the plan was refused and not run'' | Some r \<Rightarrow> r) in
               finish_draft w now ''refused'' (Some figures) (map (\<lambda>d. if is_placed d then carry why d else d) ds)
                 (if reason = None then None else Some (p_id pl))))"

definition mark_draft :: "cworld \<Rightarrow> venue_book \<Rightarrow> pending_draft \<Rightarrow> jdict \<Rightarrow> jdict cact" where
  "mark_draft w book d figures0 =
     cbnd (mark_equity w book (pd_record d)) (\<lambda>mark.
       let figures = fold (\<lambda>(k, v) f. dset f k v) mark
             (dset (dset figures0 ''eur_total'' (JFloat (vb_eur_total book))) ''eur_free'' (JFloat (vb_eur_free book))) in
       csq (if dget figures ''equity_eur'' \<noteq> JNull then upd_draft (\<lambda>d. d\<lparr>pd_marked := Some figures\<rparr>) else cskip)
           (cret figures))"

definition draft_in_window :: "cworld \<Rightarrow> dt \<Rightarrow> pending_draft \<Rightarrow> unit cact" where
  "draft_in_window w now d =
     (let figures0 = [(''nav'', opt_num (cy_nav (pd_record d)))] in
      cbnd (attempt (read_venue_side w)) (\<lambda>side. case side of
        Inl _ \<Rightarrow> spend_draft_try w now ''book-unread'' figures0
      | Inr (book, statuses, vt) \<Rightarrow>
          csq (keep_book book)
          (cbnd (attempt (mark_draft w book d figures0)) (\<lambda>marked. case marked of
             Inl _ \<Rightarrow> spend_draft_try w now ''refused'' figures0
           | Inr figures \<Rightarrow>
               cbnd (attempt (draft_from_book w now d book statuses vt figures)) (\<lambda>r. case r of
                 Inl _ \<Rightarrow> spend_draft_try w now ''refused'' figures
               | Inr h \<Rightarrow> close_handed w now d figures h)))))"

definition draft_cycle_plan :: "cworld \<Rightarrow> dt \<Rightarrow> unit cact" where
  "draft_cycle_plan w now =
     with_draft (\<lambda>d.
     cbnd (clift (dt_lt (pd_window d) now)) (\<lambda>late.
       if late then finish_draft w now ''window-closed'' None [] None
       else cbnd (exec (nothing_in_flight (cw_x w))) (\<lambda>clear. if clear then draft_in_window w now d else cskip)))"

section \<open>The boundary and the tick\<close>

definition week_inputs_of :: "cworld \<Rightarrow> pyfloat \<Rightarrow> journal \<Rightarrow> text_file \<Rightarrow> cs \<Rightarrow> week_inputs" where
  "week_inputs_of w band cycles series s =
     \<lparr>wk_fromiso = w_fromiso (cw_x w), wk_fstr = w_fstr (cw_x w), wk_strptime = cw_strptime w,
      wk_exec = x_journal (c_x s), wk_accum = c_accum s, wk_cycles = cycles, wk_series = series, wk_nav = cw_nav w,
      wk_band = band\<rparr>"

definition score_week :: "cworld \<Rightarrow> pyfloat \<Rightarrow> dt \<Rightarrow> unit cact" where
  "score_week w band boundary =
     cbnd (cask (cw_cycles w)) (\<lambda>cycles. cbnd (cask (cw_tracking_series w)) (\<lambda>series.
     cbnd (cget (\<lambda>s. score_closed_week (week_inputs_of w band cycles series s) boundary)) (\<lambda>verdict. case verdict of
       Inl e \<Rightarrow> if is_engine_error e then cskip else cfail e
     | Inr (Breached mean) \<Rightarrow> exec (trip_kill (cw_x w) ''the week's drift is outside the band'')
     | Inr _ \<Rightarrow> cskip)))"

definition evaluate_tracking :: "cworld \<Rightarrow> dt \<Rightarrow> unit cact" where
  "evaluate_tracking w boundary =
     (case cw_band w of
        None \<Rightarrow> cskip
      | Some band \<Rightarrow>
          if \<not> cw_armed w then cskip
          else cbnd (cget (\<lambda>s. x_kill (c_x s))) (\<lambda>tripped. cbnd (cask (cw_kill_file w)) (\<lambda>latched.
               if tripped \<or> latched then cskip
               else cbnd (clift (aware_utc boundary)) (score_week w band))))"

definition on_boundary :: "cworld \<Rightarrow> dt \<Rightarrow> unit cact" where
  "on_boundary w boundary =
     csq (ccatch
       (cbnd (cask (w_now (cw_x w))) (\<lambda>now.
        cbnd (clift (aware_utc boundary)) (\<lambda>b.
        csq (derive_day_loss_hold w b)
        (csq (rejournal w boundary now) (evaluate_tracking w boundary)))))
       (\<lambda>_. cskip))
     (arm_cycle_draft w boundary)"

definition refresh_gate :: "cworld \<Rightarrow> dt \<Rightarrow> unit cact" where
  "refresh_gate w now =
     ccatch (cbnd (cget (\<lambda>s. case x_evaluated_at (c_x s) of None \<Rightarrow> Inr GATE_REFRESH | Some t \<Rightarrow> dt_sub now t)) (\<lambda>age.
             cbnd (clift age) (\<lambda>us. if GATE_REFRESH \<le> us then exec (bnd (x_evaluate (cw_x w) now) (\<lambda>_. skip)) else cskip)))
       (\<lambda>_. cskip)"

text \<open>The drill file of this tick: none, one that did not parse, or a plan.\<close>

definition pickup_on_tick :: "cworld \<Rightarrow> (string + plan) option \<Rightarrow> dt \<Rightarrow> unit cact" where
  "pickup_on_tick w dropped now =
     (case dropped of
        None \<Rightarrow> cskip
      | Some d \<Rightarrow> cbnd (clift (boundary_at now)) (\<lambda>ts. exec (case d of
            Inl raised \<Rightarrow> refuse_unparseable (cw_x w) raised ts now
          | Inr pl \<Rightarrow> sq (accept_plan (cw_x w) pl ts now True) skip)))"

definition c_tick :: "cworld \<Rightarrow> dt \<Rightarrow> (string + plan) option \<Rightarrow> unit cact" where
  "c_tick w raw dropped =
     ccatch
       (cbnd (clift (aware_utc raw)) (\<lambda>now.
        csq (cbnd (cget c_derived) (\<lambda>derived. if derived then cskip
               else csq (cupd (\<lambda>s. s\<lparr>c_derived := True\<rparr>)) (derive_day_loss_hold w now)))
        (csq (exec (tick_adoption (cw_a w) now))
        (cbnd (cget (\<lambda>s. x_adopted (c_x s))) (\<lambda>adopted.
        csq (cbnd (cget c_checked) (\<lambda>checked. if adopted \<and> \<not> checked then rearm_cycle_draft w now else cskip))
        (csq (cbnd (cget (\<lambda>s. c_pending s \<noteq> None \<and> x_plan (c_x s) = None)) (\<lambda>due.
               if adopted \<and> due then draft_cycle_plan w now else cskip))
        (csq (cbnd (cget (\<lambda>s. x_plan (c_x s) = None)) (\<lambda>idle.
               if idle \<and> adopted then pickup_on_tick w dropped now else cskip))
        (csq (exec (pump (cw_x w) now)) (refresh_gate w now)))))))))
       (\<lambda>_. exec drop_plan)"

datatype cevent =
    CTick dt "(string + plan) option" | CBoundary dt | CExec xevent | CExternal order_event | CSocket socket_event

fun chandle :: "cworld \<Rightarrow> cevent \<Rightarrow> unit cact" where
  "chandle w (CTick now dropped) = c_tick w now dropped"
| "chandle w (CBoundary boundary) = on_boundary w boundary"
| "chandle w (CExec e) = exec (handle (cw_x w) e)"
| "chandle w (CExternal ev) = exec (on_external_event (cw_x w) ev)"
| "chandle w (CSocket ev) = exec (on_socket_state (cw_x w) ev)"

fun crun :: "cworld \<Rightarrow> cevent list \<Rightarrow> cs \<Rightarrow> cs" where
  "crun w [] s = s"
| "crun w (e # es) s = crun w es (snd (chandle w e s))"

section \<open>What every handler of the loop keeps\<close>

definition ckeeps :: "(xs \<Rightarrow> bool) \<Rightarrow> 'a cact \<Rightarrow> bool" where
  "ckeeps P m \<longleftrightarrow> (\<forall>s. P (c_x s) \<longrightarrow> P (c_x (snd (m s))))"

named_theorems ckeep

lemma ckeeps_exec: "keeps P m \<Longrightarrow> ckeeps P (exec m)"
  unfolding ckeeps_def keeps_def exec_def by (auto split: prod.splits)

lemma ckeeps_pure [ckeep]:
  "ckeeps P (cret x)" "ckeeps P (cfail e)" "ckeeps P (cget f)" "ckeeps P (clift r)" "ckeeps P cskip"
  by (simp_all add: ckeeps_def cret_def cfail_def cget_def clift_def cskip_def)

lemma ckeeps_bnd [ckeep]: "ckeeps P m \<Longrightarrow> (\<And>x. ckeeps P (f x)) \<Longrightarrow> ckeeps P (cbnd m f)"
  unfolding ckeeps_def cbnd_def by (auto split: prod.splits sum.splits)

lemma ckeeps_sq [ckeep]: "ckeeps P m \<Longrightarrow> ckeeps P n \<Longrightarrow> ckeeps P (csq m n)"
  by (simp add: csq_def ckeeps_bnd)

lemma ckeeps_attempt [ckeep]: "ckeeps P m \<Longrightarrow> ckeeps P (attempt m)"
  unfolding ckeeps_def attempt_def by (auto split: prod.splits)

lemma ckeeps_if [ckeep]: "(b \<Longrightarrow> ckeeps P m) \<Longrightarrow> (\<not> b \<Longrightarrow> ckeeps P n) \<Longrightarrow> ckeeps P (if b then m else n)"
  by simp

lemma ckeeps_option [ckeep]:
  "ckeeps P n \<Longrightarrow> (\<And>x. ckeeps P (f x)) \<Longrightarrow> ckeeps P (case v of None \<Rightarrow> n | Some x \<Rightarrow> f x)"
  by (simp split: option.split)

lemma ckeeps_prod [ckeep]: "(\<And>a b. ckeeps P (f a b)) \<Longrightarrow> ckeeps P (case v of (a, b) \<Rightarrow> f a b)"
  by (simp split: prod.split)

lemma ckeeps_sum [ckeep]:
  "(\<And>a. ckeeps P (f a)) \<Longrightarrow> (\<And>b. ckeeps P (g b)) \<Longrightarrow> ckeeps P (case v of Inl a \<Rightarrow> f a | Inr b \<Rightarrow> g b)"
  by (simp split: sum.split)

lemma ckeeps_list [ckeep]:
  "ckeeps P n \<Longrightarrow> (\<And>x xs. ckeeps P (f x xs)) \<Longrightarrow> ckeeps P (case v of [] \<Rightarrow> n | x # xs \<Rightarrow> f x xs)"
  by (simp split: list.split)

lemma ckeeps_Let [ckeep]: "(\<And>x. ckeeps P (f x)) \<Longrightarrow> ckeeps P (Let v f)"
  by simp

lemma ckeeps_catch [ckeep]: "ckeeps P m \<Longrightarrow> (\<And>e. ckeeps P (h e)) \<Longrightarrow> ckeeps P (ccatch m h)"
  unfolding ccatch_def by (intro ckeep)

lemma ckeeps_handed [ckeep]:
  "ckeeps P n \<Longrightarrow> (\<And>out pl ds. ckeeps P (f out pl ds)) \<Longrightarrow> ckeeps P (case h of Closed \<Rightarrow> n | Handed out pl ds \<Rightarrow> f out pl ds)"
  by (cases h) simp_all

lemma ckeeps_verdict [ckeep]:
  "(\<And>t. ckeeps P (f t)) \<Longrightarrow> (\<And>x. ckeeps P (g x)) \<Longrightarrow> (\<And>x. ckeeps P (h x)) \<Longrightarrow>
   ckeeps P (case v of Unscored t \<Rightarrow> f t | WithinBand x \<Rightarrow> g x | Breached x \<Rightarrow> h x)"
  by (cases v) simp_all

text \<open>A change of the loop's own state leaves the executor alone.\<close>

lemma ckeeps_upd: "(\<And>s. c_x (f s) = c_x s) \<Longrightarrow> ckeeps P (cupd f)"
  by (simp add: ckeeps_def cupd_def)

lemma ckeeps_upd_draft [ckeep]: "ckeeps P (upd_draft f)"
  unfolding upd_draft_def by (rule ckeeps_upd) simp

lemma ckeeps_with_draft [ckeep]: "(\<And>d. ckeeps P (f d)) \<Longrightarrow> ckeeps P (with_draft f)"
  unfolding with_draft_def by (intro ckeep)

lemma ckeepsD: "ckeeps P m \<Longrightarrow> P (c_x s) \<Longrightarrow> P (c_x (snd (m s)))"
  by (simp add: ckeeps_def)

text \<open>The contract of an invariant of the loop: what the loop does to the executor, call by call.\<close>

locale loop_invariant =
  fixes P :: "xs \<Rightarrow> bool"
  assumes asked: "P s \<Longrightarrow> P (s\<lparr>x_ticks := n\<rparr>)"
    and held: "P s \<Longrightarrow> P (s\<lparr>x_day_loss := b\<rparr>)"
    and windowed: "P s \<Longrightarrow> P (s\<lparr>x_window_close := t\<rparr>)"
    and booked: "P s \<Longrightarrow> P (s\<lparr>x_balances := v\<rparr>)"
    and trip: "keeps P (trip_kill w r)"
    and rejournaled: "keeps P (bnd (x_evaluate w now) (\<lambda>v. ledger w (WriteRecord ts v now)))"
    and evaluated: "keeps P (bnd (x_evaluate w now) (\<lambda>_. skip))"
    and accept: "keeps P (accept_plan w pl ts now drill)"
    and unparseable: "keeps P (refuse_unparseable w raised ts now)"
    and pumped: "keeps P (pump w now)"
    and dropped: "keeps P drop_plan"
    and handled: "keeps P (handle w e)"
    and adopted: "keeps P (tick_adoption A now)"
    and observed: "keeps P (on_external_event w ev)"
begin

lemma keeps_ask: "keeps P (ask f)"
  by (simp add: keeps_def ask_def asked)

lemma c_ask: "ckeeps P (cask f)"
  unfolding cask_def by (rule ckeeps_exec) (rule keeps_ask)

lemma c_set_hold: "ckeeps P (set_hold b)"
  unfolding set_hold_def by (rule ckeeps_exec) (simp add: keeps_def upd_def held)

lemma c_reading: "ckeeps P m \<Longrightarrow> ckeeps P (reading w m)"
  unfolding reading_def by (intro ckeep c_ask)

lemmas cbasic = ckeep c_ask c_set_hold c_reading

lemma c_series: "ckeeps P (series_start w)"
  unfolding series_start_def by (intro cbasic)

lemma c_scan: "ckeeps P (scan_accum w a b)"
  unfolding scan_accum_def by (intro cbasic)

lemma c_mint: "ckeeps P (mint_series_start w t)"
  unfolding mint_series_start_def by (intro cbasic ckeeps_upd; simp)

lemma c_derive: "ckeeps P (derive_day_loss_hold w t)"
  unfolding derive_day_loss_hold_def by (intro cbasic c_series c_scan)

lemma c_trip: "ckeeps P (exec (trip_kill w r))"
  by (rule ckeeps_exec) (rule trip)

lemma c_mark: "ckeeps P (mark_equity w book r)"
  unfolding mark_equity_def mark_priced_def drawdown_trip_def
  by (intro cbasic c_series c_scan c_mint c_trip)

lemma c_rejournal: "ckeeps P (rejournal w b now)"
  unfolding rejournal_def by (rule ckeeps_exec) (rule rejournaled)

lemma c_write_draft: "ckeeps P (write_draft_record w b now st f ds p)"
  unfolding write_draft_record_def by (intro cbasic ckeeps_upd; simp)

lemma c_finish: "ckeeps P (finish_draft w now st f ds p)"
  unfolding finish_draft_def by (intro cbasic ckeeps_upd c_write_draft c_rejournal; simp)

lemma c_spend: "ckeeps P (spend_draft_try w now st f)"
  unfolding spend_draft_try_def by (intro cbasic c_finish)

lemma c_arm: "ckeeps P (arm_cycle_draft w b)"
  unfolding arm_cycle_draft_def read_cycle_record_def
  by (intro cbasic ckeeps_upd c_finish c_write_draft; simp)

lemma c_rearm: "ckeeps P (rearm_cycle_draft w now)"
  unfolding rearm_cycle_draft_def drafted_plan_def
  by (intro cbasic ckeeps_upd c_arm; simp)

lemma c_accept: "ckeeps P (exec (accept_plan w pl ts now drill))"
  by (rule ckeeps_exec) (rule accept)

lemma c_table_legs: "(\<And>s. ckeeps P (f s)) \<Longrightarrow> ckeeps P (table_legs f ss)"
  by (induction ss) (auto intro!: ckeep)

lemma c_table: "ckeeps P (draft_table w r book st vt now)"
  unfolding draft_table_def table_leg_def cache_net_def by (intro cbasic c_table_legs)

lemma c_hold_window: "ckeeps P (hold_plan_window t)"
  unfolding hold_plan_window_def by (rule ckeeps_exec) (simp add: keeps_def upd_def windowed)

lemma c_keep_book: "ckeeps P (keep_book b)"
  unfolding keep_book_def by (rule ckeeps_exec) (simp add: keeps_def upd_def booked)

lemma c_from_book: "ckeeps P (draft_from_book w now d book st vt f)"
  unfolding draft_from_book_def hand_over_def
  by (intro cbasic c_spend c_finish c_table c_hold_window c_accept)

lemma c_mark_draft: "ckeeps P (mark_draft w book d f)"
  unfolding mark_draft_def by (intro cbasic c_mark)

lemma c_close: "ckeeps P (close_handed w now d f h)"
  unfolding close_handed_def refused_plan_reason_def by (intro cbasic c_finish)

lemma c_draft: "ckeeps P (draft_cycle_plan w now)"
  unfolding draft_cycle_plan_def draft_in_window_def read_venue_side_def nothing_in_flight_def
  by (intro cbasic ckeeps_exec keeps keeps_ask c_spend c_finish c_keep_book c_mark_draft c_from_book c_close) 

lemma c_track: "ckeeps P (evaluate_tracking w b)"
  unfolding evaluate_tracking_def score_week_def by (intro cbasic c_trip)

lemma c_boundary: "ckeeps P (on_boundary w b)"
  unfolding on_boundary_def by (intro cbasic c_derive c_rejournal c_track c_arm)

lemma c_tick_keeps: "ckeeps P (c_tick w now d)"
  unfolding c_tick_def pickup_on_tick_def refresh_gate_def
  by (intro cbasic ckeeps_upd c_derive c_rearm c_draft ckeeps_exec keeps_sum keeps_sq keeps_skip evaluated accept
      unparseable pumped dropped adopted; simp)

lemma c_handle: "(\<forall>ev. e \<noteq> CSocket ev) \<Longrightarrow> ckeeps P (chandle w e)"
  by (cases e) (auto simp: c_tick_keeps c_boundary ckeeps_exec handled observed)

end

text \<open>A run also carries the events of the sockets.\<close>

locale run_invariant = loop_invariant +
  assumes socketed: "keeps P (on_socket_state w ev)"
begin

lemma c_handle_any: "ckeeps P (chandle w e)"
  by (cases e) (simp_all add: c_handle ckeeps_exec socketed del: chandle.simps(1-4))

theorem crun_keeps: "P (c_x s) \<Longrightarrow> P (c_x (crun w es s))"
  by (induction es arbitrary: s) (auto intro: ckeepsD c_handle_any)

end

text \<open>
  Every invariant of the executor's own handlers is one of the loop, and of its runs where it does not rest on the
  sockets; so is the order budget.
\<close>

sublocale log_invariant \<subseteq> loop: loop_invariant P
proof
  show "keeps P (pump w now)" for w now
    unfolding pump_def by (intro basic ladder keeps_poll keeps_pump_loop)
  show "keeps P (refuse_unparseable w raised ts now)" for w raised ts now
    unfolding refuse_unparseable_def by (intro basic ladder keeps_journal_plan)
qed (auto simp: keeps_moves intro: frame keeps_trip [unfolded keeps_moves] keeps_bnd [unfolded keeps_moves]
    keeps_evaluate [unfolded keeps_moves] keeps_ledger [unfolded keeps_moves] keeps_skip [unfolded keeps_moves]
    keeps_accept_plan [unfolded keeps_moves] keeps_drop_plan [unfolded keeps_moves] keeps_handle [unfolded keeps_moves]
    passes.m_tick_adoption passes.m_external)

sublocale socket_invariant \<subseteq> runs: run_invariant P
  by unfold_locales (rule keeps_socket)

lemma socket_calm: "moves calm (on_socket_state w ev)"
  unfolding on_socket_state_def on_socket_state_raw_def
  by (intro ca.w ca_st moves_socket budget.m_lift_freeze ca.w_upd) (simp_all add: calm_def loose_def kept_refl Let_def)

interpretation orders: run_invariant in_budget
proof
  show "keeps in_budget (bnd (x_evaluate w now) (\<lambda>v. ledger w (WriteRecord ts v now)))" for w now ts
    by (intro calm_keeps ca.w ca_st)
  show "keeps in_budget (bnd (x_evaluate w now) (\<lambda>_. skip))" for w now
    by (intro calm_keeps ca.w ca_st)
  show "keeps in_budget (refuse_unparseable w raised ts now)" for w raised ts now
    unfolding refuse_unparseable_def by (intro calm_keeps ca.w ca_st)
  show "keeps in_budget (tick_adoption A now)" for A now by (rule calm_keeps [OF budget.m_tick_adoption])
  show "keeps in_budget (on_external_event w ev)" for w ev by (rule calm_keeps [OF budget.m_external])
  show "keeps in_budget (on_socket_state w ev)" for w ev by (rule calm_keeps [OF socket_calm])
qed (auto simp: in_budget_def intro: calm_keeps ca_trip ca_accept_plan ca_drop_plan pump_in_budget handle_in_budget)

end
