(* ===== verification/ExecProperties.thy ===== *)
theory ExecProperties imports ExecLadder
begin

text \<open>
  The executor's properties, over every run of the machine, and one concrete run that places an order:
  a plan of one margin intent in memory, a tick that starts it, a quote that prices it.
\<close>

section \<open>A run that sends\<close>

definition demo_files :: surroundings where
  "demo_files =
     \<lparr>files = \<lparr>arm_file = Present, kill_file = Absent, hold_file = Absent\<rparr>,
      venue_reader = (\<lambda>n. ReaderStatus \<lparr>vs_status = ''online'', vs_ok = True, vs_observed_at = n\<rparr>),
      version_reader = Version (Some ''1.230.0''),
      verified_record = Some (JObj [(''verified_nautilus_versions'', JArr [JStr ''1.230.0''])])\<rparr>"

definition demo_constraints :: constraints where
  "demo_constraints = \<lparr>k_symbol = ''BTC/EUR'', k_ordermin = Fin 1, k_costmin = Fin 1,
     k_costmin_quote = ''EUR'', k_lot_step = Fin 1, k_tick_size = Fin 1\<rparr>"

definition demo_world :: world where
  "demo_world =
     \<lparr>w_isofmt = (\<lambda>_. ''t''), w_fromiso = (\<lambda>_. Some (utc 0)), w_fstr = (\<lambda>_. None), w_now = (\<lambda>_. utc 0),
      w_gate = (\<lambda>_. demo_files), w_disk = (\<lambda>_. True), w_submit = (\<lambda>_. True), w_cancel = (\<lambda>_. True),
      w_subscribe = (\<lambda>_. True), w_instrument = (\<lambda>_. True), w_build = (\<lambda>_. Some ''O-1''),
      w_truth = (\<lambda>_. Some \<lparr>vt_instruments = [(''BTC/EUR'', demo_constraints)], vt_positions = [],
                            vt_balances = [(''ZEUR'', Fin 100)]\<rparr>),
      w_position = (\<lambda>_. Some (Fin 0)), w_open_orders = (\<lambda>_. Some []), w_cached = (\<lambda>_. NoOrder), w_cache_on = False, w_inflight = (\<lambda>_. Some []),
      w_margin = (\<lambda>_. Some [])\<rparr>"

definition demo_intent :: intent where
  "demo_intent = \<lparr>i_symbol = ''BTC/EUR'', i_side = ''buy'', i_action = ''open'', i_mode = ''execute'',
     i_notional = None, i_qty = Some (Fin 1), i_leverage = Some 2, i_offset = None, i_hold = None\<rparr>"

definition demo_plan :: plan where
  "demo_plan = \<lparr>p_id = ''r1'', p_created_at = utc 0, p_intents = [demo_intent],
     p_raw = [(''intents'', JArr [JObj []])]\<rparr>"

definition demo_state :: xs where
  "demo_state =
     \<lparr>x_ticks = 0, x_gate = new_gate True, x_armed = False, x_evaluated_at = None, x_frozen = False,
      x_recon_refusal = None, x_day_loss = False, x_kill = False, x_journal = [], x_plan = Some demo_plan,
      x_cycle_ts = utc 0, x_window_close = None, x_index = 0, x_live = False,
      x_active = new_active 0 demo_intent JNull demo_constraints (utc 0)
        \<lparr>cd_qty = Fin 0, cd_reduce_only = False, cd_refusal = None\<rparr> (Fin 0) (Fin 0),
      x_resolved = [], x_rows = [], x_attached = [], x_by_venue = [], x_restored = [], x_restored_unread = False,
      x_restored_fills = [], x_answered = [], x_frozen_at = None, x_repaired = [], x_reread_tries = 0, x_armed_by = None, x_owed = False,
      x_sockets = [], x_emptied_at = None, x_completed_at = None, x_marked = [], x_adopted = True,
      x_fills_read = None, x_fills_failed = False, x_fills_floor = None, x_balances = None, x_max_plan_notional = Fin 100, x_log = []\<rparr>"

lemma demo_state_sel [simp]:
  "x_log demo_state = []" "\<not> x_kill demo_state" "\<not> x_live demo_state" "x_plan demo_state = Some demo_plan"
  by (simp_all add: demo_state_def)

definition demo_quote :: quote_tick where
  "demo_quote = \<lparr>qt_instrument_id = ''BTC/EUR.KRAKEN'', qt_bid = Some (Fin 1), qt_ask = Some (Fin 1)\<rparr>"

definition demo_gate :: gate where
  "demo_gate = \<lparr>armed_in_config = True, max_age = Fin 30,
     snapshot = Some \<lparr>vs_status = ''online'', vs_ok = True, vs_observed_at = utc 0\<rparr>\<rparr>"

definition demo_raw :: verdict where
  "demo_raw = \<lparr>v_level = FULL, v_reasons = [], v_inputs =
     [(''armed_in_config'', JBool True), (''arm_file'', JBool True), (''kill_file'', JBool False),
      (''restart_hold'', JBool False), (''venue_status'', JStr ''online''),
      (''venue_snapshot_age_seconds'', JFloat (Fin 0)), (''nautilus_version'', JStr ''1.230.0''),
      (''nautilus_verified'', JBool True)]\<rparr>"

lemma demo_evaluate:
  "evaluate (new_gate True) demo_files (utc 0) = Inr (demo_raw, demo_gate)"
  "evaluate demo_gate demo_files (utc 0) = Inr (demo_raw, demo_gate)"
  by (simp_all add: evaluate_def Let_def venue_def new_gate_def demo_gate_def demo_files_def fresh_reading_def
      cached_ok_def demo_raw_def dget_def gate_level_def gate_reasons_def dt_sub_def comparable_def)

lemma demo_world_sel [simp]:
  "w_now demo_world n = utc 0" "w_gate demo_world n = demo_files" "w_disk demo_world n"
  "w_submit demo_world n" "w_subscribe demo_world n" "w_instrument demo_world n"
  "w_build demo_world n = Some ''O-1''" "w_position demo_world n = Some (Fin 0)"
  "w_isofmt demo_world = (\<lambda>_. ''t'')"
  "w_truth demo_world n = Some \<lparr>vt_instruments = [(''BTC/EUR'', demo_constraints)], vt_positions = [],
                            vt_balances = [(''ZEUR'', Fin 100)]\<rparr>"
  by (simp_all add: demo_world_def)

definition demo_verdict :: verdict where
  "demo_verdict = fold_holds demo_state demo_raw"

lemma demo_x_evaluate:
  assumes "x_gate s = new_gate True \<or> x_gate s = demo_gate" and "\<not> x_frozen s" "x_recon_refusal s = None" "\<not> x_day_loss s"
  shows "x_evaluate demo_world (utc 0) s = (Inr demo_verdict, s\<lparr>x_ticks := x_ticks s + 1, x_gate := demo_gate,
    x_evaluated_at := Some (utc 0), x_armed := True, x_log := Evaluated demo_verdict # x_log s\<rparr>)"
  using assms by (auto simp: x_evaluate_def steps demo_evaluate demo_verdict_def fold_holds_def demo_state_def demo_raw_def armed_def dget_def dset_def)

lemma demo_permits: "level_permits (v_level demo_verdict) demo_intent"
  by (simp add: level_permits_def demo_intent_def demo_verdict_def fold_holds_def demo_state_def demo_raw_def)

lemma demo_keys: "ledgered_intent_keys [] (utc 0) = Inr []"
proof -
  have "files_of_day [] d = []" for d by (simp add: files_of_day_def List.map_filter_def)
  then show ?thesis
    by (simp add: ledgered_intent_keys_def exec_records_in_window_def day_dirs_utc numeral_2_eq_2 concat_res_def)
qed

definition demo_active :: active where
  "demo_active = new_active 0 demo_intent (JObj []) demo_constraints (utc 0)
        \<lparr>cd_qty = Fin 0, cd_reduce_only = False, cd_refusal = None\<rparr> (Fin 0) (Fin 0)"

lemma demo_start:
  assumes "x_gate s = demo_gate" "\<not> x_frozen s" "x_recon_refusal s = None" "\<not> x_day_loss s"
    and "x_window_close s = None" "x_journal s = []"
  shows "start_intent demo_world (utc 0) demo_plan 0 demo_intent s = (Inr (), s\<lparr>x_ticks := x_ticks s + 4,
    x_gate := demo_gate, x_evaluated_at := Some (utc 0), x_armed := True, x_live := True, x_active := demo_active,
    x_log := Started 0 # Subscribed ''BTC/EUR.KRAKEN'' # Evaluated demo_verdict # x_log s\<rparr>)"
  using assms demo_permits
  by (simp add: start_intent_def steps demo_x_evaluate demo_keys arm_intent_def demo_active_def
      demo_plan_def demo_intent_def raw_intent_def new_active_def position_of_def dget_def)

definition demo_started :: "nat \<Rightarrow> xs" where
  "demo_started n = demo_state\<lparr>x_ticks := n, x_gate := demo_gate, x_evaluated_at := Some (utc 0), x_armed := True,
     x_live := True, x_active := demo_active,
     x_log := [Started 0, Subscribed ''BTC/EUR.KRAKEN'', Evaluated demo_verdict, Evaluated demo_verdict]\<rparr>"

lemma demo_tick: "handle demo_world (Tick (utc 0)) demo_state = (Inr (), demo_started 5)"
proof -
  let ?s = "demo_state\<lparr>x_ticks := 1, x_gate := demo_gate, x_evaluated_at := Some (utc 0), x_armed := True,
    x_log := [Evaluated demo_verdict]\<rparr>"
  have ev: "x_evaluate demo_world (utc 0) demo_state = (Inr demo_verdict, ?s)"
    by (subst demo_x_evaluate) (simp_all add: demo_state_def)
  have st: "start_intent demo_world (utc 0) demo_plan 0 demo_intent ?s = (Inr (), demo_started 5)"
    by (subst demo_start) (simp_all add: demo_started_def demo_state_def)
  have "x_plan demo_state = Some demo_plan" "x_plan (demo_started 5) = Some demo_plan" "x_live (demo_started 5)"
    "p_intents demo_plan = [demo_intent]" "\<not> x_live demo_state" "x_index demo_state = 0"
    by (simp_all add: demo_started_def demo_state_def demo_plan_def)
  with ev st show ?thesis
    by (simp add: tick_def catch_def pump_def bnd_def sq_def act_simps)
qed

lemma demo_size: "size_probe_order (Fin 1) (Fin 1) demo_constraints =
    Inr (Sized \<lparr>so_qty = Fin 1, so_price = Fin 1, so_notional = Fin 1\<rparr>)"
  by (simp add: size_probe_order_def size_order_def floor_to_step_def Let_def demo_constraints_def)

definition demo_priced :: active where
  "demo_priced = demo_active\<lparr>a_bid := Some (Fin 1), a_ask := Some (Fin 1), a_last_quote_at := Some (utc 0),
     a_quote_seq := 1, a_order := Some ''O-1'', a_order_qty := Fin 1, a_priced_seq := 1,
     a_order_payload := Some (order_payload (demo_active\<lparr>a_bid := Some (Fin 1), a_ask := Some (Fin 1), a_quote_seq := 1\<rparr>)
        \<lparr>so_qty = Fin 1, so_price = Fin 1, so_notional = Fin 1\<rparr> False True)\<rparr>"

lemma demo_append: "\<exists>j. ledger_step (\<lambda>_. ''t'') (AppendRow (utc 0) (submitted_row demo_plan demo_priced ''O-1'') demo_verdict (utc 0)) [] = Inr j"
  by (simp add: append_submitted_row_def load_or_new_def Let_def exec_record_path_def dt_day_def dt_hour_def
      cycle_ts_from_path_def store_def exec_doc_def dset_def rows_of_def dget_def validate_exec_record_def
      LOADABLE_EXEC_SCHEMA_VERSIONS_def EXEC_SCHEMA_VERSION_def exact_keys_def dkeys_def V2_KEYS_def V1_KEYS_def
      validate_row_def submitted_row_def ROW_KEYS_def ROW_STATES_def insert_commute)

definition demo_order :: effect where
  "demo_order = Sent ''O-1'' 0 demo_intent (the (a_order_payload demo_priced))"

lemma demo_submit:
  assumes "x_gate s = demo_gate" "\<not> x_frozen s" "x_recon_refusal s = None" "\<not> x_day_loss s" "\<not> x_kill s"
    and "x_active s = demo_priced" "x_plan s = Some demo_plan" "x_journal s = []" "x_cycle_ts s = utc 0"
  shows "\<exists>s'. submit demo_world ''O-1'' s = (Inr Submitted, s') \<and> x_active s' = demo_priced\<lparr>a_coid := Some ''O-1''\<rparr> \<and>
    x_live s' = x_live s \<and> x_log s' = Counted ''submitted'' # demo_order # Ledgered ''O-1'' # Evaluated demo_verdict # x_log s"
proof -
  obtain j where j: "ledger_step (\<lambda>_. ''t'') (AppendRow (utc 0) (submitted_row demo_plan demo_priced ''O-1'') demo_verdict (utc 0)) [] = Inr j"
    using demo_append by blast
  have "a_intent demo_priced = demo_intent" "a_index demo_priced = 0" by (simp_all add: demo_priced_def demo_active_def new_active_def)
  moreover have "obj_of (dget (submitted_row demo_plan demo_priced ''O-1'') ''order'') = the (a_order_payload demo_priced)"
    by (simp add: submitted_row_def dget_def demo_priced_def)
  ultimately show ?thesis using assms j demo_permits
    by (simp add: submit_def steps demo_x_evaluate write_ahead_def catch_def ledger_def Let_def send_order_def inc_order_def demo_order_def)
qed

definition demo_quoted :: active where
  "demo_quoted = demo_active\<lparr>a_bid := Some (Fin 1), a_ask := Some (Fin 1), a_last_quote_at := Some (utc 0), a_quote_seq := 1\<rparr>"

lemma demo_quoted_sel:
  "a_intent demo_quoted = demo_intent" "a_constraints demo_quoted = demo_constraints"
  "limit_price demo_quoted = Inr (Some (Fin 1))" "target_of demo_quoted p = Inr (Fin 1)" "a_index demo_quoted = 0"
  "a_phase demo_quoted = AwaitingQuote"
  by (simp_all add: demo_quoted_def demo_active_def new_active_def limit_price_def touch_of_def demo_intent_def
      target_of_def Let_def)

definition demo_place_state :: "xs \<Rightarrow> bool" where
  "demo_place_state s \<longleftrightarrow> x_gate s = demo_gate \<and> \<not> x_frozen s \<and> x_recon_refusal s = None \<and> \<not> x_day_loss s \<and>
     \<not> x_kill s \<and> x_plan s = Some demo_plan \<and> x_journal s = [] \<and> x_cycle_ts s = utc 0 \<and> x_live s"

lemma demo_place:
  assumes "demo_place_state s" and "x_active s = demo_quoted"
  shows "\<exists>s'. place demo_world (Fin 1) (Fin 1) False True s = (Inr (Submitted, []), s') \<and>
    x_active s' = demo_priced\<lparr>a_coid := Some ''O-1''\<rparr> \<and> x_live s' \<and>
    x_log s' = Counted ''submitted'' # demo_order # Ledgered ''O-1'' # Evaluated demo_verdict # x_log s"
proof -
  let ?s = "s\<lparr>x_ticks := x_ticks s + 2, x_active := demo_priced\<rparr>"
  from assms have "x_gate ?s = demo_gate" "\<not> x_frozen ?s" "x_recon_refusal ?s = None" "\<not> x_day_loss ?s" "\<not> x_kill ?s"
    "x_active ?s = demo_priced" "x_plan ?s = Some demo_plan" "x_journal ?s = []" "x_cycle_ts ?s = utc 0"
    by (simp_all add: demo_place_state_def)
  from demo_submit [OF this] obtain s' where
    sub: "submit demo_world ''O-1'' ?s = (Inr Submitted, s')" "x_active s' = demo_priced\<lparr>a_coid := Some ''O-1''\<rparr>"
    "x_live s' = x_live s" "x_log s' = Counted ''submitted'' # demo_order # Ledgered ''O-1'' # Evaluated demo_verdict # x_log s"
    by auto
  have priced: "demo_quoted\<lparr>a_order := Some ''O-1'', a_order_qty := Fin 1, a_order_filled := Fin 0,
      a_cancel_requested := False, a_falling_back := False,
      a_order_payload := Some (order_payload demo_quoted \<lparr>so_qty = Fin 1, so_price = Fin 1, so_notional = Fin 1\<rparr> False True),
      a_priced_seq := a_quote_seq demo_quoted\<rparr> = demo_priced"
    by (simp add: demo_priced_def demo_quoted_def demo_active_def new_active_def order_payload_def)
  have "place demo_world (Fin 1) (Fin 1) False True s = (Inr (Submitted, []), s')"
    using assms sub(1) priced by (simp add: place_def steps demo_size demo_quoted_sel)
  with sub(2-4) assms(1) show ?thesis by (simp add: demo_place_state_def)
qed

lemma demo_quote_handled:
  "\<exists>s'. handle demo_world (Quote demo_quote) (demo_started 5) = (Inr (), s') \<and> x_live s' \<and>
     a_phase (x_active s') = Resting \<and> a_coid (x_active s') = Some ''O-1'' \<and>
     x_log s' = Counted ''submitted'' # demo_order # Ledgered ''O-1'' # Evaluated demo_verdict # x_log (demo_started 5)"
proof -
  let ?s = "demo_started 5\<lparr>x_ticks := 6, x_active := demo_quoted\<rparr>"
  let ?t = "?s\<lparr>x_resolved := [(0, Fin 1)]\<rparr>"
  have over: "over_cap_reason demo_world (Fin 1) (Fin 1) ?s = (Inr None, ?t)"
    by (simp add: over_cap_reason_def steps demo_quoted_sel demo_started_def demo_state_def demo_plan_def demo_intent_def
        total_notional_def fsum_def Let_def)
  have "demo_place_state ?t" by (simp add: demo_place_state_def demo_started_def demo_state_def)
  then have "\<exists>s'. place demo_world (Fin 1) (Fin 1) False True ?t = (Inr (Submitted, []), s') \<and>
    x_active s' = demo_priced\<lparr>a_coid := Some ''O-1''\<rparr> \<and> x_live s' \<and>
    x_log s' = Counted ''submitted'' # demo_order # Ledgered ''O-1'' # Evaluated demo_verdict # x_log ?t"
    by (rule demo_place) simp
  then obtain s' where placed: "place demo_world (Fin 1) (Fin 1) False True ?t = (Inr (Submitted, []), s')"
    "x_active s' = demo_priced\<lparr>a_coid := Some ''O-1''\<rparr>" "x_live s'"
    "x_log s' = Counted ''submitted'' # demo_order # Ledgered ''O-1'' # Evaluated demo_verdict # x_log (demo_started 5)"
    by auto
  obtain s2 where first: "first_submission demo_world ?s = (Inr (), s2)" "x_live s2" "a_phase (x_active s2) = Resting"
     "a_coid (x_active s2) = Some ''O-1''" "x_log s2 = x_log s'"
    using over placed by (simp add: first_submission_def steps demo_quoted_sel enter_def)
  have "demo_active\<lparr>a_bid := Some (Fin 1), a_ask := Some (Fin 1), a_last_quote_at := Some (utc 0),
      a_quote_seq := Suc (a_quote_seq demo_active)\<rparr> = demo_quoted" by (simp add: demo_quoted_def demo_active_def new_active_def)
  moreover have "x_live (demo_started 5)" "x_ticks (demo_started 5) = 5" "x_active (demo_started 5) = demo_active"
    "a_instrument_id demo_active = ''BTC/EUR.KRAKEN''"
    by (simp_all add: demo_started_def demo_active_def new_active_def demo_intent_def)
  ultimately have "handle demo_world (Quote demo_quote) (demo_started 5) = (Inr (), s2)"
    using first(1) by (simp add: on_quote_def guarded_def catch_def steps demo_quote_def as_price_def Let_def demo_quoted_sel)
  with first placed(4) show ?thesis by simp
qed

lemma demo_run:
  obtains s' where "run demo_world [Tick (utc 0), Quote demo_quote] demo_state = s'" and "x_live s'"
    and "a_phase (x_active s') = Resting"
    and "x_log s' = [Counted ''submitted'', demo_order, Ledgered ''O-1'', Evaluated demo_verdict, Started 0,
      Subscribed ''BTC/EUR.KRAKEN'', Evaluated demo_verdict, Evaluated demo_verdict]"
proof -
  obtain s' where s': "handle demo_world (Quote demo_quote) (demo_started 5) = (Inr (), s')" "x_live s'"
     "a_phase (x_active s') = Resting"
     "x_log s' = Counted ''submitted'' # demo_order # Ledgered ''O-1'' # Evaluated demo_verdict # x_log (demo_started 5)"
    using demo_quote_handled by blast
  have "run demo_world [Tick (utc 0), Quote demo_quote] demo_state = s'"
    using demo_tick s'(1) by (simp only: run.simps after_def snd_conv)
  with s' show ?thesis by (intro that) (simp_all add: demo_started_def)
qed

section \<open>Properties\<close>

text \<open>
  No order without the gate: whatever the events and the world's answers, an order in the log
  stands right on its write-ahead row and on a gate evaluation whose level permits its intent; that
  level came from a reading with the configuration armed, the kill file provably absent and the arm
  file present (and no restart hold where the order opens); and the kill switch had not tripped.
\<close>

theorem gate_before_every_order:
  assumes "x_log s = []" and "x_log (run w es s) = newer @ Sent coid index it payload # older"
  shows "\<exists>v l. older = Ledgered coid # Evaluated v # l \<and> level_permits (v_level v) it \<and>
    (\<forall>r. KillTripped r \<notin> set older) \<and>
    (\<exists>g sur now raw g'. evaluate g sur now = Inr (raw, g') \<and> armed_in_config g \<and>
       kill_file (files sur) = Absent \<and> arm_file (files sur) = Present \<and>
       (v_level v = FULL \<longrightarrow> hold_file (files sur) = Absent))"
proof -
  have "gated s" using assms(1) by (simp add: gated_def tripped_in_def verdicts_genuine_def)
  then have "gated (run w es s)" by (rule gate.run_keeps)
  with assms(2) have ok: "log_ok (newer @ Sent coid index it payload # older)" by (simp add: gated_def)
  from log_ok_split [OF ok] obtain v l where v: "older = Ledgered coid # Evaluated v # l" "genuine v"
    "level_permits (v_level v) it" "\<not> tripped_in older" by blast
  from genuine_not_NONE [OF v(2) level_permits_not_NONE [OF v(3)]] v show ?thesis
    by (auto simp: tripped_in_def)
qed

theorem gate_before_every_order_witness:
  "\<exists>newer older. x_log (run demo_world [Tick (utc 0), Quote demo_quote] demo_state) = newer @ demo_order # older \<and>
     (\<exists>v l. older = Ledgered ''O-1'' # Evaluated v # l \<and> level_permits (v_level v) demo_intent)"
proof -
  obtain s' where run: "run demo_world [Tick (utc 0), Quote demo_quote] demo_state = s'"
    and log: "x_log s' = [Counted ''submitted'', demo_order, Ledgered ''O-1'', Evaluated demo_verdict, Started 0,
      Subscribed ''BTC/EUR.KRAKEN'', Evaluated demo_verdict, Evaluated demo_verdict]" by (rule demo_run)
  let ?older = "[Ledgered ''O-1'', Evaluated demo_verdict, Started 0,
      Subscribed ''BTC/EUR.KRAKEN'', Evaluated demo_verdict, Evaluated demo_verdict]"
  have split: "x_log (run demo_world [Tick (utc 0), Quote demo_quote] demo_state) =
      [Counted ''submitted''] @ Sent ''O-1'' 0 demo_intent (the (a_order_payload demo_priced)) # ?older"
    using run log by (simp add: demo_order_def)
  from gate_before_every_order [OF demo_state_sel(1) split] obtain v l where
    "?older = Ledgered ''O-1'' # Evaluated v # l" "level_permits (v_level v) demo_intent" by blast
  with split show ?thesis unfolding demo_order_def by blast
qed

text \<open>
  Write-ahead: every order the process ever sent has its row on file, under the client order id
  and the intent index it was sent with, at every later moment of every run.
\<close>

theorem every_order_recorded:
  assumes "x_log s = []" and "Sent coid index it payload \<in> set (x_log (run w es s))"
  shows "\<exists>slot pid. (slot, pid, JInt (int index), JStr coid) \<in> rows_recorded (x_journal (run w es s))"
proof -
  have "accounted s" using assms(1) by (simp add: accounted_def)
  then have "accounted (run w es s)" by (rule write_ahead.run_keeps)
  with assms(2) show ?thesis unfolding accounted_def on_record_def by blast
qed

theorem every_order_recorded_witness:
  "\<exists>slot pid. (slot, pid, JInt 0, JStr ''O-1'') \<in>
     rows_recorded (x_journal (run demo_world [Tick (utc 0), Quote demo_quote] demo_state))"
proof -
  have "demo_order \<in> set (x_log (run demo_world [Tick (utc 0), Quote demo_quote] demo_state))"
    by (rule demo_run) simp
  then have "Sent ''O-1'' 0 demo_intent (the (a_order_payload demo_priced)) \<in>
      set (x_log (run demo_world [Tick (utc 0), Quote demo_quote] demo_state))" by (simp add: demo_order_def)
  from every_order_recorded [OF _ this] show ?thesis by simp
qed

text \<open>
  The kill switch latches: once tripped it stays tripped, and no event, tick or answer makes the
  process send another order.
\<close>

theorem kill_switch_latches:
  assumes "x_kill s"
  shows "x_kill (run w es s) \<and> filter is_sent (x_log (run w es s)) = filter is_sent (x_log s)"
proof -
  have "silenced (filter is_sent (x_log s)) s" using assms by (simp add: silenced_def)
  then have "silenced (filter is_sent (x_log s)) (run w es s)" by (rule kill.run_keeps)
  then show ?thesis by (simp add: silenced_def)
qed

theorem kill_switch_latches_witness:
  "x_kill (run demo_world [Tick (utc 0), Quote demo_quote] (demo_state\<lparr>x_kill := True\<rparr>)) \<and>
   filter is_sent (x_log (run demo_world [Tick (utc 0), Quote demo_quote] (demo_state\<lparr>x_kill := True\<rparr>))) = []"
  using kill_switch_latches [of "demo_state\<lparr>x_kill := True\<rparr>" demo_world "[Tick (utc 0), Quote demo_quote]"]
  by (simp del: run.simps)

text \<open>
  The ladder is bounded: at no moment of any run has an intent sent more than nine orders, one
  placement, five reprices and three marketable attempts, however often the venue cancels or rejects.
\<close>

theorem orders_per_intent_bounded:
  assumes "x_log s = []" and "\<not> x_live s" and "x_log (run w es s) = newer @ older"
  shows "sends older \<le> 1 + MAX_REPRICES + MAX_IOC_ATTEMPTS \<and> sends older \<le> 9"
proof -
  have "in_budget s" using assms by (simp add: in_budget_def)
  then have "in_budget (run w es s)" by (rule run_in_budget)
  then have "bounded (newer @ older)" using assms(3) by (simp add: in_budget_def)
  then have "bounded older" by (induction newer) simp_all
  from bounded_sends [OF this] show ?thesis
    by (simp add: MAX_ORDERS_def MAX_REPRICES_def MAX_IOC_ATTEMPTS_def)
qed

theorem orders_per_intent_bounded_witness:
  "sends (x_log (run demo_world [Tick (utc 0), Quote demo_quote] demo_state)) = 1 \<and>
   sends (x_log (run demo_world [Tick (utc 0), Quote demo_quote] demo_state)) \<le> 9"
proof -
  have "sends (x_log (run demo_world [Tick (utc 0), Quote demo_quote] demo_state)) = 1"
    by (rule demo_run) (simp add: demo_order_def)
  moreover have "sends (x_log (run demo_world [Tick (utc 0), Quote demo_quote] demo_state)) \<le> 9"
    using orders_per_intent_bounded [of demo_state demo_world "[Tick (utc 0), Quote demo_quote]" "[]"]
    by (simp del: run.simps)
  ultimately show ?thesis by simp
qed

text \<open>
  C17. A revoked intent sends nothing: with a cancel under way that is not a fallback, no quote, order
  event, tick or new plan makes it send, and while it is in flight it is the same intent, still revoked
  and with its counters unchanged.
\<close>

theorem revoked_intent_is_silent:
  assumes "x_live s" and "revoked (x_active s)"
  shows "filter is_sent (x_log (after (handle w e) s)) = filter is_sent (x_log s) \<and>
    (x_live (after (handle w e) s) \<longrightarrow>
       a_index (x_active (after (handle w e) s)) = a_index (x_active s) \<and>
       a_reprices (x_active (after (handle w e) s)) = a_reprices (x_active s) \<and>
       a_ioc_attempts (x_active (after (handle w e) s)) = a_ioc_attempts (x_active s) \<and>
       revoked (x_active (after (handle w e) s)))"
proof -
  from assms still_handle have "calm s (after (handle w e) s)" by (simp add: still_def after_def)
  with assms show ?thesis by (auto simp: calm_def loose_def kept_def grown_filter)
qed

definition demo_revoked :: xs where
  "demo_revoked = demo_state\<lparr>x_live := True, x_active := demo_priced\<lparr>a_coid := Some ''O-1'', a_phase := Cancelling,
     a_cancel_requested := True, a_phase_deadline := Some (utc second_us)\<rparr>\<rparr>"

theorem revoked_intent_is_silent_witness:
  "filter is_sent (x_log (after (handle demo_world (Quote demo_quote)) demo_revoked)) = []"
proof -
  have "x_live demo_revoked" "revoked (x_active demo_revoked)" "x_log demo_revoked = []"
    by (simp_all add: demo_revoked_def revoked_def demo_priced_def demo_active_def new_active_def)
  with revoked_intent_is_silent [of demo_revoked demo_world "Quote demo_quote"] show ?thesis by simp
qed

text \<open>
  C18. A tick makes progress: it never raises, and an idle executor with a plan leaves the tick with an
  intent in flight or with no plan left, so every intent is started, refused, carried or skipped and the
  rounds of the loop are enough.
\<close>

theorem tick_gets_through_the_plan:
  assumes "\<not> x_live s"
  shows "\<exists>s'. handle w (Tick now) s = (Inr (), s') \<and> (x_live s' \<or> x_plan s' = None)"
proof -
  obtain r t where pump: "pump w now s = (r, t)" by force
  show ?thesis
  proof (cases r)
    case (Inl e)
    with pump show ?thesis by (simp add: tick_def catch_def drop_plan_def upd_def)
  next
    case (Inr u)
    with pump assms show ?thesis by (auto simp: tick_def catch_def dest: pump_ends)
  qed
qed

theorem tick_gets_through_the_plan_witness:
  "x_plan demo_state = Some demo_plan \<and>
   (\<exists>s'. handle demo_world (Tick (utc 0)) demo_state = (Inr (), s') \<and> (x_live s' \<or> x_plan s' = None))"
  using tick_gets_through_the_plan [of demo_state demo_world "utc 0"] by (simp del: handle.simps)

end
