(* ===== verification/AdoptionProperties.thy ===== *)
theory AdoptionProperties imports Adoption ExecProperties "HOL-Library.Sublist"
begin

text \<open>
  What the startup pass and the sweeps guarantee: no opening order of a previous process is left resting, and a venue
  figure that disagrees with the ledger trips the switch.
\<close>

section \<open>Runs that return\<close>

lemma bnd_Inr: "bnd m f s = (Inr y, t) \<longleftrightarrow> (\<exists>x u. m s = (Inr x, u) \<and> f x u = (Inr y, t))"
  by (auto simp: bnd_def split: prod.splits sum.splits)

lemma sq_Inr: "sq m n s = (Inr y, t) \<longleftrightarrow> (\<exists>x u. m s = (Inr x, u) \<and> n u = (Inr y, t))"
  by (simp add: sq_def bnd_Inr)

lemma lift_Inr: "lift r s = (Inr y, t) \<longleftrightarrow> r = Inr y \<and> t = s"
  by (auto simp: lift_def)

lemma catch_Inr: "catch m h s = (Inr y, t) \<longleftrightarrow> m s = (Inr y, t) \<or> (\<exists>e u. m s = (Inl e, u) \<and> h e u = (Inr y, t))"
  by (auto simp: catch_def split: prod.splits sum.splits)

lemma outcome_Inr: "outcome m s = (Inr r, t) \<longleftrightarrow> m s = (r, t)"
  by (auto simp: outcome_def split: prod.splits)

lemma ask_Inr: "ask f s = (Inr y, t) \<longleftrightarrow> y = f (x_ticks s) \<and> t = s\<lparr>x_ticks := x_ticks s + 1\<rparr>"
  by (auto simp: ask_def)

lemma prim_Inr:
  "ret x s = (Inr y, t) \<longleftrightarrow> y = x \<and> t = s" "skip s = (Inr z, t) \<longleftrightarrow> t = s" "\<not> fail e s = (Inr y, t)"
  "get g s = (Inr v, t) \<longleftrightarrow> v = g s \<and> t = s" "upd u s = (Inr z, t) \<longleftrightarrow> t = u s"
  by (auto simp: ret_def skip_def fail_def get_def upd_def)

lemmas runs_Inr = bnd_Inr sq_Inr lift_Inr catch_Inr ask_Inr prim_Inr

text \<open>What an action returns, when it does.\<close>

definition yields :: "('a \<Rightarrow> bool) \<Rightarrow> 'a act \<Rightarrow> bool" where
  "yields Q m \<longleftrightarrow> (\<forall>s x t. m s = (Inr x, t) \<longrightarrow> Q x)"

named_theorems yields

lemma yieldsD: "yields Q m \<Longrightarrow> m s = (Inr x, t) \<Longrightarrow> Q x"
  by (auto simp: yields_def)

lemma yields_ret [yields]: "Q x \<Longrightarrow> yields Q (ret x)"
  by (simp add: yields_def prim_Inr)

lemma yields_bnd: "yields Q1 m \<Longrightarrow> (\<And>x. Q1 x \<Longrightarrow> yields Q (f x)) \<Longrightarrow> yields Q (bnd m f)"
  unfolding yields_def bnd_Inr by blast

lemma yields_bnd_any [yields]: "(\<And>x. yields Q (f x)) \<Longrightarrow> yields Q (bnd m f)"
  by (rule yields_bnd [of "\<lambda>_. True"]) (simp_all add: yields_def)

lemma yields_sq [yields]: "yields Q n \<Longrightarrow> yields Q (sq m n)"
  unfolding sq_def by (rule yields_bnd_any)

lemma yields_catch [yields]: "yields Q m \<Longrightarrow> (\<And>e. yields Q (h e)) \<Longrightarrow> yields Q (catch m h)"
  unfolding yields_def catch_Inr by blast

lemma yields_if [yields]: "(b \<Longrightarrow> yields Q m) \<Longrightarrow> (\<not> b \<Longrightarrow> yields Q n) \<Longrightarrow> yields Q (if b then m else n)"
  by simp

lemma yields_option [yields]:
  "yields Q n \<Longrightarrow> (\<And>x. v = Some x \<Longrightarrow> yields Q (f x)) \<Longrightarrow> yields Q (case v of None \<Rightarrow> n | Some x \<Rightarrow> f x)"
  by (simp split: option.split)

lemma yields_prod [yields]: "(\<And>a b. v = (a, b) \<Longrightarrow> yields Q (f a b)) \<Longrightarrow> yields Q (case v of (a, b) \<Rightarrow> f a b)"
  by (simp split: prod.split)

lemma yields_bool [yields]: "yields Q m \<Longrightarrow> yields Q n \<Longrightarrow> yields Q (case b of True \<Rightarrow> m | False \<Rightarrow> n)"
  by (cases b) simp_all

lemma yields_sum [yields]:
  "(\<And>a. v = Inl a \<Longrightarrow> yields Q (f a)) \<Longrightarrow> (\<And>b. v = Inr b \<Longrightarrow> yields Q (g b)) \<Longrightarrow>
   yields Q (case v of Inl a \<Rightarrow> f a | Inr b \<Rightarrow> g b)"
  by (simp split: sum.split)

lemma yields_Let [yields]: "(\<And>x. yields Q (f x)) \<Longrightarrow> yields Q (Let v f)"
  by simp

section \<open>A sweep keeps what identifies a row\<close>

text \<open>The order of a row, its ids and its events: a sweep moves the quantity and the state alone.\<close>

definition same_order :: "jdict \<Rightarrow> jdict \<Rightarrow> bool" where
  "same_order row row' \<longleftrightarrow> dget row' ''order'' = dget row ''order'' \<and> row_coid row' = row_coid row \<and>
     row_venue_order_id row' = row_venue_order_id row"

lemma same_order_refl [simp]: "same_order row row"
  by (simp add: same_order_def)

lemma same_order_trans: "same_order a b \<Longrightarrow> same_order b c \<Longrightarrow> same_order a c"
  by (simp add: same_order_def)

lemma same_order_dset:
  "same_order row (dset row ''filled_qty'' v)" "same_order row (dset row ''state'' v)"
  by (simp_all add: same_order_def row_coid_def row_venue_order_id_def row_venue_order_ids_def)

lemma yields_repair: "yields (same_order row) (repair_row w b row l v)"
  unfolding repair_row_def by (intro yields) (simp_all add: same_order_dset)

lemma yields_write_state: "yields (same_order row) (write_state w b row st)"
  unfolding write_state_def by (intro yields) (simp_all add: same_order_dset)

lemma yields_fst_adopted_row: "yields (\<lambda>p. same_order row (fst p)) (reconcile_adopted_row A b row v st i t)"
  unfolding reconcile_adopted_row_def Let_def
  by (rule yields_bnd_any, rule yields_bnd_any, rule yields_bnd [OF yields_repair], rule yields_bnd [OF yields_write_state],
      intro yields) (auto intro: same_order_trans)

lemma yields_then_row: "yields (\<lambda>p. Q (fst p)) m \<Longrightarrow> yields Q (then_row m k)"
  unfolding then_row_def by (erule yields_bnd) (auto intro!: yields)

lemma yields_mark: "yields (same_order row) (mark_unmatched w b row t)"
  unfolding mark_unmatched_def Let_def by (intro yields) (simp_all add: same_order_dset)

lemma yields_recancel: "yields (\<lambda>p. same_order row (fst p)) (recancel_row A b row t r i)"
  unfolding recancel_row_def Let_def
  by (rule yields_bnd [OF yields_fst_adopted_row])
    (auto simp: case_prod_beta intro!: yields intro: same_order_trans [OF _ same_order_dset(2)])

lemmas yields_rows = yields_then_row [OF yields_fst_adopted_row] yields_then_row [OF yields_recancel] yields_mark

lemma yields_reported: "yields (same_order row) (reported_row A rc coid b row t r)"
  unfolding reported_row_def Let_def by (intro yields yields_rows)

lemma yields_open_step: "yields (same_order row) (open_row_step A rc rs coid b row)"
  unfolding open_row_step_def Let_def
  by (intro yields yields_rows yields_reported same_order_refl)

text \<open>The rows a sweep leaves are those it was given, with the same orders.\<close>

lemma sweep_same:
  assumes "\<And>coid b row. yields (same_order row) (f coid b row)"
    and "sweep_rows f rs s = (Inr rs', t)" and "(coid, b, row') \<in> set rs'"
  shows "\<exists>row. (coid, b, row) \<in> set rs \<and> same_order row row'"
  using assms(2,3)
proof (induction rs arbitrary: s rs' t)
  case (Cons p rs)
  obtain c b1 row1 where p: "p = (c, b1, row1)" by (cases p)
  from Cons.prems(1) obtain row2 u rs2 v where r: "f c b1 row1 s = (Inr row2, u)" "sweep_rows f rs u = (Inr rs2, v)"
    "rs' = (c, b1, row2) # rs2" by (auto simp: p bnd_Inr prim_Inr)
  have "same_order row1 row2" by (rule yieldsD [OF assms(1) r(1)])
  with Cons.prems(2) Cons.IH [OF r(2)] show ?case by (auto simp: p r(3))
qed (simp add: prim_Inr)

lemma keyed_rows_from:
  assumes "(coid, b, row) \<in> set (keyed_rows rs)"
  shows "\<exists>r. (b, r) \<in> set rs \<and> row = obj_of r \<and> coid = row_coid row"
proof -
  let ?ok = "\<lambda>(coid, b, row). \<exists>r. (b, r) \<in> set rs \<and> row = obj_of r \<and> coid = row_coid row"
  have upd: "set (AList.update k v al) \<subseteq> insert (k, v) (set al)" for k and v :: "dt \<times> jdict" and al
    by (induction al) auto
  have keep: "\<forall>p \<in> set (with_rows al new). ?ok p" if "\<forall>p \<in> set al. ?ok p" "\<forall>p \<in> set new. ?ok p" for al new
    using that
  proof (induction new arbitrary: al)
    case (Cons p new)
    obtain k v where p: "p = (k, v)" by (cases p)
    have "\<forall>p \<in> set (AList.update k v al). ?ok p" using upd [of k v al] Cons.prems by (auto simp: p)
    with Cons.IH Cons.prems(2) show ?case by (simp add: with_rows_def p)
  qed (simp add: with_rows_def)
  have "\<forall>p \<in> set (tagged rs). ?ok p" by (auto simp: tagged_def)
  then have "\<forall>p \<in> set (keyed_rows rs). ?ok p" using keep [of "[]"] by (simp add: keyed_rows_def)
  from bspec [OF this assms] show ?thesis by simp
qed

section \<open>The orders of a previous process\<close>

text \<open>The log only grows, so what was logged since a state stays logged.\<close>

interpretation grows: log_invariant "\<lambda>s. suffix l (x_log s)"
  by unfold_locales (auto simp: suffix_def intro: exI [of _ "_ # _"])

definition cancelled_since :: "effect list \<Rightarrow> string \<Rightarrow> xs \<Rightarrow> bool" where
  "cancelled_since l coid s \<longleftrightarrow> (\<exists>older. suffix (CancelSent coid # older) (x_log s) \<and> suffix l older)"

lemma cancelled_grows: "(\<And>l. keeps (\<lambda>s. suffix l (x_log s)) m) \<Longrightarrow> m s = (r, t) \<Longrightarrow> cancelled_since l c s \<Longrightarrow> cancelled_since l c t"
  unfolding cancelled_since_def keeps_def by (metis snd_conv)

lemma suffix_moves: "moves (\<lambda>s s'. suffix l (x_log s) \<longrightarrow> suffix l (x_log s')) m \<Longrightarrow> m s = (r, t) \<Longrightarrow> suffix l (x_log s) \<Longrightarrow>
    suffix l (x_log t)"
  by (force simp: moves_def)

lemmas grown = grows.passes.m_classify [folded keeps_moves] grows.passes.m_settle_pending [folded keeps_moves]

text \<open>What becomes of a resting order: a cancel, a report that it ended, or a row that may stay.\<close>

definition may_stay :: "bool \<Rightarrow> rows \<Rightarrow> resting_order \<Rightarrow> bool" where
  "may_stay cancels_all rs q \<longleftrightarrow> \<not> cancels_all \<and> (\<exists>b row. row_for rs q = Some (b, row) \<and> reduces row)"

definition reported_ended :: "order_report list option \<Rightarrow> resting_order \<Rightarrow> bool" where
  "reported_ended reports q \<longleftrightarrow>
     (\<exists>r. report_of reports (ro_txid q) = Some r \<and> map_of ADOPTED_TERMINAL_STATES (rp_status r) \<noteq> None)"

lemma attach_log: "\<exists>u. attach e ids t s = (Inr (), u) \<and> x_log u = x_log s"
  by (simp add: attach_def upd_def Let_def)

lemma classify_one:
  assumes "classify_resting A c rs reports q s = (r, t)" and "suffix l (x_log s)"
  shows "cancelled_since l (ro_coid q) t \<or> reported_ended reports q \<or> may_stay c rs q"
proof -
  obtain u where u: "(case row_for rs q of None \<Rightarrow> skip | Some e \<Rightarrow> attach e [ro_coid q] (ro_txid q)) s = (Inr (), u)"
    "x_log u = x_log s"
    using attach_log [of _ "[ro_coid q]" "ro_txid q" s] by (cases "row_for rs q") (auto simp: steps)
  have now: "cancelled_since l (ro_coid q) (v\<lparr>x_log := CancelSent (ro_coid q) # x_log u, x_ticks := n\<rparr>)" for v n
    unfolding cancelled_since_def using u(2) assms(2) by (intro exI [of _ "x_log u"]) simp
  from assms(1) u(1) show ?thesis
    unfolding classify_resting_def Let_def
    by (auto simp: steps may_stay_def reported_ended_def split: if_splits option.splits intro: now)
qed

lemma classify_every:
  assumes "classify_all A c rs reports qs s = (Inr cs, t)" and "suffix l (x_log s)" and "q \<in> set qs"
  shows "cancelled_since l (ro_coid q) t \<or> reported_ended reports q \<or> may_stay c rs q"
  using assms
proof (induction qs arbitrary: s cs)
  case (Cons p qs)
  from Cons.prems(1) obtain x u y where r: "classify_resting A c rs reports p s = (Inr x, u)"
    "classify_all A c rs reports qs u = (Inr y, t)" by (auto simp: bnd_Inr prim_Inr)
  have "classify_all A c rs reports [p] s = (Inr (x @ []), u)" by (simp add: r(1) steps)
  then have l: "suffix l (x_log u)"
    using grows.passes.m_classify suffix_moves Cons.prems(2) by blast
  show ?case
  proof (cases "q = p")
    case True
    with classify_one [OF r(1) Cons.prems(2)] cancelled_grows [OF grown(1) r(2)] show ?thesis by blast
  next
    case False
    with Cons.prems(3) Cons.IH [OF r(2) l] show ?thesis by simp
  qed
qed simp

text \<open>Where the reports, the rows and the level of the pass come from.\<close>

lemma yields_orders: "yields (\<lambda>r. r = None \<or> r = Some [] \<or> (\<exists>n since. aw_orders A n since = r)) (read_venue_orders A rs fs)"
proof -
  have read: "yields (\<lambda>r. r = None \<or> r = Some [] \<or> (\<exists>n since. aw_orders A n since = r))
     (bnd (ask (\<lambda>n. aw_orders A n since)) (\<lambda>reports. case reports of None \<Rightarrow> sq m (ret None) | Some rs \<Rightarrow> ret (Some rs)))" for since m
    by (rule yields_bnd [of "\<lambda>x. \<exists>n. aw_orders A n since = x"])
      (auto simp: yields_def ask_Inr sq_Inr prim_Inr split: option.splits)
  then show ?thesis
    unfolding read_venue_orders_def by (intro read yields) simp_all
qed

lemma yields_raw_level: "yields (\<lambda>l. \<exists>g sur raw g'. evaluate g sur now = Inr (raw, g') \<and> v_level raw = l) (raw_level w now)"
  unfolding yields_def raw_level_def by (auto simp: runs_Inr)

lemma read_window_rows:
  assumes "read_window w now s = (Inr (rs, fs), t)"
  shows "\<exists>opened. open_submitted_rows (w_fromiso w) (x_journal s) now None = Inr opened \<and> rs = keyed_rows opened"
  using assms unfolding read_window_def read_ledger_def by (auto simp: runs_Inr split: if_splits)

lemma report_of_mem: "report_of (Some rs) (Some t) = Some r \<Longrightarrow> r \<in> set rs \<and> rp_txid r = t"
  by (auto simp: report_of_def dest!: map_of_SomeD)

lemma row_for_mem:
  assumes "row_for rs q = Some (b, row)"
  shows "\<exists>coid. (coid, b, row) \<in> set rs \<and> (coid = ro_coid q \<or> ro_txid q \<noteq> None \<and> row_venue_order_id row = ro_txid q)"
  using assms
  by (auto simp: row_for_def List.map_filter_def dest!: map_of_SomeD split: option.splits) (metis map_of_SomeD)+


definition demo_aworld :: aworld where
  "demo_aworld = \<lparr>aw_x = demo_world, aw_restored = (\<lambda>_. Some []), aw_resting = (\<lambda>_. Some []), aw_order = (\<lambda>_ _. Some None),
     aw_own_id = (\<lambda>_ _. Some None), aw_orders = (\<lambda>_ _. Some []), aw_fills = (\<lambda>_ _. Some []), aw_cancel = (\<lambda>_ _ _. True),
     aw_book = (\<lambda>_. Inl OSError)\<rparr>"

definition demo_left :: resting_order where
  "demo_left = \<lparr>ro_coid = ''O-7'', ro_txid = Some ''T-7''\<rparr>"

definition restart_world :: aworld where
  "restart_world = demo_aworld\<lparr>aw_resting := (\<lambda>_. Some [demo_left])\<rparr>"

lemma no_files: "List.map_filter (\<lambda>h. None) hs = []"
  by (induction hs) (simp_all add: List.map_filter_def)

lemma no_records: "exec_records_in_window [] (utc 0) None = Inr []"
  by (simp add: exec_records_in_window_def day_dirs_utc numeral_2_eq_2 files_of_day_def no_files)

lemma no_rows: "open_submitted_rows f [] (utc 0) None = Inr []" "closed_submitted_rows f [] (utc 0) None = Inr []"
  "pending_plan_intents f [] (utc 0) None = Inr []"
  by (simp_all add: open_submitted_rows_def closed_submitted_rows_def pending_plan_intents_def no_records concat_res_def)

lemma restart_returns: "\<exists>t. adopt_resting_orders restart_world (utc 0) demo_state = (Inr (), t)"
proof -
  have w: "aw_x restart_world = demo_world" "aw_resting restart_world n = Some [demo_left]" "aw_book restart_world n = Inl OSError"
    for n by (simp_all add: restart_world_def demo_aworld_def)
  have s: "x_journal demo_state = []" "x_gate demo_state = new_gate True" "\<not> x_frozen demo_state" "x_recon_refusal demo_state = None"
    "\<not> x_day_loss demo_state" "x_restored demo_state = []"
    by (simp_all add: demo_state_def)
  have window: "catch (bnd (read_window demo_world (utc 0)) (\<lambda>(rs, fs). ret (rs, fs, True))) (\<lambda>_. ret ([], [], False)) u =
      (Inr ([], [], True), u\<lparr>x_ticks := x_ticks u + 2\<rparr>)" if "x_journal u = []" for u
    using that by (simp add: read_window_def read_ledger_def steps catch_def no_rows keyed_rows_def tagged_def with_rows_def)
  have orders: "read_venue_orders restart_world [] [] u = (Inr (Some []), u)" for u
    by (simp add: read_venue_orders_def steps earliest_def)
  have book: "bnd (settle_positions restart_world) f u = f False (u\<lparr>x_ticks := x_ticks u + 1\<rparr>)" for f :: "bool \<Rightarrow> unit act" and u
    by (simp add: settle_positions_def bnd_def ask_def ret_def w)
  have level: "bnd (raw_level demo_world (utc 0)) f u = f FULL (u\<lparr>x_ticks := x_ticks u + 1, x_gate := demo_gate\<rparr>)"
    if "x_gate u = demo_gate" for f :: "level \<Rightarrow> unit act" and u
    using that by (simp add: raw_level_def bnd_def sq_def get_def ask_def lift_def upd_def ret_def demo_evaluate demo_raw_def)
  have left: "classify_all restart_world False [] (Some []) [demo_left] u =
      (Inr [], u\<lparr>x_ticks := x_ticks u + 1, x_log := CancelSent ''O-7'' # x_log u\<rparr>)" if "x_restored u = []" for u
    using that by (simp add: classify_resting_def row_for_def demo_left_def List.map_filter_def steps w)
  have pending: "\<exists>t. settle_pending_intents restart_world (utc 0) [] [] [] (Some []) True u = (Inr (), t)"
    if "x_journal u = []" for u
    using that by (simp add: settle_pending_intents_def read_ledger_def outcome_def steps no_rows w)
  show ?thesis
    unfolding adopt_resting_orders_def Let_def
    by (simp add: w steps window orders book level left pending s reset_fills_read_def earliest_def demo_x_evaluate
        del: classify_all.simps)
qed


section \<open>A fill the ledger does not have\<close>

interpretation switch: log_invariant x_kill
  by unfold_locales auto

lemma tripping_kills:
  assumes "keeps x_kill m"
  shows "x_kill (snd (bnd (get x_kill) (\<lambda>tripped. if tripped then skip
     else sq (upd (\<lambda>s. s\<lparr>x_kill := True, x_log := KillTripped r # x_log s\<rparr>)) m) s))"
proof (cases "x_kill s")
  case False
  have "x_kill (snd (m (s\<lparr>x_kill := True, x_log := KillTripped r # x_log s\<rparr>)))"
    using assms by (simp add: keeps_def)
  with False show ?thesis by (simp add: steps)
qed (simp add: steps)

text \<open>However the trip ends, also where it raises, the switch is on.\<close>

lemma trip_kill_kills: "x_kill (snd (trip_kill w r s))"
  unfolding trip_kill_def
  by (rule tripping_kills, intro switch.basic switch.keeps_emit switch.keeps_cancel_resting switch.keeps_unsubscribe
      switch.keeps_journal_intent switch.keeps_halt switch.keeps_evaluate) simp

lemma tripped_verdict: "sq (trip_kill w r) (ret b) s = (v, t) \<Longrightarrow> x_kill t"
  using trip_kill_kills [of w r s] by (auto simp: sq_def bnd_def ret_def split: prod.splits sum.splits)

lemma trades_cover_yes:
  assumes "trades_cover A b txid ledgered s = (Inr (Some True), t)"
  shows "\<exists>k m. txid = Some k \<and> x_fills_read t = Some m \<and>
    fge (case map_of m k of None \<Rightarrow> Fin 0 | Some q \<Rightarrow> q) (fsub ledgered OVERFILL_TOLERANCE)"
  using assms unfolding trades_cover_def
  by (auto simp: runs_Inr split: option.splits if_splits)

lemma trades_cover_returns: "\<exists>c u. trades_cover A b txid ledgered s = (Inr c, u)"
  by (simp add: trades_cover_def bnd_def get_def ret_def ask_def sq_def upd_def Let_def split: option.splits)

lemma verdict_spared:
  assumes "row_verdict A b coid txid ledgered delta overshoots s = (r, t)" and "\<not> x_kill t"
  shows "if flt delta (fneg OVERFILL_TOLERANCE)
    then \<exists>k m. txid = Some k \<and> x_fills_read t = Some m \<and>
      fge (case map_of m k of None \<Rightarrow> Fin 0 | Some q \<Rightarrow> q) (fsub ledgered OVERFILL_TOLERANCE)
    else \<not> overshoots"
proof (cases "flt delta (fneg OVERFILL_TOLERANCE)")
  case True
  obtain c u where c: "trades_cover A b txid ledgered s = (Inr c, u)" using trades_cover_returns by blast
  show ?thesis
  proof (cases "c = Some True")
    case yes: True
    then have "t = u\<lparr>x_repaired := coid # x_repaired u\<rparr>" using assms(1) True c by (simp add: row_verdict_def steps)
    with trades_cover_yes c yes True show ?thesis by fastforce
  next
    case False
    then have "x_kill t" using assms(1) True c by (auto simp: row_verdict_def bnd_def dest: tripped_verdict)
    with assms(2) show ?thesis by simp
  qed
next
  case False
  with assms show ?thesis by (auto simp: row_verdict_def dest: tripped_verdict)
qed

lemma yields_repaired: "yields (\<lambda>row'. dget row' ''filled_qty'' =
    (if fgt (fsub v l) OVERFILL_TOLERANCE then JFloat (fadd l (fsub v l)) else dget row ''filled_qty'')) (repair_row w b row l v)"
  unfolding repair_row_def Let_def by (intro yields) simp_all

lemma yields_stated: "yields (\<lambda>row'. dget row' ''filled_qty'' = dget row ''filled_qty'') (write_state w b row st)"
  unfolding write_state_def by (intro yields) simp_all

text \<open>
  C23. A fill the ledger does not have trips the switch: reconciling a row with the venue's figure leaves the switch off
  only where the figure is not short of the row beyond the tolerance, or the venue's trade history covers the row, and
  where the repaired total does not exceed the ordered quantity; and the row takes the venue's figure where that is the
  larger, whatever the disk did.
\<close>

theorem divergence_trips:
  assumes "reconcile_adopted_row A b row v st oid txid s = (Inr (row', verdict), t)"
    and "rbind (dindex row ''filled_qty'') to_float = Inr l" and "ordered_qty (aw_x A) row = Inr q" and "\<not> x_kill t"
  shows "(if flt (fsub v l) (fneg OVERFILL_TOLERANCE)
      then \<exists>k m. txid = Some k \<and> x_fills_read t = Some m \<and>
        fge (case map_of m k of None \<Rightarrow> Fin 0 | Some c \<Rightarrow> c) (fsub l OVERFILL_TOLERANCE)
      else \<not> (fgt (fsub v l) OVERFILL_TOLERANCE \<and> fgt (fadd l (fsub v l)) (fadd q OVERFILL_TOLERANCE))) \<and>
    dget row' ''filled_qty'' =
      (if fgt (fsub v l) OVERFILL_TOLERANCE then JFloat (fadd l (fsub v l)) else dget row ''filled_qty'')"
proof -
  from assms(1) obtain row1 u1 st' u2 u3 where
    repaired: "repair_row (aw_x A) b row l v s = (Inr row1, u1)"
    and stated: "write_state (aw_x A) b row1 st' u1 = (Inr row', u2)"
    and verdict: "row_verdict A b (row_coid row) txid l (fsub v l) (fgt (fsub v l) OVERFILL_TOLERANCE \<and>
        fgt (if fgt (fsub v l) OVERFILL_TOLERANCE then fadd l (fsub v l) else l) (fadd q OVERFILL_TOLERANCE)) u3 = (verdict, t)"
    unfolding reconcile_adopted_row_def Let_def bnd_Inr sq_Inr lift_Inr outcome_Inr prim_Inr assms(2,3)
    by blast
  from verdict_spared [OF verdict assms(4)] yieldsD [OF yields_repaired repaired] yieldsD [OF yields_stated stated]
  show ?thesis by (auto split: if_splits)
qed

definition demo_row :: jdict where
  "demo_row = [(''client_order_id'', JStr ''O-7''), (''state'', JStr ''accepted''), (''filled_qty'', JFloat (Fin 1)),
     (''order'', JObj [(''qty'', JFloat (Fin 2))]), (''events'', JArr [])]"

text \<open>The venue's order read shows none of a fill its trade history has.\<close>

definition short_world :: aworld where
  "short_world = demo_aworld\<lparr>aw_fills := (\<lambda>_ _. Some [(''T-7'', Fin 1)])\<rparr>"

lemma fle_between: "fle (Fin 0) t \<Longrightarrow> fle t (Fin y) \<Longrightarrow> \<exists>x. t = Fin x \<and> 0 \<le> x \<and> x \<le> y"
  by (cases t) (auto simp: fle_def feq_def)

lemma tolerance_small: "\<exists>x. OVERFILL_TOLERANCE = Fin x \<and> 0 \<le> x \<and> x \<le> 1 / 2"
proof -
  have half: "fround (1 / 2) = Fin (1 / 2)"
    using rnd_exact [of "1 / 2" 1 "- 1"] by (simp add: fround_rnd power_int_minus)
  have zero: "fround 0 = Fin 0" by (simp add: fround_rnd)
  have "fle (Fin 0) OVERFILL_TOLERANCE" "fle OVERFILL_TOLERANCE (Fin (1 / 2))"
    using fround_mono [of 0 "1 / 10 ^ 12"] fround_mono [of "1 / 10 ^ 12" "1 / 2"]
    by (simp_all add: OVERFILL_TOLERANCE_def half zero)
  then show ?thesis by (rule fle_between)
qed

lemma one_rounds: "fround 1 = Fin 1" "fround (- 1) = Fin (- 1)"
  using fround_int [of 1] fround_int [of "- 1"] by simp_all

lemma tolerances:
  "fsub (Fin 0) (Fin 1) = Fin (- 1)" "flt (Fin (- 1)) (fneg OVERFILL_TOLERANCE)" "\<not> fgt (Fin (- 1)) OVERFILL_TOLERANCE"
  "fge (Fin 1) (fsub (Fin 1) OVERFILL_TOLERANCE)"
proof -
  obtain x where x: "OVERFILL_TOLERANCE = Fin x" "0 \<le> x" "x \<le> 1 / 2" using tolerance_small by blast
  show "fsub (Fin 0) (Fin 1) = Fin (- 1)" by (simp add: fsub_def one_rounds)
  show "flt (Fin (- 1)) (fneg OVERFILL_TOLERANCE)" "\<not> fgt (Fin (- 1)) OVERFILL_TOLERANCE"
    unfolding x(1) using x(2,3) by simp_all
  show "fge (Fin 1) (fsub (Fin 1) OVERFILL_TOLERANCE)"
    unfolding fsub_def x(1) using fround_mono [of "1 - x" 1] x(2) by (simp add: one_rounds)
qed

theorem divergence_trips_witness:
  "\<exists>row' t. reconcile_adopted_row short_world (utc 0) demo_row (Fin 0) ''OPEN'' None (Some ''T-7'') demo_state =
      (Inr (row', Inr True), t) \<and> (\<exists>m. x_fills_read t = Some m)"
proof -
  have "map_of ADOPTED_TERMINAL_STATES ''OPEN'' = None" by code_simp
  then obtain row' t where t: "reconcile_adopted_row short_world (utc 0) demo_row (Fin 0) ''OPEN'' None (Some ''T-7'') demo_state =
      (Inr (row', Inr True), t)" "\<not> x_kill t"
    by (simp add: reconcile_adopted_row_def Let_def demo_row_def ordered_qty_def tolerances repair_row_def write_state_def
        attach_def row_verdict_def trades_cover_def short_world_def demo_aworld_def outcome_def sum_fills_def bump_def
        demo_state_def bnd_def sq_def lift_def ret_def upd_def get_def ask_def skip_def dget_def dindex_def)
  have "rbind (dindex demo_row ''filled_qty'') to_float = Inr (Fin 1)" "ordered_qty (aw_x short_world) demo_row = Inr (Fin 2)"
    by (simp_all add: demo_row_def dindex_def ordered_qty_def dget_def)
  from divergence_trips [OF t(1) this t(2)] t(1) show ?thesis by (auto simp: tolerances)
qed

end
