(* ===== verification/LoopProperties.thy ===== *)
theory LoopProperties imports CycleDraft AdoptionProperties
begin

text \<open>
  The properties of the executor with its accumulation loop, over every run of ticks, boundaries, order events, quotes
  and drill files: what held of the executor alone holds of the whole, and the two equity trips do what they are for.
\<close>

section \<open>The executor's run inside the loop's\<close>

lemma crun_exec: "c_x (crun w (map CExec es) s) = run (cw_x w) es (c_x s)"
proof (induction es arbitrary: s)
  case (Cons e es)
  have "c_x (snd (exec (handle (cw_x w) e) s)) = after (handle (cw_x w) e) (c_x s)"
    by (simp add: exec_def after_def split: prod.split)
  with Cons show ?case by simp
qed simp

definition demo_cworld :: cworld where
  "demo_cworld = \<lparr>cw_a = demo_aworld, cw_enabled = True, cw_reads = (\<lambda>_. True),
     cw_cycle = (\<lambda>_ _. \<lparr>cf_sidecar = False, cf_present = False, cf_content = None\<rparr>), cw_kill_file = (\<lambda>_. False),
     cw_statuses = (\<lambda>_. Inl OSError),
     cw_cache = (\<lambda>_. \<lparr>cv_instrument = (\<lambda>_. None), cv_positions = (\<lambda>_. []), cv_account = None\<rparr>),
     cw_stamp = (\<lambda>_. ''t''), cw_armed = True, cw_band = None, cw_nav = Fin 800, cw_cycles = (\<lambda>_. []),
     cw_tracking_series = (\<lambda>_. Missing), cw_strptime = (\<lambda>_. None)\<rparr>"

definition demo_cs :: "xs \<Rightarrow> cs" where
  "demo_cs x = \<lparr>c_x = x, c_pending = None, c_checked = True, c_derived = True, c_series = None, c_accum = []\<rparr>"

definition demo_events :: "cevent list" where
  "demo_events = map CExec [Tick (utc 0), Quote demo_quote]"

lemma demo_crun: "c_x (crun demo_cworld demo_events (demo_cs x)) = run demo_world [Tick (utc 0), Quote demo_quote] x"
  unfolding demo_events_def crun_exec by (simp add: demo_cworld_def demo_aworld_def demo_cs_def del: run.simps)

lemma demo_crun_log:
  "x_log (c_x (crun demo_cworld demo_events (demo_cs demo_state))) =
    [Counted ''submitted'', demo_order, Ledgered ''O-1'', Evaluated demo_verdict, Started 0,
      Subscribed ''BTC/EUR.KRAKEN'', Evaluated demo_verdict, Evaluated demo_verdict]"
  unfolding demo_crun by (rule demo_run) simp

section \<open>Orders\<close>



text \<open>
  C14. Write-ahead: every order the process ever sent, the loop's among them, has its row on file, under the client
  order id and the intent index it was sent with, at every later moment of every run.
\<close>

theorem loop_records_every_order:
  assumes "x_log (c_x s) = []" and "Sent coid index it payload \<in> set (x_log (c_x (crun w es s)))"
  shows "\<exists>slot pid. (slot, pid, JInt (int index), JStr coid) \<in> rows_recorded (x_journal (c_x (crun w es s)))"
proof -
  have "accounted (c_x s)" using assms(1) by (simp add: accounted_def)
  then have "accounted (c_x (crun w es s))" by (rule write_ahead.runs.crun_keeps)
  with assms(2) show ?thesis unfolding accounted_def on_record_def by blast
qed

theorem loop_records_every_order_witness:
  "\<exists>slot pid. (slot, pid, JInt 0, JStr ''O-1'') \<in>
     rows_recorded (x_journal (c_x (crun demo_cworld demo_events (demo_cs demo_state))))"
proof -
  have "Sent ''O-1'' 0 demo_intent (the (a_order_payload demo_priced)) \<in>
      set (x_log (c_x (crun demo_cworld demo_events (demo_cs demo_state))))" by (simp add: demo_crun_log demo_order_def)
  from loop_records_every_order [OF _ this] show ?thesis by (simp add: demo_cs_def)
qed

text \<open>
  C15. The kill switch latches: once tripped it stays tripped, and no event, tick, boundary or draft makes the process
  send another order.
\<close>

theorem loop_kill_latches:
  assumes "x_kill (c_x s)"
  shows "x_kill (c_x (crun w es s)) \<and> filter is_sent (x_log (c_x (crun w es s))) = filter is_sent (x_log (c_x s))"
proof -
  have "silenced (filter is_sent (x_log (c_x s))) (c_x s)" using assms by (simp add: silenced_def)
  then have "silenced (filter is_sent (x_log (c_x s))) (c_x (crun w es s))" by (rule kill.runs.crun_keeps)
  then show ?thesis by (simp add: silenced_def)
qed

theorem loop_kill_latches_witness:
  "x_kill (c_x (crun demo_cworld [CBoundary (utc 0), CTick (utc 1) None] (demo_cs (demo_state\<lparr>x_kill := True\<rparr>)))) \<and>
   filter is_sent (x_log (c_x (crun demo_cworld [CBoundary (utc 0), CTick (utc 1) None]
     (demo_cs (demo_state\<lparr>x_kill := True\<rparr>))))) = []"
  using loop_kill_latches [of "demo_cs (demo_state\<lparr>x_kill := True\<rparr>)" demo_cworld "[CBoundary (utc 0), CTick (utc 1) None]"]
  by (simp add: demo_cs_def del: crun.simps)

text \<open>
  C16. The ladder is bounded: at no moment of any run has an intent sent more than nine orders, one placement, five
  reprices and three marketable attempts, however often the venue cancels or rejects and whatever the loop drafts.
\<close>

theorem loop_bounds_orders_per_intent:
  assumes "x_log (c_x s) = []" and "\<not> x_live (c_x s)" and "x_log (c_x (crun w es s)) = newer @ older"
  shows "sends older \<le> 1 + MAX_REPRICES + MAX_IOC_ATTEMPTS \<and> sends older \<le> 9"
proof -
  have "in_budget (c_x s)" using assms by (simp add: in_budget_def)
  then have "in_budget (c_x (crun w es s))" by (rule orders.crun_keeps)
  then have "bounded (newer @ older)" using assms(3) by (simp add: in_budget_def)
  then have "bounded older" by (induction newer) simp_all
  from bounded_sends [OF this] show ?thesis
    by (simp add: MAX_ORDERS_def MAX_REPRICES_def MAX_IOC_ATTEMPTS_def)
qed

theorem loop_bounds_orders_per_intent_witness:
  "sends (x_log (c_x (crun demo_cworld demo_events (demo_cs demo_state)))) = 1 \<and>
   sends (x_log (c_x (crun demo_cworld demo_events (demo_cs demo_state)))) \<le> 9"
proof -
  have "sends (x_log (c_x (crun demo_cworld demo_events (demo_cs demo_state)))) = 1"
    by (simp add: demo_crun_log demo_order_def)
  moreover have "sends (x_log (c_x (crun demo_cworld demo_events (demo_cs demo_state)))) \<le> 9"
    using loop_bounds_orders_per_intent [of "demo_cs demo_state" demo_cworld demo_events "[]"]
    by (simp add: demo_cs_def del: crun.simps)
  ultimately show ?thesis by simp
qed

section \<open>The drawdown trip\<close>

lemma cact_simps:
  "cret x s = (Inr x, s)" "cfail e s = (Inl e, s)" "cget f s = (Inr (f s), s)" "clift r s = (r, s)" "cupd u s = (Inr (), u s)"
  "cskip s = (Inr (), s)"
  "cask g s = (Inr (g (x_ticks (c_x s))), s\<lparr>c_x := (c_x s)\<lparr>x_ticks := x_ticks (c_x s) + 1\<rparr>\<rparr>)"
  by (simp_all add: cret_def cfail_def cget_def clift_def cupd_def cskip_def cask_def exec_def ask_def)

lemma cbnd_Inr:
  "cbnd m f s = (Inr y, t) \<longleftrightarrow> (\<exists>x u. m s = (Inr x, u) \<and> f x u = (Inr y, t))"
  by (auto simp: cbnd_def split: prod.splits sum.splits)

lemma csq_Inr: "csq m n s = (Inr y, t) \<longleftrightarrow> (\<exists>x u. m s = (Inr x, u) \<and> n u = (Inr y, t))"
  by (simp add: csq_def cbnd_Inr)

lemma drawdown_trip_kills:
  assumes "fge (em_drawdown m) DRAWDOWN_KILL_BPS" and "\<And>n. \<not> cw_kill_file w n"
  shows "x_kill (c_x (snd (drawdown_trip w m s)))"
  using assms trip_kill_kills by (simp add: drawdown_trip_def cbnd_def cact_simps exec_def split: prod.split) (metis snd_conv)

lemma with_draft_Inr: "with_draft f s = (Inr y, t) \<longleftrightarrow> (\<exists>d. c_pending s = Some d \<and> f d s = (Inr y, t))"
  by (auto simp: with_draft_def cbnd_Inr cact_simps split: option.splits)

lemma figure_mark:
  "figure (mark_figures m hold) ''drawdown_bps'' = Some (em_drawdown m)" "figure (unmarked hold) ''drawdown_bps'' = None"
  by (simp_all add: figure_def mark_figures_def unmarked_def dget_def)

lemma mark_priced_drawdown:
  assumes "mark_priced w book closes boundary nav s = (Inr figures, t)"
    and "figure figures ''drawdown_bps'' = Some x" and "fge x DRAWDOWN_KILL_BPS" and "\<And>n. \<not> cw_kill_file w n"
  shows "x_kill (c_x t)"
proof -
  from assms(1) obtain m hold u where trip: "drawdown_trip w m u = (Inr (), t)" and f: "figures = mark_figures m hold"
    by (auto simp: mark_priced_def Let_def cbnd_Inr csq_Inr cact_simps with_draft_Inr)
  from f assms(2) have "em_drawdown m = x" by (simp add: figure_mark)
  with drawdown_trip_kills [of m w u] assms(3,4) trip show ?thesis by simp
qed


definition demo_record :: cycle_record where
  "demo_record = \<lparr>cy_schema = JInt 2, cy_ts = utc H4, cy_snapshots = [], cy_targets = [], cy_started_at = utc 0,
     cy_completed_at = utc 0, cy_code_version = JStr ''1'', cy_builder_path = JStr ''fast'',
     cy_closes = Some (map (\<lambda>b. (JStr b, JFloat (Fin 1))) (map fst SPOT_SYMBOL_BY_BASE)), cy_nav = Some (Fin 1000),
     cy_held = None\<rparr>"

definition demo_book :: venue_book where
  "demo_book = \<lparr>vb_held = map (\<lambda>s. (s, Fin 0)) BASKET, vb_balances = [], vb_earn = [], vb_eur_total = Fin 0,
     vb_eur_free = Fin 0, vb_ordermin = []\<rparr>"

text \<open>The draft record of the boundary before: a thousand euro.\<close>

definition demo_marked :: jdict where
  "demo_marked = [(''schema_version'', JInt 1), (''cycle_ts'', JStr ''t''), (''drafted_at'', JStr ''t''), (''status'', JStr ''ok''),
     (''nav'', JNull), (''eur_total'', JNull), (''eur_free'', JNull), (''equity_eur'', JFloat (Fin 1000)), (''hwm_eur'', JNull),
     (''drawdown_bps'', JNull), (''day_loss_bps'', JNull), (''day_loss_hold'', JBool False), (''plan_id'', JNull),
     (''legs'', JArr [])]"

definition demo_loop :: cs where
  "demo_loop = (demo_cs (demo_state\<lparr>x_plan := None\<rparr>))\<lparr>c_series := Some ''t'', c_accum := [((0, 0), Parsed (JObj demo_marked))],
     c_pending := Some \<lparr>pd_boundary = utc H4, pd_record = demo_record, pd_tries = 3, pd_window = utc (2 * H4),
       pd_minted = False, pd_marked = None\<rparr>\<rparr>"

lemma demo_scan: "accum_records_since (\<lambda>_. Some (utc 0)) [((0, 0), Parsed (JObj demo_marked))] (utc 0) (utc H4) = Inr [demo_marked]"
  by code_simp

lemma demo_bases: "map fst SPOT_SYMBOL_BY_BASE =
  [''ADA'', ''AVAX'', ''BTC'', ''DOGE'', ''DOT'', ''ETH'', ''LINK'', ''LTC'', ''SOL'', ''XRP'']"
  by code_simp

lemma neumaier_zeros: "neumaier (Fin 0) (Fin 0) (replicate n (Fin 0)) = Fin 0"
  by (induction n) (simp_all add: Let_def fsub_def)

lemma demo_rounds: "fround 1000 = Fin 1000" "fround 10000 = Fin 10000" "fround 10000000 = Fin 10000000"
  using fround_int [of 1000] fround_int [of 10000] fround_int [of 10000000] by simp_all

lemma demo_coin: "book_coin_eur demo_book (map (\<lambda>b. (b, Fin 1)) (map fst SPOT_SYMBOL_BY_BASE)) = Inr (Fin 0)"
proof -
  have "base_eur demo_book (map (\<lambda>b. (b, Fin 1)) (map fst SPOT_SYMBOL_BY_BASE)) bs = Inr (Fin 0)"
    if "bs \<in> set SPOT_SYMBOL_BY_BASE" for bs
  proof -
    from that have "snd bs \<in> set BASKET" "fst bs \<in> set (map fst SPOT_SYMBOL_BY_BASE)"
      by (auto simp: SPOT_SYMBOL_BY_BASE_def)
    then have "map_of (map (\<lambda>s. (s, Fin 0)) BASKET) (snd bs) = Some (Fin 0)"
      "map_of (map (\<lambda>b. (b, Fin 1)) (map fst SPOT_SYMBOL_BY_BASE)) (fst bs) = Some (Fin 1)"
      by (simp_all only: map_of_map_restrict restrict_in comp_apply option.simps)
    then show ?thesis by (simp add: base_eur_def demo_book_def)
  qed
  then have "rmap (base_eur demo_book (map (\<lambda>b. (b, Fin 1)) (map fst SPOT_SYMBOL_BY_BASE))) SPOT_SYMBOL_BY_BASE =
      Inr (map (\<lambda>_. Fin 0) SPOT_SYMBOL_BY_BASE)" by (rule rmap_pure)
  then have "book_coin_eur demo_book (map (\<lambda>b. (b, Fin 1)) (map fst SPOT_SYMBOL_BY_BASE)) =
      Inr (fsum (replicate (length SPOT_SYMBOL_BY_BASE) (Fin 0)))"
    by (simp only: book_coin_eur_def map_replicate_const rbind_simps)
  then show ?thesis
    by (cases "length SPOT_SYMBOL_BY_BASE") (simp_all add: fsum_def neumaier_zeros)
qed

lemma demo_marks:
  "record_ts (\<lambda>_. Some (utc 0)) demo_marked = utc 0" "figure demo_marked ''equity_eur'' = Some (Fin 1000)"
  by (simp_all add: demo_marked_def record_ts_def figure_def dget_def)

lemma midnight_utc: "midnight (utc t) = utc (t div day_us * day_us)"
  by (simp add: midnight_def utc_def dt_day_def)

lemma demo_base: "day_base [(0, Fin 1000)] (utc H4) (Fin 0) = Fin 1000"
  by (simp add: day_base_def Let_def midnight_utc H4_def)

lemma demo_mark: "equity_mark_of (\<lambda>_. Some (utc 0)) [demo_marked] False (utc H4) (Fin 0) (Fin 1000) =
  Inr \<lparr>em_equity = Fin 0, em_hwm = Fin 1000, em_drawdown = Fin 10000, em_day_loss = Fin 10000, em_hold = True\<rparr>"
proof -
  have "filter (\<lambda>r. instant (record_ts (\<lambda>_. Some (utc 0)) r) \<noteq> instant (utc H4)) [demo_marked] = [demo_marked]"
    by (simp add: demo_marks H4_def)
  moreover have "marks_of (\<lambda>_. Some (utc 0)) [demo_marked] = [(0, Fin 1000)]"
    by (simp add: marks_of_def List.map_filter_def demo_marks)
  ultimately show ?thesis
    by (simp add: equity_mark_of_def Let_def demo_base fsub_def demo_rounds DAY_LOSS_HOLD_BPS_def fle_def)
qed

lemma demo_trip:
  assumes "\<not> x_kill s" "\<not> x_live s" "x_plan s = None" "x_gate s = new_gate True"
  shows "\<exists>u. trip_kill demo_world r s = (Inr (), u) \<and> x_day_loss u = x_day_loss s"
proof -
  have "w_open_orders demo_world n = Some []" for n by (simp add: demo_world_def)
  then show ?thesis using assms
    by (simp add: trip_kill_def steps cancel_resting_def cancel_all_def drop_plan_def x_evaluate_def demo_evaluate sq_def bnd_def)
qed

lemma demo_marked_equity:
  "\<exists>t. mark_equity demo_cworld demo_book demo_record demo_loop =
    (Inr (mark_figures \<lparr>em_equity = Fin 0, em_hwm = Fin 1000, em_drawdown = Fin 10000, em_day_loss = Fin 10000,
       em_hold = True\<rparr> True), t)"
proof -
  have closes: "closes_of demo_record = Inr (Some (map (\<lambda>b. (b, Fin 1)) (map fst SPOT_SYMBOL_BY_BASE)))"
  proof -
    have "rmap (\<lambda>(k, v). case k of JStr s \<Rightarrow> rbind (to_float v) (\<lambda>x. Inr (s, x)) | _ \<Rightarrow> Inl TypeError)
        (map (\<lambda>b. (JStr b, JFloat (Fin 1))) bs) = Inr (map (\<lambda>b. (b, Fin 1)) bs)" for bs
      by (induction bs) simp_all
    then show ?thesis by (simp add: closes_of_def demo_record_def named_floats_def del: map_map)
  qed
  have bases: "set (map fst SPOT_SYMBOL_BY_BASE) \<subseteq> set (map fst (map (\<lambda>b. (b, Fin 1)) (map fst SPOT_SYMBOL_BY_BASE)))"
    by (simp add: image_image)
  have r: "cy_nav demo_record = Some (Fin 1000)" "cy_ts demo_record = utc H4" by (simp_all add: demo_record_def)
  have l: "c_series demo_loop = Some ''t''" "c_accum demo_loop = [((0, 0), Parsed (JObj demo_marked))]"
    "c_x demo_loop = demo_state\<lparr>x_plan := None\<rparr>" "\<exists>d. c_pending demo_loop = Some d \<and> \<not> pd_minted d"
    by (simp_all add: demo_loop_def demo_cs_def)
  have w: "cw_x demo_cworld = demo_world" "cw_reads demo_cworld n" "\<not> cw_kill_file demo_cworld n"
    "w_fromiso demo_world = (\<lambda>_. Some (utc 0))" for n
    by (simp_all add: demo_cworld_def demo_aworld_def demo_world_def)
  obtain d where d: "c_pending demo_loop = Some d" "\<not> pd_minted d" using l(4) by blast
  let ?s2 = "demo_loop\<lparr>c_x := (c_x demo_loop)\<lparr>x_ticks := 2\<rparr>\<rparr>"
  obtain u where u: "trip_kill demo_world ''equity under the high-water mark''
      ((c_x demo_loop)\<lparr>x_day_loss := True, x_ticks := 3\<rparr>) = (Inr (), u)" "x_day_loss u"
    using demo_trip [of "(c_x demo_loop)\<lparr>x_day_loss := True, x_ticks := 3\<rparr>"] by (auto simp: l demo_state_def)
  have trip: "drawdown_trip demo_cworld \<lparr>em_equity = Fin 0, em_hwm = Fin 1000, em_drawdown = Fin 10000,
      em_day_loss = Fin 10000, em_hold = True\<rparr> (demo_loop\<lparr>c_x := (c_x demo_loop)\<lparr>x_ticks := 2, x_day_loss := True\<rparr>\<rparr>) =
      (Inr (), demo_loop\<lparr>c_x := u\<rparr>)"
    using u by (simp add: drawdown_trip_def DRAWDOWN_KILL_BPS_def fle_def cbnd_def cact_simps w exec_def)
  have start: "series_start demo_cworld demo_loop =
      (Inr (Some (utc 0)), demo_loop\<lparr>c_x := (c_x demo_loop)\<lparr>x_ticks := Suc 0\<rparr>\<rparr>)"
    by (simp add: series_start_def reading_def cbnd_def cact_simps w l naive_def utc_def demo_state_def)
  have scan: "scan_accum demo_cworld (utc 0) (utc H4) (demo_loop\<lparr>c_x := (c_x demo_loop)\<lparr>x_ticks := Suc 0\<rparr>\<rparr>) =
      (Inr [demo_marked], ?s2)"
    by (simp add: scan_accum_def reading_def cbnd_def cact_simps w l demo_scan numeral_2_eq_2)
  have total: "vb_eur_total demo_book = Fin 0" by (simp add: demo_book_def)
  have "\<exists>t. mark_priced demo_cworld demo_book (map (\<lambda>b. (b, Fin 1)) (map fst SPOT_SYMBOL_BY_BASE)) (utc H4) (Fin 1000) demo_loop =
      (Inr (mark_figures \<lparr>em_equity = Fin 0, em_hwm = Fin 1000, em_drawdown = Fin 10000, em_day_loss = Fin 10000,
       em_hold = True\<rparr> True), t)"
    using d trip u(2) total
    by (simp add: mark_priced_def demo_coin cbnd_def csq_def cact_simps start scan with_draft_def w demo_mark set_hold_def
        exec_def upd_def Let_def del: map_map)
  then show ?thesis
    by (simp add: mark_equity_def closes r cbnd_def cact_simps bases image_image del: map_map)
qed


section \<open>The daily loss hold\<close>

lemma day_loss_held_mem:
  "doc \<in> set ds \<Longrightarrow> figure doc ''day_loss_bps'' = Some x \<Longrightarrow> fge x DAY_LOSS_HOLD_BPS \<Longrightarrow> day_loss_held ds"
  by (auto simp: day_loss_held_def list_ex_iff intro!: bexI [of _ doc])

lemma set_hold_sets: "x_day_loss (c_x (snd (set_hold b s))) = b"
  by (simp add: set_hold_def exec_def upd_def)

lemma ccatch_sets:
  assumes "\<And>r t. m s = (r, t) \<Longrightarrow> (case r of Inl e \<Rightarrow> \<forall>u. Q (snd (h e u)) | Inr x \<Rightarrow> Q t)"
  shows "Q (snd (ccatch m h s))"
  using assms by (auto simp: ccatch_def cbnd_def attempt_def cret_def split: prod.splits sum.splits)

lemma later_of_utc: "later_of (utc a) (utc b) = utc (max a b)"
  by (simp add: later_of_def max_def)

text \<open>A held date opens nothing.\<close>

lemma held_refuses_opens:
  "x_day_loss x \<Longrightarrow> i_action i \<noteq> ''close'' \<Longrightarrow> \<not> level_permits (v_level (fold_holds x v)) i"
  by (simp add: fold_holds_def Let_def level_permits_def)

text \<open>
  C7. The daily loss hold survives a restart: with a record of the UTC date at three hundred basis points or more in
  the series' draft records, the derivation holds the date, reads that fail included, and no verdict permits an
  opening intent while it does.
\<close>

theorem latched_date_stays_held:
  assumes "accum_ok (w_fromiso (cw_x w)) (c_accum s)"
    and "accum_at (c_accum s) (accum_record_path (utc b)) doc" and "instant (record_ts (w_fromiso (cw_x w)) doc) = b"
    and "figure doc ''day_loss_bps'' = Some x" and "fge x DAY_LOSS_HOLD_BPS"
    and "c_series s = Some text" and "w_fromiso (cw_x w) text = Some (utc start)"
    and "start \<le> b" and "now div day_us * day_us \<le> b" and "b \<le> now"
  shows "x_day_loss (c_x (snd (derive_day_loss_hold w (utc now) s))) \<and>
    (\<forall>v i. i_action i \<noteq> ''close'' \<longrightarrow>
      \<not> level_permits (v_level (fold_holds (c_x (snd (derive_day_loss_hold w (utc now) s))) v)) i)"
proof -
  let ?since = "max start (now div day_us * day_us)" and ?fi = "w_fromiso (cw_x w)"
  obtain ds where ds: "accum_records_since ?fi (c_accum s) (utc ?since) (utc now) = Inr ds"
    using accum_scan_returns [OF assms(1), of "utc ?since" "utc now"] by auto
  have "?since div day_us \<le> b div day_us" using assms(8,9) by (intro zdiv_mono1) auto
  then have "doc \<in> set ds"
    using assms(2,3,8-10) by (subst accum_scan_docs(1) [OF assms(1) ds])
      (auto simp: accum_record_path_def dt_day_def intro!: exI [of _ "accum_record_path (utc b)"])
  then have held: "day_loss_held ds" using assms(4,5) by (rule day_loss_held_mem)
  have "x_day_loss (c_x (snd (derive_day_loss_hold w (utc now) s)))"
    unfolding derive_day_loss_hold_def
  proof (rule ccatch_sets)
    fix r u
    assume "cbnd (series_start w) (\<lambda>start. cbnd (case start of None \<Rightarrow> cret []
        | Some t \<Rightarrow> scan_accum w (later_of t (midnight (utc now))) (utc now)) (\<lambda>records. set_hold (day_loss_held records))) s = (r, u)"
    then show "case r of Inl e \<Rightarrow> \<forall>u. x_day_loss (c_x (snd (set_hold True u))) | Inr x \<Rightarrow> x_day_loss (c_x u)"
      using held ds assms(6,7)
      by (auto simp: series_start_def reading_def scan_accum_def cbnd_def cact_simps set_hold_sets midnight_utc later_of_utc
          naive_def utc_def [symmetric] set_hold_def exec_def upd_def split: if_splits sum.splits prod.splits)
  qed
  then show ?thesis by (auto simp: held_refuses_opens)
qed

definition demo_latched :: jdict where
  "demo_latched = dset demo_marked ''day_loss_bps'' (JFloat (Fin 300))"

theorem latched_date_stays_held_witness:
  "x_day_loss (c_x (snd (derive_day_loss_hold demo_cworld (utc H4)
     (demo_loop\<lparr>c_accum := [((0, 0), Parsed (JObj demo_latched))]\<rparr>))))"
proof -
  let ?s = "demo_loop\<lparr>c_accum := [((0, 0), Parsed (JObj demo_latched))]\<rparr>"
  have w: "w_fromiso (cw_x demo_cworld) = (\<lambda>_. Some (utc 0))" by (simp add: demo_cworld_def demo_aworld_def demo_world_def)
  have valid: "validate_accum_record (\<lambda>_. Some (utc 0)) (JObj demo_latched) = Inr ()" by code_simp
  have ts: "record_ts (\<lambda>_. Some (utc 0)) demo_latched = utc 0" by code_simp
  have "accum_ok (w_fromiso (cw_x demo_cworld)) (c_accum ?s)"
    unfolding accum_ok_def w using valid ts
    by (auto simp: dt_eq_def comparable_def accum_record_path_def dt_day_def dt_hour_def intro!: exI [of _ "utc 0"])
  moreover have "accum_at (c_accum ?s) (accum_record_path (utc 0)) demo_latched"
    by (simp add: accum_at_def accum_record_path_def dt_day_def dt_hour_def)
  moreover have "instant (record_ts (w_fromiso (cw_x demo_cworld)) demo_latched) = 0" by (simp add: w ts)
  moreover have "figure demo_latched ''day_loss_bps'' = Some (Fin 300)"
    by (simp add: figure_def demo_latched_def)
  moreover have "fge (Fin 300) DAY_LOSS_HOLD_BPS" by (simp add: DAY_LOSS_HOLD_BPS_def fle_def)
  moreover have "c_series ?s = Some ''t''" by (simp add: demo_loop_def demo_cs_def)
  moreover have "w_fromiso (cw_x demo_cworld) ''t'' = Some (utc 0)" by (simp add: w)
  moreover have "(0::int) \<le> 0" "H4 div day_us * day_us \<le> 0" "0 \<le> H4" by (simp_all add: H4_def)
  ultimately show ?thesis using latched_date_stays_held by blast
qed

section \<open>The freeze\<close>

text \<open>Frozen, nothing more is sent; thawed, every socket is back.\<close>

definition chilled :: "effect list \<Rightarrow> xs \<Rightarrow> bool" where
  "chilled l s \<longleftrightarrow> (if x_frozen s then filter is_sent (x_log s) = l else x_sockets s = [])"

interpretation frost: log_invariant "chilled l"
proof
  fix s e assume "chilled l s" "quiet e"
  then show "chilled l (s\<lparr>x_log := e # x_log s\<rparr>)" by (cases e) (auto simp: chilled_def)
qed (auto simp: chilled_def split: if_splits)

text \<open>A lost socket leaves the freeze and the log; a returned one may end the freeze, with every socket back.\<close>

lemma disconnected_log:
  "x_frozen (snd (on_socket_state w (Disconnected e) s)) = x_frozen s \<and>
   x_log (snd (on_socket_state w (Disconnected e) s)) = x_log s \<and> x_sockets (snd (on_socket_state w (Disconnected e) s)) \<noteq> []"
  by (simp add: on_socket_state_def on_socket_state_raw_def catch_def bnd_def ask_def upd_def Let_def) auto

lemma connected_chilled: "keeps (chilled l) (on_socket_state w (Connected e))"
proof -
  have plug: "keeps (chilled l) (upd (\<lambda>s. s\<lparr>x_sockets := AList.delete e (x_sockets s)\<rparr>))" for e
    by (simp add: keeps_def upd_def chilled_def)
  then show ?thesis
    unfolding on_socket_state_def on_socket_state_raw_def socket_event.case
    by (intro plug frost.basic frost.passes.m_lift_freeze [folded keeps_moves] frost.keeps_upd) (simp_all add: Let_def)
qed

lemma socket_iced:
  assumes "x_frozen s"
  shows "chilled (filter is_sent (x_log s)) (snd (on_socket_state w ev s))"
proof (cases ev)
  case (Disconnected e)
  with assms disconnected_log show ?thesis by (simp add: chilled_def)
next
  case (Connected e)
  with assms connected_chilled [of "filter is_sent (x_log s)"] show ?thesis by (simp add: keeps_def chilled_def)
qed

lemma handle_iced:
  assumes "x_frozen (c_x s)" and "x_sockets (c_x (snd (chandle w e s))) \<noteq> []"
  shows "x_frozen (c_x (snd (chandle w e s))) \<and>
    filter is_sent (x_log (c_x (snd (chandle w e s)))) = filter is_sent (x_log (c_x s))"
proof -
  have "chilled (filter is_sent (x_log (c_x s))) (c_x (snd (chandle w e s)))"
  proof (cases "\<exists>ev. e = CSocket ev")
    case True
    then show ?thesis using socket_iced [OF assms(1)] by (auto simp: exec_def split: prod.split) (metis snd_conv)
  next
    case False
    then show ?thesis
      using ckeepsD [OF frost.loop.c_handle [of e "filter is_sent (x_log (c_x s))" w], of s] assms(1)
      by (auto simp: chilled_def)
  qed
  with assms(2) show ?thesis by (simp add: chilled_def split: if_splits)
qed

text \<open>
  C39. The socket freeze: from a frozen loop, as long as some socket is still down after every event, no tick,
  boundary, order event, re-read pass, plan or draft sends an order, and the loop stays frozen.
\<close>

theorem frozen_loop_sends_nothing:
  assumes "x_frozen (c_x s)" and "\<forall>n\<in>{1..length es}. x_sockets (c_x (crun w (take n es) s)) \<noteq> []"
  shows "x_frozen (c_x (crun w es s)) \<and> filter is_sent (x_log (c_x (crun w es s))) = filter is_sent (x_log (c_x s))"
  using assms
proof (induction es arbitrary: s)
  case (Cons e es)
  let ?t = "snd (chandle w e s)"
  have "x_sockets (c_x ?t) \<noteq> []" using Cons.prems(2) by (auto dest!: bspec [of _ _ 1])
  note t = handle_iced [OF Cons.prems(1) this]
  have "\<forall>n\<in>{1..length es}. x_sockets (c_x (crun w (take n es) ?t)) \<noteq> []"
    using Cons.prems(2) by (auto dest!: bspec [of _ _ "Suc _"])
  with Cons.IH [of ?t] t show ?case by simp
qed simp

theorem frozen_loop_sends_nothing_witness:
  "filter is_sent (x_log (c_x (crun demo_cworld [CTick (utc 1) None, CSocket (Disconnected ''private''), CTick (utc 2) None]
     (demo_cs (demo_state\<lparr>x_frozen := True, x_sockets := [(''public'', utc 0)]\<rparr>))))) = []"
proof -
  let ?s = "demo_cs (demo_state\<lparr>x_frozen := True, x_sockets := [(''public'', utc 0)]\<rparr>)"
  let ?es = "[CTick (utc 1) None, CSocket (Disconnected ''private''), CTick (utc 2) None]"
  have tick: "x_sockets (c_x (snd (c_tick demo_cworld now None s))) = x_sockets (c_x s)" for now s
    using ckeepsD [OF sockets.loop.c_tick_keeps] by blast
  have drop: "x_sockets (c_x (snd (exec (on_socket_state W (Disconnected e)) s))) \<noteq> []" for W e s
    using disconnected_log [of W e "c_x s"]
    by (cases "on_socket_state W (Disconnected e) (c_x s)") (simp add: exec_def)
  have ns: "n \<in> {1..length ?es} \<Longrightarrow> n = 1 \<or> n = 2 \<or> n = 3" for n by auto
  have "\<forall>n\<in>{1..length ?es}. x_sockets (c_x (crun demo_cworld (take n ?es) ?s)) \<noteq> []"
  proof
    fix n assume "n \<in> {1..length ?es}"
    from ns [OF this] show "x_sockets (c_x (crun demo_cworld (take n ?es) ?s)) \<noteq> []"
      by (auto simp: tick drop demo_cs_def take_Cons numeral_2_eq_2 numeral_3_eq_3)
  qed
  from frozen_loop_sends_nothing [OF _ this] show ?thesis by (simp add: demo_cs_def demo_state_def del: crun.simps)
qed

end
