(* ===== verification/PriceStore.thy ===== *)
theory PriceStore imports Instruments "HOL-Library.Multiset"
begin

text \<open>
  \<open>cli/engine/store.py\<close> with \<open>cli/ohlc/seam.py\<close> and \<open>dataset.py\<close>: the live price store, one file of bars per pair and
  grid. A frame is its schema and its rows; a stamp is microseconds since the epoch. The fetches and the writes are
  answers of a world, by how many were asked before. The texts that tell an operator how to repair a leg are left out.
\<close>

section \<open>Frames of bars\<close>

record bar =
  b_ts :: "int option"
  b_figures :: "pyfloat option list"
  b_close :: "pyfloat option"
  b_count :: "int option"

record frame =
  f_schema :: "(string \<times> string) list"
  f_bars :: "bar list"

definition FRAME_SCHEMA :: "(string \<times> string) list" where
  "FRAME_SCHEMA = (''ts'', ''Datetime(us, UTC)'') # map (\<lambda>c. (c, ''Float64''))
     [''open'', ''high'', ''low'', ''close'', ''vwap'', ''volume''] @ [(''count'', ''Int64'')]"

definition GRID_INTERVALS :: "int list" where "GRID_INTERVALS = [1440, 240]"
definition MIN_SEAM_OVERLAP :: nat where "MIN_SEAM_OVERLAP = 6"
definition REFRESH_MIN_OVERLAP :: nat where "REFRESH_MIN_OVERLAP = 1"

definition bar_us :: "int \<Rightarrow> int" where "bar_us interval = interval * minute_us"

text \<open>\<open>FETCH_PAIR_KEYS\<close> narrowed to the basket, in its order.\<close>

definition FETCH_PAIR_KEYS :: "(string \<times> string) list" where
  "FETCH_PAIR_KEYS =
     [(''BTC/EUR'', ''XXBTZEUR''), (''ETH/EUR'', ''XETHZEUR''), (''SOL/EUR'', ''SOLEUR''), (''XRP/EUR'', ''XXRPZEUR''),
      (''ADA/EUR'', ''ADAEUR''), (''LINK/EUR'', ''LINKEUR''), (''DOGE/EUR'', ''XDGEUR''), (''LTC/EUR'', ''XLTCZEUR''),
      (''DOT/EUR'', ''DOTEUR''), (''AVAX/EUR'', ''AVAXEUR''), (''ETH/BTC'', ''XETHXXBT''), (''SOL/BTC'', ''SOLXBT'')]"

definition PAIR_KEYS :: "(string \<times> string) list" where
  "PAIR_KEYS = map (\<lambda>s. (s, the (map_of FETCH_PAIR_KEYS s))) BASKET"

text \<open>Rows by stamp, the absent ones first; equal rows once, in the place of the first.\<close>

definition by_stamp :: "bar list \<Rightarrow> bar list" where
  "by_stamp bs = filter (\<lambda>b. b_ts b = None) bs @ sort_key (the \<circ> b_ts) (filter (\<lambda>b. b_ts b \<noteq> None) bs)"

definition unique_bars :: "bar list \<Rightarrow> bar list" where "unique_bars bs = rev (remdups (rev bs))"

definition to_frame :: "bar list \<Rightarrow> frame res" where
  "to_frame rows =
     (if list_ex (\<lambda>b. Some NaN \<in> set (b_close b # b_figures b)) rows then Inl (OHLCError ''NaN values'')
      else let bs = unique_bars (by_stamp rows) in
        if \<not> distinct (map b_ts bs) then Inl (OHLCError ''conflicting timestamps'')
        else Inr \<lparr>f_schema = FRAME_SCHEMA, f_bars = bs\<rparr>)"

definition drop_in_progress :: "bar list \<Rightarrow> int \<Rightarrow> int \<Rightarrow> bar list" where
  "drop_in_progress bs interval now = filter (\<lambda>b. case b_ts b of None \<Rightarrow> False | Some t \<Rightarrow> t + bar_us interval \<le> now) bs"

section \<open>The door of the store\<close>

datatype frame_fault =
    WrongSchema | WrongOrder | NoRows | NullStamp | RepeatedStamp | OffGrid | UnusableClose

definition usable :: "pyfloat option \<Rightarrow> bool" where
  "usable c \<longleftrightarrow> (case c of None \<Rightarrow> True | Some x \<Rightarrow> isfinite x \<and> \<not> fle x (Fin 0))"

definition frame_differences :: "frame \<Rightarrow> int \<Rightarrow> frame_fault option" where
  "frame_differences f interval =
     (let stamps = map b_ts (f_bars f) in
      if list_ex (\<lambda>(c, d). map_of (f_schema f) c \<noteq> Some d) FRAME_SCHEMA \<or>
         list_ex (\<lambda>c. c \<notin> fst ` set FRAME_SCHEMA) (map fst (f_schema f)) then Some WrongSchema
      else if map fst (f_schema f) \<noteq> map fst FRAME_SCHEMA then Some WrongOrder
      else if f_bars f = [] then Some NoRows
      else if None \<in> set stamps then Some NullStamp
      else if \<not> distinct stamps then Some RepeatedStamp
      else if list_ex (\<lambda>t. the t mod bar_us interval \<noteq> 0) stamps then Some OffGrid
      else if list_ex (\<lambda>b. \<not> usable (b_close b)) (f_bars f) then Some UnusableClose
      else None)"

definition require_store_frame :: "frame \<Rightarrow> int \<Rightarrow> unit res" where
  "require_store_frame f interval =
     (if frame_differences f interval = None then Inr () else Inl (EngineError ''not the frame the store readers join''))"

definition require_rest_frame :: "frame \<Rightarrow> int \<Rightarrow> unit res" where
  "require_rest_frame f interval =
     (if f_bars f = [] \<or> frame_differences f interval = None then Inr ()
      else Inl (EngineError ''the REST fetch is not the frame the store readers join''))"

section \<open>The seam\<close>

text \<open>The rows both sides hold, and those of them whose closes disagree: an absent close is a disagreement.\<close>

definition disagrees :: "bar \<times> bar \<Rightarrow> bool" where
  "disagrees p \<longleftrightarrow> b_close (fst p) \<noteq> b_close (snd p) \<or> b_close (fst p) = None"

definition seam_overlap :: "bar list \<Rightarrow> bar list \<Rightarrow> nat \<times> (bar \<times> bar) list" where
  "seam_overlap left right =
     (let shared = concat (map (\<lambda>l. map (Pair l) (filter (\<lambda>r. b_ts l \<noteq> None \<and> b_ts r = b_ts l) right)) left) in
      (length shared, filter disagrees shared))"

record merge =
  mg_overlap :: nat
  mg_replaced :: nat
  mg_bars :: "bar list"

definition reconcile_legs :: "bar list \<Rightarrow> bar list \<Rightarrow> nat \<Rightarrow> bool \<Rightarrow> merge res" where
  "reconcile_legs stored rest min_overlap allow_replace =
     (case seam_overlap stored rest of (overlap, mismatches) \<Rightarrow>
      if overlap < min_overlap then Inl (EngineError ''window shortfall'')
      else if list_ex (\<lambda>(l, r). b_close l = None \<or> b_close r = None) mismatches then Inl (EngineError ''an absent close'')
      else if mismatches \<noteq> [] \<and> \<not> allow_replace then Inl (EngineError ''overlap mismatch'')
      else let replaced = set (map (b_ts \<circ> fst) mismatches) in
        Inr \<lparr>mg_overlap = overlap, mg_replaced = card replaced,
             mg_bars = by_stamp (filter (\<lambda>b. b_ts b \<notin> replaced) stored @ filter (\<lambda>b. b_ts b \<in> replaced) rest @
                                 filter (\<lambda>b. b_ts b \<notin> set (map b_ts stored)) rest)\<rparr>)"

section \<open>The store\<close>

datatype leg_file = Absent | Unreadable | Stored frame
datatype write_outcome = Written | Refused | Torn

type_synonym leg_files = "string \<times> int \<Rightarrow> leg_file"

record store_world =
  sw_fetch :: "nat \<Rightarrow> string \<Rightarrow> int \<Rightarrow> bar list res"
  sw_write :: "nat \<Rightarrow> write_outcome"

record pstate =
  ps_asked :: nat
  ps_legs :: leg_files

type_synonym 'a store_op = "pstate \<Rightarrow> 'a res \<times> pstate"

definition read_leg :: "string \<times> int \<Rightarrow> pstate \<Rightarrow> frame res" where
  "read_leg leg s = (case ps_legs s leg of Stored f \<Rightarrow> Inr f | _ \<Rightarrow> Inl (EngineError ''cannot read''))"

definition write_leg :: "store_world \<Rightarrow> string \<times> int \<Rightarrow> bar list \<Rightarrow> 'a \<Rightarrow> 'a store_op" where
  "write_leg W leg bs x s =
     (let s1 = s\<lparr>ps_asked := ps_asked s + 1\<rparr> in
      case sw_write W (ps_asked s) of
        Written \<Rightarrow> (Inr x, s1\<lparr>ps_legs := (ps_legs s)(leg := Stored \<lparr>f_schema = FRAME_SCHEMA, f_bars = bs\<rparr>)\<rparr>)
      | Refused \<Rightarrow> (Inl OSError, s1)
      | Torn \<Rightarrow> (Inl OSError, s1\<lparr>ps_legs := (ps_legs s)(leg := Unreadable)\<rparr>))"

text \<open>The completed bars of a fetch, held to the store's width.\<close>

definition fetched :: "store_world \<Rightarrow> nat \<Rightarrow> string \<Rightarrow> int \<Rightarrow> int \<Rightarrow> bar list res" where
  "fetched W n key interval now =
     rbind (rbind (sw_fetch W n key interval) to_frame) (\<lambda>f.
       let bs = drop_in_progress (f_bars f) interval now in
       rbind (require_rest_frame (f\<lparr>f_bars := bs\<rparr>) interval) (\<lambda>_. Inr bs))"

record refresh_entry =
  re_leg :: "string \<times> int"
  re_appended :: int
  re_fresh_through :: "int option"

definition last_stamp :: "bar list \<Rightarrow> int option" where
  "last_stamp bs = (case List.map_filter b_ts bs of [] \<Rightarrow> None | t # ts \<Rightarrow> Some (fold max ts t))"

definition refresh_leg :: "store_world \<Rightarrow> int \<Rightarrow> (string \<times> string) \<times> int \<Rightarrow> refresh_entry store_op" where
  "refresh_leg W now x s =
     (case x of ((pair, key), interval) \<Rightarrow>
      case rbind (read_leg (pair, interval) s) (\<lambda>f. rbind (require_store_frame f interval) (\<lambda>_. Inr (f_bars f))) of
        Inl e \<Rightarrow> (Inl e, s)
      | Inr stored \<Rightarrow>
          let s1 = s\<lparr>ps_asked := ps_asked s + 1\<rparr> in
          case rbind (fetched W (ps_asked s) key interval now) (\<lambda>rest. reconcile_legs stored rest REFRESH_MIN_OVERLAP False) of
            Inl e \<Rightarrow> (Inl e, s1)
          | Inr m \<Rightarrow>
              let appended = int (length (mg_bars m)) - int (length stored);
                  entry = \<lparr>re_leg = (pair, interval), re_appended = appended, re_fresh_through = last_stamp (mg_bars m)\<rparr> in
              if appended = 0 then (Inr entry, s1) else write_leg W (pair, interval) (mg_bars m) entry s1)"

fun each_leg :: "('x \<Rightarrow> 'a store_op) \<Rightarrow> 'x list \<Rightarrow> 'a list store_op" where
  "each_leg f [] s = (Inr [], s)"
| "each_leg f (x # xs) s =
     (case f x s of
        (Inl e, s1) \<Rightarrow> (Inl e, s1)
      | (Inr y, s1) \<Rightarrow> (case each_leg f xs s1 of (Inl e, s2) \<Rightarrow> (Inl e, s2) | (Inr ys, s2) \<Rightarrow> (Inr (y # ys), s2)))"

definition refresh_store :: "store_world \<Rightarrow> int \<Rightarrow> (string \<times> string) list \<Rightarrow> refresh_entry list store_op" where
  "refresh_store W now pairs = each_leg (refresh_leg W now) (List.product pairs GRID_INTERVALS)"

record seed_entry =
  sd_leg :: "string \<times> int"
  sd_overlap :: nat
  sd_appended :: int
  sd_replaced :: nat

text \<open>An absent leg is the canonical's, checked before it is copied; a present one is repaired from the fetch.\<close>

definition copy_canonical :: "store_world \<Rightarrow> leg_files \<Rightarrow> string \<times> int \<Rightarrow> unit store_op" where
  "copy_canonical W canonical leg s =
     (if ps_legs s leg \<noteq> Absent then (Inr (), s)
      else case canonical leg of
             Stored f \<Rightarrow>
               (case require_store_frame f (snd leg) of
                  Inl e \<Rightarrow> (Inl e, s)
                | Inr _ \<Rightarrow> write_leg W leg (f_bars f) () s)
           | _ \<Rightarrow> (Inl (EngineError ''cannot read''), s))"

definition seed_leg :: "store_world \<Rightarrow> leg_files \<Rightarrow> int \<Rightarrow> (string \<times> string) \<times> int \<Rightarrow> seed_entry store_op" where
  "seed_leg W canonical now x s =
     (case x of ((pair, key), interval) \<Rightarrow>
      let leg = (pair, interval); existed = (ps_legs s leg \<noteq> Absent); s0 = s\<lparr>ps_asked := ps_asked s + 1\<rparr> in
      case fetched W (ps_asked s) key interval now of
        Inl e \<Rightarrow> (Inl e, s0)
      | Inr rest \<Rightarrow>
          (case copy_canonical W canonical leg s0 of
             (Inl e, s1) \<Rightarrow> (Inl e, s1)
           | (Inr _, s1) \<Rightarrow>
               (case rbind (read_leg leg s1) (\<lambda>f. rbind (require_store_frame f interval) (\<lambda>_.
                       rbind (reconcile_legs (f_bars f) rest MIN_SEAM_OVERLAP existed) (\<lambda>m. Inr (f_bars f, m)))) of
                  Inl e \<Rightarrow> (Inl e, s1)
                | Inr (stored, m) \<Rightarrow>
                    let appended = int (length (mg_bars m)) - int (length stored);
                        entry = \<lparr>sd_leg = leg, sd_overlap = mg_overlap m, sd_appended = appended, sd_replaced = mg_replaced m\<rparr> in
                    if mg_replaced m = 0 \<and> appended = 0 then (Inr entry, s1) else write_leg W leg (mg_bars m) entry s1)))"

definition seed_store :: "store_world \<Rightarrow> leg_files \<Rightarrow> int \<Rightarrow> seed_entry list store_op" where
  "seed_store W canonical now = each_leg (seed_leg W canonical now) (List.product PAIR_KEYS GRID_INTERVALS)"

text \<open>\<open>read_store_series\<close>: the stamps and the closes of a leg, refused where they are no price series.\<close>

definition read_store_series :: "leg_files \<Rightarrow> string \<times> int \<Rightarrow> (int list \<times> pyfloat option list) res" where
  "read_store_series lf leg =
     (case lf leg of
        Stored f \<Rightarrow>
          if map_of (f_schema f) ''ts'' = None \<or> map_of (f_schema f) ''close'' = None then Inl (EngineError ''cannot read'')
          else if list_ex (\<lambda>b. b_ts b = None) (f_bars f) then Inl (EngineError ''a stamp is not an aware datetime'')
          else Inr (map (the \<circ> b_ts) (f_bars f), map b_close (f_bars f))
      | _ \<Rightarrow> Inl (EngineError ''cannot read''))"

section \<open>What the seam makes of two sides\<close>

lemma mset_by_stamp [simp]: "mset (by_stamp bs) = mset bs"
proof -
  have "mset (filter P bs) + mset (filter (\<lambda>b. \<not> P b) bs) = mset bs" for P by (induction bs) auto
  from this [of "\<lambda>b. b_ts b = None"] show ?thesis by (simp add: by_stamp_def)
qed

lemma set_by_stamp [simp]: "set (by_stamp bs) = set bs"
  by (metis mset_by_stamp set_mset_mset)

lemma length_by_stamp [simp]: "length (by_stamp bs) = length bs"
  by (metis mset_by_stamp size_mset)

lemma distinct_by_stamp [simp]: "distinct (map b_ts (by_stamp bs)) = distinct (map b_ts bs)"
  by (metis mset_by_stamp mset_eq_imp_distinct_iff mset_map)

text \<open>A series: every row has a stamp of its own.\<close>

definition series :: "bar list \<Rightarrow> bool" where
  "series bs \<longleftrightarrow> None \<notin> set (map b_ts bs) \<and> distinct (map b_ts bs)"

lemma series_inj: "series bs \<Longrightarrow> b \<in> set bs \<Longrightarrow> c \<in> set bs \<Longrightarrow> b_ts b = b_ts c \<Longrightarrow> b = c"
  unfolding series_def by (simp add: distinct_map inj_on_def)

definition shared_stamps :: "bar list \<Rightarrow> bar list \<Rightarrow> int option set" where
  "shared_stamps ls rs = set (map b_ts ls) \<inter> set (map b_ts rs) - {None}"

lemma overlap_set:
  "set (snd (seam_overlap ls rs)) = {(l, r). l \<in> set ls \<and> r \<in> set rs \<and> b_ts l \<noteq> None \<and> b_ts r = b_ts l \<and> disagrees (l, r)}"
  by (auto simp: seam_overlap_def Let_def)

lemma overlap_count:
  assumes "series ls" and "series rs"
  shows "fst (seam_overlap ls rs) = card (shared_stamps ls rs)"
proof -
  have one: "length (filter (\<lambda>r. b_ts l \<noteq> None \<and> b_ts r = b_ts l) rs) = (if b_ts l \<in> shared_stamps (l # ls') rs then 1 else 0)"
    if "series rs" for l ls'
    using that unfolding series_def shared_stamps_def by (induction rs) auto
  from assms(1) have "fst (seam_overlap ls rs) = length (filter (\<lambda>l. b_ts l \<in> set (map b_ts rs)) ls)"
  proof (induction ls)
    case (Cons l ls)
    then have "b_ts l \<noteq> None" "series ls" by (auto simp: series_def)
    with Cons.IH one [OF assms(2), of l ls] show ?case by (simp add: seam_overlap_def shared_stamps_def Let_def)
  qed (simp add: seam_overlap_def)
  also have "\<dots> = card (set (map b_ts (filter (\<lambda>l. b_ts l \<in> set (map b_ts rs)) ls)))"
    using assms(1) by (subst distinct_card) (simp_all add: series_def distinct_map_filter)
  also have "set (map b_ts (filter (\<lambda>l. b_ts l \<in> set (map b_ts rs)) ls)) = shared_stamps ls rs"
    using assms(1) by (auto simp: shared_stamps_def series_def)
  finally show ?thesis .
qed

lemma apart:
  "set (map f (filter (\<lambda>b. f b \<notin> R) xs)) \<inter> set (map f (filter (\<lambda>b. f b \<in> R) ys)) = {}"
  "set (map f (filter P xs)) \<inter> set (map f (filter (\<lambda>b. f b \<notin> set (map f xs)) ys)) = {}"
  by (auto simp: image_iff)

lemma reconcile_spec:
  assumes "series stored" and "series rest" and "reconcile_legs stored rest n allow = Inr m"
  shows "series (mg_bars m)"
    and "b \<in> set (mg_bars m) \<longleftrightarrow>
      b \<in> set stored \<and> (\<forall>r \<in> set rest. b_ts r = b_ts b \<longrightarrow> b_close r = b_close b) \<or>
      b \<in> set rest \<and> (\<forall>l \<in> set stored. b_ts l = b_ts b \<longrightarrow> b_close l \<noteq> b_close b)"
    and "\<not> allow \<Longrightarrow> set stored \<subseteq> set (mg_bars m)"
proof -
  obtain n' mm where so: "seam_overlap stored rest = (n', mm)" by force
  let ?rep = "set (map (b_ts \<circ> fst) mm)"
  let ?kept = "filter (\<lambda>b. b_ts b \<notin> ?rep) stored" and ?new = "filter (\<lambda>b. b_ts b \<in> ?rep) rest"
    and ?only = "filter (\<lambda>b. b_ts b \<notin> set (map b_ts stored)) rest"
  from assms(3) so have m: "mg_bars m = by_stamp (?kept @ ?new @ ?only)"
    and whole: "\<And>l r. (l, r) \<in> set mm \<Longrightarrow> b_close l \<noteq> None \<and> b_close r \<noteq> None" and none: "allow \<or> mm = []"
    by (auto simp: reconcile_legs_def Let_def list_ex_iff split: if_splits)
  have mm: "set mm = {(l, r). l \<in> set stored \<and> r \<in> set rest \<and> b_ts l \<noteq> None \<and> b_ts r = b_ts l \<and> disagrees (l, r)}"
    using overlap_set [of stored rest] so by simp
  have rep: "b_ts b \<in> ?rep \<longleftrightarrow> (\<exists>l \<in> set stored. \<exists>r \<in> set rest. b_ts l = b_ts b \<and> b_ts r = b_ts b \<and> b_close l \<noteq> b_close r)"
    for b
  proof -
    have some: "b_ts l \<noteq> None" if "l \<in> set stored" for l using that assms(1) by (force simp: series_def)
    have "disagrees (l, r) \<longleftrightarrow> b_close l \<noteq> b_close r" if "l \<in> set stored" "r \<in> set rest" "b_ts r = b_ts l" for l r
      using that some [OF that(1)] whole [of l r] unfolding mm by (auto simp: disagrees_def)
    with some show ?thesis unfolding set_map mm by (auto simp: image_iff) metis+
  qed
  show "series (mg_bars m)"
  proof -
    have "set (map b_ts ?kept) \<inter> set (map b_ts ?new) = {}" "set (map b_ts ?kept) \<inter> set (map b_ts ?only) = {}"
      by (rule apart)+
    moreover have "set (map b_ts ?new) \<inter> set (map b_ts ?only) = {}"
      using mm by (auto simp: image_iff)
    ultimately have "distinct (map b_ts (?kept @ ?new @ ?only))"
      using assms(1,2) unfolding map_append distinct_append set_append
      by (simp add: series_def distinct_map_filter Int_Un_distrib del: set_map set_filter)
    moreover have "None \<notin> set (map b_ts (?kept @ ?new @ ?only))" using assms(1,2) by (auto simp: series_def)
    ultimately show ?thesis unfolding m series_def by (simp add: image_Un)
  qed
  show "b \<in> set (mg_bars m) \<longleftrightarrow>
      b \<in> set stored \<and> (\<forall>r \<in> set rest. b_ts r = b_ts b \<longrightarrow> b_close r = b_close b) \<or>
      b \<in> set rest \<and> (\<forall>l \<in> set stored. b_ts l = b_ts b \<longrightarrow> b_close l \<noteq> b_close b)"
  proof -
    have kept: "b_ts b \<notin> ?rep \<longleftrightarrow> (\<forall>r \<in> set rest. b_ts r = b_ts b \<longrightarrow> b_close r = b_close b)" if "b \<in> set stored"
      unfolding rep using that series_inj [OF assms(1)] by metis
    have new: "b_ts b \<in> ?rep \<or> b_ts b \<notin> set (map b_ts stored) \<longleftrightarrow>
        (\<forall>l \<in> set stored. b_ts l = b_ts b \<longrightarrow> b_close l \<noteq> b_close b)" if "b \<in> set rest"
    proof -
      have "b_ts b \<in> set (map b_ts stored) \<longleftrightarrow> (\<exists>l \<in> set stored. b_ts l = b_ts b)"
        unfolding set_map image_iff by metis
      with rep [of b] show ?thesis using that series_inj [OF assms(2)] series_inj [OF assms(1)] by metis
    qed
    have "b \<in> set (mg_bars m) \<longleftrightarrow> b \<in> set stored \<and> b_ts b \<notin> ?rep \<or>
        b \<in> set rest \<and> (b_ts b \<in> ?rep \<or> b_ts b \<notin> set (map b_ts stored))"
      unfolding m set_by_stamp set_append set_filter by blast
    with kept new show ?thesis by blast
  qed
  show "\<not> allow \<Longrightarrow> set stored \<subseteq> set (mg_bars m)" using none by (auto simp: m)
qed

section \<open>What a run of the store keeps\<close>

abbreviation joinable :: "frame \<Rightarrow> int \<Rightarrow> bool" where
  "joinable f interval \<equiv> frame_differences f interval = None"

lemma same_pairs:
  assumes "map fst s = map fst F" and "distinct (map fst F)" and "\<forall>(c, d) \<in> set F. map_of s c = Some d"
  shows "s = F"
proof (rule nth_equalityI)
  show n: "length s = length F" using assms(1) by (metis length_map)
  fix i assume i: "i < length s"
  then have "fst (s ! i) = fst (F ! i)" using assms(1) n by (metis nth_map)
  moreover have "map_of s (fst (F ! i)) = Some (snd (F ! i))" using assms(3) i n by (auto dest: bspec [OF _ nth_mem])
  moreover have "map_of s (fst (s ! i)) = Some (snd (s ! i))"
    using assms(1,2) i by (intro map_of_is_SomeI) auto
  ultimately show "s ! i = F ! i" by (metis option.inject prod_eqI)
qed

lemma schema_iff:
  "\<not> (list_ex (\<lambda>(c, d). map_of s c \<noteq> Some d) FRAME_SCHEMA \<or> list_ex (\<lambda>c. c \<notin> fst ` set FRAME_SCHEMA) (map fst s)) \<and>
     map fst s = map fst FRAME_SCHEMA \<longleftrightarrow> s = FRAME_SCHEMA"
proof
  assume "\<not> (list_ex (\<lambda>(c, d). map_of s c \<noteq> Some d) FRAME_SCHEMA \<or> list_ex (\<lambda>c. c \<notin> fst ` set FRAME_SCHEMA) (map fst s)) \<and>
     map fst s = map fst FRAME_SCHEMA"
  then show "s = FRAME_SCHEMA"
    by (intro same_pairs) (auto simp: list_ex_iff FRAME_SCHEMA_def)
next
  assume "s = FRAME_SCHEMA"
  then show "\<not> (list_ex (\<lambda>(c, d). map_of s c \<noteq> Some d) FRAME_SCHEMA \<or> list_ex (\<lambda>c. c \<notin> fst ` set FRAME_SCHEMA) (map fst s)) \<and>
     map fst s = map fst FRAME_SCHEMA"
    by (simp add: FRAME_SCHEMA_def)
qed

lemma joinable_iff:
  "joinable f interval \<longleftrightarrow> f_schema f = FRAME_SCHEMA \<and> f_bars f \<noteq> [] \<and> series (f_bars f) \<and>
     (\<forall>b \<in> set (f_bars f). the (b_ts b) mod bar_us interval = 0 \<and> usable (b_close b))"
  unfolding schema_iff [of "f_schema f", symmetric]
  by (auto simp: frame_differences_def Let_def series_def list_ex_iff split: if_splits)

text \<open>The merge of two joinable sides is joinable, and so is what is left of a fetch.\<close>

definition bars_ok :: "bar list \<Rightarrow> int \<Rightarrow> bool" where
  "bars_ok bs interval \<longleftrightarrow> series bs \<and> (\<forall>b \<in> set bs. the (b_ts b) mod bar_us interval = 0 \<and> usable (b_close b))"

lemma joinable_bars: "joinable f interval \<longleftrightarrow> f_schema f = FRAME_SCHEMA \<and> f_bars f \<noteq> [] \<and> bars_ok (f_bars f) interval"
  by (auto simp: joinable_iff bars_ok_def)

lemma merge_ok:
  assumes "bars_ok stored i" and "bars_ok rest i" and "stored \<noteq> []" and "reconcile_legs stored rest n allow = Inr m"
  shows "bars_ok (mg_bars m) i" and "mg_bars m \<noteq> []"
proof -
  from assms(1,2) have s: "series stored" "series rest" by (simp_all add: bars_ok_def)
  note spec = reconcile_spec [OF s assms(4)]
  show "bars_ok (mg_bars m) i" using assms(1,2) spec(1,2) by (auto simp: bars_ok_def)
  obtain l where l: "l \<in> set stored" using assms(3) by (cases stored) auto
  show "mg_bars m \<noteq> []"
  proof (cases "\<forall>r \<in> set rest. b_ts r = b_ts l \<longrightarrow> b_close r = b_close l")
    case True
    then have "l \<in> set (mg_bars m)" using spec(2) l by blast
    then show ?thesis by auto
  next
    case False
    then obtain r where r: "r \<in> set rest" "b_ts r = b_ts l" "b_close r \<noteq> b_close l" by blast
    then have "\<forall>l' \<in> set stored. b_ts l' = b_ts r \<longrightarrow> b_close l' \<noteq> b_close r" using series_inj [OF s(1) _ l] by metis
    then have "r \<in> set (mg_bars m)" using spec(2) r(1) by blast
    then show ?thesis by auto
  qed
qed

lemma fetched_ok:
  assumes "fetched W n key interval now = Inr bs"
  shows "bars_ok bs interval" and "b \<in> set bs \<Longrightarrow> \<exists>t. b_ts b = Some t \<and> t + bar_us interval \<le> now"
proof -
  from assms obtain f where bs: "bs = drop_in_progress (f_bars f) interval now"
    and ok: "require_rest_frame (f\<lparr>f_bars := bs\<rparr>) interval = Inr ()"
    by (auto simp: fetched_def Let_def rbind_Inr_iff)
  show "bars_ok bs interval"
    using ok by (auto simp: require_rest_frame_def joinable_bars split: if_splits) (simp add: bars_ok_def series_def)
  show "b \<in> set bs \<Longrightarrow> \<exists>t. b_ts b = Some t \<and> t + bar_us interval \<le> now"
    unfolding bs by (auto simp: drop_in_progress_def split: option.splits)
qed

text \<open>What every leg does to the store, a walk over the legs does.\<close>

lemma each_leg_moves:
  assumes "\<And>s. R s s" and "\<And>s t u. R s t \<Longrightarrow> R t u \<Longrightarrow> R s u" and "\<And>x s. R s (snd (f x s))"
  shows "R s (snd (each_leg f xs s))"
proof (induction xs arbitrary: s)
  case (Cons x xs)
  obtain r t where t: "f x s = (r, t)" by force
  then have "R s t" using assms(3) [of s x] by simp
  moreover obtain r' u where u: "each_leg f xs t = (r', u)" by force
  ultimately have "R s t" "R s u" using Cons.IH [of t] assms(2) by auto
  with t u show ?case by (cases r; cases r') simp_all
qed (simp add: assms(1))

definition sound :: "pstate \<Rightarrow> bool" where
  "sound s \<longleftrightarrow> (\<forall>leg f. ps_legs s leg = Stored f \<longrightarrow> joinable f (snd leg))"

lemma sound_asked [simp]: "sound (s\<lparr>ps_asked := n\<rparr>) = sound s"
  by (simp add: sound_def)

lemma write_leg_sound:
  assumes "sound s" and "bars_ok bs (snd leg)" and "bs \<noteq> []"
  shows "sound (snd (write_leg W leg bs x s))"
proof -
  have "joinable \<lparr>f_schema = FRAME_SCHEMA, f_bars = bs\<rparr> (snd leg)" using assms(2,3) by (simp add: joinable_bars)
  with assms(1) show ?thesis by (cases "sw_write W (ps_asked s)") (auto simp: write_leg_def sound_def)
qed

lemma refresh_leg_sound: "sound s \<Longrightarrow> sound (snd (refresh_leg W now x s))"
proof -
  assume s: "sound s"
  obtain pair key interval where x: "x = ((pair, key), interval)" by (cases x) auto
  have "sound (snd (write_leg W (pair, interval) (mg_bars m) e (s\<lparr>ps_asked := n\<rparr>)))"
    if "read_leg (pair, interval) s = Inr f" "require_store_frame f interval = Inr ()"
      "fetched W k key interval now = Inr rest" "reconcile_legs (f_bars f) rest j a = Inr m" for f k rest j a m n and e :: refresh_entry
  proof -
    have "bars_ok (f_bars f) interval" "f_bars f \<noteq> []"
      using that(2) by (simp_all add: require_store_frame_def joinable_bars split: if_splits)
    from merge_ok [OF this(1) fetched_ok(1) [OF that(3)] this(2) that(4)] s show ?thesis
      by (intro write_leg_sound) simp_all
  qed
  with s show ?thesis
    by (auto simp: x refresh_leg_def Let_def rbind_Inr_iff split: sum.splits)
qed

lemma copy_canonical_sound:
  assumes "sound s"
  shows "sound (snd (copy_canonical W canonical leg s))"
proof -
  have "sound (snd (write_leg W leg (f_bars f) () s))" if "require_store_frame f (snd leg) = Inr ()" for f
    using that assms by (intro write_leg_sound) (simp_all add: require_store_frame_def joinable_bars split: if_splits)
  with assms show ?thesis by (auto simp: copy_canonical_def split: sum.splits leg_file.splits)
qed

lemma seed_leg_sound: "sound s \<Longrightarrow> sound (snd (seed_leg W canonical now x s))"
proof -
  assume s: "sound s"
  obtain pair key interval where x: "x = ((pair, key), interval)" by (cases x) auto
  let ?s0 = "s\<lparr>ps_asked := ps_asked s + 1\<rparr>"
  obtain r t where t: "copy_canonical W canonical (pair, interval) ?s0 = (r, t)" by force
  then have st: "sound t" using copy_canonical_sound [of ?s0 W canonical "(pair, interval)"] s by simp
  have "sound (snd (write_leg W (pair, interval) (mg_bars m) e t))"
    if "require_store_frame f interval = Inr ()" "fetched W k key interval now = Inr rest"
      "reconcile_legs (f_bars f) rest j a = Inr m" for f k rest j a m and e :: seed_entry
  proof -
    have "bars_ok (f_bars f) interval" "f_bars f \<noteq> []"
      using that(1) by (simp_all add: require_store_frame_def joinable_bars split: if_splits)
    from merge_ok [OF this(1) fetched_ok(1) [OF that(2)] this(2) that(3)] st show ?thesis
      by (intro write_leg_sound) simp_all
  qed
  with s st t show ?thesis
    by (auto simp: x seed_leg_def Let_def rbind_Inr_iff split: sum.splits prod.splits)
qed

text \<open>A refresh only adds bars, and only completed ones; a leg it cannot write is torn or as it was.\<close>

definition leg_grows :: "int \<Rightarrow> int \<Rightarrow> leg_file \<Rightarrow> leg_file \<Rightarrow> bool" where
  "leg_grows now interval a b \<longleftrightarrow>
     (case a of
        Absent \<Rightarrow> b = Absent
      | Unreadable \<Rightarrow> b = Unreadable
      | Stored f \<Rightarrow> b = Unreadable \<or> (\<exists>g. b = Stored g \<and> set (f_bars f) \<subseteq> set (f_bars g) \<and>
          (\<forall>c \<in> set (f_bars g) - set (f_bars f). \<exists>t. b_ts c = Some t \<and> t + bar_us interval \<le> now)))"

lemma leg_grows_refl [simp]: "leg_grows now i a a"
  by (simp add: leg_grows_def split: leg_file.split)

lemma leg_grows_trans: "leg_grows now i a b \<Longrightarrow> leg_grows now i b c \<Longrightarrow> leg_grows now i a c"
  by (cases a) (auto simp: leg_grows_def, blast+)

definition grows_by :: "int \<Rightarrow> pstate \<Rightarrow> pstate \<Rightarrow> bool" where
  "grows_by now s t \<longleftrightarrow> (\<forall>leg. leg_grows now (snd leg) (ps_legs s leg) (ps_legs t leg))"

lemma refresh_leg_grows: "grows_by now s (snd (refresh_leg W now x s))"
proof -
  obtain pair key interval where x: "x = ((pair, key), interval)" by (cases x) auto
  have idle: "grows_by now s (s\<lparr>ps_asked := n\<rparr>)" for n by (simp add: grows_by_def)
  have step: "grows_by now s (snd (write_leg W (pair, interval) (mg_bars m) e (s\<lparr>ps_asked := n\<rparr>)))"
    if "read_leg (pair, interval) s = Inr f" "require_store_frame f interval = Inr ()"
      "fetched W k key interval now = Inr rest" "reconcile_legs (f_bars f) rest j False = Inr m" for f k rest j m n and e :: refresh_entry
  proof -
    have f: "ps_legs s (pair, interval) = Stored f" using that(1) by (simp add: read_leg_def split: leg_file.splits)
    have "bars_ok (f_bars f) interval" using that(2) by (simp add: require_store_frame_def joinable_bars split: if_splits)
    then have ser: "series (f_bars f)" "series rest" using fetched_ok(1) [OF that(3)] by (simp_all add: bars_ok_def)
    note spec = reconcile_spec [OF ser that(4)] and completed = fetched_ok(2) [OF that(3)]
    have "set (f_bars f) \<subseteq> set (mg_bars m)" using spec(3) by simp
    moreover have "\<exists>t. b_ts c = Some t \<and> t + bar_us interval \<le> now" if "c \<in> set (mg_bars m) - set (f_bars f)" for c
      using that spec(2) [of c] completed [of c] by blast
    ultimately show ?thesis
      by (cases "sw_write W n") (auto simp: write_leg_def grows_by_def f leg_grows_def [of _ _ "Stored f"])
  qed
  show ?thesis
    using idle [of "ps_asked s"] idle step
    by (auto simp: x refresh_leg_def Let_def rbind_Inr_iff split: sum.splits)
qed

text \<open>Any run of refreshes and seeds, over any answers of the venue and the disk.\<close>

datatype store_call = Refresh store_world int "(string \<times> string) list" | Seed store_world leg_files int

fun call_store :: "store_call \<Rightarrow> pstate \<Rightarrow> pstate" where
  "call_store (Refresh W now pairs) s = snd (refresh_store W now pairs s)"
| "call_store (Seed W canonical now) s = snd (seed_store W canonical now s)"

definition run_store :: "store_call list \<Rightarrow> pstate \<Rightarrow> pstate" where
  "run_store cs s = fold call_store cs s"

text \<open>
  Whatever the venue answers and however the disk fails, a leg of the store that can be read is a frame its readers
  join: in its schema, without a repeated, absent or off-grid stamp, every close absent or finite and positive.
\<close>

theorem store_stays_joinable:
  assumes "sound s" and "ps_legs (run_store cs s) leg = Stored f"
  shows "joinable f (snd leg)"
proof -
  have "sound (call_store c s)" if "sound s" for c s
  proof (cases c)
    case (Refresh W now pairs)
    have "sound s \<longrightarrow> sound (snd (refresh_store W now pairs s))"
      unfolding refresh_store_def by (rule each_leg_moves) (auto simp: refresh_leg_sound)
    with that Refresh show ?thesis by simp
  next
    case (Seed W canonical now)
    have "sound s \<longrightarrow> sound (snd (seed_store W canonical now s))"
      unfolding seed_store_def by (rule each_leg_moves) (auto simp: seed_leg_sound)
    with that Seed show ?thesis by simp
  qed
  then have "sound (run_store cs s)"
    using assms(1) unfolding run_store_def by (induction cs arbitrary: s) auto
  with assms(2) show ?thesis unfolding sound_def by blast
qed

text \<open>A refresh never rewrites a bar the store holds.\<close>

theorem refresh_only_appends:
  shows "leg_grows now (snd leg) (ps_legs s leg) (ps_legs (snd (refresh_store W now pairs s)) leg)"
proof -
  have "grows_by now s (snd (refresh_store W now pairs s))"
    unfolding refresh_store_def
  proof (rule each_leg_moves)
    show "grows_by now s s" for s by (simp add: grows_by_def)
    show "grows_by now s u" if "grows_by now s t" "grows_by now t u" for s t u
      using that leg_grows_trans unfolding grows_by_def by blast
    show "grows_by now s (snd (refresh_leg W now x s))" for x s by (rule refresh_leg_grows)
  qed
  then show ?thesis unfolding grows_by_def by blast
qed

end
