(* ===== verification/ModelInputs.thy ===== *)
theory ModelInputs imports PriceStore VenueBook
begin

text \<open>
  \<open>cli/engine/cycle.py\<close>, the inputs of the model: the tails a boundary expects, the pairs whose series is stale, the
  one calendar per grid a cycle journals, the contraction to the ten euro legs the builder gets, and the expansion of
  its targets to the basket. A boundary and the stamps of a series are microseconds since the epoch, as the columns of
  the store are in UTC.
\<close>

section \<open>The boundary\<close>

definition normalize_cycle_ts :: "dt \<Rightarrow> int res" where
  "normalize_cycle_ts t =
     (if naive t then Inl (EngineError ''cycle_ts must be an aware datetime'')
      else if instant t mod (4 * hour_us) \<noteq> 0 then Inl (EngineError ''cycle_ts must fall exactly on a 4h UTC boundary'')
      else Inr (instant t))"

definition expected_tails :: "int \<Rightarrow> (int \<times> int) list" where
  "expected_tails cycle_ts = [(240, cycle_ts - 4 * hour_us), (1440, cycle_ts div day_us * day_us - day_us)]"

type_synonym leg_series = "int list \<times> pyfloat option list"

definition tail_is :: "leg_series \<Rightarrow> int \<Rightarrow> bool" where
  "tail_is leg want \<longleftrightarrow> fst leg \<noteq> [] \<and> last (fst leg) = want"

text \<open>The pairs whose raw tail still lacks a bar the boundary expects.\<close>

fun lacks_a_tail :: "leg_files \<Rightarrow> string \<Rightarrow> (int \<times> int) list \<Rightarrow> bool res" where
  "lacks_a_tail lf symbol [] = Inr False"
| "lacks_a_tail lf symbol ((interval, want) # tails) =
     rbind (read_store_series lf (symbol, interval)) (\<lambda>leg.
       if \<not> tail_is leg want then Inr True else lacks_a_tail lf symbol tails)"

definition settle_pending :: "leg_files \<Rightarrow> int \<Rightarrow> (string \<times> string) list res" where
  "settle_pending lf cycle_ts =
     rbind (rmap (\<lambda>p. lacks_a_tail lf (fst p) (expected_tails cycle_ts)) PAIR_KEYS) (\<lambda>lacking.
       Inr (map fst (filter snd (zip PAIR_KEYS lacking))))"

type_synonym raw_series = "((string \<times> int) \<times> leg_series) list"

definition stale_pairs :: "raw_series \<Rightarrow> int \<Rightarrow> string list" where
  "stale_pairs raw cycle_ts =
     sort (remdups (map (fst \<circ> fst) (filter (\<lambda>((symbol, interval), leg). 
       \<not> tail_is leg (the (map_of (expected_tails cycle_ts) interval))) raw)))"

section \<open>Calendars\<close>

text \<open>\<open>dict(zip(ts, closes)).get(t)\<close>: the last close at a stamp, none where the stamp is absent.\<close>

definition close_at :: "leg_series \<Rightarrow> int \<Rightarrow> pyfloat option" where
  "close_at leg t = (case map_of (rev (zip (fst leg) (snd leg))) t of None \<Rightarrow> None | Some c \<Rightarrow> c)"

type_synonym grid_prices = "(string \<times> pyfloat option list) list"

definition union_align :: "raw_series \<Rightarrow> int \<Rightarrow> (int list \<times> grid_prices) res" where
  "union_align raw interval =
     (let cal = sort (remdups (concat (map (fst \<circ> snd) (filter (\<lambda>x. snd (fst x) = interval) raw)))) in
      rbind (rmap (\<lambda>symbol. case map_of raw (symbol, interval) of None \<Rightarrow> Inl KeyError
                     | Some leg \<Rightarrow> Inr (symbol, map (close_at leg) cal)) (map fst PAIR_KEYS)) (\<lambda>prices. Inr (cal, prices)))"

section \<open>The model's legs\<close>

definition MODEL_SYMBOLS :: "string list" where "MODEL_SYMBOLS = filter is_eur_pair BASKET"

definition base_of :: "string \<Rightarrow> string" where "base_of symbol = hd (split_slash symbol)"

definition priced_stamps :: "leg_series \<Rightarrow> int list" where
  "priced_stamps leg = map fst (filter (\<lambda>(t, c). c \<noteq> None) (zip (fst leg) (snd leg)))"

definition select_model_inputs :: "(string \<times> leg_series) list \<Rightarrow> (int list \<times> grid_prices) res" where
  "select_model_inputs present_legs =
     (if list_ex (\<lambda>s. map_of present_legs s = None) MODEL_SYMBOLS then Inl (EngineError ''an EUR leg is absent from the series map'')
      else let present = map (\<lambda>s. (s, the (map_of present_legs s))) MODEL_SYMBOLS;
               cal = sort (remdups (concat (map (priced_stamps \<circ> snd) present))) in
        Inr (cal, map (\<lambda>(s, leg). (base_of s, map (close_at leg) cal)) present))"

text \<open>The assertion at its end: no two model symbols share a base.\<close>

lemma model_bases_distinct: "distinct (map base_of MODEL_SYMBOLS)"
  by code_simp

definition expand_to_basket :: "(string \<times> pyfloat) list \<Rightarrow> (string \<times> pyfloat) list res" where
  "expand_to_basket targets =
     (if list_ex (\<lambda>(base, x). base @ ''/EUR'' \<notin> set BASKET) targets then Inl (EngineError ''no leg in the ratified basket'')
      else Inr (fold (\<lambda>(base, x). AList.update (base @ ''/EUR'') x) targets (map (\<lambda>s. (s, Fin 0)) BASKET)))"

definition symbol_keyed_targets :: "json \<Rightarrow> (json \<times> json) list \<Rightarrow> (json \<times> json) list" where
  "symbol_keyed_targets schema targets =
     (if eq_int schema 1 then map (\<lambda>(k, v). (case k of JStr s \<Rightarrow> JStr (s @ ''/EUR'') | _ \<Rightarrow> k, v)) targets else targets)"

section \<open>The contraction is the same over the store and over the journal\<close>

definition regular :: "leg_series \<Rightarrow> bool" where
  "regular leg \<longleftrightarrow> length (fst leg) = length (snd leg) \<and> distinct (fst leg)"

lemma close_at_mem:
  assumes "regular leg"
  shows "close_at leg t = Some x \<longleftrightarrow> (t, Some x) \<in> set (zip (fst leg) (snd leg))"
proof -
  have "distinct (map fst (rev (zip (fst leg) (snd leg))))"
    using assms by (simp add: regular_def rev_map [symmetric])
  from map_of_eq_Some_iff [OF this] have found: "(t, c) \<in> set (zip (fst leg) (snd leg)) \<longleftrightarrow>
      map_of (rev (zip (fst leg) (snd leg))) t = Some c" for c by simp
  show ?thesis unfolding found close_at_def by (simp split: option.split)
qed

lemma priced_iff: "regular leg \<Longrightarrow> t \<in> set (priced_stamps leg) \<longleftrightarrow> close_at leg t \<noteq> None"
  using close_at_mem [of leg t] by (force simp: priced_stamps_def)

lemma priced_stamp: "t \<in> set (priced_stamps leg) \<Longrightarrow> t \<in> set (fst leg)"
  by (auto simp: priced_stamps_def dest: set_zip_leftD)

text \<open>A series on a longer calendar of distinct stamps has the closes it had, and no others.\<close>

lemma aligned_leg:
  assumes "distinct cal"
  shows "regular (cal, map f cal)"
    and "close_at (cal, map f cal) t = (if t \<in> set cal then f t else None)"
proof -
  show r: "regular (cal, map f cal)" using assms by (simp add: regular_def)
  have "(t, c) \<in> set (zip cal (map f cal)) \<longleftrightarrow> t \<in> set cal \<and> c = f t" for c
    by (auto simp: zip_map2 zip_same_conv_map)
  with close_at_mem [OF r, of t] show "close_at (cal, map f cal) t = (if t \<in> set cal then f t else None)"
    by (cases "close_at (cal, map f cal) t"; cases "f t") auto
qed

text \<open>One grid of a raw map of series, as the cycle passes it to the contraction.\<close>

definition grid_of :: "raw_series \<Rightarrow> int \<Rightarrow> (string \<times> leg_series) list" where
  "grid_of raw interval = map (\<lambda>(symbol, key). (symbol, the (map_of raw (symbol, interval)))) PAIR_KEYS"

lemma model_in_pairs: "set MODEL_SYMBOLS \<subseteq> set (map fst PAIR_KEYS)" "map fst PAIR_KEYS = BASKET"
  by code_simp+

lemma select_cong:
  assumes "\<And>s. s \<in> set MODEL_SYMBOLS \<Longrightarrow> map_of A s \<noteq> None" and "\<And>s. s \<in> set MODEL_SYMBOLS \<Longrightarrow> map_of B s \<noteq> None"
    and "\<And>s t. s \<in> set MODEL_SYMBOLS \<Longrightarrow> close_at (the (map_of A s)) t = close_at (the (map_of B s)) t"
    and "\<And>s t. s \<in> set MODEL_SYMBOLS \<Longrightarrow> t \<in> set (priced_stamps (the (map_of A s))) \<longleftrightarrow> t \<in> set (priced_stamps (the (map_of B s)))"
  shows "select_model_inputs A = select_model_inputs B"
proof -
  let ?cal = "\<lambda>C. sort (remdups (concat (map (priced_stamps \<circ> snd) (map (\<lambda>s. (s, the (map_of C s))) MODEL_SYMBOLS))))"
  have "set (concat (map (priced_stamps \<circ> snd) (map (\<lambda>s. (s, the (map_of A s))) MODEL_SYMBOLS))) =
      set (concat (map (priced_stamps \<circ> snd) (map (\<lambda>s. (s, the (map_of B s))) MODEL_SYMBOLS)))"
    unfolding set_concat set_map image_image comp_def snd_conv using assms(4) by blast
  then have cal: "?cal A = ?cal B" by (simp only: sorted_list_of_set_sort_remdups [symmetric])
  have "map (\<lambda>(s, leg). (base_of s, map (close_at leg) U)) (map (\<lambda>s. (s, the (map_of A s))) MODEL_SYMBOLS) =
      map (\<lambda>(s, leg). (base_of s, map (close_at leg) U)) (map (\<lambda>s. (s, the (map_of B s))) MODEL_SYMBOLS)" for U
    unfolding map_map by (rule map_cong [OF refl]) (auto intro!: map_cong [OF refl] assms(3))
  moreover have "list_ex (\<lambda>s. map_of A s = None) MODEL_SYMBOLS = False" "list_ex (\<lambda>s. map_of B s = None) MODEL_SYMBOLS = False"
    using assms(1,2) by (auto simp: list_ex_iff)
  ultimately show ?thesis unfolding select_model_inputs_def Let_def cal by simp
qed

text \<open>
  Whatever the store holds, the builder gets the same grid from the journaled series, aligned on the calendar of all
  twelve pairs, as from the raw ones: a stamp only a bitcoin leg has shifts no window of the model.
\<close>

theorem select_model_inputs_idempotent:
  assumes "\<And>symbol leg. map_of raw (symbol, interval) = Some leg \<Longrightarrow> regular leg"
    and "union_align raw interval = Inr (cal, prices)"
  shows "select_model_inputs (map (\<lambda>(symbol, closes). (symbol, (cal, closes))) prices) =
    select_model_inputs (grid_of raw interval)"
proof -
  from assms(2) have cal: "cal = sort (remdups (concat (map (fst \<circ> snd) (filter (\<lambda>x. snd (fst x) = interval) raw))))"
    by (auto simp: union_align_def Let_def rbind_Inr_iff)
  have "set (fst leg) \<subseteq> set cal" if "map_of raw (symbol, interval) = Some leg" for symbol leg
    unfolding cal using map_of_SomeD [OF that] by (auto intro!: bexI [of _ "((symbol, interval), leg)"])
  with cal have shared: "distinct cal" "\<And>symbol leg. map_of raw (symbol, interval) = Some leg \<Longrightarrow> set (fst leg) \<subseteq> set cal"
    by simp_all
  from assms(2) have legs: "list_all2 (\<lambda>symbol p. \<exists>leg. map_of raw (symbol, interval) = Some leg \<and>
      p = (symbol, map (close_at leg) cal)) (map fst PAIR_KEYS) prices"
    by (auto simp: union_align_def Let_def rbind_Inr_iff rmap_Inr_iff elim!: list_all2_mono split: option.splits)
  let ?A = "map (\<lambda>(symbol, closes). (symbol, (cal, closes))) prices" and ?B = "grid_of raw interval"
  have pair: "\<exists>leg. map_of ?B s = Some leg \<and> map_of ?A s = Some (cal, map (close_at leg) cal) \<and> regular leg \<and>
      set (fst leg) \<subseteq> set cal" if s: "s \<in> set (map fst PAIR_KEYS)" for s
  proof -
    have A: "s \<in> set ks \<Longrightarrow> list_all2 (\<lambda>symbol p. \<exists>leg. map_of raw (symbol, interval) = Some leg \<and>
        p = (symbol, map (close_at leg) cal)) ks ps \<Longrightarrow> \<exists>leg. map_of raw (s, interval) = Some leg \<and>
        map_of (map (\<lambda>(symbol, closes). (symbol, (cal, closes))) ps) s = Some (cal, map (close_at leg) cal)" for ks ps
      by (induction ks arbitrary: ps) (auto simp: list_all2_Cons1)
    have B: "s \<in> fst ` set xs \<Longrightarrow> map_of (map (\<lambda>(symbol, key). (symbol, the (map_of raw (symbol, interval)))) xs) s =
        Some (the (map_of raw (s, interval)))" for xs :: "(string \<times> string) list"
      by (induction xs) auto
    from A [OF s legs] obtain leg where leg: "map_of raw (s, interval) = Some leg"
      "map_of ?A s = Some (cal, map (close_at leg) cal)" by blast
    have "map_of ?B s = Some leg" unfolding grid_of_def using B [of PAIR_KEYS] s leg(1) by simp
    with leg assms(1) [OF leg(1)] shared(2) [OF leg(1)] show ?thesis by blast
  qed
  have same: "close_at (the (map_of ?A s)) t = close_at (the (map_of ?B s)) t" and present: "map_of ?A s \<noteq> None" "map_of ?B s \<noteq> None"
    and priced: "t \<in> set (priced_stamps (the (map_of ?A s))) \<longleftrightarrow> t \<in> set (priced_stamps (the (map_of ?B s)))"
    if s: "s \<in> set MODEL_SYMBOLS" for s t
  proof -
    from pair [of s] s model_in_pairs(1) obtain leg where leg: "map_of ?B s = Some leg"
      "map_of ?A s = Some (cal, map (close_at leg) cal)" "regular leg" "set (fst leg) \<subseteq> set cal" by blast
    have out: "close_at leg t = None" if "t \<notin> set cal"
      using that leg(4) priced_iff [OF leg(3), of t] priced_stamp [of t leg] by blast
    show "close_at (the (map_of ?A s)) t = close_at (the (map_of ?B s)) t"
      using out by (simp add: leg aligned_leg [OF shared(1)])
    then show "t \<in> set (priced_stamps (the (map_of ?A s))) \<longleftrightarrow> t \<in> set (priced_stamps (the (map_of ?B s)))"
      by (simp add: leg priced_iff [OF leg(3)] priced_iff [OF aligned_leg(1) [OF shared(1)]])
    show "map_of ?A s \<noteq> None" "map_of ?B s \<noteq> None" by (simp_all add: leg)
  qed
  show ?thesis by (rule select_cong) (rule present same priced, assumption)+
qed

end
