(* ===== verification/Concordance.thy ===== *)
theory Concordance imports ModelInputs CycleRecord
begin

text \<open>
  \<open>cli/engine/concordance.py\<close>: a journaled cycle replayed through the builder from the snapshots it names, its
  targets compared with the journaled ones, and the gate over complete UTC days. The builders and the digest are
  parameters; a snapshot is read as stamps in microseconds since the epoch, what its UTC column holds.
\<close>

section \<open>The content hash\<close>

text \<open>The words \<open>struct.pack\<close> writes, eight bytes each.\<close>

datatype hash_word = Q int | D pyfloat

definition epoch_seconds :: "int \<Rightarrow> int" where
  "epoch_seconds t = (case total_seconds t of Fin x \<Rightarrow> if 0 \<le> x then \<lfloor>x\<rfloor> else \<lceil>x\<rceil> | _ \<Rightarrow> 0)"

definition snapshot_content_hash :: "(hash_word list \<Rightarrow> string) \<Rightarrow> leg_series \<Rightarrow> string res" where
  "snapshot_content_hash sha leg =
     (if length (fst leg) \<noteq> length (snd leg) then journal_error ''length mismatch''
      else Inr (sha (map (Q \<circ> epoch_seconds) (fst leg) @ map (\<lambda>c. D (case c of None \<Rightarrow> NaN | Some x \<Rightarrow> x)) (snd leg))))"

section \<open>The replay\<close>

type_synonym model_grid = "int list \<times> grid_prices"

record build_result =
  br_periods :: nat
  br_targets :: "(string \<times> pyfloat list) list"

type_synonym builder = "model_grid \<Rightarrow> model_grid \<Rightarrow> build_result res"

type_synonym snapshot_reader = "snapshot_entry \<Rightarrow> leg_series res"

record replay_env =
  rv_sha :: "hash_word list \<Rightarrow> string"
  rv_fast :: builder
  rv_verified :: builder

text \<open>A snapshot against its own entry: its hash first, then its bars and its ends.\<close>

definition read_snapshot_of :: "replay_env \<Rightarrow> snapshot_reader \<Rightarrow> snapshot_entry \<Rightarrow> ((string \<times> string) \<times> leg_series) res" where
  "read_snapshot_of V reader e =
     rbind (reader e) (\<lambda>leg. rbind (snapshot_content_hash (rv_sha V) leg) (\<lambda>h.
       if JStr h \<noteq> se_hash e then Inl (HashMismatchError ''content hash mismatch'')
       else if \<not> eq_int (se_n_bars e) (int (length (fst leg))) then journal_error ''read data disagrees with its own journaled metadata''
       else if fst leg = [] then Inl IndexError
       else if \<not> dt_eq (utc (hd (fst leg))) (se_first_ts e) \<or> \<not> dt_eq (utc (last (fst leg))) (se_last_ts e)
         then journal_error ''read data disagrees with its own journaled metadata''
       else Inr ((text_of (se_grid e), text_of (se_pair e)), leg)))"

definition legs_on :: "string \<Rightarrow> ((string \<times> string) \<times> leg_series) list \<Rightarrow> (string \<times> leg_series) list" where
  "legs_on grid read = map (\<lambda>((g, p), leg). (p, leg)) (filter (\<lambda>((g, p), leg). g = grid) read)"

text \<open>One calendar per grid: \<open>None\<close> while no leg has given one.\<close>

fun assemble :: "int list option \<Rightarrow> (string \<times> leg_series) list \<Rightarrow> (int list option \<times> grid_prices) res" where
  "assemble shared [] = Inr (shared, [])"
| "assemble shared ((p, leg) # legs) =
     (if shared \<noteq> None \<and> shared \<noteq> Some (fst leg) then journal_error ''ts calendar disagrees with the shared calendar of the grid''
      else rbind (assemble (Some (fst leg)) legs) (\<lambda>(cal, prices). Inr (cal, (p, snd leg) # prices)))"

definition newest_targets :: "build_result \<Rightarrow> (string \<times> pyfloat) list res" where
  "newest_targets b = rmap (\<lambda>(asset, xs). if br_periods b < length xs then Inr (asset, xs ! br_periods b) else Inl IndexError) (br_targets b)"

definition build_by :: "replay_env \<Rightarrow> string \<Rightarrow> builder" where
  "build_by V path daily h4 =
     (if path = ''fast'' then rv_fast V daily h4
      else if path = ''verified'' then rv_verified V daily h4
      else Inl (EngineError ''path must be fast or verified''))"

definition replay_cycle :: "replay_env \<Rightarrow> snapshot_reader \<Rightarrow> string \<Rightarrow> cycle_record \<Rightarrow> (string \<times> pyfloat) list res" where
  "replay_cycle V reader path r =
     rbind (validate_record r) (\<lambda>_. rbind (rmap (read_snapshot_of V reader) (cy_snapshots r)) (\<lambda>read.
       let daily_legs = legs_on ''1440'' read; h4_legs = legs_on ''240'' read in
       rbind (assemble None daily_legs) (\<lambda>(daily_ts, daily_prices). rbind (assemble None h4_legs) (\<lambda>(h4_ts, h4_prices).
         case (daily_ts, h4_ts) of
           (Some daily_cal, Some h4_cal) \<Rightarrow>
             if h4_cal = [] then Inl IndexError
             else if \<not> dt_eq (utc (last h4_cal)) (dt_add (cy_ts r) (- 4 * hour_us))
               then journal_error ''the grid of the builder does not contain the cycle_ts interval''
             else if eq_int (cy_schema r) 1
               then rbind (build_by V path (daily_cal, daily_prices) (h4_cal, h4_prices)) newest_targets
             else rbind (select_model_inputs daily_legs) (\<lambda>daily. rbind (select_model_inputs h4_legs) (\<lambda>h4.
               rbind (rbind (build_by V path daily h4) newest_targets) expand_to_basket))
         | _ \<Rightarrow> Inl TypeError))))"

section \<open>The comparison\<close>

record compare_result =
  cr_passed :: bool
  cr_worst :: "json option"
  cr_diff :: pyfloat
  cr_structural :: bool

definition COMPARE_TOL :: pyfloat where "COMPARE_TOL = fround (1 / 1000000)"

definition replayed_dict :: "(string \<times> pyfloat) list \<Rightarrow> pairs" where
  "replayed_dict ts = map (\<lambda>(k, x). (JStr k, JFloat x)) ts"

text \<open>\<open>abs(a[asset] - b[asset])\<close>, and \<open>max\<close> by it: a later key only where it is greater.\<close>

definition target_diff :: "pairs \<Rightarrow> pairs \<Rightarrow> json \<Rightarrow> pyfloat res" where
  "target_diff a b k =
     (case (map_of a k, map_of b k) of
        (Some x, Some y) \<Rightarrow> rbind (to_float x) (\<lambda>u. rbind (to_float y) (\<lambda>v. Inr (fabs (fsub u v))))
      | _ \<Rightarrow> Inl KeyError)"

definition worst_of :: "(json \<times> pyfloat) \<Rightarrow> (json \<times> pyfloat) list \<Rightarrow> json \<times> pyfloat" where
  "worst_of d ds = fold (\<lambda>x best. if flt (snd best) (snd x) then x else best) ds d"

definition judge :: "pyfloat \<Rightarrow> (json \<times> pyfloat) list \<Rightarrow> compare_result" where
  "judge tol ds =
     (case ds of [] \<Rightarrow> \<lparr>cr_passed = True, cr_worst = None, cr_diff = Fin 0, cr_structural = False\<rparr>
      | d # ds' \<Rightarrow> let (k, w) = worst_of d ds' in
          \<lparr>cr_passed = fle w tol, cr_worst = Some k, cr_diff = w, cr_structural = False\<rparr>)"

definition compare_targets :: "pairs \<Rightarrow> pairs \<Rightarrow> pyfloat \<Rightarrow> compare_result res" where
  "compare_targets a b tol =
     (if set (map fst a) \<noteq> set (map fst b) then Inr \<lparr>cr_passed = False, cr_worst = None, cr_diff = NaN, cr_structural = True\<rparr>
      else rbind (rmap (\<lambda>k. rbind (target_diff a b k) (\<lambda>d. Inr (k, d))) (map fst a)) (\<lambda>ds. Inr (judge tol ds)))"

section \<open>The gate\<close>

record cycle_outcome =
  co_ts :: dt
  co_completed_at :: dt
  co_passed :: bool
  co_mismatch :: bool
  co_invalid :: bool

record gate_status =
  gs_streak :: nat
  gs_met :: bool
  gs_last_failure :: "(dt \<times> string) option"

definition CYCLE_HOURS :: "int list" where "CYCLE_HOURS = [0, 4, 8, 12, 16, 20]"
definition FRESHNESS_WINDOW :: int where "FRESHNESS_WINDOW = 30 * minute_us"
definition GATE_STREAK_DAYS :: nat where "GATE_STREAK_DAYS = 14"

text \<open>A dictionary by cycle, where a second outcome of a cycle raises.\<close>

definition outcome_at :: "cycle_outcome list \<Rightarrow> dt \<Rightarrow> cycle_outcome option" where
  "outcome_at es t = first_of (\<lambda>e. dt_eq (co_ts e) t) es"

fun index_outcomes :: "cycle_outcome list \<Rightarrow> cycle_outcome list \<Rightarrow> cycle_outcome list res" where
  "index_outcomes seen [] = Inr seen"
| "index_outcomes seen (e # es) =
     (if outcome_at seen (co_ts e) \<noteq> None then journal_error ''duplicate CycleOutcome''
      else index_outcomes (seen @ [e]) es)"

fun min_dt :: "dt \<Rightarrow> dt list \<Rightarrow> dt res" where
  "min_dt m [] = Inr m"
| "min_dt m (t # ts) = rbind (dt_lt t m) (\<lambda>less. min_dt (if less then t else m) ts)"

definition at_hour :: "dt \<Rightarrow> int \<Rightarrow> int \<Rightarrow> dt" where
  "at_hour now day hour = \<lparr>wall = day * day_us + hour * hour_us, off = off now\<rparr>"

definition day_boundaries :: "dt \<Rightarrow> int \<Rightarrow> dt list" where
  "day_boundaries now day = map (at_hour now day) CYCLE_HOURS"

definition closed_day :: "dt \<Rightarrow> int \<Rightarrow> bool" where
  "closed_day now day \<longleftrightarrow> instant (dt_add (at_hour now day 20) FRESHNESS_WINDOW) \<le> instant now"

definition evaluable_days :: "dt \<Rightarrow> cycle_outcome list \<Rightarrow> dt \<Rightarrow> int list" where
  "evaluable_days first es now =
     (let start = (if dt_hour first \<noteq> 0 then dt_day first + 1 else dt_day first);
          upper = fold max (map (dt_day \<circ> co_ts) es) (dt_day now) in
      takeWhile (closed_day now) [start..upper])"

definition boundary_break :: "cycle_outcome list \<Rightarrow> dt \<Rightarrow> string option res" where
  "boundary_break es b =
     (case outcome_at es b of
        None \<Rightarrow> Inr (Some ''missing cycle'')
      | Some e \<Rightarrow>
          if co_invalid e then Inr (Some ''validation failed (schema / boundary invariant)'')
          else if co_mismatch e then Inr (Some ''hash mismatch (corrupt evidence)'')
          else rbind (dt_le b (co_completed_at e)) (\<lambda>after.
            rbind (if after then dt_le (co_completed_at e) (dt_add b FRESHNESS_WINDOW) else Inr False) (\<lambda>fresh.
              if \<not> fresh then Inr (Some ''late cycle (outside the 30-minute freshness window)'')
              else if \<not> co_passed e then Inr (Some ''compare mismatch'')
              else Inr None)))"

fun day_break :: "cycle_outcome list \<Rightarrow> dt list \<Rightarrow> (dt \<times> string) option res" where
  "day_break es [] = Inr None"
| "day_break es (b # bs) =
     rbind (boundary_break es b) (\<lambda>why. case why of Some w \<Rightarrow> Inr (Some (b, w)) | None \<Rightarrow> day_break es bs)"

fun walk_days :: "cycle_outcome list \<Rightarrow> dt \<Rightarrow> int list \<Rightarrow> nat \<Rightarrow> (dt \<times> string) option \<Rightarrow> (nat \<times> (dt \<times> string) option) res" where
  "walk_days es now [] streak failure = Inr (streak, failure)"
| "walk_days es now (d # ds) streak failure =
     rbind (day_break es (day_boundaries now d)) (\<lambda>broken.
       case broken of None \<Rightarrow> walk_days es now ds (streak + 1) failure
       | Some f \<Rightarrow> walk_days es now ds 0 (Some f))"

definition evaluate_gate :: "cycle_outcome list \<Rightarrow> dt \<Rightarrow> gate_status res" where
  "evaluate_gate es now =
     (case es of
        [] \<Rightarrow> Inr \<lparr>gs_streak = 0, gs_met = False, gs_last_failure = None\<rparr>
      | e # rest \<Rightarrow>
          rbind (index_outcomes [] es) (\<lambda>_. rbind (min_dt (co_ts e) (map co_ts rest)) (\<lambda>first.
            rbind (walk_days es now (evaluable_days first es now) 0 None) (\<lambda>(streak, failure).
              Inr \<lparr>gs_streak = streak, gs_met = (GATE_STREAK_DAYS \<le> streak), gs_last_failure = failure\<rparr>))))"

section \<open>The outcome of a record\<close>

definition outcome_of :: "cycle_record \<Rightarrow> cycle_outcome" where
  "outcome_of r = \<lparr>co_ts = cy_ts r, co_completed_at = cy_completed_at r, co_passed = True, co_mismatch = False, co_invalid = False\<rparr>"

text \<open>\<open>_replay_one\<close> of \<open>command.py\<close>.\<close>

definition replay_one :: "replay_env \<Rightarrow> snapshot_reader \<Rightarrow> cycle_record \<Rightarrow> cycle_outcome res" where
  "replay_one V reader r =
     (case replay_cycle V reader ''fast'' r of
        Inl e \<Rightarrow>
          (case e of
             HashMismatchError _ \<Rightarrow> Inr (outcome_of r\<lparr>co_mismatch := True\<rparr>)
           | EngineJournalError _ \<Rightarrow> Inr (outcome_of r\<lparr>co_invalid := True\<rparr>)
           | _ \<Rightarrow> Inl e)
      | Inr replayed \<Rightarrow> rbind (compare_targets (cy_targets r) (replayed_dict replayed) COMPARE_TOL) (\<lambda>v.
          Inr (outcome_of r\<lparr>co_passed := cr_passed v\<rparr>)))"

section \<open>What the comparison decides\<close>

lemma rbind_InrE: "rbind r f = Inr b \<Longrightarrow> (\<And>a. r = Inr a \<Longrightarrow> f a = Inr b \<Longrightarrow> P) \<Longrightarrow> P"
  by (cases r) auto

lemma fle_chain: "fle x y \<Longrightarrow> fle y z \<Longrightarrow> fle x z"
  by (cases x; cases y; cases z) (auto simp: fle_def feq_def)

lemma worst_bound:
  assumes "\<forall>d \<in> set (d # ds). snd d \<noteq> NaN"
  shows "worst_of d ds \<in> set (d # ds)" and "\<forall>x \<in> set (d # ds). fle (snd x) (snd (worst_of d ds))"
proof -
  have "worst_of d ds \<in> set (d # ds) \<and> (\<forall>x \<in> set (d # ds). fle (snd x) (snd (worst_of d ds)))"
    using assms
  proof (induction ds arbitrary: d)
    case Nil
    then show ?case by (simp add: worst_of_def fle_def feq_def)
  next
    case (Cons x ds)
    let ?m = "if flt (snd d) (snd x) then x else d"
    have step: "worst_of d (x # ds) = worst_of ?m ds" by (simp add: worst_of_def)
    have "\<forall>d \<in> set (?m # ds). snd d \<noteq> NaN" using Cons.prems by auto
    from Cons.IH [OF this] have ih: "worst_of ?m ds \<in> set (?m # ds)" "\<forall>y \<in> set (?m # ds). fle (snd y) (snd (worst_of ?m ds))"
      by blast+
    have "fle (snd d) (snd ?m)" "fle (snd x) (snd ?m)"
      using Cons.prems by (cases "snd d"; cases "snd x"; auto simp: fle_def feq_def)+
    moreover have "fle (snd ?m) (snd (worst_of ?m ds))" using ih(2) by simp
    ultimately have "fle (snd d) (snd (worst_of ?m ds))" "fle (snd x) (snd (worst_of ?m ds))" using fle_chain by blast+
    with ih show ?case unfolding step by (auto split: if_splits)
  qed
  then show "worst_of d ds \<in> set (d # ds)" "\<forall>x \<in> set (d # ds). fle (snd x) (snd (worst_of d ds))" by blast+
qed

text \<open>Two sets of targets agree exactly where they name the same assets and no difference is above the tolerance.\<close>

theorem compare_passes_iff:
  assumes "compare_targets a b tol = Inr v" and "\<And>k d. target_diff a b k = Inr d \<Longrightarrow> d \<noteq> NaN"
  shows "cr_passed v \<longleftrightarrow> set (map fst a) = set (map fst b) \<and>
    (\<forall>k \<in> set (map fst a). \<exists>d. target_diff a b k = Inr d \<and> fle d tol)"
proof (cases "set (map fst a) = set (map fst b)")
  case False
  with assms(1) show ?thesis by (auto simp: compare_targets_def)
next
  case True
  with assms(1) have "rbind (rmap (\<lambda>k. rbind (target_diff a b k) (\<lambda>d. Inr (k, d))) (map fst a)) (\<lambda>ds. Inr (judge tol ds)) = Inr v"
    by (simp add: compare_targets_def)
  then obtain ds where ds: "list_all2 (\<lambda>k d. rbind (target_diff a b k) (\<lambda>d. Inr (k, d)) = Inr d) (map fst a) ds"
    and v: "v = judge tol ds"
    unfolding rmap_Inr_iff [symmetric] by (rule rbind_InrE) simp
  have pairs: "list_all2 (\<lambda>k d. fst d = k \<and> target_diff a b k = Inr (snd d)) (map fst a) ds"
    using ds by (rule list_all2_mono) (auto simp: rbind_Inr_iff)
  have into: "\<exists>d \<in> set ds. fst d = k \<and> target_diff a b k = Inr (snd d)" if "k \<in> set (map fst a)" for k
    using pairs that unfolding list_all2_conv_all_nth in_set_conv_nth by (metis nth_mem)
  have out: "fst d \<in> set (map fst a) \<and> target_diff a b (fst d) = Inr (snd d)" if "d \<in> set ds" for d
    using pairs that unfolding list_all2_conv_all_nth in_set_conv_nth by (metis length_map nth_mem)
  show ?thesis
  proof (cases ds)
    case Nil
    then have "a = []" using pairs by simp
    with True v Nil show ?thesis by (simp add: judge_def)
  next
    case (Cons d ds')
    have "\<forall>x \<in> set (d # ds'). snd x \<noteq> NaN" using out assms(2) Cons by blast
    note w = worst_bound [OF this]
    have "cr_passed v \<longleftrightarrow> fle (snd (worst_of d ds')) tol" using v Cons by (simp add: judge_def split: prod.split)
    also have "\<dots> \<longleftrightarrow> (\<forall>x \<in> set ds. fle (snd x) tol)" using w Cons fle_chain by metis
    also have "\<dots> \<longleftrightarrow> (\<forall>k \<in> set (map fst a). \<exists>d. target_diff a b k = Inr d \<and> fle d tol)"
      using into out by (metis Inr_inject)
    finally show ?thesis using True by (simp only: simp_thms)
  qed
qed

section \<open>What the gate counts\<close>

text \<open>A boundary is clean where its cycle landed in the window with a trustworthy passing comparison.\<close>

definition clean_boundary :: "cycle_outcome list \<Rightarrow> dt \<Rightarrow> bool" where
  "clean_boundary es b \<longleftrightarrow> (\<exists>e \<in> set es. dt_eq (co_ts e) b \<and> \<not> co_invalid e \<and> \<not> co_mismatch e \<and> co_passed e \<and>
     dt_le b (co_completed_at e) = Inr True \<and> dt_le (co_completed_at e) (dt_add b FRESHNESS_WINDOW) = Inr True)"

definition clean_day :: "cycle_outcome list \<Rightarrow> dt \<Rightarrow> int \<Rightarrow> bool" where
  "clean_day es now day \<longleftrightarrow> (\<forall>hour \<in> set CYCLE_HOURS. clean_boundary es (at_hour now day hour))"

definition gate_days :: "cycle_outcome list \<Rightarrow> dt \<Rightarrow> int list" where
  "gate_days es now = (case map co_ts es of [] \<Rightarrow> []
     | t # ts \<Rightarrow> (case min_dt t ts of Inl _ \<Rightarrow> [] | Inr first \<Rightarrow> evaluable_days first es now))"

definition one_each :: "cycle_outcome list \<Rightarrow> bool" where
  "one_each es \<longleftrightarrow> distinct es \<and> (\<forall>e \<in> set es. \<forall>f \<in> set es. dt_eq (co_ts e) (co_ts f) \<longrightarrow> e = f)"

lemma outcome_at_None: "outcome_at es t = None \<longleftrightarrow> (\<forall>e \<in> set es. \<not> dt_eq (co_ts e) t)"
  by (auto simp: outcome_at_def find_None_iff)

lemma outcome_at_Some: "outcome_at es t = Some e \<Longrightarrow> e \<in> set es \<and> dt_eq (co_ts e) t"
  by (auto simp: outcome_at_def find_Some_iff)

lemma dt_eq_sym: "dt_eq a b \<longleftrightarrow> dt_eq b a"
  by (auto simp: dt_eq_def comparable_def)

lemma dt_eq_trans: "dt_eq a b \<Longrightarrow> dt_eq b c \<Longrightarrow> dt_eq a c"
  by (auto simp: dt_eq_def comparable_def)

lemma dt_eq_refl [simp]: "dt_eq a a"
  by (simp add: dt_eq_def comparable_def)

lemma index_outcomes_one_each:
  "index_outcomes seen es = Inr all \<Longrightarrow> one_each seen \<Longrightarrow> all = seen @ es \<and> one_each all"
proof (induction seen es rule: index_outcomes.induct)
  case (2 seen e es)
  from "2.prems"(1) have fresh: "\<forall>f \<in> set seen. \<not> dt_eq (co_ts f) (co_ts e)" and rest: "index_outcomes (seen @ [e]) es = Inr all"
    by (auto simp: journal_error_def outcome_at_None split: if_splits)
  from fresh have "e \<notin> set seen" by auto
  with fresh "2.prems"(2) dt_eq_sym have "one_each (seen @ [e])" by (auto simp: one_each_def)
  with "2.IH" rest fresh show ?case by (auto simp: journal_error_def outcome_at_None)
qed simp

lemma boundary_break_None:
  assumes "one_each es"
  shows "boundary_break es b = Inr None \<longleftrightarrow> clean_boundary es b"
proof (cases "outcome_at es b")
  case None
  then have "\<not> clean_boundary es b" by (auto simp: clean_boundary_def outcome_at_None)
  with None show ?thesis by (simp add: boundary_break_def)
next
  case (Some e)
  then have e: "e \<in> set es" "dt_eq (co_ts e) b" using outcome_at_Some by auto
  have "f = e" if "f \<in> set es" "dt_eq (co_ts f) b" for f
    using that e assms dt_eq_sym dt_eq_trans unfolding one_each_def by meson
  with e have "clean_boundary es b \<longleftrightarrow> \<not> co_invalid e \<and> \<not> co_mismatch e \<and> co_passed e \<and>
     dt_le b (co_completed_at e) = Inr True \<and> dt_le (co_completed_at e) (dt_add b FRESHNESS_WINDOW) = Inr True"
    unfolding clean_boundary_def by metis
  then show ?thesis by (auto simp: boundary_break_def Some rbind_Inr_iff split: if_splits)
qed

lemma day_break_None: "one_each es \<Longrightarrow> day_break es bs = Inr None \<longleftrightarrow> (\<forall>b \<in> set bs. clean_boundary es b)"
  by (induction bs) (auto simp: rbind_Inr_iff boundary_break_None [symmetric] split: option.splits)

lemma walk_days_streak:
  assumes "one_each es" and "walk_days es now ds s f = Inr (k, f')"
  shows "k = (if \<forall>d \<in> set ds. clean_day es now d then s + length ds else length (takeWhile (clean_day es now) (rev ds)))"
  using assms(2)
proof (induction ds arbitrary: s f)
  case (Cons d ds)
  from Cons.prems obtain broken where b: "day_break es (day_boundaries now d) = Inr broken"
    and rest: "(case broken of None \<Rightarrow> walk_days es now ds (s + 1) f | Some g \<Rightarrow> walk_days es now ds 0 (Some g)) = Inr (k, f')"
    unfolding walk_days.simps rbind_Inr_iff by blast
  have clean: "clean_day es now d \<longleftrightarrow> broken = None"
    using day_break_None [OF assms(1), of "day_boundaries now d"] b by (simp add: clean_day_def day_boundaries_def)
  show ?case
  proof (cases broken)
    case None
    with rest Cons.IH clean show ?thesis by (fastforce simp: takeWhile_append)
  next
    case (Some g)
    with rest Cons.IH [of 0 "Some g"] clean show ?thesis
      by (auto simp: takeWhile_append takeWhile_eq_all_conv [THEN iffD2])
  qed
qed simp

lemma takeWhile_length_iff: "n \<le> length (takeWhile P xs) \<longleftrightarrow> n \<le> length xs \<and> (\<forall>k < n. P (xs ! k))"
proof (induction xs arbitrary: n)
  case (Cons x xs)
  show ?case
  proof (cases n)
    case (Suc m)
    then show ?thesis using Cons.IH [of m] by (auto simp: less_Suc_eq_0_disj)
  qed simp
qed auto

lemma evaluable_days_run:
  assumes "evaluable_days first es now = ds" and "k < length ds"
  shows "rev ds ! k = last ds - int k" and "closed_day now (rev ds ! k)"
proof -
  obtain a b where ds: "ds = takeWhile (closed_day now) [a..b]"
    using assms(1) unfolding evaluable_days_def Let_def by metis
  have nth: "ds ! i = a + int i" if "i < length ds" for i
    using that unfolding ds by (metis less_le_trans length_takeWhile_le nth_upto length_upto takeWhile_nth
        add_le_cancel_left diff_add_cancel int_nat_eq nat_less_iff not_less of_nat_less_iff zless_nat_eq_int_zless add.commute
        zle_add1_eq_le diff_ge_0_iff_ge nat_int)
  have "rev ds ! k = a + int (length ds - 1 - k)" using nth assms(2) by (simp add: rev_nth)
  moreover have "last ds = a + int (length ds - 1)" using nth [of "length ds - 1"] assms(2) by (subst last_conv_nth) (auto simp: of_nat_diff)
  ultimately show "rev ds ! k = last ds - int k" using assms(2) by simp
  have "rev ds ! k \<in> set ds" using assms(2) by (metis length_rev nth_mem set_rev)
  then show "closed_day now (rev ds ! k)" unfolding ds by (rule set_takeWhileD [THEN conjunct2])
qed

text \<open>
  The gate is met exactly when the last fourteen days whose freshness window has elapsed are fourteen consecutive days
  with every boundary clean: a missing, late, invalid, corrupt or disagreeing cycle in any of them keeps it shut.
\<close>

theorem gate_met_iff:
  assumes "evaluate_gate es now = Inr g"
  shows "gs_met g \<longleftrightarrow> (let ds = gate_days es now in ds \<noteq> [] \<and>
    (\<forall>k < GATE_STREAK_DAYS. last ds - int k \<in> set ds \<and> clean_day es now (last ds - int k)))"
proof (cases es)
  case Nil
  with assms show ?thesis by (auto simp: evaluate_gate_def gate_days_def)
next
  case (Cons e rest)
  from assms [unfolded evaluate_gate_def Cons list.case] obtain all first streak failure
    where idx: "index_outcomes [] es = Inr all" and first: "min_dt (co_ts e) (map co_ts rest) = Inr first"
      and walk: "walk_days es now (evaluable_days first es now) 0 None = Inr (streak, failure)"
      and g: "g = \<lparr>gs_streak = streak, gs_met = (GATE_STREAK_DAYS \<le> streak), gs_last_failure = failure\<rparr>"
    unfolding Cons by (auto elim!: rbind_InrE)
  define ds where "ds = evaluable_days first es now"
  have days: "gate_days es now = ds" by (simp add: gate_days_def Cons first ds_def)
  have one: "one_each es" using index_outcomes_one_each [OF idx] by (auto simp: one_each_def)
  have streak: "streak = length (takeWhile (clean_day es now) (rev ds))"
    using walk_days_streak [OF one walk] unfolding ds_def [symmetric]
    by (auto simp: takeWhile_eq_all_conv [THEN iffD2])
  have "gs_met g \<longleftrightarrow> GATE_STREAK_DAYS \<le> length ds \<and> (\<forall>k < GATE_STREAK_DAYS. clean_day es now (rev ds ! k))"
    by (simp add: g streak takeWhile_length_iff)
  also have "\<dots> \<longleftrightarrow> ds \<noteq> [] \<and> (\<forall>k < GATE_STREAK_DAYS. last ds - int k \<in> set ds \<and> clean_day es now (last ds - int k))" (is "?L \<longleftrightarrow> ?R")
  proof
    assume L: ?L
    then have "ds \<noteq> []" by (auto simp: GATE_STREAK_DAYS_def)
    moreover have "last ds - int k \<in> set ds \<and> clean_day es now (last ds - int k)" if "k < GATE_STREAK_DAYS" for k
    proof -
      have k: "k < length ds" using L that by simp
      have "rev ds ! k \<in> set ds" using k by (metis length_rev nth_mem set_rev)
      moreover have "clean_day es now (rev ds ! k)" using L that by blast
      ultimately show ?thesis by (simp only: evaluable_days_run(1) [OF ds_def [symmetric] k] simp_thms)
    qed
    ultimately show ?R by blast
  next
    assume R: ?R
    have ge: "last ds - int k \<ge> hd ds" if "k < GATE_STREAK_DAYS" for k
    proof -
      from R that obtain j where j: "j < length ds" "rev ds ! j = last ds - int k"
        by (metis in_set_conv_nth length_rev set_rev)
      have l: "length ds - 1 < length ds" using R by simp
      have "hd ds = rev ds ! (length ds - 1)" using R by (simp add: rev_nth hd_conv_nth)
      then show ?thesis using j evaluable_days_run(1) [OF ds_def [symmetric] l] evaluable_days_run(1) [OF ds_def [symmetric] j(1)] by simp
    qed
    have l: "length ds - 1 < length ds" using R by simp
    have "hd ds = rev ds ! (length ds - 1)" using R by (simp add: rev_nth hd_conv_nth)
    then have "hd ds = last ds - int (length ds - 1)" using evaluable_days_run(1) [OF ds_def [symmetric] l] by simp
    with ge [of "GATE_STREAK_DAYS - 1"] l have len: "GATE_STREAK_DAYS \<le> length ds" by (simp add: GATE_STREAK_DAYS_def)
    moreover have "clean_day es now (rev ds ! k)" if "k < GATE_STREAK_DAYS" for k
    proof -
      have "k < length ds" using that len by simp
      from evaluable_days_run(1) [OF ds_def [symmetric] this] R that show ?thesis by metis
    qed
    ultimately show ?L by blast
  qed
  finally show ?thesis by (simp add: days)
qed

end
