(* ===== verification/VenueLedger.thy ===== *)
theory VenueLedger imports VenueBook CycleRecord
begin

text \<open>
  \<open>cli/engine/venueledger.py\<close>: the record of the venue a boundary leaves, its validation, its writing and its reading.
  A venue state comes with the time it was read at.
\<close>

definition VENUE_SCHEMA_VERSION :: int where "VENUE_SCHEMA_VERSION = 2"
definition LOADABLE_VENUE_SCHEMA_VERSIONS :: "int list" where "LOADABLE_VENUE_SCHEMA_VERSIONS = [1, 2]"

definition V1_INSTRUMENT_KEYS :: "string list" where
  "V1_INSTRUMENT_KEYS = [''base'', ''instrument_id'', ''ordermin'', ''costmin'', ''lot_step'', ''tick_size'', ''costmin_source'']"

definition V2_INSTRUMENT_KEYS :: "string list" where
  "V2_INSTRUMENT_KEYS =
     [''symbol'', ''instrument_id'', ''ordermin'', ''costmin'', ''costmin_quote'', ''lot_step'', ''tick_size'', ''costmin_source'']"

definition STATE_KEYS :: "string list" where "STATE_KEYS = [''snapshot_at'', ''instruments'', ''positions'', ''balances'']"
definition CONCORDANCE_KEYS :: "string list" where "CONCORDANCE_KEYS = [''ok'', ''failures'']"

section \<open>Validation\<close>

definition obj_with :: "json \<Rightarrow> string list \<Rightarrow> bool" where
  "obj_with v ks \<longleftrightarrow> (case v of JObj d \<Rightarrow> exact_keys d ks | _ \<Rightarrow> False)"

definition venue_key_ok :: "json \<Rightarrow> string \<Rightarrow> bool" where
  "venue_key_ok schema key \<longleftrightarrow> \<not> (eq_int schema 2 \<and> \<not> is_symbol_key key) \<and> \<not> (eq_int schema 1 \<and> is_symbol_key key)"

definition validate_field :: "json \<Rightarrow> json \<Rightarrow> unit res" where
  "validate_field schema v =
     (case v of
        JObj d \<Rightarrow> for_each (\<lambda>k. require (venue_key_ok schema k) ''state key space'' (Inr ())) (dkeys d)
      | _ \<Rightarrow> journal_error ''state field must be a dict'')"

definition validate_ok_record :: "json \<Rightarrow> jdict \<Rightarrow> unit res" where
  "validate_ok_record schema doc =
     (let state = dget doc ''state''; fields = obj_of state in
      require (obj_with state STATE_KEYS) ''state keys'' (
      require (obj_with (dget doc ''concordance'') CONCORDANCE_KEYS) ''concordance keys'' (
      rbind (for_each (\<lambda>f. validate_field schema (dget fields f)) [''instruments'', ''positions'']) (\<lambda>_.
        for_each (\<lambda>(symbol, entry). require (obj_with entry (if eq_int schema 2 then V2_INSTRUMENT_KEYS else V1_INSTRUMENT_KEYS))
            ''instrument entry keys'' (Inr ())) (obj_of (dget fields ''instruments''))))))"

definition validate_venue_record :: "json \<Rightarrow> unit res" where
  "validate_venue_record v =
     (let schema = (case v of JObj doc \<Rightarrow> dget doc ''schema_version'' | _ \<Rightarrow> JNull); doc = obj_of v in
      rbind (in_int_set schema LOADABLE_VENUE_SCHEMA_VERSIONS) (\<lambda>loadable.
      require loadable ''unsupported venue schema_version'' (
      require (list_all (has_key doc) [''cycle_ts'', ''code_version'', ''status'']) ''missing required key'' (
        if dget doc ''status'' = JStr ''error'' then
          require (has_key doc ''error'') ''status error requires an error key'' (
          require (\<not> has_key doc ''state'' \<and> \<not> has_key doc ''concordance'') ''status error must not carry a state'' (Inr ()))
        else require (dget doc ''status'' = JStr ''ok'') ''status must be ok or error'' (validate_ok_record schema doc)))))"

section \<open>Writing and reading\<close>

type_synonym venue_snapshot = "dt \<times> venue_state"

definition instrument_json :: "string \<times> constraints \<Rightarrow> string \<times> json" where
  "instrument_json x = (case x of (symbol, k) \<Rightarrow> (symbol, JObj
     [(''symbol'', JStr (k_symbol k)), (''instrument_id'', JStr (instrument_id_of (k_symbol k))), (''ordermin'', JFloat (k_ordermin k)),
      (''costmin'', JFloat (k_costmin k)), (''costmin_quote'', JStr (k_costmin_quote k)), (''lot_step'', JFloat (k_lot_step k)),
      (''tick_size'', JFloat (k_tick_size k)), (''costmin_source'', JStr ''snapshot-constant'')]))"

definition floats_json :: "(string \<times> pyfloat) list \<Rightarrow> json" where
  "floats_json d = JObj (map (\<lambda>(k, x). (k, JFloat x)) d)"

definition to_payload :: "(dt \<Rightarrow> string) \<Rightarrow> venue_snapshot \<Rightarrow> json" where
  "to_payload isofmt vs = (case vs of (seen, vt) \<Rightarrow> JObj
     [(''snapshot_at'', JStr (isofmt seen)), (''instruments'', JObj (map instrument_json (vt_instruments vt))),
      (''positions'', floats_json (vt_positions vt)), (''balances'', floats_json (vt_balances vt))])"

definition venue_doc ::
  "(dt \<Rightarrow> string) \<Rightarrow> dt \<Rightarrow> venue_snapshot option \<Rightarrow> bool \<times> string list \<Rightarrow> string \<Rightarrow> string option \<Rightarrow> json res" where
  "venue_doc isofmt cycle_ts state concordance code_version error =
     (let base = [(''schema_version'', JInt VENUE_SCHEMA_VERSION), (''cycle_ts'', JStr (isofmt cycle_ts)),
                  (''code_version'', JStr code_version)] in
      case state of
        None \<Rightarrow> (case error of None \<Rightarrow> Inl ValueError
          | Some e \<Rightarrow> Inr (JObj (base @ [(''status'', JStr ''error''), (''error'', JStr e)])))
      | Some vs \<Rightarrow> Inr (JObj (base @ [(''status'', JStr ''ok''), (''state'', to_payload isofmt vs),
          (''concordance'', JObj [(''ok'', JBool (fst concordance)), (''failures'', JArr (map JStr (snd concordance)))])])))"

definition read_venue_record :: "jtext \<Rightarrow> json res" where "read_venue_record t = json_loads t"

section \<open>What is written validates\<close>

text \<open>
  Every document the writer makes of a state the cache gave, and every one it makes of a missing snapshot, is one the
  validator accepts.
\<close>

theorem written_venue_record_validates:
  assumes "venue_doc isofmt cycle_ts state concordance code_version error = Inr doc"
    and "\<And>seen vt. state = Some (seen, vt) \<Longrightarrow> \<exists>cv listed. venue_state_from_cache cv listed = Inr vt"
  shows "validate_venue_record doc = Inr ()"
proof (cases state)
  case None
  with assms(1) obtain e where "doc = JObj [(''schema_version'', JInt VENUE_SCHEMA_VERSION), (''cycle_ts'', JStr (isofmt cycle_ts)),
      (''code_version'', JStr code_version), (''status'', JStr ''error''), (''error'', JStr e)]"
    by (auto simp: venue_doc_def split: option.splits)
  then show ?thesis
    by (simp add: validate_venue_record_def in_int_set_def LOADABLE_VENUE_SCHEMA_VERSIONS_def VENUE_SCHEMA_VERSION_def
        dget_def has_key_def dkeys_def)
next
  case (Some vs)
  obtain seen vt where vs: "vs = (seen, vt)" by force
  with assms(2) Some obtain cv listed where "venue_state_from_cache cv listed = Inr vt" by blast
  then have "set (map fst (vt_instruments vt)) \<subseteq> set BASKET" "set (map fst (vt_positions vt)) \<subseteq> set BASKET"
    by (auto simp: venue_state_from_cache_def rbind_Inr_iff Let_def elim!: in_set_zipE split: option.splits)
  moreover have "\<forall>s \<in> set BASKET. is_symbol_key s" by code_simp
  ultimately have keys: "\<forall>x \<in> set (vt_instruments vt). is_symbol_key (fst x)" "\<forall>x \<in> set (vt_positions vt). is_symbol_key (fst x)"
    by auto
  have instruments: "validate_field (JInt 2) (JObj (map instrument_json (vt_instruments vt))) = Inr ()"
    using keys(1) by (auto simp: validate_field_def dkeys_def for_each_Inr_iff venue_key_ok_def instrument_json_def journal_error_def split: prod.splits)
  have positions: "validate_field (JInt 2) (floats_json (vt_positions vt)) = Inr ()"
    using keys(2) by (auto simp: validate_field_def floats_json_def dkeys_def for_each_Inr_iff venue_key_ok_def journal_error_def split: prod.splits)
  have entries: "\<forall>x \<in> set (map instrument_json (vt_instruments vt)). obj_with (snd x) V2_INSTRUMENT_KEYS"
    by (auto simp: instrument_json_def obj_with_def exact_keys_def dkeys_def V2_INSTRUMENT_KEYS_def)
  from assms(1) have doc: "doc = JObj [(''schema_version'', JInt 2), (''cycle_ts'', JStr (isofmt cycle_ts)),
      (''code_version'', JStr code_version), (''status'', JStr ''ok''), (''state'', to_payload isofmt vs),
      (''concordance'', JObj [(''ok'', JBool (fst concordance)), (''failures'', JArr (map JStr (snd concordance)))])]"
    by (simp add: venue_doc_def Some VENUE_SCHEMA_VERSION_def)
  show ?thesis
    unfolding doc using instruments positions entries
    by (auto simp: validate_venue_record_def validate_ok_record_def in_int_set_def LOADABLE_VENUE_SCHEMA_VERSIONS_def
        dget_def has_key_def dkeys_def to_payload_def vs obj_with_def exact_keys_def STATE_KEYS_def CONCORDANCE_KEYS_def
        for_each_Inr_iff split: prod.splits)
qed

end
