(* ===== verification/ShadowCycle.thy ===== *)
theory ShadowCycle imports Concordance VenueLedger
begin

text \<open>
  \<open>run_cycle\<close> of \<open>cli/engine/cycle.py\<close>: the venue's record, the refresh with its settle loop, the staleness check, the
  snapshots, the build, the intended orders and the record. A cycle is an action on the price store and the journal
  that returns or raises; a write may be refused or torn. The pings, the metrics sink and the gauges' figures (the
  sleeves' gross, whether a limit bound) decide nothing and are left out. The builder is a parameter.
\<close>

section \<open>Actions\<close>

datatype snap_file = NoSnap | BadSnap | Snap leg_series

record order_line =
  ol_asset :: string
  ol_side :: string
  ol_quantity :: pyfloat
  ol_notional :: pyfloat
  ol_price :: pyfloat

datatype order_note = FirstCycle | AcrossGap int | FromBoundary int

record order_block =
  ob_cycle :: int
  ob_previous :: "int option"
  ob_note :: order_note
  ob_orders :: "order_line list"

record sidecar =
  sc_cycle :: int
  sc_attempted :: dt
  sc_completed :: dt
  sc_reason :: string
  sc_offending :: "string list"

record cycle_world =
  cw_store :: store_world
  cw_clock :: "nat \<Rightarrow> dt"
  cw_write :: "nat \<Rightarrow> write_outcome"
  cw_day :: "int \<Rightarrow> string"
  cw_isofmt :: "dt \<Rightarrow> string"
  cw_fromiso :: "string \<Rightarrow> dt option"
  cw_code_version :: string
  cw_replay :: replay_env
  cw_nav :: pyfloat

text \<open>The directories a cycle leaves its marks in: a file that a write tore holds what nothing reads.\<close>

record cycle_state =
  cs_store :: pstate
  cs_reads :: nat
  cs_slept :: "pyfloat list"
  cs_writes :: nat
  cs_snaps :: "string \<Rightarrow> snap_file"
  cs_cycles :: "(int \<times> jtext) list"
  cs_sidecars :: "(int \<times> sidecar option) list"
  cs_orders :: "(int \<times> order_block option) list"
  cs_venue :: "(int \<times> jtext) list"

type_synonym 'a cyc = "cycle_state \<Rightarrow> 'a res \<times> cycle_state"

definition cyc_bind :: "'a cyc \<Rightarrow> ('a \<Rightarrow> 'b cyc) \<Rightarrow> 'b cyc" where
  "cyc_bind m f s = (case m s of (Inl e, t) \<Rightarrow> (Inl e, t) | (Inr a, t) \<Rightarrow> f a t)"

definition cyc_lift :: "'a res \<Rightarrow> 'a cyc" where "cyc_lift r s = (r, s)"

text \<open>A write of one file: what it leaves where it goes through, and what where it tears.\<close>

definition write_file ::
  "cycle_world \<Rightarrow> (cycle_state \<Rightarrow> cycle_state) \<Rightarrow> (cycle_state \<Rightarrow> cycle_state) \<Rightarrow> unit cyc" where
  "write_file W done_by torn_by s =
     (let s1 = s\<lparr>cs_writes := cs_writes s + 1\<rparr> in
      case cw_write W (cs_writes s) of
        Written \<Rightarrow> (Inr (), done_by s1) | write_outcome.Refused \<Rightarrow> (Inl OSError, s1) | Torn \<Rightarrow> (Inl OSError, torn_by s1))"

definition read_clock :: "cycle_world \<Rightarrow> int cyc" where
  "read_clock W s =
     (let t = cw_clock W (cs_reads s); s1 = s\<lparr>cs_reads := cs_reads s + 1\<rparr> in
      if naive t then (Inl (EngineError ''clock must return an aware-UTC datetime''), s1) else (Inr (instant t), s1))"

section \<open>The refresh and its settle loop\<close>

definition REFRESH_RESERVE :: int where "REFRESH_RESERVE = 25 * minute_us"
definition BACKOFF_INITIAL_SECS :: pyfloat where "BACKOFF_INITIAL_SECS = Fin 5"
definition BACKOFF_MAX_SECS :: pyfloat where "BACKOFF_MAX_SECS = Fin 60"

type_synonym pair_keys = "(string \<times> string) list"

definition refresh_now :: "cycle_world \<Rightarrow> pair_keys \<Rightarrow> refresh_entry list cyc" where
  "refresh_now W pending =
     cyc_bind (read_clock W) (\<lambda>now s. case refresh_store (cw_store W) now pending (cs_store s) of
       (r, p) \<Rightarrow> (r, s\<lparr>cs_store := p\<rparr>))"

text \<open>What one pass leaves pending: a transport error leaves all, a completed refresh what has not settled.\<close>

definition settle_pass :: "cycle_world \<Rightarrow> int \<Rightarrow> pair_keys \<Rightarrow> pair_keys cyc" where
  "settle_pass W cycle_ts pending s =
     (case refresh_now W pending s of
        (Inl (OHLCError e), t) \<Rightarrow> (Inr pending, t)
      | (Inl e, t) \<Rightarrow> (Inl e, t)
      | (Inr _, t) \<Rightarrow> (settle_pending (ps_legs (cs_store t)) cycle_ts, t))"

datatype 'a round = Ended 'a | Again pair_keys

definition settle_round :: "cycle_world \<Rightarrow> int \<Rightarrow> pair_keys \<Rightarrow> string list round cyc" where
  "settle_round W cycle_ts pending =
     cyc_bind (settle_pass W cycle_ts pending) (\<lambda>pending.
       if pending = [] then cyc_lift (Inr (Ended []))
       else cyc_bind (read_clock W) (\<lambda>now. cyc_lift (Inr
         (if cycle_ts + REFRESH_RESERVE < now then Ended (sort (map fst pending)) else Again pending))))"

partial_function (option) settle_loop ::
  "cycle_world \<Rightarrow> int \<Rightarrow> pair_keys \<Rightarrow> pyfloat \<Rightarrow> cycle_state \<Rightarrow> (string list res \<times> cycle_state) option" where
  [code]: "settle_loop W cycle_ts pending delay s =
     (case settle_round W cycle_ts pending s of
        (Inl e, t) \<Rightarrow> Some (Inl e, t)
      | (Inr (Ended offending), t) \<Rightarrow> Some (Inr offending, t)
      | (Inr (Again pending), t) \<Rightarrow>
          settle_loop W cycle_ts pending (fmin (fmul delay (Fin 2)) BACKOFF_MAX_SECS) (t\<lparr>cs_slept := cs_slept t @ [delay]\<rparr>))"

definition refresh_with_settle_verify :: "cycle_world \<Rightarrow> int \<Rightarrow> cycle_state \<Rightarrow> (string list res \<times> cycle_state) option" where
  "refresh_with_settle_verify W cycle_ts s = settle_loop W cycle_ts PAIR_KEYS BACKOFF_INITIAL_SECS s"

section \<open>The venue's record\<close>

record venue_summary =
  vs_loaded :: nat
  vs_expected :: nat
  vs_failures :: nat
  vs_snapshot_at :: dt

definition write_venue :: "cycle_world \<Rightarrow> int \<Rightarrow> venue_snapshot option \<Rightarrow> bool \<times> string list \<Rightarrow> string option \<Rightarrow> unit cyc" where
  "write_venue W cycle_ts state concordance error =
     cyc_bind (cyc_lift (venue_doc (cw_isofmt W) (utc cycle_ts) state concordance (cw_code_version W) error)) (\<lambda>doc.
       write_file W (\<lambda>s. s\<lparr>cs_venue := AList.update cycle_ts (Parsed doc) (cs_venue s)\<rparr>)
         (\<lambda>s. s\<lparr>cs_venue := AList.update cycle_ts Malformed (cs_venue s)\<rparr>))"

definition record_venue_state :: "cycle_world \<Rightarrow> int \<Rightarrow> venue_snapshot option \<Rightarrow> venue_summary option cyc" where
  "record_venue_state W cycle_ts venue_state s =
     (case venue_state of
        None \<Rightarrow>
          (let absent = cyc_bind (write_venue W cycle_ts None (False, []) (Some ''no venue snapshot available for this cycle''))
                 (\<lambda>_. cyc_lift (Inr None)) in
           case map_of (cs_venue s) cycle_ts of
             None \<Rightarrow> absent s
           | Some t \<Rightarrow>
               (case read_venue_record t of
                  Inl e \<Rightarrow> (Inl e, s)
                | Inr (JObj d) \<Rightarrow> if dget d ''status'' = JStr ''ok'' then (Inr None, s) else absent s
                | Inr _ \<Rightarrow> (Inl AttributeError, s)))
      | Some (seen, vt) \<Rightarrow>
          let verdict = runtime_concordance vt in
          cyc_bind (write_venue W cycle_ts (Some (seen, vt)) verdict None) (\<lambda>_. cyc_lift (Inr (Some
            \<lparr>vs_loaded = length (vt_instruments vt), vs_expected = length BASKET, vs_failures = length (snd verdict),
             vs_snapshot_at = seen\<rparr>))) s)"

text \<open>The venue's book over the euro legs; one quantity that is not finite and there is none.\<close>

definition narrow_held :: "venue_snapshot option \<Rightarrow> (string \<times> pyfloat) list option" where
  "narrow_held venue_state =
     (case venue_state of
        None \<Rightarrow> None
      | Some (_, vt) \<Rightarrow>
          let eur = filter (\<lambda>(s, q). is_eur_pair s) (vt_positions vt) in
          if list_all (\<lambda>(s, q). isfinite q) eur then Some (fold (\<lambda>(s, q). AList.update (base_of s) q) eur []) else None)"

section \<open>The snapshots\<close>

definition two_digits :: "nat \<Rightarrow> string" where "two_digits n = (if n < 10 then [CHR ''0''] else []) @ digits n"

definition snapshot_path :: "cycle_world \<Rightarrow> int \<Rightarrow> string \<Rightarrow> int \<Rightarrow> string" where
  "snapshot_path W cycle_ts symbol interval =
     cw_day W cycle_ts @ ''/snapshots/cycle-'' @ two_digits (nat (cycle_ts mod day_us div hour_us)) @ ''/'' @
     map (\<lambda>c. if c = CHR ''/'' then CHR ''-'' else c) symbol @ ''-'' @ digits (nat interval) @ ''.parquet''"

type_synonym aligned = "int \<Rightarrow> int list \<times> grid_prices"

definition unusable_close :: "pyfloat option \<Rightarrow> bool" where
  "unusable_close c \<longleftrightarrow> (case c of None \<Rightarrow> False | Some x \<Rightarrow> \<not> isfinite x \<or> fle x (Fin 0))"

definition grid_legs :: "aligned \<Rightarrow> (int \<times> string \<times> leg_series) list" where
  "grid_legs al = concat (map (\<lambda>interval. case al interval of (cal, prices) \<Rightarrow>
     map (\<lambda>symbol. (interval, symbol, (cal, the (map_of prices symbol)))) (map fst PAIR_KEYS)) GRID_INTERVALS)"

definition snapshot_entry_of :: "cycle_world \<Rightarrow> int \<Rightarrow> int \<times> string \<times> leg_series \<Rightarrow> snapshot_entry res" where
  "snapshot_entry_of W cycle_ts x =
     (case x of (interval, symbol, leg) \<Rightarrow>
        if fst leg = [] then Inl IndexError
        else rbind (snapshot_content_hash (rv_sha (cw_replay W)) leg) (\<lambda>h.
          Inr \<lparr>se_pair = JStr symbol, se_grid = JStr (digits (nat interval)), se_n_bars = JInt (int (length (fst leg))),
               se_first_ts = utc (hd (fst leg)), se_last_ts = utc (last (fst leg)), se_hash = JStr h,
               se_path = JStr (snapshot_path W cycle_ts symbol interval)\<rparr>))"

definition write_snapshot :: "cycle_world \<Rightarrow> int \<Rightarrow> int \<times> string \<times> leg_series \<Rightarrow> snapshot_entry cyc" where
  "write_snapshot W cycle_ts x =
     (case x of (interval, symbol, leg) \<Rightarrow>
        let path = snapshot_path W cycle_ts symbol interval in
        cyc_bind (write_file W (\<lambda>s. s\<lparr>cs_snaps := (cs_snaps s)(path := Snap leg)\<rparr>) (\<lambda>s. s\<lparr>cs_snaps := (cs_snaps s)(path := BadSnap)\<rparr>))
          (\<lambda>_. cyc_lift (snapshot_entry_of W cycle_ts x)))"

fun cyc_map :: "('x \<Rightarrow> 'a cyc) \<Rightarrow> 'x list \<Rightarrow> 'a list cyc" where
  "cyc_map f [] = cyc_lift (Inr [])"
| "cyc_map f (x # xs) = cyc_bind (f x) (\<lambda>y. cyc_bind (cyc_map f xs) (\<lambda>ys. cyc_lift (Inr (y # ys))))"

definition journal_snapshots :: "cycle_world \<Rightarrow> int \<Rightarrow> aligned \<Rightarrow> snapshot_entry list cyc" where
  "journal_snapshots W cycle_ts al =
     (if list_ex (\<lambda>(interval, symbol, leg). list_ex unusable_close (snd leg)) (grid_legs al)
      then cyc_lift (Inl (EngineError ''the snapshot cannot be journaled''))
      else cyc_map (write_snapshot W cycle_ts) (grid_legs al))"

section \<open>The orders\<close>

definition previous_boundary :: "(int \<times> jtext) list \<Rightarrow> int \<Rightarrow> (int \<times> jtext) option" where
  "previous_boundary cycles cycle_ts =
     fold (\<lambda>c best. if fst c < cycle_ts \<and> (case best of None \<Rightarrow> True | Some b \<Rightarrow> fst b < fst c) then Some c else best) cycles None"

definition previous_success :: "cycle_world \<Rightarrow> (int \<times> jtext) list \<Rightarrow> int \<Rightarrow> (int \<times> pairs) option res" where
  "previous_success W cycles cycle_ts =
     (case previous_boundary cycles cycle_ts of
        None \<Rightarrow> Inr None
      | Some (b, text) \<Rightarrow> rbind (from_json (cw_fromiso W) text) (\<lambda>r. rbind (validate_record r) (\<lambda>_.
          Inr (Some (b, symbol_keyed_targets (cy_schema r) (cy_targets r))))))"

definition note_of :: "int \<Rightarrow> (int \<times> pairs) option \<Rightarrow> order_note" where
  "note_of cycle_ts previous =
     (case previous of None \<Rightarrow> FirstCycle
      | Some (b, _) \<Rightarrow> if b \<noteq> cycle_ts - 4 * hour_us then AcrossGap b else FromBoundary b)"

text \<open>A symbol the previous cycle did not target stood at zero; a change of nothing is no order.\<close>

definition target_delta :: "(int \<times> pairs) option \<Rightarrow> string \<times> pyfloat \<Rightarrow> pyfloat res" where
  "target_delta previous t =
     rbind (case previous of None \<Rightarrow> Inr (Fin 0)
       | Some (_, prev) \<Rightarrow> (case map_of prev (JStr (fst t)) of None \<Rightarrow> Inr (Fin 0) | Some v \<Rightarrow> to_float v))
       (\<lambda>x. Inr (fsub (snd t) x))"

definition order_for :: "pyfloat \<Rightarrow> (string \<Rightarrow> pyfloat option) \<Rightarrow> (int \<times> pairs) option \<Rightarrow> string \<times> pyfloat \<Rightarrow> order_line list res" where
  "order_for nav price previous t =
     rbind (target_delta previous t) (\<lambda>delta.
       if feq delta (Fin 0) then Inr []
       else let notional = fabs (fmul delta nav) in
         (case price (fst t) of
            None \<Rightarrow> Inl TypeError
          | Some p \<Rightarrow> rbind (fdiv notional p) (\<lambda>q. Inr
              [\<lparr>ol_asset = fst t, ol_side = (if fgt delta (Fin 0) then ''buy'' else ''sell''), ol_quantity = q,
                ol_notional = notional, ol_price = p\<rparr>])))"

definition append_orders ::
  "cycle_world \<Rightarrow> int \<Rightarrow> (string \<times> pyfloat) list \<Rightarrow> (string \<Rightarrow> pyfloat option) \<Rightarrow> order_line list cyc" where
  "append_orders W cycle_ts targets price s =
     cyc_bind (cyc_lift (rbind (previous_success W (cs_cycles s) cycle_ts) (\<lambda>previous.
         rbind (rmap (order_for (cw_nav W) price previous) (sort_key fst targets)) (\<lambda>orders. Inr (previous, concat orders)))))
       (\<lambda>(previous, orders).
         let block = \<lparr>ob_cycle = cycle_ts, ob_previous = map_option fst previous, ob_note = note_of cycle_ts previous, ob_orders = orders\<rparr> in
         cyc_bind (write_file W (\<lambda>s. s\<lparr>cs_orders := cs_orders s @ [(cycle_ts, Some block)]\<rparr>)
             (\<lambda>s. s\<lparr>cs_orders := cs_orders s @ [(cycle_ts, None)]\<rparr>))
           (\<lambda>_. cyc_lift (Inr orders))) s"

section \<open>The cycle\<close>

datatype cycle_result =
    Succeeded "(string \<times> pyfloat) list" "order_line list" "venue_summary option"
  | Failed string "string list" "venue_summary option"

definition fail_cycle :: "cycle_world \<Rightarrow> int \<Rightarrow> int \<Rightarrow> venue_summary option \<Rightarrow> string \<Rightarrow> string list \<Rightarrow> cycle_result cyc" where
  "fail_cycle W cycle_ts started vsum reason offending =
     cyc_bind (read_clock W) (\<lambda>completed.
       let card = \<lparr>sc_cycle = cycle_ts, sc_attempted = utc started, sc_completed = utc completed, sc_reason = reason,
                   sc_offending = offending\<rparr> in
       cyc_bind (write_file W (\<lambda>s. s\<lparr>cs_sidecars := AList.update cycle_ts (Some card) (cs_sidecars s)\<rparr>)
           (\<lambda>s. s\<lparr>cs_sidecars := AList.update cycle_ts None (cs_sidecars s)\<rparr>))
         (\<lambda>_. cyc_lift (Inr (Failed reason offending vsum))))"

definition raw_series_of :: "leg_files \<Rightarrow> raw_series res" where
  "raw_series_of lf = rmap (\<lambda>key. rbind (read_store_series lf key) (\<lambda>leg. Inr (key, leg))) (List.product (map fst PAIR_KEYS) GRID_INTERVALS)"

definition forming_close :: "string \<times> pyfloat option list \<Rightarrow> (string \<times> pyfloat) res" where
  "forming_close x =
     (case x of (base, closes) \<Rightarrow>
        if closes = [] then Inl IndexError
        else (case last closes of
          None \<Rightarrow> Inl (EngineError ''the close of the forming row is missing or unusable'')
        | Some c \<Rightarrow> if \<not> isfinite c \<or> fle c (Fin 0) then Inl (EngineError ''the close of the forming row is missing or unusable'')
            else Inr (base, c)))"

text \<open>The closes the book is priced at, and the basket's targets.\<close>

definition model_targets :: "cycle_world \<Rightarrow> raw_series \<Rightarrow> ((string \<times> pyfloat) list \<times> (string \<times> pyfloat) list) res" where
  "model_targets W raw =
     rbind (select_model_inputs (grid_of raw 1440)) (\<lambda>daily. rbind (select_model_inputs (grid_of raw 240)) (\<lambda>h4.
       rbind (rmap forming_close (snd h4)) (\<lambda>closes.
       rbind (rbind (rbind (rv_fast (cw_replay W) daily h4) newest_targets) expand_to_basket) (\<lambda>targets. Inr (closes, targets)))))"

definition cycle_record_of ::
  "cycle_world \<Rightarrow> int \<Rightarrow> snapshot_entry list \<Rightarrow> (string \<times> pyfloat) list \<Rightarrow> int \<Rightarrow> int \<Rightarrow> (string \<times> pyfloat) list \<Rightarrow>
   (string \<times> pyfloat) list option \<Rightarrow> cycle_record" where
  "cycle_record_of W cycle_ts entries targets started completed closes held =
     \<lparr>cy_schema = JInt 2, cy_ts = utc cycle_ts, cy_snapshots = entries, cy_targets = replayed_dict targets, cy_started_at = utc started,
      cy_completed_at = utc completed, cy_code_version = JStr (cw_code_version W), cy_builder_path = JStr ''fast'',
      cy_closes = Some (replayed_dict closes), cy_nav = Some (cw_nav W), cy_held = map_option replayed_dict held\<rparr>"

text \<open>The last close of a symbol on the four-hour calendar of all twelve.\<close>

definition last_close :: "grid_prices \<Rightarrow> string \<Rightarrow> pyfloat option" where
  "last_close prices symbol = last (the (map_of prices symbol))"

definition journal_record :: "cycle_world \<Rightarrow> int \<Rightarrow> cycle_record \<Rightarrow> unit cyc" where
  "journal_record W cycle_ts r =
     cyc_bind (cyc_lift (validate_record r)) (\<lambda>_.
       write_file W (\<lambda>s. s\<lparr>cs_cycles := AList.update cycle_ts (Parsed (to_json (cw_isofmt W) r)) (cs_cycles s)\<rparr>)
         (\<lambda>s. s\<lparr>cs_cycles := AList.update cycle_ts Malformed (cs_cycles s)\<rparr>))"

text \<open>From the aligned series on: snapshots, build, orders, record.\<close>

definition publish :: "cycle_world \<Rightarrow> int \<Rightarrow> int \<Rightarrow> venue_summary option \<Rightarrow> venue_snapshot option \<Rightarrow> raw_series \<Rightarrow> aligned \<Rightarrow> cycle_result cyc" where
  "publish W cycle_ts started vsum venue_state raw al =
     cyc_bind (journal_snapshots W cycle_ts al) (\<lambda>entries. cyc_bind (cyc_lift (model_targets W raw)) (\<lambda>(closes, targets).
     cyc_bind (append_orders W cycle_ts targets (last_close (snd (al 240)))) (\<lambda>orders. cyc_bind (read_clock W) (\<lambda>completed.
     cyc_bind (journal_record W cycle_ts (cycle_record_of W cycle_ts entries targets started completed closes (narrow_held venue_state))) (\<lambda>_.
       cyc_lift (Inr (Succeeded targets orders vsum)))))))"

definition after_refresh :: "cycle_world \<Rightarrow> int \<Rightarrow> int \<Rightarrow> venue_summary option \<Rightarrow> venue_snapshot option \<Rightarrow> string list \<Rightarrow> cycle_result cyc" where
  "after_refresh W cycle_ts started vsum venue_state offending s =
     (if offending \<noteq> [] then fail_cycle W cycle_ts started vsum ''refresh_deadline'' offending s
      else cyc_bind (cyc_lift (raw_series_of (ps_legs (cs_store s)))) (\<lambda>raw.
        let stale = stale_pairs raw cycle_ts in
        if stale \<noteq> [] then fail_cycle W cycle_ts started vsum ''stale_pair'' stale
        else cyc_bind (cyc_lift (rbind (union_align raw 1440) (\<lambda>daily. rbind (union_align raw 240) (\<lambda>h4. Inr (daily, h4)))))
          (\<lambda>(daily, h4). publish W cycle_ts started vsum venue_state raw (\<lambda>interval. if interval = 1440 then daily else h4))) s)"

definition run_cycle :: "cycle_world \<Rightarrow> dt \<Rightarrow> venue_snapshot option \<Rightarrow> cycle_state \<Rightarrow> (cycle_result res \<times> cycle_state) option" where
  "run_cycle W t venue_state s =
     (case normalize_cycle_ts t of
        Inl e \<Rightarrow> Some (Inl e, s)
      | Inr cycle_ts \<Rightarrow>
          (case cyc_bind (read_clock W) (\<lambda>started. cyc_bind (record_venue_state W cycle_ts venue_state) (\<lambda>v. cyc_lift (Inr (started, v)))) s of
             (Inl e, s1) \<Rightarrow> Some (Inl e, s1)
           | (Inr (started, vsum), s1) \<Rightarrow>
               (case refresh_with_settle_verify W cycle_ts s1 of
                  None \<Rightarrow> None
                | Some (Inl e, s2) \<Rightarrow> Some (Inl e, s2)
                | Some (Inr offending, s2) \<Rightarrow> Some (after_refresh W cycle_ts started vsum venue_state offending s2))))"

text \<open>\<open>_snapshot_reader\<close> of \<open>command.py\<close>, over the journal a cycle leaves.\<close>

definition snapshot_reader_of :: "(string \<Rightarrow> snap_file) \<Rightarrow> snapshot_reader" where
  "snapshot_reader_of snaps e =
     (case snaps (text_of (se_path e)) of
        NoSnap \<Rightarrow> journal_error ''journaled snapshot missing on disk''
      | BadSnap \<Rightarrow> journal_error ''journaled snapshot unreadable''
      | Snap leg \<Rightarrow> Inr leg)"

end
