(* ===== verification/CycleProperties.thy ===== *)
theory CycleProperties imports ShadowCycle
begin

text \<open>
  What a shadow cycle keeps: its settle loop ends with the reserve, a settled store is joinable in every leg, a cycle
  that does not succeed leaves no record that reads, and the record of one that does replays to its own targets.
\<close>

lemma cyc_bind_InrE:
  assumes "cyc_bind m f s = (Inr b, u)"
  obtains a t where "m s = (Inr a, t)" and "f a t = (Inr b, u)"
  using assms by (auto simp: cyc_bind_def split: prod.splits sum.splits)

lemma cyc_lift_iff [simp]: "cyc_lift r s = (x, t) \<longleftrightarrow> r = x \<and> t = s"
  by (auto simp: cyc_lift_def)

section \<open>The settle loop ends\<close>

lemma read_clock_reads: "read_clock W s = (r, t) \<Longrightarrow> cs_reads t = cs_reads s + 1"
  by (auto simp: read_clock_def Let_def split: if_splits)

lemma refresh_now_reads: "refresh_now W pending s = (r, t) \<Longrightarrow> cs_reads t = cs_reads s + 1"
  by (auto simp: refresh_now_def cyc_bind_def dest: read_clock_reads split: prod.splits sum.splits)

lemma settle_pass_reads: "settle_pass W cycle_ts pending s = (r, t) \<Longrightarrow> cs_reads t = cs_reads s + 1"
  by (auto simp: settle_pass_def dest: refresh_now_reads split: prod.splits sum.splits exn.splits)

lemma settle_round_again:
  assumes "settle_round W cycle_ts pending s = (Inr (Again pending'), t)"
  shows "cs_reads t = cs_reads s + 2" and "instant (cw_clock W (cs_reads s + 1)) \<le> cycle_ts + REFRESH_RESERVE"
proof -
  from assms obtain left u where u: "settle_pass W cycle_ts pending s = (Inr left, u)"
    and rest: "cyc_bind (read_clock W) (\<lambda>now. cyc_lift (Inr (if cycle_ts + REFRESH_RESERVE < now then Ended (sort (map fst left)) else Again left))) u =
      (Inr (Again pending'), t)"
    unfolding settle_round_def by (elim cyc_bind_InrE) (auto split: if_splits)
  from rest obtain now where now: "read_clock W u = (Inr now, t)" "now \<le> cycle_ts + REFRESH_RESERVE"
    by (elim cyc_bind_InrE) (auto split: if_splits)
  show "cs_reads t = cs_reads s + 2" using settle_pass_reads [OF u] read_clock_reads [OF now(1)] by simp
  show "instant (cw_clock W (cs_reads s + 1)) \<le> cycle_ts + REFRESH_RESERVE"
    using now settle_pass_reads [OF u] by (auto simp: read_clock_def Let_def split: if_splits)
qed

lemma settle_loop_ends:
  assumes "\<And>m. n \<le> m \<Longrightarrow> cycle_ts + REFRESH_RESERVE < instant (cw_clock W m)"
  shows "settle_loop W cycle_ts pending delay s \<noteq> None"
proof (induction "n - cs_reads s" arbitrary: pending delay s rule: less_induct)
  case less
  obtain r t where round: "settle_round W cycle_ts pending s = (r, t)" by force
  show ?case
  proof (cases r)
    case (Inl e)
    then show ?thesis by (subst settle_loop.simps) (simp add: round)
  next
    case (Inr x)
    show ?thesis
    proof (cases x)
      case (Ended offending)
      then show ?thesis by (subst settle_loop.simps) (simp add: round Inr)
    next
      case (Again pending')
      note again = settle_round_again [OF round [unfolded Inr Again]]
      from again(2) assms [of "cs_reads s + 1"] have "cs_reads s + 1 < n" by (meson not_less)
      with again(1) have "n - cs_reads (t\<lparr>cs_slept := cs_slept t @ [delay]\<rparr>) < n - cs_reads s" by simp
      from less.hyps [OF this] show ?thesis by (subst settle_loop.simps) (simp add: round Inr Again)
    qed
  qed
qed

text \<open>
  A cycle returns or raises once the clock has passed the reserve for good, whatever the venue and the disk do: the
  settle loop does not wait for a candle the venue never commits.
\<close>

theorem run_cycle_returns:
  assumes "\<And>m. n \<le> m \<Longrightarrow> instant t + REFRESH_RESERVE < instant (cw_clock W m)"
  shows "run_cycle W t venue_state s \<noteq> None"
proof -
  have [simp]: "settle_loop W (instant t) PAIR_KEYS BACKOFF_INITIAL_SECS s1 = None \<longleftrightarrow> False" for s1
    using settle_loop_ends [OF assms] by simp
  then show ?thesis
    by (auto simp: run_cycle_def refresh_with_settle_verify_def normalize_cycle_ts_def split: sum.splits prod.splits option.splits if_splits)
qed

section \<open>A settled store\<close>

definition good_leg :: "pstate \<Rightarrow> string \<times> int \<Rightarrow> bool" where
  "good_leg p leg \<longleftrightarrow> (\<exists>f. ps_legs p leg = Stored f \<and> joinable f (snd leg))"

lemma refresh_leg_good:
  assumes "refresh_leg W now x p = (Inr e, p')"
  shows "good_leg p' (fst (fst x), snd x)"
proof -
  obtain pair key interval where x: "x = ((pair, key), interval)" by (cases x) auto
  from assms obtain stored m where stored: "rbind (read_leg (pair, interval) p) (\<lambda>f. rbind (require_store_frame f interval) (\<lambda>_. Inr (f_bars f))) = Inr stored"
    and m: "rbind (fetched W (ps_asked p) key interval now) (\<lambda>rest. reconcile_legs stored rest REFRESH_MIN_OVERLAP False) = Inr m"
    and rest: "(let appended = int (length (mg_bars m)) - int (length stored);
          entry = \<lparr>re_leg = (pair, interval), re_appended = appended, re_fresh_through = last_stamp (mg_bars m)\<rparr> in
        if appended = 0 then (Inr entry, p\<lparr>ps_asked := Suc (ps_asked p)\<rparr>)
        else write_leg W (pair, interval) (mg_bars m) entry (p\<lparr>ps_asked := Suc (ps_asked p)\<rparr>)) = (Inr e, p')"
    by (auto simp: x refresh_leg_def Let_def split: sum.splits)
  from stored obtain f where f: "ps_legs p (pair, interval) = Stored f" "joinable f interval" "stored = f_bars f"
    by (auto simp: rbind_Inr_iff read_leg_def require_store_frame_def split: leg_file.splits if_splits)
  from m obtain fresh where fresh: "fetched W (ps_asked p) key interval now = Inr fresh"
    "reconcile_legs stored fresh REFRESH_MIN_OVERLAP False = Inr m" by (auto simp: rbind_Inr_iff)
  have ok: "bars_ok (mg_bars m) interval" "mg_bars m \<noteq> []"
    using merge_ok [OF _ fetched_ok(1) [OF fresh(1)] _ fresh(2)] f(2) by (simp_all add: joinable_bars f(3))
  show ?thesis
  proof (cases "int (length (mg_bars m)) - int (length stored) = 0")
    case True
    with rest f show ?thesis by (auto simp: good_leg_def x)
  next
    case False
    with rest ok show ?thesis
      by (auto simp: good_leg_def x write_leg_def Let_def joinable_bars split: write_outcome.splits)
  qed
qed

lemma refresh_leg_elsewhere:
  "refresh_leg W now x p = (r, p') \<Longrightarrow> leg \<noteq> (fst (fst x), snd x) \<Longrightarrow> ps_legs p' leg = ps_legs p leg"
  by (cases x) (auto simp: refresh_leg_def Let_def write_leg_def split: prod.splits sum.splits write_outcome.splits if_splits)

lemma each_refresh:
  assumes "each_leg (refresh_leg W now) xs p = (r, p')"
  shows "leg \<notin> (\<lambda>x. (fst (fst x), snd x)) ` set xs \<Longrightarrow> ps_legs p' leg = ps_legs p leg"
    and "r = Inr es \<Longrightarrow> leg \<in> (\<lambda>x. (fst (fst x), snd x)) ` set xs \<or> good_leg p leg \<Longrightarrow> good_leg p' leg"
  using assms
proof (induction xs arbitrary: p r es)
  case Nil
  {
    case 1
    then show ?case by simp
  next
    case 2
    then show ?case by simp
  }
next
  case (Cons x xs)
  {
    case 1
    then show ?case
      using refresh_leg_elsewhere [of W now x p _ _ leg] Cons.IH(1)
      by (auto split: prod.splits sum.splits)
  next
    case 2
    then obtain e q es' where e: "refresh_leg W now x p = (Inr e, q)" "each_leg (refresh_leg W now) xs q = (Inr es', p')"
      by (auto split: prod.splits sum.splits)
    have "good_leg q leg" if "leg = (fst (fst x), snd x) \<or> good_leg p leg"
      using that refresh_leg_good [OF e(1)] refresh_leg_elsewhere [OF e(1), of leg]
      by (cases "leg = (fst (fst x), snd x)") (auto simp: good_leg_def)
    with Cons.IH(2) [OF refl _ e(2)] 2 show ?case by auto
  }
qed

text \<open>Every leg of a pair that is no longer pending is joinable.\<close>

definition settled_store :: "pair_keys \<Rightarrow> pstate \<Rightarrow> bool" where
  "settled_store pending p \<longleftrightarrow> (\<forall>k \<in> fst ` set PAIR_KEYS - fst ` set pending. \<forall>interval \<in> set GRID_INTERVALS. good_leg p (k, interval))"

definition journal_of :: "cycle_state \<Rightarrow> (string \<Rightarrow> snap_file) \<times> (int \<times> jtext) list \<times> (int \<times> sidecar option) list \<times> (int \<times> order_block option) list" where
  "journal_of s = (cs_snaps s, cs_cycles s, cs_sidecars s, cs_orders s)"

lemma read_clock_leaves: "read_clock W s = (r, t) \<Longrightarrow> cs_store t = cs_store s \<and> journal_of t = journal_of s"
  by (auto simp: read_clock_def Let_def journal_of_def split: if_splits)

lemma refresh_now_does:
  assumes "refresh_now W pending s = (r, t)"
  shows "journal_of t = journal_of s"
    and "k \<notin> fst ` set pending \<Longrightarrow> ps_legs (cs_store t) (k, interval) = ps_legs (cs_store s) (k, interval)"
    and "r = Inr es \<Longrightarrow> k \<in> fst ` set pending \<Longrightarrow> interval \<in> set GRID_INTERVALS \<Longrightarrow> good_leg (cs_store t) (k, interval)"
proof -
  have keys: "(k, interval) \<in> (\<lambda>x. (fst (fst x), snd x)) ` set (List.product pending GRID_INTERVALS) \<longleftrightarrow>
      k \<in> fst ` set pending \<and> interval \<in> set GRID_INTERVALS" for k interval
    by force
  obtain c u where c: "read_clock W s = (c, u)" by force
  note u = read_clock_leaves [OF c]
  have cases: "t = u \<and> r = Inl e" if "c = Inl e" for e
    using assms that by (auto simp: refresh_now_def cyc_bind_def c)
  have run: "\<exists>p. refresh_store (cw_store W) now pending (cs_store u) = (r, p) \<and> t = u\<lparr>cs_store := p\<rparr>" if "c = Inr now" for now
    using assms that by (auto simp: refresh_now_def cyc_bind_def c split: prod.splits)
  show "journal_of t = journal_of s"
    using u cases run by (cases c) (force simp: journal_of_def)+
  show "k \<notin> fst ` set pending \<Longrightarrow> ps_legs (cs_store t) (k, interval) = ps_legs (cs_store s) (k, interval)"
    using u cases run each_refresh(1) [where leg = "(k, interval)" and xs = "List.product pending GRID_INTERVALS"] keys [of k interval]
    by (cases c) (force simp: refresh_store_def)+
  show "r = Inr es \<Longrightarrow> k \<in> fst ` set pending \<Longrightarrow> interval \<in> set GRID_INTERVALS \<Longrightarrow> good_leg (cs_store t) (k, interval)"
    using u cases run each_refresh(2) [where leg = "(k, interval)" and xs = "List.product pending GRID_INTERVALS"] keys [of k interval]
    by (cases c) (force simp: refresh_store_def)+
qed

lemma settle_pass_settles:
  assumes "settle_pass W cycle_ts pending s = (Inr left, t)" and "settled_store pending (cs_store s)" and "set pending \<subseteq> set PAIR_KEYS"
  shows "settled_store left (cs_store t) \<and> set left \<subseteq> set PAIR_KEYS"
proof -
  obtain r where r: "refresh_now W pending s = (r, t)" and left: "(\<exists>e. r = Inl e \<and> left = pending) \<or> (\<exists>es. r = Inr es) \<and> settle_pending (ps_legs (cs_store t)) cycle_ts = Inr left"
    using assms(1) by (auto simp: settle_pass_def split: prod.splits sum.splits exn.splits)
  have kept: "settled_store pending (cs_store t)"
    using assms(2) refresh_now_does(2) [OF r] by (auto simp: settled_store_def good_leg_def)
  show ?thesis
  proof (cases "\<exists>es. r = Inr es")
    case True
    then obtain es where es: "r = Inr es" by blast
    have "good_leg (cs_store t) (k, interval)" if "k \<in> fst ` set PAIR_KEYS" "interval \<in> set GRID_INTERVALS" for k interval
      using kept that refresh_now_does(3) [OF r es, of k interval] unfolding settled_store_def by blast
    moreover have "set left \<subseteq> set PAIR_KEYS"
      using left es by (auto simp: settle_pending_def rbind_Inr_iff elim!: in_set_zipE)
    ultimately show ?thesis by (auto simp: settled_store_def)
  next
    case False
    with left kept assms(3) show ?thesis by auto
  qed
qed

lemma settle_pass_journal: "settle_pass W cycle_ts pending s = (r, t) \<Longrightarrow> journal_of t = journal_of s"
  by (auto simp: settle_pass_def dest: refresh_now_does(1) split: prod.splits sum.splits exn.splits)

lemma settle_round_journal: "settle_round W cycle_ts pending s = (r, t) \<Longrightarrow> journal_of t = journal_of s"
  by (auto simp: settle_round_def cyc_bind_def dest!: settle_pass_journal read_clock_leaves split: prod.splits sum.splits if_splits)

lemma settle_round_settles:
  assumes "settle_round W cycle_ts pending s = (Inr x, t)" and "settled_store pending (cs_store s)" and "set pending \<subseteq> set PAIR_KEYS"
  shows "case x of Ended offending \<Rightarrow> offending = [] \<longrightarrow> settled_store [] (cs_store t)
    | Again left \<Rightarrow> settled_store left (cs_store t) \<and> set left \<subseteq> set PAIR_KEYS"
proof -
  from assms(1) obtain left u where u: "settle_pass W cycle_ts pending s = (Inr left, u)"
    and rest: "(if left = [] then cyc_lift (Inr (Ended [])) else cyc_bind (read_clock W) (\<lambda>now. cyc_lift (Inr
        (if cycle_ts + REFRESH_RESERVE < now then Ended (sort (map fst left)) else Again left)))) u = (Inr x, t)"
    unfolding settle_round_def by (elim cyc_bind_InrE)
  note left = settle_pass_settles [OF u assms(2,3)]
  show ?thesis
  proof (cases "left = []")
    case True
    with rest left show ?thesis by auto
  next
    case False
    with rest obtain now where now: "read_clock W u = (Inr now, t)"
      "x = (if cycle_ts + REFRESH_RESERVE < now then Ended (sort (map fst left)) else Again left)"
      by (auto elim!: cyc_bind_InrE)
    have "sort (map fst left) \<noteq> []" using False by (metis length_0_conv length_map length_sort)
    with now(2) left read_clock_leaves [OF now(1)] show ?thesis by auto
  qed
qed

lemma settle_loop_settles:
  assumes "settle_loop W cycle_ts pending delay s = Some (r, t)"
  shows "journal_of t = journal_of s \<and>
    (r = Inr [] \<longrightarrow> settled_store pending (cs_store s) \<longrightarrow> set pending \<subseteq> set PAIR_KEYS \<longrightarrow> settled_store [] (cs_store t))"
proof -
  let ?P = "\<lambda>W cycle_ts pending delay s y. journal_of (snd y) = journal_of s \<and>
    (fst y = Inr [] \<longrightarrow> settled_store pending (cs_store s) \<longrightarrow> set pending \<subseteq> set PAIR_KEYS \<longrightarrow> settled_store [] (cs_store (snd y)))"
  have "?P W cycle_ts pending delay s (r, t)"
  proof (rule settle_loop.raw_induct [where P = ?P, OF _ assms], goal_cases)
    case (1 loop W cycle_ts pending delay s y)
    obtain r u where u: "settle_round W cycle_ts pending s = (r, u)" by force
    note j = settle_round_journal [OF u]
    show ?case
    proof (cases r)
      case (Inl e)
      with 1 u j show ?thesis by auto
    next
      case (Inr x)
      note x = settle_round_settles [OF u [unfolded Inr]]
      show ?thesis
      proof (cases x)
        case (Ended offending)
        with 1(2) u j x Inr show ?thesis by auto
      next
        case (Again left)
        with 1(2) u Inr have "loop W cycle_ts left (fmin (fmul delay (Fin 2)) BACKOFF_MAX_SECS) (u\<lparr>cs_slept := cs_slept u @ [delay]\<rparr>) = Some y"
          by simp
        from 1(1) [OF this] j x Again show ?thesis by (auto simp: journal_of_def)
      qed
    qed
  qed
  then show ?thesis by simp
qed

section \<open>What an action leaves alone\<close>

definition leaves :: "(cycle_state \<Rightarrow> 'v) \<Rightarrow> 'a cyc \<Rightarrow> bool" where
  "leaves g m \<longleftrightarrow> (\<forall>s. g (snd (m s)) = g s)"

lemma leavesD: "leaves g m \<Longrightarrow> m s = (r, t) \<Longrightarrow> g t = g s"
  by (metis leaves_def snd_conv)

named_theorems leaves_rule \<open>what leaves a part of the journal\<close>

lemma leaves_lift [leaves_rule]: "leaves g (cyc_lift r)"
  by (simp add: leaves_def cyc_lift_def)

lemma leaves_bind [leaves_rule]:
  assumes "leaves g m" and "\<And>a. leaves g (f a)"
  shows "leaves g (cyc_bind m f)"
  unfolding leaves_def
proof
  fix s
  obtain r t where t: "m s = (r, t)" by force
  have "g t = g s" using assms(1) t by (rule leavesD)
  moreover have "g (snd (f a t)) = g t" for a using assms(2) unfolding leaves_def by blast
  ultimately show "g (snd (cyc_bind m f s)) = g s" by (cases r) (simp_all add: cyc_bind_def t)
qed

lemma leaves_if [leaves_rule]: "leaves g m \<Longrightarrow> leaves g n \<Longrightarrow> leaves g (if c then m else n)"
  by simp

lemma leaves_case_prod [leaves_rule]: "(\<And>a b. leaves g (f a b)) \<Longrightarrow> leaves g (case x of (a, b) \<Rightarrow> f a b)"
  by (cases x) simp

lemma leaves_let [leaves_rule]: "leaves g (f x) \<Longrightarrow> leaves g (let y = x in f y)"
  by simp

lemma leaves_apply: "(\<And>s. leaves g (m s)) \<Longrightarrow> leaves g (\<lambda>s. m s s)"
  by (simp add: leaves_def)

lemma leaves_write:
  assumes "\<And>s. g (d s) = g s" and "\<And>s. g (u s) = g s" and "\<And>s n. g (s\<lparr>cs_writes := n\<rparr>) = g s"
  shows "leaves g (write_file W d u)"
  using assms by (simp add: leaves_def write_file_def Let_def split: write_outcome.split)

lemma leaves_map [leaves_rule]: "(\<And>x. leaves g (f x)) \<Longrightarrow> leaves g (cyc_map f xs)"
  by (induction xs) (simp_all add: leaves_rule)

lemma leaves_clock [leaves_rule]: "(\<And>s n. g (s\<lparr>cs_reads := n\<rparr>) = g s) \<Longrightarrow> leaves g (read_clock W)"
  by (simp add: leaves_def read_clock_def Let_def)

lemma write_file_Inr: "write_file W d u s = (Inr x, t) \<Longrightarrow> t = d (s\<lparr>cs_writes := cs_writes s + 1\<rparr>)"
  by (auto simp: write_file_def Let_def split: write_outcome.splits)

lemma journal_snapshots_leaves: "leaves cs_cycles (journal_snapshots W ts al)" "leaves cs_orders (journal_snapshots W ts al)"
  unfolding journal_snapshots_def write_snapshot_def by (intro leaves_rule leaves_write; simp)+

lemma append_orders_leaves: "leaves cs_cycles (append_orders W ts targets price)" "leaves cs_snaps (append_orders W ts targets price)"
  unfolding append_orders_def by (rule leaves_apply, intro leaves_rule leaves_write; simp)+

lemma journal_record_leaves: "leaves cs_snaps (journal_record W ts r)" "leaves cs_orders (journal_record W ts r)"
  unfolding journal_record_def by (intro leaves_rule leaves_write; simp)+

lemma fail_cycle_leaves:
  "leaves cs_cycles (fail_cycle W ts started v reason offending)" "leaves cs_snaps (fail_cycle W ts started v reason offending)"
  "leaves cs_orders (fail_cycle W ts started v reason offending)"
  unfolding fail_cycle_def by (intro leaves_rule leaves_write; simp)+

lemma venue_leaves: "leaves journal_of (record_venue_state W ts v)"
proof -
  have w: "leaves journal_of (write_venue W ts st con e)" for st con e
    unfolding write_venue_def by (intro leaves_rule leaves_write; simp add: journal_of_def)
  have [simp]: "journal_of (snd (cyc_bind (write_venue W ts st con e) (\<lambda>_. cyc_lift r) s)) = journal_of s"
    for st con e s and r :: "venue_summary option res"
    using leaves_bind [OF w leaves_lift, of st con e "\<lambda>_. r"] by (simp add: leaves_def)
  show ?thesis
    by (auto simp: leaves_def record_venue_state_def Let_def split: option.split sum.split json.split prod.split)
qed

section \<open>A cycle that does not succeed\<close>

abbreviation succeeded :: "cycle_result res \<Rightarrow> bool" where
  "succeeded r \<equiv> (\<exists>targets orders v. r = Inr (Succeeded targets orders v))"

lemma journal_record_outcome:
  assumes "journal_record W ts r s = (x, t)"
  shows "x = Inr () \<Longrightarrow> validate_record r = Inr () \<and> t = s\<lparr>cs_writes := cs_writes s + 1,
      cs_cycles := AList.update ts (Parsed (to_json (cw_isofmt W) r)) (cs_cycles s)\<rparr>"
    and "x = Inl e \<Longrightarrow> cs_cycles t = cs_cycles s \<or> cs_cycles t = AList.update ts Malformed (cs_cycles s)"
  using assms
  by (auto simp: journal_record_def cyc_bind_def cyc_lift_def write_file_def Let_def split: sum.splits prod.splits write_outcome.splits)

lemma publish_unsuccessful:
  assumes "publish W ts started v vs raw al s = (r, t)" and "\<not> succeeded r"
  shows "cs_cycles t = cs_cycles s \<or> cs_cycles t = AList.update ts Malformed (cs_cycles s)"
proof -
  have steps: "cs_cycles b = cs_cycles a" if "cyc_bind (journal_snapshots W ts al) (\<lambda>entries. cyc_bind (cyc_lift (model_targets W raw)) (\<lambda>(closes, targets).
     cyc_bind (append_orders W ts targets (last_close (snd (al 240)))) (\<lambda>orders. cyc_bind (read_clock W) (\<lambda>completed.
     cyc_lift (Inr (entries, closes, targets, orders, completed)))))) a = (x, b)" for x a b
    using that by (rule leavesD [rotated]) (intro leaves_rule journal_snapshots_leaves append_orders_leaves; simp)
  let ?head = "cyc_bind (journal_snapshots W ts al) (\<lambda>entries. cyc_bind (cyc_lift (model_targets W raw)) (\<lambda>(closes, targets).
     cyc_bind (append_orders W ts targets (last_close (snd (al 240)))) (\<lambda>orders. cyc_bind (read_clock W) (\<lambda>completed.
     cyc_lift (Inr (entries, closes, targets, orders, completed))))))"
  have split: "publish W ts started v vs raw al = cyc_bind ?head (\<lambda>(entries, closes, targets, orders, completed).
     cyc_bind (journal_record W ts (cycle_record_of W ts entries targets started completed closes (narrow_held vs))) (\<lambda>_.
       cyc_lift (Inr (Succeeded targets orders v))))"
    by (rule ext) (auto simp: publish_def cyc_bind_def cyc_lift_def split: prod.splits sum.splits)
  obtain x b where b: "?head s = (x, b)" by force
  from assms(1) [unfolded split] show ?thesis
  proof (cases x)
    case (Inl e)
    with assms(1) [unfolded split] b steps [OF b] show ?thesis by (auto simp: cyc_bind_def)
  next
    case (Inr y)
    obtain entries closes targets orders completed where y: "y = (entries, closes, targets, orders, completed)" by (cases y) auto
    let ?r = "cycle_record_of W ts entries targets started completed closes (narrow_held vs)"
    obtain z u where z: "journal_record W ts ?r b = (z, u)" by force
    have "cyc_bind (journal_record W ts ?r) (\<lambda>_. cyc_lift (Inr (Succeeded targets orders v))) b = (r, t)"
      using assms(1) [unfolded split] b Inr y by (simp add: cyc_bind_def [of ?head])
    with z assms(2) obtain e where "z = Inl e" "t = u" by (cases z) (auto simp: cyc_bind_def)
    with journal_record_outcome(2) [OF z] steps [OF b] show ?thesis by auto
  qed
qed

lemma after_refresh_unsuccessful:
  assumes "after_refresh W ts started v vs offending s = (r, t)" and "\<not> succeeded r"
  shows "cs_cycles t = cs_cycles s \<or> cs_cycles t = AList.update ts Malformed (cs_cycles s)"
  using assms publish_unsuccessful leavesD [OF fail_cycle_leaves(1)]
  by (auto simp: after_refresh_def cyc_bind_def cyc_lift_def Let_def split: if_splits sum.splits prod.splits)

lemma before_refresh_leaves:
  assumes "cyc_bind (read_clock W) (\<lambda>started. cyc_bind (record_venue_state W ts vs) (\<lambda>v. cyc_lift (Inr (started, v)))) s = (x, s1)"
  shows "journal_of s1 = journal_of s"
  using assms by (rule leavesD [rotated]) (intro leaves_rule venue_leaves; simp add: journal_of_def)

text \<open>
  Only a cycle that returns its targets leaves a record that reads: whatever raises or fails on the way, and wherever a
  write is torn, every record of the journal that parses afterwards was there before.
\<close>

theorem unsuccessful_cycle_leaves_no_record:
  assumes "run_cycle W t vs s = Some (r, s')" and "\<not> succeeded r" and "map_of (cs_cycles s') b = Some (Parsed d)"
  shows "map_of (cs_cycles s) b = Some (Parsed d)"
proof -
  have "cs_cycles s' = cs_cycles s \<or> (\<exists>ts. cs_cycles s' = AList.update ts Malformed (cs_cycles s))"
  proof (cases "normalize_cycle_ts t")
    case (Inl e)
    with assms(1) show ?thesis by (simp add: run_cycle_def)
  next
    case (Inr ts)
    obtain x s1 where s1: "cyc_bind (read_clock W) (\<lambda>started. cyc_bind (record_venue_state W ts vs) (\<lambda>v. cyc_lift (Inr (started, v)))) s = (x, s1)"
      by force
    note j1 = before_refresh_leaves [OF s1]
    show ?thesis
    proof (cases x)
      case (Inl e)
      with assms(1) Inr s1 j1 show ?thesis by (simp add: run_cycle_def journal_of_def)
    next
      case sv: (Inr y)
      obtain started v where y: "y = (started, v)" by force
      obtain z s2 where s2: "refresh_with_settle_verify W ts s1 = Some (z, s2)"
        using assms(1) Inr s1 sv y by (auto simp: run_cycle_def split: option.splits)
      have j2: "journal_of s2 = journal_of s1"
        using settle_loop_settles [OF s2 [unfolded refresh_with_settle_verify_def]] by simp
      show ?thesis
      proof (cases z)
        case (Inl e)
        with assms(1) Inr s1 sv y s2 j1 j2 show ?thesis by (simp add: run_cycle_def journal_of_def)
      next
        case (Inr offending)
        then have "after_refresh W ts started v vs offending s2 = (r, s')"
          using assms(1) \<open>normalize_cycle_ts t = Inr ts\<close> s1 sv y s2 by (simp add: run_cycle_def)
        from after_refresh_unsuccessful [OF this assms(2)] j1 j2 show ?thesis by (auto simp: journal_of_def)
      qed
    qed
  qed
  with assms(3) show ?thesis by (auto simp: update_conv' split: if_splits)
qed

section \<open>A cycle that succeeds replays\<close>

definition path_of :: "cycle_world \<Rightarrow> int \<Rightarrow> int \<times> string \<times> leg_series \<Rightarrow> string" where
  "path_of W ts x = (case x of (interval, symbol, leg) \<Rightarrow> snapshot_path W ts symbol interval)"

lemma written_snapshots:
  assumes "cyc_map (write_snapshot W ts) xs s = (Inr es, t)"
  shows "list_all2 (\<lambda>x e. snapshot_entry_of W ts x = Inr e) xs es"
    and "p \<notin> path_of W ts ` set xs \<Longrightarrow> cs_snaps t p = cs_snaps s p"
    and "distinct (map (path_of W ts) xs) \<Longrightarrow> x \<in> set xs \<Longrightarrow> cs_snaps t (path_of W ts x) = Snap (snd (snd x))"
  using assms
proof (induction xs arbitrary: s es p x)
  case Nil
  {
    case 1 then show ?case by simp
  next
    case 2 then show ?case by simp
  next
    case 3 then show ?case by simp
  }
next
  case (Cons y ys)
  have parts: "\<exists>u e es'. write_snapshot W ts y s = (Inr e, u) \<and> cyc_map (write_snapshot W ts) ys u = (Inr es', t) \<and> es = e # es'"
    if "cyc_map (write_snapshot W ts) (y # ys) s = (Inr es, t)" for s es
    using that by (auto elim!: cyc_bind_InrE)
  have head: "snapshot_entry_of W ts y = Inr e \<and> cs_snaps u = (cs_snaps s)(path_of W ts y := Snap (snd (snd y)))"
    if "write_snapshot W ts y s = (Inr e, u)" for s u e
    using that by (cases y) (auto simp: write_snapshot_def path_of_def Let_def elim!: cyc_bind_InrE dest!: write_file_Inr)
  {
    case 1
    from parts [OF this] head Cons.IH(1) show ?case by fastforce
  next
    case 2
    from parts [OF 2(2)] obtain u e es' where u: "write_snapshot W ts y s = (Inr e, u)" "cyc_map (write_snapshot W ts) ys u = (Inr es', t)"
      by blast
    from Cons.IH(2) [OF _ u(2)] head [OF u(1)] 2(1) show ?case by auto
  next
    case 3
    from parts [OF 3(3)] obtain u e es' where u: "write_snapshot W ts y s = (Inr e, u)" "cyc_map (write_snapshot W ts) ys u = (Inr es', t)"
      by blast
    show ?case
    proof (cases "x \<in> set ys")
      case True
      with Cons.IH(3) [OF _ _ u(2)] 3(1) show ?thesis by simp
    next
      case False
      with 3(2) have "x = y" by simp
      with Cons.IH(2) [OF _ u(2), of "path_of W ts y"] head [OF u(1)] 3(1) show ?thesis by simp
    qed
  }
qed

text \<open>The twenty-four snapshots of a cycle are twenty-four files.\<close>

lemma grid_leg_keys: "map (\<lambda>x. (fst x, fst (snd x))) (grid_legs al) = List.product GRID_INTERVALS (map fst PAIR_KEYS)"
  by (auto simp: grid_legs_def product_concat_map map_concat o_def split: prod.splits intro!: arg_cong [of _ _ concat])

lemma grid_paths_distinct: "distinct (map (path_of W ts) (grid_legs al))"
proof -
  let ?name = "\<lambda>(interval, symbol). map (\<lambda>c. if c = CHR ''/'' then CHR ''-'' else c) symbol @ ''-'' @ digits (nat interval) @ ''.parquet''"
  have d: "distinct (map ?name (List.product GRID_INTERVALS (map fst PAIR_KEYS)))" by code_simp
  have "map (path_of W ts) (grid_legs al) =
      map (\<lambda>n. cw_day W ts @ ''/snapshots/cycle-'' @ two_digits (nat (ts mod day_us div hour_us)) @ ''/'' @ n)
        (map ?name (map (\<lambda>x. (fst x, fst (snd x))) (grid_legs al)))"
    by (auto simp: path_of_def snapshot_path_def split: prod.split)
  also have "distinct \<dots>" using d unfolding grid_leg_keys by (simp add: distinct_map inj_on_def)
  finally show ?thesis .
qed

lemma publish_success:
  assumes "publish W ts started v vs raw al s = (Inr res, t)"
  obtains entries closes targets orders completed r where
    "res = Succeeded targets orders v" "model_targets W raw = Inr (closes, targets)"
    "list_all2 (\<lambda>x e. snapshot_entry_of W ts x = Inr e) (grid_legs al) entries"
    "\<forall>x \<in> set (grid_legs al). cs_snaps t (path_of W ts x) = Snap (snd (snd x))"
    "r = cycle_record_of W ts entries targets started completed closes (narrow_held vs)" "validate_record r = Inr ()"
    "map_of (cs_cycles t) ts = Some (Parsed (to_json (cw_isofmt W) r))"
proof -
  from assms obtain entries closes targets orders completed s1 s2 s3
    where es: "journal_snapshots W ts al s = (Inr entries, s1)" and m: "model_targets W raw = Inr (closes, targets)"
      and o: "append_orders W ts targets (last_close (snd (al 240))) s1 = (Inr orders, s2)"
      and c: "read_clock W s2 = (Inr completed, s3)"
      and j: "journal_record W ts (cycle_record_of W ts entries targets started completed closes (narrow_held vs)) s3 = (Inr (), t)"
      and res: "res = Succeeded targets orders v"
    by (auto simp: publish_def elim!: cyc_bind_InrE)
  from es have w: "cyc_map (write_snapshot W ts) (grid_legs al) s = (Inr entries, s1)"
    by (auto simp: journal_snapshots_def split: if_splits)
  have "cs_snaps t = cs_snaps s1"
    using leavesD [OF append_orders_leaves(2) o] read_clock_leaves [OF c] leavesD [OF journal_record_leaves(1) j]
    by (simp add: journal_of_def)
  with written_snapshots(3) [OF w grid_paths_distinct]
  have "\<forall>x \<in> set (grid_legs al). cs_snaps t (path_of W ts x) = Snap (snd (snd x))" by simp
  moreover from journal_record_outcome(1) [OF j refl]
  have "validate_record (cycle_record_of W ts entries targets started completed closes (narrow_held vs)) = Inr ()"
    "map_of (cs_cycles t) ts = Some (Parsed (to_json (cw_isofmt W) (cycle_record_of W ts entries targets started completed closes (narrow_held vs))))"
    by (simp_all add: update_conv')
  ultimately show ?thesis using that [OF res m written_snapshots(1) [OF w] _ refl] by blast
qed

text \<open>A reader over those files gives each entry the series it was made of.\<close>

definition leg_key :: "int \<times> string \<times> leg_series \<Rightarrow> (string \<times> string) \<times> leg_series" where
  "leg_key x = (case x of (interval, symbol, leg) \<Rightarrow> ((digits (nat interval), symbol), leg))"

lemma entry_read_back:
  assumes "snapshot_entry_of W ts x = Inr e" and "snaps (path_of W ts x) = Snap (snd (snd x))"
  shows "read_snapshot_of (cw_replay W) (snapshot_reader_of snaps) e = Inr (leg_key x)"
proof -
  obtain interval symbol leg where x: "x = (interval, symbol, leg)" by (cases x)
  from assms(1) obtain h where leg: "fst leg \<noteq> []" and h: "snapshot_content_hash (rv_sha (cw_replay W)) leg = Inr h"
    and e: "e = \<lparr>se_pair = JStr symbol, se_grid = JStr (digits (nat interval)), se_n_bars = JInt (int (length (fst leg))),
        se_first_ts = utc (hd (fst leg)), se_last_ts = utc (last (fst leg)), se_hash = JStr h,
        se_path = JStr (snapshot_path W ts symbol interval)\<rparr>"
    by (auto simp: snapshot_entry_of_def x elim!: rbind_InrE split: if_splits)
  have "snapshot_reader_of snaps e = Inr leg"
    using assms(2) by (simp add: snapshot_reader_of_def e text_of_def path_of_def x)
  then show ?thesis using leg h by (simp add: read_snapshot_of_def e leg_key_def x text_of_def)
qed

lemma entries_read_back:
  assumes "list_all2 (\<lambda>x e. snapshot_entry_of W ts x = Inr e) xs es" and "\<forall>x \<in> set xs. snaps (path_of W ts x) = Snap (snd (snd x))"
  shows "rmap (read_snapshot_of (cw_replay W) (snapshot_reader_of snaps)) es = Inr (map leg_key xs)"
  using assms by (induction rule: list_all2_induct) (simp_all add: entry_read_back)

definition grid_series :: "int list \<Rightarrow> grid_prices \<Rightarrow> (string \<times> leg_series) list" where
  "grid_series cal prices = map (\<lambda>symbol. (symbol, (cal, the (map_of prices symbol)))) (map fst PAIR_KEYS)"

lemma grid_digits: "digits 1440 = ''1440''" "digits 240 = ''240''" "digits 1440 \<noteq> digits 240"
  by code_simp+

lemma legs_on_grids:
  "legs_on ''1440'' (map leg_key (grid_legs (\<lambda>i. if i = 1440 then (c1, p1) else (c2, p2)))) = grid_series c1 p1"
  "legs_on ''240'' (map leg_key (grid_legs (\<lambda>i. if i = 1440 then (c1, p1) else (c2, p2)))) = grid_series c2 p2"
  by (simp_all add: grid_legs_def GRID_INTERVALS_def legs_on_def leg_key_def grid_series_def grid_digits filter_map o_def)

lemma assemble_shared: "assemble (Some cal) (map (\<lambda>s. (s, (cal, f s))) ks) = Inr (Some cal, map (\<lambda>s. (s, f s)) ks)"
  by (induction ks) simp_all

lemma assemble_grid: "\<exists>prices'. assemble None (grid_series cal prices) = Inr (Some cal, prices')"
proof -
  obtain k ks where k: "map fst PAIR_KEYS = k # ks" by (cases "map fst PAIR_KEYS") (simp_all add: PAIR_KEYS_def BASKET_def)
  show ?thesis unfolding grid_series_def k by (simp add: assemble_shared)
qed

text \<open>The series a grid journals are those \<open>union_align\<close> made.\<close>

lemma aligned_series:
  assumes "union_align raw interval = Inr (cal, prices)"
  shows "grid_series cal prices = map (\<lambda>(symbol, closes). (symbol, (cal, closes))) prices"
proof -
  from assms have "list_all2 (\<lambda>s p. fst p = s) (map fst PAIR_KEYS) prices"
    by (auto simp: union_align_def Let_def rbind_Inr_iff rmap_Inr_iff elim!: list_all2_mono split: option.splits)
  then have keys: "map fst prices = map fst PAIR_KEYS"
    by (simp add: list_all2_conv_all_nth list_eq_iff_nth_eq)
  have "distinct (map fst PAIR_KEYS)" by code_simp
  then have d: "distinct (map fst prices)" by (simp add: keys)
  show ?thesis
    unfolding grid_series_def keys [symmetric] map_map
    by (rule map_cong [OF refl]) (auto simp: map_of_is_SomeI [OF d])
qed

lemma entry_fields:
  assumes "snapshot_entry_of W ts (interval, symbol, leg) = Inr e"
  shows "se_pair e = JStr symbol" "se_grid e = JStr (digits (nat interval))" "se_last_ts e = utc (last (fst leg))" "fst leg \<noteq> []"
  using assms by (auto simp: snapshot_entry_of_def elim!: rbind_InrE split: if_splits)

text \<open>The four-hour calendar a valid record was made on ends with the bar before the cycle.\<close>

lemma valid_calendar_end:
  assumes "validate_record r = Inr ()" and "list_all2 (\<lambda>x e. snapshot_entry_of W ts x = Inr e) xs (cy_snapshots r)"
    and "(240, symbol, leg) \<in> set xs"
  shows "fst leg \<noteq> [] \<and> dt_eq (utc (last (fst leg))) (dt_add (cy_ts r) (- 4 * hour_us))"
proof -
  note parts = validate_record_parts [OF assms(1)]
  obtain e where e: "e \<in> set (cy_snapshots r)" "snapshot_entry_of W ts (240, symbol, leg) = Inr e"
    using assms(2,3) by (induction rule: list_all2_induct) auto
  note f = entry_fields [OF e(2)]
  have "distinct (map (\<lambda>e. (se_pair e, se_grid e)) (cy_snapshots r))"
    using validate_entries_each [OF parts(3)] by blast
  from snapshot_of_unique [OF this e(1), of "''240''"]
  have self: "snapshot_of (cy_snapshots r) (se_pair e) ''240'' = Some e" using f(2) grid_digits by simp
  have "validate_boundary r (se_pair e) = Inr ()" using parts(9) e(1) by blast
  then have "dt_eq (se_last_ts e) (dt_add (cy_ts r) (- 4 * hour_us))"
    by (auto simp: validate_boundary_def self split: option.splits)
  with f show ?thesis by simp
qed

lemma compare_same:
  assumes "\<forall>kv \<in> set targets. isfinite (snd kv)"
  shows "compare_targets (replayed_dict targets) (replayed_dict targets) COMPARE_TOL = Inr v \<Longrightarrow> cr_passed v"
    and "\<exists>v. compare_targets (replayed_dict targets) (replayed_dict targets) COMPARE_TOL = Inr v"
proof -
  let ?d = "replayed_dict targets"
  have diff: "target_diff ?d ?d k = Inr (Fin 0)" if "k \<in> set (map fst ?d)" for k
  proof -
    from that obtain v where v: "map_of ?d k = Some v" by (metis map_of_eq_None_iff not_None_eq set_map)
    then obtain x where "v = JFloat x" "isfinite x"
      using assms map_of_SomeD [OF v] by (fastforce simp: replayed_dict_def)
    then show ?thesis using v by (cases x) (simp_all add: target_diff_def fsub_def)
  qed
  have nn: "d \<noteq> NaN" if "target_diff ?d ?d k = Inr d" for k d
  proof -
    have "map_of ?d k \<noteq> None" using that by (auto simp: target_diff_def split: option.splits)
    then have "k \<in> set (map fst ?d)" by (metis map_of_eq_None_iff set_map)
    with diff that show ?thesis by auto
  qed
  have tol: "fle (Fin 0) COMPARE_TOL" by code_simp
  show "cr_passed v" if v: "compare_targets ?d ?d COMPARE_TOL = Inr v"
  proof -
    have "cr_passed v \<longleftrightarrow> set (map fst ?d) = set (map fst ?d) \<and> (\<forall>k \<in> set (map fst ?d). \<exists>d. target_diff ?d ?d k = Inr d \<and> fle d COMPARE_TOL)"
      by (rule compare_passes_iff [OF v]) (rule nn)
    with diff tol show ?thesis by blast
  qed
  have "\<exists>ds. rmap (\<lambda>k. rbind (target_diff ?d ?d k) (\<lambda>d. Inr (k, d))) ks = Inr ds" if "set ks \<subseteq> set (map fst ?d)" for ks
    using that diff by (induction ks) auto
  then obtain ds where "rmap (\<lambda>k. rbind (target_diff ?d ?d k) (\<lambda>d. Inr (k, d))) (map fst ?d) = Inr ds" by blast
  then show "\<exists>v. compare_targets ?d ?d COMPARE_TOL = Inr v" by (simp add: compare_targets_def)
qed

lemma publish_replays:
  assumes "publish W ts started v vs raw (\<lambda>i. if i = 1440 then daily else h4) s = (Inr res, t)"
    and "union_align raw 1440 = Inr daily" and "union_align raw 240 = Inr h4"
    and "\<And>symbol interval leg. map_of raw (symbol, interval) = Some leg \<Longrightarrow> regular leg"
  shows "\<exists>targets orders r. res = Succeeded targets orders v \<and> map_of (cs_cycles t) ts = Some (Parsed (to_json (cw_isofmt W) r)) \<and>
    validate_record r = Inr () \<and> cy_ts r = utc ts \<and> cy_targets r = replayed_dict targets \<and>
    replay_cycle (cw_replay W) (snapshot_reader_of (cs_snaps t)) ''fast'' r = Inr targets"
proof -
  obtain c1 p1 c2 p2 where grids: "daily = (c1, p1)" "h4 = (c2, p2)" by force
  let ?al = "\<lambda>i. if i = 1440 then (c1, p1) else (c2, p2)"
  obtain entries closes targets orders completed r
    where res: "res = Succeeded targets orders v" and m: "model_targets W raw = Inr (closes, targets)"
      and es: "list_all2 (\<lambda>x e. snapshot_entry_of W ts x = Inr e) (grid_legs ?al) entries"
      and snaps: "\<forall>x \<in> set (grid_legs ?al). cs_snaps t (path_of W ts x) = Snap (snd (snd x))"
      and r: "r = cycle_record_of W ts entries targets started completed closes (narrow_held vs)" and ok: "validate_record r = Inr ()"
      and j: "map_of (cs_cycles t) ts = Some (Parsed (to_json (cw_isofmt W) r))"
    by (rule publish_success [OF assms(1) [unfolded grids]])
  have fields: "cy_snapshots r = entries" "cy_schema r = JInt 2" "cy_targets r = replayed_dict targets" "cy_ts r = utc ts"
    by (simp_all add: r cycle_record_of_def)
  have read: "rmap (read_snapshot_of (cw_replay W) (snapshot_reader_of (cs_snaps t))) (cy_snapshots r) = Inr (map leg_key (grid_legs ?al))"
    unfolding fields using es snaps by (rule entries_read_back)
  obtain k ks where k: "map fst PAIR_KEYS = k # ks" by (cases "map fst PAIR_KEYS") (simp_all add: PAIR_KEYS_def BASKET_def)
  have "(240, k, (c2, the (map_of p2 k))) \<in> set (grid_legs ?al)"
    by (simp add: grid_legs_def GRID_INTERVALS_def k)
  from valid_calendar_end [OF ok es [folded fields(1)] this]
  have cal: "c2 \<noteq> []" "dt_eq (utc (last c2)) (dt_add (cy_ts r) (- 4 * hour_us))" by simp_all
  obtain q1 q2 where q: "assemble None (grid_series c1 p1) = Inr (Some c1, q1)" "assemble None (grid_series c2 p2) = Inr (Some c2, q2)"
    using assemble_grid by metis
  have s1: "select_model_inputs (grid_series c1 p1) = select_model_inputs (grid_of raw 1440)"
    unfolding aligned_series [OF assms(2) [unfolded grids]]
    by (rule select_model_inputs_idempotent) (use assms(2,4) grids in auto)
  have s2: "select_model_inputs (grid_series c2 p2) = select_model_inputs (grid_of raw 240)"
    unfolding aligned_series [OF assms(3) [unfolded grids]]
    by (rule select_model_inputs_idempotent) (use assms(3,4) grids in auto)
  from m obtain d h where "select_model_inputs (grid_of raw 1440) = Inr d" "select_model_inputs (grid_of raw 240) = Inr h"
    "rbind (rbind (rv_fast (cw_replay W) d h) newest_targets) expand_to_basket = Inr targets"
    by (auto simp: model_targets_def elim!: rbind_InrE)
  then have "replay_cycle (cw_replay W) (snapshot_reader_of (cs_snaps t)) ''fast'' r = Inr targets"
    using cal by (simp add: replay_cycle_def ok read [unfolded fields] legs_on_grids q s1 s2 fields build_by_def)
  with res j ok fields show ?thesis by blast
qed

lemma good_leg_regular:
  assumes "good_leg p key" and "read_store_series (ps_legs p) key = Inr leg"
  shows "regular leg"
proof -
  obtain f where f: "ps_legs p key = Stored f" "joinable f (snd key)" using assms(1) by (auto simp: good_leg_def)
  with assms(2) have leg: "leg = (map (the \<circ> b_ts) (f_bars f), map b_close (f_bars f))"
    by (auto simp: read_store_series_def split: if_splits)
  have ser: "series (f_bars f)" using f(2) by (simp add: joinable_iff)
  have "inj_on the (b_ts ` set (f_bars f))"
    using ser unfolding inj_on_def series_def by (metis image_iff list.set_map option.collapse)
  with ser show ?thesis
    by (simp add: leg regular_def series_def distinct_map comp_inj_on_iff [symmetric])
qed

lemma after_refresh_replays:
  assumes "after_refresh W ts started v vs offending s = (Inr (Succeeded targets orders v'), t)" and "offending = [] \<Longrightarrow> settled_store [] (cs_store s)"
  shows "\<exists>r. map_of (cs_cycles t) ts = Some (Parsed (to_json (cw_isofmt W) r)) \<and> cy_ts r = utc ts \<and>
    validate_record r = Inr () \<and> cy_targets r = replayed_dict targets \<and>
    replay_cycle (cw_replay W) (snapshot_reader_of (cs_snaps t)) ''fast'' r = Inr targets"
proof -
  have nofail: "fail_cycle W ts started v why pairs a \<noteq> (Inr (Succeeded targets orders v'), b)" for why pairs a b
    by (auto simp: fail_cycle_def Let_def elim!: cyc_bind_InrE)
  from assms(1) nofail have off: "offending = []" by (auto simp: after_refresh_def split: if_splits)
  with assms(1) obtain raw where raw: "raw_series_of (ps_legs (cs_store s)) = Inr raw"
    and rest: "(if stale_pairs raw ts \<noteq> [] then fail_cycle W ts started v ''stale_pair'' (stale_pairs raw ts) else
        cyc_bind (cyc_lift (rbind (union_align raw 1440) (\<lambda>daily. rbind (union_align raw 240) (\<lambda>h4. Inr (daily, h4)))))
          (\<lambda>(daily, h4). publish W ts started v vs raw (\<lambda>interval. if interval = 1440 then daily else h4))) s =
      (Inr (Succeeded targets orders v'), t)"
    by (auto simp: after_refresh_def Let_def elim!: cyc_bind_InrE)
  from rest nofail obtain daily h4 where al: "union_align raw 1440 = Inr daily" "union_align raw 240 = Inr h4"
    and pub: "publish W ts started v vs raw (\<lambda>interval. if interval = 1440 then daily else h4) s = (Inr (Succeeded targets orders v'), t)"
    by (auto elim!: cyc_bind_InrE rbind_InrE split: if_splits)
  have reg: "regular leg" if "map_of raw (symbol, interval) = Some leg" for symbol interval leg
  proof -
    have "((symbol, interval), leg) \<in> set raw" using that by (rule map_of_SomeD)
    with raw obtain key where "key \<in> set (List.product (map fst PAIR_KEYS) GRID_INTERVALS)"
      "rbind (read_store_series (ps_legs (cs_store s)) key) (\<lambda>leg. Inr (key, leg)) = Inr ((symbol, interval), leg)"
      unfolding raw_series_of_def using rmap_mem by meson
    then have "symbol \<in> fst ` set PAIR_KEYS" "interval \<in> set GRID_INTERVALS"
      "read_store_series (ps_legs (cs_store s)) (symbol, interval) = Inr leg"
      by (auto elim!: rbind_InrE)
    with assms(2) [OF off] show ?thesis by (auto simp: settled_store_def intro: good_leg_regular)
  qed
  note replays = publish_replays [OF pub al]
  have "\<exists>targets' orders' r. Succeeded targets orders v' = Succeeded targets' orders' v \<and>
    map_of (cs_cycles t) ts = Some (Parsed (to_json (cw_isofmt W) r)) \<and> validate_record r = Inr () \<and> cy_ts r = utc ts \<and>
    cy_targets r = replayed_dict targets' \<and> replay_cycle (cw_replay W) (snapshot_reader_of (cs_snaps t)) ''fast'' r = Inr targets'"
    by (rule replays) (rule reg)
  then show ?thesis by auto
qed

text \<open>
  Every cycle that returns its targets passes the gate's replay of it: the journal holds a record under its boundary,
  the record reads back from its text and is valid, and replaying it from the snapshots the cycle wrote gives the
  targets the cycle returned, so its outcome is a clean one.
\<close>

theorem journaled_cycle_replays_clean:
  assumes "run_cycle W t vs s = Some (Inr (Succeeded targets orders v), s')" and "\<And>d. cw_fromiso W (cw_isofmt W d) = Some d"
  shows "\<exists>text r. map_of (cs_cycles s') (instant t) = Some text \<and> from_json (cw_fromiso W) text = Inr r \<and>
    cy_targets r = replayed_dict targets \<and> instant (cy_ts r) = instant t \<and>
    replay_one (cw_replay W) (snapshot_reader_of (cs_snaps s')) r = Inr (outcome_of r)"
proof -
  from assms(1) have ts: "normalize_cycle_ts t = Inr (instant t)"
    by (auto simp: run_cycle_def normalize_cycle_ts_def split: if_splits)
  with assms(1) obtain started v1 s1 s2 offending where s2: "refresh_with_settle_verify W (instant t) s1 = Some (Inr offending, s2)"
    and after: "after_refresh W (instant t) started v1 vs offending s2 = (Inr (Succeeded targets orders v), s')"
    by (auto simp: run_cycle_def split: sum.splits prod.splits option.splits)
  have "settled_store PAIR_KEYS (cs_store s1)" by (simp add: settled_store_def)
  with settle_loop_settles [OF s2 [unfolded refresh_with_settle_verify_def]] have "offending = [] \<Longrightarrow> settled_store [] (cs_store s2)" by simp
  from after_refresh_replays [OF after this] obtain r where r: "map_of (cs_cycles s') (instant t) = Some (Parsed (to_json (cw_isofmt W) r))"
    "cy_ts r = utc (instant t)" "validate_record r = Inr ()" "cy_targets r = replayed_dict targets"
    "replay_cycle (cw_replay W) (snapshot_reader_of (cs_snaps s')) ''fast'' r = Inr targets" by blast
  have "\<forall>kv \<in> set (replayed_dict targets). finite_number (snd kv) = Inr True"
    using validate_record_parts(5) [OF r(3)] unfolding r(4) validate_target_def by (auto elim!: rbind_InrE)
  then have "\<forall>kv \<in> set targets. isfinite (snd kv)" by (force simp: replayed_dict_def finite_number_def)
  note same = compare_same [OF this]
  have "replay_one (cw_replay W) (snapshot_reader_of (cs_snaps s')) r = Inr (outcome_of r)"
    using same by (auto simp: replay_one_def r(4,5) outcome_of_def)
  with r journaled_record_reads_back [OF r(3) assms(2)] show ?thesis by auto
qed

end
