(* ===== verification/DesyncLadder.thy ===== *)
theory DesyncLadder imports PyValue FloatMono
begin

text \<open>
  \<open>cli/capture/desync_recovery.py\<close>: the per-pair ladder of bounded retries and one reconnect, and the
  sweep of \<open>command.py\<close> that drives it. Every instant comes from \<open>datetime.now(UTC)\<close>, so it is a number of
  microseconds. A pair's record is looked up by its name.
\<close>

section \<open>The ladder\<close>

datatype action = NoAction | Retry | Reconnect

record ladder =
  grace_seconds :: pyfloat
  backoff_seconds :: "pyfloat list"
  cooldown_seconds :: pyfloat

definition default_ladder :: ladder where
  "default_ladder = \<lparr>grace_seconds = Fin 20, backoff_seconds = [Fin 5, Fin 10, Fin 20], cooldown_seconds = Fin 3600\<rparr>"

record pair_state =
  desynced_at :: "int option"
  last_attempt_at :: "int option"
  attempts :: nat
  escalated_at :: "int option"

definition new_pair_state :: pair_state where
  "new_pair_state = \<lparr>desynced_at = None, last_attempt_at = None, attempts = 0, escalated_at = None\<rparr>"

type_synonym pairs = "(string \<times> pair_state) list"

definition cooling :: "ladder \<Rightarrow> int \<Rightarrow> int \<Rightarrow> bool" where
  "cooling c now since \<longleftrightarrow> flt (total_seconds (now - since)) (cooldown_seconds c)"

definition note_desync :: "ladder \<Rightarrow> string \<Rightarrow> int \<Rightarrow> pairs \<Rightarrow> pairs" where
  "note_desync c pair now ps =
     (let state = map_of ps pair in
      if (case state of Some s \<Rightarrow> desynced_at s \<noteq> None | None \<Rightarrow> False) then ps
      else let escalated = (case state of
                 Some s \<Rightarrow> (case escalated_at s of Some e \<Rightarrow> (if cooling c now e then Some e else None) | None \<Rightarrow> None)
               | None \<Rightarrow> None)
           in AList.update pair (new_pair_state\<lparr>desynced_at := Some now, escalated_at := escalated\<rparr>) ps)"

definition note_recovered :: "ladder \<Rightarrow> string \<Rightarrow> int \<Rightarrow> pairs \<Rightarrow> pairs" where
  "note_recovered c pair now ps =
     (case map_of ps pair of
        None \<Rightarrow> ps
      | Some s \<Rightarrow>
          (case escalated_at s of
             Some e \<Rightarrow> (if cooling c now e then AList.update pair (new_pair_state\<lparr>escalated_at := Some e\<rparr>) ps
                        else AList.delete pair ps)
           | None \<Rightarrow> AList.delete pair ps))"

definition note_attempt :: "string \<Rightarrow> int \<Rightarrow> pairs \<Rightarrow> pairs" where
  "note_attempt pair now ps =
     (case map_of ps pair of
        None \<Rightarrow> ps
      | Some s \<Rightarrow> AList.update pair (s\<lparr>last_attempt_at := Some now, attempts := attempts s + 1\<rparr>) ps)"

definition note_escalated :: "string \<Rightarrow> int \<Rightarrow> pairs \<Rightarrow> pairs" where
  "note_escalated pair now ps =
     (let s = (case map_of ps pair of Some s \<Rightarrow> s | None \<Rightarrow> new_pair_state\<lparr>desynced_at := Some now\<rparr>)
      in AList.update pair (s\<lparr>escalated_at := Some now\<rparr>) ps)"

text \<open>The wait before the next rung; an empty backoff schedule has no last entry.\<close>

definition wait_of :: "ladder \<Rightarrow> nat \<Rightarrow> pyfloat res" where
  "wait_of c n =
     (if n = 0 then Inr (grace_seconds c)
      else if backoff_seconds c = [] then Inl IndexError
      else Inr (backoff_seconds c ! min (n - 1) (length (backoff_seconds c) - 1)))"

definition next_action :: "ladder \<Rightarrow> int \<Rightarrow> int \<Rightarrow> pair_state \<Rightarrow> action res" where
  "next_action c now start s =
     rbind (wait_of c (attempts s)) (\<lambda>wait.
       let since = total_seconds (now - (case last_attempt_at s of Some t \<Rightarrow> t | None \<Rightarrow> start)) in
       if flt since wait then Inr NoAction
       else if length (backoff_seconds c) \<le> attempts s then Inr Reconnect
       else Inr Retry)"

text \<open>Not pure: an expired cooldown re-arms the ladder, and stays re-armed when what follows raises.\<close>

definition due :: "ladder \<Rightarrow> string \<Rightarrow> int \<Rightarrow> pairs \<Rightarrow> action res \<times> pairs" where
  "due c pair now ps =
     (case map_of ps pair of
        None \<Rightarrow> (Inr NoAction, ps)
      | Some s \<Rightarrow>
          (case desynced_at s of
             None \<Rightarrow> (Inr NoAction, ps)
           | Some start \<Rightarrow>
               (case escalated_at s of
                  None \<Rightarrow> (next_action c now start s, ps)
                | Some e \<Rightarrow>
                    (if cooling c now e then (Inr NoAction, ps)
                     else let s' = s\<lparr>escalated_at := None, attempts := 0, last_attempt_at := None\<rparr>
                          in (next_action c now start s', AList.update pair s' ps)))))"

section \<open>The sweep\<close>

text \<open>
  One pair of \<open>_desync_recovery_loop\<close>: the live book decides whether the pair is still desynced, the ladder
  advances before the call that may raise, and a raise is logged. The reconnects it forced are listed.
\<close>

definition sweep_pair ::
  "ladder \<Rightarrow> string \<Rightarrow> bool \<Rightarrow> bool \<Rightarrow> int \<Rightarrow> pairs \<Rightarrow> action \<times> pairs" where
  "sweep_pair c pair desynced online now ps =
     (if \<not> desynced then (NoAction, note_recovered c pair now ps)
      else case due c pair now ps of
             (Inl e, ps') \<Rightarrow> (NoAction, ps')
           | (Inr NoAction, ps') \<Rightarrow> (NoAction, ps')
           | (Inr a, ps') \<Rightarrow>
               (if \<not> online then (NoAction, ps')
                else if a = Retry then (Retry, note_attempt pair now ps')
                else (Reconnect, note_escalated pair now ps')))"

datatype ladder_event =
    Desynced string int
  | Healed string int
  | Swept string bool bool int

fun ladder_step :: "ladder \<Rightarrow> ladder_event \<Rightarrow> pairs \<times> (string \<times> int \<times> action) list \<Rightarrow>
    pairs \<times> (string \<times> int \<times> action) list" where
  "ladder_step c (Desynced pair t) (ps, out) = (note_desync c pair t ps, out)"
| "ladder_step c (Healed pair t) (ps, out) = (note_recovered c pair t ps, out)"
| "ladder_step c (Swept pair d con t) (ps, out) =
     (let (a, ps') = sweep_pair c pair d con t ps
      in (ps', if a = NoAction then out else (pair, t, a) # out))"

fun event_time :: "ladder_event \<Rightarrow> int" where
  "event_time (Desynced pair t) = t"
| "event_time (Healed pair t) = t"
| "event_time (Swept pair d con t) = t"

definition ladder_run :: "ladder \<Rightarrow> ladder_event list \<Rightarrow> pairs \<times> (string \<times> int \<times> action) list" where
  "ladder_run c es = fold (ladder_step c) es ([], [])"

section \<open>Lemmas\<close>

lemma fle_flt_trans: "fle a b \<Longrightarrow> flt b c \<Longrightarrow> flt a c"
  unfolding fle_def feq_def using flt_trans by blast

lemma cooling_mono: "t \<le> u \<Longrightarrow> cooling c u e \<Longrightarrow> cooling c t e"
  unfolding cooling_def by (rule fle_flt_trans [OF total_seconds_mono]) simp_all

text \<open>
  The record of a pair's last reconnect: it is on file, or its cooldown was over by the last event. In
  that state a reconnect is asked for only after the cooldown.
\<close>

definition remembered :: "ladder \<Rightarrow> int \<Rightarrow> pairs \<Rightarrow> string \<Rightarrow> int \<Rightarrow> bool" where
  "remembered c now ps pair e \<longleftrightarrow>
     (\<exists>s. map_of ps pair = Some s \<and> escalated_at s = Some e) \<or> \<not> cooling c now e"

lemma remembered_later: "remembered c now ps pair e \<Longrightarrow> now \<le> t \<Longrightarrow> remembered c t ps pair e"
  unfolding remembered_def using cooling_mono by blast

lemma update_other: "p \<noteq> q \<Longrightarrow> map_of (AList.update p v ps) q = map_of ps q"
  by (simp add: update_conv')

lemma update_same: "map_of (AList.update p v ps) p = Some v"
  by (simp add: update_conv')

lemmas alist = update_other update_same delete_conv'

lemma desync_remembered:
  assumes "remembered c t ps pair e"
  shows "remembered c t (note_desync c p t ps) pair e"
  using assms by (cases "p = pair") (auto simp: remembered_def note_desync_def Let_def alist new_pair_state_def split: option.splits if_splits)

lemma recovered_remembered:
  assumes "remembered c t ps pair e"
  shows "remembered c t (note_recovered c p t ps) pair e"
  using assms by (cases "p = pair") (auto simp: remembered_def note_recovered_def alist new_pair_state_def split: option.splits if_splits)

lemma due_remembered:
  assumes "remembered c t ps pair e" and "due c p t ps = (r, ps')"
  shows "remembered c t ps' pair e"
  using assms by (cases "p = pair") (auto simp: remembered_def due_def Let_def alist split: option.splits if_splits)

lemma attempt_remembered:
  assumes "remembered c t ps pair e"
  shows "remembered c t (note_attempt p t ps) pair e"
  using assms by (cases "p = pair") (auto simp: remembered_def note_attempt_def alist split: option.splits)

lemma escalated_other:
  "p \<noteq> pair \<Longrightarrow> remembered c t ps pair e \<Longrightarrow> remembered c t (note_escalated p t ps) pair e"
  by (auto simp: remembered_def note_escalated_def Let_def alist)

lemma escalated_same: "remembered c t (note_escalated pair t ps) pair t"
  by (auto simp: remembered_def note_escalated_def Let_def alist)

lemma due_reconnect:
  assumes "remembered c t ps pair e" and "due c pair t ps = (Inr Reconnect, ps')"
  shows "\<not> cooling c t e"
  using assms by (auto simp: remembered_def due_def Let_def split: option.splits if_splits)

fun reconnects_apart :: "ladder \<Rightarrow> (string \<times> int \<times> action) list \<Rightarrow> bool" where
  "reconnects_apart c [] = True"
| "reconnects_apart c ((p, t, a) # out) =
     ((a = Reconnect \<longrightarrow> (\<forall>e. (p, e, Reconnect) \<in> set out \<longrightarrow> \<not> cooling c t e)) \<and> reconnects_apart c out)"

definition cooled :: "ladder \<Rightarrow> int \<Rightarrow> pairs \<times> (string \<times> int \<times> action) list \<Rightarrow> bool" where
  "cooled c now st \<longleftrightarrow> reconnects_apart c (snd st) \<and>
     (\<forall>p e. (p, e, Reconnect) \<in> set (snd st) \<longrightarrow> remembered c now (fst st) p e)"

lemma sweep_cases:
  assumes "sweep_pair c p d con t ps = (a, ps')"
  obtains "a = NoAction" "ps' = note_recovered c p t ps"
  | r ps1 where "a = NoAction" "due c p t ps = (r, ps1)" "ps' = ps1"
  | ps1 where "a = Retry" "due c p t ps = (Inr Retry, ps1)" "ps' = note_attempt p t ps1"
  | ps1 where "a = Reconnect" "due c p t ps = (Inr Reconnect, ps1)" "ps' = note_escalated p t ps1"
proof -
  obtain r ps1 where due: "due c p t ps = (r, ps1)" by force
  show ?thesis using assms due that
    by (cases r; cases "case r of Inr x \<Rightarrow> x | Inl e \<Rightarrow> NoAction") (auto simp: sweep_pair_def split: if_splits)
qed

lemma ladder_step_cooled:
  assumes inv: "cooled c t0 st" and t: "t0 \<le> event_time ev"
  shows "cooled c (event_time ev) (ladder_step c ev st)"
proof -
  obtain ps out where st: "st = (ps, out)" by force
  have apart: "reconnects_apart c out" and
    mem: "\<And>p e. (p, e, Reconnect) \<in> set out \<Longrightarrow> remembered c (event_time ev) ps p e"
    using inv t by (auto simp: cooled_def st intro: remembered_later)
  show ?thesis
  proof (cases ev)
    case (Desynced p u)
    with apart mem desync_remembered show ?thesis by (auto simp: st cooled_def)
  next
    case (Healed p u)
    with apart mem recovered_remembered show ?thesis by (auto simp: st cooled_def)
  next
    case (Swept p d con u)
    obtain a ps' where sw: "sweep_pair c p d con u ps = (a, ps')" by force
    have mem': "\<And>q e. (q, e, Reconnect) \<in> set out \<Longrightarrow> remembered c u ps q e" using mem Swept by simp
    from sw show ?thesis
    proof (cases rule: sweep_cases)
      case 1
      with Swept sw apart mem' recovered_remembered show ?thesis by (auto simp: st cooled_def)
    next
      case (2 r ps1)
      with Swept sw apart mem' due_remembered show ?thesis by (fastforce simp: st cooled_def)
    next
      case (3 ps1)
      with Swept sw apart mem' due_remembered attempt_remembered show ?thesis by (fastforce simp: st cooled_def)
    next
      case (4 ps1)
      have "remembered c u ps' q e" if "(q, e, Reconnect) \<in> set out" for q e
      proof (cases "q = p")
        case True
        with mem' [OF that] have "\<not> cooling c u e" by (intro due_reconnect [OF _ 4(2)]) simp
        then show ?thesis by (simp add: remembered_def)
      next
        case False
        with due_remembered [OF mem' [OF that] 4(2)] 4(3) escalated_other show ?thesis by simp
      qed
      moreover have "\<not> cooling c u e" if "(p, e, Reconnect) \<in> set out" for e
        using due_reconnect [OF mem' [OF that] 4(2)] .
      ultimately show ?thesis using 4 Swept sw apart escalated_same by (auto simp: st cooled_def)
    qed
  qed
qed

lemma ladder_fold_cooled:
  "cooled c t0 st \<Longrightarrow> sorted (map event_time es) \<Longrightarrow> \<forall>e \<in> set es. t0 \<le> event_time e \<Longrightarrow>
   \<exists>t. cooled c t (fold (ladder_step c) es st)"
proof (induction es arbitrary: t0 st)
  case (Cons ev es)
  from ladder_step_cooled [OF Cons.prems(1)] Cons.prems(3) have "cooled c (event_time ev) (ladder_step c ev st)" by simp
  from Cons.IH [OF this] Cons.prems(2) show ?case by simp
qed auto

lemma reconnects_apartD:
  "reconnects_apart c (later @ (p, t2, Reconnect) # between @ (p, t1, Reconnect) # older) \<Longrightarrow> \<not> cooling c t2 t1"
  by (induction later) auto

section \<open>A pair that stays stuck\<close>

text \<open>Sweeps that wait out each rung, from the \<open>k\<close>-th attempt on.\<close>

fun patient :: "ladder \<Rightarrow> nat \<Rightarrow> int \<Rightarrow> int list \<Rightarrow> bool" where
  "patient c k prev [] = True"
| "patient c k prev (t # ts) =
     ((case wait_of c k of Inl e \<Rightarrow> False | Inr wait \<Rightarrow> \<not> flt (total_seconds (t - prev)) wait) \<and> patient c (Suc k) t ts)"

definition climbing :: "pairs \<Rightarrow> string \<Rightarrow> nat \<Rightarrow> int \<Rightarrow> bool" where
  "climbing ps pair k prev \<longleftrightarrow> (\<exists>s start. map_of ps pair = Some s \<and> desynced_at s = Some start \<and>
     escalated_at s = None \<and> attempts s = k \<and> prev = (case last_attempt_at s of Some t \<Rightarrow> t | None \<Rightarrow> start))"

lemma climb_step:
  assumes "climbing ps pair k prev" and "patient c k prev (t # ts)"
  shows "k < length (backoff_seconds c) \<Longrightarrow> \<exists>ps'. sweep_pair c pair True True t ps = (Retry, ps') \<and> climbing ps' pair (Suc k) t"
    and "length (backoff_seconds c) \<le> k \<Longrightarrow> \<exists>ps'. sweep_pair c pair True True t ps = (Reconnect, ps')"
  using assms
  by (auto simp: climbing_def sweep_pair_def due_def next_action_def Let_def note_attempt_def alist
      split: sum.splits option.splits)

lemma climb:
  assumes "climbing ps pair k prev" and "patient c k prev ts" and "length ts = Suc (length (backoff_seconds c) - k)"
    and "k \<le> length (backoff_seconds c)"
  shows "snd (fold (ladder_step c) (map (Swept pair True True) ts) (ps, out)) =
    (pair, last ts, Reconnect) # rev (map (\<lambda>t. (pair, t, Retry)) (butlast ts)) @ out"
  using assms
proof (induction ts arbitrary: k prev ps out)
  case (Cons t ts)
  show ?case
  proof (cases "k < length (backoff_seconds c)")
    case True
    with climb_step(1) [OF Cons.prems(1,2)] obtain ps' where
      sw: "sweep_pair c pair True True t ps = (Retry, ps')" "climbing ps' pair (Suc k) t" by blast
    have "snd (fold (ladder_step c) (map (Swept pair True True) ts) (ps', (pair, t, Retry) # out)) =
      (pair, last ts, Reconnect) # rev (map (\<lambda>t. (pair, t, Retry)) (butlast ts)) @ (pair, t, Retry) # out"
      using Cons.prems True by (intro Cons.IH [OF sw(2)]) auto
    moreover have "ts \<noteq> []" using Cons.prems(3) True by auto
    ultimately show ?thesis using sw(1) by simp
  next
    case False
    with Cons.prems have "ts = []" by simp
    with False climb_step(2) [OF Cons.prems(1,2)] show ?thesis by auto
  qed
qed simp

section \<open>Properties\<close>

text \<open>
  C19. A reconnect drops every pair, so one stuck pair forces at most one per cooldown: two reconnects forced
  for the same pair are never closer than the cooldown, over any sequence of desyncs, heals and sweeps under
  a clock that does not go back, a heal in between included.
\<close>

theorem reconnects_one_per_cooldown:
  assumes "sorted (map event_time es)"
    and "snd (ladder_run c es) = later @ (pair, t2, Reconnect) # between @ (pair, t1, Reconnect) # older"
  shows "\<not> flt (total_seconds (t2 - t1)) (cooldown_seconds c)"
proof -
  let ?t0 = "case es of [] \<Rightarrow> 0 | e # _ \<Rightarrow> event_time e"
  have "\<forall>e \<in> set es. ?t0 \<le> event_time e" using assms(1) by (cases es) auto
  moreover have "cooled c ?t0 ([], [])" by (simp add: cooled_def)
  ultimately obtain t where "cooled c t (ladder_run c es)"
    using ladder_fold_cooled assms(1) unfolding ladder_run_def by blast
  then have "reconnects_apart c (later @ (pair, t2, Reconnect) # between @ (pair, t1, Reconnect) # older)"
    unfolding cooled_def assms(2) by (rule conjunct1)
  from reconnects_apartD [OF this] show ?thesis by (simp add: cooling_def)
qed

text \<open>
  C20. The ladder ends: a pair that stays desynced under sweeps that wait out each rung is retried exactly as
  often as the backoff schedule is long, and then reconnected once.
\<close>

theorem stuck_pair_reaches_reconnect:
  assumes "length ts = Suc (length (backoff_seconds c))" and "patient c 0 t0 ts"
  shows "snd (ladder_run c (Desynced pair t0 # map (Swept pair True True) ts)) =
    (pair, last ts, Reconnect) # rev (map (\<lambda>t. (pair, t, Retry)) (butlast ts))"
proof -
  let ?ps = "note_desync c pair t0 []"
  have "climbing ?ps pair 0 t0" by (simp add: climbing_def note_desync_def Let_def new_pair_state_def)
  from climb [OF this assms(2)] assms(1) show ?thesis by (simp add: ladder_run_def)
qed

lemma seconds_int: "\<bar>n\<bar> < 2 ^ 53 \<Longrightarrow> total_seconds (n * 1000000) = Fin (of_int n)"
  using fround_int [of n] by (simp add: total_seconds_def)

lemma seconds_eval: "total_seconds 0 = Fin 0" "total_seconds 2000000 = Fin 2" "total_seconds 5000000 = Fin 5"
  "total_seconds 10000000 = Fin 10" "total_seconds 20000000 = Fin 20"
  using seconds_int [of 0] seconds_int [of 2] seconds_int [of 5] seconds_int [of 10] seconds_int [of 20] by simp_all

theorem reconnects_one_per_cooldown_witness:
  "snd (ladder_run \<lparr>grace_seconds = Fin 0, backoff_seconds = [], cooldown_seconds = Fin 1\<rparr>
      [Desynced ''A'' 0, Swept ''A'' True True 0, Swept ''A'' True True 2000000]) =
     [(''A'', 2000000, Reconnect), (''A'', 0, Reconnect)] \<and>
   \<not> flt (total_seconds (2000000 - 0)) (Fin 1)"
proof -
  let ?c = "\<lparr>grace_seconds = Fin 0, backoff_seconds = [], cooldown_seconds = Fin 1\<rparr>"
  let ?es = "[Desynced ''A'' 0, Swept ''A'' True True 0, Swept ''A'' True True 2000000]"
  have run: "snd (ladder_run ?c ?es) = [] @ (''A'', 2000000, Reconnect) # [] @ (''A'', 0, Reconnect) # []"
    by (simp add: ladder_run_def note_desync_def Let_def sweep_pair_def due_def next_action_def wait_of_def
        note_escalated_def new_pair_state_def seconds_eval cooling_def)
  from reconnects_one_per_cooldown [OF _ run] run show ?thesis by simp
qed

theorem stuck_pair_reaches_reconnect_witness:
  "snd (ladder_run default_ladder (Desynced ''A'' 0 #
      map (Swept ''A'' True True) [20000000, 25000000, 35000000, 55000000])) =
   [(''A'', 55000000, Reconnect), (''A'', 35000000, Retry), (''A'', 25000000, Retry), (''A'', 20000000, Retry)]"
  by (subst stuck_pair_reaches_reconnect)
    (simp_all add: default_ladder_def wait_of_def seconds_eval)

end
