(* ===== verification/OrderBook.thy ===== *)
theory OrderBook imports Instruments "HOL-Library.Word"
begin

text \<open>
  \<open>cli/capture/book.py\<close>: the level-two book of one pair, kept to the subscribed depth, and the venue's
  CRC32 over its top ten levels. A \<open>Decimal\<close> is a sign, a coefficient and an exponent: the digits a level
  prints with are its coefficient's, and two prices are one key of a Python dict when their values agree,
  the first key inserted staying. The decimals of the wire are finite.
\<close>

unbundle bit_operations_syntax

section \<open>Decimals\<close>

datatype decimal = Dec (negative: bool) (coef: nat) (expo: int)

definition dec_value :: "decimal \<Rightarrow> rat" where
  "dec_value d = (if negative d then - 1 else 1) * of_nat (coef d) * pow10 (expo d)"

definition same_price :: "decimal \<Rightarrow> decimal \<Rightarrow> bool" where
  "same_price p q \<longleftrightarrow> dec_value p = dec_value q"

fun digits_of :: "nat \<Rightarrow> string" where
  "digits_of n = (if n < 10 then [char_of (48 + n)] else digits_of (n div 10) @ [char_of (48 + n mod 10)])"

declare digits_of.simps [simp del]

text \<open>Fixed-point digits without the point, the sign and the leading zeros.\<close>

definition format_level :: "decimal \<Rightarrow> string" where
  "format_level d = digits_of (if 0 \<le> expo d then coef d * 10 ^ nat (expo d) else coef d)"

section \<open>The checksum\<close>

type_synonym word32 = "32 word"

definition crc_shift :: "word32 \<Rightarrow> word32" where
  "crc_shift c = (if bit c 0 then drop_bit 1 c XOR 0xEDB88320 else drop_bit 1 c)"

definition crc_byte :: "char \<Rightarrow> word32 \<Rightarrow> word32" where
  "crc_byte b c = (crc_shift ^^ 8) (c XOR of_nat (of_char b))"

definition crc32 :: "string \<Rightarrow> word32" where
  "crc32 bs = NOT (fold crc_byte bs 0xFFFFFFFF)"

lemma crc_shift8: "(crc_shift ^^ 8) c =
    crc_shift (crc_shift (crc_shift (crc_shift (crc_shift (crc_shift (crc_shift (crc_shift c)))))))"
  by (simp add: eval_nat_numeral)

text \<open>The check value of the CRC-32 that \<open>zlib\<close> computes.\<close>

lemma crc32_check: "crc32 ''123456789'' = 0xCBF43926"
  by (simp add: crc32_def crc_byte_def crc_shift8 crc_shift_def)

section \<open>One side of the book\<close>

type_synonym side = "(decimal \<times> decimal) list"

fun put :: "decimal \<Rightarrow> decimal \<Rightarrow> side \<Rightarrow> side" where
  "put p q [] = [(p, q)]"
| "put p q ((p', q') # s) = (if same_price p' p then (p', q) # s else (p', q') # put p q s)"

definition pop :: "decimal \<Rightarrow> side \<Rightarrow> side" where
  "pop p s = filter (\<lambda>(p', q'). \<not> same_price p' p) s"

definition dict_of :: "side \<Rightarrow> side" where
  "dict_of ls = fold (\<lambda>(p, q). put p q) ls []"

text \<open>What a raw level holds under \<open>price\<close> and \<open>qty\<close>: a \<open>Decimal\<close>, or a value whose text may not parse as one.\<close>

datatype raw_number = RawDecimal decimal | RawText "decimal option"

datatype raw_level = NotADict | RawLevel "raw_number option" "raw_number option"

fun to_decimal :: "raw_number \<Rightarrow> decimal res" where
  "to_decimal (RawDecimal d) = Inr d"
| "to_decimal (RawText (Some d)) = Inr d"
| "to_decimal (RawText None) = Inl (CaptureError ''not a valid decimal price/qty'')"

fun extract_level :: "raw_level \<Rightarrow> (decimal \<times> decimal) res" where
  "extract_level (RawLevel (Some p) (Some q)) =
     rbind (to_decimal p) (\<lambda>p'. rbind (to_decimal q) (\<lambda>q'. Inr (p', q')))"
| "extract_level _ = Inl (CaptureError ''book level missing price/qty'')"

definition apply_level :: "decimal \<times> decimal \<Rightarrow> side \<Rightarrow> side" where
  "apply_level l s = (case l of (p, q) \<Rightarrow> if dec_value q = 0 then pop p s else put p q s)"

fun apply_side :: "raw_level list \<Rightarrow> side \<Rightarrow> unit res \<times> side" where
  "apply_side [] s = (Inr (), s)"
| "apply_side (raw # raws) s =
     (case extract_level raw of
        Inl e \<Rightarrow> (Inl e, s)
      | Inr l \<Rightarrow> apply_side raws (apply_level l s))"

text \<open>The best levels first, for asks by price and for bids by its negative.\<close>

definition ranked :: "(decimal \<Rightarrow> rat) \<Rightarrow> side \<Rightarrow> side" where
  "ranked key s = sort_key (key \<circ> fst) s"

definition prune_side :: "(decimal \<Rightarrow> rat) \<Rightarrow> nat \<Rightarrow> side \<Rightarrow> side" where
  "prune_side key depth s = (if depth < length s then take depth (ranked key s) else s)"

definition ask_key :: "decimal \<Rightarrow> rat" where "ask_key p = dec_value p"
definition bid_key :: "decimal \<Rightarrow> rat" where "bid_key p = - dec_value p"

section \<open>The book\<close>

definition CHECKSUM_LEVELS :: nat where "CHECKSUM_LEVELS = 10"

record order_book =
  ob_depth :: nat
  ob_bids :: side
  ob_asks :: side
  ob_desynced :: bool

record book_msg =
  bm_bids :: "raw_level list"
  bm_asks :: "raw_level list"
  bm_checksum :: "int option"

definition prune :: "order_book \<Rightarrow> order_book" where
  "prune b = b\<lparr>ob_asks := prune_side ask_key (ob_depth b) (ob_asks b),
               ob_bids := prune_side bid_key (ob_depth b) (ob_bids b)\<rparr>"

definition level_text :: "side \<Rightarrow> string" where
  "level_text s = concat (map (\<lambda>(p, q). format_level p @ format_level q) s)"

definition checksum :: "order_book \<Rightarrow> int" where
  "checksum b = uint (crc32 (level_text (take CHECKSUM_LEVELS (ranked ask_key (ob_asks b))) @
                             level_text (take CHECKSUM_LEVELS (ranked bid_key (ob_bids b)))))"

definition validate :: "int option \<Rightarrow> order_book \<Rightarrow> bool res \<times> order_book" where
  "validate expected b =
     (case expected of
        None \<Rightarrow> (Inl KeyError, b)
      | Some e \<Rightarrow> (let ok = (checksum b = e) in (Inr ok, b\<lparr>ob_desynced := \<not> ok\<rparr>)))"

definition ingest_snapshot :: "book_msg \<Rightarrow> order_book \<Rightarrow> bool res \<times> order_book" where
  "ingest_snapshot m b =
     (case rmap extract_level (bm_bids m) of
        Inl e \<Rightarrow> (Inl e, b)
      | Inr bids \<Rightarrow>
          (let b1 = b\<lparr>ob_bids := dict_of bids\<rparr> in
           case rmap extract_level (bm_asks m) of
             Inl e \<Rightarrow> (Inl e, b1)
           | Inr asks \<Rightarrow> validate (bm_checksum m) (prune (b1\<lparr>ob_asks := dict_of asks\<rparr>))))"

definition ingest_update :: "book_msg \<Rightarrow> order_book \<Rightarrow> bool res \<times> order_book" where
  "ingest_update m b =
     (case apply_side (bm_bids m) (ob_bids b) of
        (Inl e, bids) \<Rightarrow> (Inl e, b\<lparr>ob_bids := bids\<rparr>)
      | (Inr _, bids) \<Rightarrow>
          (case apply_side (bm_asks m) (ob_asks b) of
             (Inl e, asks) \<Rightarrow> (Inl e, b\<lparr>ob_bids := bids, ob_asks := asks\<rparr>)
           | (Inr _, asks) \<Rightarrow> validate (bm_checksum m) (prune (b\<lparr>ob_bids := bids, ob_asks := asks\<rparr>))))"

section \<open>A side as a map, and its window\<close>

lemma apply_side_Inr:
  "apply_side raws s = (Inr u, s') \<longleftrightarrow> (\<exists>ls. rmap extract_level raws = Inr ls \<and> s' = fold apply_level ls s)"
proof (induction raws arbitrary: s)
  case (Cons raw raws)
  then show ?case by (cases "extract_level raw") (auto simp: rbind_Inr_iff)
qed auto

text \<open>
  The venue's full side is a map from keys to levels; its window is the restriction to the \<open>n\<close> best keys.
\<close>

type_synonym levels = "rat \<Rightarrow> (decimal \<times> decimal) option"

definition window :: "nat \<Rightarrow> levels \<Rightarrow> levels" where
  "window n F = F |` set (take n (sorted_list_of_set (dom F)))"

lemma take_best:
  assumes "finite C" and "set (take n (sorted_list_of_set C)) \<subseteq> B" and "B \<subseteq> (C :: rat set)"
  shows "take n (sorted_list_of_set B) = take n (sorted_list_of_set C)"
proof -
  let ?xs = "take n (sorted_list_of_set C)" and ?ys = "sorted_list_of_set (B - set (take n (sorted_list_of_set C)))"
  have fin: "finite B" using assms by (rule_tac finite_subset)
  have sd: "sorted (sorted_list_of_set C)" "distinct (sorted_list_of_set C)" by simp_all
  have "x \<le> y" if "x \<in> set ?xs" "y \<in> set ?ys" for x y
  proof -
    from that fin assms(1,3) have "y \<in> set (drop n (sorted_list_of_set C))"
      using set_take_disj_set_drop_if_distinct [OF sd(2), of n n] append_take_drop_id [of n "sorted_list_of_set C"]
      by (metis DiffE Un_iff set_append set_sorted_list_of_set finite_Diff subsetD)
    with that(1) sd(1) show ?thesis by (metis append_take_drop_id sorted_append)
  qed
  then have "sorted (?xs @ ?ys)" using sd(1) by (simp add: sorted_append sorted_wrt_take)
  moreover have "distinct (?xs @ ?ys)" using fin sd(2) by auto
  moreover have "set (?xs @ ?ys) = B" using fin assms(2) by auto
  ultimately have split: "sorted_list_of_set B = ?xs @ ?ys"
    using fin by (intro sorted_distinct_set_unique) simp_all
  show ?thesis
  proof (cases "n \<le> length (sorted_list_of_set C)")
    case True
    then show ?thesis by (simp add: split)
  next
    case False
    then have "?xs = sorted_list_of_set C" by simp
    with assms have "B = C" by (metis set_sorted_list_of_set subset_antisym)
    then show ?thesis by simp
  qed
qed

lemma window_between:
  assumes "finite (dom F)" and "window n F \<subseteq>\<^sub>m L" and "L \<subseteq>\<^sub>m F"
  shows "window n L = window n F"
proof -
  have win: "set (take n (sorted_list_of_set (dom F))) \<subseteq> dom L"
  proof
    fix r assume r: "r \<in> set (take n (sorted_list_of_set (dom F)))"
    with assms(1) have "r \<in> dom F" by (metis in_set_takeD set_sorted_list_of_set)
    with r have "r \<in> dom (window n F)" by (auto simp: window_def)
    with assms(2) show "r \<in> dom L" by (metis map_le_implies_dom_le subsetD)
  qed
  moreover have "dom L \<subseteq> dom F" using assms(3) by (rule map_le_implies_dom_le)
  ultimately have eq: "take n (sorted_list_of_set (dom L)) = take n (sorted_list_of_set (dom F))"
    by (rule take_best [OF assms(1)])
  show ?thesis
  proof
    fix r show "window n L r = window n F r"
      using assms(3) win by (cases "r \<in> set (take n (sorted_list_of_set (dom F)))") (auto simp: window_def eq map_le_def)
  qed
qed

section \<open>A side tracks the venue's window\<close>

text \<open>
  What the venue promises of an update: its levels are the venue's new ones (none for a quantity of zero),
  printed the way the level was printed before, and every key of the old or the new window at which the window
  held and the book now hold different levels is among them.
\<close>

definition tells :: "(decimal \<Rightarrow> rat) \<Rightarrow> nat \<Rightarrow> levels \<Rightarrow> levels \<Rightarrow> (decimal \<times> decimal) list \<Rightarrow> bool" where
  "tells key n F F' ls \<longleftrightarrow>
     (\<forall>(p, q) \<in> set ls. F' (key p) = (if dec_value q = 0 then None else Some (p, q))) \<and>
     (\<forall>r p q p' q'. F r = Some (p, q) \<longrightarrow> F' r = Some (p', q') \<longrightarrow> p = p') \<and>
     (\<forall>r \<in> dom (window n F) \<union> dom (window n F'). F' r \<noteq> window n F r \<longrightarrow> r \<in> key ` fst ` set ls)"

lemma restrict_map_dom: "m |` dom m = m"
proof
  fix x show "(m |` dom m) x = m x" by (cases "m x") (auto simp: restrict_map_def)
qed

lemma window_le: "window n F \<subseteq>\<^sub>m F"
  by (auto simp: window_def map_le_def restrict_map_def split: if_splits)

locale price_side =
  fixes key :: "decimal \<Rightarrow> rat"
  assumes key_same: "key p = key q \<longleftrightarrow> same_price p q"
begin

definition as_map :: "side \<Rightarrow> levels" where
  "as_map s = map_of (map (\<lambda>l. (key (fst l), l)) s)"

definition well_keyed :: "side \<Rightarrow> bool" where
  "well_keyed s \<longleftrightarrow> distinct (map (key \<circ> fst) s)"

lemma put_map: "as_map (put p q s) r =
    (if r = key p then Some (case as_map s r of None \<Rightarrow> (p, q) | Some (p', q') \<Rightarrow> (p', q)) else as_map s r)"
  by (induction s) (auto simp: as_map_def key_same [symmetric] split: option.split)

lemma as_map_dom: "dom (as_map s) = key ` fst ` set s"
  by (force simp: as_map_def dom_map_of_conv_image_fst)

lemma keys_dom: "set (map (key \<circ> fst) s) = dom (as_map s)"
  by (simp add: as_map_dom image_comp)

lemma put_keys: "set (map (key \<circ> fst) (put p q s)) = insert (key p) (set (map (key \<circ> fst) s))"
  unfolding keys_dom by (auto simp: put_map dom_def split: if_splits)

lemma put_well_keyed: "well_keyed s \<Longrightarrow> well_keyed (put p q s)"
  unfolding well_keyed_def
proof (induction s)
  case (Cons l s)
  obtain p' q' where l: "l = (p', q')" by force
  show ?case
  proof (cases "same_price p' p")
    case False
    then have "key p' \<notin> set (map (key \<circ> fst) (put p q s))"
      using Cons.prems l by (simp only: put_keys) (auto simp: key_same)
    with Cons l False show ?thesis by auto
  qed (use Cons.prems l in auto)
qed simp

lemma pop_map: "as_map (pop p s) r = (if r = key p then None else as_map s r)"
  by (induction s) (auto simp: as_map_def pop_def key_same [symmetric])

lemma pop_well_keyed: "well_keyed s \<Longrightarrow> well_keyed (pop p s)"
  by (induction s) (auto simp: well_keyed_def pop_def)

lemma apply_well_keyed: "well_keyed s \<Longrightarrow> well_keyed (fold apply_level ls s)"
  by (induction ls arbitrary: s) (auto simp: apply_level_def put_well_keyed pop_well_keyed split: prod.split)

lemma dict_well_keyed: "well_keyed (fold (\<lambda>(p, q). put p q) ls s)" if "well_keyed s"
  using that by (induction ls arbitrary: s) (auto simp: put_well_keyed)

lemma as_map_mem: "well_keyed s \<Longrightarrow> l \<in> set s \<Longrightarrow> as_map s (key (fst l)) = Some l"
  unfolding as_map_def well_keyed_def by (intro map_of_is_SomeI) (auto simp: comp_def)

text \<open>The ranked side is the map read at its keys in order.\<close>

lemma ranked_keys:
  assumes "well_keyed s"
  shows "map (key \<circ> fst) (ranked key s) = sorted_list_of_set (dom (as_map s))"
proof (rule sorted_distinct_set_unique)
  show "sorted (map (key \<circ> fst) (ranked key s))" by (simp add: ranked_def)
  show "distinct (map (key \<circ> fst) (ranked key s))"
    using assms by (simp add: well_keyed_def ranked_def distinct_map)
  show "set (map (key \<circ> fst) (ranked key s)) = set (sorted_list_of_set (dom (as_map s)))"
    by (simp add: as_map_dom ranked_def image_comp)
qed simp_all

lemma ranked_levels:
  assumes "well_keyed s"
  shows "take n (ranked key s) = map (\<lambda>r. the (as_map s r)) (take n (sorted_list_of_set (dom (as_map s))))"
proof -
  have "map (\<lambda>r. the (as_map s r)) (map (key \<circ> fst) (ranked key s)) = ranked key s"
    unfolding map_map using assms by (intro map_idI) (simp add: as_map_mem ranked_def)
  then show ?thesis unfolding ranked_keys [OF assms] by (metis take_map)
qed

lemma prune_map:
  assumes "well_keyed s"
  shows "as_map (prune_side key n s) = window n (as_map s)" and "well_keyed (prune_side key n s)"
proof -
  let ?ks = "sorted_list_of_set (dom (as_map s))"
  have fin: "finite (dom (as_map s))" by (simp add: as_map_dom)
  have len: "length ?ks = length s"
    using distinct_card [OF assms [unfolded well_keyed_def]] by (simp add: keys_dom [symmetric])
  have dist: "distinct (map (key \<circ> fst) (take n (ranked key s)))"
    unfolding take_map [symmetric] ranked_keys [OF assms] by simp
  show "well_keyed (prune_side key n s)" using assms dist by (simp add: prune_side_def well_keyed_def)
  show "as_map (prune_side key n s) = window n (as_map s)"
  proof (cases "n < length s")
    case True
    have "as_map (take n (ranked key s)) r = window n (as_map s) r" for r
    proof (cases "r \<in> set (take n ?ks)")
      case True
      then have "r \<in> key ` fst ` set (take n (ranked key s))"
        unfolding ranked_keys [OF assms, symmetric] take_map by (auto simp: image_comp)
      then obtain l where l: "l \<in> set (take n (ranked key s))" "r = key (fst l)" by auto
      then have "as_map (take n (ranked key s)) r = Some l"
        using dist as_map_mem [of "take n (ranked key s)"] by (simp add: well_keyed_def)
      moreover have "l \<in> set s" using l(1) by (auto dest: in_set_takeD simp: ranked_def)
      ultimately show ?thesis using True l as_map_mem [OF assms] by (simp add: window_def)
    next
      case False
      then have "r \<notin> key ` fst ` set (take n (ranked key s))"
        unfolding ranked_keys [OF assms, symmetric] take_map by (auto simp: image_comp)
      then have "r \<notin> dom (as_map (take n (ranked key s)))" unfolding as_map_dom .
      then have "as_map (take n (ranked key s)) r = None" by (simp only: domIff not_not)
      with False show ?thesis by (simp add: window_def)
    qed
    with True show ?thesis by (auto simp: prune_side_def)
  next
    case False
    then have "take n ?ks = ?ks" using len by simp
    then have "window n (as_map s) = as_map s" using fin by (simp add: window_def restrict_map_dom)
    with False show ?thesis by (simp add: prune_side_def)
  qed
qed


text \<open>Levels that agree with the new book, on prices it prints as before, bring every told key up to date.\<close>

lemma apply_told:
  assumes "\<forall>(p, q) \<in> set ls. F' (key p) = (if dec_value q = 0 then None else Some (p, q))"
    and "\<forall>r p q p' q'. as_map s r = Some (p, q) \<longrightarrow> F' r = Some (p', q') \<longrightarrow> p = p'"
  shows "as_map (fold apply_level ls s) r = (if r \<in> key ` fst ` set ls then F' r else as_map s r)"
  using assms
proof (induction ls arbitrary: s)
  case (Cons l ls)
  obtain p q where l: "l = (p, q)" by force
  let ?s = "apply_level l s"
  have told: "F' (key p) = (if dec_value q = 0 then None else Some (p, q))" using Cons.prems(1) l by simp
  have one: "as_map ?s r = (if r = key p then F' r else as_map s r)" for r
    using told Cons.prems(2) by (auto simp: l apply_level_def put_map pop_map split: option.split)
  have "as_map (fold apply_level ls ?s) r = (if r \<in> key ` fst ` set ls then F' r else as_map ?s r)"
    using Cons.prems one by (intro Cons.IH) (auto split: if_splits)
  with one l show ?case by auto
qed simp

lemma tracks_window:
  assumes "well_keyed s" and "finite (dom F')" and "as_map s = window n F" and "tells key n F F' ls"
  shows "as_map (prune_side key n (fold apply_level ls s)) = window n F'"
proof -
  let ?L = "as_map (fold apply_level ls s)"
  have L: "?L r = (if r \<in> key ` fst ` set ls then F' r else window n F r)" for r
    unfolding assms(3) [symmetric]
  proof (rule apply_told)
    show "\<forall>r p q p' q'. as_map s r = Some (p, q) \<longrightarrow> F' r = Some (p', q') \<longrightarrow> p = p'"
      using assms(4) window_le [of n F] unfolding assms(3) tells_def map_le_def by (metis domI)
  qed (use assms(4) in \<open>simp add: tells_def\<close>)
  have quiet: "F' r = window n F r" if "r \<notin> key ` fst ` set ls" "r \<in> dom (window n F) \<union> dom (window n F')" for r
    using assms(4) that unfolding tells_def by blast
  have "?L \<subseteq>\<^sub>m F'" using L quiet by (force simp: map_le_def split: if_splits)
  moreover have "window n F' \<subseteq>\<^sub>m ?L"
    using L quiet window_le [of n F'] unfolding map_le_def by (metis UnI2)
  ultimately have "window n ?L = window n F'" using window_between [OF assms(2)] by blast
  with prune_map(1) [OF apply_well_keyed [OF assms(1)]] show ?thesis by simp
qed

text \<open>The top levels of a window are the top levels of the venue's side.\<close>

lemma top_of_window:
  assumes "well_keyed s" and "finite (dom F)" and "as_map s = window n F" and "k \<le> n"
  shows "take k (ranked key s) = map (\<lambda>r. the (F r)) (take k (sorted_list_of_set (dom F)))"
proof -
  let ?xs = "sorted_list_of_set (dom F)"
  have "set (take n ?xs) \<subseteq> dom F" using assms(2) by (metis set_sorted_list_of_set set_take_subset)
  then have dom: "dom (window n F) = set (take n ?xs)" by (auto simp: window_def)
  have "sorted_list_of_set (set (take n ?xs)) = take n ?xs"
    by (intro sorted_distinct_set_unique) (simp_all add: sorted_wrt_take)
  then have "take k (ranked key s) = map (\<lambda>r. the (window n F r)) (take k (take n ?xs))"
    using ranked_levels [OF assms(1)] by (simp add: assms(3) dom)
  also have "\<dots> = map (\<lambda>r. the (F r)) (take k ?xs)"
    using assms(4) set_take_subset_set_take [of k n ?xs] by (auto simp: window_def min_def)
  finally show ?thesis .
qed

end

interpretation asks: price_side ask_key
  by unfold_locales (simp add: ask_key_def same_price_def)

interpretation bids: price_side bid_key
  by unfold_locales (simp add: bid_key_def same_price_def)

section \<open>The book against the venue\<close>

definition venue_checksum :: "levels \<Rightarrow> levels \<Rightarrow> int" where
  "venue_checksum Fb Fa =
     (let top = \<lambda>F. map (\<lambda>r. the (F r)) (take CHECKSUM_LEVELS (sorted_list_of_set (dom F)))
      in uint (crc32 (level_text (top Fa) @ level_text (top Fb))))"

definition mirrors :: "order_book \<Rightarrow> levels \<Rightarrow> levels \<Rightarrow> bool" where
  "mirrors b Fb Fa \<longleftrightarrow>
     bids.well_keyed (ob_bids b) \<and> asks.well_keyed (ob_asks b) \<and> finite (dom Fb) \<and> finite (dom Fa) \<and>
     bids.as_map (ob_bids b) = window (ob_depth b) Fb \<and> asks.as_map (ob_asks b) = window (ob_depth b) Fa"

lemma mirrors_checksum:
  assumes "mirrors b Fb Fa" and "CHECKSUM_LEVELS \<le> ob_depth b"
  shows "checksum b = venue_checksum Fb Fa"
  using assms asks.top_of_window [of "ob_asks b" Fa "ob_depth b" CHECKSUM_LEVELS]
    bids.top_of_window [of "ob_bids b" Fb "ob_depth b" CHECKSUM_LEVELS]
  by (simp add: mirrors_def checksum_def venue_checksum_def Let_def)

text \<open>A message the venue's promise covers: from one full book to the next, with its checksum.\<close>

definition update_tells :: "nat \<Rightarrow> levels \<times> levels \<Rightarrow> book_msg \<Rightarrow> levels \<times> levels \<Rightarrow> bool" where
  "update_tells n F m F' \<longleftrightarrow>
     (\<exists>lb la. rmap extract_level (bm_bids m) = Inr lb \<and> rmap extract_level (bm_asks m) = Inr la \<and>
        tells bid_key n (fst F) (fst F') lb \<and> tells ask_key n (snd F) (snd F') la) \<and>
     finite (dom (fst F')) \<and> finite (dom (snd F')) \<and> bm_checksum m = Some (venue_checksum (fst F') (snd F'))"

lemma update_mirrors:
  assumes "mirrors b (fst F) (snd F)" and "CHECKSUM_LEVELS \<le> ob_depth b" and "update_tells (ob_depth b) F m F'"
  shows "\<exists>b'. ingest_update m b = (Inr True, b') \<and> mirrors b' (fst F') (snd F') \<and> \<not> ob_desynced b' \<and>
    ob_depth b' = ob_depth b"
proof -
  from assms(3) obtain lb la where
    ls: "rmap extract_level (bm_bids m) = Inr lb" "rmap extract_level (bm_asks m) = Inr la"
    and told: "tells bid_key (ob_depth b) (fst F) (fst F') lb" "tells ask_key (ob_depth b) (snd F) (snd F') la"
    and fin: "finite (dom (fst F'))" "finite (dom (snd F'))"
    and sum: "bm_checksum m = Some (venue_checksum (fst F') (snd F'))" by (auto simp: update_tells_def)
  let ?b = "prune (b\<lparr>ob_bids := fold apply_level lb (ob_bids b), ob_asks := fold apply_level la (ob_asks b)\<rparr>)"
  have "apply_side (bm_bids m) (ob_bids b) = (Inr (), fold apply_level lb (ob_bids b))"
    "apply_side (bm_asks m) (ob_asks b) = (Inr (), fold apply_level la (ob_asks b))"
    using ls by (simp_all add: apply_side_Inr)
  then have run: "ingest_update m b = validate (bm_checksum m) ?b" by (simp add: ingest_update_def)
  have "mirrors ?b (fst F') (snd F')"
    using assms(1) fin bids.tracks_window [OF _ fin(1) _ told(1)] asks.tracks_window [OF _ fin(2) _ told(2)]
    by (simp add: mirrors_def prune_def bids.prune_map(2) asks.prune_map(2) bids.apply_well_keyed asks.apply_well_keyed)
  moreover from mirrors_checksum [OF this] assms(2) have "checksum ?b = venue_checksum (fst F') (snd F')"
    by (simp add: prune_def)
  ultimately show ?thesis
    by (simp add: run validate_def sum mirrors_def prune_def)
qed

fun ingest_all :: "book_msg list \<Rightarrow> order_book \<Rightarrow> bool res list \<times> order_book" where
  "ingest_all [] b = ([], b)"
| "ingest_all (m # ms) b =
     (let (r, b1) = ingest_update m b; (rs, b2) = ingest_all ms b1 in (r # rs, b2))"

fun faithful :: "nat \<Rightarrow> levels \<times> levels \<Rightarrow> (book_msg \<times> levels \<times> levels) list \<Rightarrow> bool" where
  "faithful n F [] = True"
| "faithful n F ((m, F') # ms) = (update_tells n F m F' \<and> faithful n F' ms)"

lemma ingest_all_mirrors:
  "mirrors b (fst F) (snd F) \<Longrightarrow> CHECKSUM_LEVELS \<le> ob_depth b \<Longrightarrow> faithful (ob_depth b) F ms \<Longrightarrow>
   \<exists>b'. ingest_all (map fst ms) b = (replicate (length ms) (Inr True), b') \<and> ob_depth b' = ob_depth b \<and>
     mirrors b' (fst (last (F # map snd ms))) (snd (last (F # map snd ms))) \<and> (ms \<noteq> [] \<longrightarrow> \<not> ob_desynced b')"
proof (induction ms arbitrary: b F)
  case (Cons mF ms)
  obtain m F' where mF: "mF = (m, F')" by (cases mF)
  then have "update_tells (ob_depth b) F m F'" using Cons.prems(3) by simp
  from update_mirrors [OF Cons.prems(1,2) this] obtain b1 where
    b1: "ingest_update m b = (Inr True, b1)" "mirrors b1 (fst F') (snd F')" "\<not> ob_desynced b1" "ob_depth b1 = ob_depth b"
    by blast
  from Cons.IH [OF b1(2)] Cons.prems b1(4) mF obtain b' where
    b': "ingest_all (map fst ms) b1 = (replicate (length ms) (Inr True), b')" "ob_depth b' = ob_depth b"
    "mirrors b' (fst (last (F' # map snd ms))) (snd (last (F' # map snd ms)))" "ms \<noteq> [] \<longrightarrow> \<not> ob_desynced b'"
    by auto
  show ?case
  proof (cases "ms = []")
    case True
    with b1 b' mF show ?thesis by simp
  next
    case False
    with b1(1) b' mF show ?thesis by simp
  qed
qed simp

text \<open>What every message leaves, faithful or not, malformed or not.\<close>

datatype book_event = Snapshot book_msg | Update book_msg

fun ingest :: "book_event \<Rightarrow> order_book \<Rightarrow> bool res \<times> order_book" where
  "ingest (Snapshot m) b = ingest_snapshot m b"
| "ingest (Update m) b = ingest_update m b"

definition keyed :: "order_book \<Rightarrow> bool" where
  "keyed b \<longleftrightarrow> bids.well_keyed (ob_bids b) \<and> asks.well_keyed (ob_asks b)"

lemma apply_side_keyed:
  "apply_side raws s = (r, s') \<Longrightarrow> \<exists>ls. s' = fold apply_level ls s"
proof (induction raws arbitrary: s)
  case Nil
  then show ?case by (intro exI [of _ "[]"]) simp
next
  case (Cons raw raws)
  show ?case
  proof (cases "extract_level raw")
    case (Inl e)
    with Cons.prems show ?thesis by (intro exI [of _ "[]"]) simp
  next
    case (Inr l)
    with Cons obtain ls where "s' = fold apply_level ls (apply_level l s)" by auto
    then show ?thesis by (intro exI [of _ "l # ls"]) simp
  qed
qed

lemma validate_window:
  assumes "validate e (prune b) = (r, b')" and "keyed b"
  shows "keyed b' \<and> ob_depth b' = ob_depth b \<and> length (ob_bids b') \<le> ob_depth b \<and> length (ob_asks b') \<le> ob_depth b \<and>
    (\<forall>ok. r = Inr ok \<longrightarrow> ob_desynced b' = (\<not> ok) \<and> (ok \<longleftrightarrow> e = Some (checksum b')))"
proof -
  have len: "length (prune_side key n s) \<le> n" for key n s by (simp add: prune_side_def)
  have sum: "checksum (b\<lparr>ob_desynced := d\<rparr>) = checksum b" for b d by (simp add: checksum_def)
  show ?thesis using assms bids.prune_map(2) asks.prune_map(2) len
    by (auto simp: validate_def prune_def keyed_def Let_def sum split: option.splits)
qed

lemma ingest_window:
  assumes "ingest ev b = (r, b')" and "keyed b"
  shows "keyed b' \<and> ob_depth b' = ob_depth b \<and>
    (\<forall>ok. r = Inr ok \<longrightarrow> length (ob_bids b') \<le> ob_depth b \<and> length (ob_asks b') \<le> ob_depth b \<and> ob_desynced b' = (\<not> ok))"
proof -
  have dict: "bids.well_keyed (dict_of ls)" "asks.well_keyed (dict_of ls)" for ls
    unfolding dict_of_def
    by (rule bids.dict_well_keyed asks.dict_well_keyed; simp add: bids.well_keyed_def asks.well_keyed_def)+
  show ?thesis
  proof (cases ev)
    case (Snapshot m)
    then show ?thesis using assms dict validate_window
      by (fastforce simp: ingest_snapshot_def Let_def keyed_def split: sum.splits)
  next
    case (Update m)
    obtain r1 s1 where one: "apply_side (bm_bids m) (ob_bids b) = (r1, s1)" by force
    obtain r2 s2 where two: "apply_side (bm_asks m) (ob_asks b) = (r2, s2)" by force
    from one two assms(2) have keyed: "bids.well_keyed s1" "asks.well_keyed s2"
      using apply_side_keyed [OF one] apply_side_keyed [OF two] by (auto simp: keyed_def bids.apply_well_keyed asks.apply_well_keyed)
    with Update assms one two validate_window show ?thesis
      by (fastforce simp: ingest_update_def keyed_def split: sum.splits)
  qed
qed

section \<open>Properties\<close>

text \<open>
  C21. The pruned book never desyncs against a faithful venue: starting in step with it, after any sequence of
  updates that carry every change inside the old and the new depth window, the book's sides are the venue's
  windows level by level, and every checksum passes. Only the depth and the venue's documented promise are used.
\<close>

theorem book_tracks_venue_window:
  assumes "mirrors b (fst F) (snd F)" and "10 \<le> ob_depth b" and "faithful (ob_depth b) F ms"
  shows "\<exists>b'. ingest_all (map fst ms) b = (replicate (length ms) (Inr True), b') \<and>
    mirrors b' (fst (last (F # map snd ms))) (snd (last (F # map snd ms)))"
  using ingest_all_mirrors [OF assms(1) _ assms(3)] assms(2) by (auto simp: CHECKSUM_LEVELS_def)


definition empty_book :: "nat \<Rightarrow> order_book" where
  "empty_book depth = \<lparr>ob_depth = depth, ob_bids = [], ob_asks = [], ob_desynced = False\<rparr>"

definition demo_levels :: levels where
  "demo_levels = [1 \<mapsto> (Dec False 10 (- 1), Dec False 2500 (- 3))]"

definition demo_update :: book_msg where
  "demo_update = \<lparr>bm_bids = [], bm_asks = [RawLevel (Some (RawDecimal (Dec False 10 (- 1)))) (Some (RawDecimal (Dec False 2500 (- 3))))],
     bm_checksum = Some (venue_checksum Map.empty demo_levels)\<rparr>"

lemma demo_values: "dec_value (Dec False 10 (- 1)) = 1" "dec_value (Dec False 2500 (- 3)) = 5 / 2"
  by (simp_all add: dec_value_def pow10_def)

lemma demo_tells: "update_tells 10 (Map.empty, Map.empty) demo_update (Map.empty, demo_levels)"
proof -
  have "window 10 demo_levels = demo_levels" "window 10 Map.empty = Map.empty"
    by (auto simp: window_def demo_levels_def restrict_map_def fun_eq_iff)
  then show ?thesis
    by (auto simp: update_tells_def demo_update_def tells_def ask_key_def demo_values demo_levels_def split: if_splits)
qed

theorem book_tracks_venue_window_witness:
  "\<exists>b'. ingest_all [demo_update] (empty_book 10) = ([Inr True], b') \<and> mirrors b' Map.empty demo_levels"
proof -
  have "mirrors (empty_book 10) Map.empty Map.empty"
    by (auto simp: mirrors_def empty_book_def bids.well_keyed_def asks.well_keyed_def bids.as_map_def asks.as_map_def
        window_def restrict_map_def fun_eq_iff)
  with book_tracks_venue_window [of "empty_book 10" "(Map.empty, Map.empty)" "[(demo_update, Map.empty, demo_levels)]"]
    demo_tells show ?thesis by (simp add: empty_book_def)
qed


end
