(* ===== verification/GapMonitor.thy ===== *)
theory GapMonitor imports PyValue FloatMono
begin

text \<open>
  \<open>cli/capture/gap_monitor.py\<close>: the gap accounting of the capture daemon and its disk watermark. Every
  instant the daemon passes is \<open>datetime.now(UTC)\<close>, a number of microseconds; the clock may step backward.
  The totals are binary64 sums, as in the source.
\<close>

section \<open>The monitor\<close>

record open_gap =
  og_reason :: string
  og_start :: int

record monitor =
  gm_open :: "string \<rightharpoonup> open_gap"
  gm_closed :: "string \<rightharpoonup> pyfloat"
  gm_watermark_open :: "int option"
  gm_watermark :: pyfloat
  gm_silent_open :: "string \<rightharpoonup> int"
  gm_silent :: "string \<rightharpoonup> pyfloat"

definition new_monitor :: monitor where
  "new_monitor = \<lparr>gm_open = Map.empty, gm_closed = Map.empty, gm_watermark_open = None, gm_watermark = Fin 0,
     gm_silent_open = Map.empty, gm_silent = Map.empty\<rparr>"

text \<open>\<open>max((at - start).total_seconds(), 0.0)\<close>\<close>

definition lasted :: "int \<Rightarrow> int \<Rightarrow> pyfloat" where
  "lasted start now = fmax (total_seconds (now - start)) (Fin 0)"

text \<open>\<open>totals.get(pair, 0.0)\<close>\<close>

definition total_of :: "(string \<rightharpoonup> pyfloat) \<Rightarrow> string \<Rightarrow> pyfloat" where
  "total_of totals pair = (case totals pair of None \<Rightarrow> Fin 0 | Some x \<Rightarrow> x)"

definition start_gap :: "string \<Rightarrow> string \<Rightarrow> int \<Rightarrow> monitor \<Rightarrow> monitor" where
  "start_gap pair reason now m =
     (case gm_open m pair of
        Some _ \<Rightarrow> m
      | None \<Rightarrow> m\<lparr>gm_open := (gm_open m)(pair \<mapsto> \<lparr>og_reason = reason, og_start = now\<rparr>)\<rparr>)"

definition end_gap :: "string \<Rightarrow> int \<Rightarrow> monitor \<Rightarrow> pyfloat \<times> monitor" where
  "end_gap pair now m =
     (case gm_open m pair of
        None \<Rightarrow> (Fin 0, m)
      | Some g \<Rightarrow>
          (let duration = lasted (og_start g) now
           in (duration, m\<lparr>gm_open := (gm_open m)(pair := None),
                           gm_closed := (gm_closed m)(pair \<mapsto> fadd (total_of (gm_closed m) pair) duration)\<rparr>)))"

definition start_watermark_gap :: "int \<Rightarrow> monitor \<Rightarrow> monitor" where
  "start_watermark_gap now m =
     (if gm_watermark_open m \<noteq> None then m else m\<lparr>gm_watermark_open := Some now\<rparr>)"

definition end_watermark_gap :: "int \<Rightarrow> monitor \<Rightarrow> pyfloat \<times> monitor" where
  "end_watermark_gap now m =
     (case gm_watermark_open m of
        None \<Rightarrow> (Fin 0, m)
      | Some start \<Rightarrow>
          (let duration = lasted start now
           in (duration, m\<lparr>gm_watermark := fadd (gm_watermark m) duration, gm_watermark_open := None\<rparr>)))"

definition start_silence :: "string \<Rightarrow> int \<Rightarrow> monitor \<Rightarrow> monitor" where
  "start_silence pair now m =
     (case gm_silent_open m pair of
        Some _ \<Rightarrow> m
      | None \<Rightarrow> m\<lparr>gm_silent_open := (gm_silent_open m)(pair \<mapsto> now)\<rparr>)"

definition end_silence :: "string \<Rightarrow> int \<Rightarrow> monitor \<Rightarrow> pyfloat \<times> monitor" where
  "end_silence pair now m =
     (case gm_silent_open m pair of
        None \<Rightarrow> (Fin 0, m)
      | Some start \<Rightarrow>
          (let duration = lasted start now
           in (duration, m\<lparr>gm_silent_open := (gm_silent_open m)(pair := None),
                           gm_silent := (gm_silent m)(pair \<mapsto> fadd (total_of (gm_silent m) pair) duration)\<rparr>)))"

definition is_silent :: "string \<Rightarrow> monitor \<Rightarrow> bool" where
  "is_silent pair m \<longleftrightarrow> gm_silent_open m pair \<noteq> None"

definition is_open :: "string \<Rightarrow> monitor \<Rightarrow> bool" where
  "is_open pair m \<longleftrightarrow> gm_open m pair \<noteq> None"

text \<open>A window still open adds what it has lasted, when an instant is given.\<close>

definition plus_open :: "int option \<Rightarrow> int option \<Rightarrow> pyfloat \<Rightarrow> pyfloat" where
  "plus_open start now acc =
     (case (start, now) of (Some s, Some t) \<Rightarrow> fadd acc (lasted s t) | _ \<Rightarrow> acc)"

definition gap_seconds :: "string \<Rightarrow> int option \<Rightarrow> monitor \<Rightarrow> pyfloat" where
  "gap_seconds pair now m =
     (let acc = fadd (fadd (total_of (gm_closed m) pair) (gm_watermark m)) (total_of (gm_silent m) pair)
      in plus_open (gm_silent_open m pair) now
           (plus_open (gm_watermark_open m) now
             (plus_open (map_option og_start (gm_open m pair)) now acc)))"

definition gap_ratio :: "string \<Rightarrow> pyfloat \<Rightarrow> int option \<Rightarrow> monitor \<Rightarrow> pyfloat res" where
  "gap_ratio pair window_seconds now m =
     (if fle window_seconds (Fin 0) then Inl (CaptureError ''window_seconds must be > 0'')
      else fdiv (gap_seconds pair now m) window_seconds)"

definition summary :: "string list \<Rightarrow> pyfloat \<Rightarrow> int \<Rightarrow> monitor \<Rightarrow> (string \<times> pyfloat \<times> pyfloat \<times> bool) list res" where
  "summary ps window_seconds now m =
     rmap (\<lambda>pair. rbind (gap_ratio pair window_seconds (Some now) m) (\<lambda>r.
             Inr (pair, gap_seconds pair (Some now) m, r, is_open pair m))) ps"

definition is_healthy :: "string list \<Rightarrow> monitor \<Rightarrow> bool" where
  "is_healthy ps m \<longleftrightarrow> \<not> list_ex (\<lambda>pair. is_open pair m) ps"

section \<open>The disk watermark\<close>

record watermark =
  wm_min_free :: int
  wm_breached :: bool
  wm_measurable :: bool

definition DEFAULT_MIN_FREE_BYTES :: int where "DEFAULT_MIN_FREE_BYTES = 1 * 1024 ^ 3"

definition new_watermark :: "int \<Rightarrow> watermark" where
  "new_watermark min_free = \<lparr>wm_min_free = min_free, wm_breached = False, wm_measurable = True\<rparr>"

text \<open>The probe answers the free bytes or raises, and a raise goes on to the caller.\<close>

definition check :: "int res \<Rightarrow> watermark \<Rightarrow> bool res \<times> watermark" where
  "check usage w =
     (case usage of
        Inl e \<Rightarrow> (Inl e, w\<lparr>wm_measurable := False\<rparr>)
      | Inr free \<Rightarrow>
          (let now_breached = (free < wm_min_free w)
           in (Inr (\<not> now_breached), w\<lparr>wm_measurable := True, wm_breached := now_breached\<rparr>)))"

section \<open>A life of the monitor\<close>

datatype gap_op =
    StartGap string string int
  | EndGap string int
  | StartWatermark int
  | EndWatermark int
  | StartSilence string int
  | EndSilence string int

fun gap_step :: "gap_op \<Rightarrow> monitor \<Rightarrow> monitor" where
  "gap_step (StartGap p r t) m = start_gap p r t m"
| "gap_step (EndGap p t) m = snd (end_gap p t m)"
| "gap_step (StartWatermark t) m = start_watermark_gap t m"
| "gap_step (EndWatermark t) m = snd (end_watermark_gap t m)"
| "gap_step (StartSilence p t) m = start_silence p t m"
| "gap_step (EndSilence p t) m = snd (end_silence p t m)"

definition gap_run :: "gap_op list \<Rightarrow> monitor \<Rightarrow> monitor" where
  "gap_run ops m = fold gap_step ops m"

section \<open>Every total is a nonnegative float that only grows\<close>

definition tally :: "pyfloat \<Rightarrow> bool" where
  "tally x \<longleftrightarrow> is_float x \<and> fle (Fin 0) x"

named_theorems tally_intros

lemma tally_zero [simp, tally_intros]: "tally (Fin 0)"
  by (simp add: tally_def)

lemma tally_lasted [simp, tally_intros]: "tally (lasted s t)"
proof -
  have "total_seconds (t - s) \<noteq> NaN" by (simp add: total_seconds_def fround_rnd)
  then show ?thesis
    by (auto simp: tally_def lasted_def fmax_def total_seconds_def intro: not_flt_fle)
qed

lemma fle_refl_not_NaN: "a \<noteq> NaN \<Longrightarrow> fle a a"
  by (simp add: fle_def feq_def)

lemma tally_not_NaN: "tally x \<Longrightarrow> x \<noteq> NaN \<and> x \<noteq> NInf"
  by (auto simp: tally_def fle_def feq_def)

lemma tally_fadd [simp, tally_intros]: "tally a \<Longrightarrow> tally b \<Longrightarrow> tally (fadd a b)"
  unfolding tally_def using fadd_grows fle_trans by (blast intro: is_float_fadd)

lemma tally_grows: "tally a \<Longrightarrow> tally b \<Longrightarrow> fle a (fadd a b)"
  by (simp add: tally_def fadd_grows)

lemma fadd_mono:
  assumes "tally a" "tally b" "fle a a'" "fle b b'"
  shows "fle (fadd a b) (fadd a' b')"
proof -
  have "fle (Fin 0) a'" "fle (Fin 0) b'" using assms fle_trans by (auto simp: tally_def)
  with assms show ?thesis
    by (cases a; cases b; cases a'; cases b'; simp add: tally_def add_mono fround_mono)
      (auto simp: fle_def feq_def fround_rnd)
qed

definition total_map :: "(string \<rightharpoonup> pyfloat) \<Rightarrow> bool" where
  "total_map f \<longleftrightarrow> (\<forall>p. tally (total_of f p))"

definition sound :: "monitor \<Rightarrow> bool" where
  "sound m \<longleftrightarrow> total_map (gm_closed m) \<and> tally (gm_watermark m) \<and> total_map (gm_silent m)"

lemma sound_new: "sound new_monitor"
  by (simp add: sound_def total_map_def total_of_def new_monitor_def)

text \<open>One total lies below another when each of its parts does.\<close>

definition below :: "monitor \<Rightarrow> monitor \<Rightarrow> bool" where
  "below m m' \<longleftrightarrow> (\<forall>p. fle (total_of (gm_closed m) p) (total_of (gm_closed m') p)) \<and>
     fle (gm_watermark m) (gm_watermark m') \<and>
     (\<forall>p. fle (total_of (gm_silent m) p) (total_of (gm_silent m') p))"

lemma total_of_upd: "total_of (f(p \<mapsto> v)) q = (if q = p then v else total_of f q)"
  by (simp add: total_of_def)

lemmas gap_defs = start_gap_def end_gap_def start_watermark_gap_def end_watermark_gap_def start_silence_def
  end_silence_def Let_def

lemma gap_step_sound: "sound m \<Longrightarrow> sound (gap_step op m)"
  by (cases op) (auto simp: sound_def total_map_def gap_defs total_of_upd split: option.splits)

lemma sound_refl: "sound m \<Longrightarrow> below m m"
  by (auto simp: sound_def total_map_def below_def dest: tally_not_NaN intro!: fle_refl_not_NaN)

lemma gap_step_below: "sound m \<Longrightarrow> below m (gap_step op m)"
  by (cases op; frule sound_refl)
    (auto simp: sound_def total_map_def below_def gap_defs total_of_upd split: option.splits intro!: tally_grows)

lemma below_trans: "below m m' \<Longrightarrow> below m' m'' \<Longrightarrow> below m m''"
  unfolding below_def using fle_trans by blast

lemma gap_run_below: "sound m \<Longrightarrow> sound (gap_run ops m) \<and> below m (gap_run ops m)"
proof (induction ops arbitrary: m)
  case (Cons op ops)
  have "sound (gap_run ops (gap_step op m))" "below (gap_step op m) (gap_run ops (gap_step op m))"
    using Cons.IH [OF gap_step_sound [OF Cons.prems]] by auto
  moreover from this(2) have "below m (gap_run ops (gap_step op m))"
    by (rule below_trans [OF gap_step_below [OF Cons.prems]])
  ultimately show ?case by (simp add: gap_run_def)
qed (simp add: gap_run_def sound_refl)

lemma gap_seconds_closed: "gap_seconds p None m =
    fadd (fadd (total_of (gm_closed m) p) (gm_watermark m)) (total_of (gm_silent m) p)"
  by (simp add: gap_seconds_def plus_open_def Let_def split: option.splits)

lemma below_gap_seconds: "sound m \<Longrightarrow> below m m' \<Longrightarrow> fle (gap_seconds p None m) (gap_seconds p None m')"
  unfolding gap_seconds_closed by (intro fadd_mono) (auto simp: sound_def total_map_def below_def)

lemma tally_refl: "tally x \<Longrightarrow> fle x x"
  by (simp add: fle_refl_not_NaN tally_not_NaN)

lemma plus_open_tally:
  assumes "tally x"
  shows "tally (plus_open s t x) \<and> fle x (plus_open s t x)"
  using assms tally_refl [OF assms] tally_grows [OF assms tally_lasted] by (simp add: plus_open_def split: option.splits)

lemma gap_seconds_tally:
  assumes "sound m"
  shows "tally (gap_seconds p t m)" "fle (gap_seconds p None m) (gap_seconds p t m)"
proof -
  let ?x = "fadd (fadd (total_of (gm_closed m) p) (gm_watermark m)) (total_of (gm_silent m) p)"
  have x: "tally ?x" using assms by (simp add: sound_def total_map_def)
  let ?y = "plus_open (map_option og_start (gm_open m p)) t ?x"
  let ?z = "plus_open (gm_watermark_open m) t ?y"
  note y = plus_open_tally [OF x, of "map_option og_start (gm_open m p)" t]
  note z = plus_open_tally [OF conjunct1 [OF y], of "gm_watermark_open m" t]
  note w = plus_open_tally [OF conjunct1 [OF z], of "gm_silent_open m p" t]
  show "tally (gap_seconds p t m)" using w by (simp add: gap_seconds_def Let_def)
  show "fle (gap_seconds p None m) (gap_seconds p t m)"
    using y z w fle_trans unfolding gap_seconds_closed by (simp add: gap_seconds_def Let_def) blast
qed

text \<open>
  However the clock steps and whatever windows are opened and closed, in any order, the gap seconds a
  pair has booked never shrink, are never negative, and a reading that counts the windows still open is never
  below the booked total. The order holds of the binary64 sums themselves.
\<close>

theorem booked_gap_never_shrinks:
  "fle (gap_seconds p None (gap_run ops new_monitor)) (gap_seconds p None (gap_run (ops @ later) new_monitor)) \<and>
   fle (gap_seconds p None (gap_run ops new_monitor)) (gap_seconds p (Some t) (gap_run ops new_monitor)) \<and>
   fle (Fin 0) (gap_seconds p None (gap_run ops new_monitor))"
proof -
  let ?m = "gap_run ops new_monitor"
  have m: "sound ?m" using gap_run_below [OF sound_new] by blast
  have "gap_run (ops @ later) new_monitor = gap_run later ?m" by (simp add: gap_run_def)
  then show ?thesis using below_gap_seconds [OF m, of "gap_run later ?m"] gap_run_below [OF m, of later]
      gap_seconds_tally [OF m] by (simp add: tally_def)
qed

end
