(* ===== verification/CaptureLoop.thy ===== *)
theory CaptureLoop imports DesyncLadder OrderBook GapMonitor
begin

text \<open>
  The tasks of the capture daemon in \<open>cli/capture/command.py\<close>, over the books, the gap monitor, the disk
  watermark and the desync ladder they share. One event is what a task does between two of its awaits, so a
  list of events is an interleaving. The rows a message writes are not modelled.
\<close>

section \<open>The shared state\<close>

record capture =
  cp_pairs :: "string list"
  cp_books :: "(string \<times> order_book) list"
  cp_monitor :: monitor
  cp_watermark :: watermark
  cp_ladder :: ladder
  cp_recovery :: pairs
  cp_seen :: "string \<rightharpoonup> int"
  cp_online :: bool
  cp_drill :: pyfloat
  cp_drill_started :: "string \<rightharpoonup> int"
  cp_awaiting :: "(string \<times> int) option"
  cp_crashed :: "exn option"

definition new_books :: "nat \<Rightarrow> string list \<Rightarrow> (string \<times> order_book) list" where
  "new_books depth ps = fold (\<lambda>p. AList.update p (empty_book depth)) ps []"

text \<open>Every pair is seeded with the instant the process started.\<close>

definition start_capture :: "string list \<Rightarrow> nat \<Rightarrow> pyfloat \<Rightarrow> int \<Rightarrow> capture" where
  "start_capture ps depth drill now =
     \<lparr>cp_pairs = ps, cp_books = new_books depth ps, cp_monitor = new_monitor,
      cp_watermark = new_watermark DEFAULT_MIN_FREE_BYTES, cp_ladder = default_ladder, cp_recovery = [],
      cp_seen = (\<lambda>p. if p \<in> set ps then Some now else None), cp_online = False, cp_drill = drill,
      cp_drill_started = Map.empty, cp_awaiting = None, cp_crashed = None\<rparr>"

section \<open>A book message\<close>

record entry =
  en_symbol :: "string option"
  en_event :: book_event

text \<open>The drill holds a pair desynced for its window, whatever the checksum said.\<close>

definition drill_maybe_fail :: "string \<Rightarrow> bool \<Rightarrow> order_book \<Rightarrow> int \<Rightarrow> capture \<Rightarrow> bool \<times> order_book \<times> capture" where
  "drill_maybe_fail pair in_sync book now s =
     (if cp_drill s = Fin 0 then (in_sync, book, s)
      else let started = (case cp_drill_started s pair of Some t \<Rightarrow> t | None \<Rightarrow> now);
               s' = s\<lparr>cp_drill_started := (cp_drill_started s)(pair \<mapsto> started)\<rparr>
           in if fgt (total_seconds (now - started)) (cp_drill s) then (in_sync, book, s')
              else (False, book\<lparr>ob_desynced := True\<rparr>, s'))"

text \<open>What the ledger of gaps and the ladder make of a verdict. A fresh desync awaits its resubscription.\<close>

definition settle_verdict :: "string \<Rightarrow> bool \<Rightarrow> bool \<Rightarrow> int \<Rightarrow> capture \<Rightarrow> capture" where
  "settle_verdict pair was_desynced in_sync now s =
     (if \<not> in_sync then
        (if \<not> was_desynced
         then s\<lparr>cp_monitor := start_gap pair ''checksum_resync'' now (cp_monitor s), cp_awaiting := Some (pair, now)\<rparr>
         else s)
      else if was_desynced
      then s\<lparr>cp_monitor := snd (end_gap pair now (cp_monitor s)),
             cp_recovery := note_recovered (cp_ladder s) pair now (cp_recovery s)\<rparr>
      else s)"

text \<open>One entry of a book message, up to the first await; \<open>seen\<close> and \<open>now\<close> are its two clock readings.\<close>

definition handle_entry :: "entry \<Rightarrow> int \<Rightarrow> int \<Rightarrow> capture \<Rightarrow> capture" where
  "handle_entry e seen now s =
     (case en_symbol e of
        None \<Rightarrow> s\<lparr>cp_crashed := Some KeyError\<rparr>
      | Some pair \<Rightarrow>
          (case map_of (cp_books s) pair of
             None \<Rightarrow> s
           | Some book \<Rightarrow>
               (let s1 = s\<lparr>cp_seen := (cp_seen s)(pair \<mapsto> seen)\<rparr> in
                case ingest (en_event e) book of
                  (Inl x, book1) \<Rightarrow>
                    s1\<lparr>cp_books := AList.update pair book1 (cp_books s1), cp_crashed := Some x\<rparr>
                | (Inr ok, book1) \<Rightarrow>
                    (case drill_maybe_fail pair ok book1 now s1 of
                       (in_sync, book2, s2) \<Rightarrow>
                         settle_verdict pair (ob_desynced book) in_sync now
                           (s2\<lparr>cp_books := AList.update pair book2 (cp_books s2)\<rparr>)))))"

text \<open>The resubscription returned, or raised out of the consumer.\<close>

definition resume_desync :: "exn option \<Rightarrow> capture \<Rightarrow> capture" where
  "resume_desync raised s =
     (case cp_awaiting s of
        None \<Rightarrow> s
      | Some (pair, now) \<Rightarrow>
          (case raised of
             Some x \<Rightarrow> s\<lparr>cp_awaiting := None, cp_crashed := Some x\<rparr>
           | None \<Rightarrow> s\<lparr>cp_awaiting := None, cp_recovery := note_desync (cp_ladder s) pair now (cp_recovery s)\<rparr>))"

section \<open>The periodic tasks\<close>

definition BOOK_STALENESS_SECONDS :: pyfloat where "BOOK_STALENESS_SECONDS = Fin 30"

definition stale_pair :: "pyfloat \<Rightarrow> int \<Rightarrow> (string \<rightharpoonup> int) \<Rightarrow> string \<Rightarrow> monitor \<Rightarrow> monitor" where
  "stale_pair threshold now last_seen pair m =
     (case last_seen pair of
        None \<Rightarrow> m
      | Some seen \<Rightarrow>
          (if fgt (total_seconds (now - seen)) threshold then start_silence pair seen m
           else if is_silent pair m then snd (end_silence pair seen m)
           else m))"

definition staleness_sweep :: "pyfloat \<Rightarrow> int \<Rightarrow> (string \<rightharpoonup> int) \<Rightarrow> string list \<Rightarrow> monitor \<Rightarrow> monitor" where
  "staleness_sweep threshold now last_seen ps m = fold (stale_pair threshold now last_seen) ps m"

text \<open>One pair of a sweep of the ladder; the action it awaits changes nothing of this state.\<close>

definition ladder_tick :: "string \<Rightarrow> int \<Rightarrow> capture \<Rightarrow> capture" where
  "ladder_tick pair now s =
     (case map_of (cp_books s) pair of
        None \<Rightarrow> s
      | Some book \<Rightarrow>
          s\<lparr>cp_recovery := snd (sweep_pair (cp_ladder s) pair (ob_desynced book) (cp_online s) now (cp_recovery s))\<rparr>)"

text \<open>A probe that raises leaves the breach and its window as they were.\<close>

definition disk_tick :: "int res \<Rightarrow> int \<Rightarrow> capture \<Rightarrow> capture" where
  "disk_tick usage now s =
     (case check usage (cp_watermark s) of
        (Inl e, w) \<Rightarrow> s\<lparr>cp_watermark := w\<rparr>
      | (Inr healthy, w) \<Rightarrow>
          s\<lparr>cp_watermark := w,
            cp_monitor := (if healthy then snd (end_watermark_gap now (cp_monitor s))
                           else start_watermark_gap now (cp_monitor s))\<rparr>)"

definition ping_due :: "capture \<Rightarrow> bool" where
  "ping_due s \<longleftrightarrow> cp_online s \<and> is_healthy (cp_pairs s) (cp_monitor s) \<and>
     \<not> wm_breached (cp_watermark s) \<and> wm_measurable (cp_watermark s)"

section \<open>Runs\<close>

datatype cap_event =
    BookEntry entry int int
  | Resumed "exn option"
  | StaleSweep int
  | LadderTick string int
  | DiskTick "int res" int
  | Link bool

text \<open>An exception that leaves the consumer stops the daemon; an entry waits for the one before it.\<close>

fun cap_step :: "cap_event \<Rightarrow> capture \<Rightarrow> capture" where
  "cap_step ev s =
     (if cp_crashed s \<noteq> None then s
      else case ev of
             BookEntry e seen now \<Rightarrow> (if cp_awaiting s = None then handle_entry e seen now s else s)
           | Resumed raised \<Rightarrow> resume_desync raised s
           | StaleSweep now \<Rightarrow>
               s\<lparr>cp_monitor := staleness_sweep BOOK_STALENESS_SECONDS now (cp_seen s) (cp_pairs s) (cp_monitor s)\<rparr>
           | LadderTick pair now \<Rightarrow> ladder_tick pair now s
           | DiskTick usage now \<Rightarrow> disk_tick usage now s
           | Link on \<Rightarrow> s\<lparr>cp_online := on\<rparr>)"

declare cap_step.simps [simp del]

definition cap_run :: "cap_event list \<Rightarrow> capture \<Rightarrow> capture" where
  "cap_run es s = fold cap_step es s"

section \<open>Lemmas\<close>

text \<open>What the gap windows, the ladder and the watermark owe the books.\<close>

definition book_desynced :: "capture \<Rightarrow> string \<Rightarrow> bool" where
  "book_desynced s p \<longleftrightarrow> (\<exists>b. map_of (cp_books s) p = Some b \<and> ob_desynced b)"

definition on_ladder :: "pairs \<Rightarrow> string \<Rightarrow> bool" where
  "on_ladder ps p \<longleftrightarrow> (\<exists>q. map_of ps p = Some q \<and> desynced_at q \<noteq> None)"

definition consistent :: "capture \<Rightarrow> bool" where
  "consistent s \<longleftrightarrow>
     (\<forall>p. is_open p (cp_monitor s) \<longleftrightarrow> book_desynced s p) \<and>
     (gm_watermark_open (cp_monitor s) \<noteq> None \<longleftrightarrow> wm_breached (cp_watermark s))"

definition laddered :: "capture \<Rightarrow> bool" where
  "laddered s \<longleftrightarrow> (cp_crashed s = None \<longrightarrow>
     (\<forall>p. book_desynced s p \<longrightarrow> on_ladder (cp_recovery s) p \<or> (\<exists>t. cp_awaiting s = Some (p, t))) \<and>
     (\<forall>p t. cp_awaiting s = Some (p, t) \<longrightarrow> book_desynced s p))"

lemma map_of_update: "map_of (AList.update p v xs) q = (if q = p then Some v else map_of xs q)"
  by (simp add: update_conv')

lemma validate_verdict: "validate e b = (r, b') \<Longrightarrow>
    ob_desynced b' = (case r of Inl _ \<Rightarrow> ob_desynced b | Inr ok \<Rightarrow> \<not> ok)"
  by (auto simp: validate_def Let_def split: option.splits)

lemma ingest_verdict: "ingest ev b = (r, b') \<Longrightarrow>
    ob_desynced b' = (case r of Inl _ \<Rightarrow> ob_desynced b | Inr ok \<Rightarrow> \<not> ok)"
  by (cases ev)
    (auto simp: ingest_snapshot_def ingest_update_def Let_def prune_def dest!: validate_verdict
      split: sum.splits prod.splits)

lemma drill_verdict:
  assumes "drill_maybe_fail p ok b now s = (ok', b', s')" and "ob_desynced b = (\<not> ok)"
  shows "ob_desynced b' = (\<not> ok')" "\<exists>f. s' = s\<lparr>cp_drill_started := f\<rparr>"
  using assms by (auto simp: drill_maybe_fail_def Let_def split: if_splits intro: exI [of _ "cp_drill_started s"])

lemma silence_keeps_open:
  "gm_open (staleness_sweep th now seen ps m) = gm_open m \<and>
   gm_watermark_open (staleness_sweep th now seen ps m) = gm_watermark_open m"
  unfolding staleness_sweep_def
  by (induction ps arbitrary: m)
    (auto simp: stale_pair_def start_silence_def end_silence_def Let_def split: option.splits)

lemma settle_open:
  "is_open q (cp_monitor (settle_verdict p was ok now s)) =
     (if q = p \<and> was = ok then \<not> ok else is_open q (cp_monitor s))"
  "gm_watermark_open (cp_monitor (settle_verdict p was ok now s)) = gm_watermark_open (cp_monitor s)"
  "cp_books (settle_verdict p was ok now s) = cp_books s"
  "cp_watermark (settle_verdict p was ok now s) = cp_watermark s"
  "cp_crashed (settle_verdict p was ok now s) = cp_crashed s"
  by (auto simp: settle_verdict_def start_gap_def end_gap_def is_open_def Let_def split: option.splits)

lemma entry_cases:
  assumes "\<And>p b b2 ok f. en_symbol e = Some p \<Longrightarrow> map_of (cp_books s) p = Some b \<Longrightarrow> ob_desynced b2 = (\<not> ok) \<Longrightarrow>
      P (settle_verdict p (ob_desynced b) ok now
           (s\<lparr>cp_seen := (cp_seen s)(p \<mapsto> seen), cp_drill_started := f, cp_books := AList.update p b2 (cp_books s)\<rparr>))"
    and "\<And>p b b1 x. map_of (cp_books s) p = Some b \<Longrightarrow> ob_desynced b1 = ob_desynced b \<Longrightarrow>
      P (s\<lparr>cp_seen := (cp_seen s)(p \<mapsto> seen), cp_books := AList.update p b1 (cp_books s), cp_crashed := Some x\<rparr>)"
    and "P (s\<lparr>cp_crashed := Some KeyError\<rparr>)" and "P s"
  shows "P (handle_entry e seen now s)"
proof (cases "en_symbol e")
  case None
  with assms(3) show ?thesis by (simp add: handle_entry_def)
next
  case (Some p)
  show ?thesis
  proof (cases "map_of (cp_books s) p")
    case None
    with Some assms(4) show ?thesis by (simp add: handle_entry_def)
  next
    case (Some b)
    note sym = \<open>en_symbol e = Some p\<close>
    obtain r b1 where ing: "ingest (en_event e) b = (r, b1)" by force
    note v = ingest_verdict [OF ing]
    show ?thesis
    proof (cases r)
      case (Inl x)
      with v have "ob_desynced b1 = ob_desynced b" by simp
      from assms(2) [OF Some this] sym Some ing Inl show ?thesis by (simp add: handle_entry_def Let_def)
    next
      case (Inr ok)
      obtain ok' b2 s2 where dr: "drill_maybe_fail p ok b1 now (s\<lparr>cp_seen := (cp_seen s)(p \<mapsto> seen)\<rparr>) = (ok', b2, s2)"
        by (rule prod_cases3)
      with v Inr drill_verdict [OF dr] obtain f where
        "ob_desynced b2 = (\<not> ok')" "s2 = s\<lparr>cp_seen := (cp_seen s)(p \<mapsto> seen), cp_drill_started := f\<rparr>" by auto
      with assms(1) [OF sym Some, of b2 ok' f] sym Some ing Inr dr show ?thesis by (simp add: handle_entry_def Let_def)
    qed
  qed
qed

lemma settle_desynced: "book_desynced (settle_verdict p was ok now s) q = book_desynced s q"
  by (simp add: book_desynced_def settle_open)

lemma book_desynced_update:
  "book_desynced (s\<lparr>cp_books := AList.update p b xs\<rparr>) q =
     (if q = p then ob_desynced b else book_desynced (s\<lparr>cp_books := xs\<rparr>) q)"
  by (simp add: book_desynced_def map_of_update)

lemma book_desynced_simps [simp]:
  "book_desynced (s\<lparr>cp_seen := f\<rparr>) q = book_desynced s q"
  "book_desynced (s\<lparr>cp_monitor := m\<rparr>) q = book_desynced s q"
  "book_desynced (s\<lparr>cp_watermark := w\<rparr>) q = book_desynced s q"
  "book_desynced (s\<lparr>cp_recovery := r\<rparr>) q = book_desynced s q"
  "book_desynced (s\<lparr>cp_online := on\<rparr>) q = book_desynced s q"
  "book_desynced (s\<lparr>cp_drill_started := f\<rparr>) q = book_desynced s q"
  "book_desynced (s\<lparr>cp_awaiting := a\<rparr>) q = book_desynced s q"
  "book_desynced (s\<lparr>cp_crashed := c\<rparr>) q = book_desynced s q"
  by (simp_all add: book_desynced_def)

lemma consistent_entry:
  assumes "consistent s"
  shows "consistent (handle_entry e seen now s)"
proof (rule entry_cases)
  fix p b ok f and b2 :: order_book
  assume "map_of (cp_books s) p = Some b" and "ob_desynced b2 = (\<not> ok)"
  with assms show "consistent (settle_verdict p (ob_desynced b) ok now
      (s\<lparr>cp_seen := (cp_seen s)(p \<mapsto> seen), cp_drill_started := f, cp_books := AList.update p b2 (cp_books s)\<rparr>))"
    by (auto simp: consistent_def settle_open book_desynced_def map_of_update)
qed (use assms in \<open>auto simp: consistent_def book_desynced_def map_of_update\<close>)

lemma consistent_step: "consistent s \<Longrightarrow> consistent (cap_step ev s)"
proof (cases ev)
  case (BookEntry e seen now)
  then show "consistent s \<Longrightarrow> ?thesis" by (simp add: cap_step.simps consistent_entry)
next
  case (StaleSweep now)
  then show "consistent s \<Longrightarrow> ?thesis"
    using silence_keeps_open by (simp add: cap_step.simps consistent_def is_open_def)
next
  case (DiskTick usage now)
  then show "consistent s \<Longrightarrow> ?thesis"
    by (cases usage) (auto simp: cap_step.simps consistent_def is_open_def disk_tick_def check_def Let_def
        start_watermark_gap_def end_watermark_gap_def split: option.splits)
qed (auto simp: cap_step.simps consistent_def resume_desync_def ladder_tick_def split: option.splits)

lemma new_books_map: "map_of (new_books depth ps) p = (if p \<in> set ps then Some (empty_book depth) else None)"
proof -
  have "map_of (fold (\<lambda>p. AList.update p b) ps xs) p = (if p \<in> set ps then Some b else map_of xs p)" for b :: order_book and xs
    by (induction ps arbitrary: xs) (auto simp: map_of_update)
  then show ?thesis by (simp add: new_books_def)
qed

lemma consistent_start: "consistent (start_capture ps depth drill now)"
  by (simp add: consistent_def start_capture_def is_open_def book_desynced_def new_books_map new_monitor_def
      new_watermark_def empty_book_def)

lemma run_induct:
  assumes "P s" and "\<And>ev s. P s \<Longrightarrow> P (cap_step ev s)"
  shows "P (cap_run es s)"
  unfolding cap_run_def using assms by (induction es arbitrary: s) auto

text \<open>The ladder keeps a pair it was told of while its book is desynced.\<close>

lemma desync_ladders: "on_ladder (note_desync c p t ps) p"
  by (auto simp: on_ladder_def note_desync_def Let_def map_of_update new_pair_state_def split: option.splits)

lemma desync_keeps: "on_ladder ps q \<Longrightarrow> on_ladder (note_desync c p t ps) q"
  by (auto simp: on_ladder_def note_desync_def Let_def map_of_update new_pair_state_def)

lemma recovered_keeps: "on_ladder ps q \<Longrightarrow> q \<noteq> p \<Longrightarrow> on_ladder (note_recovered c p t ps) q"
  by (auto simp: on_ladder_def note_recovered_def map_of_update delete_conv' split: option.splits)

lemma due_keeps: "on_ladder ps q \<Longrightarrow> due c p t ps = (r, ps') \<Longrightarrow> on_ladder ps' q"
  by (auto simp: on_ladder_def due_def Let_def map_of_update split: option.splits if_splits)

lemma attempt_keeps: "on_ladder ps q \<Longrightarrow> on_ladder (note_attempt p t ps) q"
  by (auto simp: on_ladder_def note_attempt_def map_of_update split: option.splits)

lemma escalated_keeps: "on_ladder ps q \<Longrightarrow> on_ladder (note_escalated p t ps) q"
  by (auto simp: on_ladder_def note_escalated_def Let_def map_of_update split: option.splits)

lemma sweep_keeps:
  assumes "on_ladder ps q" and "q = p \<Longrightarrow> d"
  shows "on_ladder (snd (sweep_pair c p d con t ps)) q"
proof -
  obtain a ps' where sw: "sweep_pair c p d con t ps = (a, ps')" by force
  show ?thesis
  proof (cases d)
    case False
    with assms have "q \<noteq> p" by auto
    with assms(1) recovered_keeps False show ?thesis by (simp add: sweep_pair_def)
  next
    case True
    obtain r ps1 where due: "due c p t ps = (r, ps1)" by force
    note k = due_keeps [OF assms(1) due]
    from k attempt_keeps [OF k] escalated_keeps [OF k] show ?thesis
      by (auto simp: sweep_pair_def due True split: sum.split action.split)
  qed
qed

lemma laddered_entry:
  assumes inv: "laddered s" and idle: "cp_awaiting s = None" and up: "cp_crashed s = None"
  shows "laddered (handle_entry e seen now s)"
proof (rule entry_cases)
  fix p b ok f and b2 :: order_book
  assume old: "map_of (cp_books s) p = Some b" and new: "ob_desynced b2 = (\<not> ok)"
  have was: "book_desynced s p = ob_desynced b" using old by (simp add: book_desynced_def)
  from inv idle up have lad: "\<And>q. book_desynced s q \<Longrightarrow> on_ladder (cp_recovery s) q" by (simp add: laddered_def)
  show "laddered (settle_verdict p (ob_desynced b) ok now
      (s\<lparr>cp_seen := (cp_seen s)(p \<mapsto> seen), cp_drill_started := f, cp_books := AList.update p b2 (cp_books s)\<rparr>))"
    using lad was new idle recovered_keeps
    by (auto simp: laddered_def settle_verdict_def book_desynced_update)
qed (use inv in \<open>simp_all add: laddered_def\<close>)

lemma laddered_step: "laddered s \<Longrightarrow> laddered (cap_step ev s)"
proof (cases ev)
  case (BookEntry e seen now)
  then show "laddered s \<Longrightarrow> ?thesis" by (simp add: cap_step.simps laddered_entry)
next
  case (Resumed raised)
  then show "laddered s \<Longrightarrow> ?thesis"
    using desync_ladders desync_keeps
    by (auto simp: cap_step.simps laddered_def resume_desync_def split: option.splits)
next
  case (LadderTick pair now)
  then show "laddered s \<Longrightarrow> ?thesis"
    by (auto simp: cap_step.simps laddered_def ladder_tick_def book_desynced_def split: option.splits intro!: sweep_keeps)
next
  case (DiskTick usage now)
  then show "laddered s \<Longrightarrow> ?thesis"
    by (cases usage) (auto simp: cap_step.simps laddered_def disk_tick_def check_def Let_def)
qed (auto simp: cap_step.simps laddered_def)

lemma laddered_start: "laddered (start_capture ps depth drill now)"
  by (simp add: laddered_def start_capture_def book_desynced_def new_books_map empty_book_def)

text \<open>The answers of the disk so far, and whether the last one was good.\<close>

fun probe_of :: "cap_event \<Rightarrow> int res list" where
  "probe_of (DiskTick usage now) = [usage]"
| "probe_of _ = []"

definition probes :: "cap_event list \<Rightarrow> int res list" where
  "probes es = concat (map probe_of es)"

definition disk_ok :: "int res list \<Rightarrow> bool" where
  "disk_ok us \<longleftrightarrow> us = [] \<or> (case last us of Inl _ \<Rightarrow> False | Inr free \<Rightarrow> DEFAULT_MIN_FREE_BYTES \<le> free)"

lemma step_watermark:
  "cp_crashed s = None \<Longrightarrow> cp_watermark (cap_step ev s) = fold (\<lambda>u w. snd (check u w)) (probe_of ev) (cp_watermark s)"
proof (cases ev)
  case (BookEntry e seen now)
  have "cp_watermark (handle_entry e seen now s) = cp_watermark s"
    by (rule entry_cases) (simp_all add: settle_open)
  with BookEntry show "cp_crashed s = None \<Longrightarrow> ?thesis" by (simp add: cap_step.simps)
qed (auto simp: cap_step.simps resume_desync_def ladder_tick_def disk_tick_def check_def Let_def
    split: option.splits sum.splits)

lemma step_pairs: "cp_pairs (cap_step ev s) = cp_pairs s"
proof (cases ev)
  case (BookEntry e seen now)
  have "cp_pairs (handle_entry e seen now s) = cp_pairs s"
    by (rule entry_cases) (simp_all add: settle_verdict_def)
  with BookEntry show ?thesis by (simp add: cap_step.simps)
qed (auto simp: cap_step.simps resume_desync_def ladder_tick_def disk_tick_def check_def Let_def
    split: option.splits sum.splits)

lemma run_pairs: "cp_pairs (cap_run es s) = cp_pairs s"
  by (rule run_induct) (simp_all add: step_pairs)

lemma run_watermark:
  "cp_crashed (cap_run es s) = None \<Longrightarrow>
   cp_watermark (cap_run es s) = fold (\<lambda>u w. snd (check u w)) (probes es) (cp_watermark s)"
proof (induction es rule: rev_induct)
  case (snoc ev es)
  let ?s = "cap_run es s"
  have last: "cap_run (es @ [ev]) s = cap_step ev ?s" by (simp add: cap_run_def)
  with snoc.prems have "cp_crashed ?s = None" by (auto simp: cap_step.simps split: if_splits)
  from snoc.IH [OF this] step_watermark [OF this] last show ?case by (simp add: probes_def)
qed (simp add: cap_run_def probes_def)

lemma checks_last:
  assumes "wm_min_free w = DEFAULT_MIN_FREE_BYTES" "wm_measurable w" "\<not> wm_breached w"
  shows "\<not> wm_breached (fold (\<lambda>u w. snd (check u w)) us w) \<and> wm_measurable (fold (\<lambda>u w. snd (check u w)) us w)
      \<longleftrightarrow> disk_ok us"
proof -
  have "wm_min_free (fold (\<lambda>u w. snd (check u w)) us w) = wm_min_free w" for us
    by (induction us rule: rev_induct) (auto simp: check_def Let_def split: sum.splits)
  with assms show ?thesis
    by (cases us rule: rev_cases) (auto simp: disk_ok_def check_def Let_def split: sum.splits)
qed

text \<open>What a sweep makes of one pair's silence window and total.\<close>

definition silence_after :: "pyfloat \<Rightarrow> int \<Rightarrow> int option \<Rightarrow> int option \<times> pyfloat \<Rightarrow> int option \<times> pyfloat" where
  "silence_after threshold now seen w =
     (case (seen, w) of
        (None, _) \<Rightarrow> w
      | (Some t, since, booked) \<Rightarrow>
          (if fgt (total_seconds (now - t)) threshold then (Some (case since of None \<Rightarrow> t | Some t0 \<Rightarrow> t0), booked)
           else (None, case since of None \<Rightarrow> booked | Some t0 \<Rightarrow> fadd booked (lasted t0 t))))"

definition silence_of :: "monitor \<Rightarrow> string \<Rightarrow> int option \<times> pyfloat" where
  "silence_of m p = (gm_silent_open m p, total_of (gm_silent m) p)"

lemma stale_pair_silence:
  "silence_of (stale_pair th now seen q m) p = (if p = q then silence_after th now (seen p) (silence_of m p) else silence_of m p)"
  by (auto simp: silence_of_def silence_after_def stale_pair_def start_silence_def end_silence_def is_silent_def
      total_of_def Let_def split: option.splits)

lemma silence_after_idem: "silence_after th now t (silence_after th now t w) = silence_after th now t w"
  by (auto simp: silence_after_def split: option.splits prod.splits)

section \<open>Properties\<close>

text \<open>
  C24. Over every interleaving of the daemon's tasks, clocks and disk answers, the windows of the gap ledger are
  exactly the faults: a pair's checksum window is open precisely while its book is desynced, and the disk window
  precisely while the watermark is breached.
\<close>

theorem windows_match_faults:
  "(is_open p (cp_monitor (cap_run es (start_capture ps depth drill t0))) \<longleftrightarrow>
      book_desynced (cap_run es (start_capture ps depth drill t0)) p) \<and>
   (gm_watermark_open (cp_monitor (cap_run es (start_capture ps depth drill t0))) \<noteq> None \<longleftrightarrow>
      wm_breached (cp_watermark (cap_run es (start_capture ps depth drill t0))))"
proof -
  have "consistent (cap_run es (start_capture ps depth drill t0))"
    by (rule run_induct [where P = consistent]) (simp_all add: consistent_start consistent_step)
  then show ?thesis by (simp add: consistent_def)
qed

text \<open>
  C25. The dead-man ping fails closed: while the daemon runs, a ping is due exactly when the link is up, no
  configured pair's book is desynced and the disk's last answer, if any, was a measurement with enough space.
\<close>

theorem ping_iff_all_well:
  assumes "cp_crashed (cap_run es (start_capture ps depth drill t0)) = None"
  shows "ping_due (cap_run es (start_capture ps depth drill t0)) \<longleftrightarrow>
    cp_online (cap_run es (start_capture ps depth drill t0)) \<and>
    (\<forall>p \<in> set ps. \<not> book_desynced (cap_run es (start_capture ps depth drill t0)) p) \<and> disk_ok (probes es)"
proof -
  let ?s0 = "start_capture ps depth drill t0"
  let ?s = "cap_run es ?s0"
  have "consistent ?s" by (rule run_induct [where P = consistent]) (simp_all add: consistent_start consistent_step)
  moreover have "cp_pairs ?s = ps" by (simp add: run_pairs start_capture_def)
  moreover have "\<not> wm_breached (cp_watermark ?s) \<and> wm_measurable (cp_watermark ?s) \<longleftrightarrow> disk_ok (probes es)"
    unfolding run_watermark [OF assms] by (rule checks_last) (simp_all add: start_capture_def new_watermark_def)
  ultimately show ?thesis by (auto simp: ping_due_def is_healthy_def consistent_def list_ex_iff)
qed

text \<open>
  C26. No stuck book is ever forgotten: while the daemon runs, a pair whose book is desynced is on the ladder's
  record or its first resubscription is still being awaited, whatever ran in between.
\<close>

theorem desynced_book_is_on_the_ladder:
  assumes "cp_crashed (cap_run es (start_capture ps depth drill t0)) = None"
    and "book_desynced (cap_run es (start_capture ps depth drill t0)) p"
  shows "on_ladder (cp_recovery (cap_run es (start_capture ps depth drill t0))) p \<or>
    (\<exists>t. cp_awaiting (cap_run es (start_capture ps depth drill t0)) = Some (p, t))"
proof -
  have "laddered (cap_run es (start_capture ps depth drill t0))"
    by (rule run_induct [where P = laddered]) (simp_all add: laddered_start laddered_step)
  with assms show ?thesis by (simp add: laddered_def)
qed

text \<open>
  A staleness sweep settles each swept pair on its own: a pair silent for longer than the threshold has its
  window open since its last message, or since an earlier window's start, and nothing booked; any other swept
  pair has its window closed and its silence booked up to the message that ended it. A pair that is not swept or
  was never seen is left alone.
\<close>

theorem silence_window_exact:
  "silence_of (staleness_sweep threshold now seen ps m) p =
     (if p \<in> set ps then silence_after threshold now (seen p) (silence_of m p) else silence_of m p)"
  unfolding staleness_sweep_def
  by (induction ps arbitrary: m) (simp_all add: stale_pair_silence silence_after_idem)

text \<open>Concrete runs: a desync, its resubscription, and a healed book on a measured disk.\<close>

definition bad_entry :: entry where
  "bad_entry = \<lparr>en_symbol = Some ''A'', en_event = Update \<lparr>bm_bids = [], bm_asks = [], bm_checksum = Some 1\<rparr>\<rparr>"

definition demo_start :: capture where
  "demo_start = start_capture [''A''] 10 (Fin 0) 0"

lemma bad_verdict: "ingest (en_event bad_entry) (empty_book 10) = (Inr False, (empty_book 10)\<lparr>ob_desynced := True\<rparr>)"
  by (simp add: bad_entry_def ingest_update_def validate_def prune_def prune_side_def empty_book_def checksum_def
      ranked_def level_text_def crc32_def Let_def)

lemma demo_desync:
  "cap_run [BookEntry bad_entry 1 1] demo_start =
    demo_start\<lparr>cp_seen := [''A'' \<mapsto> 1], cp_books := [(''A'', (empty_book 10)\<lparr>ob_desynced := True\<rparr>)],
      cp_monitor := start_gap ''A'' ''checksum_resync'' 1 new_monitor, cp_awaiting := Some (''A'', 1)\<rparr>"
  using bad_verdict
  by (auto simp: cap_run_def cap_step.simps demo_start_def start_capture_def new_books_def handle_entry_def
      bad_entry_def drill_maybe_fail_def settle_verdict_def empty_book_def fun_eq_iff)

theorem ping_iff_all_well_witness:
  "ping_due (cap_run [Link True, DiskTick (Inr (2 * DEFAULT_MIN_FREE_BYTES)) 0] demo_start) \<and>
   \<not> ping_due (cap_run [BookEntry bad_entry 1 1] demo_start)"
proof -
  let ?es = "[Link True, DiskTick (Inr (2 * DEFAULT_MIN_FREE_BYTES)) 0]"
  have up: "cp_crashed (cap_run ?es demo_start) = None" "cp_online (cap_run ?es demo_start)"
    "\<not> book_desynced (cap_run ?es demo_start) ''A''" "disk_ok (probes ?es)"
    by (simp_all add: cap_run_def cap_step.simps demo_start_def start_capture_def disk_tick_def check_def Let_def
        book_desynced_def new_books_def empty_book_def disk_ok_def probes_def DEFAULT_MIN_FREE_BYTES_def new_watermark_def)
  have down: "cp_crashed (cap_run [BookEntry bad_entry 1 1] demo_start) = None"
    "book_desynced (cap_run [BookEntry bad_entry 1 1] demo_start) ''A''"
    unfolding demo_desync by (simp_all add: book_desynced_def demo_start_def start_capture_def)
  show ?thesis using ping_iff_all_well [of ?es "[''A'']" 10 "Fin 0" 0] up
      ping_iff_all_well [of "[BookEntry bad_entry 1 1]" "[''A'']" 10 "Fin 0" 0] down
    by (simp add: demo_start_def)
qed

theorem desynced_book_is_on_the_ladder_witness:
  "on_ladder (cp_recovery (cap_run [BookEntry bad_entry 1 1, Resumed None] demo_start)) ''A''"
proof -
  let ?es = "[BookEntry bad_entry 1 1, Resumed None]"
  have run: "cap_run ?es demo_start = cap_step (Resumed None) (cap_run [BookEntry bad_entry 1 1] demo_start)"
    by (simp add: cap_run_def)
  have s: "cp_crashed (cap_run ?es demo_start) = None" "cp_awaiting (cap_run ?es demo_start) = None"
    "book_desynced (cap_run ?es demo_start) ''A''"
    unfolding run demo_desync by (simp_all add: cap_step.simps resume_desync_def book_desynced_def demo_start_def start_capture_def)
  show ?thesis using desynced_book_is_on_the_ladder [of ?es "[''A'']" 10 "Fin 0" 0 "''A''"] s by (simp add: demo_start_def)
qed

end
