(* ===== verification/Settle.thy ===== *)
theory Settle imports PyValue FloatMono "HOL-Library.List_Lexorder" "HOL-Library.Char_ord" "HOL-Library.Product_Lexorder"
begin

text \<open>
  \<open>cli/archive/settle.py\<close>: which hours are settled, the windows in which nothing was recorded anywhere, and
  the verdict on an episode of them. An aware UTC datetime is its microseconds since the epoch, which
  \<open>us_from_dt\<close> computes exactly; \<open>settled_hours\<close>, which meets other offsets, works on \<open>dt\<close>.
\<close>

section \<open>Settled hours\<close>

definition SETTLE_HOURS :: int where "SETTLE_HOURS = 2"
definition LATE_MINT_HOURS :: int where "LATE_MINT_HOURS = 6"

text \<open>\<open>replace(minute=0, second=0, microsecond=0)\<close> on the wall clock.\<close>

definition hour_floor :: "dt \<Rightarrow> dt" where
  "hour_floor d = d\<lparr>wall := wall d div hour_us * hour_us\<rparr>"

definition settled_hours :: "dt \<Rightarrow> int \<Rightarrow> dt list res" where
  "settled_hours now window_hours =
     (case off now of
        None \<Rightarrow> Inl (CaptureError ''a naive now'')
      | Some z \<Rightarrow>
          (if z \<noteq> 0 then Inl (CaptureError ''a now not at UTC'')
           else let newest = dt_add (hour_floor now) (- SETTLE_HOURS * hour_us)
                in Inr (map (\<lambda>i. dt_add newest (- int i * hour_us)) (rev [0..<nat window_hours]))))"

definition is_late :: "dt \<Rightarrow> dt \<Rightarrow> bool res" where
  "is_late hour now = rbind (dt_sub now hour) (\<lambda>d. Inr (LATE_MINT_HOURS * hour_us \<le> d))"

text \<open>A scan: each pair's committed hours.\<close>

definition newest_hour :: "(string \<times> int list) list list \<Rightarrow> int option" where
  "newest_hour scans =
     (let hours = concat (map (\<lambda>scan. concat (map snd scan)) scans)
      in if hours = [] then None else Some (Max (set hours)))"

section \<open>Microseconds\<close>

text \<open>A \<open>timedelta\<close> keeps days, seconds and microseconds, the last two in their ranges.\<close>

definition td_days :: "int \<Rightarrow> int" where "td_days us = us div day_us"
definition td_seconds :: "int \<Rightarrow> int" where "td_seconds us = us mod day_us div second_us"
definition td_microseconds :: "int \<Rightarrow> int" where "td_microseconds us = us mod second_us"

definition us_from_dt :: "dt \<Rightarrow> int res" where
  "us_from_dt moment = rbind (dt_sub moment (utc 0)) (\<lambda>delta.
     Inr ((td_days delta * 86400 + td_seconds delta) * 1000000 + td_microseconds delta))"

definition dt_from_us :: "int \<Rightarrow> dt" where
  "dt_from_us us = dt_add (utc 0) us"

text \<open>Stamps arrive as an array of some dtype, or as datetimes.\<close>

datatype stamps = NdArray bool "int list" | Datetimes "dt list"

fun us_array :: "stamps \<Rightarrow> int list res" where
  "us_array (NdArray is_int64 xs) =
     (if \<not> is_int64 then Inl (CaptureError ''stamps ndarray is not int64 microseconds since epoch'') else Inr xs)"
| "us_array (Datetimes ds) = rmap us_from_dt ds"

record column =
  col_us_utc :: bool
  col_values :: "int option list"

definition us_view :: "column \<Rightarrow> int list res" where
  "us_view c =
     (if \<not> col_us_utc c then Inl (CaptureError ''book ts column is not Datetime(us, UTC)'')
      else if None \<in> set (col_values c) then Inl (CaptureError ''null ts in a book segment'')
      else Inr (map the (col_values c)))"

section \<open>Dark windows\<close>

record dark_window =
  dw_start :: int
  dw_end :: int
  dw_seconds :: pyfloat

text \<open>A difference of int64 microseconds as a float, then divided by \<open>1e6\<close>: two roundings.\<close>

fun over_million :: "pyfloat \<Rightarrow> pyfloat" where
  "over_million (Fin x) = fround (x / 1000000)"
| "over_million a = a"

definition np_seconds :: "int \<Rightarrow> pyfloat" where
  "np_seconds us = over_million (fround (of_int us))"

text \<open>\<open>np.unique\<close> of the stamps inside the hour, with the hour's bounds around them.\<close>

definition stamps_inside :: "int list \<Rightarrow> int \<Rightarrow> int \<Rightarrow> int list" where
  "stamps_inside arr lo hi = sort (remdups (filter (\<lambda>t. lo \<le> t \<and> t \<le> hi) arr))"

definition edges_of :: "int list \<Rightarrow> int \<Rightarrow> int \<Rightarrow> int list" where
  "edges_of arr lo hi = lo # stamps_inside arr lo hi @ [hi]"

fun windows_of :: "pyfloat \<Rightarrow> int list \<Rightarrow> dark_window list" where
  "windows_of least (a # b # es) =
     (let s = np_seconds (b - a)
      in (if fgt s least then [\<lparr>dw_start = a, dw_end = b, dw_seconds = s\<rparr>] else []) @ windows_of least (b # es))"
| "windows_of least _ = []"

definition fleet_dark_windows :: "stamps \<Rightarrow> int \<Rightarrow> int \<Rightarrow> pyfloat \<Rightarrow> dark_window list res" where
  "fleet_dark_windows stamps hour_start hour_end min_seconds =
     rbind (us_array stamps) (\<lambda>arr. Inr (windows_of min_seconds (edges_of arr hour_start hour_end)))"

text \<open>\<open>np.searchsorted(edges, ws, side="right")\<close> on a sorted array.\<close>

definition searchsorted_right :: "int list \<Rightarrow> int \<Rightarrow> nat" where
  "searchsorted_right es x = length (takeWhile (\<lambda>e. e \<le> x) es)"

definition containing_dark_window :: "stamps \<Rightarrow> dark_window \<Rightarrow> int \<Rightarrow> int \<Rightarrow> dark_window option res" where
  "containing_dark_window stamps window hour_start hour_end =
     rbind (us_array stamps) (\<lambda>arr.
       let es = edges_of arr hour_start hour_end;
           k = searchsorted_right es (dw_start window)
       in if k = 0 \<or> length es \<le> k then Inr None
          else let a = es ! (k - 1); b = es ! k
               in if a \<le> dw_start window \<and> dw_end window \<le> b
                  then Inr (Some \<lparr>dw_start = a, dw_end = b, dw_seconds = np_seconds (b - a)\<rparr>)
                  else Inr None)"

section \<open>The verdict on an episode\<close>

definition VENUE_SILENT :: string where "VENUE_SILENT = ''venue_silent''"
definition CAPTURE_DIVERGENT :: string where "CAPTURE_DIVERGENT = ''capture_divergent''"
definition UNDETERMINED :: string where "UNDETERMINED = ''undetermined''"
definition INTERIOR_MAX_SECONDS :: pyfloat where "INTERIOR_MAX_SECONDS = Fin 300"

record episode =
  ep_verdict :: string
  ep_updates :: nat
  ep_snapshots :: nat
  ep_seconds :: pyfloat
  ep_agreeing :: nat
  ep_skipped :: nat
  ep_divergent :: "string list"

type_synonym rows = "(int \<times> string) list"

record mirrors =
  mr_primary :: "rows option"
  mr_secondary :: "rows option"

definition rows_inside :: "int \<Rightarrow> int \<Rightarrow> rows \<Rightarrow> rows" where
  "rows_inside lo hi rs = sort (filter (\<lambda>r. lo \<le> fst r \<and> fst r \<le> hi) rs)"

text \<open>What the loop has counted so far.\<close>

record census =
  cs_updates :: nat
  cs_snapshots :: nat
  cs_agreeing :: nat
  cs_skipped :: nat
  cs_divergent :: "string list"

definition empty_census :: census where
  "empty_census = \<lparr>cs_updates = 0, cs_snapshots = 0, cs_agreeing = 0, cs_skipped = 0, cs_divergent = []\<rparr>"

definition weigh_pair :: "int \<Rightarrow> int \<Rightarrow> string \<times> mirrors \<Rightarrow> census \<Rightarrow> census" where
  "weigh_pair lo hi pm c =
     (case (mr_primary (snd pm), mr_secondary (snd pm)) of
        (Some p, Some s) \<Rightarrow>
          (let ip = rows_inside lo hi p; iz = rows_inside lo hi s
           in if ip = [] \<and> iz = [] then c
              else if ip = iz
              then c\<lparr>cs_agreeing := cs_agreeing c + 1,
                     cs_updates := cs_updates c + length (filter (\<lambda>r. snd r = ''update'') ip),
                     cs_snapshots := cs_snapshots c + length (filter (\<lambda>r. snd r \<noteq> ''update'') ip)\<rparr>
              else c\<lparr>cs_divergent := cs_divergent c @ [fst pm]\<rparr>)
      | _ \<Rightarrow> c\<lparr>cs_skipped := cs_skipped c + 1\<rparr>)"

text \<open>The mirrors of each pair, one entry per pair.\<close>

definition take_census :: "int \<Rightarrow> int \<Rightarrow> (string \<times> mirrors) list \<Rightarrow> census" where
  "take_census lo hi mirror_rows = fold (weigh_pair lo hi) (sort_key fst mirror_rows) empty_census"

definition undetermined :: episode where
  "undetermined = \<lparr>ep_verdict = UNDETERMINED, ep_updates = 0, ep_snapshots = 0, ep_seconds = Fin 0,
     ep_agreeing = 0, ep_skipped = 0, ep_divergent = []\<rparr>"

definition verdict_of :: "census \<Rightarrow> pyfloat \<Rightarrow> pyfloat \<Rightarrow> string" where
  "verdict_of c interior_seconds dark_seconds =
     (if cs_divergent c \<noteq> [] then CAPTURE_DIVERGENT
      else if cs_skipped c \<noteq> 0 \<or> cs_agreeing c = 0 \<or> cs_updates c = 0 \<or> fge interior_seconds dark_seconds \<or>
              fgt interior_seconds INTERIOR_MAX_SECONDS
      then UNDETERMINED else VENUE_SILENT)"

definition classify_dark_episode :: "dark_window list \<Rightarrow> (string \<times> mirrors) list \<Rightarrow> episode" where
  "classify_dark_episode windows mirror_rows =
     (case windows of
        [w1, w2] \<Rightarrow>
          (let lo = dw_end w1; hi = dw_start w2 in
           if hi < lo then undetermined
           else let interior_seconds = total_seconds (hi - lo);
                    dark_seconds = fadd (dw_seconds w1) (dw_seconds w2);
                    c = take_census lo hi mirror_rows
                in \<lparr>ep_verdict = verdict_of c interior_seconds dark_seconds, ep_updates = cs_updates c,
                    ep_snapshots = cs_snapshots c, ep_seconds = interior_seconds, ep_agreeing = cs_agreeing c,
                    ep_skipped = cs_skipped c, ep_divergent = cs_divergent c\<rparr>)
      | _ \<Rightarrow> undetermined)"

definition is_total_loss :: "int \<Rightarrow> int set \<Rightarrow> (int \<times> int) option \<Rightarrow> int set option \<Rightarrow> bool" where
  "is_total_loss hour available extent alive_witness =
     (case extent of
        None \<Rightarrow> False
      | Some (earliest, latest) \<Rightarrow>
          (if hour \<in> available then False
           else if (case alive_witness of None \<Rightarrow> False | Some w \<Rightarrow> hour \<in> w) then False
           else earliest < hour \<and> hour < latest))"

section \<open>Lemmas\<close>

lemma timedelta_parts: "(td_days u * 86400 + td_seconds u) * 1000000 + td_microseconds u = u"
proof -
  have "u mod day_us mod second_us = u mod second_us" by (rule mod_mod_cancel) simp
  moreover have "u mod day_us div second_us * second_us + u mod day_us mod second_us = u mod day_us"
    by (rule div_mult_mod_eq)
  ultimately have "td_seconds u * second_us + td_microseconds u = u mod day_us"
    by (simp only: td_seconds_def td_microseconds_def)
  moreover have "td_days u * day_us + u mod day_us = u" unfolding td_days_def by (rule div_mult_mod_eq)
  moreover have "(td_days u * 86400 + td_seconds u) * 1000000 + td_microseconds u =
      td_days u * day_us + (td_seconds u * second_us + td_microseconds u)" by (simp add: algebra_simps)
  ultimately show ?thesis by (simp only:)
qed

lemma us_from_dt_instant: "off d \<noteq> None \<Longrightarrow> us_from_dt d = Inr (instant d)"
  using timedelta_parts [of "instant d"]
  by (simp add: us_from_dt_def dt_sub_def comparable_def naive_def algebra_simps)

lemma us_roundtrip: "us_from_dt (dt_from_us us) = Inr us"
  by (simp add: dt_from_us_def us_from_dt_instant)

lemma fround_not_NaN [simp]: "fround x \<noteq> NaN"
  by (simp add: fround_rnd)

lemma over_million_mono: "fle a b \<Longrightarrow> fle (over_million a) (over_million b)"
  by (cases a; cases b; simp add: fround_mono divide_right_mono) (auto simp: fle_def feq_def fround_rnd)

lemma np_seconds_mono: "a \<le> b \<Longrightarrow> fle (np_seconds a) (np_seconds b)"
  unfolding np_seconds_def by (intro over_million_mono fround_mono) simp

lemma np_seconds_0: "np_seconds 0 = Fin 0"
  by (simp add: np_seconds_def fround_rnd)

lemma np_seconds_pos: "fle (Fin 0) least \<Longrightarrow> fgt (np_seconds d) least \<Longrightarrow> 0 < d"
proof (rule ccontr)
  assume l: "fle (Fin 0) least" "fgt (np_seconds d) least" and "\<not> 0 < d"
  then have "fle (np_seconds d) (Fin 0)" using np_seconds_mono [of d 0] by (simp add: np_seconds_0)
  then have "fle (np_seconds d) least" using l(1) fle_trans by blast
  with l(2) fle_not_flt show False by blast
qed

lemma ex_nat_split: "(\<exists>k. Q k) \<longleftrightarrow> Q 0 \<or> (\<exists>k. Q (Suc k))"
  by (metis not0_implies_Suc)

lemma windows_mem:
  "w \<in> set (windows_of least es) \<longleftrightarrow>
     (\<exists>k. Suc k < length es \<and> fgt (np_seconds (es ! Suc k - es ! k)) least \<and>
        w = \<lparr>dw_start = es ! k, dw_end = es ! Suc k, dw_seconds = np_seconds (es ! Suc k - es ! k)\<rparr>)"
proof (induction least es rule: windows_of.induct)
  case (1 least a b es)
  show ?case
    unfolding windows_of.simps Let_def set_append Un_iff "1.IH" [OF refl]
    by (subst ex_nat_split) auto
qed auto

lemma windows_ordered: "sorted es \<Longrightarrow> sorted_wrt (\<lambda>w w'. dw_end w \<le> dw_start w') (windows_of least es)"
proof (induction least es rule: windows_of.induct)
  case (1 least a b es)
  have "b \<le> dw_start w" if "w \<in> set (windows_of least (b # es))" for w
  proof -
    from that obtain k where "Suc k < length (b # es)" "dw_start w = (b # es) ! k" unfolding windows_mem by auto
    then have "dw_start w \<in> set (b # es)" by (simp add: nth_mem del: set_simps)
    with "1.prems" show ?thesis by auto
  qed
  with 1 show ?case by (auto simp: Let_def sorted_wrt_append)
qed auto

text \<open>A maximal interval of the hour without a stamp inside it.\<close>

definition silent_between :: "int set \<Rightarrow> int \<Rightarrow> int \<Rightarrow> int \<Rightarrow> int \<Rightarrow> bool" where
  "silent_between S lo hi a b \<longleftrightarrow> lo \<le> a \<and> a < b \<and> b \<le> hi \<and> (a = lo \<or> a \<in> S) \<and> (b = hi \<or> b \<in> S) \<and>
     (\<forall>t \<in> S. \<not> (a < t \<and> t < b))"

lemma edges_set: "set (edges_of arr lo hi) = insert lo (insert hi {t \<in> set arr. lo \<le> t \<and> t \<le> hi})"
  by (auto simp: edges_of_def stamps_inside_def)

lemma edges_sorted: "lo \<le> hi \<Longrightarrow> sorted (edges_of arr lo hi)"
  by (auto simp: edges_of_def stamps_inside_def sorted_append)

lemma takeWhile_stops: "x \<in> set xs \<Longrightarrow> \<not> P x \<Longrightarrow> length (takeWhile P xs) < length xs"
  by (induction xs) auto

lemma consecutive:
  assumes "sorted es"
  shows "(\<exists>k. Suc k < length es \<and> es ! k = a \<and> es ! Suc k = b \<and> a < b) \<longleftrightarrow>
    a \<in> set es \<and> b \<in> set es \<and> a < b \<and> (\<forall>t \<in> set es. \<not> (a < t \<and> t < (b :: int)))"
proof
  assume "\<exists>k. Suc k < length es \<and> es ! k = a \<and> es ! Suc k = b \<and> a < b"
  then obtain k where k: "Suc k < length es" "es ! k = a" "es ! Suc k = b" "a < b" by blast
  have "es ! j \<le> a \<or> b \<le> es ! j" if "j < length es" for j
    using sorted_nth_mono [OF assms, of j k] sorted_nth_mono [OF assms, of "Suc k" j] k that
    by (cases "j \<le> k") auto
  then have "\<not> (a < t \<and> t < b)" if "t \<in> set es" for t using that by (force simp: in_set_conv_nth)
  moreover have "a \<in> set es" "b \<in> set es" using k nth_mem [of k es] nth_mem [of "Suc k" es] by auto
  ultimately show "a \<in> set es \<and> b \<in> set es \<and> a < b \<and> (\<forall>t \<in> set es. \<not> (a < t \<and> t < b))"
    using k(4) by blast
next
  assume r: "a \<in> set es \<and> b \<in> set es \<and> a < b \<and> (\<forall>t \<in> set es. \<not> (a < t \<and> t < b))"
  define k where "k = length (takeWhile (\<lambda>e. e \<le> a) es)"
  from r have "b \<in> set es" "\<not> b \<le> a" by auto
  then have k1: "k < length es" unfolding k_def by (rule takeWhile_stops)
  then have k2: "\<not> es ! k \<le> a" unfolding k_def by (rule nth_length_takeWhile)
  note k = k1 k2
  have below: "es ! j \<le> a" if "j < k" for j
  proof -
    have "takeWhile (\<lambda>e. e \<le> a) es ! j \<in> set (takeWhile (\<lambda>e. e \<le> a) es)" using that by (simp add: k_def)
    with that show ?thesis by (auto simp: k_def takeWhile_nth dest: set_takeWhileD)
  qed
  obtain i where i: "i < length es" "es ! i = a" using r by (auto simp: in_set_conv_nth)
  have "i < k" using k i sorted_nth_mono [OF assms, of k i] by (cases "i < k") auto
  then obtain j where j: "k = Suc j" by (cases k) auto
  have "es ! j = a" using below [of j] sorted_nth_mono [OF assms, of i j] i \<open>i < k\<close> j k(1) by auto
  moreover have "es ! k = b"
  proof -
    obtain l where l: "l < length es" "es ! l = b" using r by (auto simp: in_set_conv_nth)
    have "k \<le> l" using below [of l] l r by (cases "k \<le> l") auto
    then have "es ! k \<le> b" using sorted_nth_mono [OF assms, of k l] l by auto
    moreover have "\<not> (a < es ! k \<and> es ! k < b)" using r k(1) nth_mem by blast
    ultimately show ?thesis using k(2) by auto
  qed
  ultimately show "\<exists>k. Suc k < length es \<and> es ! k = a \<and> es ! Suc k = b \<and> a < b" using j k(1) r by blast
qed

lemma silent_iff:
  assumes "\<forall>t \<in> S. lo \<le> t \<and> t \<le> hi" and "lo \<le> (hi :: int)"
  shows "silent_between S lo hi a b \<longleftrightarrow> a \<in> insert lo (insert hi S) \<and> b \<in> insert lo (insert hi S) \<and> a < b \<and>
    (\<forall>t \<in> insert lo (insert hi S). \<not> (a < t \<and> t < b))" (is "?L \<longleftrightarrow> ?R")
proof
  assume ?L
  then show ?R by (auto simp: silent_between_def)
next
  assume r: ?R
  have "lo \<le> a" "b \<le> hi" "a = lo \<or> a \<in> S" "b = hi \<or> b \<in> S" using r assms by auto
  with r show ?L by (simp add: silent_between_def)
qed

lemma silent_edges:
  assumes "lo \<le> hi"
  shows "silent_between {t \<in> set arr. lo \<le> t \<and> t \<le> hi} lo hi a b \<longleftrightarrow>
    (\<exists>k. Suc k < length (edges_of arr lo hi) \<and> edges_of arr lo hi ! k = a \<and> edges_of arr lo hi ! Suc k = b \<and> a < b)"
  unfolding consecutive [OF edges_sorted [OF assms]] edges_set by (rule silent_iff) (use assms in auto)

lemma searchsorted_split:
  assumes "sorted es" and "k = searchsorted_right es x" and "es \<noteq> []" and "hd es \<le> x" and "x < last es"
  shows "0 < k" "k < length es" "es ! (k - 1) \<le> x" "x < es ! k"
proof -
  show k0: "0 < k" using assms(2-4) by (cases es) (auto simp: searchsorted_right_def)
  have "last es \<in> set es" "\<not> last es \<le> x" using assms(3,5) by auto
  then have len: "length (takeWhile (\<lambda>e. e \<le> x) es) < length es" by (rule takeWhile_stops)
  then show "k < length es" by (simp add: assms(2) searchsorted_right_def)
  from nth_length_takeWhile [OF len] show "x < es ! k" by (simp add: assms(2) searchsorted_right_def)
  have "takeWhile (\<lambda>e. e \<le> x) es ! (k - 1) \<in> set (takeWhile (\<lambda>e. e \<le> x) es)"
    using k0 by (simp add: assms(2) searchsorted_right_def)
  with k0 show "es ! (k - 1) \<le> x"
    by (auto simp: assms(2) searchsorted_right_def takeWhile_nth dest: set_takeWhileD)
qed

lemma dark_mem:
  assumes "lo \<le> hi" and "fle (Fin 0) least"
  shows "w \<in> set (windows_of least (edges_of arr lo hi)) \<longleftrightarrow>
    silent_between {t \<in> set arr. lo \<le> t \<and> t \<le> hi} lo hi (dw_start w) (dw_end w) \<and>
    dw_seconds w = np_seconds (dw_end w - dw_start w) \<and> fgt (dw_seconds w) least"
  unfolding windows_mem silent_edges [OF assms(1)] using np_seconds_pos [OF assms(2)]
  by (cases w) fastforce

text \<open>What one pair adds to the census, and what no pair may be for the census to be clean.\<close>

definition pair_agrees :: "int \<Rightarrow> int \<Rightarrow> mirrors \<Rightarrow> bool" where
  "pair_agrees lo hi m \<longleftrightarrow> (case (mr_primary m, mr_secondary m) of
     (Some p, Some s) \<Rightarrow> rows_inside lo hi p = rows_inside lo hi s | _ \<Rightarrow> False)"

definition pair_updates :: "int \<Rightarrow> int \<Rightarrow> mirrors \<Rightarrow> bool" where
  "pair_updates lo hi m \<longleftrightarrow> (case (mr_primary m, mr_secondary m) of
     (Some p, Some s) \<Rightarrow> rows_inside lo hi p = rows_inside lo hi s \<and> (\<exists>r \<in> set (rows_inside lo hi p). snd r = ''update'')
   | _ \<Rightarrow> False)"

definition clean :: "census \<Rightarrow> bool" where
  "clean c \<longleftrightarrow> cs_divergent c = [] \<and> cs_skipped c = 0"

definition updated :: "census \<Rightarrow> bool" where
  "updated c \<longleftrightarrow> cs_updates c \<noteq> 0"

lemma weigh_clean: "clean (weigh_pair lo hi pm c) \<longleftrightarrow> clean c \<and> pair_agrees lo hi (snd pm)"
  by (auto simp: clean_def weigh_pair_def pair_agrees_def Let_def split: option.splits)

lemma weigh_updated: "updated (weigh_pair lo hi pm c) \<longleftrightarrow> updated c \<or> pair_updates lo hi (snd pm)"
  by (auto simp: updated_def weigh_pair_def pair_updates_def Let_def filter_empty_conv split: option.splits)

lemma weigh_agreeing: "(updated c \<longrightarrow> cs_agreeing c \<noteq> 0) \<Longrightarrow>
    updated (weigh_pair lo hi pm c) \<longrightarrow> cs_agreeing (weigh_pair lo hi pm c) \<noteq> 0"
  by (auto simp: updated_def weigh_pair_def Let_def split: option.splits)

lemma fold_clean: "clean (fold (weigh_pair lo hi) pms c) \<longleftrightarrow> clean c \<and> (\<forall>pm \<in> set pms. pair_agrees lo hi (snd pm))"
  by (induction pms arbitrary: c) (simp_all add: weigh_clean)

lemma fold_updated:
  "updated (fold (weigh_pair lo hi) pms c) \<longleftrightarrow> updated c \<or> (\<exists>pm \<in> set pms. pair_updates lo hi (snd pm))"
  by (induction pms arbitrary: c) (simp_all add: weigh_updated)

lemma fold_agreeing: "(updated c \<longrightarrow> cs_agreeing c \<noteq> 0) \<Longrightarrow>
    updated (fold (weigh_pair lo hi) pms c) \<longrightarrow> cs_agreeing (fold (weigh_pair lo hi) pms c) \<noteq> 0"
proof (induction pms arbitrary: c)
  case (Cons pm pms)
  from Cons.IH [OF weigh_agreeing [OF Cons.prems]] show ?case by simp
qed simp

lemma census_clean:
  "clean (take_census lo hi mr) \<longleftrightarrow> (\<forall>pm \<in> set mr. pair_agrees lo hi (snd pm))"
  "updated (take_census lo hi mr) \<longleftrightarrow> (\<exists>pm \<in> set mr. pair_updates lo hi (snd pm))"
  "updated (take_census lo hi mr) \<longrightarrow> cs_agreeing (take_census lo hi mr) \<noteq> 0"
proof -
  have start: "clean empty_census" "\<not> updated empty_census" by (simp_all add: clean_def updated_def empty_census_def)
  then show "clean (take_census lo hi mr) \<longleftrightarrow> (\<forall>pm \<in> set mr. pair_agrees lo hi (snd pm))"
    "updated (take_census lo hi mr) \<longleftrightarrow> (\<exists>pm \<in> set mr. pair_updates lo hi (snd pm))"
    by (simp_all add: take_census_def fold_clean fold_updated)
  show "updated (take_census lo hi mr) \<longrightarrow> cs_agreeing (take_census lo hi mr) \<noteq> 0"
    unfolding take_census_def using start by (intro fold_agreeing) simp
qed

lemma silent_verdict:
  "verdict_of (take_census lo hi mr) i d = VENUE_SILENT \<longleftrightarrow> \<not> fge i d \<and> \<not> fgt i INTERIOR_MAX_SECONDS \<and>
     (\<forall>pm \<in> set mr. pair_agrees lo hi (snd pm)) \<and> (\<exists>pm \<in> set mr. pair_updates lo hi (snd pm))"
  unfolding census_clean(1,2) [symmetric] using census_clean(3) [of lo hi mr]
  by (auto simp: verdict_of_def clean_def updated_def VENUE_SILENT_def CAPTURE_DIVERGENT_def UNDETERMINED_def)

section \<open>Properties\<close>

text \<open>
  C28. The dark windows of an hour are exactly its maximal intervals without any stamp that last longer than the
  threshold, the hour's bounds closing the first and the last, listed in order and without overlap; stamps from
  outside the hour change nothing. The seconds are the doubly rounded quotient numpy computes.
\<close>

theorem dark_windows_exact:
  assumes "us_array st = Inr arr" and "lo \<le> hi" and "fle (Fin 0) least"
  shows "\<exists>ws. fleet_dark_windows st lo hi least = Inr ws \<and> sorted_wrt (\<lambda>w w'. dw_end w \<le> dw_start w') ws \<and>
    (\<forall>w. w \<in> set ws \<longleftrightarrow>
       silent_between {t \<in> set arr. lo \<le> t \<and> t \<le> hi} lo hi (dw_start w) (dw_end w) \<and>
       dw_seconds w = np_seconds (dw_end w - dw_start w) \<and> fgt (dw_seconds w) least)"
  using assms(1) windows_ordered [OF edges_sorted [OF assms(2)]] dark_mem [OF assms(2,3)]
  by (simp add: fleet_dark_windows_def)

text \<open>
  Every window in which the whole fleet was silent lies inside one silence of each of its streams, and the
  search finds it: a window of the merged stamps has, for a stream whose stamps are among them, a containing
  window that is a maximal silence of that stream and is booked with no fewer seconds.
\<close>

theorem containing_window_found:
  assumes "us_array both = Inr arr" and "us_array own = Inr mine" and "set mine \<subseteq> set arr"
    and "lo \<le> hi" and "fle (Fin 0) least" and "fleet_dark_windows both lo hi least = Inr ws" and "w \<in> set ws"
  shows "\<exists>c. containing_dark_window own w lo hi = Inr (Some c) \<and> dw_start c \<le> dw_start w \<and> dw_end w \<le> dw_end c \<and>
    silent_between {t \<in> set mine. lo \<le> t \<and> t \<le> hi} lo hi (dw_start c) (dw_end c) \<and> fle (dw_seconds w) (dw_seconds c)"
proof -
  have w: "silent_between {t \<in> set arr. lo \<le> t \<and> t \<le> hi} lo hi (dw_start w) (dw_end w)"
    "dw_seconds w = np_seconds (dw_end w - dw_start w)"
    using assms(1,6,7) dark_mem [OF assms(4,5), of w arr] by (auto simp: fleet_dark_windows_def)
  let ?es = "edges_of mine lo hi"
  define k where "k = searchsorted_right ?es (dw_start w)"
  have ends: "hd ?es = lo" "last ?es = hi" "?es \<noteq> []" by (simp_all add: edges_of_def)
  from w(1) have bounds: "lo \<le> dw_start w" "dw_start w < dw_end w" "dw_end w \<le> hi"
    and gap: "\<And>t. t \<in> set arr \<Longrightarrow> lo \<le> t \<Longrightarrow> t \<le> hi \<Longrightarrow> \<not> (dw_start w < t \<and> t < dw_end w)"
    by (auto simp: silent_between_def)
  note k = searchsorted_split [OF edges_sorted [OF assms(4)] k_def ends(3)]
  from bounds ends have k: "0 < k" "k < length ?es" "?es ! (k - 1) \<le> dw_start w" "dw_start w < ?es ! k"
    using k by auto
  have "?es ! k \<in> set ?es" using k(2) by (rule nth_mem)
  then have in_es: "?es ! k = lo \<or> ?es ! k = hi \<or> ?es ! k \<in> set mine \<and> lo \<le> ?es ! k \<and> ?es ! k \<le> hi"
    by (auto simp: edges_set)
  have over: "dw_end w \<le> ?es ! k"
    using in_es gap [of "?es ! k"] assms(3) k(4) bounds by (auto simp: subset_iff)
  let ?c = "\<lparr>dw_start = ?es ! (k - 1), dw_end = ?es ! k, dw_seconds = np_seconds (?es ! k - ?es ! (k - 1))\<rparr>"
  have "containing_dark_window own w lo hi = Inr (Some ?c)"
    using k over assms(2) by (auto simp: containing_dark_window_def Let_def simp flip: k_def)
  moreover have "silent_between {t \<in> set mine. lo \<le> t \<and> t \<le> hi} lo hi (dw_start ?c) (dw_end ?c)"
    unfolding silent_edges [OF assms(4)] using k by (intro exI [of _ "k - 1"]) auto
  moreover have "fle (dw_seconds w) (dw_seconds ?c)" unfolding w(2) using k over by (auto intro: np_seconds_mono)
  ultimately show ?thesis using k(3) over by (intro exI [of _ ?c]) simp
qed

text \<open>
  C30. The verdict that blames the venue fails closed: it is given exactly when the episode has two windows in
  order, what separates them is no longer than the bound and shorter than the silence, both mirrors of every
  pair are there and hold the same rows in between, and at least one of those rows is an update.
\<close>

theorem venue_silent_iff:
  "ep_verdict (classify_dark_episode windows mr) = VENUE_SILENT \<longleftrightarrow>
     (\<exists>w1 w2. windows = [w1, w2] \<and> dw_end w1 \<le> dw_start w2 \<and>
        \<not> fge (total_seconds (dw_start w2 - dw_end w1)) (fadd (dw_seconds w1) (dw_seconds w2)) \<and>
        \<not> fgt (total_seconds (dw_start w2 - dw_end w1)) INTERIOR_MAX_SECONDS \<and>
        (\<forall>pm \<in> set mr. pair_agrees (dw_end w1) (dw_start w2) (snd pm)) \<and>
        (\<exists>pm \<in> set mr. pair_updates (dw_end w1) (dw_start w2) (snd pm)))"
proof -
  have none: "ep_verdict undetermined \<noteq> VENUE_SILENT" by (simp add: undetermined_def VENUE_SILENT_def UNDETERMINED_def)
  show ?thesis
  proof (cases "\<exists>w1 w2. windows = [w1, w2] \<and> dw_end w1 \<le> dw_start w2")
    case True
    then obtain w1 w2 where w: "windows = [w1, w2]" "\<not> dw_start w2 < dw_end w1" by auto
    then show ?thesis by (simp add: classify_dark_episode_def Let_def silent_verdict)
  next
    case False
    then have "classify_dark_episode windows mr = undetermined"
      by (auto simp: classify_dark_episode_def Let_def split: list.splits)
    with False none show ?thesis by auto
  qed
qed

text \<open>Two silences either side of one instant at which both mirrors hold the same update.\<close>

theorem venue_silent_iff_witness:
  "ep_verdict (classify_dark_episode
      [\<lparr>dw_start = 0, dw_end = 40000000, dw_seconds = Fin 40\<rparr>, \<lparr>dw_start = 40000000, dw_end = 90000000, dw_seconds = Fin 50\<rparr>]
      [(''XBT/EUR'', \<lparr>mr_primary = Some [(40000000, ''update'')], mr_secondary = Some [(95000000, ''update''), (40000000, ''update'')]\<rparr>)])
    = VENUE_SILENT"
proof -
  have "fround 90 = Fin 90" using fround_int [of 90] by simp
  then show ?thesis
    by (simp add: venue_silent_iff pair_agrees_def pair_updates_def INTERIOR_MAX_SECONDS_def rows_inside_def total_seconds_def fround_def)
qed

text \<open>Two streams, one of which ticks inside the other's silence.\<close>

lemma np_seconds_whole: "\<bar>n\<bar> < 2 ^ 33 \<Longrightarrow> np_seconds (n * 1000000) = Fin (of_int n)"
proof -
  assume n: "\<bar>n\<bar> < 2 ^ 33"
  then have "\<bar>n * 1000000\<bar> < 2 ^ 53" by (simp add: abs_mult)
  from fround_int [OF this] have "fround (of_int (n * 1000000)) = Fin (of_int (n * 1000000))" .
  moreover have "fround (of_int (n * 1000000) / 1000000) = Fin (of_int n)" using fround_int [of n] n by simp
  ultimately show ?thesis by (simp add: np_seconds_def)
qed

lemma demo_windows:
  "fleet_dark_windows (NdArray True [40000000, 10000000, 10000000]) 0 60000000 (Fin 25) =
     Inr [\<lparr>dw_start = 10000000, dw_end = 40000000, dw_seconds = Fin 30\<rparr>]"
  using np_seconds_whole [of 10] np_seconds_whole [of 30] np_seconds_whole [of 20]
  by (simp add: fleet_dark_windows_def edges_of_def stamps_inside_def)

theorem dark_windows_exact_witness:
  "\<lparr>dw_start = 10000000, dw_end = 40000000, dw_seconds = Fin 30\<rparr> \<in>
     set (case fleet_dark_windows (NdArray True [40000000, 10000000, 10000000]) 0 60000000 (Fin 25) of Inr ws \<Rightarrow> ws | Inl _ \<Rightarrow> []) \<and>
   silent_between {10000000, 40000000} 0 60000000 10000000 40000000"
proof -
  have S: "{t \<in> set [40000000, 10000000, 10000000 :: int]. 0 \<le> t \<and> t \<le> 60000000} = {10000000, 40000000}" by auto
  show ?thesis using dark_windows_exact [of "NdArray True [40000000, 10000000, 10000000]" "[40000000, 10000000, 10000000]"
      0 60000000 "Fin 25"] unfolding S demo_windows by fastforce
qed

theorem containing_window_found_witness:
  "\<exists>c. containing_dark_window (NdArray True [40000000]) \<lparr>dw_start = 10000000, dw_end = 40000000, dw_seconds = Fin 30\<rparr> 0 60000000 =
      Inr (Some c) \<and> dw_start c \<le> 10000000 \<and> 40000000 \<le> dw_end c \<and> fle (Fin 30) (dw_seconds c)"
  using containing_window_found [of "NdArray True [40000000, 10000000, 10000000]" "[40000000, 10000000, 10000000]"
      "NdArray True [40000000]" "[40000000]" 0 60000000 "Fin 25" _ "\<lparr>dw_start = 10000000, dw_end = 40000000, dw_seconds = Fin 30\<rparr>",
      OF _ _ _ _ _ demo_windows] by auto

end
