(* ===== verification/Reconcile.thy ===== *)
theory Reconcile imports Settle
begin

text \<open>
  \<open>cli/archive/reconcile.py\<close>: the gaps of a primary book stream that a secondary witnessed, the splice that heals
  them, what it leaves unfilled, and the union of two trade streams. A frame is its rows in order; a row's
  timestamp may be null, which every comparison of polars filters out. Rows are one per book level, so many
  share the timestamp of their wire message.
\<close>

section \<open>Frames and gaps\<close>

record book_row =
  br_ts :: "int option"
  br_type :: string
  br_side :: string
  br_price :: pyfloat
  br_qty :: pyfloat
  br_checksum :: int

record frame =
  fr_us :: bool
  fr_rows :: "book_row list"

record gap =
  g_start :: int
  g_end :: int
  g_seconds :: pyfloat
  g_start_primary :: bool
  g_end_primary :: bool

definition ts_is :: "(int \<Rightarrow> bool) \<Rightarrow> book_row \<Rightarrow> bool" where
  "ts_is p r = (case br_ts r of None \<Rightarrow> False | Some t \<Rightarrow> p t)"

definition inside :: "gap \<Rightarrow> int \<Rightarrow> bool" where
  "inside g t \<longleftrightarrow> (if g_start_primary g then g_start g < t else g_start g \<le> t) \<and>
                 (if g_end_primary g then t < g_end g else t \<le> g_end g)"

definition message_ts :: "frame \<Rightarrow> int list res" where
  "message_ts f =
     (let rs = fr_rows f; raw = map (\<lambda>r. the (br_ts r)) rs in
      if rs = [] then Inr []
      else if list_ex (\<lambda>r. br_ts r = None) rs then Inl (CaptureError ''null ts in the book stream'')
      else if \<not> fr_us f then Inl (CaptureError ''ts is not Datetime in microseconds'')
      else if \<not> sorted raw then Inl (CaptureError ''non-monotonic ts in the book stream'')
      else Inr (remdups_adj raw))"

definition secondary_covers :: "frame \<Rightarrow> gap \<Rightarrow> bool" where
  "secondary_covers f g \<longleftrightarrow> list_ex (\<lambda>r. ts_is (inside g) r \<and> br_type r = ''update'') (fr_rows f)"

definition validate_hour_bounds :: "dt \<Rightarrow> dt \<Rightarrow> unit res" where
  "validate_hour_bounds hour_start hour_end =
     (if naive hour_start then Inl (CaptureError ''hour_start is not tz-aware'')
      else if wall hour_start mod hour_us \<noteq> 0 then Inl (CaptureError ''hour_start is not aligned to an hour boundary'')
      else if \<not> dt_eq hour_end (dt_add hour_start hour_us)
      then Inl (CaptureError ''hour_end is not exactly one hour after hour_start'')
      else Inr ())"

definition validate_rows_within_hour :: "frame \<Rightarrow> dt \<Rightarrow> dt \<Rightarrow> unit res" where
  "validate_rows_within_hour f hour_start hour_end =
     (if list_ex (ts_is (\<lambda>t. t < instant hour_start \<or> instant hour_end \<le> t)) (fr_rows f)
      then Inl (CaptureError ''row falls outside the hour'') else Inr ())"

text \<open>Only the two outer edges are hour boundaries; every other edge is a primary message.\<close>

definition edge_gap :: "int list \<Rightarrow> nat \<Rightarrow> gap" where
  "edge_gap es i = \<lparr>g_start = es ! i, g_end = es ! Suc i, g_seconds = np_seconds (es ! Suc i - es ! i),
     g_start_primary = (i \<noteq> 0), g_end_primary = (Suc i \<noteq> length es - 1)\<rparr>"

definition primary_silence :: "frame \<Rightarrow> pyfloat \<Rightarrow> dt \<Rightarrow> dt \<Rightarrow> gap list res" where
  "primary_silence primary min_gap_seconds hour_start hour_end =
     rbind (validate_hour_bounds hour_start hour_end) (\<lambda>_.
     rbind (validate_rows_within_hour primary hour_start hour_end) (\<lambda>_.
     rbind (message_ts primary) (\<lambda>pri.
       let lo = instant hour_start; hi = instant hour_end in
       if pri = [] then
         Inr [\<lparr>g_start = lo, g_end = hi, g_seconds = total_seconds (hi - lo),
               g_start_primary = False, g_end_primary = False\<rparr>]
       else let es = lo # pri @ [hi]
            in Inr (map (edge_gap es)
                 (filter (\<lambda>i. fgt (np_seconds (es ! Suc i - es ! i)) min_gap_seconds) [0..<length es - 1])))))"

definition partition_gaps :: "frame \<Rightarrow> frame \<Rightarrow> pyfloat \<Rightarrow> dt \<Rightarrow> dt \<Rightarrow> (gap list \<times> gap list) res" where
  "partition_gaps primary secondary min_gap_seconds hour_start hour_end =
     rbind (validate_hour_bounds hour_start hour_end) (\<lambda>_.
     rbind (validate_rows_within_hour secondary hour_start hour_end) (\<lambda>_.
     rbind (message_ts secondary) (\<lambda>_.
     rbind (primary_silence primary min_gap_seconds hour_start hour_end) (\<lambda>gs.
       Inr (filter (secondary_covers secondary) gs, filter (\<lambda>g. \<not> secondary_covers secondary g) gs)))))"

definition find_book_gaps :: "frame \<Rightarrow> frame \<Rightarrow> pyfloat \<Rightarrow> dt \<Rightarrow> dt \<Rightarrow> gap list res" where
  "find_book_gaps primary secondary min_gap_seconds hour_start hour_end =
     rbind (partition_gaps primary secondary min_gap_seconds hour_start hour_end) (\<lambda>p. Inr (fst p))"

definition find_unwitnessed_gaps :: "frame \<Rightarrow> frame \<Rightarrow> pyfloat \<Rightarrow> dt \<Rightarrow> dt \<Rightarrow> gap list res" where
  "find_unwitnessed_gaps primary secondary min_gap_seconds hour_start hour_end =
     rbind (partition_gaps primary secondary min_gap_seconds hour_start hour_end) (\<lambda>p. Inr (snd p))"

section \<open>The splice\<close>

datatype source = Primary | Secondary

record block =
  bk_source :: source
  bk_rows :: "book_row list"
  bk_from :: "int option"
  bk_to :: "int option"

text \<open>\<open>min()\<close> and \<open>max()\<close> skip nulls and are null when nothing is left.\<close>

definition extent_of :: "book_row list \<Rightarrow> int option \<times> int option" where
  "extent_of rs = (let ts = List.map_filter br_ts rs in
     if ts = [] then (None, None) else (Some (Min (set ts)), Some (Max (set ts))))"

definition block_of :: "source \<Rightarrow> book_row list \<Rightarrow> block" where
  "block_of src rs = \<lparr>bk_source = src, bk_rows = rs, bk_from = fst (extent_of rs), bk_to = snd (extent_of rs)\<rparr>"

definition some_block :: "source \<Rightarrow> book_row list \<Rightarrow> block list" where
  "some_block src rs = (if rs = [] then [] else [block_of src rs])"

definition before :: "gap \<Rightarrow> int \<Rightarrow> bool" where
  "before g t \<longleftrightarrow> (if g_start_primary g then t \<le> g_start g else t < g_start g)"

fun splice_from :: "book_row list \<Rightarrow> book_row list \<Rightarrow> int option \<Rightarrow> gap list \<Rightarrow> block list" where
  "splice_from p s cursor [] = []"
| "splice_from p s cursor (g # gs) =
     (let head = filter (ts_is (before g)) p;
          head' = (case cursor of None \<Rightarrow> head | Some c \<Rightarrow> filter (ts_is (\<lambda>t. c \<le> t)) head)
      in some_block Primary head' @ some_block Secondary (filter (ts_is (inside g)) s) @
         splice_from p s (Some (g_end g)) gs)"

definition splice_book :: "frame \<Rightarrow> frame \<Rightarrow> gap list \<Rightarrow> block list" where
  "splice_book primary secondary gs =
     (if gs = [] then some_block Primary (fr_rows primary)
      else splice_from (fr_rows primary) (fr_rows secondary) None gs @
           some_block Primary (filter (ts_is (\<lambda>t. g_end (last gs) \<le> t)) (fr_rows primary)))"

section \<open>What the splice leaves\<close>

definition residual_gap :: "gap \<Rightarrow> int \<Rightarrow> int \<Rightarrow> gap" where
  "residual_gap g lo hi = \<lparr>g_start = lo, g_end = hi, g_seconds = total_seconds (hi - lo),
     g_start_primary = (if lo = g_start g then g_start_primary g else False),
     g_end_primary = (if hi = g_end g then g_end_primary g else False)\<rparr>"

fun residual_of :: "gap \<Rightarrow> pyfloat \<Rightarrow> int list \<Rightarrow> gap list" where
  "residual_of g least (lo # hi # bs) =
     (if fle (total_seconds (hi - lo)) least then [] else [residual_gap g lo hi]) @ residual_of g least (hi # bs)"
| "residual_of g least _ = []"

definition measure_residual :: "gap list \<Rightarrow> frame \<Rightarrow> pyfloat \<Rightarrow> gap list res" where
  "measure_residual gs spliced least =
     (if gs = [] then Inr []
      else rbind (message_ts spliced) (\<lambda>ts.
        Inr (concat (map (\<lambda>g. residual_of g least
          (g_start g # filter (\<lambda>t. g_start g \<le> t \<and> t \<le> g_end g) ts @ [g_end g])) gs))))"

text \<open>Windows merged in sorted order, then the overlaps of every span with them, in the order they are added.\<close>

fun merge_window :: "int \<times> int \<Rightarrow> (int \<times> int) list \<Rightarrow> (int \<times> int) list" where
  "merge_window (s, e) [] = [(s, e)]"
| "merge_window (s, e) ((a, b) # ms) = (if s \<le> b then (a, max b e) # ms else (s, e) # (a, b) # ms)"

definition merged :: "(int \<times> int) list \<Rightarrow> (int \<times> int) list" where
  "merged windows = rev (fold merge_window (sort windows) [])"

definition overlaps :: "(int \<times> int) list \<Rightarrow> (int \<times> int) list \<Rightarrow> int list" where
  "overlaps spans windows =
     concat (map (\<lambda>(a, b). map (\<lambda>(lo, hi). min b hi - max a lo) (merged windows)) spans)"

definition overlap_seconds :: "(int \<times> int) list \<Rightarrow> (int \<times> int) list \<Rightarrow> pyfloat" where
  "overlap_seconds spans windows =
     fold (\<lambda>us total_s. if fgt (total_seconds us) (Fin 0) then fadd total_s (total_seconds us) else total_s)
       (overlaps spans windows) (Fin 0)"

section \<open>Trades\<close>

record trade =
  tr_id :: int
  tr_ts :: int
  tr_side :: string
  tr_price :: pyfloat
  tr_qty :: pyfloat

record trade_union =
  tu_frame :: "trade list"
  tu_added :: nat
  tu_deduped :: nat
  tu_deficit :: nat

fun keep_first :: "int set \<Rightarrow> trade list \<Rightarrow> trade list" where
  "keep_first seen [] = []"
| "keep_first seen (t # ts) =
     (if tr_id t \<in> seen then keep_first seen ts else t # keep_first (insert (tr_id t) seen) ts)"

definition union_trades :: "trade list \<Rightarrow> trade list \<Rightarrow> trade_union" where
  "union_trades primary secondary =
     (let pri_ids = set (map tr_id primary); sec_ids = set (map tr_id secondary);
          missing = sec_ids - pri_ids;
          to_add = filter (\<lambda>t. tr_id t \<in> missing) secondary;
          combined = primary @ to_add;
          deduped = sort_key tr_id (keep_first {} combined)
      in \<lparr>tu_frame = deduped, tu_added = card missing, tu_deduped = length combined - length deduped,
          tu_deficit = card (pri_ids - sec_ids)\<rparr>)"

section \<open>Frames in order\<close>

definition stamp :: "book_row \<Rightarrow> int" where
  "stamp r = the (br_ts r)"

definition in_order :: "book_row list \<Rightarrow> bool" where
  "in_order rs \<longleftrightarrow> (\<forall>r \<in> set rs. br_ts r \<noteq> None) \<and> sorted (map stamp rs)"

lemma ts_is_stamp: "in_order rs \<Longrightarrow> r \<in> set rs \<Longrightarrow> ts_is p r \<longleftrightarrow> p (stamp r)"
  by (auto simp: in_order_def ts_is_def stamp_def)

lemma filter_ts: "in_order rs \<Longrightarrow> filter (ts_is p) rs = filter (\<lambda>r. p (stamp r)) rs"
  by (rule filter_cong) (simp_all add: ts_is_stamp)

lemma message_ts_in_order: "message_ts f = Inr ts \<Longrightarrow> in_order (fr_rows f) \<and> set ts = stamp ` set (fr_rows f) \<and> sorted ts"
  by (auto simp: message_ts_def in_order_def stamp_def [abs_def] Let_def list_ex_iff sorted_remdups_adj split: if_splits)

text \<open>A sorted list splits where the second test takes over from the first.\<close>

lemma sorted_filter_split:
  assumes "sorted (map k xs)" and "\<And>x y. x \<in> set xs \<Longrightarrow> y \<in> set xs \<Longrightarrow> A x \<Longrightarrow> B y \<Longrightarrow> k x < (k y :: int)"
  shows "filter (\<lambda>x. A x \<or> B x) xs = filter A xs @ filter B xs"
  using assms
proof (induction xs)
  case (Cons x xs)
  have ih: "filter (\<lambda>x. A x \<or> B x) xs = filter A xs @ filter B xs" using Cons by auto
  show ?case
  proof (cases "B x")
    case True
    have "\<not> A y" if "y \<in> set (x # xs)" for y
      using Cons.prems(2) [of y x] True that Cons.prems(1) by fastforce
    then have "filter A (x # xs) = []" by (simp add: filter_empty_conv)
    with ih True show ?thesis by (auto split: if_splits)
  next
    case False
    with ih show ?thesis by simp
  qed
qed simp

section \<open>Gaps against the primary's rows\<close>

definition apart :: "gap list \<Rightarrow> bool" where
  "apart gs \<longleftrightarrow> (\<forall>g \<in> set gs. g_start g < g_end g) \<and>
     sorted_wrt (\<lambda>g g'. g_end g \<le> g_start g' \<and> g_end_primary g \<and> g_start_primary g') gs"

definition avoids :: "gap \<Rightarrow> book_row list \<Rightarrow> bool" where
  "avoids g p \<longleftrightarrow> (\<forall>r \<in> set p. before g (stamp r) \<or> g_end g \<le> stamp r)"

lemma sorted_wrt_filter: "sorted_wrt P xs \<Longrightarrow> sorted_wrt P (filter Q xs)"
  by (induction xs) auto

lemma apart_filter: "apart gs \<Longrightarrow> apart (filter Q gs)"
  by (auto simp: apart_def sorted_wrt_filter)

lemma edge_gaps_apart:
  assumes "sorted es" and "\<forall>i \<in> set ix. es ! i < es ! Suc i \<and> Suc i < length es" and "sorted_wrt (<) ix"
  shows "apart (map (edge_gap es) ix)"
proof -
  have "es ! Suc i \<le> es ! j \<and> Suc i \<noteq> length es - 1 \<and> j \<noteq> 0"
    if "i < j" "j \<in> set ix" "i \<in> set ix" for i j
    using that assms(1,2) sorted_nth_mono [OF assms(1), of "Suc i" j] by force
  then have "sorted_wrt (\<lambda>i j. es ! Suc i \<le> es ! j \<and> Suc i \<noteq> length es - 1 \<and> j \<noteq> 0) ix"
    by (intro sorted_wrt_mono_rel [OF _ assms(3)]) auto
  then show ?thesis using assms(2) by (auto simp: apart_def edge_gap_def sorted_wrt_map)
qed

lemma edge_flags:
  assumes "sorted (lo # pri @ [hi])" and "\<forall>t \<in> set pri. t < hi" and "Suc i < length (lo # pri @ [hi])"
    and "(lo # pri @ [hi]) ! i < (lo # pri @ [hi]) ! Suc i"
  shows "i \<noteq> 0 \<longleftrightarrow> (lo # pri @ [hi]) ! i \<in> set pri"
    and "Suc i \<noteq> length (lo # pri @ [hi]) - 1 \<longleftrightarrow> (lo # pri @ [hi]) ! Suc i \<in> set pri"
proof -
  show "i \<noteq> 0 \<longleftrightarrow> (lo # pri @ [hi]) ! i \<in> set pri"
  proof (cases i)
    case 0
    show ?thesis
    proof (cases pri)
      case (Cons t ts)
      with assms(1,4) 0 have "lo < t" "sorted (t # ts)" by (auto simp: sorted_append)
      then have "lo \<notin> set pri" using Cons by auto
      with 0 show ?thesis by simp
    qed (use 0 in simp)
  next
    case (Suc j)
    then have "(lo # pri @ [hi]) ! i = pri ! j" "j < length pri" using assms(3) by (auto simp: nth_append)
    with Suc show ?thesis by simp
  qed
  show "Suc i \<noteq> length (lo # pri @ [hi]) - 1 \<longleftrightarrow> (lo # pri @ [hi]) ! Suc i \<in> set pri"
    using assms(2,3) by (cases "i < length pri") (auto simp: nth_append)
qed

abbreviation hour_edges :: "dt \<Rightarrow> dt \<Rightarrow> int list \<Rightarrow> int list" where
  "hour_edges hs he pri \<equiv> instant hs # pri @ [instant he]"

definition wide :: "pyfloat \<Rightarrow> int list \<Rightarrow> nat list" where
  "wide least es = filter (\<lambda>i. fgt (np_seconds (es ! Suc i - es ! i)) least) [0..<length es - 1]"

lemma silence_shape:
  assumes "primary_silence primary least hs he = Inr gs"
  obtains (empty) "fr_rows primary = []" "instant hs < instant he"
      "gs = [\<lparr>g_start = instant hs, g_end = instant he, g_seconds = total_seconds (instant he - instant hs),
         g_start_primary = False, g_end_primary = False\<rparr>]"
    | (rows) pri where "fr_rows primary \<noteq> []" "in_order (fr_rows primary)" "set pri = stamp ` set (fr_rows primary)"
      "\<forall>t \<in> set pri. instant hs \<le> t \<and> t < instant he" "sorted (hour_edges hs he pri)"
      "gs = map (edge_gap (hour_edges hs he pri)) (wide least (hour_edges hs he pri))"
proof -
  obtain pri where bounds: "validate_hour_bounds hs he = Inr ()" and inr: "validate_rows_within_hour primary hs he = Inr ()"
    and pri: "message_ts primary = Inr pri"
    using assms by (auto simp: primary_silence_def rbind_Inr_iff)
  note ord = message_ts_in_order [OF pri]
  have inh: "\<forall>r \<in> set (fr_rows primary). instant hs \<le> stamp r \<and> stamp r < instant he"
    using inr ord by (fastforce simp: validate_rows_within_hour_def list_ex_iff ts_is_stamp split: if_splits)
  have he: "instant hs < instant he" using bounds
    by (auto simp: validate_hour_bounds_def dt_eq_def instant_def dt_add_def comparable_def naive_def
        split: if_splits option.splits)
  show ?thesis
  proof (cases "pri = []")
    case True
    show ?thesis
      by (rule empty) (use assms True ord he in \<open>simp_all add: primary_silence_def bounds inr pri Let_def\<close>)
  next
    case False
    show ?thesis
      by (rule rows [of pri])
        (use assms False ord inh he in \<open>fastforce simp: primary_silence_def bounds inr pri Let_def wide_def sorted_append\<close>)+
  qed
qed

lemma wide_mem: "i \<in> set (wide least es) \<longleftrightarrow> Suc i < length es \<and> fgt (np_seconds (es ! Suc i - es ! i)) least"
  by (auto simp: wide_def)

lemma wide_less:
  "fle (Fin 0) least \<Longrightarrow> i \<in> set (wide least es) \<Longrightarrow> es ! i < es ! Suc i \<and> Suc i < length es"
  using np_seconds_pos by (fastforce simp: wide_def)

lemma silence_apart:
  assumes "primary_silence primary least hs he = Inr gs" and "fle (Fin 0) least"
  shows "apart gs"
  using assms(1)
proof (cases rule: silence_shape)
  case (rows pri)
  have "sorted_wrt (<) (wide least (hour_edges hs he pri))" unfolding wide_def by (rule sorted_wrt_filter [OF sorted_wrt_upt])
  with wide_less [OF assms(2)] show ?thesis unfolding rows(6) by (intro edge_gaps_apart [OF rows(5)]) blast+
qed (simp add: apart_def)

text \<open>No row of the primary lies in a gap, its unowned bounds included.\<close>

lemma silence_avoids:
  assumes "primary_silence primary least hs he = Inr gs" and "fle (Fin 0) least" and "g \<in> set gs" and "r \<in> set (fr_rows primary)"
  shows "before g (stamp r) \<or> g_end g \<le> stamp r \<and> \<not> inside g (stamp r)"
  using assms(1)
proof (cases rule: silence_shape)
  case (rows pri)
  let ?es = "hour_edges hs he pri"
  from rows(6) assms(3) obtain i where i: "i \<in> set (wide least ?es)" "g = edge_gap ?es i" by auto
  note w = wide_less [OF assms(2) i(1)]
  have "stamp r \<in> set pri" using rows(3) assms(4) by simp
  then obtain m where "m < length pri" "pri ! m = stamp r" by (auto simp: in_set_conv_nth)
  then have m: "?es ! Suc m = stamp r" "Suc m < length ?es" by (simp_all add: nth_append)
  have hi: "stamp r < instant he" using rows(4) \<open>stamp r \<in> set pri\<close> by blast
  have last: "?es ! (length ?es - 1) = instant he" by (simp add: nth_append)
  show ?thesis
  proof (cases "i \<le> m")
    case True
    from sorted_nth_mono [OF rows(5), of "Suc i" "Suc m"] True m have "g_end g \<le> stamp r" by (simp add: i(2) edge_gap_def)
    moreover have "\<not> inside g (stamp r)"
    proof (cases "Suc i = length ?es - 1")
      case True
      then have "g_end g = instant he" using last by (simp add: i(2) edge_gap_def)
      with \<open>g_end g \<le> stamp r\<close> hi show ?thesis by simp
    next
      case False
      with \<open>g_end g \<le> stamp r\<close> show ?thesis by (simp add: i(2) edge_gap_def inside_def)
    qed
    ultimately show ?thesis by simp
  next
    case False
    from sorted_nth_mono [OF rows(5), of "Suc m" i] False m w have "stamp r \<le> g_start g" by (simp add: i(2) edge_gap_def)
    with False show ?thesis by (simp add: i(2) edge_gap_def before_def)
  qed
qed (use assms(4) in simp)

lemma silence_order: "primary_silence primary least hs he = Inr gs \<Longrightarrow> in_order (fr_rows primary)"
  by (erule silence_shape) (simp_all add: in_order_def)

section \<open>The splice, source by source\<close>

definition rows_from :: "source \<Rightarrow> block list \<Rightarrow> book_row list" where
  "rows_from src bs = concat (map bk_rows (filter (\<lambda>b. bk_source b = src) bs))"

lemma rows_from_simps [simp]:
  "rows_from src [] = []"
  "rows_from src (xs @ ys) = rows_from src xs @ rows_from src ys"
  "rows_from src (some_block src' rs) = (if src = src' then rs else [])"
  by (auto simp: rows_from_def some_block_def block_of_def)

definition past :: "int option \<Rightarrow> int \<Rightarrow> bool" where
  "past cursor t \<longleftrightarrow> (case cursor of None \<Rightarrow> True | Some c \<Rightarrow> c \<le> t)"

lemma head_rows:
  assumes "in_order p"
  shows "(case cursor of None \<Rightarrow> filter (ts_is (before g)) p
     | Some c \<Rightarrow> filter (ts_is (\<lambda>t. c \<le> t)) (filter (ts_is (before g)) p)) =
    filter (\<lambda>r. past cursor (stamp r) \<and> before g (stamp r)) p"
  using ts_is_stamp [OF assms] by (auto simp: past_def split: option.splits intro!: filter_cong)

lemma primary_step:
  assumes "in_order p" and "avoids g p" and "g_start g < g_end g" and "\<And>x. cursor = Some x \<Longrightarrow> x \<le> g_start g"
  shows "filter (\<lambda>r. past cursor (stamp r)) p =
    filter (\<lambda>r. past cursor (stamp r) \<and> before g (stamp r)) p @ filter (\<lambda>r. g_end g \<le> stamp r) p"
proof -
  have "filter (\<lambda>r. past cursor (stamp r)) p =
      filter (\<lambda>r. past cursor (stamp r) \<and> before g (stamp r) \<or> g_end g \<le> stamp r) p"
    using assms(2-4) by (intro filter_cong) (fastforce simp: avoids_def past_def split: option.splits)+
  also have "\<dots> = filter (\<lambda>r. past cursor (stamp r) \<and> before g (stamp r)) p @ filter (\<lambda>r. g_end g \<le> stamp r) p"
    using assms(1,3) by (intro sorted_filter_split [of stamp]) (auto simp: in_order_def before_def split: if_splits)
  finally show ?thesis .
qed

lemma splice_primary_from:
  assumes "in_order p" and "apart (g # gs)" and "\<forall>x \<in> set (g # gs). avoids x p"
    and "\<And>x. cursor = Some x \<Longrightarrow> x \<le> g_start g"
  shows "rows_from Primary (splice_from p s cursor (g # gs)) @ filter (\<lambda>r. g_end (last (g # gs)) \<le> stamp r) p =
    filter (\<lambda>r. past cursor (stamp r)) p"
  using assms(2-)
proof (induction gs arbitrary: g cursor)
  case Nil
  then show ?case using head_rows [OF assms(1)] primary_step [OF assms(1), of g cursor]
    by (simp add: Let_def apart_def)
next
  case (Cons h gs)
  have "rows_from Primary (splice_from p s (Some (g_end g)) (h # gs)) @ filter (\<lambda>r. g_end (last (h # gs)) \<le> stamp r) p =
      filter (\<lambda>r. g_end g \<le> stamp r) p"
    using Cons.IH [of h "Some (g_end g)"] Cons.prems by (simp add: apart_def past_def)
  then show ?case using head_rows [OF assms(1)] primary_step [OF assms(1), of g cursor] Cons.prems
    by (simp add: Let_def apart_def)
qed

lemma splice_primary:
  assumes "in_order (fr_rows p)" and "apart gs" and "\<forall>x \<in> set gs. avoids x (fr_rows p)"
  shows "rows_from Primary (splice_book p s gs) = fr_rows p"
proof (cases gs)
  case (Cons g gs')
  from splice_primary_from [OF assms(1) assms(2,3) [unfolded Cons], of None "fr_rows s"]
  show ?thesis by (simp add: splice_book_def Cons filter_ts [OF assms(1)] past_def)
qed (simp add: splice_book_def)

lemma splice_secondary_from:
  assumes "in_order s" and "apart gs"
  shows "rows_from Secondary (splice_from p s cursor gs) = filter (\<lambda>r. \<exists>g \<in> set gs. inside g (stamp r)) s"
  using assms(2)
proof (induction gs arbitrary: cursor)
  case (Cons g gs)
  have later: "stamp x < stamp y" if "inside g (stamp x)" "\<exists>h \<in> set gs. inside h (stamp y)" for x y
    using that Cons.prems by (fastforce simp: inside_def apart_def)
  have "filter (\<lambda>r. inside g (stamp r) \<or> (\<exists>h \<in> set gs. inside h (stamp r))) s =
      filter (\<lambda>r. inside g (stamp r)) s @ filter (\<lambda>r. \<exists>h \<in> set gs. inside h (stamp r)) s"
    using assms(1) later by (intro sorted_filter_split [of stamp]) (auto simp: in_order_def)
  moreover have "apart gs" using Cons.prems by (simp add: apart_def)
  ultimately show ?case using Cons.IH by (simp add: Let_def filter_ts [OF assms(1)])
qed simp

lemma splice_secondary:
  assumes "in_order (fr_rows s)" and "apart gs"
  shows "rows_from Secondary (splice_book p s gs) = filter (\<lambda>r. \<exists>g \<in> set gs. inside g (stamp r)) (fr_rows s)"
  using splice_secondary_from [OF assms] by (simp add: splice_book_def)

section \<open>Properties\<close>

text \<open>
  C31. Reconciling an hour names every silence of the primary once: over the distinct primary timestamps, the
  witnessed and the unwitnessed gaps together are exactly the maximal silences longer than the threshold, each
  boundary is flagged as the primary's exactly when a primary message stands on it, and a gap counts as witnessed
  exactly when the secondary has an update inside it.
\<close>

theorem gaps_are_the_silences:
  assumes "partition_gaps p s least hs he = Inr (gs, blind)" and "fle (Fin 0) least" and "fr_rows p \<noteq> []"
  shows "(g \<in> set gs \<union> set blind \<longleftrightarrow>
      silent_between (stamp ` set (fr_rows p)) (instant hs) (instant he) (g_start g) (g_end g) \<and>
      g_seconds g = np_seconds (g_end g - g_start g) \<and> fgt (g_seconds g) least \<and>
      g_start_primary g = (g_start g \<in> stamp ` set (fr_rows p)) \<and> g_end_primary g = (g_end g \<in> stamp ` set (fr_rows p))) \<and>
    (g \<in> set gs \<longleftrightarrow> g \<in> set gs \<union> set blind \<and> secondary_covers s g)"
proof -
  obtain all where silent: "primary_silence p least hs he = Inr all" and "gs = filter (secondary_covers s) all"
    "blind = filter (\<lambda>g. \<not> secondary_covers s g) all"
    using assms(1) by (auto simp: partition_gaps_def rbind_Inr_iff)
  then have all: "set gs \<union> set blind = set all" "g \<in> set gs \<longleftrightarrow> g \<in> set all \<and> secondary_covers s g" by auto
  from silent show ?thesis
  proof (cases rule: silence_shape)
    case (rows pri)
    define es where "es = hour_edges hs he pri"
    note gaps = rows(6) [folded es_def]
    have flags: "edge_gap es i = \<lparr>g_start = es ! i, g_end = es ! Suc i, g_seconds = np_seconds (es ! Suc i - es ! i),
        g_start_primary = (es ! i \<in> set pri), g_end_primary = (es ! Suc i \<in> set pri)\<rparr>" if "i \<in> set (wide least es)" for i
    proof -
      have below: "\<forall>t \<in> set pri. t < instant he" using rows(4) by blast
      note w = wide_less [OF assms(2) that]
      show ?thesis unfolding edge_gap_def es_def
        edge_flags [OF rows(5) below conjunct2 [OF w, unfolded es_def] conjunct1 [OF w, unfolded es_def]] by (rule refl)
    qed
    have sil: "silent_between (set pri) (instant hs) (instant he) a b \<longleftrightarrow>
        (\<exists>k. Suc k < length es \<and> es ! k = a \<and> es ! Suc k = b \<and> a < b)" for a b
    proof -
      have "set es = insert (instant hs) (insert (instant he) (set pri))" by (auto simp: es_def)
      moreover have "instant hs \<le> instant he" using rows(5) by simp
      moreover have "\<forall>t \<in> set pri. instant hs \<le> t \<and> t \<le> instant he" using rows(4) by force
      ultimately show ?thesis using silent_iff [of "set pri" "instant hs" "instant he" a b]
        unfolding consecutive [OF rows(5) [folded es_def]] by (simp only:)
    qed
    have "g \<in> set all \<longleftrightarrow> (\<exists>i \<in> set (wide least es). g = edge_gap es i)" by (auto simp: gaps)
    also have "\<dots> \<longleftrightarrow> (\<exists>k. Suc k < length es \<and> es ! k = g_start g \<and> es ! Suc k = g_end g \<and> g_start g < g_end g) \<and>
        g_seconds g = np_seconds (g_end g - g_start g) \<and> fgt (g_seconds g) least \<and>
        g_start_primary g = (g_start g \<in> set pri) \<and> g_end_primary g = (g_end g \<in> set pri)" (is "?L \<longleftrightarrow> ?R")
    proof
      assume ?L
      then obtain i where i: "i \<in> set (wide least es)" "g = edge_gap es i" by blast
      with wide_less [OF assms(2) i(1)] flags [OF i(1)] show ?R by (auto simp: wide_mem)
    next
      assume r: ?R
      then obtain k where k: "Suc k < length es" "es ! k = g_start g" "es ! Suc k = g_end g" by blast
      from r have "fgt (np_seconds (g_end g - g_start g)) least" by (elim conjE) simp
      with k have "k \<in> set (wide least es)" by (simp add: wide_mem)
      moreover from flags [OF this] have "g = edge_gap es k" using r k by (cases g) simp
      ultimately show ?L by blast
    qed
    finally show ?thesis unfolding sil [symmetric] rows(3) using all by blast
  qed (use assms(3) in simp)
qed

text \<open>
  C32. The splice heals without loss: out of the blocks of a reconciled hour, the primary's rows come back
  whole and in their order, the secondary's contribution is exactly its rows inside the witnessed gaps, and no
  row taken from the secondary shares its instant with a primary row, so no wire message is torn in two.
\<close>

theorem splice_without_loss:
  assumes "partition_gaps p s least hs he = Inr (gs, blind)" and "fle (Fin 0) least"
  shows "rows_from Primary (splice_book p s gs) = fr_rows p \<and>
    rows_from Secondary (splice_book p s gs) = filter (\<lambda>r. \<exists>g \<in> set gs. inside g (stamp r)) (fr_rows s) \<and>
    stamp ` set (rows_from Secondary (splice_book p s gs)) \<inter> stamp ` set (fr_rows p) = {}"
proof -
  obtain all ts where all: "primary_silence p least hs he = Inr all" "gs = filter (secondary_covers s) all" "message_ts s = Inr ts"
    using assms(1) by (auto simp: partition_gaps_def rbind_Inr_iff)
  have apart: "apart gs" unfolding all(2) by (intro apart_filter silence_apart [OF all(1) assms(2)])
  note av = silence_avoids [OF all(1) assms(2)]
  have prim: "rows_from Primary (splice_book p s gs) = fr_rows p"
    using av all(2) by (intro splice_primary [OF silence_order [OF all(1)] apart]) (auto simp: avoids_def)
  have sec: "rows_from Secondary (splice_book p s gs) = filter (\<lambda>r. \<exists>g \<in> set gs. inside g (stamp r)) (fr_rows s)"
    using message_ts_in_order [OF all(3)] by (intro splice_secondary [OF _ apart]) simp
  have "\<not> inside g (stamp r)" if "g \<in> set gs" "r \<in> set (fr_rows p)" for g r
    using av [of g r] that by (auto simp: all(2) before_def inside_def split: if_splits)
  then show ?thesis unfolding prim sec by fastforce
qed

section \<open>What stays missing\<close>

lemma residual_mem:
  "r \<in> set (residual_of g least es) \<longleftrightarrow>
     (\<exists>k. Suc k < length es \<and> \<not> fle (total_seconds (es ! Suc k - es ! k)) least \<and> r = residual_gap g (es ! k) (es ! Suc k))"
proof (induction g least es rule: residual_of.induct)
  case (1 g least a b es)
  show ?case unfolding residual_of.simps set_append Un_iff 1
    by (subst ex_nat_split) auto
qed auto

lemma unfilled_pos: "fle (Fin 0) least \<Longrightarrow> \<not> fle (total_seconds d) least \<Longrightarrow> 0 < d"
proof (rule ccontr)
  assume l: "fle (Fin 0) least" "\<not> fle (total_seconds d) least" and "\<not> 0 < d"
  then have "fle (total_seconds d) (total_seconds 0)" by (intro total_seconds_mono) simp
  moreover have "total_seconds 0 = Fin 0" by (simp add: total_seconds_def fround_rnd)
  ultimately show False using l fle_trans by metis
qed

text \<open>
  C33. After a splice, what a gap is still charged with is exactly its maximal stretches without any spliced
  message that last longer than the threshold, each inheriting the gap's ownership only at the gap's own ends.
\<close>

theorem residual_is_the_unfilled_rest:
  assumes "measure_residual gs f least = Inr rs" and "fle (Fin 0) least" and "\<forall>g \<in> set gs. g_start g \<le> g_end g"
  shows "r \<in> set rs \<longleftrightarrow> (\<exists>g \<in> set gs.
    silent_between {t \<in> stamp ` set (fr_rows f). g_start g \<le> t \<and> t \<le> g_end g} (g_start g) (g_end g) (g_start r) (g_end r) \<and>
    \<not> fle (total_seconds (g_end r - g_start r)) least \<and> r = residual_gap g (g_start r) (g_end r))"
proof (cases "gs = []")
  case True
  with assms(1) show ?thesis by (simp add: measure_residual_def)
next
  case False
  then obtain ts where ts: "message_ts f = Inr ts" and rs: "rs = concat (map (\<lambda>g. residual_of g least
      (g_start g # filter (\<lambda>t. g_start g \<le> t \<and> t \<le> g_end g) ts @ [g_end g])) gs)"
    using assms(1) by (auto simp: measure_residual_def rbind_Inr_iff)
  note ord = message_ts_in_order [OF ts]
  have one: "r \<in> set (residual_of g least (g_start g # filter (\<lambda>t. g_start g \<le> t \<and> t \<le> g_end g) ts @ [g_end g])) \<longleftrightarrow>
      silent_between {t \<in> stamp ` set (fr_rows f). g_start g \<le> t \<and> t \<le> g_end g} (g_start g) (g_end g) (g_start r) (g_end r) \<and>
      \<not> fle (total_seconds (g_end r - g_start r)) least \<and> r = residual_gap g (g_start r) (g_end r)"
    if "g \<in> set gs" for g
  proof -
    define es where "es = g_start g # filter (\<lambda>t. g_start g \<le> t \<and> t \<le> g_end g) ts @ [g_end g]"
    have le: "g_start g \<le> g_end g" using assms(3) that by blast
    have sorted: "sorted es" using ord le by (auto simp: es_def sorted_append intro: sorted_filter [of id, simplified])
    have set: "set es = insert (g_start g) (insert (g_end g) {t \<in> stamp ` set (fr_rows f). g_start g \<le> t \<and> t \<le> g_end g})"
      using ord by (auto simp: es_def)
    have sil: "silent_between {t \<in> stamp ` set (fr_rows f). g_start g \<le> t \<and> t \<le> g_end g} (g_start g) (g_end g) a b \<longleftrightarrow>
        (\<exists>k. Suc k < length es \<and> es ! k = a \<and> es ! Suc k = b \<and> a < b)" for a b
      unfolding consecutive [OF sorted] set by (rule silent_iff) (use le in auto)
    show ?thesis unfolding es_def [symmetric] residual_mem sil
    proof
      assume "\<exists>k. Suc k < length es \<and> \<not> fle (total_seconds (es ! Suc k - es ! k)) least \<and> r = residual_gap g (es ! k) (es ! Suc k)"
      then obtain k where k: "Suc k < length es" "\<not> fle (total_seconds (es ! Suc k - es ! k)) least"
        "r = residual_gap g (es ! k) (es ! Suc k)" by blast
      with unfilled_pos [OF assms(2) k(2)]
      show "(\<exists>k. Suc k < length es \<and> es ! k = g_start r \<and> es ! Suc k = g_end r \<and> g_start r < g_end r) \<and>
          \<not> fle (total_seconds (g_end r - g_start r)) least \<and> r = residual_gap g (g_start r) (g_end r)"
        by (auto simp: residual_gap_def)
    qed metis
  qed
  then show ?thesis unfolding rs by simp
qed

section \<open>Overlaps counted once\<close>

abbreviation span_set :: "int \<times> int \<Rightarrow> int set" where
  "span_set w \<equiv> {fst w ..< snd w}"

definition cover :: "(int \<times> int) list \<Rightarrow> int set" where
  "cover ws = (\<Union>w \<in> set ws. span_set w)"

text \<open>Newest first, the merged windows are apart and end before the next one starts.\<close>

definition stacked :: "(int \<times> int) list \<Rightarrow> bool" where
  "stacked ms \<longleftrightarrow> (\<forall>m \<in> set ms. fst m \<le> snd m) \<and> sorted_wrt (\<lambda>m m'. snd m' < fst m) ms"

lemma merge_stacked:
  assumes "stacked ms" and "s \<le> e" and "ms \<noteq> [] \<Longrightarrow> fst (hd ms) \<le> s"
  shows "stacked (merge_window (s, e) ms) \<and> cover (merge_window (s, e) ms) = {s ..< e} \<union> cover ms \<and>
    fst (hd (merge_window (s, e) ms)) \<le> s"
proof (cases ms)
  case (Cons m ms')
  obtain a b where m: "m = (a, b)" by force
  show ?thesis
  proof (cases "s \<le> b")
    case True
    have "{a ..< max b e} = {s ..< e} \<union> {a ..< b}" using assms(3) True Cons m by auto
    with assms True Cons m show ?thesis by (auto simp: stacked_def cover_def)
  next
    case False
    with assms Cons m show ?thesis by (auto simp: stacked_def cover_def)
  qed
qed (use assms in \<open>simp add: stacked_def cover_def\<close>)

lemma merge_all:
  "sorted (map fst ws) \<Longrightarrow> \<forall>w \<in> set ws. fst w \<le> snd w \<Longrightarrow> stacked ms \<Longrightarrow>
   (ms \<noteq> [] \<Longrightarrow> \<forall>w \<in> set ws. fst (hd ms) \<le> fst w) \<Longrightarrow>
   stacked (fold merge_window ws ms) \<and> cover (fold merge_window ws ms) = cover ws \<union> cover ms"
proof (induction ws arbitrary: ms)
  case (Cons w ws)
  obtain s e where w: "w = (s, e)" by force
  have m: "stacked (merge_window w ms)" "cover (merge_window w ms) = span_set w \<union> cover ms" "fst (hd (merge_window w ms)) \<le> s"
    using merge_stacked [of ms s e] Cons.prems w by auto
  have "stacked (fold merge_window ws (merge_window w ms)) \<and>
      cover (fold merge_window ws (merge_window w ms)) = cover ws \<union> cover (merge_window w ms)"
    using m Cons.prems w by (intro Cons.IH) (auto intro: order_trans)
  with m(2) show ?case by (auto simp: cover_def)
qed (simp add: cover_def)

lemma stacked_measure:
  assumes "stacked ms"
  shows "sum_list (map (\<lambda>m. max 0 (min b (snd m) - max a (fst m))) ms) = int (card ({a ..< b} \<inter> cover ms))"
  using assms
proof (induction ms)
  case (Cons m ms)
  have one: "int (card ({a ..< b} \<inter> span_set m)) = max 0 (min b (snd m) - max a (fst m))"
    unfolding Int_atLeastLessThan card_atLeastLessThan_int by (simp only: int_nat_eq max_def)
  have "snd m' < fst m" if "m' \<in> set ms" for m' using Cons.prems that by (simp add: stacked_def)
  then have "span_set m \<inter> cover ms = {}" by (fastforce simp: cover_def)
  then have "card ({a ..< b} \<inter> cover (m # ms)) = card ({a ..< b} \<inter> span_set m) + card ({a ..< b} \<inter> cover ms)"
    by (subst card_Un_disjoint [symmetric]) (auto simp: cover_def intro: arg_cong [where f = card] finite_subset [of _ "{a ..< b}"])
  with Cons one show ?case by (simp add: stacked_def)
qed (simp add: cover_def)

lemma merged_facts:
  assumes "\<forall>w \<in> set ws. fst w \<le> snd w"
  shows "stacked (rev (merged ws))" "cover (rev (merged ws)) = cover ws"
proof -
  have "sorted (map fst (sort ws))"
    unfolding sorted_map by (rule sorted_wrt_mono_rel [OF _ sorted_sort]) (auto simp: less_eq_prod_def)
  then have "stacked (fold merge_window (sort ws) []) \<and> cover (fold merge_window (sort ws) []) = cover (sort ws) \<union> cover []"
    using assms by (intro merge_all) (simp_all add: stacked_def)
  then show "stacked (rev (merged ws))" "cover (rev (merged ws)) = cover ws" by (simp_all add: merged_def cover_def)
qed

text \<open>
  Loss is attributed once: the microseconds that \<open>overlap_seconds\<close> adds up are, for every span, exactly as
  many as the span shares with the union of the windows, however the windows overlap each other; the float it
  returns is the sum of those overlaps in order.
\<close>

theorem overlap_counts_each_microsecond_once:
  assumes "\<forall>w \<in> set windows. fst w \<le> snd w"
  shows "overlap_seconds spans windows = fold (\<lambda>x acc. fadd acc x) (map total_seconds (filter ((<) 0) (overlaps spans windows))) (Fin 0) \<and>
    sum_list (filter ((<) 0) (overlaps spans windows)) =
      sum_list (map (\<lambda>(a, b). int (card ({a ..< b} \<inter> (\<Union>w \<in> set windows. {fst w ..< snd w})))) spans)"
proof -
  have pos: "sum_list (filter ((<) 0) us) = sum_list (map (max 0) us)" for us :: "int list"
    by (induction us) auto
  have fold: "fold (\<lambda>us acc. if fgt (total_seconds us) (Fin 0) then fadd acc (total_seconds us) else acc) us x =
      fold (\<lambda>y acc. fadd acc y) (map total_seconds (filter ((<) 0) us)) x" for us x
    by (induction us arbitrary: x) (auto simp: total_seconds_pos)
  have one: "sum_list (map (max 0) (map (\<lambda>(lo, hi). min b hi - max a lo) (merged windows))) =
      int (card ({a ..< b} \<inter> cover windows))" for a b
  proof -
    have "sum_list (map (\<lambda>m. max 0 (min b (snd m) - max a (fst m))) (rev (merged windows))) =
        int (card ({a ..< b} \<inter> cover windows))"
      using stacked_measure [OF merged_facts(1) [OF assms]] merged_facts(2) [OF assms] by simp
    moreover have "map (\<lambda>m. max 0 (min b (snd m) - max a (fst m))) (rev (merged windows)) =
        rev (map (max 0) (map (\<lambda>(lo, hi). min b hi - max a lo) (merged windows)))" by (simp add: rev_map case_prod_beta)
    ultimately show ?thesis by (simp only: sum_list_rev)
  qed
  have "sum_list (filter ((<) 0) (overlaps spans windows)) = sum_list (map (\<lambda>(a, b). int (card ({a ..< b} \<inter> cover windows))) spans)"
    unfolding pos overlaps_def by (induction spans) (auto simp: one [unfolded map_map])
  then show ?thesis by (simp add: overlap_seconds_def fold cover_def)
qed

section \<open>Trades\<close>

abbreviation ids :: "trade list \<Rightarrow> int set" where
  "ids ts \<equiv> set (map tr_id ts)"

lemma keep_first_facts:
  "ids (keep_first seen ts) = ids ts - seen" "distinct (map tr_id (keep_first seen ts))"
  "t \<in> set (keep_first seen ts) \<Longrightarrow> tr_id t \<notin> seen \<and> List.find (\<lambda>x. tr_id x = tr_id t) ts = Some t"
proof (induction ts arbitrary: seen)
  case (Cons u ts)
  {
    case 1
    show ?case using Cons(1) [of seen] Cons(1) [of "insert (tr_id u) seen"] by auto
  next
    case 2
    show ?case using Cons(2) [of seen] Cons(2) [of "insert (tr_id u) seen"] Cons(1) [of "insert (tr_id u) seen"] by auto
  next
    case 3
    then show ?case using Cons(3) [of seen] Cons(3) [of "insert (tr_id u) seen"] by (auto split: if_splits)
  }
qed auto

text \<open>
  The union of two trade streams is ordered strictly by trade id, holds every id of either stream once, and
  gives each the row that comes first in the primary, or in the secondary when the primary lacks the id; the
  counts it reports are the ids the secondary added and the ids the secondary lacks.
\<close>

theorem union_trades_spec:
  "sorted_wrt (<) (map tr_id (tu_frame (union_trades p s))) \<and>
   ids (tu_frame (union_trades p s)) = ids p \<union> ids s \<and>
   (\<forall>t \<in> set (tu_frame (union_trades p s)). List.find (\<lambda>x. tr_id x = tr_id t) (p @ s) = Some t) \<and>
   tu_added (union_trades p s) + card (ids p) = length (tu_frame (union_trades p s)) \<and>
   tu_deficit (union_trades p s) + card (ids s) = length (tu_frame (union_trades p s))"
proof -
  let ?add = "filter (\<lambda>t. tr_id t \<in> ids s - ids p) s"
  let ?kept = "keep_first {} (p @ ?add)"
  have frame: "tu_frame (union_trades p s) = sort_key tr_id ?kept"
    "tu_added (union_trades p s) = card (ids s - ids p)" "tu_deficit (union_trades p s) = card (ids p - ids s)"
    by (simp_all add: union_trades_def Let_def)
  have kept: "ids ?kept = ids p \<union> ids s" "distinct (map tr_id ?kept)"
    using keep_first_facts(1,2) [of "{}" "p @ ?add"] by auto
  have strict: "sorted_wrt (<) (map tr_id (sort_key tr_id ?kept))"
  proof -
    have "distinct (map tr_id (sort_key tr_id ?kept))" using kept(2) by (simp add: distinct_map)
    then show ?thesis by (simp add: strict_sorted_iff)
  qed
  have first: "List.find (\<lambda>x. tr_id x = tr_id t) (p @ s) = Some t" if "t \<in> set ?kept" for t
  proof -
    have app: "List.find P (xs @ ys) = (case List.find P xs of None \<Rightarrow> List.find P ys | r \<Rightarrow> r)" for P :: "trade \<Rightarrow> bool" and xs ys
      by (induction xs) auto
    have "List.find (\<lambda>x. tr_id x = tr_id t) (p @ ?add) = Some t" using keep_first_facts(3) [OF that] by simp
    moreover have "List.find (\<lambda>x. tr_id x = i) ?add = List.find (\<lambda>x. tr_id x = i) s" if "i \<notin> ids p" for i
    proof -
      have "List.find (\<lambda>x. tr_id x = i) (filter (\<lambda>t. tr_id t \<in> S - ids p) q) = List.find (\<lambda>x. tr_id x = i) q"
        if "ids q \<subseteq> S" for q :: "trade list" and S using that \<open>i \<notin> ids p\<close> by (induction q) auto
      then show ?thesis by blast
    qed
    moreover have "tr_id t \<notin> ids p" if "List.find (\<lambda>x. tr_id x = tr_id t) p = None" using that unfolding find_None_set by auto
    ultimately show ?thesis unfolding app
      by (cases "List.find (\<lambda>x. tr_id x = tr_id t) p") (simp_all only: option.case simp_thms)
  qed
  have "length (sort_key tr_id ?kept) = card (ids p \<union> ids s)"
    using kept distinct_card [of "map tr_id ?kept"] by simp
  moreover have "card (ids s - ids p) + card (ids p) = card (ids p \<union> ids s)" "card (ids p - ids s) + card (ids s) = card (ids p \<union> ids s)"
    using card_Un_disjoint [of "ids s - ids p" "ids p"] card_Un_disjoint [of "ids p - ids s" "ids s"]
    by (simp_all add: Un_commute Diff_disjoint Int_commute)
  ultimately show ?thesis using strict kept(1) first unfolding frame by auto
qed

section \<open>A concrete hour\<close>

definition demo_row :: "int \<Rightarrow> book_row" where
  "demo_row t = \<lparr>br_ts = Some t, br_type = ''update'', br_side = ''bid'', br_price = Fin 1, br_qty = Fin 1, br_checksum = 0\<rparr>"

definition demo_frame :: "int list \<Rightarrow> frame" where
  "demo_frame ts = \<lparr>fr_us = True, fr_rows = map demo_row ts\<rparr>"

definition demo_gap :: "int \<Rightarrow> int \<Rightarrow> bool \<Rightarrow> gap" where
  "demo_gap a b own = \<lparr>g_start = a, g_end = b, g_seconds = Fin 1800, g_start_primary = True, g_end_primary = own\<rparr>"

lemma np_1800: "np_seconds 1800000000 = Fin 1800"
  using np_seconds_whole [of 1800] by simp

lemma demo_partition:
  "partition_gaps (demo_frame [0, 1800000000]) (demo_frame [900000000]) (Fin 60) (utc 0) (utc 3600000000) =
     Inr ([demo_gap 0 1800000000 True], [demo_gap 1800000000 3600000000 False])"
proof -
  have upt: "[0..<3] = [0, 1, 2 :: nat]" by (simp add: upt_rec)
  have silence: "primary_silence (demo_frame [0, 1800000000]) (Fin 60) (utc 0) (utc 3600000000) =
      Inr [demo_gap 0 1800000000 True, demo_gap 1800000000 3600000000 False]"
    by (simp add: primary_silence_def validate_hour_bounds_def validate_rows_within_hour_def demo_frame_def
        demo_row_def ts_is_def message_ts_def Let_def edge_gap_def demo_gap_def np_1800 np_seconds_0 upt)
  show ?thesis
    by (simp add: partition_gaps_def silence secondary_covers_def)
      (simp add: validate_hour_bounds_def validate_rows_within_hour_def demo_frame_def
        demo_row_def ts_is_def message_ts_def Let_def demo_gap_def inside_def)
qed

theorem gaps_are_the_silences_witness:
  "silent_between {0, 1800000000} 0 3600000000 0 1800000000 \<and>
   secondary_covers (demo_frame [900000000]) (demo_gap 0 1800000000 True)"
  using gaps_are_the_silences [OF demo_partition, of "demo_gap 0 1800000000 True"]
  by (simp add: demo_gap_def demo_frame_def demo_row_def stamp_def np_1800)

theorem splice_without_loss_witness:
  "rows_from Primary (splice_book (demo_frame [0, 1800000000]) (demo_frame [900000000]) [demo_gap 0 1800000000 True]) =
     map demo_row [0, 1800000000] \<and>
   rows_from Secondary (splice_book (demo_frame [0, 1800000000]) (demo_frame [900000000]) [demo_gap 0 1800000000 True]) =
     [demo_row 900000000]"
  using splice_without_loss [OF demo_partition]
  by (simp add: demo_gap_def demo_frame_def demo_row_def stamp_def inside_def)

theorem residual_is_the_unfilled_rest_witness:
  "\<exists>rs. measure_residual [demo_gap 0 1800000000 True] (demo_frame [0, 900000000, 1800000000]) (Fin 60) = Inr rs \<and>
     residual_gap (demo_gap 0 1800000000 True) 0 900000000 \<in> set rs"
proof -
  let ?f = "demo_frame [0, 900000000, 1800000000]"
  have ts: "message_ts ?f = Inr [0, 900000000, 1800000000]"
    by (simp add: message_ts_def demo_frame_def demo_row_def Let_def)
  then obtain rs where rs: "measure_residual [demo_gap 0 1800000000 True] ?f (Fin 60) = Inr rs"
    by (simp add: measure_residual_def)
  have "\<not> fle (total_seconds 900000000) (Fin 60)" using fround_int [of 900] by (simp add: total_seconds_def)
  moreover have "{t. (t = 0 \<or> t = 900000000 \<or> t = 1800000000) \<and> 0 \<le> t \<and> t \<le> 1800000000} = {0, 900000000, 1800000000 :: int}" by auto
  ultimately have "residual_gap (demo_gap 0 1800000000 True) 0 900000000 \<in> set rs"
    using residual_is_the_unfilled_rest [OF rs, of "residual_gap (demo_gap 0 1800000000 True) 0 900000000"]
    by (simp add: demo_gap_def demo_frame_def demo_row_def stamp_def residual_gap_def silent_between_def)
  with rs show ?thesis by blast
qed

theorem overlap_counts_each_microsecond_once_witness:
  "sum_list (filter ((<) 0) (overlaps [(0, 10)] [(4, 8), (2, 6)])) = 6"
proof -
  have "{0 ..< 10} \<inter> (\<Union>w \<in> set [(4, 8), (2, 6 :: int)]. {fst w ..< snd w}) = {2 ..< 8 :: int}" by auto
  then show ?thesis using overlap_counts_each_microsecond_once [of "[(4, 8), (2, 6)]" "[(0, 10)]"] by simp
qed

theorem union_trades_spec_witness:
  "let t = (\<lambda>i side. \<lparr>tr_id = i, tr_ts = i * 1000000, tr_side = side, tr_price = Fin 1, tr_qty = Fin 2\<rparr>);
       u = union_trades [t 3 ''b'', t 1 ''b''] [t 1 ''s'', t 2 ''s'']
   in tu_frame u = [t 1 ''b'', t 2 ''s'', t 3 ''b''] \<and> 2 \<in> ids (tu_frame u) \<and> tu_added u + 2 = 3 \<and> tu_deficit u + 2 = 3"
  using union_trades_spec [of "[\<lparr>tr_id = 3, tr_ts = 3000000, tr_side = ''b'', tr_price = Fin 1, tr_qty = Fin 2\<rparr>,
      \<lparr>tr_id = 1, tr_ts = 1000000, tr_side = ''b'', tr_price = Fin 1, tr_qty = Fin 2\<rparr>]"
    "[\<lparr>tr_id = 1, tr_ts = 1000000, tr_side = ''s'', tr_price = Fin 1, tr_qty = Fin 2\<rparr>,
      \<lparr>tr_id = 2, tr_ts = 2000000, tr_side = ''s'', tr_price = Fin 1, tr_qty = Fin 2\<rparr>]"]
  by (simp add: Let_def union_trades_def)

end
