(* ===== verification/SegmentDisk.thy ===== *)
theory SegmentDisk imports Prelude "HOL-Library.Multiset"
begin

text \<open>
  The files of one capture stream, from \<open>cli/capture/segment_writer.py\<close>: numbered parts, held spills, the
  interrupted merge, the committed final and its manifest, per hour, and the steps that move rows between them.
  Every step that touches the disk asks the world what became of it: it may go well, raise before or after its
  effect, or be the last thing the process does. A file is readable with its rows or it is not.
\<close>

section \<open>Files\<close>

record row =
  rw_ts :: int
  rw_key :: int
  rw_data :: string

datatype body = Readable "row list" | Garbled

fun readable :: "body \<Rightarrow> bool" where
  "readable (Readable _) = True"
| "readable Garbled = False"

fun rows_of :: "body \<Rightarrow> row list" where
  "rows_of (Readable rs) = rs"
| "rows_of Garbled = []"

record hour_files =
  hf_parts :: "(nat \<times> body) list"
  hf_held :: "(nat \<times> body) list"
  hf_merging :: "body option"
  hf_final :: "body option"
  hf_manifest :: "body option"
  hf_corrupt :: "body list"

definition no_files :: hour_files where
  "no_files = \<lparr>hf_parts = [], hf_held = [], hf_merging = None, hf_final = None, hf_manifest = None, hf_corrupt = []\<rparr>"

text \<open>The hour directories that exist, their files, and how many times the disk was asked for something.\<close>

record disk =
  dk_hours :: "int list"
  dk_files :: "int \<Rightarrow> hour_files"
  dk_ios :: nat

definition empty_disk :: disk where
  "empty_disk = \<lparr>dk_hours = [], dk_files = (\<lambda>_. no_files), dk_ios = 0\<rparr>"

section \<open>Steps that may fail\<close>

datatype fault = Fine | RaiseBefore | RaiseAfter | KillBefore | KillAfter

datatype 'a outcome = Done 'a | Raised | Killed

type_synonym ('s, 'a) stateful = "'s \<Rightarrow> 'a outcome \<times> 's"

type_synonym 'a io = "(disk, 'a) stateful"

type_synonym faults = "nat \<Rightarrow> fault"

definition ret :: "'a \<Rightarrow> ('s, 'a) stateful" where
  "ret a d = (Done a, d)"

definition bind_io :: "('s, 'a) stateful \<Rightarrow> ('a \<Rightarrow> ('s, 'b) stateful) \<Rightarrow> ('s, 'b) stateful" where
  "bind_io m k d = (case m d of (Done a, d') \<Rightarrow> k a d' | (Raised, d') \<Rightarrow> (Raised, d') | (Killed, d') \<Rightarrow> (Killed, d'))"

text \<open>\<open>try: m except Exception: h\<close>; a kill is not caught.\<close>

definition try_io :: "('s, 'a) stateful \<Rightarrow> ('s, 'a) stateful \<Rightarrow> ('s, 'a) stateful" where
  "try_io m h d = (case m d of (Raised, d') \<Rightarrow> h d' | r \<Rightarrow> r)"

definition act :: "faults \<Rightarrow> int \<Rightarrow> (hour_files \<Rightarrow> hour_files) \<Rightarrow> unit io" where
  "act f hour e d =
     (let d0 = d\<lparr>dk_ios := dk_ios d + 1\<rparr>;
          d1 = d0\<lparr>dk_files := (dk_files d)(hour := e (dk_files d hour))\<rparr>
      in case f (dk_ios d) of
           Fine \<Rightarrow> (Done (), d1)
         | RaiseBefore \<Rightarrow> (Raised, d0) | RaiseAfter \<Rightarrow> (Raised, d1)
         | KillBefore \<Rightarrow> (Killed, d0) | KillAfter \<Rightarrow> (Killed, d1))"

text \<open>A read that decodes every row: whether it succeeded.\<close>

definition read_ok :: "faults \<Rightarrow> body list \<Rightarrow> bool io" where
  "read_ok f bs d =
     (let d0 = d\<lparr>dk_ios := dk_ios d + 1\<rparr>
      in case f (dk_ios d) of
           Fine \<Rightarrow> (Done (list_all readable bs), d0)
         | RaiseBefore \<Rightarrow> (Done False, d0) | RaiseAfter \<Rightarrow> (Done False, d0)
         | KillBefore \<Rightarrow> (Killed, d0) | KillAfter \<Rightarrow> (Killed, d0))"

fun each_io :: "('a \<Rightarrow> ('s, unit) stateful) \<Rightarrow> 'a list \<Rightarrow> ('s, unit) stateful" where
  "each_io m [] = ret ()"
| "each_io m (x # xs) = bind_io (m x) (\<lambda>_. each_io m xs)"

section \<open>Parts\<close>

definition next_seq :: "(nat \<times> body) list \<Rightarrow> nat" where
  "next_seq ps = (if ps = [] then 0 else fst (last ps) + 1)"

definition add_part :: "row list \<Rightarrow> hour_files \<Rightarrow> hour_files" where
  "add_part rs h = h\<lparr>hf_parts := hf_parts h @ [(next_seq (hf_parts h), Readable rs)]\<rparr>"

definition add_held :: "row list \<Rightarrow> hour_files \<Rightarrow> hour_files" where
  "add_held rs h = h\<lparr>hf_held := hf_held h @ [(next_seq (hf_held h), Readable rs)]\<rparr>"

definition make_dir :: "int \<Rightarrow> unit io" where
  "make_dir hour d = (Done (), d\<lparr>dk_hours := (if hour \<in> set (dk_hours d) then dk_hours d else insort hour (dk_hours d))\<rparr>)"

definition write_part :: "faults \<Rightarrow> bool \<Rightarrow> row list \<Rightarrow> int \<Rightarrow> bool io" where
  "write_part f held rs hour =
     try_io (bind_io (make_dir hour) (\<lambda>_. bind_io (act f hour (if held then add_held rs else add_part rs)) (\<lambda>_. ret True)))
            (ret False)"

text \<open>A held spill becomes the next part; a rename that fails leaves it held.\<close>

definition redeem :: "nat \<times> body \<Rightarrow> hour_files \<Rightarrow> hour_files" where
  "redeem p h = h\<lparr>hf_held := remove1 p (hf_held h), hf_parts := hf_parts h @ [(next_seq (hf_parts h), snd p)]\<rparr>"

definition redeem_held :: "faults \<Rightarrow> int \<Rightarrow> unit io" where
  "redeem_held f hour d =
     each_io (\<lambda>p. try_io (act f hour (redeem p)) (ret ())) (hf_held (dk_files d hour)) d"

section \<open>Merging\<close>

definition quarantine_part :: "nat \<times> body \<Rightarrow> hour_files \<Rightarrow> hour_files" where
  "quarantine_part p h = h\<lparr>hf_parts := remove1 p (hf_parts h), hf_corrupt := snd p # hf_corrupt h\<rparr>"

definition quarantine_final :: "hour_files \<Rightarrow> hour_files" where
  "quarantine_final h =
     (case hf_final h of None \<Rightarrow> h | Some b \<Rightarrow> h\<lparr>hf_final := None, hf_corrupt := b # hf_corrupt h\<rparr>)"

definition quarantine_merging :: "hour_files \<Rightarrow> hour_files" where
  "quarantine_merging h =
     (case hf_merging h of None \<Rightarrow> h | Some b \<Rightarrow> h\<lparr>hf_merging := None, hf_corrupt := b # hf_corrupt h\<rparr>)"

text \<open>Each input decoded on its own, the unreadable ones renamed aside.\<close>

fun keep_readable :: "faults \<Rightarrow> int \<Rightarrow> (nat \<times> body) list \<Rightarrow> (nat \<times> body) list io" where
  "keep_readable f hour [] = ret []"
| "keep_readable f hour (p # ps) =
     bind_io (read_ok f [snd p]) (\<lambda>ok.
     bind_io (if ok then ret () else act f hour (quarantine_part p)) (\<lambda>_.
     bind_io (keep_readable f hour ps) (\<lambda>ks. ret (if ok then p # ks else ks))))"

definition publish_merging :: "(nat \<times> body) list \<Rightarrow> hour_files \<Rightarrow> hour_files" where
  "publish_merging ps h = h\<lparr>hf_merging := Some (Readable (concat (map (rows_of \<circ> snd) ps)))\<rparr>"

definition raise_io :: "('s, 'a) stateful" where
  "raise_io d = (Raised, d)"

definition write_merging :: "faults \<Rightarrow> int \<Rightarrow> (nat \<times> body) list \<Rightarrow> bool io" where
  "write_merging f hour ps =
     bind_io (read_ok f (map snd ps)) (\<lambda>ok.
       if ok then bind_io (act f hour (publish_merging ps)) (\<lambda>_. ret True)
       else bind_io (keep_readable f hour ps) (\<lambda>ks.
              if ks = [] then ret False
              else bind_io (read_ok f (map snd ks)) (\<lambda>ok'.
                     if ok' then bind_io (act f hour (publish_merging ks)) (\<lambda>_. ret True) else raise_io)))"

definition write_manifest :: "hour_files \<Rightarrow> hour_files" where
  "write_manifest h = h\<lparr>hf_manifest := hf_merging h\<rparr>"

definition unlink_part :: "nat \<times> body \<Rightarrow> hour_files \<Rightarrow> hour_files" where
  "unlink_part p h = h\<lparr>hf_parts := remove1 p (hf_parts h)\<rparr>"

definition publish_final :: "hour_files \<Rightarrow> hour_files" where
  "publish_final h =
     (case hf_merging h of None \<Rightarrow> h | Some b \<Rightarrow> h\<lparr>hf_final := Some b, hf_merging := None\<rparr>)"

text \<open>The manifest, then the parts, then the rename.\<close>

definition commit :: "faults \<Rightarrow> int \<Rightarrow> unit io" where
  "commit f hour =
     bind_io (act f hour write_manifest) (\<lambda>_.
     bind_io (\<lambda>d. each_io (\<lambda>p. act f hour (unlink_part p)) (hf_parts (dk_files d hour)) d) (\<lambda>_.
     act f hour publish_final))"

definition merge_hour :: "faults \<Rightarrow> int \<Rightarrow> unit io" where
  "merge_hour f hour d =
     (let h = dk_files d hour in
      (if hf_parts h = [] then ret ()
       else try_io
        (if hf_merging h \<noteq> None then ret ()
         else bind_io (case hf_final h of
                         None \<Rightarrow> ret True
                       | Some b \<Rightarrow> bind_io (read_ok f [b]) (\<lambda>ok.
                           if ok then ret False else bind_io (act f hour quarantine_final) (\<lambda>_. ret True)))
                (\<lambda>go. if \<not> go then ret ()
                      else bind_io (write_merging f hour (hf_parts h)) (\<lambda>w. if w then commit f hour else ret ())))
        (ret ())) d)"

section \<open>Recovery\<close>

definition recover_hour :: "faults \<Rightarrow> int \<Rightarrow> unit io" where
  "recover_hour f hour d =
     (let h = dk_files d hour in
      (case hf_merging h of
         None \<Rightarrow> ret ()
       | Some b \<Rightarrow>
           try_io
             (if hf_final h \<noteq> None then ret ()
              else bind_io (read_ok f [b]) (\<lambda>ok. if ok then commit f hour else act f hour quarantine_merging))
             (ret ())) d)"

definition recover_files :: "faults \<Rightarrow> unit io" where
  "recover_files f d = each_io (recover_hour f) (dk_hours d) d"

text \<open>The digest a manifest records stands for the bytes it was taken of.\<close>

definition verify_manifest :: "hour_files \<Rightarrow> bool res" where
  "verify_manifest h =
     (case hf_manifest h of
        None \<Rightarrow> Inl (CaptureError ''no manifest'')
      | Some b \<Rightarrow> (case hf_final h of None \<Rightarrow> Inl OSError | Some b' \<Rightarrow> Inr (b' = b)))"

section \<open>What every step keeps\<close>

definition part_rows :: "(nat \<times> body) list \<Rightarrow> row set" where
  "part_rows ps = set (concat (map (rows_of \<circ> snd) ps))"

definition opt_rows :: "body option \<Rightarrow> row set" where
  "opt_rows b = (case b of None \<Rightarrow> {} | Some b \<Rightarrow> set (rows_of b))"

definition aside_rows :: "body list \<Rightarrow> row set" where
  "aside_rows bs = set (concat (map rows_of bs))"

definition stored :: "hour_files \<Rightarrow> row set" where
  "stored h = part_rows (hf_parts h) \<union> part_rows (hf_held h) \<union> opt_rows (hf_merging h) \<union> opt_rows (hf_final h) \<union>
     aside_rows (hf_corrupt h)"

text \<open>An interrupted merge holds every row of the parts beside it, and a final has its own manifest.\<close>

definition healthy :: "hour_files \<Rightarrow> bool" where
  "healthy h \<longleftrightarrow>
     (hf_merging h \<noteq> None \<longrightarrow> part_rows (hf_parts h) \<subseteq> opt_rows (hf_merging h)) \<and>
     (hf_final h \<noteq> None \<longrightarrow> hf_manifest h = hf_final h)"

lemma part_rows_simps [simp]:
  "part_rows [] = {}"
  "part_rows (p # ps) = set (rows_of (snd p)) \<union> part_rows ps"
  "part_rows (ps @ qs) = part_rows ps \<union> part_rows qs"
  by (auto simp: part_rows_def)

lemma part_rows_set: "set ps = set qs \<Longrightarrow> part_rows ps = part_rows qs"
  by (simp add: part_rows_def)

lemma part_rows_remove:
  "part_rows (remove1 p ps) \<subseteq> part_rows ps" "part_rows ps \<subseteq> set (rows_of (snd p)) \<union> part_rows (remove1 p ps)"
  by (induction ps) auto

lemma row_simps [simp]:
  "opt_rows None = {}" "opt_rows (Some b) = set (rows_of b)"
  "aside_rows [] = {}" "aside_rows (b # bs) = set (rows_of b) \<union> aside_rows bs"
  by (auto simp: opt_rows_def aside_rows_def)

text \<open>No row goes away, and a final stays or is kept aside whole.\<close>

definition evolves :: "hour_files \<Rightarrow> hour_files \<Rightarrow> bool" where
  "evolves h h' \<longleftrightarrow> stored h \<subseteq> stored h' \<and> set (hf_corrupt h) \<subseteq> set (hf_corrupt h') \<and>
     (\<forall>b. hf_final h = Some b \<longrightarrow> hf_final h' = Some b \<or> b \<in> set (hf_corrupt h'))"

lemma evolves_refl [simp]: "evolves h h"
  by (simp add: evolves_def)

lemma evolves_trans: "evolves h h' \<Longrightarrow> evolves h' h'' \<Longrightarrow> evolves h h''"
  unfolding evolves_def by blast

definition all_healthy :: "disk \<Rightarrow> bool" where
  "all_healthy d \<longleftrightarrow> (\<forall>h. healthy (dk_files d h))"

definition all_evolve :: "disk \<Rightarrow> disk \<Rightarrow> bool" where
  "all_evolve d d' \<longleftrightarrow> (\<forall>h. evolves (dk_files d h) (dk_files d' h))"

lemma all_evolve_refl [simp]: "all_evolve d d"
  by (simp add: all_evolve_def)

lemma all_evolve_trans: "all_evolve d d' \<Longrightarrow> all_evolve d' d'' \<Longrightarrow> all_evolve d d''"
  unfolding all_evolve_def using evolves_trans by blast

text \<open>However the step ends it keeps the disk healthy and its rows; \<open>Q\<close> holds when it goes well.\<close>

definition keeps :: "(disk \<Rightarrow> bool) \<Rightarrow> 'a io \<Rightarrow> ('a \<Rightarrow> disk \<Rightarrow> bool) \<Rightarrow> bool" where
  "keeps P m Q \<longleftrightarrow> (\<forall>d. all_healthy d \<and> P d \<longrightarrow>
     all_healthy (snd (m d)) \<and> all_evolve d (snd (m d)) \<and> (\<forall>a. fst (m d) = Done a \<longrightarrow> Q a (snd (m d))))"

named_theorems keeps_intros

lemma keeps_pure: "(\<And>d. P d \<Longrightarrow> Q a d) \<Longrightarrow> keeps P (ret a) Q"
  by (simp add: keeps_def ret_def)

lemma keeps_raise: "keeps P raise_io Q"
  by (simp add: keeps_def raise_io_def)

lemma keeps_bind:
  assumes "keeps P m Q" and "\<And>a. keeps (Q a) (k a) R"
  shows "keeps P (bind_io m k) R"
  unfolding keeps_def
proof (intro allI impI)
  fix d assume d: "all_healthy d \<and> P d"
  obtain r d' where m: "m d = (r, d')" by force
  from assms(1) d m have one: "all_healthy d'" "all_evolve d d'" "\<And>a. r = Done a \<Longrightarrow> Q a d'" by (auto simp: keeps_def)
  show "all_healthy (snd (bind_io m k d)) \<and> all_evolve d (snd (bind_io m k d)) \<and>
      (\<forall>a. fst (bind_io m k d) = Done a \<longrightarrow> R a (snd (bind_io m k d)))"
  proof (cases r)
    case (Done a)
    from assms(2) [of a] one Done have "all_healthy (snd (k a d')) \<and> all_evolve d' (snd (k a d')) \<and>
        (\<forall>b. fst (k a d') = Done b \<longrightarrow> R b (snd (k a d')))" by (auto simp: keeps_def)
    with one(2) all_evolve_trans Done m show ?thesis by (auto simp: bind_io_def)
  qed (use one m in \<open>auto simp: bind_io_def\<close>)
qed

lemma keeps_try:
  assumes "keeps P m Q" and "keeps (\<lambda>_. True) h Q"
  shows "keeps P (try_io m h) Q"
  unfolding keeps_def
proof (intro allI impI)
  fix d assume d: "all_healthy d \<and> P d"
  obtain r d' where m: "m d = (r, d')" by force
  from assms(1) d m have one: "all_healthy d'" "all_evolve d d'" "\<And>a. r = Done a \<Longrightarrow> Q a d'" by (auto simp: keeps_def)
  show "all_healthy (snd (try_io m h d)) \<and> all_evolve d (snd (try_io m h d)) \<and>
      (\<forall>a. fst (try_io m h d) = Done a \<longrightarrow> Q a (snd (try_io m h d)))"
  proof (cases r)
    case Raised
    from assms(2) one have "all_healthy (snd (h d')) \<and> all_evolve d' (snd (h d')) \<and>
        (\<forall>b. fst (h d') = Done b \<longrightarrow> Q b (snd (h d')))" by (auto simp: keeps_def)
    with one(2) all_evolve_trans Raised m show ?thesis by (auto simp: try_io_def)
  qed (use one m in \<open>auto simp: try_io_def\<close>)
qed

lemma keeps_pre: "keeps P m Q \<Longrightarrow> (\<And>d. P' d \<Longrightarrow> P d) \<Longrightarrow> keeps P' m Q"
  by (simp add: keeps_def)

lemma keeps_post: "keeps P m Q \<Longrightarrow> (\<And>a d. Q a d \<Longrightarrow> Q' a d) \<Longrightarrow> keeps P m Q'"
  by (simp add: keeps_def)

lemma keeps_act:
  assumes "\<And>h. healthy h \<Longrightarrow> A h \<Longrightarrow> healthy (e h) \<and> evolves h (e h) \<and> B (e h)"
  shows "keeps (\<lambda>d. A (dk_files d hour)) (act f hour e) (\<lambda>_ d. B (dk_files d hour))"
  unfolding keeps_def
proof (intro allI impI)
  fix d assume d: "all_healthy d \<and> A (dk_files d hour)"
  then have "healthy (e (dk_files d hour)) \<and> evolves (dk_files d hour) (e (dk_files d hour)) \<and> B (e (dk_files d hour))"
    by (intro assms) (simp_all add: all_healthy_def)
  with d show "all_healthy (snd (act f hour e d)) \<and> all_evolve d (snd (act f hour e d)) \<and>
      (\<forall>a. fst (act f hour e d) = Done a \<longrightarrow> B (dk_files (snd (act f hour e d)) hour))"
    by (cases "f (dk_ios d)") (auto simp: act_def Let_def all_healthy_def all_evolve_def)
qed

text \<open>A read changes nothing.\<close>

lemma keeps_read: "keeps (\<lambda>d. A (dk_files d)) (read_ok f bs) (\<lambda>_ d. A (dk_files d))"
  unfolding keeps_def
proof (intro allI impI)
  fix d assume "all_healthy d \<and> A (dk_files d)"
  then show "all_healthy (snd (read_ok f bs d)) \<and> all_evolve d (snd (read_ok f bs d)) \<and>
      (\<forall>a. fst (read_ok f bs d) = Done a \<longrightarrow> A (dk_files (snd (read_ok f bs d))))"
    by (cases "f (dk_ios d)") (auto simp: read_ok_def Let_def all_healthy_def all_evolve_def)
qed

lemma keeps_each:
  assumes "\<And>x. x \<in> set xs \<Longrightarrow> keeps P (m x) (\<lambda>_. P)"
  shows "keeps P (each_io m xs) (\<lambda>_. P)"
  using assms by (induction xs) (auto intro: keeps_pure keeps_bind)

lemma keeps_dir: "keeps (\<lambda>d. A (dk_files d)) (make_dir hour) (\<lambda>_ d. A (dk_files d))"
  by (simp add: keeps_def make_dir_def all_healthy_def all_evolve_def)

section \<open>The steps keep the rows\<close>

lemma keeps_look_up:
  assumes "\<And>h. keeps (\<lambda>d. P d \<and> dk_files d hour = h) (m h) Q"
  shows "keeps P (\<lambda>d. m (dk_files d hour) d) Q"
  using assms by (simp add: keeps_def)

lemmas file_defs = healthy_def evolves_def stored_def

definition unmerged :: "hour_files \<Rightarrow> bool" where
  "unmerged h \<longleftrightarrow> hf_merging h = None"

definition pending :: "hour_files \<Rightarrow> bool" where
  "pending h \<longleftrightarrow> hf_merging h \<noteq> None \<and> hf_final h = None"

definition certified :: "hour_files \<Rightarrow> bool" where
  "certified h \<longleftrightarrow> pending h \<and> hf_manifest h = hf_merging h"

definition holds_parts :: "(nat \<times> body) multiset \<Rightarrow> hour_files \<Rightarrow> bool" where
  "holds_parts M h \<longleftrightarrow> mset (hf_parts h) = M \<and> hf_merging h = None \<and> hf_final h = None"

lemma add_part_keeps: "unmerged h \<Longrightarrow> healthy h \<Longrightarrow> healthy (add_part rs h) \<and> evolves h (add_part rs h)"
  by (auto simp: file_defs unmerged_def add_part_def)

lemma add_held_keeps: "healthy h \<Longrightarrow> healthy (add_held rs h) \<and> evolves h (add_held rs h)"
  by (auto simp: file_defs add_held_def)

lemma redeem_keeps:
  assumes "unmerged h" and "healthy h"
  shows "healthy (redeem p h) \<and> evolves h (redeem p h) \<and> unmerged (redeem p h)"
proof -
  have "stored h \<subseteq> stored (redeem p h)" using part_rows_remove(2) [of "hf_held h" p] by (auto simp: stored_def redeem_def)
  with assms show ?thesis by (simp add: healthy_def evolves_def unmerged_def redeem_def)
qed

lemma quarantine_part_keeps:
  assumes "healthy h" and "holds_parts (add_mset p M) h"
  shows "healthy (quarantine_part p h) \<and> evolves h (quarantine_part p h) \<and> holds_parts M (quarantine_part p h)"
proof -
  have "stored h \<subseteq> stored (quarantine_part p h)" using part_rows_remove(2) [of "hf_parts h" p]
    by (auto simp: stored_def quarantine_part_def)
  with assms show ?thesis by (auto simp: healthy_def evolves_def holds_parts_def quarantine_part_def)
qed

lemma quarantine_final_keeps:
  "unmerged h \<Longrightarrow> healthy h \<Longrightarrow> healthy (quarantine_final h) \<and> evolves h (quarantine_final h) \<and>
   holds_parts (mset (hf_parts h)) (quarantine_final h)"
  by (auto simp: file_defs holds_parts_def unmerged_def quarantine_final_def split: option.splits)

lemma quarantine_merging_keeps:
  "healthy h \<Longrightarrow> healthy (quarantine_merging h) \<and> evolves h (quarantine_merging h)"
  by (auto simp: file_defs quarantine_merging_def split: option.splits)

lemma publish_merging_keeps:
  assumes "healthy h" and "holds_parts (mset ps) h"
  shows "healthy (publish_merging ps h) \<and> evolves h (publish_merging ps h) \<and> pending (publish_merging ps h)"
proof -
  have "set (hf_parts h) = set ps" using assms(2) unfolding holds_parts_def by (metis set_mset_mset)
  from part_rows_set [OF this] have "part_rows (hf_parts h) = set (concat (map (rows_of \<circ> snd) ps))" by (simp add: part_rows_def)
  with assms show ?thesis by (auto simp: file_defs holds_parts_def pending_def publish_merging_def)
qed

lemma write_manifest_keeps:
  "healthy h \<Longrightarrow> pending h \<Longrightarrow> healthy (write_manifest h) \<and> evolves h (write_manifest h) \<and> certified (write_manifest h)"
  by (auto simp: file_defs pending_def certified_def write_manifest_def)

lemma unlink_part_keeps:
  assumes "healthy h" and "certified h"
  shows "healthy (unlink_part p h) \<and> evolves h (unlink_part p h) \<and> certified (unlink_part p h)"
proof -
  have sub: "part_rows (hf_parts h) \<subseteq> opt_rows (hf_merging h)" using assms by (simp add: healthy_def certified_def pending_def)
  then have "part_rows (remove1 p (hf_parts h)) \<subseteq> opt_rows (hf_merging h)" using part_rows_remove(1) by blast
  moreover have "stored h \<subseteq> stored (unlink_part p h)" using sub by (auto simp: stored_def unlink_part_def)
  ultimately show ?thesis using assms by (simp add: healthy_def evolves_def certified_def pending_def unlink_part_def)
qed

lemma publish_final_keeps:
  "healthy h \<Longrightarrow> certified h \<Longrightarrow> healthy (publish_final h) \<and> evolves h (publish_final h)"
  by (auto simp: file_defs certified_def pending_def publish_final_def split: option.splits)

section \<open>The operations keep the rows\<close>

lemma keeps_act_at:
  assumes "\<And>h. healthy h \<Longrightarrow> A h \<Longrightarrow> healthy (e h) \<and> evolves h (e h) \<and> B (e h)" and "\<And>d. P d \<Longrightarrow> A (dk_files d hour)"
    and "\<And>d. B (dk_files d hour) \<Longrightarrow> Q () d"
  shows "keeps P (act f hour e) Q"
  using keeps_pre [OF keeps_post [OF keeps_act [of A e B hour f]]] assms by (metis (full_types) old.unit.exhaust)

lemma keeps_read_at:
  assumes "\<And>d a. A (dk_files d) \<Longrightarrow> Q a d" and "\<And>d. P d \<Longrightarrow> A (dk_files d)"
  shows "keeps P (read_ok f bs) Q"
  using keeps_pre [OF keeps_post [OF keeps_read [of A f bs]]] assms by blast

lemma write_part_safe:
  "keeps (\<lambda>d. held \<or> unmerged (dk_files d hour)) (write_part f held rs hour) (\<lambda>_ _. True)"
  unfolding write_part_def
  by (intro keeps_try keeps_bind [OF keeps_dir [where A = "\<lambda>fs. held \<or> unmerged (fs hour)"]] keeps_bind keeps_pure
      keeps_act_at [where A = "\<lambda>h. held \<or> unmerged h" and B = "\<lambda>_. True"])
    (auto simp: add_part_keeps add_held_keeps)

lemma redeem_held_safe: "keeps (\<lambda>d. unmerged (dk_files d hour)) (redeem_held f hour) (\<lambda>_ _. True)"
proof -
  have one: "keeps (\<lambda>d. unmerged (dk_files d hour)) (try_io (act f hour (redeem p)) (ret ())) (\<lambda>_ d. unmerged (dk_files d hour))" for p
    unfolding keeps_def
  proof (intro allI impI)
    fix d assume d: "all_healthy d \<and> unmerged (dk_files d hour)"
    then have "healthy (redeem p (dk_files d hour)) \<and> evolves (dk_files d hour) (redeem p (dk_files d hour)) \<and>
        unmerged (redeem p (dk_files d hour))" by (intro redeem_keeps) (simp_all add: all_healthy_def)
    with d show "all_healthy (snd (try_io (act f hour (redeem p)) (ret ()) d)) \<and>
        all_evolve d (snd (try_io (act f hour (redeem p)) (ret ()) d)) \<and>
        (\<forall>a. fst (try_io (act f hour (redeem p)) (ret ()) d) = Done a \<longrightarrow>
          unmerged (dk_files (snd (try_io (act f hour (redeem p)) (ret ()) d)) hour))"
      by (cases "f (dk_ios d)") (auto simp: try_io_def ret_def act_def Let_def all_healthy_def all_evolve_def)
  qed
  have "keeps (\<lambda>d. unmerged (dk_files d hour)) (each_io (\<lambda>p. try_io (act f hour (redeem p)) (ret ())) ps) (\<lambda>_ _. True)" for ps
    by (rule keeps_post [OF keeps_each [OF one]]) simp
  then show ?thesis by (simp add: keeps_def redeem_held_def)
qed

lemma keep_readable_safe:
  "keeps (\<lambda>d. holds_parts (M + mset ps) (dk_files d hour)) (keep_readable f hour ps)
     (\<lambda>ks d. holds_parts (M + mset ks) (dk_files d hour))"
proof (induction ps arbitrary: M)
  case Nil
  show ?case by (simp add: keeps_pure)
next
  case (Cons p ps)
  have read: "keeps (\<lambda>d. holds_parts (M + mset (p # ps)) (dk_files d hour)) (read_ok f [snd p])
      (\<lambda>_ d. holds_parts (M + mset (p # ps)) (dk_files d hour))"
    by (rule keeps_read_at [where A = "\<lambda>fs. holds_parts (M + mset (p # ps)) (fs hour)"])
  have drop: "keeps (\<lambda>d. holds_parts (M + mset (p # ps)) (dk_files d hour)) (act f hour (quarantine_part p))
      (\<lambda>_ d. holds_parts (M + mset ps) (dk_files d hour))"
    by (rule keeps_act_at [where A = "holds_parts (M + mset (p # ps))" and B = "holds_parts (M + mset ps)"])
      (use quarantine_part_keeps [of _ p "M + mset ps"] in simp_all)
  have stay: "keeps (\<lambda>d. holds_parts (M + mset (p # ps)) (dk_files d hour)) (if ok then ret () else act f hour (quarantine_part p))
      (\<lambda>_ d. holds_parts (M + (if ok then {#p#} else {#}) + mset ps) (dk_files d hour))" for ok
    using drop by (cases ok) (simp_all add: keeps_pure)
  have last: "keeps (\<lambda>d. holds_parts (M + (if ok then {#p#} else {#}) + mset ks) (dk_files d hour)) (ret (if ok then p # ks else ks))
      (\<lambda>ks d. holds_parts (M + mset ks) (dk_files d hour))" for ok ks
    by (rule keeps_pure) (simp split: if_splits)
  show ?case unfolding keep_readable.simps
    by (rule keeps_bind [OF read], rule keeps_bind [OF stay], rule keeps_bind [OF Cons.IH], rule last)
qed

lemma publish_safe:
  "keeps (\<lambda>d. holds_parts (mset ps) (dk_files d hour)) (bind_io (act f hour (publish_merging ps)) (\<lambda>_. ret True))
     (\<lambda>w d. w \<longrightarrow> pending (dk_files d hour))"
  by (rule keeps_bind, rule keeps_act_at [where A = "holds_parts (mset ps)" and B = pending
        and Q = "\<lambda>_ d. pending (dk_files d hour)"])
    (auto simp: publish_merging_keeps intro: keeps_pure)

lemma write_merging_safe:
  "keeps (\<lambda>d. holds_parts (mset ps) (dk_files d hour)) (write_merging f hour ps) (\<lambda>w d. w \<longrightarrow> pending (dk_files d hour))"
proof -
  have read: "keeps (\<lambda>d. holds_parts (mset qs) (dk_files d hour)) (read_ok f bs) (\<lambda>_ d. holds_parts (mset qs) (dk_files d hour))" for qs bs
    by (rule keeps_read_at [where A = "\<lambda>fs. holds_parts (mset qs) (fs hour)"])
  have again: "keeps (\<lambda>d. holds_parts (mset ks) (dk_files d hour))
      (if ks = [] then ret False else bind_io (read_ok f (map snd ks)) (\<lambda>ok'.
         if ok' then bind_io (act f hour (publish_merging ks)) (\<lambda>_. ret True) else raise_io))
      (\<lambda>w d. w \<longrightarrow> pending (dk_files d hour))" for ks
  proof (cases "ks = []")
    case False
    have pub: "keeps (\<lambda>d. holds_parts (mset ks) (dk_files d hour))
        (if ok' then bind_io (act f hour (publish_merging ks)) (\<lambda>_. ret True) else raise_io)
        (\<lambda>w d. w \<longrightarrow> pending (dk_files d hour))" for ok'
      by (cases ok') (simp_all add: publish_safe keeps_raise)
    from keeps_bind [OF read pub] False show ?thesis by simp
  qed (simp add: keeps_pure)
  have rest: "keeps (\<lambda>d. holds_parts (mset ps) (dk_files d hour))
      (bind_io (keep_readable f hour ps) (\<lambda>ks. if ks = [] then ret False else bind_io (read_ok f (map snd ks)) (\<lambda>ok'.
         if ok' then bind_io (act f hour (publish_merging ks)) (\<lambda>_. ret True) else raise_io)))
      (\<lambda>w d. w \<longrightarrow> pending (dk_files d hour))"
    by (rule keeps_bind [OF _ again]) (use keep_readable_safe [of "{#}" ps hour f] in simp)
  show ?thesis unfolding write_merging_def
    by (rule keeps_bind [OF read]) (use rest publish_safe in \<open>simp split: if_splits\<close>)
qed

lemma commit_safe: "keeps (\<lambda>d. pending (dk_files d hour)) (commit f hour) (\<lambda>_ _. True)"
proof -
  have manifest: "keeps (\<lambda>d. pending (dk_files d hour)) (act f hour write_manifest) (\<lambda>_ d. certified (dk_files d hour))"
    by (rule keeps_act_at [where A = pending and B = certified]) (simp_all add: write_manifest_keeps)
  have unlink: "keeps (\<lambda>d. certified (dk_files d hour)) (act f hour (unlink_part p)) (\<lambda>_ d. certified (dk_files d hour))" for p
    by (rule keeps_act_at [where A = certified and B = certified]) (simp_all add: unlink_part_keeps)
  have "keeps (\<lambda>d. certified (dk_files d hour)) (each_io (\<lambda>p. act f hour (unlink_part p)) ps)
      (\<lambda>_ d. certified (dk_files d hour))" for ps
    using unlink by (rule keeps_each)
  then have all: "keeps (\<lambda>d. certified (dk_files d hour))
      (\<lambda>d. each_io (\<lambda>p. act f hour (unlink_part p)) (hf_parts (dk_files d hour)) d) (\<lambda>_ d. certified (dk_files d hour))"
    by (simp add: keeps_def)
  have final: "keeps (\<lambda>d. certified (dk_files d hour)) (act f hour publish_final) (\<lambda>_ _. True)"
    by (rule keeps_act_at [where A = certified and B = "\<lambda>_. True"]) (simp_all add: publish_final_keeps)
  show ?thesis unfolding commit_def by (rule keeps_bind [OF manifest], rule keeps_bind [OF all], rule final)
qed

lemma keeps_any: "keeps P m Q \<Longrightarrow> keeps P m (\<lambda>_ _. True)"
  by (simp add: keeps_def)

lemma keeps_triv: "keeps P (ret a) (\<lambda>_ _. True)"
  by (simp add: keeps_pure)

text \<open>What stands in the way of a merge: nothing, a readable final, or an unreadable one that is set aside.\<close>

lemma clear_final_safe:
  "keeps (\<lambda>d. unmerged (dk_files d hour) \<and> hf_parts (dk_files d hour) = ps \<and> hf_final (dk_files d hour) = fin)
     (case fin of None \<Rightarrow> ret True
      | Some b \<Rightarrow> bind_io (read_ok f [b]) (\<lambda>ok. if ok then ret False else bind_io (act f hour quarantine_final) (\<lambda>_. ret True)))
     (\<lambda>go d. go \<longrightarrow> holds_parts (mset ps) (dk_files d hour))"
proof (cases fin)
  case None
  then show ?thesis by (auto simp: holds_parts_def unmerged_def intro!: keeps_pure)
next
  case (Some b)
  let ?A = "\<lambda>h. unmerged h \<and> hf_parts h = ps \<and> hf_final h = fin"
  have read: "keeps (\<lambda>d. ?A (dk_files d hour)) (read_ok f [b]) (\<lambda>_ d. ?A (dk_files d hour))"
    by (rule keeps_read_at [where A = "\<lambda>fs. ?A (fs hour)"])
  have "keeps (\<lambda>d. ?A (dk_files d hour)) (act f hour quarantine_final) (\<lambda>_ d. holds_parts (mset ps) (dk_files d hour))"
    by (rule keeps_act_at [where A = ?A and B = "holds_parts (mset ps)"]) (use quarantine_final_keeps in auto)
  then have aside: "keeps (\<lambda>d. ?A (dk_files d hour)) (if ok then ret False else bind_io (act f hour quarantine_final) (\<lambda>_. ret True))
      (\<lambda>go d. go \<longrightarrow> holds_parts (mset ps) (dk_files d hour))" for ok
    by (cases ok) (auto intro: keeps_pure keeps_bind)
  show ?thesis unfolding Some option.case using keeps_bind [OF read aside] Some by simp
qed

lemma merge_hour_safe: "keeps (\<lambda>_. True) (merge_hour f hour) (\<lambda>_ _. True)"
proof -
  have one: "keeps (\<lambda>d. dk_files d hour = h)
      (if hf_parts h = [] then ret ()
       else try_io
        (if hf_merging h \<noteq> None then ret ()
         else bind_io (case hf_final h of
                         None \<Rightarrow> ret True
                       | Some b \<Rightarrow> bind_io (read_ok f [b]) (\<lambda>ok.
                           if ok then ret False else bind_io (act f hour quarantine_final) (\<lambda>_. ret True)))
                (\<lambda>go. if \<not> go then ret ()
                      else bind_io (write_merging f hour (hf_parts h)) (\<lambda>w. if w then commit f hour else ret ())))
        (ret ())) (\<lambda>_ _. True)" for h
  proof -
    have com: "keeps (\<lambda>d. w \<longrightarrow> pending (dk_files d hour)) (if w then commit f hour else ret ()) (\<lambda>_ _. True)" for w
      using commit_safe [of hour f] by (cases w) (simp_all add: keeps_triv)
    have go: "keeps (\<lambda>d. g \<longrightarrow> holds_parts (mset (hf_parts h)) (dk_files d hour))
        (if \<not> g then ret () else bind_io (write_merging f hour (hf_parts h)) (\<lambda>w. if w then commit f hour else ret ()))
        (\<lambda>_ _. True)" for g
      using keeps_bind [OF write_merging_safe com] by (cases g) (simp_all add: keeps_triv)
    show ?thesis
    proof (cases "hf_parts h = [] \<or> hf_merging h \<noteq> None")
      case False
      show ?thesis
        using keeps_try [OF keeps_pre [OF keeps_bind [OF clear_final_safe [of hour "hf_parts h" "hf_final h" f] go]] keeps_triv,
            of "\<lambda>d. dk_files d hour = h"] False by (auto simp: unmerged_def)
    qed (auto intro: keeps_triv keeps_try)
  qed
  show ?thesis using one by (simp add: keeps_def merge_hour_def Let_def)
qed

lemma recover_hour_safe: "keeps (\<lambda>_. True) (recover_hour f hour) (\<lambda>_ _. True)"
proof -
  have one: "keeps (\<lambda>d. dk_files d hour = h)
      (case hf_merging h of
        None \<Rightarrow> ret ()
      | Some b \<Rightarrow>
          try_io
            (if hf_final h \<noteq> None then ret ()
             else bind_io (read_ok f [b]) (\<lambda>ok. if ok then commit f hour else act f hour quarantine_merging))
            (ret ())) (\<lambda>_ _. True)" for h
  proof (cases "hf_merging h \<noteq> None \<and> hf_final h = None")
    case True
    then obtain b where b: "hf_merging h = Some b" by blast
    have read: "keeps (\<lambda>d. dk_files d hour = h) (read_ok f [b]) (\<lambda>_ d. dk_files d hour = h)"
      by (rule keeps_read_at [where A = "\<lambda>fs. fs hour = h"])
    have quar: "keeps (\<lambda>d. dk_files d hour = h) (act f hour quarantine_merging) (\<lambda>_ _. True)"
      by (rule keeps_act_at [where A = "\<lambda>_. True" and B = "\<lambda>_. True"]) (simp_all add: quarantine_merging_keeps)
    have com: "keeps (\<lambda>d. dk_files d hour = h) (commit f hour) (\<lambda>_ _. True)"
      by (rule keeps_pre [OF commit_safe]) (use True in \<open>auto simp: pending_def\<close>)
    have "keeps (\<lambda>d. dk_files d hour = h) (if ok then commit f hour else act f hour quarantine_merging) (\<lambda>_ _. True)" for ok
      using quar com by (cases ok) auto
    from keeps_try [OF keeps_bind [OF read this] keeps_triv] True b show ?thesis by simp
  next
    case False
    then show ?thesis by (cases "hf_merging h") (auto intro: keeps_triv keeps_try)
  qed
  show ?thesis using one by (simp add: keeps_def recover_hour_def Let_def)
qed

lemma recover_files_safe: "keeps (\<lambda>_. True) (recover_files f) (\<lambda>_ _. True)"
proof -
  have "keeps (\<lambda>_. True) (each_io (recover_hour f) hs) (\<lambda>_ _. True)" for hs
    using recover_hour_safe by (rule keeps_each)
  then show ?thesis by (simp add: keeps_def recover_files_def)
qed

section \<open>Runs\<close>

text \<open>What a writer, and the writer that starts after it was killed, may do to the files, in any order.\<close>

datatype disk_op =
    WritePart bool "row list" int
  | RedeemHeld int
  | MergeHour int
  | RecoverFiles

fun disk_step :: "faults \<Rightarrow> disk_op \<Rightarrow> disk \<Rightarrow> disk" where
  "disk_step f (WritePart held rs hour) d = snd (write_part f held rs hour d)"
| "disk_step f (RedeemHeld hour) d = snd (redeem_held f hour d)"
| "disk_step f (MergeHour hour) d = snd (merge_hour f hour d)"
| "disk_step f RecoverFiles d = snd (recover_files f d)"

definition disk_run :: "faults \<Rightarrow> disk_op list \<Rightarrow> disk \<Rightarrow> disk" where
  "disk_run f ops d = fold (disk_step f) ops d"

text \<open>No new part joins an hour whose merge was interrupted.\<close>

fun settled :: "disk_op \<Rightarrow> disk \<Rightarrow> bool" where
  "settled (WritePart held rs hour) d \<longleftrightarrow> held \<or> unmerged (dk_files d hour)"
| "settled (RedeemHeld hour) d \<longleftrightarrow> unmerged (dk_files d hour)"
| "settled _ d \<longleftrightarrow> True"

fun settled_run :: "faults \<Rightarrow> disk_op list \<Rightarrow> disk \<Rightarrow> bool" where
  "settled_run f [] d \<longleftrightarrow> True"
| "settled_run f (op # ops) d \<longleftrightarrow> settled op d \<and> settled_run f ops (disk_step f op d)"

lemma disk_step_keeps:
  assumes "all_healthy d" and "settled op d"
  shows "all_healthy (disk_step f op d) \<and> all_evolve d (disk_step f op d)"
proof (cases op)
  case (WritePart held rs hour)
  with assms write_part_safe [of held hour f rs] show ?thesis by (simp add: keeps_def)
next
  case (RedeemHeld hour)
  with assms redeem_held_safe [of hour f] show ?thesis by (simp add: keeps_def)
next
  case (MergeHour hour)
  with assms merge_hour_safe [of f hour] show ?thesis by (simp add: keeps_def)
next
  case RecoverFiles
  with assms recover_files_safe [of f] show ?thesis by (simp add: keeps_def)
qed

lemma disk_run_keeps:
  "all_healthy d \<Longrightarrow> settled_run f ops d \<Longrightarrow> all_healthy (disk_run f ops d) \<and> all_evolve d (disk_run f ops d)"
proof (induction ops arbitrary: d)
  case (Cons op ops)
  from disk_step_keeps [OF Cons.prems(1), of op f] Cons.prems(2)
  have "all_healthy (disk_step f op d)" "all_evolve d (disk_step f op d)" by auto
  with Cons.IH [of "disk_step f op d"] Cons.prems(2) all_evolve_trans show ?case by (auto simp: disk_run_def)
qed (simp add: disk_run_def)

lemma settled_run_append: "settled_run f (xs @ ys) d \<longleftrightarrow> settled_run f xs d \<and> settled_run f ys (disk_run f xs d)"
  by (induction xs arbitrary: d) (auto simp: disk_run_def)

lemma empty_healthy: "all_healthy empty_disk"
  by (simp add: all_healthy_def healthy_def empty_disk_def no_files_def)

section \<open>Properties\<close>

lemma write_part_stores: "fst (write_part f held rs hour d) = Done True \<Longrightarrow>
    set rs \<subseteq> stored (dk_files (snd (write_part f held rs hour d)) hour)"
  by (cases "f (dk_ios d)"; cases held)
    (auto simp: write_part_def try_io_def bind_io_def make_dir_def act_def ret_def Let_def stored_def add_part_def add_held_def)

text \<open>
  A committed final is never overwritten and always verifies: over the same runs, a final stays what it was
  or is set aside whole, and whatever final is there agrees with its manifest.
\<close>

theorem finals_stay_certified:
  assumes "settled_run f (ops @ later) empty_disk"
  shows "(\<forall>b. hf_final (dk_files (disk_run f ops empty_disk) hour) = Some b \<longrightarrow>
      hf_final (dk_files (disk_run f (ops @ later) empty_disk) hour) = Some b \<or>
      b \<in> set (hf_corrupt (dk_files (disk_run f (ops @ later) empty_disk) hour))) \<and>
    (hf_final (dk_files (disk_run f ops empty_disk) hour) \<noteq> None \<longrightarrow>
      verify_manifest (dk_files (disk_run f ops empty_disk) hour) = Inr True)"
proof -
  let ?d = "disk_run f ops empty_disk"
  from assms have run: "settled_run f ops empty_disk" "settled_run f later ?d" by (simp_all add: settled_run_append)
  have h: "all_healthy ?d" using disk_run_keeps [OF empty_healthy run(1)] by simp
  moreover have "disk_run f (ops @ later) empty_disk = disk_run f later ?d" by (simp add: disk_run_def)
  ultimately show ?thesis using disk_run_keeps [OF h run(2)]
    by (auto simp: all_evolve_def evolves_def all_healthy_def healthy_def verify_manifest_def)
qed

text \<open>A commit killed between its steps, finished by the next start.\<close>

definition demo_rows :: "row list" where
  "demo_rows = [\<lparr>rw_ts = 5, rw_key = 1, rw_data = ''a''\<rparr>]"

definition kill_at :: "nat \<Rightarrow> faults" where
  "kill_at k n = (if n = k then KillBefore else Fine)"

lemmas io_eval = disk_run_def write_part_def try_io_def bind_io_def make_dir_def act_def ret_def merge_hour_def
  write_merging_def read_ok_def commit_def recover_files_def recover_hour_def empty_disk_def no_files_def add_part_def
  next_seq_def publish_merging_def write_manifest_def unlink_part_def publish_final_def kill_at_def unmerged_def

theorem finals_stay_certified_witness:
  "hf_final (dk_files (disk_run (kill_at 4) [WritePart False demo_rows 0, MergeHour 0, RecoverFiles] empty_disk) 0) =
     Some (Readable demo_rows) \<and>
   verify_manifest (dk_files (disk_run (kill_at 4) [WritePart False demo_rows 0, MergeHour 0, RecoverFiles] empty_disk) 0) = Inr True"
proof -
  let ?ops = "[WritePart False demo_rows 0, MergeHour 0, RecoverFiles]"
  have "settled_run (kill_at 4) (?ops @ []) empty_disk" by (simp add: unmerged_def empty_disk_def no_files_def)
  moreover have "hf_final (dk_files (disk_run (kill_at 4) ?ops empty_disk) 0) = Some (Readable demo_rows)"
    by (simp add: io_eval Let_def)
  ultimately show ?thesis using finals_stay_certified [of "kill_at 4" ?ops "[]" 0] by simp
qed

end
