(* ===== verification/SegmentWriter.thy ===== *)
theory SegmentWriter imports SegmentDisk "HOL-Library.AList"
begin

text \<open>
  The writer of one capture stream and the cross-stream oracle of \<open>cli/capture/segment_writer.py\<close>. A time is an
  int of microseconds since the epoch, an hour the time it starts at. The writer's state holds the files of its
  stream (\<open>SegmentDisk\<close>), the oracle as this stream sees it, and how often the wall clock was read; \<open>clk n\<close> is its
  nth reading, any function of n. Not modelled: the logger, the metrics of committed bytes, and the file the count
  of quarantined rows is kept in, whose value at the start is an argument.
\<close>

section \<open>Constants\<close>

definition MAX_TS_AHEAD :: int where "MAX_TS_AHEAD = 300000000"

definition MAX_CONSECUTIVE_DROPS :: nat where "MAX_CONSECUTIVE_DROPS = 3"

definition MAX_TS_ABSURD :: int where "MAX_TS_ABSURD = 86400000000"

definition HOUR_QUORUM :: nat where "HOUR_QUORUM = 2"

definition CLOCK_WITNESS_MARGIN :: int where "CLOCK_WITNESS_MARGIN = MAX_TS_AHEAD"

definition ONE_HOUR :: int where "ONE_HOUR = 3600000000"

lemmas time_constants = MAX_TS_AHEAD_def MAX_TS_ABSURD_def CLOCK_WITNESS_MARGIN_def ONE_HOUR_def

definition hour_start :: "int \<Rightarrow> int" where
  "hour_start ts = ts - ts mod ONE_HOUR"

section \<open>The hour oracle\<close>

type_synonym stream = "string \<times> string"

record hour_oracle =
  or_witnessed :: "(stream \<times> int) list"
  or_confirmed :: "int option"

definition new_oracle :: hour_oracle where
  "new_oracle = \<lparr>or_witnessed = [], or_confirmed = None\<rparr>"

definition observe :: "int \<Rightarrow> stream \<Rightarrow> int \<Rightarrow> hour_oracle \<Rightarrow> hour_oracle" where
  "observe now s ts o1 =
     (let t = min ts (now + MAX_TS_AHEAD)
      in case map_of (or_witnessed o1) s of
           None \<Rightarrow> o1\<lparr>or_witnessed := AList.update s t (or_witnessed o1)\<rparr>
         | Some prev \<Rightarrow> if t > prev then o1\<lparr>or_witnessed := AList.update s t (or_witnessed o1)\<rparr> else o1)"

definition witnesses :: "int \<Rightarrow> hour_oracle \<Rightarrow> int list" where
  "witnesses now o1 = rev (sort (map snd (or_witnessed o1) @ [now - CLOCK_WITNESS_MARGIN]))"

definition confirm :: "int \<Rightarrow> hour_oracle \<Rightarrow> hour_oracle" where
  "confirm now o1 =
     (let ws = witnesses now o1
      in if length ws \<ge> HOUR_QUORUM
         then (let c = hour_start (ws ! (HOUR_QUORUM - 1))
               in case or_confirmed o1 of
                    None \<Rightarrow> o1\<lparr>or_confirmed := Some c\<rparr>
                  | Some h \<Rightarrow> if c > h then o1\<lparr>or_confirmed := Some c\<rparr> else o1)
         else o1)"

section \<open>The writer's state\<close>

record seg_writer =
  wr_disk :: disk
  wr_reads :: nat
  wr_oracle :: "hour_oracle option"
  wr_stream :: stream
  wr_flush_rows :: nat
  wr_dedup :: bool
  wr_held :: "(int \<times> row list) list"
  wr_held_seen :: "(int \<times> int list) list"
  wr_buffer :: "row list"
  wr_hour :: "int option"
  wr_max_ts :: "int option"
  wr_max_at :: int
  wr_seen :: "int list"
  wr_floor :: "int option"
  wr_drops :: nat
  wr_last_drop :: "int option"
  wr_rows_held :: nat
  wr_rows_quarantined :: nat
  wr_early :: nat
  wr_past_dated :: nat

type_synonym 'a wio = "(seg_writer, 'a) stateful"

type_synonym clock = "nat \<Rightarrow> int"

definition self :: "seg_writer wio" where
  "self w = (Done w, w)"

definition modify :: "(seg_writer \<Rightarrow> seg_writer) \<Rightarrow> unit wio" where
  "modify g w = (Done (), g w)"

definition on_disk :: "'a io \<Rightarrow> 'a wio" where
  "on_disk m w = (case m (wr_disk w) of (r, d) \<Rightarrow> (r, w\<lparr>wr_disk := d\<rparr>))"

definition utcnow :: "clock \<Rightarrow> int wio" where
  "utcnow clk w = (Done (clk (wr_reads w)), w\<lparr>wr_reads := wr_reads w + 1\<rparr>)"

definition files_at :: "seg_writer \<Rightarrow> int \<Rightarrow> hour_files" where
  "files_at w hour = dk_files (wr_disk w) hour"

section \<open>The plausibility guard\<close>

definition implausible :: "clock \<Rightarrow> int \<Rightarrow> bool wio" where
  "implausible clk ts =
     bind_io (utcnow clk) (\<lambda>now. bind_io self (\<lambda>w. ret
       (if ts > now + MAX_TS_ABSURD then True
        else if wr_drops w \<ge> MAX_CONSECUTIVE_DROPS then False
        else case wr_max_ts w of
               None \<Rightarrow> ts > now + MAX_TS_AHEAD
             | Some m \<Rightarrow> ts > m + max (now - wr_max_at w) 0 + MAX_TS_AHEAD \<and> ts > now + MAX_TS_AHEAD)))"

definition refuse_ts :: "int \<Rightarrow> seg_writer \<Rightarrow> seg_writer" where
  "refuse_ts ts w = (if Some ts \<noteq> wr_last_drop w then w\<lparr>wr_last_drop := Some ts, wr_drops := wr_drops w + 1\<rparr> else w)"

section \<open>De-duplication keys on disk\<close>

definition keys_of :: "body list \<Rightarrow> int list" where
  "keys_of bs = map rw_key (concat (map rows_of bs))"

fun each_keys :: "faults \<Rightarrow> body list \<Rightarrow> int list io" where
  "each_keys f [] = ret []"
| "each_keys f (b # bs) =
     bind_io (read_ok f [b]) (\<lambda>ok. bind_io (each_keys f bs) (\<lambda>ks. ret (if ok then keys_of [b] @ ks else ks)))"

definition disk_keys :: "faults \<Rightarrow> body list \<Rightarrow> int list io" where
  "disk_keys f bs =
     (if bs = [] then ret []
      else bind_io (read_ok f bs) (\<lambda>ok. if ok then ret (keys_of bs) else each_keys f bs))"

section \<open>Opening, flushing and finalizing an hour\<close>

definition flush_buffer :: "faults \<Rightarrow> unit wio" where
  "flush_buffer f =
     bind_io self (\<lambda>w.
       if wr_buffer w = [] then ret ()
       else case wr_hour w of
              None \<Rightarrow> raise_io
            | Some hour \<Rightarrow>
                bind_io (on_disk (write_part f False (wr_buffer w) hour)) (\<lambda>_.
                modify (\<lambda>w. w\<lparr>wr_buffer := []\<rparr>)))"

definition open_hour :: "faults \<Rightarrow> int \<Rightarrow> unit wio" where
  "open_hour f hour =
     bind_io (modify (\<lambda>w. w\<lparr>wr_hour := Some hour\<rparr>)) (\<lambda>_.
     bind_io (on_disk (redeem_held f hour)) (\<lambda>_.
     bind_io (modify (\<lambda>w. w\<lparr>wr_seen := []\<rparr>)) (\<lambda>_.
     bind_io self (\<lambda>w.
       if \<not> wr_dedup w \<or> hf_parts (files_at w hour) = [] then ret ()
       else bind_io (on_disk (disk_keys f (map snd (hf_parts (files_at w hour))))) (\<lambda>ks.
              modify (\<lambda>w. w\<lparr>wr_seen := ks\<rparr>))))))"

definition count_if_early :: "clock \<Rightarrow> int \<Rightarrow> unit wio" where
  "count_if_early clk hour =
     bind_io (utcnow clk) (\<lambda>now.
     modify (\<lambda>w. if hour + ONE_HOUR - now > 0 then w\<lparr>wr_early := wr_early w + 1\<rparr> else w))"

definition finalize_hour :: "faults \<Rightarrow> clock \<Rightarrow> int \<Rightarrow> unit wio" where
  "finalize_hour f clk hour =
     bind_io (count_if_early clk hour) (\<lambda>_. bind_io (flush_buffer f) (\<lambda>_. on_disk (merge_hour f hour)))"

definition sweep :: "faults \<Rightarrow> clock \<Rightarrow> int \<Rightarrow> unit wio" where
  "sweep f clk before =
     bind_io self (\<lambda>w.
       each_io (\<lambda>hour. bind_io (count_if_early clk hour) (\<lambda>_. on_disk (merge_hour f hour)))
         (filter (\<lambda>hour. hf_parts (files_at w hour) \<noteq> [] \<and> hour < before) (dk_hours (wr_disk w))))"

definition note_past_dated :: "clock \<Rightarrow> int \<Rightarrow> unit wio" where
  "note_past_dated clk hour =
     bind_io self (\<lambda>w.
       if wr_oracle w = None then ret ()
       else bind_io (utcnow clk) (\<lambda>now.
              modify (\<lambda>w. if hour < hour_start now \<and> hf_parts (files_at w hour) = []
                          then w\<lparr>wr_past_dated := wr_past_dated w + 1\<rparr> else w)))"

definition enter_hour :: "faults \<Rightarrow> clock \<Rightarrow> int \<Rightarrow> unit wio" where
  "enter_hour f clk hour =
     bind_io self (\<lambda>w.
       case wr_hour w of
         None \<Rightarrow>
           bind_io (note_past_dated clk hour) (\<lambda>_.
           bind_io (sweep f clk hour) (\<lambda>_. open_hour f hour))
       | Some cur \<Rightarrow>
           if hour > cur then bind_io (finalize_hour f clk cur) (\<lambda>_. open_hour f hour) else ret ())"

section \<open>Admitting and holding rows\<close>

definition newer :: "int \<Rightarrow> seg_writer \<Rightarrow> bool" where
  "newer ts w = (case wr_max_ts w of None \<Rightarrow> True | Some m \<Rightarrow> ts > m)"

definition anchor :: "clock \<Rightarrow> int \<Rightarrow> unit wio" where
  "anchor clk ts =
     bind_io self (\<lambda>w.
       if newer ts w
       then bind_io (utcnow clk) (\<lambda>now. modify (\<lambda>w. w\<lparr>wr_max_ts := Some ts, wr_max_at := now\<rparr>))
       else ret ())"

definition admit :: "faults \<Rightarrow> clock \<Rightarrow> row \<Rightarrow> unit wio" where
  "admit f clk ev =
     bind_io self (\<lambda>w.
       if wr_dedup w \<and> rw_key ev \<in> set (wr_seen w) then ret ()
       else
         bind_io (modify (\<lambda>w. if wr_dedup w then w\<lparr>wr_seen := rw_key ev # wr_seen w\<rparr> else w)) (\<lambda>_.
         bind_io (anchor clk (rw_ts ev)) (\<lambda>_.
         bind_io (modify (\<lambda>w. w\<lparr>wr_buffer := wr_buffer w @ [ev]\<rparr>)) (\<lambda>_.
         bind_io self (\<lambda>w. if length (wr_buffer w) \<ge> wr_flush_rows w then flush_buffer f else ret ())))))"

definition held_rows :: "int \<Rightarrow> seg_writer \<Rightarrow> row list" where
  "held_rows hour w = (case map_of (wr_held w) hour of None \<Rightarrow> [] | Some rs \<Rightarrow> rs)"

definition set_held :: "int \<Rightarrow> row list \<Rightarrow> seg_writer \<Rightarrow> seg_writer" where
  "set_held hour rs w = w\<lparr>wr_held := AList.update hour rs (wr_held w)\<rparr>"

definition held_keys :: "faults \<Rightarrow> int \<Rightarrow> int list wio" where
  "held_keys f hour =
     bind_io self (\<lambda>w.
       case map_of (wr_held_seen w) hour of
         Some ks \<Rightarrow> ret ks
       | None \<Rightarrow> bind_io (on_disk (disk_keys f (map snd (hf_parts (files_at w hour)) @ map snd (hf_held (files_at w hour))))) (\<lambda>ks.
                   bind_io (modify (\<lambda>w. w\<lparr>wr_held_seen := AList.update hour ks (wr_held_seen w)\<rparr>)) (\<lambda>_. ret ks)))"

definition spill_held :: "faults \<Rightarrow> int \<Rightarrow> unit wio" where
  "spill_held f hour =
     bind_io self (\<lambda>w.
       bind_io (on_disk (write_part f True (held_rows hour w) hour)) (\<lambda>ok.
       modify (\<lambda>w. if ok then w\<lparr>wr_rows_quarantined := wr_rows_quarantined w + length (held_rows hour w)\<rparr> else w)))"

definition park :: "faults \<Rightarrow> clock \<Rightarrow> int \<Rightarrow> row \<Rightarrow> unit wio" where
  "park f clk hour ev =
     bind_io (modify (\<lambda>w. set_held hour (held_rows hour w @ [ev]) w\<lparr>wr_rows_held := wr_rows_held w + 1\<rparr>)) (\<lambda>_.
     bind_io (anchor clk (rw_ts ev)) (\<lambda>_.
     bind_io self (\<lambda>w.
       if length (held_rows hour w) \<ge> wr_flush_rows w
       then bind_io (spill_held f hour) (\<lambda>_. modify (set_held hour []))
       else ret ())))"

definition hold :: "faults \<Rightarrow> clock \<Rightarrow> int \<Rightarrow> row \<Rightarrow> unit wio" where
  "hold f clk hour ev =
     bind_io self (\<lambda>w.
       if \<not> wr_dedup w then park f clk hour ev
       else bind_io (held_keys f hour) (\<lambda>ks.
              if rw_key ev \<in> set ks then ret ()
              else bind_io (modify (\<lambda>w. w\<lparr>wr_held_seen := AList.update hour (rw_key ev # ks) (wr_held_seen w)\<rparr>)) (\<lambda>_.
                   park f clk hour ev)))"

section \<open>Append, close, finalize\<close>

definition ask_oracle :: "clock \<Rightarrow> int \<Rightarrow> int option wio" where
  "ask_oracle clk ts =
     bind_io (utcnow clk) (\<lambda>now.
     bind_io (modify (\<lambda>w. w\<lparr>wr_oracle := map_option (observe now (wr_stream w) ts) (wr_oracle w)\<rparr>)) (\<lambda>_.
     bind_io (utcnow clk) (\<lambda>now'.
     bind_io (modify (\<lambda>w. w\<lparr>wr_oracle := map_option (confirm now') (wr_oracle w)\<rparr>)) (\<lambda>_.
     bind_io self (\<lambda>w. ret (case wr_oracle w of None \<Rightarrow> None | Some o1 \<Rightarrow> or_confirmed o1))))))"

definition confirmed_by :: "int option \<Rightarrow> int \<Rightarrow> bool" where
  "confirmed_by c hour = (case c of None \<Rightarrow> False | Some h \<Rightarrow> hour \<le> h)"

definition drain :: "faults \<Rightarrow> clock \<Rightarrow> int \<Rightarrow> int option \<Rightarrow> unit wio" where
  "drain f clk hour c =
     bind_io self (\<lambda>w.
       each_io (\<lambda>h.
         bind_io self (\<lambda>w.
         bind_io (modify (\<lambda>w. w\<lparr>wr_held := AList.delete h (wr_held w), wr_held_seen := AList.delete h (wr_held_seen w)\<rparr>)) (\<lambda>_.
         bind_io (enter_hour f clk h) (\<lambda>_. each_io (admit f clk) (held_rows h w)))))
       (sort (filter (\<lambda>h. h \<le> hour \<and> confirmed_by c h) (map fst (wr_held w)))))"

definition floor_of :: "seg_writer \<Rightarrow> int option" where
  "floor_of w = (case wr_hour w of Some h \<Rightarrow> Some h | None \<Rightarrow> wr_floor w)"

definition append_row :: "faults \<Rightarrow> clock \<Rightarrow> row \<Rightarrow> unit wio" where
  "append_row f clk ev =
     (let ts = rw_ts ev; hour = hour_start ts in
      bind_io (implausible clk ts) (\<lambda>bad.
        if bad then modify (refuse_ts ts)
        else
          bind_io (modify (\<lambda>w. w\<lparr>wr_drops := 0, wr_last_drop := None\<rparr>)) (\<lambda>_.
          bind_io self (\<lambda>w.
            if (case floor_of w of None \<Rightarrow> False | Some fl \<Rightarrow> hour < fl) then ret ()
            else if wr_oracle w = None
            then bind_io (enter_hour f clk hour) (\<lambda>_. admit f clk ev)
            else bind_io (ask_oracle clk ts) (\<lambda>c.
                 bind_io (drain f clk hour c) (\<lambda>_.
                   if \<not> confirmed_by c hour then hold f clk hour ev
                   else bind_io (enter_hour f clk hour) (\<lambda>_. admit f clk ev)))))))"

definition close_writer :: "faults \<Rightarrow> unit wio" where
  "close_writer f =
     bind_io (flush_buffer f) (\<lambda>_.
     bind_io self (\<lambda>w.
     bind_io (each_io (\<lambda>p. if snd p = [] then ret () else spill_held f (fst p)) (wr_held w)) (\<lambda>_.
     modify (\<lambda>w. w\<lparr>wr_held := [], wr_held_seen := []\<rparr>))))"

record finalize_outcome =
  fo_finalized :: nat
  fo_failed :: "int list"

text \<open>The sweep's running answer: hours finalized, hours failed, the newest one finalized.\<close>

type_synonym tally = "nat \<times> int list \<times> int option"

definition tally_hour :: "seg_writer \<Rightarrow> seg_writer \<Rightarrow> int \<Rightarrow> tally \<Rightarrow> tally" where
  "tally_hour w w' hour t =
     (case t of (n, failed, newest) \<Rightarrow>
        if hf_final (files_at w' hour) = None then (n, failed @ [hour], newest)
        else if hf_final (files_at w hour) \<noteq> None then t
        else (n + 1, failed, Some (case newest of None \<Rightarrow> hour | Some h \<Rightarrow> max h hour)))"

definition finalize_open :: "faults \<Rightarrow> clock \<Rightarrow> int \<Rightarrow> tally wio" where
  "finalize_open f clk cutoff =
     bind_io self (\<lambda>w.
       case wr_hour w of
         None \<Rightarrow> ret (0, [], None)
       | Some hour \<Rightarrow>
           if hour < cutoff
           then bind_io (finalize_hour f clk hour) (\<lambda>_.
                bind_io (modify (\<lambda>w. w\<lparr>wr_hour := None\<rparr>)) (\<lambda>_.
                bind_io self (\<lambda>w'. ret (tally_hour w w' hour (0, [], None)))))
           else ret (0, [], None))"

definition stuck_merges :: "int \<Rightarrow> seg_writer \<Rightarrow> int list" where
  "stuck_merges cutoff w =
     filter (\<lambda>h. hf_merging (files_at w h) \<noteq> None \<and> h < cutoff \<and> hf_final (files_at w h) = None) (dk_hours (wr_disk w))"

fun finalize_parts :: "faults \<Rightarrow> int list \<Rightarrow> tally \<Rightarrow> tally wio" where
  "finalize_parts f [] t = ret t"
| "finalize_parts f (hour # hours) t =
     bind_io self (\<lambda>w. bind_io (on_disk (merge_hour f hour)) (\<lambda>_.
     bind_io self (\<lambda>w'. finalize_parts f hours (tally_hour w w' hour t))))"

definition raise_floor :: "int option \<Rightarrow> seg_writer \<Rightarrow> seg_writer" where
  "raise_floor newest w =
     (case newest of
        None \<Rightarrow> w
      | Some h \<Rightarrow> w\<lparr>wr_floor := Some (case wr_floor w of None \<Rightarrow> h + ONE_HOUR | Some fl \<Rightarrow> max fl (h + ONE_HOUR))\<rparr>)"

definition finalize_completed_hours :: "faults \<Rightarrow> clock \<Rightarrow> int \<Rightarrow> finalize_outcome wio" where
  "finalize_completed_hours f clk cutoff =
     bind_io self (\<lambda>w0.
       if wr_oracle w0 \<noteq> None then raise_io
       else
         bind_io (finalize_open f clk cutoff) (\<lambda>t.
         bind_io self (\<lambda>w.
         bind_io (finalize_parts f (filter (\<lambda>h. hf_parts (files_at w h) \<noteq> [] \<and> h < cutoff) (dk_hours (wr_disk w)))
             (fst t, fst (snd t) @ stuck_merges cutoff w, snd (snd t))) (\<lambda>r.
         bind_io (modify (raise_floor (snd (snd r)))) (\<lambda>_.
         ret \<lparr>fo_finalized = fst r, fo_failed = sort (remdups (fst (snd r)))\<rparr>)))))"

section \<open>Recovery and construction\<close>

text \<open>The closed hours, the clock read once for each segment; one that has not happened is ignored.\<close>

fun closed_hours :: "clock \<Rightarrow> int list \<Rightarrow> int list wio" where
  "closed_hours clk [] = ret []"
| "closed_hours clk (h # hs) =
     bind_io (utcnow clk) (\<lambda>now. bind_io (closed_hours clk hs) (\<lambda>r.
     ret (if h > now + MAX_TS_AHEAD then r else h # r)))"

definition segment_hours :: "seg_writer \<Rightarrow> int list" where
  "segment_hours w =
     filter (\<lambda>h. hf_final (files_at w h) \<noteq> None) (dk_hours (wr_disk w)) @
     filter (\<lambda>h. hf_merging (files_at w h) \<noteq> None) (dk_hours (wr_disk w))"

definition recover :: "faults \<Rightarrow> clock \<Rightarrow> unit wio" where
  "recover f clk =
     bind_io (on_disk (recover_files f)) (\<lambda>_.
     bind_io self (\<lambda>w.
     bind_io (closed_hours clk (segment_hours w)) (\<lambda>hours.
     modify (\<lambda>w. w\<lparr>wr_floor := (if hours = [] then None else Some (foldr max hours (hd hours) + ONE_HOUR))\<rparr>))))"

definition blank_writer :: "hour_oracle option \<Rightarrow> stream \<Rightarrow> nat \<Rightarrow> bool \<Rightarrow> nat \<Rightarrow> nat \<Rightarrow> disk \<Rightarrow> seg_writer" where
  "blank_writer oracle stream flush_rows dedup quarantined reads d =
     \<lparr>wr_disk = d, wr_reads = reads, wr_oracle = oracle, wr_stream = stream, wr_flush_rows = flush_rows,
      wr_dedup = dedup, wr_held = [], wr_held_seen = [], wr_buffer = [], wr_hour = None, wr_max_ts = None,
      wr_max_at = 0, wr_seen = [], wr_floor = None, wr_drops = 0, wr_last_drop = None, wr_rows_held = 0,
      wr_rows_quarantined = quarantined, wr_early = 0, wr_past_dated = 0\<rparr>"

definition start_writer :: "faults \<Rightarrow> clock \<Rightarrow> unit wio" where
  "start_writer f clk =
     bind_io (utcnow clk) (\<lambda>now. bind_io (modify (\<lambda>w. w\<lparr>wr_max_at := now\<rparr>)) (\<lambda>_. recover f clk))"

section \<open>What the oracle confirms\<close>

datatype oracle_op = Seen int stream int | Asked int

fun oracle_step :: "oracle_op \<Rightarrow> hour_oracle \<Rightarrow> hour_oracle" where
  "oracle_step (Seen now s ts) o1 = observe now s ts o1"
| "oracle_step (Asked now) o1 = confirm now o1"

definition oracle_run :: "oracle_op list \<Rightarrow> hour_oracle" where
  "oracle_run ops = fold oracle_step ops new_oracle"

definition reached :: "oracle_op list \<Rightarrow> int \<Rightarrow> stream \<Rightarrow> bool" where
  "reached ops h s \<longleftrightarrow> (\<exists>now ts. Seen now s ts \<in> set ops \<and> h \<le> ts \<and> h \<le> now + MAX_TS_AHEAD)"

definition clock_reached :: "oracle_op list \<Rightarrow> int \<Rightarrow> bool" where
  "clock_reached ops h \<longleftrightarrow> (\<exists>now. Asked now \<in> set ops \<and> h + CLOCK_WITNESS_MARGIN \<le> now)"

definition two_streams :: "oracle_op list \<Rightarrow> int \<Rightarrow> bool" where
  "two_streams ops h \<longleftrightarrow> (\<exists>s s'. s \<noteq> s' \<and> reached ops h s \<and> reached ops h s')"

lemma hour_start_le: "hour_start t \<le> t"
  by (simp add: hour_start_def ONE_HOUR_def)

lemma hour_start_idem [simp]: "hour_start (hour_start t) = hour_start t"
  by (simp add: hour_start_def ONE_HOUR_def mod_simps)

lemma hour_start_mono: "s \<le> t \<Longrightarrow> hour_start s \<le> hour_start t"
  by (simp add: hour_start_def ONE_HOUR_def minus_mod_eq_mult_div zdiv_mono1)

lemma confirm_witnessed [simp]: "or_witnessed (confirm now o1) = or_witnessed o1"
  by (simp add: confirm_def Let_def split: option.split)

lemma observe_confirmed [simp]: "or_confirmed (observe now s ts o1) = or_confirmed o1"
  by (simp add: observe_def Let_def split: option.split)

lemma oracle_run_simps [simp]:
  "oracle_run [] = new_oracle"
  "oracle_run (ops @ [op]) = oracle_step op (oracle_run ops)"
  by (simp_all add: oracle_run_def)

lemma reached_snoc:
  "reached (ops @ [op]) h s \<longleftrightarrow> reached ops h s \<or> (\<exists>now ts. op = Seen now s ts \<and> h \<le> ts \<and> h \<le> now + MAX_TS_AHEAD)"
  by (auto simp: reached_def)

lemma clock_reached_snoc: "clock_reached (ops @ [op]) h \<longleftrightarrow> clock_reached ops h \<or> (\<exists>now. op = Asked now \<and> h + CLOCK_WITNESS_MARGIN \<le> now)"
  by (auto simp: clock_reached_def)

lemma observe_looks_up:
  "map_of (or_witnessed (observe now s ts o1)) =
     (map_of (or_witnessed o1))(s \<mapsto> (case map_of (or_witnessed o1) s of
        None \<Rightarrow> min ts (now + MAX_TS_AHEAD) | Some p \<Rightarrow> max p (min ts (now + MAX_TS_AHEAD))))"
  by (auto simp: observe_def Let_def update_conv' fun_upd_idem split: option.split)

lemma observe_distinct: "distinct (map fst (or_witnessed o1)) \<Longrightarrow> distinct (map fst (or_witnessed (observe now s ts o1)))"
  by (simp add: observe_def Let_def distinct_update split: option.split)

lemma witness_is_reached:
  "distinct (map fst (or_witnessed (oracle_run ops))) \<and>
   (reached ops h s \<longleftrightarrow> (\<exists>t. map_of (or_witnessed (oracle_run ops)) s = Some t \<and> h \<le> t))"
proof (induction ops rule: rev_induct)
  case Nil
  then show ?case by (simp add: new_oracle_def reached_def)
next
  case (snoc op ops)
  show ?case
  proof (cases op)
    case (Seen now s' ts)
    with snoc show ?thesis
      by (auto simp: reached_snoc observe_looks_up observe_distinct le_max_iff_disj
          simp del: map_of_eq_Some_iff split: option.splits if_splits)
  next
    case (Asked now)
    with snoc show ?thesis by (simp add: reached_snoc)
  qed
qed

text \<open>The second largest reaches a bound exactly when two of them do.\<close>

lemma second_reaches:
  fixes xs :: "'a :: linorder list"
  shows "length xs \<ge> 2 \<and> h \<le> rev (sort xs) ! 1 \<longleftrightarrow> length (filter (\<lambda>x. h \<le> x) xs) \<ge> 2"
proof -
  have desc: "length (filter (\<lambda>x. h \<le> x) ys) \<ge> 2 \<longleftrightarrow> length ys \<ge> 2 \<and> h \<le> ys ! 1"
    if "sorted_wrt (\<ge>) ys" for ys :: "'a list"
  proof (cases ys)
    case (Cons a zs)
    show ?thesis
    proof (cases zs)
      case (Cons b us)
      have "filter (\<lambda>x. h \<le> x) us = []" if "\<not> h \<le> b"
        using that \<open>sorted_wrt (\<ge>) ys\<close> Cons \<open>ys = a # zs\<close> by (auto simp: filter_empty_conv)
      then show ?thesis using \<open>sorted_wrt (\<ge>) ys\<close> Cons \<open>ys = a # zs\<close> by auto
    qed (simp add: Cons)
  qed simp
  have "sorted_wrt (\<ge>) (rev (sort xs))" by (simp add: sorted_wrt_rev)
  from desc [OF this] have "length (filter (\<lambda>x. h \<le> x) (rev (sort xs))) \<ge> 2 \<longleftrightarrow> length xs \<ge> 2 \<and> h \<le> rev (sort xs) ! 1"
    by simp
  moreover have "length (filter (\<lambda>x. h \<le> x) (rev (sort xs))) = length (filter (\<lambda>x. h \<le> x) xs)"
    by (simp add: rev_filter [symmetric] filter_sort)
  ultimately show ?thesis by simp
qed

lemma two_keys:
  assumes "distinct (map fst ps)"
  shows "length (filter (P \<circ> snd) ps) \<ge> 2 \<longleftrightarrow> (\<exists>s s' t t'. s \<noteq> s' \<and> map_of ps s = Some t \<and> map_of ps s' = Some t' \<and> P t \<and> P t')"
    and "length (filter (P \<circ> snd) ps) \<ge> 1 \<longleftrightarrow> (\<exists>s t. map_of ps s = Some t \<and> P t)"
proof -
  let ?A = "{p \<in> set ps. P (snd p)}"
  have len: "length (filter (P \<circ> snd) ps) = card ?A"
    using assms distinct_card [of "filter (P \<circ> snd) ps"] by (simp add: distinct_map)
  show "length (filter (P \<circ> snd) ps) \<ge> 1 \<longleftrightarrow> (\<exists>s t. map_of ps s = Some t \<and> P t)"
    unfolding len using assms by (force simp: Suc_le_eq card_gt_0_iff)
  have keys: "p \<noteq> q \<longleftrightarrow> fst p \<noteq> fst q" if "p \<in> ?A" "q \<in> ?A" for p q
    using that assms inj_on_eq_iff [of fst "set ps" p q] by (simp add: distinct_map)
  have "card ?A \<ge> 2 \<longleftrightarrow> \<not> card ?A \<le> Suc 0" by linarith
  also have "\<dots> \<longleftrightarrow> (\<exists>p\<in>?A. \<exists>q\<in>?A. p \<noteq> q)" using card_le_Suc0_iff_eq [of ?A] by simp
  also have "\<dots> \<longleftrightarrow> (\<exists>p\<in>?A. \<exists>q\<in>?A. fst p \<noteq> fst q)" using keys by blast
  also have "\<dots> \<longleftrightarrow> (\<exists>s s' t t'. s \<noteq> s' \<and> (s, t) \<in> set ps \<and> (s', t') \<in> set ps \<and> P t \<and> P t')" by auto
  finally show "length (filter (P \<circ> snd) ps) \<ge> 2 \<longleftrightarrow> (\<exists>s s' t t'. s \<noteq> s' \<and> map_of ps s = Some t \<and> map_of ps s' = Some t' \<and> P t \<and> P t')"
    unfolding len using assms by simp
qed

definition quorum_now :: "oracle_op list \<Rightarrow> int \<Rightarrow> int \<Rightarrow> bool" where
  "quorum_now ops now h \<longleftrightarrow> two_streams ops h \<or> (\<exists>s. reached ops h s \<and> h + CLOCK_WITNESS_MARGIN \<le> now)"

lemma second_witness:
  "length (witnesses now (oracle_run ops)) \<ge> 2 \<and> h \<le> witnesses now (oracle_run ops) ! 1 \<longleftrightarrow> quorum_now ops now h"
proof -
  let ?w = "or_witnessed (oracle_run ops)"
  have dist: "distinct (map fst ?w)" using witness_is_reached by blast
  have reach: "reached ops h s \<longleftrightarrow> (\<exists>t. map_of ?w s = Some t \<and> h \<le> t)" for s using witness_is_reached by blast
  let ?n = "length (filter ((\<lambda>t. h \<le> t) \<circ> snd) ?w)"
  have "length (witnesses now (oracle_run ops)) \<ge> 2 \<and> h \<le> witnesses now (oracle_run ops) ! 1 \<longleftrightarrow>
      ?n + (if h \<le> now - CLOCK_WITNESS_MARGIN then 1 else 0) \<ge> 2"
    using second_reaches [of "map snd ?w @ [now - CLOCK_WITNESS_MARGIN]" h] by (simp add: witnesses_def filter_map)
  also have "\<dots> \<longleftrightarrow> ?n \<ge> 2 \<or> ?n \<ge> 1 \<and> h + CLOCK_WITNESS_MARGIN \<le> now" by auto
  also have "?n \<ge> 2 \<longleftrightarrow> two_streams ops h" unfolding two_keys(1) [OF dist] two_streams_def reach by blast
  also have "?n \<ge> 1 \<longleftrightarrow> (\<exists>s. reached ops h s)" unfolding two_keys(2) [OF dist] reach by blast
  finally show ?thesis by (auto simp: quorum_now_def)
qed

lemma confirm_confirmed:
  "or_confirmed (confirm now o1) =
     (if length (witnesses now o1) \<ge> 2
      then Some (case or_confirmed o1 of None \<Rightarrow> hour_start (witnesses now o1 ! 1) | Some h \<Rightarrow> max h (hour_start (witnesses now o1 ! 1)))
      else or_confirmed o1)"
  by (auto simp: confirm_def Let_def HOUR_QUORUM_def max_def split: option.split)

lemma quorum_confirms:
  assumes "hour_start h = h" and "quorum_now ops now h"
  shows "\<exists>h'. or_confirmed (oracle_run (ops @ [Asked now])) = Some h' \<and> h \<le> h'"
proof -
  from assms(2) second_witness [of now ops h]
  have *: "length (witnesses now (oracle_run ops)) \<ge> 2" "h \<le> witnesses now (oracle_run ops) ! 1" by auto
  from hour_start_mono [OF *(2)] assms(1) *(1) show ?thesis by (auto simp: confirm_confirmed split: option.split)
qed

definition quorum :: "oracle_op list \<Rightarrow> int \<Rightarrow> bool" where
  "quorum ops h \<longleftrightarrow> two_streams ops h \<or> (\<exists>s. reached ops h s) \<and> clock_reached ops h"

lemma quorum_snoc: "quorum ops h \<Longrightarrow> quorum (ops @ [op]) h"
  unfolding quorum_def two_streams_def reached_snoc clock_reached_snoc by blast

lemma confirmed_had_quorum: "or_confirmed (oracle_run ops) = Some h \<Longrightarrow> hour_start h = h \<and> quorum ops h"
proof (induction ops rule: rev_induct)
  case (snoc op ops)
  show ?case
  proof (cases op)
    case (Seen now s ts)
    with snoc quorum_snoc show ?thesis by simp
  next
    case (Asked now)
    let ?c = "hour_start (witnesses now (oracle_run ops) ! 1)"
    show ?thesis
    proof (cases "or_confirmed (oracle_run ops) = Some h")
      case True
      with snoc.IH quorum_snoc show ?thesis by blast
    next
      case False
      with snoc.prems Asked have "length (witnesses now (oracle_run ops)) \<ge> 2" "h = ?c"
        by (auto simp: confirm_confirmed max_def split: option.splits if_splits)
      with second_witness [of now ops h] hour_start_le have "quorum_now ops now h" by auto
      then have "quorum (ops @ [op]) h"
        unfolding quorum_now_def quorum_def two_streams_def reached_snoc clock_reached_snoc Asked by blast
      with \<open>h = ?c\<close> show ?thesis by simp
    qed
  qed
qed (simp add: new_oracle_def)

lemma confirmed_grows:
  "or_confirmed (oracle_run ops) = Some h \<Longrightarrow> \<exists>h'. or_confirmed (oracle_run (ops @ later)) = Some h' \<and> h \<le> h'"
proof (induction later rule: rev_induct)
  case (snoc op later)
  then obtain h' where "or_confirmed (oracle_run (ops @ later)) = Some h'" "h \<le> h'" by blast
  then show ?case
    unfolding append_assoc [symmetric] oracle_run_simps by (cases op) (auto simp: confirm_confirmed)
qed simp

text \<open>
  An hour begins only when two witnesses say so: a confirmed hour is the start of an hour that two different
  streams have reached, or one stream and the handicapped clock, each stamp within five minutes of the clock when it
  was seen; it stays confirmed; and once two streams have reached an hour, or one and the clock, it is confirmed.
\<close>

theorem hour_needs_quorum:
  assumes "or_confirmed (oracle_run ops) = Some h"
  shows "hour_start h = h \<and> quorum ops h \<and>
    (\<exists>h'. or_confirmed (oracle_run (ops @ later)) = Some h' \<and> h \<le> h') \<and>
    (\<forall>now g. hour_start g = g \<and> quorum_now ops now g \<longrightarrow>
       (\<exists>h'. or_confirmed (oracle_run (ops @ [Asked now])) = Some h' \<and> g \<le> h'))"
  using confirmed_had_quorum [OF assms] confirmed_grows [OF assms] quorum_confirms by blast

theorem hour_needs_quorum_witness:
  "or_confirmed (oracle_run [Seen 3600000000 (''A'', ''book'') 3600000005, Seen 3600000001 (''B'', ''trade'') 3600000009,
     Asked 3600000002]) = Some 3600000000 \<and>
   quorum [Seen 3600000000 (''A'', ''book'') 3600000005, Seen 3600000001 (''B'', ''trade'') 3600000009, Asked 3600000002] 3600000000"
proof -
  have "or_confirmed (oracle_run [Seen 3600000000 (''A'', ''book'') 3600000005, Seen 3600000001 (''B'', ''trade'') 3600000009,
     Asked 3600000002]) = Some 3600000000"
    by (simp add: oracle_run_def new_oracle_def observe_def confirm_def witnesses_def Let_def time_constants HOUR_QUORUM_def
        hour_start_def)
  with hour_needs_quorum [OF this, of "[]"] show ?thesis by blast
qed
section \<open>Properties\<close>

lemmas writer_eval = self_def modify_def on_disk_def utcnow_def files_at_def implausible_def refuse_ts_def flush_buffer_def
  open_hour_def redeem_held_def count_if_early_def finalize_hour_def sweep_def note_past_dated_def enter_hour_def newer_def
  anchor_def admit_def append_row_def floor_of_def close_writer_def tally_hour_def finalize_open_def stuck_merges_def
  raise_floor_def finalize_completed_hours_def segment_hours_def recover_def blank_writer_def start_writer_def raise_io_def
  hour_start_def time_constants

definition raise_at :: "nat \<Rightarrow> faults" where
  "raise_at k n = (if n = k then RaiseBefore else Fine)"

definition poller :: "disk \<Rightarrow> seg_writer" where
  "poller d = blank_writer None (''BTC'', ''liq'') 1 False 0 0 d"

definition row_at :: "int \<Rightarrow> row" where
  "row_at ts = \<lparr>rw_ts = ts, rw_key = 0, rw_data = []\<rparr>"

text \<open>Start, one row, the poll's finalize whose manifest write fails, a late row of the same hour, stop.\<close>

definition late_row_run :: "seg_writer" where
  "late_row_run =
     (let f = raise_at 3; clk = (\<lambda>_. 2 * ONE_HOUR)
      in snd (bind_io (start_writer f clk) (\<lambda>_.
              bind_io (append_row f clk (row_at 5)) (\<lambda>_.
              bind_io (finalize_completed_hours f clk ONE_HOUR) (\<lambda>_.
              bind_io (append_row f clk (row_at 7)) (\<lambda>_. close_writer f)))) (poller empty_disk)))"

definition late_row_restart :: "seg_writer" where
  "late_row_restart = snd (start_writer (\<lambda>_. Fine) (\<lambda>_. 2 * ONE_HOUR) (poller (wr_disk late_row_run)))"

lemma late_row_run_files: "files_at late_row_run 0 =
   \<lparr>hf_parts = [(0, Readable [row_at 5]), (1, Readable [row_at 7])], hf_held = [], hf_merging = Some (Readable [row_at 5]),
    hf_final = None, hf_manifest = None, hf_corrupt = []\<rparr>"
  by (simp add: late_row_run_def poller_def writer_eval io_eval Let_def raise_at_def row_at_def)

lemma late_row_restart_files: "files_at late_row_restart 0 =
   \<lparr>hf_parts = [], hf_held = [], hf_merging = None, hf_final = Some (Readable [row_at 5]),
    hf_manifest = Some (Readable [row_at 5]), hf_corrupt = []\<rparr>"
  by (simp add: late_row_restart_def late_row_run_def poller_def writer_eval io_eval Let_def raise_at_def row_at_def)


end
