(* ===== verification/SegmentRun.thy ===== *)
theory SegmentRun imports SegmentWriter
begin

text \<open>
  A stream of the capture daemon over any number of processes: rows arrive, other streams vouch for time, the process
  is stopped, killed in the middle of any step, and started again on the same files. The lemmas show that a writer
  that has the oracle never adds a part to an hour whose merge was interrupted, so no row on disk is ever lost.
\<close>

section \<open>Runs of a stream\<close>

datatype stream_op = AppendRow row | CloseWriter | PeerSeen stream int | Restart nat

text \<open>A process that raised or was killed does nothing until it is started again.\<close>

definition carry_out :: "unit wio \<Rightarrow> seg_writer \<Rightarrow> bool \<times> seg_writer" where
  "carry_out m w = (case m w of (r, w') \<Rightarrow> (r = Done (), w'))"

definition peer_seen :: "clock \<Rightarrow> stream \<Rightarrow> int \<Rightarrow> unit wio" where
  "peer_seen clk s ts =
     bind_io (utcnow clk) (\<lambda>now. bind_io (modify (\<lambda>w. w\<lparr>wr_oracle := map_option (observe now s ts) (wr_oracle w)\<rparr>)) (\<lambda>_.
     bind_io (utcnow clk) (\<lambda>now'. modify (\<lambda>w. w\<lparr>wr_oracle := map_option (confirm now') (wr_oracle w)\<rparr>))))"

fun stream_step :: "faults \<Rightarrow> clock \<Rightarrow> stream_op \<Rightarrow> bool \<times> seg_writer \<Rightarrow> bool \<times> seg_writer" where
  "stream_step f clk (Restart q) (up, w) =
     carry_out (start_writer f clk)
       (blank_writer (Some new_oracle) (wr_stream w) (wr_flush_rows w) (wr_dedup w) q (wr_reads w) (wr_disk w))"
| "stream_step f clk op (False, w) = (False, w)"
| "stream_step f clk (AppendRow ev) (True, w) = carry_out (append_row f clk ev) w"
| "stream_step f clk CloseWriter (True, w) = carry_out (close_writer f) w"
| "stream_step f clk (PeerSeen s ts) (True, w) = carry_out (peer_seen clk s ts) w"

definition first_writer :: "stream \<Rightarrow> nat \<Rightarrow> bool \<Rightarrow> seg_writer" where
  "first_writer s flush_rows dedup = blank_writer (Some new_oracle) s flush_rows dedup 0 0 empty_disk"

definition stream_run :: "faults \<Rightarrow> clock \<Rightarrow> stream_op list \<Rightarrow> seg_writer \<Rightarrow> seg_writer" where
  "stream_run f clk ops w = snd (fold (stream_step f clk) ops (False, w))"

section \<open>Which files a step can touch\<close>

definition within :: "(disk \<Rightarrow> disk \<Rightarrow> bool) \<Rightarrow> 'a io \<Rightarrow> bool" where
  "within R m \<longleftrightarrow> (\<forall>d. R d (snd (m d)))"

definition local_to :: "int \<Rightarrow> disk \<Rightarrow> disk \<Rightarrow> bool" where
  "local_to hour d d' \<longleftrightarrow> dk_hours d' = dk_hours d \<and> (\<forall>h. h \<noteq> hour \<longrightarrow> dk_files d' h = dk_files d h)"

definition same_merging :: "int \<Rightarrow> disk \<Rightarrow> disk \<Rightarrow> bool" where
  "same_merging hour d d' \<longleftrightarrow> local_to hour d d' \<and> hf_merging (dk_files d' hour) = hf_merging (dk_files d hour)"

definition same_files :: "disk \<Rightarrow> disk \<Rightarrow> bool" where
  "same_files d d' \<longleftrightarrow> dk_hours d' = dk_hours d \<and> dk_files d' = dk_files d"

lemma local_order: "reflp (local_to hour)" "transp (local_to hour)"
  by (auto simp: reflp_def transp_def local_to_def)

lemma merging_order: "reflp (same_merging hour)" "transp (same_merging hour)"
  by (auto simp: reflp_def transp_def same_merging_def local_to_def)

lemma files_order: "reflp same_files" "transp same_files"
  by (auto simp: reflp_def transp_def same_files_def)

lemmas orders = local_order merging_order files_order

named_theorems within_intros

lemma within_ret [within_intros]: "reflp R \<Longrightarrow> within R (ret a)"
  by (simp add: within_def ret_def reflp_def)

lemma within_raise [within_intros]: "reflp R \<Longrightarrow> within R raise_io"
  by (simp add: within_def raise_io_def reflp_def)

lemma within_bind [within_intros]:
  assumes "transp R" and "within R m" and "\<And>a. within R (k a)"
  shows "within R (bind_io m k)"
  unfolding within_def
proof
  fix d
  obtain r d' where m: "m d = (r, d')" by force
  have one: "R d d'" using assms(2) m by (auto simp: within_def dest: spec [of _ d])
  have "R d' (snd (k a d'))" for a using assms(3) by (simp add: within_def)
  with one assms(1) m show "R d (snd (bind_io m k d))"
    by (cases r) (auto simp: bind_io_def dest: transpD)
qed

lemma within_try [within_intros]:
  assumes "transp R" and "within R m" and "within R h"
  shows "within R (try_io m h)"
  unfolding within_def
proof
  fix d
  obtain r d' where m: "m d = (r, d')" by force
  have one: "R d d'" using assms(2) m by (auto simp: within_def dest: spec [of _ d])
  have "R d' (snd (h d'))" using assms(3) by (simp add: within_def)
  with one assms(1) m show "R d (snd (try_io m h d))"
    by (cases r) (auto simp: try_io_def dest: transpD)
qed

lemma within_each [within_intros]:
  assumes "reflp R" and "transp R" and "\<And>x. within R (m x)"
  shows "within R (each_io m xs)"
  by (induction xs) (simp_all add: within_ret within_bind assms)

lemma within_state: "(\<And>d'. within R (m d')) \<Longrightarrow> within R (\<lambda>d. m d d)"
  by (simp add: within_def)

lemma within_act [within_intros]: "within (local_to hour) (act f hour e)"
  unfolding within_def
proof
  fix d show "local_to hour d (snd (act f hour e d))"
    by (cases "f (dk_ios d)") (auto simp: act_def Let_def local_to_def)
qed

lemma within_redeem: "within (same_merging hour) (act f hour (redeem p))"
  unfolding within_def
proof
  fix d show "same_merging hour d (snd (act f hour (redeem p) d))"
    by (cases "f (dk_ios d)") (auto simp: act_def Let_def same_merging_def local_to_def redeem_def)
qed

lemma read_same: "within same_files (read_ok f bs)"
  unfolding within_def
proof
  fix d show "same_files d (snd (read_ok f bs d))"
    by (cases "f (dk_ios d)") (auto simp: read_ok_def Let_def same_files_def)
qed

lemma within_read [within_intros]: "within (local_to hour) (read_ok f bs)"
  using read_same [of f bs] by (simp add: within_def same_files_def local_to_def)

lemma within_if [within_intros]: "within R m \<Longrightarrow> within R n \<Longrightarrow> within R (if b then m else n)"
  by simp

lemma keep_readable_local: "within (local_to hour) (keep_readable f hour ps)"
  by (induction ps) (auto intro!: within_intros orders)

lemma write_merging_local: "within (local_to hour) (write_merging f hour ps)"
  unfolding write_merging_def by (intro within_intros orders keep_readable_local)

lemma commit_local: "within (local_to hour) (commit f hour)"
  unfolding commit_def
  by (intro within_intros orders within_state [where m = "\<lambda>d'. each_io (\<lambda>p. act f hour (unlink_part p)) (hf_parts (dk_files d' hour))"])

lemma merge_hour_local: "within (local_to hour) (merge_hour f hour)"
proof -
  have final: "within (local_to hour) (case fin of None \<Rightarrow> ret True
      | Some b \<Rightarrow> bind_io (read_ok f [b]) (\<lambda>ok. if ok then ret False else bind_io (act f hour quarantine_final) (\<lambda>_. ret True)))" for fin
    by (cases fin) (auto intro!: within_intros orders)
  show ?thesis unfolding merge_hour_def Let_def
    by (rule within_state, intro within_intros orders final write_merging_local commit_local)
qed

lemma recover_hour_local: "within (local_to hour) (recover_hour f hour)"
proof -
  have one: "within (local_to hour) (case mg of None \<Rightarrow> ret () | Some b \<Rightarrow> try_io (if fin \<noteq> None then ret ()
      else bind_io (read_ok f [b]) (\<lambda>ok. if ok then commit f hour else act f hour quarantine_merging)) (ret ()))" for mg fin
    by (cases mg) (auto intro!: within_intros orders commit_local)
  show ?thesis unfolding recover_hour_def Let_def by (rule within_state, rule one)
qed

lemma redeem_held_merging: "within (same_merging hour) (redeem_held f hour)"
proof -
  have one: "within (same_merging hour) (each_io (\<lambda>p. try_io (act f hour (redeem p)) (ret ())) ps)" for ps
    by (intro within_each within_try within_ret within_redeem orders)
  show ?thesis unfolding redeem_held_def by (rule within_state [where m = "\<lambda>d'. each_io _ (hf_held (dk_files d' hour))"], rule one)
qed

lemma disk_keys_same: "within same_files (disk_keys f bs)"
proof -
  have "within same_files (each_keys f cs)" for cs
    by (induction cs) (auto intro!: within_intros orders read_same)
  then show ?thesis unfolding disk_keys_def by (intro within_intros orders read_same)
qed

section \<open>Sound files\<close>

definition busy :: "hour_files \<Rightarrow> bool" where
  "busy h \<longleftrightarrow> hf_parts h \<noteq> [] \<or> hf_merging h \<noteq> None"

definition occupied :: "hour_files \<Rightarrow> bool" where
  "occupied h \<longleftrightarrow> busy h \<or> hf_held h \<noteq> []"

text \<open>Healthy files, found by the walk over the hours, none with a part or a merge dated past \<open>b\<close>.\<close>

definition sound_disk :: "int \<Rightarrow> disk \<Rightarrow> bool" where
  "sound_disk b d \<longleftrightarrow> all_healthy d \<and> (\<forall>h. occupied (dk_files d h) \<longrightarrow> h \<in> set (dk_hours d)) \<and>
     (\<forall>h. busy (dk_files d h) \<longrightarrow> h \<le> b)"

lemma sound_disk_later: "sound_disk b d \<Longrightarrow> b \<le> b' \<Longrightarrow> sound_disk b' d"
  unfolding sound_disk_def by force

definition no_growth :: "disk \<Rightarrow> disk \<Rightarrow> bool" where
  "no_growth d d' \<longleftrightarrow> dk_hours d' = dk_hours d \<and>
     (\<forall>h. (busy (dk_files d' h) \<longrightarrow> busy (dk_files d h)) \<and> (occupied (dk_files d' h) \<longrightarrow> occupied (dk_files d h)))"

lemma growth_order: "reflp no_growth" "transp no_growth"
  by (auto simp: reflp_def transp_def no_growth_def)

lemma no_growth_sound: "sound_disk b d \<Longrightarrow> no_growth d d' \<Longrightarrow> all_healthy d' \<Longrightarrow> sound_disk b d'"
  by (auto simp: sound_disk_def no_growth_def)

lemma local_no_growth: "local_to hour d d' \<Longrightarrow> busy (dk_files d hour) \<Longrightarrow> no_growth d d'"
  unfolding no_growth_def local_to_def occupied_def by metis

lemma merge_hour_growth: "within no_growth (merge_hour f hour)"
  unfolding within_def
proof
  fix d
  show "no_growth d (snd (merge_hour f hour d))"
  proof (cases "busy (dk_files d hour)")
    case True
    with merge_hour_local local_no_growth show ?thesis unfolding within_def by blast
  next
    case False
    then have "merge_hour f hour d = (Done (), d)" by (simp add: merge_hour_def busy_def ret_def Let_def)
    then show ?thesis by (simp add: no_growth_def)
  qed
qed

lemma recover_hour_growth: "within no_growth (recover_hour f hour)"
  unfolding within_def
proof
  fix d
  show "no_growth d (snd (recover_hour f hour d))"
  proof (cases "busy (dk_files d hour)")
    case True
    with recover_hour_local local_no_growth show ?thesis unfolding within_def by blast
  next
    case False
    then have "recover_hour f hour d = (Done (), d)" by (simp add: recover_hour_def busy_def ret_def Let_def)
    then show ?thesis by (simp add: no_growth_def)
  qed
qed

lemma recover_files_growth: "within no_growth (recover_files f)"
proof -
  have "within no_growth (each_io (recover_hour f) hs)" for hs
    by (intro within_each growth_order recover_hour_growth)
  then show ?thesis by (simp add: within_def recover_files_def)
qed

lemma disk_keys_growth: "within no_growth (disk_keys f bs)"
  using disk_keys_same [of f bs] by (simp add: within_def same_files_def no_growth_def)

text \<open>A step that leaves the files sound, and keeps their rows.\<close>

definition sound_step :: "int \<Rightarrow> disk \<Rightarrow> disk \<Rightarrow> bool" where
  "sound_step b d d' \<longleftrightarrow> sound_disk b d' \<and> all_evolve d d'"

lemma sound_step_keeps:
  assumes "sound_disk b d" and "keeps P m (\<lambda>_ _. True)" and "P d" and "within no_growth m"
  shows "sound_step b d (snd (m d))"
  using assms no_growth_sound [OF assms(1)] unfolding sound_step_def keeps_def within_def sound_disk_def by blast

lemma merge_hour_sound: "sound_disk b d \<Longrightarrow> sound_step b d (snd (merge_hour f hour d))"
  by (rule sound_step_keeps [OF _ merge_hour_safe]) (simp_all add: merge_hour_growth)

lemma recover_files_sound: "sound_disk b d \<Longrightarrow> sound_step b d (snd (recover_files f d))"
  by (rule sound_step_keeps [OF _ recover_files_safe]) (simp_all add: recover_files_growth)

lemma disk_keys_sound: "sound_disk b d \<Longrightarrow> sound_step b d (snd (disk_keys f bs d))"
proof -
  assume d: "sound_disk b d"
  have "same_files d (snd (disk_keys f bs d))" using disk_keys_same by (simp add: within_def)
  with d show ?thesis by (auto simp: sound_step_def sound_disk_def same_files_def all_healthy_def all_evolve_def)
qed

lemma redeem_held_sound:
  assumes "sound_disk b d" and "unmerged (dk_files d hour)" and "hour \<le> b"
  shows "sound_step b d (snd (redeem_held f hour d))"
proof (cases "hf_held (dk_files d hour) = []")
  case True
  then have "redeem_held f hour d = (Done (), d)" by (simp add: redeem_held_def ret_def)
  with assms(1) show ?thesis by (simp add: sound_step_def)
next
  case False
  have "same_merging hour d (snd (redeem_held f hour d))" using redeem_held_merging by (simp add: within_def)
  moreover have "all_healthy (snd (redeem_held f hour d))" "all_evolve d (snd (redeem_held f hour d))"
    using redeem_held_safe [of hour f] assms unfolding keeps_def sound_disk_def by blast+
  ultimately show ?thesis using assms(1,3) False
    unfolding sound_step_def sound_disk_def same_merging_def local_to_def occupied_def by metis
qed

lemma write_part_effect:
  "dk_files (snd (write_part f held rs hour d)) = dk_files d \<or>
   dk_files (snd (write_part f held rs hour d)) = (dk_files d)(hour := (if held then add_held rs else add_part rs) (dk_files d hour))"
  "set (dk_hours (snd (write_part f held rs hour d))) = insert hour (set (dk_hours d))"
  by (cases "f (dk_ios d)"; auto simp: write_part_def try_io_def bind_io_def make_dir_def act_def ret_def Let_def set_insort_key)+

lemma write_part_sound:
  assumes "sound_disk b d" and "held \<or> unmerged (dk_files d hour) \<and> hour \<le> b"
  shows "sound_step b d (snd (write_part f held rs hour d))"
proof -
  have "all_healthy (snd (write_part f held rs hour d))" "all_evolve d (snd (write_part f held rs hour d))"
    using write_part_safe [of held hour f rs] assms unfolding keeps_def sound_disk_def by blast+
  moreover have "h \<in> set (dk_hours (snd (write_part f held rs hour d)))" if "occupied (dk_files (snd (write_part f held rs hour d)) h)" for h
    using that write_part_effect [of f held rs hour d] assms(1) by (auto simp: sound_disk_def split: if_splits)
  moreover have "h \<le> b" if "busy (dk_files (snd (write_part f held rs hour d)) h)" for h
    using that write_part_effect(1) [of f held rs hour d] assms
    by (auto simp: sound_disk_def busy_def add_held_def split: if_splits)
  ultimately show ?thesis by (simp add: sound_step_def sound_disk_def)
qed

text \<open>Which interrupted merges a step can leave.\<close>

lemma write_part_unmerged: "unmerged (dk_files (snd (write_part f held rs hour d)) h) \<longleftrightarrow> unmerged (dk_files d h)"
  using write_part_effect(1) [of f held rs hour d] by (auto simp: unmerged_def add_held_def add_part_def split: if_splits)

lemma redeem_held_unmerged: "unmerged (dk_files (snd (redeem_held f hour d)) h) \<longleftrightarrow> unmerged (dk_files d h)"
  using redeem_held_merging [of hour f] unfolding within_def same_merging_def local_to_def unmerged_def by metis

lemma disk_keys_unmerged: "unmerged (dk_files (snd (disk_keys f bs d)) h) \<longleftrightarrow> unmerged (dk_files d h)"
  using disk_keys_same [of f bs] by (simp add: within_def same_files_def)

lemma merge_hour_unmerged: "h \<noteq> hour \<Longrightarrow> unmerged (dk_files (snd (merge_hour f hour d)) h) \<longleftrightarrow> unmerged (dk_files d h)"
  using merge_hour_local [of hour f] by (simp add: within_def local_to_def)
section \<open>A calculus for the writer\<close>

text \<open>No stamp past the next reading of the clock plus the window is believed.\<close>

definition horizon :: "clock \<Rightarrow> seg_writer \<Rightarrow> int" where
  "horizon clk w = clk (wr_reads w) + MAX_TS_AHEAD"

definition sound :: "clock \<Rightarrow> seg_writer \<Rightarrow> bool" where
  "sound clk w \<longleftrightarrow> sound_disk (horizon clk w) (wr_disk w)"

definition triple :: "clock \<Rightarrow> (seg_writer \<Rightarrow> bool) \<Rightarrow> 'a wio \<Rightarrow> ('a \<Rightarrow> seg_writer \<Rightarrow> bool) \<Rightarrow> bool" where
  "triple clk P m Q \<longleftrightarrow> (mono clk \<longrightarrow> (\<forall>w r w'. sound clk w \<longrightarrow> P w \<longrightarrow> m w = (r, w') \<longrightarrow>
     sound clk w' \<and> all_evolve (wr_disk w) (wr_disk w') \<and> (\<forall>a. r = Done a \<longrightarrow> Q a w')))"

lemma triple_ret: "(\<And>w. P w \<Longrightarrow> Q a w) \<Longrightarrow> triple clk P (ret a) Q"
  by (simp add: triple_def ret_def)

lemma triple_raise: "triple clk P raise_io Q"
  by (simp add: triple_def raise_io_def)

lemma triple_bind:
  assumes "triple clk P m Q" and "\<And>a. triple clk (Q a) (k a) R"
  shows "triple clk P (bind_io m k) R"
  unfolding triple_def
proof (intro impI allI)
  fix w r w' assume prems: "mono clk" "sound clk w" "P w" "bind_io m k w = (r, w')"
  obtain r1 w1 where m: "m w = (r1, w1)" by force
  from assms(1) prems m have one: "sound clk w1" "all_evolve (wr_disk w) (wr_disk w1)" "\<And>a. r1 = Done a \<Longrightarrow> Q a w1"
    by (auto simp: triple_def)
  show "sound clk w' \<and> all_evolve (wr_disk w) (wr_disk w') \<and> (\<forall>a. r = Done a \<longrightarrow> R a w')"
  proof (cases r1)
    case (Done a)
    with prems(4) m have "k a w1 = (r, w')" by (simp add: bind_io_def)
    with assms(2) [of a] one Done prems(1) have "sound clk w' \<and> all_evolve (wr_disk w1) (wr_disk w') \<and> (\<forall>a. r = Done a \<longrightarrow> R a w')"
      by (auto simp: triple_def)
    with one(2) all_evolve_trans show ?thesis by blast
  qed (use prems(4) m one in \<open>auto simp: bind_io_def\<close>)
qed

lemma triple_each: "(\<And>x. x \<in> set xs \<Longrightarrow> triple clk P (m x) (\<lambda>_. P)) \<Longrightarrow> triple clk P (each_io m xs) (\<lambda>_. P)"
  by (induction xs) (auto intro: triple_ret triple_bind)

lemma triple_pre: "triple clk P m Q \<Longrightarrow> (\<And>w. P' w \<Longrightarrow> P w) \<Longrightarrow> triple clk P' m Q"
  unfolding triple_def by blast

lemma triple_post: "triple clk P m Q \<Longrightarrow> (\<And>a w. Q a w \<Longrightarrow> Q' a w) \<Longrightarrow> triple clk P m Q'"
  unfolding triple_def by blast

lemma triple_if: "(b \<Longrightarrow> triple clk P m Q) \<Longrightarrow> (\<not> b \<Longrightarrow> triple clk P n Q) \<Longrightarrow> triple clk P (if b then m else n) Q"
  by simp

text \<open>Looking at the own state: what follows runs from that very state.\<close>

lemma triple_self: "(\<And>w0. P w0 \<Longrightarrow> triple clk (\<lambda>w. w = w0) (k w0) Q) \<Longrightarrow> triple clk P (bind_io self k) Q"
  unfolding triple_def bind_io_def self_def by (clarsimp split: prod.splits)

lemma triple_here: "triple clk P m Q \<Longrightarrow> P w0 \<Longrightarrow> triple clk (\<lambda>w. w = w0) m Q"
  by (erule triple_pre) simp

lemma triple_modify:
  "(\<And>w. P w \<Longrightarrow> wr_disk (g w) = wr_disk w \<and> wr_reads (g w) = wr_reads w \<and> Q () (g w)) \<Longrightarrow> triple clk P (modify g) Q"
  by (auto simp: triple_def modify_def sound_def horizon_def)

section \<open>Where a writer may put parts\<close>

definition past_floor :: "int option \<Rightarrow> int \<Rightarrow> bool" where
  "past_floor b h \<longleftrightarrow> (case b of None \<Rightarrow> True | Some fl \<Rightarrow> fl \<le> h)"

definition oracle_ok :: "int \<Rightarrow> hour_oracle \<Rightarrow> bool" where
  "oracle_ok b o1 \<longleftrightarrow> (\<forall>t\<in>snd ` set (or_witnessed o1). t \<le> b) \<and> (\<forall>h. or_confirmed o1 = Some h \<longrightarrow> h \<le> b)"

text \<open>
  The oracle believes nothing past the horizon, no hour from \<open>b\<close> on has an interrupted merge, no hour of \<open>S\<close> is past
  the horizon, and \<open>x\<close> holds of the open hour, the floor and the held rows.
\<close>

definition clear :: "clock \<Rightarrow> int option \<Rightarrow> int set \<Rightarrow> (int option \<Rightarrow> int option \<Rightarrow> (int \<times> row list) list \<Rightarrow> bool) \<Rightarrow>
    seg_writer \<Rightarrow> bool" where
  "clear clk b S x w \<longleftrightarrow>
     (\<exists>o1. wr_oracle w = Some o1 \<and> oracle_ok (horizon clk w) o1) \<and>
     (\<forall>h. past_floor b h \<longrightarrow> unmerged (files_at w h)) \<and> (\<forall>k\<in>S. k \<le> horizon clk w) \<and>
     x (wr_hour w) (wr_floor w) (wr_held w)"

lemma oracle_ok_later: "oracle_ok b o1 \<Longrightarrow> b \<le> b' \<Longrightarrow> oracle_ok b' o1"
  unfolding oracle_ok_def by force

lemma clear_modify:
  assumes "\<And>w. wr_disk (g w) = wr_disk w \<and> wr_reads (g w) = wr_reads w \<and> wr_oracle (g w) = wr_oracle w"
    and "\<And>w. clear clk b S x w \<Longrightarrow> x' (wr_hour (g w)) (wr_floor (g w)) (wr_held (g w))"
  shows "triple clk (clear clk b S x) (modify g) (\<lambda>_. clear clk b S x')"
  using assms by (intro triple_modify) (auto simp: clear_def files_at_def horizon_def)

lemma clear_utcnow: "triple clk (clear clk b S x) (utcnow clk) (\<lambda>now w. clear clk b S x w \<and> now + MAX_TS_AHEAD \<le> horizon clk w)"
  unfolding triple_def
proof (intro impI allI)
  fix w r w' assume prems: "mono clk" "sound clk w" "clear clk b S x w" "utcnow clk w = (r, w')"
  then have w': "w' = w\<lparr>wr_reads := wr_reads w + 1\<rparr>" "r = Done (clk (wr_reads w))" by (auto simp: utcnow_def)
  have later: "horizon clk w \<le> horizon clk w'" using prems(1) w' by (simp add: horizon_def monoD)
  with prems w' show "sound clk w' \<and> all_evolve (wr_disk w) (wr_disk w') \<and>
      (\<forall>a. r = Done a \<longrightarrow> clear clk b S x w' \<and> a + MAX_TS_AHEAD \<le> horizon clk w')"
    by (force simp: sound_def clear_def files_at_def horizon_def intro: sound_disk_later oracle_ok_later)
qed

lemma clear_clock:
  assumes "\<And>now. triple clk (clear clk b S x) (k now) Q"
  shows "triple clk (clear clk b S x) (bind_io (utcnow clk) k) Q"
  by (rule triple_bind [OF clear_utcnow], rule triple_pre [OF assms]) simp

text \<open>A step on the files that is sound where it is used and interrupts no merge from \<open>b\<close> on.\<close>

lemma clear_on_disk:
  assumes "\<And>w d. clear clk b S x w \<Longrightarrow> d = wr_disk w \<Longrightarrow> sound_disk (horizon clk w) d \<Longrightarrow> sound_step (horizon clk w) d (snd (m d))"
    and "\<And>d h. past_floor b h \<Longrightarrow> unmerged (dk_files d h) \<Longrightarrow> unmerged (dk_files (snd (m d)) h)"
  shows "triple clk (clear clk b S x) (on_disk m) (\<lambda>_. clear clk b S x)"
  unfolding triple_def
proof (intro impI allI)
  fix w r w' assume prems: "mono clk" "sound clk w" "clear clk b S x w" "on_disk m w = (r, w')"
  let ?d = "snd (m (wr_disk w))"
  have w': "w' = w\<lparr>wr_disk := ?d\<rparr>" using prems(4) by (auto simp: on_disk_def split: prod.splits)
  have "sound_step (horizon clk w) (wr_disk w) ?d" using assms(1) prems by (simp add: sound_def)
  moreover have "clear clk b S x w'" using prems(3) assms(2) by (auto simp: w' clear_def files_at_def horizon_def)
  ultimately show "sound clk w' \<and> all_evolve (wr_disk w) (wr_disk w') \<and> (\<forall>a. r = Done a \<longrightarrow> clear clk b S x w')"
    by (simp add: w' sound_step_def sound_def horizon_def)
qed

lemma clear_disk_keys: "triple clk (clear clk b S x) (on_disk (disk_keys f bs)) (\<lambda>_. clear clk b S x)"
  by (rule clear_on_disk) (simp_all add: disk_keys_sound disk_keys_unmerged)

lemma clear_merge_hour: "\<not> past_floor b hour \<Longrightarrow> triple clk (clear clk b S x) (on_disk (merge_hour f hour)) (\<lambda>_. clear clk b S x)"
  by (rule clear_on_disk) (simp add: merge_hour_sound, metis merge_hour_unmerged)

lemma clear_spill: "triple clk (clear clk b S x) (on_disk (write_part f True rs hour)) (\<lambda>_. clear clk b S x)"
  by (rule clear_on_disk) (auto simp: write_part_sound write_part_unmerged)

lemma clear_write:
  "past_floor b hour \<Longrightarrow> hour \<in> S \<Longrightarrow> triple clk (clear clk b S x) (on_disk (write_part f False rs hour)) (\<lambda>_. clear clk b S x)"
  by (rule clear_on_disk) (auto simp: write_part_unmerged clear_def files_at_def intro!: write_part_sound)

lemma clear_redeem:
  "past_floor b hour \<Longrightarrow> hour \<in> S \<Longrightarrow> triple clk (clear clk b S x) (on_disk (redeem_held f hour)) (\<lambda>_. clear clk b S x)"
  by (rule clear_on_disk) (auto simp: redeem_held_unmerged clear_def files_at_def intro!: redeem_held_sound)
section \<open>The writer's operations\<close>

abbreviation opened :: "clock \<Rightarrow> int \<Rightarrow> int set \<Rightarrow> seg_writer \<Rightarrow> bool" where
  "opened clk cur S \<equiv> clear clk (Some cur) (insert cur S) (\<lambda>hr _ _. hr = Some cur)"

abbreviation idle :: "clock \<Rightarrow> int option \<Rightarrow> int set \<Rightarrow> seg_writer \<Rightarrow> bool" where
  "idle clk b S \<equiv> clear clk b S (\<lambda>hr fl held. hr = None \<and> fl = b \<and> (\<forall>h\<in>fst ` set held. past_floor b h))"

text \<open>Between two operations: the hours of \<open>S\<close> have begun, those of \<open>T\<close> are not before the floor.\<close>

definition steady :: "clock \<Rightarrow> int set \<Rightarrow> int set \<Rightarrow> seg_writer \<Rightarrow> bool" where
  "steady clk S T w \<longleftrightarrow> (\<exists>cur. opened clk cur S w) \<or> (\<exists>b. idle clk b S w \<and> (\<forall>k\<in>T. past_floor b k))"

lemma triple_steady:
  assumes "\<And>cur. triple clk (opened clk cur S) m Q" and "\<And>b. \<forall>k\<in>T. past_floor b k \<Longrightarrow> triple clk (idle clk b S) m Q"
  shows "triple clk (steady clk S T) m Q"
  using assms unfolding triple_def steady_def by blast

lemma steady_opened: "opened clk cur S w \<Longrightarrow> steady clk S T w"
  by (auto simp: steady_def)

lemma steady_idle: "idle clk b S w \<Longrightarrow> \<forall>k\<in>T. past_floor b k \<Longrightarrow> steady clk S T w"
  by (auto simp: steady_def)

lemma clear_weaken:
  assumes "clear clk b S x w" and "\<And>h. past_floor b' h \<Longrightarrow> past_floor b h" and "S' \<subseteq> S" and "\<And>hr fl hd. x hr fl hd \<Longrightarrow> x' hr fl hd"
  shows "clear clk b' S' x' w"
  using assms unfolding clear_def by blast

lemma steady_fewer:
  assumes "steady clk S T w" and "S' \<subseteq> S" and "T' \<subseteq> T"
  shows "steady clk S' T' w"
  using assms(1) unfolding steady_def
proof (elim disjE exE conjE)
  fix cur assume "opened clk cur S w"
  then have "opened clk cur S' w" by (rule clear_weaken) (use assms(2) in auto)
  then show "(\<exists>cur. opened clk cur S' w) \<or> (\<exists>b. idle clk b S' w \<and> (\<forall>k\<in>T'. past_floor b k))" by blast
next
  fix b assume b: "\<forall>k\<in>T. past_floor b k" and "idle clk b S w"
  from this(2) have "idle clk b S' w" by (rule clear_weaken) (use assms(2) in auto)
  with b assms(3) show "(\<exists>cur. opened clk cur S' w) \<or> (\<exists>b. idle clk b S' w \<and> (\<forall>k\<in>T'. past_floor b k))" by blast
qed

text \<open>What moves neither the open hour nor the held rows stays steady.\<close>

lemma keeps_steady:
  assumes "\<And>b S x. triple clk (clear clk b S x) m (\<lambda>_. clear clk b S x)"
  shows "triple clk (steady clk S T) m (\<lambda>_. steady clk S T)"
proof (rule triple_steady)
  fix cur show "triple clk (opened clk cur S) m (\<lambda>_. steady clk S T)"
    by (rule triple_post [OF assms]) (rule steady_opened)
next
  fix b assume "\<forall>k\<in>T. past_floor b k"
  then show "triple clk (idle clk b S) m (\<lambda>_. steady clk S T)" by (intro triple_post [OF assms] steady_idle)
qed

lemma clear_same:
  "(\<And>w. wr_disk (g w) = wr_disk w \<and> wr_reads (g w) = wr_reads w \<and> wr_oracle (g w) = wr_oracle w \<and>
     wr_hour (g w) = wr_hour w \<and> wr_floor (g w) = wr_floor w \<and> wr_held (g w) = wr_held w) \<Longrightarrow>
   triple clk (clear clk b S x) (modify g) (\<lambda>_. clear clk b S x)"
  by (rule clear_modify) (auto simp: clear_def)

lemma clear_ret: "triple clk (clear clk b S x) (ret a) (\<lambda>_. clear clk b S x)"
  by (rule triple_ret)

lemma clear_self:
  assumes "\<And>w0. triple clk (clear clk b S x) (k w0) Q"
  shows "triple clk (clear clk b S x) (bind_io self k) Q"
  by (rule triple_self, rule triple_here [OF assms])

lemma count_if_early_clear: "triple clk (clear clk b S x) (count_if_early clk hour) (\<lambda>_. clear clk b S x)"
  unfolding count_if_early_def by (intro clear_clock clear_same) simp

lemma note_past_dated_clear: "triple clk (clear clk b S x) (note_past_dated clk hour) (\<lambda>_. clear clk b S x)"
  unfolding note_past_dated_def by (intro clear_self triple_if clear_ret clear_clock clear_same) simp

lemma anchor_clear: "triple clk (clear clk b S x) (anchor clk ts) (\<lambda>_. clear clk b S x)"
  unfolding anchor_def by (intro clear_self triple_if clear_ret clear_clock clear_same) simp

lemma flush_opened: "triple clk (opened clk cur S) (flush_buffer f) (\<lambda>_. opened clk cur S)"
  unfolding flush_buffer_def
proof (rule triple_self)
  fix w0 assume w0: "opened clk cur S w0"
  then have "wr_hour w0 = Some cur" by (simp add: clear_def)
  moreover have "triple clk (opened clk cur S) (bind_io (on_disk (write_part f False (wr_buffer w0) cur)) (\<lambda>_.
      modify (\<lambda>w. w\<lparr>wr_buffer := []\<rparr>))) (\<lambda>_. opened clk cur S)"
    by (intro triple_bind [OF clear_write] clear_same) (simp_all add: past_floor_def)
  ultimately show "triple clk (\<lambda>w. w = w0) (if wr_buffer w0 = [] then ret () else case wr_hour w0 of None \<Rightarrow> raise_io
      | Some hour \<Rightarrow> bind_io (on_disk (write_part f False (wr_buffer w0) hour)) (\<lambda>_. modify (\<lambda>w. w\<lparr>wr_buffer := []\<rparr>)))
      (\<lambda>_. opened clk cur S)"
    using w0 by (intro triple_here [where P = "opened clk cur S"]) (simp_all add: clear_ret)
qed

lemma flush_idle: "triple clk (idle clk b S) (flush_buffer f) (\<lambda>_. idle clk b S)"
  unfolding flush_buffer_def
proof (rule triple_self)
  fix w0 assume w0: "idle clk b S w0"
  then have "wr_hour w0 = None" by (simp add: clear_def)
  then show "triple clk (\<lambda>w. w = w0) (if wr_buffer w0 = [] then ret () else case wr_hour w0 of None \<Rightarrow> raise_io
      | Some hour \<Rightarrow> bind_io (on_disk (write_part f False (wr_buffer w0) hour)) (\<lambda>_. modify (\<lambda>w. w\<lparr>wr_buffer := []\<rparr>)))
      (\<lambda>_. idle clk b S)"
    using w0 by (intro triple_here [where P = "idle clk b S"]) (simp_all add: clear_ret triple_raise)
qed

lemma flush_steady: "triple clk (steady clk S T) (flush_buffer f) (\<lambda>_. steady clk S T)"
proof (rule triple_steady)
  fix cur show "triple clk (opened clk cur S) (flush_buffer f) (\<lambda>_. steady clk S T)"
    by (rule triple_post [OF flush_opened]) (rule steady_opened)
next
  fix b assume "\<forall>k\<in>T. past_floor b k"
  then show "triple clk (idle clk b S) (flush_buffer f) (\<lambda>_. steady clk S T)" by (intro triple_post [OF flush_idle] steady_idle)
qed

lemma open_hour_opens:
  assumes "hour \<in> S"
  shows "triple clk (clear clk (Some hour) S x) (open_hour f hour) (\<lambda>_. opened clk hour S)"
proof -
  have S: "insert hour S = S" using assms by auto
  have "triple clk (clear clk (Some hour) S x) (modify (\<lambda>w. w\<lparr>wr_hour := Some hour\<rparr>)) (\<lambda>_. opened clk hour S)"
    unfolding S by (rule clear_modify) simp_all
  then show ?thesis unfolding open_hour_def
    by (rule triple_bind)
      (intro triple_bind [OF clear_redeem] triple_bind [OF clear_same] triple_bind [OF clear_disk_keys] clear_self triple_if
        clear_ret clear_same; simp add: past_floor_def)
qed

lemma open_hour_steady: "hour \<in> S \<Longrightarrow> triple clk (clear clk (Some hour) S x) (open_hour f hour) (\<lambda>_. steady clk S T)"
  by (rule triple_post, erule open_hour_opens, rule steady_opened)

lemma sweep_clear: "triple clk (clear clk (Some hour) S x) (sweep f clk hour) (\<lambda>_. clear clk (Some hour) S x)"
  unfolding sweep_def
proof (rule clear_self)
  fix w0
  show "triple clk (clear clk (Some hour) S x)
      (each_io (\<lambda>h. bind_io (count_if_early clk h) (\<lambda>_. on_disk (merge_hour f h)))
        (filter (\<lambda>h. hf_parts (files_at w0 h) \<noteq> [] \<and> h < hour) (dk_hours (wr_disk w0)))) (\<lambda>_. clear clk (Some hour) S x)"
    by (intro triple_each triple_bind [OF count_if_early_clear] clear_merge_hour) (simp add: past_floor_def)
qed

lemma finalize_hour_clear:
  assumes "cur < hour"
  shows "triple clk (opened clk cur S) (finalize_hour f clk cur) (\<lambda>_. clear clk (Some hour) S (\<lambda>_ _ _. True))"
  unfolding finalize_hour_def
proof (intro triple_bind [OF count_if_early_clear] triple_bind [OF flush_opened])
  have "triple clk (clear clk (Some hour) S (\<lambda>_ _ _. True)) (on_disk (merge_hour f cur)) (\<lambda>_. clear clk (Some hour) S (\<lambda>_ _ _. True))"
    using assms by (intro clear_merge_hour) (simp add: past_floor_def)
  then show "triple clk (opened clk cur S) (on_disk (merge_hour f cur)) (\<lambda>_. clear clk (Some hour) S (\<lambda>_ _ _. True))"
    by (rule triple_pre) (rule clear_weaken, use assms in \<open>auto simp: past_floor_def\<close>)
qed

lemma enter_hour_steady:
  assumes "hour \<in> S" and "hour \<in> T"
  shows "triple clk (steady clk S T) (enter_hour f clk hour) (\<lambda>_. steady clk S T)"
  unfolding enter_hour_def
proof (rule triple_steady)
  fix cur
  have step: "triple clk (opened clk cur S) (if hour > cur then bind_io (finalize_hour f clk cur) (\<lambda>_. open_hour f hour) else ret ())
      (\<lambda>_. steady clk S T)"
  proof (rule triple_if)
    assume "hour > cur"
    then show "triple clk (opened clk cur S) (bind_io (finalize_hour f clk cur) (\<lambda>_. open_hour f hour)) (\<lambda>_. steady clk S T)"
      by (intro triple_bind [OF finalize_hour_clear [of cur hour]] open_hour_steady assms)
  qed (intro triple_ret steady_opened)
  show "triple clk (opened clk cur S) (bind_io self (\<lambda>w. case wr_hour w of
         None \<Rightarrow> bind_io (note_past_dated clk hour) (\<lambda>_. bind_io (sweep f clk hour) (\<lambda>_. open_hour f hour))
       | Some cur \<Rightarrow> if hour > cur then bind_io (finalize_hour f clk cur) (\<lambda>_. open_hour f hour) else ret ()))
      (\<lambda>_. steady clk S T)"
    using step by (intro triple_self) (simp add: clear_def [of _ _ _ _ "_ :: seg_writer"] triple_here)
next
  fix b assume b: "\<forall>k\<in>T. past_floor b k"
  have "triple clk (clear clk (Some hour) S (\<lambda>_ _ _. True)) (bind_io (sweep f clk hour) (\<lambda>_. open_hour f hour)) (\<lambda>_. steady clk S T)"
    by (intro triple_bind [OF sweep_clear] open_hour_steady assms)
  then have "triple clk (idle clk b S) (bind_io (sweep f clk hour) (\<lambda>_. open_hour f hour)) (\<lambda>_. steady clk S T)"
    by (rule triple_pre) (rule clear_weaken, use b assms in \<open>auto simp: past_floor_def split: option.splits\<close>)
  then have step: "triple clk (idle clk b S) (bind_io (note_past_dated clk hour) (\<lambda>_. bind_io (sweep f clk hour) (\<lambda>_. open_hour f hour)))
      (\<lambda>_. steady clk S T)"
    by (intro triple_bind [OF note_past_dated_clear])
  show "triple clk (idle clk b S) (bind_io self (\<lambda>w. case wr_hour w of
         None \<Rightarrow> bind_io (note_past_dated clk hour) (\<lambda>_. bind_io (sweep f clk hour) (\<lambda>_. open_hour f hour))
       | Some cur \<Rightarrow> if hour > cur then bind_io (finalize_hour f clk cur) (\<lambda>_. open_hour f hour) else ret ()))
      (\<lambda>_. steady clk S T)"
    using step by (intro triple_self) (simp add: clear_def [of _ _ _ _ "_ :: seg_writer"] triple_here)
qed
lemma triple_look:
  assumes "\<And>w0. triple clk P (k w0) Q"
  shows "triple clk P (bind_io self k) Q"
  by (rule triple_self, rule triple_here [OF assms])

lemma steady_same:
  "(\<And>w. wr_disk (g w) = wr_disk w \<and> wr_reads (g w) = wr_reads w \<and> wr_oracle (g w) = wr_oracle w \<and>
     wr_hour (g w) = wr_hour w \<and> wr_floor (g w) = wr_floor w \<and> wr_held (g w) = wr_held w) \<Longrightarrow>
   triple clk (steady clk S T) (modify g) (\<lambda>_. steady clk S T)"
  by (intro keeps_steady clear_same)

lemma steady_held:
  assumes "\<And>w. wr_disk (g w) = wr_disk w \<and> wr_reads (g w) = wr_reads w \<and> wr_oracle (g w) = wr_oracle w \<and>
     wr_hour (g w) = wr_hour w \<and> wr_floor (g w) = wr_floor w"
    and "\<And>w. fst ` set (wr_held (g w)) \<subseteq> T \<union> fst ` set (wr_held w)"
  shows "triple clk (steady clk S T) (modify g) (\<lambda>_. steady clk S T)"
proof (rule triple_steady)
  fix cur
  have "triple clk (opened clk cur S) (modify g) (\<lambda>_. opened clk cur S)"
    by (rule clear_modify) (use assms(1) in \<open>auto simp: clear_def\<close>)
  then show "triple clk (opened clk cur S) (modify g) (\<lambda>_. steady clk S T)" by (rule triple_post) (rule steady_opened)
next
  fix b assume T: "\<forall>k\<in>T. past_floor b k"
  have "triple clk (idle clk b S) (modify g) (\<lambda>_. idle clk b S)"
  proof (rule clear_modify)
    fix w assume "idle clk b S w"
    then have w: "wr_hour w = None" "wr_floor w = b" "\<forall>h\<in>fst ` set (wr_held w). past_floor b h"
      unfolding clear_def by simp_all
    with T have "\<forall>h\<in>T \<union> fst ` set (wr_held w). past_floor b h" by blast
    with assms(2) [of w] have "\<forall>h\<in>fst ` set (wr_held (g w)). past_floor b h" by blast
    with w assms(1) [of w] show "wr_hour (g w) = None \<and> wr_floor (g w) = b \<and> (\<forall>h\<in>fst ` set (wr_held (g w)). past_floor b h)"
      by simp
  qed (use assms(1) in simp)
  with T show "triple clk (idle clk b S) (modify g) (\<lambda>_. steady clk S T)" by (intro triple_post [OF _ steady_idle]) auto
qed

lemma admit_steady: "triple clk (steady clk S T) (admit f clk ev) (\<lambda>_. steady clk S T)"
  unfolding admit_def
  by (intro triple_look triple_if triple_ret triple_bind [OF steady_same] triple_bind [OF keeps_steady [OF anchor_clear]]
      flush_steady) simp_all

lemma spill_held_steady: "triple clk (steady clk S T) (spill_held f hour) (\<lambda>_. steady clk S T)"
  unfolding spill_held_def
  by (intro triple_look triple_bind [OF keeps_steady [OF clear_spill]] steady_same) simp

lemma update_keys: "fst ` set (AList.update k v al) = insert k (fst ` set al)"
  by (induction al) auto

lemma update_vals: "snd ` set (AList.update k v al) \<subseteq> insert v (snd ` set al)"
  by (induction al) auto

lemma delete_keys: "fst ` set (AList.delete k al) \<subseteq> fst ` set al"
  by (induction al) auto

lemma park_steady: "hour \<in> T \<Longrightarrow> triple clk (steady clk S T) (park f clk hour ev) (\<lambda>_. steady clk S T)"
  unfolding park_def
  by (intro triple_look triple_if triple_ret triple_bind [OF steady_held] triple_bind [OF keeps_steady [OF anchor_clear]]
      triple_bind [OF spill_held_steady] steady_held)
    (auto simp: set_held_def update_keys)

lemma held_keys_steady: "triple clk (steady clk S T) (held_keys f hour) (\<lambda>_. steady clk S T)"
  unfolding held_keys_def
proof (rule triple_look)
  fix w0
  have "triple clk (steady clk S T) (bind_io (on_disk (disk_keys f bs)) (\<lambda>ks.
      bind_io (modify (\<lambda>w. w\<lparr>wr_held_seen := AList.update hour ks (wr_held_seen w)\<rparr>)) (\<lambda>_. ret ks))) (\<lambda>_. steady clk S T)" for bs
    by (intro triple_bind [OF keeps_steady [OF clear_disk_keys]] triple_bind [OF steady_same] triple_ret) simp_all
  then show "triple clk (steady clk S T) (case map_of (wr_held_seen w0) hour of
         Some ks \<Rightarrow> ret ks
       | None \<Rightarrow> bind_io (on_disk (disk_keys f (map snd (hf_parts (files_at w0 hour)) @ map snd (hf_held (files_at w0 hour))))) (\<lambda>ks.
                   bind_io (modify (\<lambda>w. w\<lparr>wr_held_seen := AList.update hour ks (wr_held_seen w)\<rparr>)) (\<lambda>_. ret ks)))
      (\<lambda>_. steady clk S T)"
    by (simp add: triple_ret split: option.split)
qed

lemma hold_steady: "hour \<in> T \<Longrightarrow> triple clk (steady clk S T) (hold f clk hour ev) (\<lambda>_. steady clk S T)"
  unfolding hold_def
  by (intro triple_look triple_if park_steady triple_bind [OF held_keys_steady] triple_ret triple_bind [OF steady_same]) simp_all

section \<open>The oracle believes nothing past the horizon\<close>

lemma observe_ok: "oracle_ok b o1 \<Longrightarrow> now + MAX_TS_AHEAD \<le> b \<Longrightarrow> oracle_ok b (observe now s ts o1)"
  using update_vals [of s "min ts (now + MAX_TS_AHEAD)" "or_witnessed o1"]
  by (auto simp: oracle_ok_def observe_def Let_def split: option.split) fastforce+

lemma confirm_ok:
  assumes "oracle_ok b o1" and "now + MAX_TS_AHEAD \<le> b"
  shows "oracle_ok b (confirm now o1)"
proof -
  have "w \<le> b" if "w \<in> set (witnesses now o1)" for w
    using that assms by (auto simp: witnesses_def oracle_ok_def time_constants)
  then have "hour_start (witnesses now o1 ! 1) \<le> b" if "length (witnesses now o1) \<ge> 2"
    using that hour_start_le [of "witnesses now o1 ! 1"] nth_mem [of 1 "witnesses now o1"] by fastforce
  with assms(1) show ?thesis by (auto simp: oracle_ok_def confirm_confirmed split: option.splits if_splits)
qed

lemma clear_oracle:
  assumes "\<And>w o1 b'. oracle_ok b' o1 \<Longrightarrow> now + MAX_TS_AHEAD \<le> b' \<Longrightarrow> oracle_ok b' (g w o1)"
  shows "triple clk (\<lambda>w. clear clk b S x w \<and> now + MAX_TS_AHEAD \<le> horizon clk w)
    (modify (\<lambda>w. w\<lparr>wr_oracle := map_option (g w) (wr_oracle w)\<rparr>)) (\<lambda>_. clear clk b S x)"
  using assms by (intro triple_modify) (auto simp: clear_def files_at_def horizon_def)

lemma peer_seen_clear: "triple clk (clear clk b S x) (peer_seen clk s ts) (\<lambda>_. clear clk b S x)"
  unfolding peer_seen_def
  by (intro triple_bind [OF clear_utcnow] triple_bind [OF clear_oracle] clear_oracle observe_ok confirm_ok)

lemma ask_oracle_clear:
  "triple clk (clear clk b S x) (ask_oracle clk ts) (\<lambda>c. clear clk b (S \<union> {k. confirmed_by c k}) x)"
proof -
  have look: "triple clk (clear clk b S x) (bind_io self (\<lambda>w. ret (case wr_oracle w of None \<Rightarrow> None | Some o1 \<Rightarrow> or_confirmed o1)))
      (\<lambda>c. clear clk b (S \<union> {k. confirmed_by c k}) x)"
    by (intro triple_self triple_ret) (auto simp: clear_def oracle_ok_def confirmed_by_def split: option.splits)
  have confirm: "triple clk (clear clk b S x) (bind_io (utcnow clk) (\<lambda>now'.
      bind_io (modify (\<lambda>w. w\<lparr>wr_oracle := map_option (confirm now') (wr_oracle w)\<rparr>)) (\<lambda>_.
      bind_io self (\<lambda>w. ret (case wr_oracle w of None \<Rightarrow> None | Some o1 \<Rightarrow> or_confirmed o1)))))
      (\<lambda>c. clear clk b (S \<union> {k. confirmed_by c k}) x)"
    by (rule triple_bind [OF clear_utcnow], rule triple_bind [OF clear_oracle look], rule confirm_ok)
  show ?thesis unfolding ask_oracle_def
    by (rule triple_bind [OF clear_utcnow], rule triple_bind [OF clear_oracle confirm], rule observe_ok)
qed
lemma ask_oracle_steady:
  "triple clk (steady clk {} T) (ask_oracle clk ts) (\<lambda>c. steady clk {k. confirmed_by c k} T)"
proof (rule triple_steady)
  fix cur
  show "triple clk (opened clk cur {}) (ask_oracle clk ts) (\<lambda>c. steady clk {k. confirmed_by c k} T)"
    by (rule triple_post [OF ask_oracle_clear], rule steady_opened, erule clear_weaken) auto
next
  fix b assume T: "\<forall>k\<in>T. past_floor b k"
  show "triple clk (idle clk b {}) (ask_oracle clk ts) (\<lambda>c. steady clk {k. confirmed_by c k} T)"
    by (rule triple_post [OF ask_oracle_clear], rule steady_idle [OF _ T], erule clear_weaken) auto
qed

text \<open>Rows are held for hours not before the floor only.\<close>

lemma steady_held_hours:
  assumes "steady clk S T w"
  shows "steady clk S (T \<union> fst ` set (wr_held w)) w"
  using assms [unfolded steady_def]
proof (elim disjE exE conjE)
  fix b assume b: "idle clk b S w" and T: "\<forall>k\<in>T. past_floor b k"
  from b have "\<forall>h\<in>fst ` set (wr_held w). past_floor b h" by (simp add: clear_def)
  with T show ?thesis by (intro steady_idle [OF b]) blast
qed (rule steady_opened)

lemma drain_steady:
  assumes "\<And>k. confirmed_by c k \<Longrightarrow> k \<in> S"
  shows "triple clk (steady clk S T) (drain f clk hour c) (\<lambda>_. steady clk S T)"
  unfolding drain_def
proof (rule triple_self)
  fix w0 :: seg_writer
  let ?T = "T \<union> fst ` set (wr_held w0)"
  assume "steady clk S T w0"
  then have w0: "steady clk S ?T w0" by (rule steady_held_hours)
  have one: "triple clk (steady clk S ?T) (bind_io self (\<lambda>w.
      bind_io (modify (\<lambda>w. w\<lparr>wr_held := AList.delete h (wr_held w), wr_held_seen := AList.delete h (wr_held_seen w)\<rparr>)) (\<lambda>_.
      bind_io (enter_hour f clk h) (\<lambda>_. each_io (admit f clk) (held_rows h w))))) (\<lambda>_. steady clk S ?T)"
    if "h \<in> S" "h \<in> ?T" for h
  proof (rule triple_look)
    fix w1
    have "triple clk (steady clk S ?T)
        (modify (\<lambda>w. w\<lparr>wr_held := AList.delete h (wr_held w), wr_held_seen := AList.delete h (wr_held_seen w)\<rparr>)) (\<lambda>_. steady clk S ?T)"
      by (rule steady_held) (use delete_keys [of h] in \<open>auto simp: image_subset_iff\<close>)
    then show "triple clk (steady clk S ?T)
        (bind_io (modify (\<lambda>w. w\<lparr>wr_held := AList.delete h (wr_held w), wr_held_seen := AList.delete h (wr_held_seen w)\<rparr>)) (\<lambda>_.
         bind_io (enter_hour f clk h) (\<lambda>_. each_io (admit f clk) (held_rows h w1)))) (\<lambda>_. steady clk S ?T)"
      using that by (rule_tac triple_bind) (auto intro: triple_bind [OF enter_hour_steady] triple_each admit_steady)
  qed
  have "triple clk (steady clk S ?T)
      (each_io (\<lambda>h. bind_io self (\<lambda>w.
         bind_io (modify (\<lambda>w. w\<lparr>wr_held := AList.delete h (wr_held w), wr_held_seen := AList.delete h (wr_held_seen w)\<rparr>)) (\<lambda>_.
         bind_io (enter_hour f clk h) (\<lambda>_. each_io (admit f clk) (held_rows h w)))))
       (sort (filter (\<lambda>h. h \<le> hour \<and> confirmed_by c h) (map fst (wr_held w0))))) (\<lambda>_. steady clk S ?T)"
    by (rule triple_each, rule one) (auto simp: assms)
  then have "triple clk (steady clk S ?T)
      (each_io (\<lambda>h. bind_io self (\<lambda>w.
         bind_io (modify (\<lambda>w. w\<lparr>wr_held := AList.delete h (wr_held w), wr_held_seen := AList.delete h (wr_held_seen w)\<rparr>)) (\<lambda>_.
         bind_io (enter_hour f clk h) (\<lambda>_. each_io (admit f clk) (held_rows h w)))))
       (sort (filter (\<lambda>h. h \<le> hour \<and> confirmed_by c h) (map fst (wr_held w0))))) (\<lambda>_. steady clk S T)"
    by (rule triple_post) (auto elim: steady_fewer)
  then show "triple clk (\<lambda>w. w = w0)
      (each_io (\<lambda>h. bind_io self (\<lambda>w.
         bind_io (modify (\<lambda>w. w\<lparr>wr_held := AList.delete h (wr_held w), wr_held_seen := AList.delete h (wr_held_seen w)\<rparr>)) (\<lambda>_.
         bind_io (enter_hour f clk h) (\<lambda>_. each_io (admit f clk) (held_rows h w)))))
       (sort (filter (\<lambda>h. h \<le> hour \<and> confirmed_by c h) (map fst (wr_held w0))))) (\<lambda>_. steady clk S T)"
    by (rule triple_here) (rule w0)
qed

lemma steady_floor: "steady clk S T w \<Longrightarrow> past_floor (floor_of w) hour \<Longrightarrow> steady clk S {hour} w"
  unfolding steady_def clear_def floor_of_def by auto

lemma steady_oracle: "steady clk S T w \<Longrightarrow> wr_oracle w \<noteq> None"
  unfolding steady_def clear_def by blast

lemma implausible_steady: "triple clk (steady clk S T) (implausible clk ts) (\<lambda>_. steady clk S T)"
  unfolding implausible_def by (rule keeps_steady) (intro clear_clock clear_self clear_ret)

lemma append_row_steady: "triple clk (steady clk {} {}) (append_row f clk ev) (\<lambda>_. steady clk {} {})"
proof -
  define hour where "hour = hour_start (rw_ts ev)"
  have none: "steady clk {} {} w" if "steady clk S T w" for S T w using that by (rule steady_fewer) auto
  have enter: "triple clk (steady clk {k. confirmed_by c k} {hour}) (bind_io (enter_hour f clk hour) (\<lambda>_. admit f clk ev))
      (\<lambda>_. steady clk {} {})" if "confirmed_by c hour" for c
    using that by (intro triple_bind [OF enter_hour_steady] triple_post [OF admit_steady] none) auto
  have held: "triple clk (steady clk {k. confirmed_by c k} {hour}) (hold f clk hour ev) (\<lambda>_. steady clk {} {})" for c
    by (rule triple_post [OF hold_steady none]) simp_all
  have ask: "triple clk (steady clk {} {hour}) (bind_io (ask_oracle clk (rw_ts ev)) (\<lambda>c.
      bind_io (drain f clk hour c) (\<lambda>_. if \<not> confirmed_by c hour then hold f clk hour ev
        else bind_io (enter_hour f clk hour) (\<lambda>_. admit f clk ev)))) (\<lambda>_. steady clk {} {})"
    by (rule triple_bind [OF ask_oracle_steady], rule triple_bind [OF drain_steady], simp, rule triple_if)
      (simp_all add: enter held)
  have go: "triple clk (steady clk {} {}) (bind_io self (\<lambda>w.
            if (case floor_of w of None \<Rightarrow> False | Some fl \<Rightarrow> hour < fl) then ret ()
            else if wr_oracle w = None
            then bind_io (enter_hour f clk hour) (\<lambda>_. admit f clk ev)
            else bind_io (ask_oracle clk (rw_ts ev)) (\<lambda>c.
                 bind_io (drain f clk hour c) (\<lambda>_.
                   if \<not> confirmed_by c hour then hold f clk hour ev
                   else bind_io (enter_hour f clk hour) (\<lambda>_. admit f clk ev))))) (\<lambda>_. steady clk {} {})"
  proof (rule triple_self, rule triple_if, goal_cases)
    case (1 w0)
    then show ?case by (intro triple_ret) simp
  next
    case (2 w0)
    then have "past_floor (floor_of w0) hour" by (auto simp: past_floor_def split: option.splits)
    with 2(1) have "steady clk {} {hour} w0" by (rule steady_floor)
    then show ?case unfolding if_not_P [OF steady_oracle [OF 2(1)]] by (rule triple_here [OF ask])
  qed
  show ?thesis unfolding append_row_def Let_def hour_def [symmetric]
    by (rule triple_bind [OF implausible_steady], rule triple_if, rule steady_same, simp add: refuse_ts_def,
        rule triple_bind [OF steady_same go], simp)
qed

lemma close_writer_steady: "triple clk (steady clk {} {}) (close_writer f) (\<lambda>_. steady clk {} {})"
  unfolding close_writer_def
  by (intro triple_bind [OF flush_steady] triple_look triple_bind [OF triple_each] triple_if triple_ret spill_held_steady
      steady_held) simp_all

lemma peer_seen_steady: "triple clk (steady clk {} {}) (peer_seen clk s ts) (\<lambda>_. steady clk {} {})"
  by (rule keeps_steady [OF peer_seen_clear])
section \<open>Starting\<close>

lemma closed_hours_run:
  "\<exists>r. closed_hours clk hs w = (Done r, w\<lparr>wr_reads := wr_reads w + length hs\<rparr>) \<and>
     (mono clk \<longrightarrow> {h \<in> set hs. h \<le> horizon clk w} \<subseteq> set r)"
proof (induction hs arbitrary: w)
  case Nil
  show ?case by (simp add: ret_def)
next
  case (Cons h hs)
  let ?w = "w\<lparr>wr_reads := wr_reads w + 1\<rparr>"
  obtain r where r: "closed_hours clk hs ?w = (Done r, ?w\<lparr>wr_reads := wr_reads ?w + length hs\<rparr>)"
    "mono clk \<longrightarrow> {h \<in> set hs. h \<le> horizon clk ?w} \<subseteq> set r" using Cons.IH by blast
  have "horizon clk w \<le> horizon clk ?w" if "mono clk" using that by (simp add: horizon_def monoD)
  with r show ?case by (auto simp: bind_io_def utcnow_def ret_def horizon_def)
qed

lemma foldr_max: "h \<in> set hs \<Longrightarrow> h \<le> foldr max hs (x :: int)"
  by (induction hs) auto

lemma recover_floor_steady:
  "triple clk (\<lambda>w. (\<exists>o1. wr_oracle w = Some o1 \<and> oracle_ok (horizon clk w) o1) \<and> wr_hour w = None \<and> wr_held w = [])
     (bind_io self (\<lambda>w. bind_io (closed_hours clk (segment_hours w)) (\<lambda>hours.
        modify (\<lambda>w. w\<lparr>wr_floor := (if hours = [] then None else Some (foldr max hours (hd hours) + ONE_HOUR))\<rparr>))))
     (\<lambda>_. steady clk {} {})"
  unfolding triple_def
proof (intro impI allI, elim conjE exE)
  fix w r w' o1
  assume clk: "mono clk" and sound: "sound clk w" and o1: "wr_oracle w = Some o1" "oracle_ok (horizon clk w) o1"
    and w: "wr_hour w = None" "wr_held w = []"
    and run: "bind_io self (\<lambda>w. bind_io (closed_hours clk (segment_hours w)) (\<lambda>hours.
        modify (\<lambda>w. w\<lparr>wr_floor := (if hours = [] then None else Some (foldr max hours (hd hours) + ONE_HOUR))\<rparr>))) w = (r, w')"
  obtain hours where hours: "closed_hours clk (segment_hours w) w = (Done hours, w\<lparr>wr_reads := wr_reads w + length (segment_hours w)\<rparr>)"
    "{h \<in> set (segment_hours w). h \<le> horizon clk w} \<subseteq> set hours" using closed_hours_run clk by blast
  define b where "b = (if hours = [] then None else Some (foldr max hours (hd hours) + ONE_HOUR))"
  have w': "w' = w\<lparr>wr_reads := wr_reads w + length (segment_hours w), wr_floor := b\<rparr>"
    using run hours(1) by (simp add: bind_io_def self_def modify_def b_def)
  have later: "horizon clk w \<le> horizon clk w'" using clk by (simp add: w' horizon_def monoD)
  have unmerged: "unmerged (files_at w h)" if "past_floor b h" for h
  proof (rule ccontr)
    assume *: "\<not> unmerged (files_at w h)"
    with sound have "h \<in> set (dk_hours (wr_disk w))" "h \<le> horizon clk w"
      by (auto simp: sound_def sound_disk_def occupied_def busy_def unmerged_def files_at_def)
    with * hours(2) have "h \<in> set hours" by (auto simp: segment_hours_def unmerged_def)
    with foldr_max [OF this, of "hd hours"] that show False by (auto simp: b_def past_floor_def ONE_HOUR_def split: if_splits)
  qed
  have "idle clk b {} w'"
    using o1 w unmerged later by (auto simp: clear_def w' files_at_def intro: oracle_ok_later)
  then have "steady clk {} {} w'" by (rule steady_idle) simp
  moreover have "sound clk w'" using sound later by (auto simp: sound_def w' intro: sound_disk_later)
  ultimately show "sound clk w' \<and> all_evolve (wr_disk w) (wr_disk w') \<and> (\<forall>a. r = Done a \<longrightarrow> steady clk {} {} w')"
    by (simp add: w')
qed

lemma start_writer_steady:
  "triple clk (\<lambda>w. wr_oracle w = Some new_oracle \<and> wr_hour w = None \<and> wr_held w = []) (start_writer f clk)
     (\<lambda>_. steady clk {} {})"
proof -
  let ?P = "\<lambda>w. wr_oracle w = Some new_oracle \<and> wr_hour w = None \<and> wr_held w = []"
  have clock: "triple clk ?P (utcnow clk) (\<lambda>_. ?P)"
    unfolding triple_def
  proof (intro impI allI)
    fix w r w' assume "mono clk" "sound clk w" "?P w" and u: "utcnow clk w = (r, w')"
    moreover have "horizon clk w \<le> horizon clk w'" using \<open>mono clk\<close> u by (auto simp: utcnow_def horizon_def monoD)
    ultimately show "sound clk w' \<and> all_evolve (wr_disk w) (wr_disk w') \<and> (\<forall>a. r = Done a \<longrightarrow> ?P w')"
      by (auto simp: utcnow_def sound_def intro: sound_disk_later)
  qed
  have files: "triple clk ?P (on_disk (recover_files f)) (\<lambda>_. ?P)"
    unfolding triple_def
  proof (intro impI allI)
    fix w r w' assume "sound clk w" "?P w" "on_disk (recover_files f) w = (r, w')"
    with recover_files_sound [of "horizon clk w" "wr_disk w" f]
    show "sound clk w' \<and> all_evolve (wr_disk w) (wr_disk w') \<and> (\<forall>a. r = Done a \<longrightarrow> ?P w')"
      by (auto simp: on_disk_def sound_def sound_step_def horizon_def split: prod.splits)
  qed
  have "triple clk ?P (bind_io self (\<lambda>w. bind_io (closed_hours clk (segment_hours w)) (\<lambda>hours.
        modify (\<lambda>w. w\<lparr>wr_floor := (if hours = [] then None else Some (foldr max hours (hd hours) + ONE_HOUR))\<rparr>))))
      (\<lambda>_. steady clk {} {})"
    by (rule triple_pre [OF recover_floor_steady]) (simp add: oracle_ok_def new_oracle_def)
  note floor = this
  have anchored: "triple clk ?P (modify (\<lambda>w. w\<lparr>wr_max_at := now\<rparr>)) (\<lambda>_. ?P)" for now
    by (rule triple_modify) simp
  show ?thesis unfolding start_writer_def recover_def
    by (rule triple_bind [OF clock], rule triple_bind [OF anchored], rule triple_bind [OF files floor])
qed

section \<open>Runs keep every row\<close>

definition live :: "clock \<Rightarrow> bool \<times> seg_writer \<Rightarrow> bool" where
  "live clk s \<longleftrightarrow> sound clk (snd s) \<and> (fst s \<longrightarrow> steady clk {} {} (snd s))"

lemma carry_out_live:
  assumes "triple clk P m (\<lambda>_. steady clk {} {})" and "mono clk" and "sound clk w" and "P w"
  shows "live clk (carry_out m w) \<and> all_evolve (wr_disk w) (wr_disk (snd (carry_out m w)))"
proof -
  obtain r w' where "m w = (r, w')" by force
  with assms show ?thesis by (auto simp: triple_def carry_out_def live_def)
qed

lemma stream_step_live:
  assumes "mono clk" and "live clk s"
  shows "live clk (stream_step f clk op s) \<and> all_evolve (wr_disk (snd s)) (wr_disk (snd (stream_step f clk op s)))"
proof -
  obtain up w where s: "s = (up, w)" by force
  have sound: "sound clk w" using assms(2) by (simp add: s live_def)
  have again: "live clk (stream_step f clk (Restart q) s) \<and>
      all_evolve (wr_disk w) (wr_disk (snd (stream_step f clk (Restart q) s)))" for q
    using carry_out_live [OF start_writer_steady assms(1),
        of "blank_writer (Some new_oracle) (wr_stream w) (wr_flush_rows w) (wr_dedup w) q (wr_reads w) (wr_disk w)" f] sound
    by (simp add: s blank_writer_def sound_def horizon_def)
  show ?thesis
  proof (cases "\<exists>q. op = Restart q")
    case True
    with again show ?thesis by (auto simp: s)
  next
    case False
    show ?thesis
    proof (cases up)
      case True
      with assms(2) have w: "steady clk {} {} w" by (simp add: s live_def)
      from carry_out_live [OF append_row_steady assms(1) sound w] carry_out_live [OF close_writer_steady assms(1) sound w]
        carry_out_live [OF peer_seen_steady assms(1) sound w] False True
      show ?thesis by (cases op) (simp_all add: s)
    qed (use assms(2) False in \<open>cases op; simp add: s\<close>)
  qed
qed

lemma stream_fold_live:
  assumes "mono clk" and "live clk s"
  shows "live clk (fold (stream_step f clk) ops s) \<and> all_evolve (wr_disk (snd s)) (wr_disk (snd (fold (stream_step f clk) ops s)))"
  using assms(2)
proof (induction ops arbitrary: s)
  case (Cons op ops)
  have step: "live clk (stream_step f clk op s)" "all_evolve (wr_disk (snd s)) (wr_disk (snd (stream_step f clk op s)))"
    using stream_step_live [OF assms(1) Cons.prems, of f op] by blast+
  from Cons.IH [OF step(1)] show ?case by (simp only: fold_simps) (blast intro: all_evolve_trans [OF step(2)])
qed simp

lemma first_writer_live: "live clk (False, first_writer s flush_rows dedup)"
proof -
  have "sound_disk b empty_disk" for b
    unfolding sound_disk_def using empty_healthy by (simp add: occupied_def busy_def empty_disk_def no_files_def)
  then show ?thesis by (simp add: live_def first_writer_def blank_writer_def sound_def)
qed

lemma stream_run_healthy:
  assumes "mono clk"
  shows "all_healthy (wr_disk (stream_run f clk ops (first_writer s flush_rows dedup)))"
  using stream_fold_live [OF assms first_writer_live, of f ops s flush_rows dedup]
  by (simp add: stream_run_def live_def sound_def sound_disk_def)

lemma stream_run_evolves:
  assumes "mono clk"
  shows "all_evolve (wr_disk (stream_run f clk ops (first_writer s flush_rows dedup)))
    (wr_disk (stream_run f clk (ops @ later) (first_writer s flush_rows dedup)))"
  using stream_fold_live [OF assms, of "fold (stream_step f clk) ops (False, first_writer s flush_rows dedup)" f later]
    stream_fold_live [OF assms first_writer_live, of f ops s flush_rows dedup] by (simp add: stream_run_def)

definition files_after :: "faults \<Rightarrow> clock \<Rightarrow> seg_writer \<Rightarrow> int \<Rightarrow> stream_op list \<Rightarrow> hour_files" where
  "files_after f clk w hour ops = files_at (stream_run f clk ops w) hour"


text \<open>A row of an hour another stream has reached, on disk at once; then a stop and a start.\<close>

definition demo_ops :: "stream_op list" where
  "demo_ops = [Restart 0, PeerSeen (''ETH'', ''book'') (2 * ONE_HOUR + 6), AppendRow (row_at (2 * ONE_HOUR + 5))]"

lemmas oracle_eval = new_oracle_def observe_def confirm_def witnesses_def HOUR_QUORUM_def ask_oracle_def drain_def confirmed_by_def

lemma demo_files:
  "hf_parts (files_after (\<lambda>_. Fine) (\<lambda>_. 2 * ONE_HOUR) (first_writer (''BTC'', ''book'') 1 False) (2 * ONE_HOUR) demo_ops) =
     [(0, Readable [row_at (2 * ONE_HOUR + 5)])]"
  by (simp add: files_after_def stream_run_def demo_ops_def first_writer_def carry_out_def peer_seen_def oracle_eval writer_eval
      io_eval Let_def row_at_def)


end
