(* ===== verification/Flatten.thy ===== *)
theory Flatten imports Instruments Assets "HOL-Library.AList"
begin

text \<open>
  The red button, \<open>cli/engine/flatten.py\<close>: cancel every order, close every margin position, sell every balance
  that is not euro, then read the account afresh and judge it. The venue's client is a record of answers, each a
  function of how many requests were made so far; the requests are the log. An attribute of an answer may be
  absent, and a figure may not be a number. What the run prints and journals is not kept, except the rows that
  decide the exit code.
\<close>

section \<open>What the venue answers\<close>

datatype 'a answer = Failed | Answer 'a

datatype figure = Absent | NotNumber | Number pyfloat

record raw_position =
  rp_id :: "string option"
  rp_side :: "string option"
  rp_qty :: figure

text \<open>The currency of a balance row may be absent, and so may its code.\<close>

record raw_balance =
  rb_currency :: "string option option"
  rb_free :: figure

record instrument =
  it_id :: "string option"
  it_raw :: string
  it_min :: figure
  it_lot :: figure
  it_tick :: figure

datatype book_side = NoSide | NotCallable | Levels "figure list"

record raw_book =
  rk_bids :: book_side
  rk_asks :: book_side

record leg =
  lg_margin :: bool
  lg_base :: string
  lg_symbol :: string
  lg_sell :: bool
  lg_qty :: pyfloat

record order =
  od_instrument :: string
  od_client_id :: string
  od_sell :: bool
  od_qty :: pyfloat
  od_reduce_only :: bool
  od_margin :: bool

datatype request =
    AskOrders
  | AskPositions "string option"
  | AskBalances
  | AskListing
  | AskBook string
  | CancelAll
  | Submit order

type_synonym log = "request list"

record client =
  cl_orders :: "nat \<Rightarrow> nat option answer"
  cl_positions :: "nat \<Rightarrow> string option \<Rightarrow> raw_position list option answer"
  cl_balances :: "nat \<Rightarrow> raw_balance list option answer"
  cl_listing :: "nat \<Rightarrow> instrument list answer"
  cl_cached :: "nat \<Rightarrow> bool"
  cl_book :: "nat \<Rightarrow> string \<Rightarrow> raw_book option answer"
  cl_cancel :: "nat \<Rightarrow> bool"
  cl_submit :: "nat \<Rightarrow> order \<Rightarrow> bool"

section \<open>Sessions with the venue\<close>

type_synonym 'a session = "log \<Rightarrow> 'a res \<times> log"

definition give :: "'a \<Rightarrow> 'a session" where
  "give a l = (Inr a, l)"

definition fail :: "exn \<Rightarrow> 'a session" where
  "fail e l = (Inl e, l)"

definition lift :: "'a res \<Rightarrow> 'a session" where
  "lift r l = (r, l)"

definition sbind :: "'a session \<Rightarrow> ('a \<Rightarrow> 'b session) \<Rightarrow> 'b session" where
  "sbind m k l = (case m l of (Inl e, l') \<Rightarrow> (Inl e, l') | (Inr a, l') \<Rightarrow> k a l')"

text \<open>\<open>except FlattenUnreachable\<close>; any other exception goes on.\<close>

fun is_unreachable :: "exn \<Rightarrow> bool" where
  "is_unreachable (FlattenUnreachable _) = True"
| "is_unreachable _ = False"

definition unreachable_or :: "'a session \<Rightarrow> (exn \<Rightarrow> 'a session) \<Rightarrow> 'a session" where
  "unreachable_or m h l = (case m l of (Inl e, l') \<Rightarrow> if is_unreachable e then h e l' else (Inl e, l') | r \<Rightarrow> r)"

definition ask :: "request \<Rightarrow> (nat \<Rightarrow> 'a) \<Rightarrow> 'a session" where
  "ask r f l = (Inr (f (length l)), l @ [r])"

fun each_of :: "('a \<Rightarrow> 'b session) \<Rightarrow> 'a list \<Rightarrow> 'b list session" where
  "each_of m [] = give []"
| "each_of m (x # xs) = sbind (m x) (\<lambda>y. sbind (each_of m xs) (\<lambda>ys. give (y # ys)))"

section \<open>Strings\<close>

definition before_last_dot :: "string \<Rightarrow> string" where
  "before_last_dot s = (if CHR ''.'' \<in> set s then rev (tl (dropWhile (\<lambda>c. c \<noteq> CHR ''.'') (rev s))) else s)"

definition after_last_dot :: "string \<Rightarrow> string" where
  "after_last_dot s = rev (takeWhile (\<lambda>c. c \<noteq> CHR ''.'') (rev s))"

definition upper :: "string \<Rightarrow> string" where
  "upper = map ascii_upper"

definition symbol_of :: "string \<Rightarrow> string" where
  "symbol_of = before_last_dot"

definition base_of :: "string \<Rightarrow> string" where
  "base_of symbol = hd (split_slash symbol)"

definition quote_of :: "string \<Rightarrow> string res" where
  "quote_of symbol = (case split_slash symbol of _ # q # _ \<Rightarrow> Inr q | _ \<Rightarrow> Inl IndexError)"

section \<open>Reading the account\<close>

definition as_float :: "figure \<Rightarrow> pyfloat res" where
  "as_float v =
     (case v of
        Absent \<Rightarrow> Inl (FlattenUnreachable ''no readable field'')
      | NotNumber \<Rightarrow> Inl (FlattenUnreachable ''not a number'')
      | Number x \<Rightarrow> if isfinite x then Inr x else Inl (FlattenUnreachable ''not finite''))"

definition as_step :: "figure \<Rightarrow> pyfloat res" where
  "as_step v = rbind (as_float v) (\<lambda>x. if fle x (Fin 0) then Inl (FlattenUnreachable ''not a positive step'') else Inr x)"

definition required :: "'a option \<Rightarrow> 'a res" where
  "required v = (case v of None \<Rightarrow> Inl (FlattenUnreachable ''no readable field'') | Some x \<Rightarrow> Inr x)"

definition answered :: "string \<Rightarrow> 'a answer \<Rightarrow> 'a res" where
  "answered what a = (case a of Failed \<Rightarrow> Inl (FlattenUnreachable what) | Answer x \<Rightarrow> Inr x)"

record position_row =
  po_symbol :: string
  po_side :: string
  po_qty :: pyfloat

record balance_row =
  ba_code :: string
  ba_free :: pyfloat

text \<open>What a read could not see, or what says that the account is not flat.\<close>

record residual =
  re_kind :: string
  re_name :: string
  re_reason :: string

definition read_open_orders :: "client \<Rightarrow> nat session" where
  "read_open_orders c =
     sbind (ask AskOrders (cl_orders c)) (\<lambda>a.
     sbind (lift (answered ''open orders'' a)) (\<lambda>rows.
     lift (case rows of None \<Rightarrow> Inl (FlattenUnreachable ''open orders: nothing'') | Some n \<Rightarrow> Inr n)))"

definition position_row_of :: "raw_position \<Rightarrow> position_row res" where
  "position_row_of r =
     rbind (required (rp_id r)) (\<lambda>i. rbind (required (rp_side r)) (\<lambda>s. rbind (as_float (rp_qty r)) (\<lambda>q.
       Inr \<lparr>po_symbol = symbol_of i, po_side = upper (after_last_dot s), po_qty = q\<rparr>)))"

definition position_rows :: "raw_position list option \<Rightarrow> position_row list res" where
  "position_rows rows =
     (case rows of None \<Rightarrow> Inl (FlattenUnreachable ''margin positions: nothing'') | Some rs \<Rightarrow> rmap position_row_of rs)"

definition position_reports :: "client \<Rightarrow> string option \<Rightarrow> raw_position list option session" where
  "position_reports c i =
     sbind (ask (AskPositions i) (\<lambda>n. cl_positions c n i)) (\<lambda>a. lift (answered ''margin positions'' a))"

definition read_positions :: "client \<Rightarrow> position_row list session" where
  "read_positions c = sbind (position_reports c None) (\<lambda>a. lift (position_rows a))"

type_synonym listing = "(string \<times> instrument) list"

text \<open>One basket pair at a time; the first pair whose read fails before any succeeded gives the whole up.\<close>

fun pairs_in_turn :: "client \<Rightarrow> listing \<Rightarrow> exn \<Rightarrow> string list \<Rightarrow> bool \<Rightarrow> position_row list \<Rightarrow> residual list \<Rightarrow>
    (position_row list \<times> residual list) session" where
  "pairs_in_turn c ls failure [] read_any rows unread = (if read_any then give (rows, unread) else fail failure)"
| "pairs_in_turn c ls failure (s # ss) read_any rows unread =
     (case map_of ls s of
        None \<Rightarrow> pairs_in_turn c ls failure ss read_any rows
                  (unread @ [\<lparr>re_kind = ''position'', re_name = s, re_reason = ''position_unread''\<rparr>])
      | Some row \<Rightarrow>
          sbind (unreachable_or
                   (sbind (sbind (position_reports c (it_id row)) (\<lambda>a. lift (position_rows a))) (\<lambda>ps. give (Some ps)))
                   (\<lambda>_. give None)) (\<lambda>got.
          case got of
            Some ps \<Rightarrow> pairs_in_turn c ls failure ss True (rows @ ps) unread
          | None \<Rightarrow> if \<not> read_any then fail failure
                    else pairs_in_turn c ls failure ss read_any rows
                           (unread @ [\<lparr>re_kind = ''position'', re_name = s, re_reason = ''position_unread''\<rparr>])))"

definition positions_pair_by_pair :: "client \<Rightarrow> listing \<Rightarrow> exn \<Rightarrow> (position_row list \<times> residual list) session" where
  "positions_pair_by_pair c ls failure =
     pairs_in_turn c ls failure BASKET False [] [\<lparr>re_kind = ''position'', re_name = [], re_reason = ''positions_unreadable''\<rparr>]"

text \<open>Only the request itself falls back to single pairs; a refused shape of the whole answer is raised.\<close>

definition read_margin_positions :: "client \<Rightarrow> listing \<Rightarrow> (position_row list \<times> residual list) session" where
  "read_margin_positions c ls =
     sbind (unreachable_or (sbind (position_reports c None) (\<lambda>a. give (Inr a))) (\<lambda>e. give (Inl e))) (\<lambda>got.
     case got of
       Inl failure \<Rightarrow> positions_pair_by_pair c ls failure
     | Inr a \<Rightarrow> sbind (lift (position_rows a)) (\<lambda>ps. give (ps, [])))"

definition balance_row_of :: "raw_balance \<Rightarrow> balance_row res" where
  "balance_row_of r =
     rbind (required (rb_currency r)) (\<lambda>cur. rbind (required cur) (\<lambda>code. rbind (as_float (rb_free r)) (\<lambda>free.
       Inr \<lparr>ba_code = code, ba_free = free\<rparr>)))"

definition read_balances :: "client \<Rightarrow> balance_row list session" where
  "read_balances c =
     sbind (ask AskBalances (cl_balances c)) (\<lambda>a.
     sbind (lift (answered ''spot balances'' a)) (\<lambda>state.
     sbind (lift (required state)) (\<lambda>rows. lift (rmap balance_row_of rows))))"

text \<open>Rows spelled as their own symbol first, the other key last; the map keeps the last row of a symbol.\<close>

definition own_spelling :: "instrument \<Rightarrow> bool" where
  "own_spelling r = (case it_id r of None \<Rightarrow> False | Some i \<Rightarrow> it_raw r = filter (\<lambda>c. c \<noteq> CHR ''/'') (symbol_of i))"

definition listing_of :: "instrument list \<Rightarrow> listing" where
  "listing_of rows =
     (let rs = filter (\<lambda>r. it_id r \<noteq> None) rows;
          sorted_rows = filter own_spelling rs @ filter (\<lambda>r. \<not> own_spelling r) rs
      in fold (\<lambda>r ls. AList.update (symbol_of (the (it_id r))) r ls) sorted_rows [])"

definition read_listing :: "client \<Rightarrow> listing session" where
  "read_listing c =
     sbind (ask AskListing (\<lambda>n. (cl_listing c n, cl_cached c n))) (\<lambda>a.
     sbind (lift (answered ''the instrument listing'' (fst a))) (\<lambda>rows.
       let ls = listing_of rows in
       if ls = [] then fail (FlattenUnreachable ''listing empty'')
       else if \<not> snd a then fail (FlattenUnreachable ''listing not cached'')
       else give ls))"

record pair_constraints =
  pc_symbol :: string
  pc_id :: string
  pc_ordermin :: pyfloat
  pc_lot :: pyfloat
  pc_tick :: pyfloat

definition constraints_for :: "string \<Rightarrow> listing \<Rightarrow> pair_constraints res" where
  "constraints_for symbol ls =
     rbind (required (map_of ls symbol)) (\<lambda>row.
     rbind (required (it_id row)) (\<lambda>i.
     rbind (as_float (it_min row)) (\<lambda>om.
     rbind (as_step (it_lot row)) (\<lambda>lot.
     rbind (as_step (it_tick row)) (\<lambda>tick.
       Inr \<lparr>pc_symbol = symbol, pc_id = i, pc_ordermin = om, pc_lot = lot, pc_tick = tick\<rparr>)))))"

definition top_price :: "book_side \<Rightarrow> pyfloat res" where
  "top_price s =
     (case s of
        NoSide \<Rightarrow> Inl (FlattenUnreachable ''no book side'')
      | NotCallable \<Rightarrow> Inl (FlattenUnreachable ''book side not callable'')
      | Levels [] \<Rightarrow> Inl (FlattenUnreachable ''empty book side'')
      | Levels (p # ps) \<Rightarrow> rbind (as_float p) (\<lambda>x. if fle x (Fin 0) then Inl (FlattenUnreachable ''not a price'') else Inr x))"

definition read_book_price :: "client \<Rightarrow> pair_constraints \<Rightarrow> bool \<Rightarrow> pyfloat session" where
  "read_book_price c pc sell =
     sbind (ask (AskBook (pc_id pc)) (\<lambda>n. cl_book c n (pc_id pc))) (\<lambda>a.
     sbind (lift (answered ''the book'' a)) (\<lambda>b.
     sbind (lift (required b)) (\<lambda>book. lift (top_price (if sell then rk_bids book else rk_asks book)))))"

section \<open>Which pair an asset is sold on\<close>

definition listed_bases :: "listing \<Rightarrow> string list" where
  "listed_bases ls = map (base_of \<circ> fst) ls"

definition choose_pair :: "string \<Rightarrow> listing \<Rightarrow> string option" where
  "choose_pair base ls = List.find (\<lambda>s. s \<in> fst ` set ls) [base @ ''/EUR'', base @ ''/BTC'']"

section \<open>Legs\<close>

definition closing_side :: "string \<Rightarrow> bool option" where
  "closing_side = map_of [(''LONG'', True), (''SHORT'', False)]"

fun margin_legs :: "position_row list \<Rightarrow> listing \<Rightarrow> leg list \<times> residual list" where
  "margin_legs [] ls = ([], [])"
| "margin_legs (p # ps) ls =
     (let (legs, out) = margin_legs ps ls in
      if po_side p = ''FLAT'' then (legs, out)
      else case closing_side (po_side p) of
        None \<Rightarrow> (legs, \<lparr>re_kind = ''position'', re_name = po_symbol p, re_reason = ''unrecognised_position_side''\<rparr> # out)
      | Some sell \<Rightarrow>
          if po_symbol p \<notin> fst ` set ls
          then (legs, \<lparr>re_kind = ''position'', re_name = po_symbol p, re_reason = ''pair_not_listed''\<rparr> # out)
          else (\<lparr>lg_margin = True, lg_base = base_of (po_symbol p), lg_symbol = po_symbol p, lg_sell = sell,
                 lg_qty = po_qty p\<rparr> # legs, out))"

definition is_euro :: "string \<Rightarrow> bool" where
  "is_euro code \<longleftrightarrow> upper code \<in> set EUR_CODES"

definition sell_pair :: "string \<Rightarrow> listing \<Rightarrow> string option" where
  "sell_pair code ls = (case resolve_base code (listed_bases ls) of None \<Rightarrow> None | Some b \<Rightarrow> choose_pair b ls)"

fun spot_legs :: "balance_row list \<Rightarrow> listing \<Rightarrow> leg list \<times> residual list" where
  "spot_legs [] ls = ([], [])"
| "spot_legs (b # bs) ls =
     (let (legs, out) = spot_legs bs ls in
      if is_euro (ba_code b) \<or> fle (ba_free b) (Fin 0) then (legs, out)
      else case resolve_base (ba_code b) (listed_bases ls) of
        None \<Rightarrow> (legs, \<lparr>re_kind = ''balance'', re_name = ba_code b, re_reason = ''no_eur_or_btc_pair''\<rparr> # out)
      | Some base \<Rightarrow>
          (case choose_pair base ls of
             None \<Rightarrow> (legs, \<lparr>re_kind = ''balance'', re_name = ba_code b, re_reason = ''no_eur_or_btc_pair''\<rparr> # out)
           | Some s \<Rightarrow> (\<lparr>lg_margin = False, lg_base = base, lg_symbol = s, lg_sell = True, lg_qty = ba_free b\<rparr> # legs, out)))"

section \<open>Sizing\<close>

record sized_leg =
  sl_leg :: leg
  sl_qty :: pyfloat
  sl_price :: "pyfloat option"
  sl_send :: bool
  sl_reason :: "string option"

definition costmin_for :: "string \<Rightarrow> pyfloat option res" where
  "costmin_for symbol =
     (case COSTMIN symbol of
        None \<Rightarrow> Inr None
      | Some (amount, q) \<Rightarrow> rbind (quote_of symbol) (\<lambda>q'. Inr (if q = q' then Some amount else None)))"

definition tick_floored :: "pyfloat option \<Rightarrow> pair_constraints \<Rightarrow> pyfloat option res" where
  "tick_floored ref pc =
     (case ref of
        None \<Rightarrow> Inr None
      | Some r \<Rightarrow> rbind (floor_to_step r (pc_tick pc)) (\<lambda>price. Inr (if fgt price (Fin 0) then Some price else None)))"

definition size_amount :: "pyfloat \<Rightarrow> pair_constraints \<Rightarrow> pyfloat option \<Rightarrow> sizing res" where
  "size_amount free pc ref =
     rbind (tick_floored ref pc) (\<lambda>price.
     rbind (costmin_for (pc_symbol pc)) (\<lambda>costmin.
       size_order free (case price of None \<Rightarrow> Fin 0 | Some p \<Rightarrow> p) (pc_ordermin pc)
         (case (costmin, price) of (Some m, Some _) \<Rightarrow> m | _ \<Rightarrow> Fin 0) (pc_lot pc) (pc_tick pc)))"

fun is_below :: "sizing \<Rightarrow> bool" where
  "is_below (Below _) = True"
| "is_below (Sized _) = False"

datatype standing = Flat | Dust | Residual

definition classify_balance :: "pyfloat \<Rightarrow> pair_constraints \<Rightarrow> pyfloat option \<Rightarrow> standing res" where
  "classify_balance free pc ref =
     (if fle free (Fin 0) then Inr Flat
      else rbind (size_amount free pc ref) (\<lambda>s. Inr (if is_below s then Dust else Residual)))"

definition BALANCE_UNIT :: rat where
  "BALANCE_UNIT = 1 / 100000000"

definition shave :: "pyfloat \<Rightarrow> pyfloat" where
  "shave q = (case q of Fin x \<Rightarrow> fround (dec28 (repr_value x - BALANCE_UNIT)) | _ \<Rightarrow> q)"

definition size_leg :: "leg \<Rightarrow> pair_constraints \<Rightarrow> pyfloat option \<Rightarrow> sized_leg res" where
  "size_leg lg pc ref =
     rbind (quote_of (pc_symbol pc)) (\<lambda>_.
     rbind (floor_to_step (lg_qty lg) (pc_lot pc)) (\<lambda>qty.
     rbind (tick_floored ref pc) (\<lambda>price.
       let sized = (\<lambda>q send reason. \<lparr>sl_leg = lg, sl_qty = q, sl_price = price, sl_send = send, sl_reason = reason\<rparr>) in
       if lg_margin lg
       then Inr (if fle qty (Fin 0) then sized qty False (Some ''unclosable_below_minimum'') else sized qty True None)
       else rbind (classify_balance (lg_qty lg) pc price) (\<lambda>st.
         if st \<noteq> Residual then Inr (sized qty False (Some ''dust_below_venue_minimum''))
         else rbind (floor_to_step (shave qty) (pc_lot pc)) (\<lambda>shaved.
           if fgt shaved (Fin 0)
           then rbind (size_amount shaved pc price) (\<lambda>s. Inr (sized (if is_below s then qty else shaved) True None))
           else Inr (sized qty True None))))))"

section \<open>The plan\<close>

record snapshot =
  sn_orders :: "nat option"
  sn_positions :: "position_row list"
  sn_balances :: "balance_row list"
  sn_unread :: "residual list"

definition read_snapshot :: "client \<Rightarrow> listing \<Rightarrow> bool \<Rightarrow> snapshot session" where
  "read_snapshot c ls before_the_cancel =
     sbind (unreachable_or (sbind (read_open_orders c) (\<lambda>n. give (Some n)))
              (\<lambda>e. if before_the_cancel then give None else fail e)) (\<lambda>orders.
     sbind (read_margin_positions c ls) (\<lambda>ps.
     sbind (read_balances c) (\<lambda>bs.
       give \<lparr>sn_orders = orders, sn_positions = fst ps, sn_balances = bs,
             sn_unread = (if orders = None then [\<lparr>re_kind = ''order'', re_name = [], re_reason = ''orders_unread''\<rparr>] else []) @ snd ps\<rparr>)))"

record flatten_plan =
  pl_margin :: "sized_leg list"
  pl_spot :: "sized_leg list"
  pl_prices :: "string \<Rightarrow> pyfloat option"
  pl_constraints :: "string \<Rightarrow> pair_constraints option"
  pl_unread :: "residual list"

text \<open>One book per pair, in the order the legs come; the first leg fixes the side.\<close>

fun wanted_of :: "(string \<times> bool) list \<Rightarrow> (string \<times> bool) list \<Rightarrow> (string \<times> bool) list" where
  "wanted_of [] ws = ws"
| "wanted_of ((s, sell) # rest) ws = wanted_of rest (if map_of ws s = None then ws @ [(s, sell)] else ws)"

definition wanted_books :: "leg list \<Rightarrow> leg list \<Rightarrow> listing \<Rightarrow> (string \<times> bool) list" where
  "wanted_books margin spot ls =
     wanted_of (map (\<lambda>g. (lg_symbol g, lg_sell g)) (margin @ spot) @
        (if (\<exists>g\<in>set spot. drop (length (lg_symbol g) - 4) (lg_symbol g) = ''/BTC'') \<and> ''BTC/EUR'' \<in> fst ` set ls
         then [(''BTC/EUR'', True)] else [])) []"

definition price_of :: "client \<Rightarrow> pair_constraints \<Rightarrow> bool \<Rightarrow> pyfloat option session" where
  "price_of c pc sell = unreachable_or (sbind (read_book_price c pc sell) (\<lambda>p. give (Some p))) (\<lambda>_. give None)"

definition build_plan :: "client \<Rightarrow> snapshot \<Rightarrow> listing \<Rightarrow> flatten_plan session" where
  "build_plan c sn ls =
     (let margin = fst (margin_legs (sn_positions sn) ls); spot = fst (spot_legs (sn_balances sn) ls);
          wanted = wanted_books margin spot ls in
      sbind (lift (rmap (\<lambda>(s, sell). rbind (constraints_for s ls) (\<lambda>pc. Inr (s, pc))) wanted)) (\<lambda>pcs.
      sbind (each_of (\<lambda>(s, sell). sbind (price_of c (the (map_of pcs s)) sell) (\<lambda>p. give (s, p))) wanted) (\<lambda>ps.
        let price = (\<lambda>s. case map_of ps s of None \<Rightarrow> None | Some p \<Rightarrow> p);
            size = (\<lambda>g. size_leg g (the (map_of pcs (lg_symbol g))) (price (lg_symbol g))) in
        sbind (lift (rmap size margin)) (\<lambda>m. sbind (lift (rmap size spot)) (\<lambda>sp.
          give \<lparr>pl_margin = m, pl_spot = sp, pl_prices = price, pl_constraints = map_of pcs, pl_unread = sn_unread sn\<rparr>)))))"

section \<open>The sweep\<close>

text \<open>\<open>stamp\<close> is the run's start as \<open>%y%m%d%H%M%S\<close>.\<close>

definition mint_client_order_id :: "string \<Rightarrow> nat \<Rightarrow> string" where
  "mint_client_order_id stamp index = ''FLT'' @ stamp @ ''-'' @ digits index"

definition order_of :: "sized_leg \<Rightarrow> pair_constraints \<Rightarrow> string \<Rightarrow> order" where
  "order_of sl pc cid =
     \<lparr>od_instrument = pc_id pc, od_client_id = cid, od_sell = lg_sell (sl_leg sl), od_qty = sl_qty sl,
      od_reduce_only = lg_margin (sl_leg sl), od_margin = lg_margin (sl_leg sl)\<rparr>"

record outcome_row =
  oc_leg :: leg
  oc_qty :: pyfloat
  oc_client_id :: "string option"
  oc_sent :: bool
  oc_reason :: "string option"
  oc_accepted :: bool

definition send_leg :: "client \<Rightarrow> string \<Rightarrow> nat \<Rightarrow> sized_leg \<times> pair_constraints \<Rightarrow> outcome_row session" where
  "send_leg c stamp index p =
     (let sl = fst p; pc = snd p; cid = mint_client_order_id stamp index; od = order_of sl pc cid in
      if \<not> sl_send sl
      then give \<lparr>oc_leg = sl_leg sl, oc_qty = sl_qty sl, oc_client_id = None, oc_sent = False, oc_reason = sl_reason sl,
                 oc_accepted = False\<rparr>
      else sbind (ask (Submit od) (\<lambda>n. cl_submit c n od)) (\<lambda>ok.
             give \<lparr>oc_leg = sl_leg sl, oc_qty = sl_qty sl, oc_client_id = Some cid, oc_sent = True,
                   oc_reason = (if \<not> ok \<and> lg_margin (sl_leg sl) \<and> flt (sl_qty sl) (pc_ordermin pc) then Some ''unclosable_below_minimum''
                                else if sl_price sl = None then Some ''no_reference_price'' else None),
                   oc_accepted = ok\<rparr>))"

fun send_all :: "client \<Rightarrow> string \<Rightarrow> nat \<Rightarrow> (sized_leg \<times> pair_constraints) list \<Rightarrow> outcome_row list session" where
  "send_all c stamp index [] = give []"
| "send_all c stamp index (p # ps) =
     sbind (send_leg c stamp (index + 1) p) (\<lambda>o1. sbind (send_all c stamp (index + 1) ps) (\<lambda>os. give (o1 # os)))"

definition sized_with_constraints :: "leg list \<Rightarrow> listing \<Rightarrow> flatten_plan \<Rightarrow> (sized_leg \<times> pair_constraints) list res" where
  "sized_with_constraints legs ls pl =
     rmap (\<lambda>g. rbind (case pl_constraints pl (lg_symbol g) of Some pc \<Rightarrow> Inr pc | None \<Rightarrow> constraints_for (lg_symbol g) ls) (\<lambda>pc.
                rbind (size_leg g pc (pl_prices pl (lg_symbol g))) (\<lambda>sl. Inr (sl, pc)))) legs"

definition for_the_record :: "'a session \<Rightarrow> unit session" where
  "for_the_record m = unreachable_or (sbind m (\<lambda>_. give ())) (\<lambda>_. give ())"

definition spot_pass :: "client \<Rightarrow> listing \<Rightarrow> flatten_plan \<Rightarrow> string \<Rightarrow> nat \<Rightarrow> outcome_row list session" where
  "spot_pass c ls pl stamp index =
     sbind (read_balances c) (\<lambda>bs.
     sbind (lift (sized_with_constraints (fst (spot_legs bs ls)) ls pl)) (\<lambda>legs. send_all c stamp index legs))"

record sweep_result =
  sw_cancel_ok :: bool
  sw_failed_read :: bool
  sw_final :: "snapshot option"

text \<open>Everything after the cancel; a failed read ends it.\<close>

definition after_cancel :: "client \<Rightarrow> flatten_plan \<Rightarrow> listing \<Rightarrow> string \<Rightarrow> snapshot session" where
  "after_cancel c pl ls stamp =
     sbind (for_the_record (read_open_orders c)) (\<lambda>_.
     sbind (read_margin_positions c ls) (\<lambda>ps.
     sbind (lift (sized_with_constraints (fst (margin_legs (fst ps) ls)) ls pl)) (\<lambda>legs.
     sbind (send_all c stamp 0 legs) (\<lambda>closed.
     sbind (for_the_record (read_positions c)) (\<lambda>_.
     sbind (spot_pass c ls pl stamp (length closed)) (\<lambda>sold.
     sbind (spot_pass c ls pl stamp (length closed + length sold)) (\<lambda>_.
     read_snapshot c ls False)))))))"

definition sweep_account :: "client \<Rightarrow> flatten_plan \<Rightarrow> listing \<Rightarrow> string \<Rightarrow> sweep_result session" where
  "sweep_account c pl ls stamp =
     sbind (ask CancelAll (cl_cancel c)) (\<lambda>ok.
     unreachable_or
       (sbind (after_cancel c pl ls stamp) (\<lambda>final. give \<lparr>sw_cancel_ok = ok, sw_failed_read = False, sw_final = Some final\<rparr>))
       (\<lambda>_. give \<lparr>sw_cancel_ok = ok, sw_failed_read = True, sw_final = None\<rparr>))"

section \<open>The verdict\<close>

definition position_residuals :: "position_row list \<Rightarrow> listing \<Rightarrow> residual list" where
  "position_residuals ps ls =
     map (\<lambda>p. \<lparr>re_kind = ''position'', re_name = po_symbol p,
       re_reason = (if po_side p \<noteq> ''LONG'' \<and> po_side p \<noteq> ''SHORT'' then ''unrecognised_position_side''
                    else if po_symbol p \<notin> fst ` set ls then ''pair_not_listed'' else ''open_position'')\<rparr>)
       (filter (\<lambda>p. po_side p \<noteq> ''FLAT'') ps)"

definition balance_residual :: "listing \<Rightarrow> (string \<Rightarrow> pyfloat option) \<Rightarrow> balance_row \<Rightarrow> residual list res" where
  "balance_residual ls prices b =
     (let row = (\<lambda>reason. [\<lparr>re_kind = ''balance'', re_name = ba_code b, re_reason = reason\<rparr>]) in
      if is_euro (ba_code b) \<or> fle (ba_free b) (Fin 0) then Inr []
      else case sell_pair (ba_code b) ls of
        None \<Rightarrow> Inr (row ''no_eur_or_btc_pair'')
      | Some s \<Rightarrow>
          (case constraints_for s ls of
             Inl e \<Rightarrow> if is_unreachable e then Inr (row ''unjudgeable'') else Inl e
           | Inr pc \<Rightarrow> rbind (classify_balance (ba_free b) pc (prices s)) (\<lambda>st.
                Inr (if st = Residual then row ''sellable_balance'' else []))))"

definition judge_final :: "snapshot \<Rightarrow> listing \<Rightarrow> (string \<Rightarrow> pyfloat option) \<Rightarrow> residual list res" where
  "judge_final final ls prices =
     rbind (rmap (balance_residual ls prices) (sn_balances final)) (\<lambda>bals.
       Inr ((case sn_orders final of
               Some n \<Rightarrow> if 0 < n then [\<lparr>re_kind = ''order'', re_name = [], re_reason = ''resting_order''\<rparr>] else []
             | None \<Rightarrow> []) @
            position_residuals (sn_positions final) ls @ sn_unread final @ concat bals))"

definition exit_code :: "sweep_result \<Rightarrow> residual list \<Rightarrow> bool \<Rightarrow> int" where
  "exit_code r residuals read_whole =
     (if sw_failed_read r \<or> \<not> sw_cancel_ok r \<or> residuals \<noteq> [] \<or> \<not> read_whole then 2 else 0)"

section \<open>The button\<close>

record setting =
  st_kill_file :: bool
  st_terminal :: bool
  st_venue_online :: bool
  st_plan_shown :: bool
  st_reply :: "string option"
  st_stamp :: string

definition CONFIRM_WORD :: string where
  "CONFIRM_WORD = ''FLATTEN''"

definition is_blank :: "char \<Rightarrow> bool" where
  "is_blank ch \<longleftrightarrow> ch \<in> {CHR '' '', char_of (9 :: nat), char_of (10 :: nat), char_of (11 :: nat), char_of (12 :: nat), char_of (13 :: nat),
     char_of (28 :: nat), char_of (29 :: nat), char_of (30 :: nat), char_of (31 :: nat), char_of (133 :: nat), char_of (160 :: nat)}"

definition strip :: "string \<Rightarrow> string" where
  "strip s = rev (dropWhile is_blank (rev (dropWhile is_blank s)))"

definition matches_confirm :: "string \<Rightarrow> bool" where
  "matches_confirm reply \<longleftrightarrow> strip reply = CONFIRM_WORD"

definition pre_write_reads :: "client \<Rightarrow> (listing \<times> flatten_plan) session" where
  "pre_write_reads c =
     sbind (read_listing c) (\<lambda>ls. sbind (read_snapshot c ls True) (\<lambda>sn. sbind (build_plan c sn ls) (\<lambda>pl. give (ls, pl))))"

definition sweep_and_judge :: "client \<Rightarrow> setting \<Rightarrow> listing \<Rightarrow> flatten_plan \<Rightarrow> int session" where
  "sweep_and_judge c e ls pl =
     sbind (sweep_account c pl ls (st_stamp e)) (\<lambda>r.
     sbind (lift (case sw_final r of None \<Rightarrow> Inr [] | Some final \<Rightarrow> judge_final final ls (pl_prices pl))) (\<lambda>residuals.
       give (exit_code r residuals (pl_unread pl = []))))"

definition run_flatten :: "client \<Rightarrow> setting \<Rightarrow> bool \<Rightarrow> int session" where
  "run_flatten c e execute =
     (if execute \<and> \<not> st_kill_file e then give 1
      else if execute \<and> \<not> st_terminal e then give 1
      else if \<not> st_venue_online e then give 3
      else sbind (unreachable_or (sbind (pre_write_reads c) (\<lambda>p. give (Some p))) (\<lambda>_. give None)) (\<lambda>got.
        case got of
          None \<Rightarrow> give 3
        | Some (ls, pl) \<Rightarrow>
            if \<not> st_plan_shown e then give 1
            else if \<not> execute then give 0
            else case st_reply e of
                None \<Rightarrow> give 1
              | Some reply \<Rightarrow> if \<not> matches_confirm reply then give 1 else sweep_and_judge c e ls pl))"
section \<open>What a session adds to the log\<close>

definition adds :: "(request \<Rightarrow> bool) \<Rightarrow> 'a session \<Rightarrow> bool" where
  "adds P m \<longleftrightarrow> (\<forall>l. \<exists>xs. snd (m l) = l @ xs \<and> list_all P xs)"

named_theorems adds_intros

lemma adds_quiet [adds_intros]: "adds P (give a)" "adds P (fail e)" "adds P (lift r)"
  by (auto simp: adds_def give_def fail_def lift_def intro: exI [of _ "[]"])

lemma adds_ask [adds_intros]: "P r \<Longrightarrow> adds P (ask r f)"
  by (simp add: adds_def ask_def)

lemma adds_sbind [adds_intros]:
  assumes "adds P m" and "\<And>a. adds P (k a)"
  shows "adds P (sbind m k)"
  unfolding adds_def
proof
  fix l
  obtain r l1 where m: "m l = (r, l1)" by force
  obtain xs where xs: "l1 = l @ xs" "list_all P xs" using assms(1) m unfolding adds_def by (metis snd_conv)
  show "\<exists>ys. snd (sbind m k l) = l @ ys \<and> list_all P ys"
  proof (cases r)
    case (Inl e)
    with xs m show ?thesis by (auto simp: sbind_def)
  next
    case (Inr a)
    obtain ys where "snd (k a l1) = l1 @ ys" "list_all P ys" using assms(2) unfolding adds_def by blast
    with xs m Inr show ?thesis by (auto simp: sbind_def intro: exI [of _ "xs @ ys"])
  qed
qed

lemma adds_handler [adds_intros]:
  assumes "adds P m" and "\<And>e. adds P (h e)"
  shows "adds P (unreachable_or m h)"
  unfolding adds_def
proof
  fix l
  obtain r l1 where m: "m l = (r, l1)" by force
  obtain xs where xs: "l1 = l @ xs" "list_all P xs" using assms(1) m unfolding adds_def by (metis snd_conv)
  show "\<exists>ys. snd (unreachable_or m h l) = l @ ys \<and> list_all P ys"
  proof (cases "\<exists>e. r = Inl e \<and> is_unreachable e")
    case True
    then obtain e where e: "r = Inl e" "is_unreachable e" by blast
    obtain ys where "snd (h e l1) = l1 @ ys" "list_all P ys" using assms(2) unfolding adds_def by blast
    with xs m e show ?thesis by (auto simp: unreachable_or_def intro: exI [of _ "xs @ ys"])
  next
    case False
    with xs m show ?thesis by (cases r) (auto simp: unreachable_or_def)
  qed
qed

lemma adds_each [adds_intros]: "(\<And>x. adds P (m x)) \<Longrightarrow> adds P (each_of m xs)"
  by (induction xs) (auto intro!: adds_intros)

lemma adds_if [adds_intros]: "adds P m \<Longrightarrow> adds P n \<Longrightarrow> adds P (if b then m else n)"
  by simp

lemma adds_option [adds_intros]: "adds P m \<Longrightarrow> (\<And>y. adds P (k y)) \<Longrightarrow> adds P (case v of None \<Rightarrow> m | Some y \<Rightarrow> k y)"
  by (cases v) auto

lemma adds_record [adds_intros]: "adds P m \<Longrightarrow> adds P (for_the_record m)"
  unfolding for_the_record_def by (intro adds_intros)

fun is_write :: "request \<Rightarrow> bool" where
  "is_write CancelAll = True"
| "is_write (Submit od) = True"
| "is_write _ = False"

abbreviation reads_only :: "'a session \<Rightarrow> bool" where
  "reads_only \<equiv> adds (\<lambda>r. \<not> is_write r)"

lemma position_reports_reads: "reads_only (position_reports c i)"
  unfolding position_reports_def by (intro adds_intros) simp

lemma pairs_in_turn_reads: "reads_only (pairs_in_turn c ls failure ss read_any rows unread)"
proof (induction ss arbitrary: read_any rows unread)
  case Nil
  then show ?case by (auto intro: adds_intros)
next
  case (Cons s ss)
  show ?case unfolding pairs_in_turn.simps
    by (intro adds_intros position_reports_reads Cons.IH)
qed

lemma read_margin_positions_reads: "reads_only (read_margin_positions c ls)"
proof -
  have "reads_only (case got of Inl failure \<Rightarrow> positions_pair_by_pair c ls failure
      | Inr a \<Rightarrow> sbind (lift (position_rows a)) (\<lambda>ps. give (ps, [])))" for got
    by (cases got) (auto intro!: adds_intros pairs_in_turn_reads simp: positions_pair_by_pair_def)
  then show ?thesis unfolding read_margin_positions_def by (intro adds_intros position_reports_reads)
qed

lemma account_reads:
  "reads_only (read_open_orders c)" "reads_only (read_positions c)" "reads_only (read_balances c)"
  unfolding read_open_orders_def read_positions_def read_balances_def
  by (intro adds_intros position_reports_reads; simp)+

lemma read_snapshot_reads: "reads_only (read_snapshot c ls before)"
  unfolding read_snapshot_def by (intro adds_intros account_reads read_margin_positions_reads)

lemma read_listing_reads: "reads_only (read_listing c)"
  unfolding read_listing_def Let_def by (intro adds_intros) simp

lemma build_plan_reads: "reads_only (build_plan c sn ls)"
proof -
  have price: "reads_only (price_of c pc sell)" for pc sell
    unfolding price_of_def read_book_price_def by (intro adds_intros) simp
  have one: "reads_only (case q of (s, sell) \<Rightarrow> sbind (price_of c (the (map_of pcs s)) sell) (\<lambda>p. give (s, p)))" for q pcs
    by (cases q) (auto intro!: adds_intros price)
  show ?thesis unfolding build_plan_def Let_def by (intro adds_intros one)
qed

lemma pre_write_reads_reads: "reads_only (pre_write_reads c)"
  unfolding pre_write_reads_def
  by (intro adds_intros read_listing_reads read_snapshot_reads build_plan_reads)

section \<open>The orders of a sweep\<close>

fun orders_from :: "string \<Rightarrow> nat \<Rightarrow> (sized_leg \<times> pair_constraints) list \<Rightarrow> order list" where
  "orders_from stamp i [] = []"
| "orders_from stamp i (p # ps) =
     (if sl_send (fst p) then [order_of (fst p) (snd p) (mint_client_order_id stamp (i + 1))] else []) @
     orders_from stamp (i + 1) ps"

fun order_in :: "request \<Rightarrow> order option" where
  "order_in (Submit od) = Some od"
| "order_in _ = None"

definition orders_in :: "log \<Rightarrow> order list" where
  "orders_in l = List.map_filter order_in l"

lemma orders_in_simps [simp]:
  "orders_in [] = []" "orders_in (l @ l') = orders_in l @ orders_in l'" "orders_in [Submit od] = [od]" "orders_in [CancelAll] = []"
  by (simp_all add: orders_in_def List.map_filter_def)

lemma orders_in_reads [simp]: "list_all (\<lambda>r. \<not> is_write r) xs \<Longrightarrow> orders_in xs = []"
  by (induction xs) (auto simp: orders_in_def List.map_filter_def elim!: is_write.elims)

lemma reads_log: "reads_only m \<Longrightarrow> \<exists>xs. snd (m l) = l @ xs \<and> orders_in xs = []"
  unfolding adds_def using orders_in_reads by blast

lemma send_all_orders:
  "\<exists>os xs. send_all c stamp i ps l = (Inr os, l @ xs) \<and> length os = length ps \<and> orders_in xs = orders_from stamp i ps"
proof (induction ps arbitrary: i l)
  case Nil
  show ?case by (auto simp: give_def)
next
  case (Cons p ps)
  let ?ys = "if sl_send (fst p) then [Submit (order_of (fst p) (snd p) (mint_client_order_id stamp (i + 1)))] else []"
  obtain o1 where one: "send_leg c stamp (i + 1) p l = (Inr o1, l @ ?ys)"
    by (cases "sl_send (fst p)") (simp_all add: send_leg_def Let_def give_def sbind_def ask_def)
  obtain os xs where rest: "send_all c stamp (i + 1) ps (l @ ?ys) = (Inr os, (l @ ?ys) @ xs)" "length os = length ps"
      "orders_in xs = orders_from stamp (i + 1) ps" using Cons.IH by blast
  from one rest(1) have "send_all c stamp i (p # ps) l = (Inr (o1 # os), l @ ?ys @ xs)"
    by (simp add: sbind_def give_def)
  with rest show ?case by (auto simp: sbind_def)
qed

lemma orders_from_append:
  "orders_from stamp i (ps @ qs) = orders_from stamp i ps @ orders_from stamp (i + length ps) qs"
  by (induction ps arbitrary: i) auto

text \<open>Client order ids\<close>

definition digit_value :: "string \<Rightarrow> nat" where
  "digit_value s = foldl (\<lambda>n ch. 10 * n + (of_char ch - 48)) 0 s"

lemma digit_value_digits: "digit_value (digits n) = n"
proof (induction n rule: digits.induct)
  case (1 n)
  show ?case
  proof (cases "n < 10")
    case True
    then show ?thesis by (subst digits.simps) (simp add: digit_value_def)
  next
    case False
    have "n mod 10 < 10" by simp
    then have "(48 + n mod 10) mod 256 = 48 + n mod 10" by simp
    with False 1 show ?thesis by (subst digits.simps) (simp add: digit_value_def)
  qed
qed

lemma mint_inj: "mint_client_order_id stamp i = mint_client_order_id stamp j \<Longrightarrow> i = j"
  unfolding mint_client_order_id_def by (metis append_same_eq digit_value_digits same_append_eq)

lemma orders_from_ids: "od \<in> set (orders_from stamp i ps) \<Longrightarrow> \<exists>j>i. od_client_id od = mint_client_order_id stamp j"
proof (induction ps arbitrary: i)
  case (Cons p ps)
  then consider "od_client_id od = mint_client_order_id stamp (i + 1)" | "od \<in> set (orders_from stamp (i + 1) ps)"
    by (auto simp: order_of_def split: if_splits)
  then show ?case
  proof cases
    case 2
    from Cons.IH [OF this] show ?thesis by (meson less_trans less_add_one)
  qed (meson less_add_one)
qed simp

lemma orders_from_distinct: "distinct (map od_client_id (orders_from stamp i ps))"
proof (induction ps arbitrary: i)
  case (Cons p ps)
  have "mint_client_order_id stamp (i + 1) \<noteq> od_client_id od" if "od \<in> set (orders_from stamp (i + 1) ps)" for od
    using orders_from_ids [OF that] mint_inj by (metis less_irrefl)
  with Cons.IH [of "i + 1"] show ?case by (auto simp: order_of_def)
qed simp
section \<open>Properties\<close>

definition authorised :: "setting \<Rightarrow> bool" where
  "authorised e \<longleftrightarrow> st_kill_file e \<and> st_terminal e \<and> st_venue_online e \<and> st_plan_shown e \<and>
     (case st_reply e of None \<Rightarrow> False | Some reply \<Rightarrow> matches_confirm reply)"

definition account_flat :: "listing \<Rightarrow> (string \<Rightarrow> pyfloat option) \<Rightarrow> snapshot \<Rightarrow> bool" where
  "account_flat ls prices sn \<longleftrightarrow>
     sn_orders sn = Some 0 \<and> sn_unread sn = [] \<and> (\<forall>p\<in>set (sn_positions sn). po_side p = ''FLAT'') \<and>
     (\<forall>b\<in>set (sn_balances sn). is_euro (ba_code b) \<or> fle (ba_free b) (Fin 0) \<or>
        (\<exists>s pc. sell_pair (ba_code b) ls = Some s \<and> constraints_for s ls = Inr pc \<and>
           classify_balance (ba_free b) pc (prices s) = Inr Dust))"

lemma sbind_Inr: "sbind m k l = (Inr b, l') \<longleftrightarrow> (\<exists>a l1. m l = (Inr a, l1) \<and> k a l1 = (Inr b, l'))"
  by (cases "m l"; cases "fst (m l)") (auto simp: sbind_def)

lemma session_ends [simp]:
  "give a l = (r, l') \<longleftrightarrow> r = Inr a \<and> l' = l" "fail e l = (r, l') \<longleftrightarrow> r = Inl e \<and> l' = l"
  "lift q l = (r, l') \<longleftrightarrow> q = r \<and> l' = l"
  by (auto simp: give_def fail_def lift_def)

lemma unreachable_or_Inr:
  "unreachable_or m h l = (Inr b, l') \<longleftrightarrow>
     m l = (Inr b, l') \<or> (\<exists>e l1. m l = (Inl e, l1) \<and> is_unreachable e \<and> h e l1 = (Inr b, l'))"
  by (cases "m l"; cases "fst (m l)") (auto simp: unreachable_or_def split: if_splits)

lemma rmap_concat_empty: "rmap f xs = Inr ys \<Longrightarrow> concat ys = [] \<Longrightarrow> x \<in> set xs \<Longrightarrow> f x = Inr []"
proof (induction xs arbitrary: ys)
  case (Cons a xs)
  then show ?case by (auto simp: rbind_Inr_iff)
qed simp

lemma snapshot_orders: "read_snapshot c ls False l = (Inr sn, l') \<Longrightarrow> sn_orders sn \<noteq> None"
  by (auto simp: read_snapshot_def sbind_Inr unreachable_or_Inr)

lemma balance_residual_none:
  assumes "balance_residual ls prices b = Inr []"
  shows "is_euro (ba_code b) \<or> fle (ba_free b) (Fin 0) \<or>
        (\<exists>s pc. sell_pair (ba_code b) ls = Some s \<and> constraints_for s ls = Inr pc \<and>
           classify_balance (ba_free b) pc (prices s) = Inr Dust)"
proof (rule ccontr)
  assume *: "\<not> ?thesis"
  with assms obtain s where s: "sell_pair (ba_code b) ls = Some s"
    by (auto simp: balance_residual_def Let_def split: option.splits)
  with assms * obtain pc where pc: "constraints_for s ls = Inr pc"
    by (auto simp: balance_residual_def Let_def split: sum.splits if_splits)
  with assms * s obtain st where st: "classify_balance (ba_free b) pc (prices s) = Inr st" "st \<noteq> Residual"
    by (auto simp: balance_residual_def Let_def rbind_Inr_iff split: if_splits)
  with * have "st \<noteq> Flat" by (auto simp: classify_balance_def rbind_Inr_iff split: if_splits)
  with * s pc st show False by (cases st) auto
qed

lemma judged_flat:
  assumes "judge_final sn ls prices = Inr []" and "sn_orders sn \<noteq> None"
  shows "account_flat ls prices sn"
proof -
  from assms(1) obtain bals where bals: "rmap (balance_residual ls prices) (sn_balances sn) = Inr bals" "concat bals = []"
    and rest: "sn_unread sn = []" "position_residuals (sn_positions sn) ls = []"
      "(case sn_orders sn of Some n \<Rightarrow> if 0 < n then [\<lparr>re_kind = ''order'', re_name = [], re_reason = ''resting_order''\<rparr>] else []
         | None \<Rightarrow> []) = []"
    by (auto simp: judge_final_def rbind_Inr_iff)
  have "sn_orders sn = Some 0" using rest(3) assms(2) by (auto split: option.splits if_splits)
  moreover have "\<forall>p\<in>set (sn_positions sn). po_side p = ''FLAT''"
    using rest(2) by (simp add: position_residuals_def filter_empty_conv)
  moreover have "is_euro (ba_code b) \<or> fle (ba_free b) (Fin 0) \<or>
        (\<exists>s pc. sell_pair (ba_code b) ls = Some s \<and> constraints_for s ls = Inr pc \<and>
           classify_balance (ba_free b) pc (prices s) = Inr Dust)" if "b \<in> set (sn_balances sn)" for b
    by (rule balance_residual_none, rule rmap_concat_empty [OF bals that])
  ultimately show ?thesis using rest(1) by (simp add: account_flat_def)
qed

text \<open>The sweep cancels first, and once.\<close>

lemma submits_add: "adds (\<lambda>r. r \<noteq> CancelAll) (send_all c stamp i ps)"
proof (induction ps arbitrary: i)
  case (Cons p ps)
  have "adds (\<lambda>r. r \<noteq> CancelAll) (send_leg c stamp (i + 1) p)"
    unfolding send_leg_def Let_def by (intro adds_intros) simp
  with Cons.IH show ?case by (auto intro!: adds_intros)
qed (auto intro: adds_intros)

lemma reads_no_cancel: "reads_only m \<Longrightarrow> adds (\<lambda>r. r \<noteq> CancelAll) m"
  unfolding adds_def by (metis (mono_tags, lifting) is_write.simps(1) list.pred_mono_strong)

lemma after_cancel_adds: "adds (\<lambda>r. r \<noteq> CancelAll) (after_cancel c pl ls stamp)"
  unfolding after_cancel_def spot_pass_def
  by (intro adds_intros submits_add account_reads [THEN reads_no_cancel] read_margin_positions_reads [THEN reads_no_cancel]
      read_snapshot_reads [THEN reads_no_cancel])

lemma sweep_log: "\<exists>rest. snd (sweep_account c pl ls stamp l) = l @ CancelAll # rest \<and> CancelAll \<notin> set rest"
proof -
  have "adds (\<lambda>r. r \<noteq> CancelAll) (unreachable_or
       (sbind (after_cancel c pl ls stamp) (\<lambda>final. give \<lparr>sw_cancel_ok = ok, sw_failed_read = False, sw_final = Some final\<rparr>))
       (\<lambda>_. give \<lparr>sw_cancel_ok = ok, sw_failed_read = True, sw_final = None\<rparr>))" for ok
    by (intro adds_intros after_cancel_adds)
  then obtain rest where "snd (sweep_account c pl ls stamp l) = (l @ [CancelAll]) @ rest" "list_all (\<lambda>r. r \<noteq> CancelAll) rest"
    unfolding sweep_account_def adds_def sbind_def ask_def by (metis (no_types, lifting) old.prod.case old.sum.simps(6))
  then show ?thesis by (auto simp: list_all_iff)
qed

lemma sweep_and_judge_log: "\<exists>rest. snd (sweep_and_judge c e ls pl l) = l @ CancelAll # rest \<and> CancelAll \<notin> set rest"
  using sweep_log [of c pl ls "st_stamp e" l]
  by (cases "sweep_account c pl ls (st_stamp e) l"; cases "fst (sweep_account c pl ls (st_stamp e) l)")
    (auto simp: sweep_and_judge_def sbind_def lift_def give_def split: prod.split sum.split)

lemma sweep_and_judge_code: "fst (sweep_and_judge c e ls pl l) \<noteq> Inr 1 \<and> fst (sweep_and_judge c e ls pl l) \<noteq> Inr 3"
  by (auto simp: sweep_and_judge_def sbind_def lift_def give_def exit_code_def split: prod.split sum.split)
text \<open>Where a run of the button ends.\<close>

lemma run_flatten_cases:
  assumes "run_flatten c e execute [] = (r, trail)"
  obtains (nothing) "trail = []" "r = Inr 1 \<or> r = Inr 3"
  | (read) "trail = snd (pre_write_reads c [])" "r = Inr 1 \<or> r = Inr 3 \<or> \<not> execute \<and> r = Inr 0 \<or> (\<exists>x. r = Inl x)"
  | (swept) ls pl where "execute" "authorised e" "fst (pre_write_reads c []) = Inr (ls, pl)"
      "sweep_and_judge c e ls pl (snd (pre_write_reads c [])) = (r, trail)"
proof -
  let ?got = "unreachable_or (sbind (pre_write_reads c) (\<lambda>p. give (Some p))) (\<lambda>_. give None) []"
  obtain q l1 where pre: "pre_write_reads c [] = (q, l1)" by force
  show thesis
  proof (cases "execute \<and> (\<not> st_kill_file e \<or> \<not> st_terminal e) \<or> \<not> st_venue_online e")
    case True
    with assms have "trail = []" "r = Inr 1 \<or> r = Inr 3" by (auto simp: run_flatten_def split: if_splits)
    then show thesis by (rule nothing)
  next
    case gates: False
    show thesis
    proof (cases q)
      case (Inl x)
      with pre gates assms have "trail = snd (pre_write_reads c [])" "r = Inr 3 \<or> (\<exists>x. r = Inl x)"
        by (auto simp: run_flatten_def sbind_def unreachable_or_def give_def split: if_splits)
      then show thesis by (intro read) auto
    next
      case (Inr p)
      obtain ls pl where p: "p = (ls, pl)" by force
      show thesis
      proof (cases "execute \<and> authorised e")
        case True
        with pre gates assms Inr p have "sweep_and_judge c e ls pl (snd (pre_write_reads c [])) = (r, trail)"
          by (auto simp: run_flatten_def sbind_def unreachable_or_def give_def authorised_def split: option.splits)
        with True pre Inr p show thesis by (intro swept [of ls pl]) auto
      next
        case False
        with pre gates assms Inr p have "trail = snd (pre_write_reads c [])" "r = Inr 1 \<or> \<not> execute \<and> r = Inr 0"
          by (auto simp: run_flatten_def sbind_def unreachable_or_def give_def authorised_def split: option.splits if_splits)
        then show thesis by (intro read) auto
      qed
    qed
  qed
qed

text \<open>
  C4. Nothing is written before it is authorised: a run of the red button either makes read requests only, and then
  never exits 2, nor 0 unless it is a dry run, or it is an execute run with the kill file, a terminal, the venue
  online, the plan shown and the word typed, whose first write is the account-wide cancel, sent once, and which
  exits neither 1 (nothing was sent) nor 3 (unreachable before the first write).
\<close>

theorem writes_only_when_authorised:
  assumes "run_flatten c e execute [] = (r, trail)"
  shows "list_all (\<lambda>q. \<not> is_write q) trail \<and> r \<noteq> Inr 2 \<and> (r = Inr 0 \<longrightarrow> \<not> execute) \<or>
    execute \<and> authorised e \<and> r \<noteq> Inr 1 \<and> r \<noteq> Inr 3 \<and>
    (\<exists>reads rest. trail = reads @ CancelAll # rest \<and> list_all (\<lambda>q. \<not> is_write q) reads \<and> CancelAll \<notin> set rest)"
proof -
  obtain xs where xs: "snd (pre_write_reads c []) = xs" "list_all (\<lambda>q. \<not> is_write q) xs"
    using pre_write_reads_reads [of c] unfolding adds_def by (metis append_Nil)
  from assms show ?thesis
  proof (cases rule: run_flatten_cases)
    case (swept ls pl)
    with sweep_and_judge_log [of c e ls pl xs] sweep_and_judge_code [of c e ls pl xs] xs show ?thesis by auto
  qed (use xs in auto)
qed

text \<open>What a sweep that reads everything did.\<close>

lemma adds_extends: "adds P m \<Longrightarrow> m l = (r, l') \<Longrightarrow> \<exists>xs. l' = l @ xs \<and> list_all P xs"
  unfolding adds_def by (metis snd_conv)

lemma reads_extend: "reads_only m \<Longrightarrow> m l = (r, l') \<Longrightarrow> \<exists>xs. l' = l @ xs \<and> orders_in xs = []"
  using adds_extends orders_in_reads by blast

lemma for_the_record_reads: "reads_only m \<Longrightarrow> reads_only (for_the_record m)"
  by (rule adds_record)

lemma send_all_extends:
  assumes "send_all c stamp i ps l = (r, l')"
  shows "\<exists>os xs. r = Inr os \<and> l' = l @ xs \<and> length os = length ps \<and> orders_in xs = orders_from stamp i ps"
  using send_all_orders [of c stamp i ps l] assms by auto

lemma spot_pass_parts:
  assumes "spot_pass c ls pl stamp i l = (Inr os, l')"
  shows "\<exists>bs s xs. (\<exists>l0. fst (read_balances c l0) = Inr bs) \<and>
    sized_with_constraints (fst (spot_legs bs ls)) ls pl = Inr s \<and> length os = length s \<and>
    l' = l @ xs \<and> orders_in xs = orders_from stamp i s"
proof -
  from assms obtain bs l1 s where bs: "read_balances c l = (Inr bs, l1)"
    and s: "sized_with_constraints (fst (spot_legs bs ls)) ls pl = Inr s" "send_all c stamp i s l1 = (Inr os, l')"
    by (auto simp: spot_pass_def sbind_Inr)
  obtain ys where ys: "l1 = l @ ys" "orders_in ys = []" using reads_extend [OF account_reads(3) bs] by blast
  obtain xs where "l' = l1 @ xs" "length os = length s" "orders_in xs = orders_from stamp i s" using send_all_extends [OF s(2)] by auto
  with ys s bs show ?thesis by (intro exI [of _ bs] exI [of _ s] exI [of _ "ys @ xs"]) (auto intro: exI [of _ l])
qed

lemma after_cancel_parts:
  assumes "after_cancel c pl ls stamp l = (Inr final, l')"
  shows "\<exists>ps bs1 bs2 m s1 s2 xs.
    (\<exists>l0 un. fst (read_margin_positions c ls l0) = Inr (ps, un)) \<and>
    (\<exists>l0. fst (read_balances c l0) = Inr bs1) \<and> (\<exists>l0. fst (read_balances c l0) = Inr bs2) \<and>
    sized_with_constraints (fst (margin_legs ps ls)) ls pl = Inr m \<and>
    sized_with_constraints (fst (spot_legs bs1 ls)) ls pl = Inr s1 \<and>
    sized_with_constraints (fst (spot_legs bs2 ls)) ls pl = Inr s2 \<and>
    orders_in xs = orders_from stamp 0 (m @ s1 @ s2) \<and> read_snapshot c ls False (l @ xs) = (Inr final, l')"
proof -
  from assms obtain l1 ps l2 m closed l3 l4 sold l5 sold2 l6
    where 1: "for_the_record (read_open_orders c) l = (Inr (), l1)"
      and 2: "read_margin_positions c ls l1 = (Inr ps, l2)"
      and 3: "sized_with_constraints (fst (margin_legs (fst ps) ls)) ls pl = Inr m"
      and 4: "send_all c stamp 0 m l2 = (Inr closed, l3)"
      and 5: "for_the_record (read_positions c) l3 = (Inr (), l4)"
      and 6: "spot_pass c ls pl stamp (length closed) l4 = (Inr sold, l5)"
      and 7: "spot_pass c ls pl stamp (length closed + length sold) l5 = (Inr sold2, l6)"
      and 8: "read_snapshot c ls False l6 = (Inr final, l')"
    by (auto simp: after_cancel_def sbind_Inr)
  obtain a where a: "l1 = l @ a" "orders_in a = []" using reads_extend [OF for_the_record_reads [OF account_reads(1)] 1] by blast
  obtain b where b: "l2 = l1 @ b" "orders_in b = []" using reads_extend [OF read_margin_positions_reads 2] by blast
  obtain d where d: "l3 = l2 @ d" "length closed = length m" "orders_in d = orders_from stamp 0 m" using send_all_extends [OF 4] by auto
  obtain e where e: "l4 = l3 @ e" "orders_in e = []" using reads_extend [OF for_the_record_reads [OF account_reads(2)] 5] by blast
  obtain bs1 s1 x1 where s1: "\<exists>l0. fst (read_balances c l0) = Inr bs1" "sized_with_constraints (fst (spot_legs bs1 ls)) ls pl = Inr s1"
      "length sold = length s1" "l5 = l4 @ x1" "orders_in x1 = orders_from stamp (length closed) s1"
    using spot_pass_parts [OF 6] by blast
  obtain bs2 s2 x2 where s2: "\<exists>l0. fst (read_balances c l0) = Inr bs2" "sized_with_constraints (fst (spot_legs bs2 ls)) ls pl = Inr s2"
      "l6 = l5 @ x2" "orders_in x2 = orders_from stamp (length closed + length sold) s2"
    using spot_pass_parts [OF 7] by blast
  let ?xs = "a @ b @ d @ e @ x1 @ x2"
  have "orders_in ?xs = orders_from stamp 0 (m @ s1 @ s2)"
    using a b d e s1 s2 by (simp add: orders_from_append)
  moreover have "read_snapshot c ls False (l @ ?xs) = (Inr final, l')" using 8 a b d e s1 s2 by simp
  moreover have "\<exists>l0 un. fst (read_margin_positions c ls l0) = Inr (fst ps, un)"
    using 2 by (intro exI [of _ l1] exI [of _ "snd ps"]) simp
  ultimately show ?thesis using s1(1,2) s2(1,2) 3 by blast
qed


text \<open>Sizing keeps the legs, and a margin closer is held back only when its quantity floors to nothing.\<close>

lemma size_leg_keeps:
  assumes "size_leg g pc ref = Inr sl"
  shows "sl_leg sl = g \<and> (lg_margin g \<longrightarrow> (sl_send sl \<longleftrightarrow> \<not> fle (sl_qty sl) (Fin 0)))"
  using assms by (auto simp: size_leg_def rbind_Inr_iff Let_def split: if_splits)

lemma sized_keeps:
  assumes "sized_with_constraints gs ls pl = Inr m"
  shows "map (sl_leg \<circ> fst) m = gs" and "q \<in> set m \<Longrightarrow> lg_margin (sl_leg (fst q)) \<Longrightarrow> sl_send (fst q) \<longleftrightarrow> \<not> fle (sl_qty (fst q)) (Fin 0)"
proof -
  from assms have all: "list_all2 (\<lambda>g q. size_leg g (snd q) (pl_prices pl (lg_symbol g)) = Inr (fst q)) gs m"
    by (auto simp: sized_with_constraints_def rmap_Inr_iff rbind_Inr_iff elim!: list_all2_mono)
  then show "map (sl_leg \<circ> fst) m = gs"
    by (induction rule: list_all2_induct) (auto dest: size_leg_keeps)
  from all show "q \<in> set m \<Longrightarrow> lg_margin (sl_leg (fst q)) \<Longrightarrow> sl_send (fst q) \<longleftrightarrow> \<not> fle (sl_qty (fst q)) (Fin 0)"
    by (induction rule: list_all2_induct) (auto dest: size_leg_keeps)
qed

lemma margin_legs_margin: "g \<in> set (fst (margin_legs ps ls)) \<Longrightarrow> lg_margin g"
  by (induction ps) (auto simp: Let_def split: prod.splits option.splits if_splits)

text \<open>
  C37. Every leg gets one order, and nothing else is sent: a sweep that gets through its reads sends, in order, one
  order for each sendable closer of the listed long and short positions it read after the cancel, then for the
  sellable balances of each of the two passes; a closer is held back only when its quantity floors to nothing; no
  two orders share a client id.
\<close>

theorem one_order_per_leg:
  assumes "after_cancel c pl ls stamp l = (Inr final, l')"
  shows "\<exists>ps bs1 bs2 m s1 s2.
    (\<exists>l0 un. fst (read_margin_positions c ls l0) = Inr (ps, un)) \<and>
    (\<exists>l0. fst (read_balances c l0) = Inr bs1) \<and> (\<exists>l0. fst (read_balances c l0) = Inr bs2) \<and>
    map (sl_leg \<circ> fst) m = fst (margin_legs ps ls) \<and> map (sl_leg \<circ> fst) s1 = fst (spot_legs bs1 ls) \<and>
    map (sl_leg \<circ> fst) s2 = fst (spot_legs bs2 ls) \<and>
    (\<forall>q\<in>set m. sl_send (fst q) \<longleftrightarrow> \<not> fle (sl_qty (fst q)) (Fin 0)) \<and>
    orders_in l' = orders_in l @ orders_from stamp 0 (m @ s1 @ s2) \<and>
    distinct (map od_client_id (orders_from stamp 0 (m @ s1 @ s2)))"
proof -
  from after_cancel_parts [OF assms] obtain ps bs1 bs2 m s1 s2 xs where parts:
    "\<exists>l0 un. fst (read_margin_positions c ls l0) = Inr (ps, un)" "\<exists>l0. fst (read_balances c l0) = Inr bs1"
    "\<exists>l0. fst (read_balances c l0) = Inr bs2" "sized_with_constraints (fst (margin_legs ps ls)) ls pl = Inr m"
    "sized_with_constraints (fst (spot_legs bs1 ls)) ls pl = Inr s1" "sized_with_constraints (fst (spot_legs bs2 ls)) ls pl = Inr s2"
    "orders_in xs = orders_from stamp 0 (m @ s1 @ s2)" "read_snapshot c ls False (l @ xs) = (Inr final, l')"
    by blast
  obtain ys where "l' = (l @ xs) @ ys" "orders_in ys = []" using reads_extend [OF read_snapshot_reads parts(8)] by blast
  with parts(7) have "orders_in l' = orders_in l @ orders_from stamp 0 (m @ s1 @ s2)" by simp
  moreover have "\<forall>q\<in>set m. sl_send (fst q) \<longleftrightarrow> \<not> fle (sl_qty (fst q)) (Fin 0)"
  proof
    fix q assume q: "q \<in> set m"
    then have "sl_leg (fst q) \<in> set (fst (margin_legs ps ls))"
      using sized_keeps(1) [OF parts(4)] by (metis comp_apply image_eqI list.set_map)
    from margin_legs_margin [OF this] sized_keeps(2) [OF parts(4) q]
    show "sl_send (fst q) \<longleftrightarrow> \<not> fle (sl_qty (fst q)) (Fin 0)" by simp
  qed
  ultimately show ?thesis
    using parts(1-3) sized_keeps(1) [OF parts(4)] sized_keeps(1) [OF parts(5)] sized_keeps(1) [OF parts(6)]
      orders_from_distinct [of stamp 0 "m @ s1 @ s2"]
    by (intro exI [of _ ps] exI [of _ bs1] exI [of _ bs2] exI [of _ m] exI [of _ s1] exI [of _ s2] conjI)
qed
section \<open>A run on a small account\<close>

text \<open>One long position of one lot, gone after its closer; euros only; no book answers.\<close>

definition demo_client :: client where
  "demo_client =
     \<lparr>cl_orders = (\<lambda>_. Answer (Some 0)),
      cl_positions = (\<lambda>n _. Answer (Some (if n < 8
        then [\<lparr>rp_id = Some ''BTC/EUR.KRAKEN'', rp_side = Some ''LONG'', rp_qty = Number (Fin 1)\<rparr>] else []))),
      cl_balances = (\<lambda>_. Answer (Some [\<lparr>rb_currency = Some (Some ''EUR''), rb_free = Number (Fin 1)\<rparr>])),
      cl_listing = (\<lambda>_. Answer [\<lparr>it_id = Some ''BTC/EUR.KRAKEN'', it_raw = ''BTCEUR'', it_min = Number (Fin 1),
                                 it_lot = Number (Fin 1), it_tick = Number (Fin 1)\<rparr>]),
      cl_cached = (\<lambda>_. True),
      cl_book = (\<lambda>_ _. Failed),
      cl_cancel = (\<lambda>_. True),
      cl_submit = (\<lambda>_ _. True)\<rparr>"

definition demo_setting :: setting where
  "demo_setting = \<lparr>st_kill_file = True, st_terminal = True, st_venue_online = True, st_plan_shown = True,
     st_reply = Some ''FLATTEN'', st_stamp = ''260801120000''\<rparr>"

lemma demo_strings [simp]:
  "upper ''LONG'' = ''LONG''" "after_last_dot ''LONG'' = ''LONG''" "symbol_of ''BTC/EUR.KRAKEN'' = ''BTC/EUR''"
  "base_of ''BTC/EUR'' = ''BTC''" "quote_of ''BTC/EUR'' = Inr ''EUR''" "is_euro ''EUR''" "matches_confirm ''FLATTEN''"
  by code_simp+

lemma demo_listing:
  "listing_of [\<lparr>it_id = Some ''BTC/EUR.KRAKEN'', it_raw = r, it_min = a, it_lot = b, it_tick = d\<rparr>] =
     [(''BTC/EUR'', \<lparr>it_id = Some ''BTC/EUR.KRAKEN'', it_raw = r, it_min = a, it_lot = b, it_tick = d\<rparr>)]"
  by (simp add: listing_of_def Let_def)

lemma demo_floor: "floor_to_step (Fin 1) (Fin 1) = Inr (Fin 1)"
  by (simp add: floor_to_step_def Let_def)

definition demo_order :: order where
  "demo_order = \<lparr>od_instrument = ''BTC/EUR.KRAKEN'', od_client_id = mint_client_order_id ''260801120000'' 1, od_sell = True,
     od_qty = Fin 1, od_reduce_only = True, od_margin = True\<rparr>"

lemmas button_eval = run_flatten_def sbind_def unreachable_or_def give_def fail_def lift_def ask_def pre_write_reads_def
  read_listing_def read_snapshot_def read_open_orders_def read_margin_positions_def position_reports_def read_balances_def
  position_rows_def position_row_of_def balance_row_of_def answered_def required_def as_float_def as_step_def
  build_plan_def wanted_books_def price_of_def read_book_price_def constraints_for_def closing_side_def size_leg_def
  tick_floored_def sweep_and_judge_def sweep_account_def after_cancel_def for_the_record_def read_positions_def spot_pass_def
  sized_with_constraints_def send_leg_def order_of_def judge_final_def position_residuals_def balance_residual_def
  exit_code_def demo_listing demo_floor

definition demo_trail :: log where
  "demo_trail =
     [AskListing, AskOrders, AskPositions None, AskBalances, AskBook ''BTC/EUR.KRAKEN'', CancelAll, AskOrders, AskPositions None,
      Submit demo_order, AskPositions None, AskBalances, AskBalances, AskOrders, AskPositions None, AskBalances]"

lemma demo_sweep_run: "run_flatten demo_client demo_setting True [] = (Inr 0, demo_trail)"
  by (simp add: button_eval demo_client_def demo_setting_def Let_def demo_trail_def demo_order_def)

theorem writes_only_when_authorised_witness:
  "run_flatten demo_client demo_setting True [] = (Inr 0, demo_trail) \<and> authorised demo_setting \<and>
   (\<exists>reads rest. demo_trail = reads @ CancelAll # rest \<and> list_all (\<lambda>q. \<not> is_write q) reads \<and> CancelAll \<notin> set rest)"
  using writes_only_when_authorised [OF demo_sweep_run] demo_sweep_run by simp


definition demo_flatten_plan :: flatten_plan where
  "demo_flatten_plan = \<lparr>pl_margin = [], pl_spot = [], pl_prices = (\<lambda>_. None), pl_constraints = (\<lambda>_. None), pl_unread = []\<rparr>"

lemma demo_after: "fst (after_cancel demo_client demo_flatten_plan (listing_of [\<lparr>it_id = Some ''BTC/EUR.KRAKEN'', it_raw = ''BTCEUR'',
    it_min = Number (Fin 1), it_lot = Number (Fin 1), it_tick = Number (Fin 1)\<rparr>]) ''260801120000'' [CancelAll]) =
    Inr \<lparr>sn_orders = Some 0, sn_positions = [], sn_balances = [\<lparr>ba_code = ''EUR'', ba_free = Fin 1\<rparr>], sn_unread = []\<rparr>"
  "orders_in (snd (after_cancel demo_client demo_flatten_plan (listing_of [\<lparr>it_id = Some ''BTC/EUR.KRAKEN'', it_raw = ''BTCEUR'',
    it_min = Number (Fin 1), it_lot = Number (Fin 1), it_tick = Number (Fin 1)\<rparr>]) ''260801120000'' [CancelAll])) = [demo_order]"
  by (simp_all add: button_eval demo_client_def demo_flatten_plan_def Let_def demo_order_def orders_in_def List.map_filter_def)

theorem one_order_per_leg_witness:
  "\<exists>legs. orders_from ''260801120000'' 0 legs = [demo_order] \<and>
     distinct (map od_client_id (orders_from ''260801120000'' 0 legs))"
proof -
  let ?ls = "listing_of [\<lparr>it_id = Some ''BTC/EUR.KRAKEN'', it_raw = ''BTCEUR'', it_min = Number (Fin 1),
    it_lot = Number (Fin 1), it_tick = Number (Fin 1)\<rparr>]"
  obtain final l' where run: "after_cancel demo_client demo_flatten_plan ?ls ''260801120000'' [CancelAll] = (Inr final, l')"
    using demo_after(1) by (metis prod.collapse)
  then have "orders_in l' = [demo_order]" using demo_after(2) by simp
  with one_order_per_leg [OF run] show ?thesis by (auto simp: orders_in_def List.map_filter_def)
qed

end
