(* ===== verification/TradeGaps.thy ===== *)
theory TradeGaps imports Prelude "HOL-Library.Multiset"
begin

text \<open>
  Missing and duplicated trade ids, \<open>cli/trades/gaps.py\<close>. A frame is the list of its rows' time stamps and ids, an
  id possibly null; a stamp is an int of microseconds. The warning for an inverted pair of stamps is not kept.
\<close>

section \<open>Detection\<close>

record id_gap =
  gp_after :: int
  gp_before :: int
  gp_ts_lo :: int
  gp_ts_hi :: int

definition missing_in :: "id_gap \<Rightarrow> int" where
  "missing_in g = gp_before g - gp_after g - 1"

record detection =
  dt_gaps :: "id_gap list"
  dt_duplicates :: "int list"
  dt_rows :: nat
  dt_unique :: nat
  dt_span :: int
  dt_missing :: int

text \<open>The first row of each id, by ascending id.\<close>

fun first_rows :: "(int \<times> int) list \<Rightarrow> int set \<Rightarrow> (int \<times> int) list" where
  "first_rows [] seen = []"
| "first_rows (r # rs) seen = (if snd r \<in> seen then first_rows rs seen else r # first_rows rs (insert (snd r) seen))"

definition unique_rows :: "(int \<times> int) list \<Rightarrow> (int \<times> int) list" where
  "unique_rows rows = sort_key snd (first_rows rows {})"

fun gaps_between :: "(int \<times> int) list \<Rightarrow> id_gap list" where
  "gaps_between (r # s # rest) =
     (if snd s > snd r + 1
      then [\<lparr>gp_after = snd r, gp_before = snd s, gp_ts_lo = (if fst r > fst s then fst s else fst r),
             gp_ts_hi = (if fst r > fst s then fst r else fst s)\<rparr>]
      else []) @ gaps_between (s # rest)"
| "gaps_between _ = []"

definition duplicate_ids :: "int list \<Rightarrow> int list" where
  "duplicate_ids ids = sort (remdups (filter (\<lambda>i. count_list ids i > 1) ids))"

definition detect :: "(int \<times> int option) list \<Rightarrow> detection res" where
  "detect frame =
     (if frame = [] then Inr \<lparr>dt_gaps = [], dt_duplicates = [], dt_rows = 0, dt_unique = 0, dt_span = 0, dt_missing = 0\<rparr>
      else if \<exists>r\<in>set frame. snd r = None then Inl (TradeBackfillError ''null trade_id in frame; cannot detect gaps'')
      else let rows = map (\<lambda>r. (fst r, the (snd r))) frame; us = unique_rows rows; uids = map snd us;
               span = last uids - hd uids + 1
           in Inr \<lparr>dt_gaps = gaps_between us, dt_duplicates = duplicate_ids (map snd rows), dt_rows = length rows,
                   dt_unique = length uids, dt_span = span, dt_missing = span - int (length uids)\<rparr>)"

section \<open>Lemmas\<close>

lemma first_rows_ids: "snd ` set (first_rows rs seen) = snd ` set rs - seen" "distinct (map snd (first_rows rs seen))"
proof (induction rs arbitrary: seen)
  case (Cons r rs)
  { case 1 with Cons.IH(1) show ?case by auto next
    case 2 with Cons.IH show ?case by (auto simp: image_iff) }
qed auto

lemma unique_rows_ids: "set (map snd (unique_rows rs)) = snd ` set rs" "sorted_wrt (<) (map snd (unique_rows rs))"
proof -
  show "set (map snd (unique_rows rs)) = snd ` set rs" using first_rows_ids(1) [of rs "{}"] by (simp add: unique_rows_def)
  have "distinct (map snd (unique_rows rs))"
    using first_rows_ids(2) [of rs "{}"] by (simp add: unique_rows_def distinct_map)
  then show "sorted_wrt (<) (map snd (unique_rows rs))"
    by (simp add: unique_rows_def strict_sorted_iff)
qed

lemma first_row_kept: "r \<in> set (first_rows rs seen) \<Longrightarrow> List.find (\<lambda>s. snd s = snd r) rs = Some r"
proof (induction rs arbitrary: seen)
  case (Cons a rs)
  show ?case
  proof (cases "r = a")
    case False
    with Cons.prems have r: "r \<in> set (first_rows rs (if snd a \<in> seen then seen else insert (snd a) seen))"
      by (auto split: if_splits)
    then have "snd r \<in> snd ` set rs - (if snd a \<in> seen then seen else insert (snd a) seen)"
      using first_rows_ids(1) by blast
    then have "snd r \<noteq> snd a" by (auto split: if_splits)
    with Cons.IH [OF r] show ?thesis by simp
  qed simp
qed simp

text \<open>The ids strictly inside a gap.\<close>

definition inner_ids :: "id_gap \<Rightarrow> int set" where
  "inner_ids g = {gp_after g <..< gp_before g}"

lemma gaps_between_inner:
  assumes "sorted_wrt (<) (map snd us)" and "us \<noteq> []"
  shows "(\<Union>g\<in>set (gaps_between us). inner_ids g) = {hd (map snd us)..last (map snd us)} - snd ` set us"
  using assms
proof (induction us rule: gaps_between.induct)
  case (1 r s rest)
  let ?ids = "map snd (s # rest)"
  have lt: "snd r < snd s" "\<forall>i\<in>snd ` set rest. snd s < i" using "1.prems" by auto
  moreover have "last ?ids \<in> set ?ids" by (rule last_in_set) simp
  ultimately have last: "snd s \<le> last ?ids" by auto
  have "{snd r..last ?ids} - snd ` set (r # s # rest) = {snd r<..<snd s} \<union> ({snd s..last ?ids} - snd ` set (s # rest))"
    using lt last by auto
  moreover have "(\<Union>g\<in>set (gaps_between (s # rest)). inner_ids g) = {snd s..last ?ids} - snd ` set (s # rest)"
    using "1.IH" "1.prems" by simp
  moreover have "{snd r<..<snd s} = {}" if "\<not> snd s > snd r + 1" using that by auto
  ultimately show ?case by (auto simp: inner_ids_def)
qed (auto simp: inner_ids_def)

lemma gap_rows:
  assumes "sorted_wrt (<) (map snd us)" and "g \<in> set (gaps_between us)"
  shows "\<exists>r s. r \<in> set us \<and> s \<in> set us \<and> gp_after g = snd r \<and> gp_before g = snd s \<and> inner_ids g \<noteq> {} \<and>
    {gp_ts_lo g, gp_ts_hi g} = {fst r, fst s} \<and> gp_ts_lo g \<le> gp_ts_hi g"
  using assms
proof (induction us rule: gaps_between.induct)
  case (1 r s rest)
  show ?case
  proof (cases "g \<in> set (gaps_between (s # rest))")
    case True
    moreover have "sorted_wrt (<) (map snd (s # rest))" using "1.prems"(1) by simp
    ultimately obtain r' s' where "r' \<in> set (s # rest)" "s' \<in> set (s # rest)" "gp_after g = snd r'" "gp_before g = snd s'"
      "inner_ids g \<noteq> {}" "{gp_ts_lo g, gp_ts_hi g} = {fst r', fst s'}" "gp_ts_lo g \<le> gp_ts_hi g"
      using "1.IH" by blast
    then show ?thesis by (intro exI [of _ r'] exI [of _ s']) simp
  next
    case False
    with "1.prems"(2) have "snd r + 1 \<in> inner_ids g" by (auto simp: inner_ids_def split: if_splits)
    then have "inner_ids g \<noteq> {}" by blast
    with False "1.prems"(2) show ?thesis by (intro exI [of _ r] exI [of _ s]) (auto split: if_splits)
  qed
qed auto

lemma gaps_ordered:
  assumes "sorted_wrt (<) (map snd us)"
  shows "sorted_wrt (\<lambda>g h. gp_before g \<le> gp_after h) (gaps_between us)"
  using assms
proof (induction us rule: gaps_between.induct)
  case (1 r s rest)
  have "snd s \<le> gp_after h" if "h \<in> set (gaps_between (s # rest))" for h
    using gap_rows [OF _ that] "1.prems" by fastforce
  with 1 show ?case by (auto simp: sorted_wrt_append)
qed auto

lemma gaps_missing:
  assumes "sorted_wrt (<) (map snd us)" and "us \<noteq> []"
  shows "(\<Sum>g\<leftarrow>gaps_between us. missing_in g) = last (map snd us) - hd (map snd us) + 1 - int (length us)"
  using assms
proof (induction us rule: gaps_between.induct)
  case (1 r s rest)
  have "snd r < snd s" using "1.prems" by simp
  with 1 show ?case by (auto simp: missing_in_def)
qed auto

lemma duplicate_ids_exact:
  "set (duplicate_ids ids) = {i. count_list ids i > 1}" "sorted_wrt (<) (duplicate_ids ids)"
proof -
  have "i \<in> set ids" if "count_list ids i > 1" for i using that count_list_0_iff [of ids i] by fastforce
  then show "set (duplicate_ids ids) = {i. count_list ids i > 1}" by (auto simp: duplicate_ids_def)
  show "sorted_wrt (<) (duplicate_ids ids)" by (simp add: duplicate_ids_def strict_sorted_iff)
qed

lemma sorted_ends: "sorted xs \<Longrightarrow> x \<in> set xs \<Longrightarrow> hd xs \<le> x \<and> x \<le> last xs"
  by (induction xs rule: rev_induct) (auto simp: sorted_append hd_append)

lemma card_absent:
  fixes us :: "(int \<times> int) list"
  assumes "sorted_wrt (<) (map snd us)" and "us \<noteq> []"
  shows "int (card ({hd (map snd us)..last (map snd us)} - snd ` set us)) = last (map snd us) - hd (map snd us) + 1 - int (length us)"
proof -
  let ?ids = "map snd us"
  have ends: "hd ?ids \<in> set ?ids" "last ?ids \<in> set ?ids"
    using assms(2) hd_in_set [of ?ids] last_in_set [of ?ids] by simp_all
  have inside: "set ?ids \<subseteq> {hd ?ids..last ?ids}"
  proof
    fix x assume "x \<in> set ?ids"
    moreover have "sorted ?ids" using assms(1) strict_sorted_iff by blast
    ultimately show "x \<in> {hd ?ids..last ?ids}" using sorted_ends [of ?ids x] by simp
  qed
  have "card (set ?ids) = length us" using assms(1) distinct_card [of ?ids] by (simp add: strict_sorted_iff)
  moreover have "card (set ?ids) \<le> card {hd ?ids..last ?ids}" by (rule card_mono [OF _ inside]) simp
  moreover have "hd ?ids \<le> last ?ids" using inside ends by auto
  ultimately show ?thesis using inside by (simp add: card_Diff_subset of_nat_diff)
qed

section \<open>Properties\<close>

definition ids_of :: "(int \<times> int option) list \<Rightarrow> int list" where
  "ids_of frame = map (\<lambda>r. the (snd r)) frame"

text \<open>
  C40. Gap detection is exact: the ids inside the gaps are just the absent ones between the smallest and the largest
  id, and \<open>missing\<close> counts them; the gaps are ordered and disjoint, each has something missing, its bracketing ids
  are present, and its window is the stamps of their first rows, low to high; the duplicates are the ids that occur
  more than once; and detection fails exactly when an id is null.
\<close>

theorem detect_exact:
  assumes "frame \<noteq> []" and "\<forall>r\<in>set frame. snd r \<noteq> None"
  shows "\<exists>d. detect frame = Inr d \<and>
    (let absent = {Min (set (ids_of frame))..Max (set (ids_of frame))} - set (ids_of frame);
         first = (\<lambda>i. List.find (\<lambda>r. snd r = Some i) frame) in
     (\<Union>g\<in>set (dt_gaps d). inner_ids g) = absent \<and> dt_missing d = int (card absent) \<and>
     dt_missing d = (\<Sum>g\<leftarrow>dt_gaps d. missing_in g) \<and>
     sorted_wrt (\<lambda>g h. gp_before g \<le> gp_after h) (dt_gaps d) \<and>
     (\<forall>g\<in>set (dt_gaps d). inner_ids g \<noteq> {} \<and> gp_ts_lo g \<le> gp_ts_hi g \<and>
        (\<exists>r s. first (gp_after g) = Some r \<and> first (gp_before g) = Some s \<and> {gp_ts_lo g, gp_ts_hi g} = {fst r, fst s})) \<and>
     set (dt_duplicates d) = {i. count_list (ids_of frame) i > 1} \<and> sorted_wrt (<) (dt_duplicates d) \<and>
     dt_rows d = length frame \<and> dt_unique d = card (set (ids_of frame)))"
proof -
  define rows where "rows = map (\<lambda>r. (fst r, the (snd r))) frame"
  let ?us = "unique_rows rows" and ?ids = "set (ids_of frame)"
  have map: "map snd rows = ids_of frame" by (simp add: rows_def ids_of_def)
  then have ids: "snd ` set rows = ?ids" "map snd rows = ids_of frame" by (metis list.set_map)+
  have uids: "snd ` set ?us = ?ids" "sorted_wrt (<) (map snd ?us)" using unique_rows_ids [of rows] ids by simp_all
  have ne: "?us \<noteq> []" using uids(1) assms(1) by (auto simp: ids_of_def)
  have "sorted (map snd ?us)" using uids(2) strict_sorted_iff by blast
  then have ends: "hd (map snd ?us) = Min ?ids" "last (map snd ?us) = Max ?ids"
    using ne uids(1) sorted_ends [of "map snd ?us"] hd_in_set [of "map snd ?us"] last_in_set [of "map snd ?us"]
    by (auto intro!: Min_eqI [symmetric] Max_eqI [symmetric])
  have card: "length ?us = card ?ids"
    using uids distinct_card [of "map snd ?us"] by (simp add: strict_sorted_iff)
  have found: "List.find (\<lambda>r. snd r = Some (snd q)) frame \<noteq> None \<and>
      fst (the (List.find (\<lambda>r. snd r = Some (snd q)) frame)) = fst q" if "q \<in> set ?us" for q
  proof -
    have "q \<in> set (first_rows rows {})" using that by (simp add: unique_rows_def)
    then have "List.find (\<lambda>s. snd s = snd q) rows = Some q" by (rule first_row_kept)
    then show ?thesis using assms(2) unfolding rows_def
    proof (induction frame)
      case (Cons a frame)
      then show ?case by (cases "snd a = Some (snd q)"; cases q) (auto split: if_splits)
    qed simp
  qed
  have gap: "inner_ids g \<noteq> {} \<and> gp_ts_lo g \<le> gp_ts_hi g \<and>
      (\<exists>r s. List.find (\<lambda>r. snd r = Some (gp_after g)) frame = Some r \<and>
         List.find (\<lambda>r. snd r = Some (gp_before g)) frame = Some s \<and> {gp_ts_lo g, gp_ts_hi g} = {fst r, fst s})"
    if "g \<in> set (gaps_between ?us)" for g
    using gap_rows [OF uids(2) that] found by (metis option.exhaust_sel)
  show ?thesis
    using assms gaps_between_inner [OF uids(2) ne] gaps_missing [OF uids(2) ne] card_absent [OF uids(2) ne]
      gaps_ordered [OF uids(2)] gap duplicate_ids_exact [of "ids_of frame"]
    by (simp add: detect_def Let_def rows_def [symmetric] ends uids(1) ids(2) card) (auto simp: rows_def)
qed

theorem detect_exact_witness:
  "\<exists>d. detect [(9, Some 4), (5, Some 1), (7, Some 4)] = Inr d \<and> dt_missing d = 2 \<and>
     set (dt_duplicates d) = {i. count_list [4, 1, 4] i > 1} \<and> (\<Union>g\<in>set (dt_gaps d). inner_ids g) = {1..4} - {4, 1}"
proof -
  have "int (card ({1..4} - {4, 1 :: int})) = 2"
  proof -
    have "{1..4} - {4, 1 :: int} = {2, 3}" by auto
    then show ?thesis by simp
  qed
  moreover have same: "{4, 1, 4} = {4, 1 :: int}" by auto
  moreover obtain d where "detect [(9, Some 4), (5, Some 1), (7, Some 4)] = Inr d"
    "dt_missing d = int (card ({1..4} - {4, 1, 4 :: int}))" "set (dt_duplicates d) = {i. count_list [4, 1, 4] i > 1}"
    "(\<Union>g\<in>set (dt_gaps d). inner_ids g) = {1..4} - {4, 1, 4}"
    using detect_exact [of "[(9, Some 4), (5, Some 1), (7, Some 4)]"] unfolding Let_def ids_of_def by auto
  ultimately show ?thesis unfolding same by simp
qed

end
