(* ===== verification/Spec2Isabelle.thy ===== *)
theory Spec2Isabelle imports LoopProperties CycleProperties CaptureLoop Reconcile SegmentRun Flatten TradeGaps
begin

text \<open>
  A verification development for the core of the Kraken engine: the path from a plan file an operator drops
  to orders at the venue, with the ledger and the gate that path answers to; the red button that flattens the
  account; the capture daemon that keeps order books in step with the venue and writes hourly files; and the
  reconciliation that later merges, settles and repairs the archived hours.

  Parts and theories, in the order they build on each other:

  \<^item> \<open>Prelude\<close>: results (\<open>exn + 'a\<close>), traversals that stop at the first error, runs of operations that may
    raise, and the two locales a store that keeps its well-formedness and a store that writes ahead satisfy.
  \<^item> \<open>PyFloat\<close>, \<open>FloatMono\<close>, \<open>PyValue\<close>: Python's \<open>float\<close> (binary64, round-half-even, the compensated \<open>sum\<close>),
    the monotonicity of its rounding and operations, JSON values, dictionaries and aware datetimes, with the
    errors the operations raise.
  \<^item> \<open>ExecGate\<close>: \<open>cli/engine/execgate.py\<close> and \<open>venue.py\<close>, the arming gate.
  \<^item> \<open>Instruments\<close>, \<open>Assets\<close>, \<open>ProbePlan\<close>: \<open>instruments.py\<close>, the asset aliases of \<open>flatten.py\<close>, the basket of
    \<open>store.py\<close> and \<open>probeplan.py\<close>: sizing, the plan parser and the refusals of a parsed plan.
  \<^item> \<open>ExecLedger\<close>: \<open>execledger.py\<close>, the write-ahead ledger, over a journal keyed by UTC day and hour.
  \<^item> \<open>ExecState\<close>, \<open>ExecFlow\<close>, \<open>ExecEvents\<close>, \<open>ExecTimer\<close>: \<open>executor.py\<close> as one machine: its state, the world it
    asks (clock, control files, venue, cache, disk, each a function of the number of questions so far), the
    chokepoint, the placement ladder, order events, fills, the timer and the acceptance of plans.
  \<^item> \<open>ExecSafety\<close>, \<open>ExecLadder\<close>, \<open>ExecProperties\<close>: invariants over all its runs.
  \<^item> \<open>PyRound\<close>, \<open>DraftLegs\<close>: Python's \<open>round\<close> and \<open>int / int\<close>, and the table of legs in \<open>draftplan.py\<close>: the
    decision of each leg, the trims to the cash and the cap, the plans assembled and the document they become.
  \<^item> \<open>CycleRecord\<close>, \<open>AccumLedger\<close>, \<open>VenueBook\<close>: \<open>journal.py\<close>, the record of a cycle; \<open>accumledger.py\<close>, the record of
    a boundary's draft; the concordance of \<open>venuestate.py\<close> with the executor's reading of the venue's book.
  \<^item> \<open>Adoption\<close>, \<open>AdoptionProperties\<close>: what an executor makes of the orders a previous process left, and of cuts: the
    restored set, the startup pass with its two sweeps of the ledger's rows against the venue, the sockets with the
    watchdog's freeze and its lift, the re-read pass behind a cut, the events of adopted orders.
  \<^item> \<open>WeekScore\<close>: the fills and the drift of \<open>tracking.py\<close> and the scoring of the closed week in \<open>executor.py\<close>.
  \<^item> \<open>CycleDraft\<close>: the accumulation loop of \<open>executor.py\<close>: the executor's machine with the loop's own state; the
    boundary callback, the equity mark with the drawdown trip and the day-loss hold, the draft, the hand-over of its
    plan and the draft record. \<open>LoopProperties\<close>: the invariants of the executor over all runs of the larger machine,
    and what the loop adds.
  \<^item> \<open>PriceStore\<close>, \<open>ModelInputs\<close>: \<open>store.py\<close> with \<open>cli/ohlc/seam.py\<close> and \<open>dataset.py\<close>, the live price store: its door, the seam,
    the seed and the refresh; and what a cycle of \<open>cycle.py\<close> makes of it, the calendars and the model's legs.
  \<^item> \<open>Concordance\<close>: \<open>concordance.py\<close>, the replay of a journaled cycle, the comparison of targets and the gate of clean days.
  \<^item> \<open>VenueLedger\<close>, \<open>ShadowCycle\<close>, \<open>CycleProperties\<close>: \<open>venueledger.py\<close> and \<open>run_cycle\<close> of \<open>cycle.py\<close>: the venue's record, the
    refresh with its settle loop, the snapshots, the intended orders, the record; and what a cycle guarantees, up to the
    gate's replay of it.
  \<^item> \<open>Flatten\<close>: \<open>cli/engine/flatten.py\<close>, the red button: the snapshot of the account, the legs it plans, the
    cancel-all and the sweep, the exit codes, over an oracle for the venue, the clock and the operator.
  \<^item> \<open>DesyncLadder\<close>, \<open>OrderBook\<close>, \<open>GapMonitor\<close>, \<open>CaptureLoop\<close>: \<open>cli/capture/\<close>, the resubscription ladder, the
    book and its checksum, the gap windows and watermark, and the loop of \<open>command.py\<close> that drives the three.
  \<^item> \<open>SegmentDisk\<close>, \<open>SegmentWriter\<close>, \<open>SegmentRun\<close>: \<open>cli/capture/segment_writer.py\<close>: part and final files of a
    stream's hours on a disk that may fail at every step, the hour oracle that guards the exchange's clock, the
    writer and its buffer, and streams of runs with kills and restarts in between.
  \<^item> \<open>Settle\<close>, \<open>Reconcile\<close>: \<open>cli/archive/settle.py\<close> and \<open>reconcile.py\<close>: which hours are settled, dark windows
    of a fleet of mirrors, gaps of the primary, the splice, the residual and the trade union.
  \<^item> \<open>TradeGaps\<close>: \<open>cli/trades/gaps.py\<close>, missing and duplicated trade ids.

  What the lemmas show. A theorem over all worlds and all event lists holds for every behaviour of the
  venue and the disk. The locale \<open>log_invariant\<close> proves once that every operation of the machine keeps a
  predicate that survives quiet effects, ledger writes, a trip and a properly gated order; three
  interpretations give the gate, write-ahead and kill-switch properties. The locale \<open>loop_invariant\<close> extends it to
  the accumulation loop, whose operations touch the executor only through its own actions; every invariant of the
  executor is one of the loop by a \<open>sublocale\<close>, and the ladder's budget is an instance of its own. Between the two stands
  \<open>pass_relation\<close>, the contract of the startup and re-read passes with the executor, proved once for a relation of the
  states before and after: the invariants and the budget are its instances. A \<open>socket_invariant\<close> also survives any change
  of the sockets, and is kept by whole runs (\<open>run_invariant\<close>); the freeze rests on the sockets and has its own argument
  (\<open>chilled\<close>). What an action of a cycle leaves alone is the calculus \<open>leaves\<close>. The rules \<open>yields\<close> say what an action returns, where it does. The locale \<open>run_relation\<close> proves once
  that actions compose along a preorder of states; its three instances separate what only books from what may
  end an intent, and carry the bound on the orders of an intent. The locale \<open>price_side\<close> proves the order book's
  window once for a ranking of prices; bids and asks interpret it. For the segment files \<open>triple\<close> and \<open>within\<close>
  are a small calculus of pre- and postconditions for computations that may fail or be killed at any step: what
  holds at every crash point is proved per operation and composed, so that the run theorems are about
  every interleaving of failures. For the red button an action carries the list of venue calls it made, and the
  lemmas describe that list.

  Bounds and fuel. \<open>pump_loop\<close> counts rounds: each moves the index on or puts an intent in flight, so one more
  than the intents left is enough (\<open>pump_loop_ends\<close>). The settle loop of a cycle is a partial function: it has a value
  once the clock passes the reserve (\<open>settle_loop_ends\<close>). Every other recursion is structural or has a measure.

  Not modelled, and why. Log lines, metrics and the gap gauges are telemetry. The trading library (order
  factory, cache, client), the columnar file library and the operating system enter as answers of a world or
  an oracle. Formatted numbers in the texts of kill reasons and refusals are left out, with the rest of those
  texts kept. In \<open>Adoption\<close> the rows are kept under their own id, so that
  attaching a row again replaces it under every id it is known by, where the code leaves an older copy under an id it
  does not attach again; an event the library publishes while a cancel is still being sent is an event after it; the
  position gauge a pass settles is telemetry. Of \<open>tracking.py\<close> the report and its floor
  are left out, of \<open>draftplan.py\<close> the network reads and the refusals of a hand-drafted plan. In a shadow cycle the
  portfolio builder and SHA-256 are parameters, stamps of the store are microseconds in UTC, and the pings and gauges are left
  out. The research, backtest,
  portfolio, risk and tax parts and the command-line layers of the repository are not modelled.
\<close>

end
